(* ===== verification/Esp_Prelude.thy ===== *)
theory Esp_Prelude
  imports Main "HOL-Library.Word" "HOL-Library.Monad_Syntax"
begin

unbundle bit_operations_syntax

text \<open>
  Shared vocabulary of the development: the machine integers of the C sources (the build targets
  64-bit Linux, so \<open>int\<close> has 32 bits and \<open>size_t\<close> 64), byte memory with checked accesses,
  C strings, big-endian pairs of bytes, C's truncating division, and the lemma collections that
  carry the component proofs.

  The result type of a modelled function is \<open>option\<close> where the C function can leave defined
  behaviour: \<open>None\<close> stands for an access outside an object, a shift by the width or more, or a
  loop that never ends.  A theorem that such a function is \<open>Some\<close> is a memory-safety theorem.
\<close>

named_theorems mem_simps \<open>how checked reads and writes act on memory\<close>
named_theorems word_conv \<open>conversions between machine words and numbers\<close>

section \<open>Machine integers\<close>

type_synonym u8 = "8 word"
type_synonym u16 = "16 word"
type_synonym u32 = "32 word"
type_synonym u64 = "64 word"

text \<open>A C \<open>int\<close>: 32 bits read as two's complement with \<open>sint\<close>.\<close>

type_synonym i32 = "32 word"

text \<open>\<open>size_t\<close> values are natural numbers with the wrap-around at 64 bits written out.\<close>

definition size_add :: "nat \<Rightarrow> nat \<Rightarrow> nat" where
  "size_add a b = (a + b) mod 2 ^ 64"

definition size_sub :: "nat \<Rightarrow> nat \<Rightarrow> nat" where
  "size_sub a b = nat ((int a - int b) mod 2 ^ 64)"

text \<open>The implicit conversion of an \<open>int\<close> operand to \<open>size_t\<close> (sign extension).\<close>

definition size_of_i32 :: "i32 \<Rightarrow> nat" where
  "size_of_i32 i = nat (sint i mod 2 ^ 64)"

lemma size_add_small [simp]: "a + b < 2 ^ 64 \<Longrightarrow> size_add a b = a + b"
  by (simp add: size_add_def)

lemma size_sub_small [simp]: "b \<le> a \<Longrightarrow> a < 2 ^ 64 \<Longrightarrow> size_sub a b = a - b"
  by (simp add: size_sub_def of_nat_diff [symmetric] del: of_nat_diff)

lemma sint_of_nat_small: "n < 2 ^ 31 \<Longrightarrow> sint (of_nat n :: i32) = int n"
  by (simp add: signed_of_nat signed_take_bit_int_eq_self)

lemma sint_eq_int_imp: "sint (i :: i32) = int n \<Longrightarrow> i = of_nat n"
proof -
  assume "sint i = int n"
  moreover have "word_of_int (sint i) = i" by simp
  ultimately have "word_of_int (int n) = i" by (simp only:)
  then show ?thesis by simp
qed

lemma sint_i32_of_int: "- (2 ^ 31) \<le> k \<Longrightarrow> k < 2 ^ 31 \<Longrightarrow> sint (word_of_int k :: i32) = k"
  by (simp add: signed_of_int signed_take_bit_int_eq_self)

lemma unat_u32_of_nat: "n < 2 ^ 32 \<Longrightarrow> unat (of_nat n :: u32) = n"
  by (simp add: unat_of_nat)

lemma size_of_i32_nonneg: "0 \<le> sint i \<Longrightarrow> size_of_i32 i = nat (sint i)"
proof -
  assume "0 \<le> sint i"
  moreover have "sint i < 2 ^ 31" using sint_lt [of i] by simp
  ultimately show ?thesis by (simp add: size_of_i32_def)
qed

lemma size_of_i32_of_nat [simp]: "n < 2 ^ 31 \<Longrightarrow> size_of_i32 (of_nat n) = n"
  by (simp add: size_of_i32_nonneg sint_of_nat_small)

text \<open>A negative \<open>int\<close> becomes a huge \<open>size_t\<close>.\<close>

lemma size_of_i32_neg: "sint i < 0 \<Longrightarrow> 2 ^ 64 - 2 ^ 31 \<le> size_of_i32 i"
proof -
  assume neg: "sint i < 0"
  have lo: "- (2 ^ 31) \<le> sint i" using sint_ge [of i] by simp
  have "(sint i + 2 ^ 64) mod 2 ^ 64 = sint i + 2 ^ 64"
    using neg lo by (intro mod_pos_pos_trivial) simp_all
  then have "sint i mod 2 ^ 64 = sint i + 2 ^ 64" by simp
  with lo show ?thesis by (simp add: size_of_i32_def)
qed

text \<open>C's \<open>/\<close> and \<open>%\<close> truncate towards zero.\<close>

definition c_div :: "int \<Rightarrow> int \<Rightarrow> int" where
  "c_div a b = sgn a * sgn b * (\<bar>a\<bar> div \<bar>b\<bar>)"

definition c_mod :: "int \<Rightarrow> int \<Rightarrow> int" where
  "c_mod a b = a - b * c_div a b"

lemma c_div_nonneg [simp]: "0 \<le> a \<Longrightarrow> 0 < b \<Longrightarrow> c_div a b = a div b"
  by (cases "a = 0") (simp_all add: c_div_def)

lemma c_mod_nonneg [simp]: "0 \<le> a \<Longrightarrow> 0 < b \<Longrightarrow> c_mod a b = a mod b"
  by (simp add: c_mod_def minus_mult_div_eq_mod)

lemma c_div_pos_less: "0 < c_div a 128 \<Longrightarrow> 0 < a \<and> nat (c_div a 128) < nat a"
proof -
  assume pos: "0 < c_div a 128"
  then have "0 < a"
    by (auto simp: c_div_def zero_less_mult_iff sgn_if split: if_splits)
  then show ?thesis by (simp add: nat_less_eq_zless)
qed

text \<open>A left shift of a 32-bit operand: undefined when the distance reaches the width.\<close>

definition shl32 :: "u32 \<Rightarrow> nat \<Rightarrow> u32 option" where
  "shl32 x n = (if n < 32 then Some (push_bit n x) else None)"

section \<open>Bytes\<close>

text \<open>\<open>(hi << 8) | lo\<close> on two bytes, as an \<open>int\<close> that is never negative.\<close>

definition be16 :: "u8 \<Rightarrow> u8 \<Rightarrow> nat" where
  "be16 hi lo = unat ((push_bit 8 (ucast hi) :: i32) OR ucast lo)"

text \<open>The two bytes \<open>n >> 8\<close> and \<open>n & 0xff\<close>.\<close>

definition be16_bytes :: "nat \<Rightarrow> u8 list" where
  "be16_bytes n = [word_of_nat (n div 256), word_of_nat n]"

lemma length_be16_bytes [simp]: "length (be16_bytes n) = 2"
  by (simp add: be16_bytes_def)

lemma u8_less: "unat (b :: u8) < 256"
  using unsigned_less [of b, where ?'a = nat] by simp

lemma be16_eq: "be16 hi lo = unat hi * 256 + unat lo"
proof -
  have disj: "(push_bit 8 (ucast hi) :: i32) AND ucast lo = 0"
    by (rule bit_word_eqI) (auto simp: bit_simps dest: bit_imp_le_length)
  have "(push_bit 8 (ucast hi) :: i32) OR ucast lo = push_bit 8 (ucast hi) + ucast lo"
    using disj by (rule disjunctive_add_eq_or [symmetric])
  moreover have "unat hi < 256" "unat lo < 256"
    by (rule u8_less)+
  ultimately show ?thesis
    by (simp add: be16_def push_bit_eq_mult unat_word_ariths unsigned_ucast_eq take_bit_nat_eq_self)
qed

lemma be16_less: "be16 hi lo < 65536"
  using u8_less [of hi] u8_less [of lo] by (simp add: be16_eq)

lemma be16_be16_bytes:
  "n < 65536 \<Longrightarrow> be16 (word_of_nat (n div 256)) (word_of_nat n) = n"
  by (simp add: be16_eq unat_of_nat)

section \<open>Memory\<close>

text \<open>
  An object of bytes is a list; an access outside it is \<open>None\<close>.  \<open>mem_write\<close> is both an
  assignment of one byte and \<open>memcpy\<close> of several.
\<close>

definition mem_read :: "u8 list \<Rightarrow> nat \<Rightarrow> u8 option" where
  "mem_read m i = (if i < length m then Some (m ! i) else None)"

definition mem_write :: "u8 list \<Rightarrow> nat \<Rightarrow> u8 list \<Rightarrow> u8 list option" where
  "mem_write m i bs =
     (if i + length bs \<le> length m then Some (take i m @ bs @ drop (i + length bs) m) else None)"

text \<open>The source operand of \<open>memcpy(dst, src, n)\<close>.\<close>

definition mem_bytes :: "u8 list \<Rightarrow> nat \<Rightarrow> u8 list option" where
  "mem_bytes m n = (if n \<le> length m then Some (take n m) else None)"

lemma mem_read_in [simp]: "i < length m \<Longrightarrow> mem_read m i = Some (m ! i)"
  by (simp add: mem_read_def)

lemma mem_read_SomeD: "mem_read m i = Some b \<Longrightarrow> i < length m \<and> b = m ! i"
  by (auto simp: mem_read_def split: if_splits)

lemma mem_write_in [simp]:
  "i + length bs \<le> length m \<Longrightarrow> mem_write m i bs = Some (take i m @ bs @ drop (i + length bs) m)"
  by (simp add: mem_write_def)

lemma mem_write_SomeD:
  "mem_write m i bs = Some m' \<Longrightarrow>
     i + length bs \<le> length m \<and> m' = take i m @ bs @ drop (i + length bs) m"
  by (auto simp: mem_write_def split: if_splits)

lemma mem_write_length [mem_simps]: "mem_write m i bs = Some m' \<Longrightarrow> length m' = length m"
  by (auto dest!: mem_write_SomeD)

lemma mem_write_prefix [mem_simps]:
  "mem_write m i bs = Some m' \<Longrightarrow> take (i + length bs) m' = take i m @ bs"
  by (auto dest!: mem_write_SomeD)

lemma mem_write_below [mem_simps]:
  "mem_write m i bs = Some m' \<Longrightarrow> j \<le> i \<Longrightarrow> take j m' = take j m"
  by (auto dest!: mem_write_SomeD simp: min_def)

lemma mem_bytes_full [simp]: "n = length m \<Longrightarrow> mem_bytes m n = Some m"
  by (simp add: mem_bytes_def)

section \<open>C strings\<close>

text \<open>
  A \<open>char *\<close> that may be \<open>NULL\<close> is a \<open>cstr\<close>: \<open>None\<close> for \<open>NULL\<close>, otherwise the bytes
  before the terminating NUL.  \<open>strlen\<close> is the length, and \<open>s[0] == '\\0'\<close> is emptiness.
\<close>

type_synonym cstr = "u8 list option"

definition str_present :: "cstr \<Rightarrow> bool" where
  "str_present s = (case s of None \<Rightarrow> False | Some bs \<Rightarrow> bs \<noteq> [])"

lemma str_present_iff [simp]:
  "str_present None = False" "str_present (Some bs) = (bs \<noteq> [])"
  by (simp_all add: str_present_def)

text \<open>\<open>(int) strlen(s)\<close>\<close>

definition strlen32 :: "u8 list \<Rightarrow> i32" where
  "strlen32 s = of_nat (length s)"

text \<open>ASCII text of the sources as bytes.\<close>

definition ascii :: "string \<Rightarrow> u8 list" where
  "ascii s = map (\<lambda>c. of_nat (of_char c)) s"

lemma length_ascii [simp]: "length (ascii s) = length s"
  by (simp add: ascii_def)

section \<open>Two small interfaces\<close>

text \<open>
  A codec: what \<open>decode\<close> promises about what \<open>encode\<close> produced on the values that can be
  encoded.  The encoders of the components are interpreted as instances.
\<close>

locale codec =
  fixes valid :: "'a \<Rightarrow> bool"
    and encode :: "'a \<Rightarrow> 'b"
    and decode :: "'b \<Rightarrow> 'a option"
  assumes decode_encode: "valid x \<Longrightarrow> decode (encode x) = Some x"
begin

lemma encode_inj: "valid x \<Longrightarrow> valid y \<Longrightarrow> encode x = encode y \<Longrightarrow> x = y"
  by (metis decode_encode option.inject)

lemma encode_inj_on: "inj_on encode {x. valid x}"
  by (auto intro!: inj_onI dest: encode_inj)

end

text \<open>
  A machine with an invariant: every operation that the machine can perform keeps it, so any
  sequence of operations does.
\<close>

locale invariant_machine =
  fixes step :: "'op \<Rightarrow> 's \<Rightarrow> 's"
    and inv :: "'s \<Rightarrow> bool"
  assumes step_inv: "inv s \<Longrightarrow> inv (step op s)"
begin

lemma run_inv: "inv s \<Longrightarrow> inv (fold step ops s)"
  by (induction ops arbitrary: s) (auto intro: step_inv)

end

text \<open>
  A queue served from its front: what is observed to be first, and what remains after advancing.
  Serving it repeatedly yields its contents in order.
\<close>

locale fifo =
  fixes contents :: "'s \<Rightarrow> 'a list"
    and first :: "'s \<Rightarrow> 'a option"
    and advance :: "'s \<Rightarrow> 's"
    and ok :: "'s \<Rightarrow> bool"
  assumes first_contents: "first s = (case contents s of [] \<Rightarrow> None | x # xs \<Rightarrow> Some x)"
    and advance_contents: "ok s \<Longrightarrow> contents s \<noteq> [] \<Longrightarrow> contents (advance s) = tl (contents s)"
    and advance_ok: "ok s \<Longrightarrow> contents s \<noteq> [] \<Longrightarrow> ok (advance s)"
begin

fun serve :: "nat \<Rightarrow> 's \<Rightarrow> 'a list \<times> 's" where
  "serve 0 s = ([], s)"
| "serve (Suc n) s =
     (case first s of None \<Rightarrow> ([], s)
      | Some x \<Rightarrow> (let (xs, s') = serve n (advance s) in (x # xs, s')))"

lemma serve_order: "ok s \<Longrightarrow> fst (serve n s) = take n (contents s)"
proof (induction n arbitrary: s)
  case (Suc n)
  then show ?case
    using first_contents [of s]
    by (cases "contents s") (simp_all add: advance_contents advance_ok case_prod_unfold Let_def)
qed simp

lemma serve_rest: "ok s \<Longrightarrow> contents (snd (serve n s)) = drop n (contents s)"
proof (induction n arbitrary: s)
  case (Suc n)
  then show ?case
    using first_contents [of s]
    by (cases "contents s") (simp_all add: advance_contents advance_ok case_prod_unfold Let_def)
qed simp

end

end
