(* ===== verification/Mqtt_Msg.thy ===== *)
theory Mqtt_Msg
  imports Esp_Prelude
begin

text \<open>
  The MQTT packet layer, \<open>src/esp32sdk/esp-mqtt/lib/mqtt_msg.c\<close> and \<open>mqtt_msg.h\<close>: building
  packets in the connection's output buffer and reading received ones.

  A \<open>mqtt_connection_t\<close> is the record \<open>mqtt_connection\<close>; its \<open>buffer\<close> field holds the bytes of
  the object the C pointer points to, so its list length is the size really allocated, while
  \<open>buffer_length\<close> is what the code believes it to be.  Every builder returns
  \<open>&connection->message\<close> in C; the model returns the updated connection.
  The build defines \<open>CONFIG_MQTT_PROTOCOL_311\<close> (sdkconfig.h), so that branch is the one modelled.
\<close>

section \<open>Types and enumerations of mqtt_msg.h\<close>

datatype mqtt_message_type =
    MQTT_MSG_TYPE_CONNECT | MQTT_MSG_TYPE_CONNACK | MQTT_MSG_TYPE_PUBLISH | MQTT_MSG_TYPE_PUBACK
  | MQTT_MSG_TYPE_PUBREC | MQTT_MSG_TYPE_PUBREL | MQTT_MSG_TYPE_PUBCOMP | MQTT_MSG_TYPE_SUBSCRIBE
  | MQTT_MSG_TYPE_SUBACK | MQTT_MSG_TYPE_UNSUBSCRIBE | MQTT_MSG_TYPE_UNSUBACK
  | MQTT_MSG_TYPE_PINGREQ | MQTT_MSG_TYPE_PINGRESP | MQTT_MSG_TYPE_DISCONNECT

primrec type_code :: "mqtt_message_type \<Rightarrow> i32" where
  "type_code MQTT_MSG_TYPE_CONNECT = 1"
| "type_code MQTT_MSG_TYPE_CONNACK = 2"
| "type_code MQTT_MSG_TYPE_PUBLISH = 3"
| "type_code MQTT_MSG_TYPE_PUBACK = 4"
| "type_code MQTT_MSG_TYPE_PUBREC = 5"
| "type_code MQTT_MSG_TYPE_PUBREL = 6"
| "type_code MQTT_MSG_TYPE_PUBCOMP = 7"
| "type_code MQTT_MSG_TYPE_SUBSCRIBE = 8"
| "type_code MQTT_MSG_TYPE_SUBACK = 9"
| "type_code MQTT_MSG_TYPE_UNSUBSCRIBE = 10"
| "type_code MQTT_MSG_TYPE_UNSUBACK = 11"
| "type_code MQTT_MSG_TYPE_PINGREQ = 12"
| "type_code MQTT_MSG_TYPE_PINGRESP = 13"
| "type_code MQTT_MSG_TYPE_DISCONNECT = 14"

datatype mqtt_connect_return_code =
    CONNECTION_ACCEPTED | CONNECTION_REFUSE_PROTOCOL | CONNECTION_REFUSE_ID_REJECTED
  | CONNECTION_REFUSE_SERVER_UNAVAILABLE | CONNECTION_REFUSE_BAD_USERNAME
  | CONNECTION_REFUSE_NOT_AUTHORIZED

primrec return_code :: "mqtt_connect_return_code \<Rightarrow> i32" where
  "return_code CONNECTION_ACCEPTED = 0"
| "return_code CONNECTION_REFUSE_PROTOCOL = 1"
| "return_code CONNECTION_REFUSE_ID_REJECTED = 2"
| "return_code CONNECTION_REFUSE_SERVER_UNAVAILABLE = 3"
| "return_code CONNECTION_REFUSE_BAD_USERNAME = 4"
| "return_code CONNECTION_REFUSE_NOT_AUTHORIZED = 5"

text \<open>
  Where \<open>message.data\<close> points: nowhere after \<open>memset\<close>, into the connection's own buffer at an
  offset, or at the buffer of an outbox item (set by the client when it resends; items are
  identified by the number of their allocation).
\<close>

datatype data_ptr = NullData | InBuffer nat | ItemData nat

record mqtt_message =
  data :: data_ptr
  length_of :: nat
  fragmented_msg_total_length :: u32
  fragmented_msg_data_offset :: u32

record mqtt_connection =
  message :: mqtt_message
  message_id :: u16
  buffer :: "u8 list"
  buffer_length :: u16

record mqtt_connect_info =
  client_id :: cstr
  username :: cstr
  password :: cstr
  will_topic :: cstr
  will_message :: "u8 list option"
  keepalive :: i32
  will_length :: i32
  will_qos :: i32
  will_retain :: i32
  clean_session :: i32

definition MQTT_MAX_FIXED_HEADER_SIZE :: nat where
  "MQTT_MAX_FIXED_HEADER_SIZE = 5"

section \<open>Reading the first bytes\<close>

definition mqtt_get_type :: "u8 list \<Rightarrow> i32 option" where
  "mqtt_get_type buf = do { b \<leftarrow> mem_read buf 0; Some (drop_bit 4 (ucast b AND 0xf0)) }"

definition mqtt_get_connect_session_present :: "u8 list \<Rightarrow> i32 option" where
  "mqtt_get_connect_session_present buf = do { b \<leftarrow> mem_read buf 2; Some (ucast b AND 0x01) }"

definition mqtt_get_connect_return_code :: "u8 list \<Rightarrow> i32 option" where
  "mqtt_get_connect_return_code buf = do { b \<leftarrow> mem_read buf 3; Some (ucast b) }"

definition mqtt_get_dup :: "u8 list \<Rightarrow> i32 option" where
  "mqtt_get_dup buf = do { b \<leftarrow> mem_read buf 0; Some (drop_bit 3 (ucast b AND 0x08)) }"

definition mqtt_set_dup :: "u8 list \<Rightarrow> u8 list option" where
  "mqtt_set_dup buf = do { b \<leftarrow> mem_read buf 0; mem_write buf 0 [b OR 0x08] }"

definition mqtt_get_qos :: "u8 list \<Rightarrow> i32 option" where
  "mqtt_get_qos buf = do { b \<leftarrow> mem_read buf 0; Some (drop_bit 1 (ucast b AND 0x06)) }"

definition mqtt_get_retain :: "u8 list \<Rightarrow> i32 option" where
  "mqtt_get_retain buf = do { b \<leftarrow> mem_read buf 0; Some (ucast b AND 0x01) }"

section \<open>Appending to the message under construction\<close>

text \<open>\<open>connection->buffer[connection->message.length++] = b\<close>\<close>

definition put_byte :: "mqtt_connection \<Rightarrow> u8 \<Rightarrow> mqtt_connection option" where
  "put_byte c b = do {
     m \<leftarrow> mem_write (buffer c) (length_of (message c)) [b];
     Some (c\<lparr>buffer := m,
             message := (message c)\<lparr>length_of := size_add (length_of (message c)) 1\<rparr>\<rparr>) }"

text \<open>\<open>memcpy(connection->buffer + connection->message.length, s, n); message.length += n\<close>\<close>

definition put_bytes :: "mqtt_connection \<Rightarrow> u8 list \<Rightarrow> nat \<Rightarrow> mqtt_connection option" where
  "put_bytes c s n = do {
     bs \<leftarrow> mem_bytes s n;
     m \<leftarrow> mem_write (buffer c) (length_of (message c)) bs;
     Some (c\<lparr>buffer := m,
             message := (message c)\<lparr>length_of := size_add (length_of (message c)) n\<rparr>\<rparr>) }"

definition append_string :: "mqtt_connection \<Rightarrow> u8 list \<Rightarrow> i32 \<Rightarrow> (i32 \<times> mqtt_connection) option" where
  "append_string c s len =
     (if unat (buffer_length c) < size_add (size_add (length_of (message c)) (size_of_i32 len)) 2
      then Some (-1, c)
      else do {
        c \<leftarrow> put_byte c (ucast (signed_drop_bit 8 len));
        c \<leftarrow> put_byte c (ucast (len AND 0xff));
        c \<leftarrow> put_bytes c s (size_of_i32 len);
        Some (len + 2, c) })"

text \<open>
  \<open>platform_random\<close> of platform_esp32_idf.c.  The source of randomness, \<open>esp_random\<close>, ends in the C
  library's \<open>rand\<close>; it is the parameter \<open>rnd\<close>, a function of the outside world.
\<close>

definition platform_random :: "('w \<Rightarrow> u32 \<times> 'w) \<Rightarrow> i32 \<Rightarrow> 'w \<Rightarrow> i32 \<times> 'w" where
  "platform_random rnd mx w = (let (r, w') = rnd w in (r mod mx, w'))"

text \<open>
  The loop of \<open>append_message_id\<close> draws until it gets a non-zero identifier.  Nothing bounds it,
  so it is partial: \<open>None\<close> if the draws are zero for ever.
\<close>

partial_function (option) choose_message_id ::
    "('w \<Rightarrow> u32 \<times> 'w) \<Rightarrow> u16 \<Rightarrow> 'w \<Rightarrow> (u16 \<times> 'w) option" where
  "choose_message_id rnd mid w =
     (if mid = 0
      then (let (r, w') = platform_random rnd 65535 w in choose_message_id rnd (ucast r) w')
      else Some (mid, w))"

definition append_message_id ::
    "('w \<Rightarrow> u32 \<times> 'w) \<Rightarrow> mqtt_connection \<Rightarrow> u16 \<Rightarrow> 'w \<Rightarrow> (u16 \<times> mqtt_connection \<times> 'w) option" where
  "append_message_id rnd c mid w = do {
     (mid, w) \<leftarrow> choose_message_id rnd mid w;
     (if unat (buffer_length c) < size_add (length_of (message c)) 2 then Some (0, c, w)
      else do {
        c \<leftarrow> put_byte c (ucast (drop_bit 8 mid));
        c \<leftarrow> put_byte c (ucast (mid AND 0xff));
        Some (mid, c, w) }) }"

definition init_message :: "mqtt_connection \<Rightarrow> mqtt_connection" where
  "init_message c = c\<lparr>message := (message c)\<lparr>length_of := MQTT_MAX_FIXED_HEADER_SIZE\<rparr>\<rparr>"

definition fail_message :: "mqtt_connection \<Rightarrow> mqtt_connection" where
  "fail_message c = c\<lparr>message := (message c)\<lparr>data := InBuffer 0, length_of := 0\<rparr>\<rparr>"

text \<open>
  The do-while loop of \<open>fini_message\<close>.  \<open>lens\<close> is the part of the local array \<open>encoded_lens[4]\<close>
  written so far; a fifth write is outside the array.
\<close>

function encode_length_loop :: "int \<Rightarrow> u8 list \<Rightarrow> u8 list option" where
  "encode_length_loop tot lens =
     (let encoded_length = c_mod tot 128; tot' = c_div tot 128;
          encoded_length = (if tot' > 0 then encoded_length OR 0x80 else encoded_length)
      in if 4 \<le> length lens then None
         else if tot' > 0 then encode_length_loop tot' (lens @ [word_of_int encoded_length])
         else Some (lens @ [word_of_int encoded_length]))"
  by pat_completeness auto
termination
  by (relation "measure (\<lambda>(tot, lens). nat tot)") (auto dest: c_div_pos_less)

declare encode_length_loop.simps [simp del]

definition header_byte :: "i32 \<Rightarrow> i32 \<Rightarrow> i32 \<Rightarrow> i32 \<Rightarrow> u8" where
  "header_byte ty dup qos retain =
     ucast (push_bit 4 (ty AND 0x0f) OR push_bit 3 (dup AND 1) OR push_bit 1 (qos AND 3) OR
            (retain AND 1))"

definition fini_message ::
    "mqtt_connection \<Rightarrow> i32 \<Rightarrow> i32 \<Rightarrow> i32 \<Rightarrow> i32 \<Rightarrow> mqtt_connection option" where
  "fini_message c ty dup qos retain = do {
     let message_length =
       (of_nat (size_sub (length_of (message c)) MQTT_MAX_FIXED_HEADER_SIZE) :: i32);
     let total_length =
       (if fragmented_msg_total_length (message c) \<noteq> 0
        then fragmented_msg_total_length (message c) - of_nat MQTT_MAX_FIXED_HEADER_SIZE
        else message_length);
     encoded_lens \<leftarrow> encode_length_loop (sint total_length) [];
     let len_bytes = length encoded_lens;
     (if MQTT_MAX_FIXED_HEADER_SIZE < len_bytes + 1 then Some (fail_message c)
      else do {
        let offs = MQTT_MAX_FIXED_HEADER_SIZE - 1 - len_bytes;
        m \<leftarrow> mem_write (buffer c) offs [header_byte ty dup qos retain];
        m \<leftarrow> mem_write m (offs + 1) encoded_lens;
        Some (c\<lparr>buffer := m,
                message := (message c)\<lparr>
                  length_of := size_of_i32 (message_length + of_nat len_bytes + 1),
                  data := InBuffer offs,
                  fragmented_msg_data_offset :=
                    fragmented_msg_data_offset (message c) - of_nat offs\<rparr>\<rparr>) }) }"

definition mqtt_msg_init :: "u8 list \<Rightarrow> u16 \<Rightarrow> mqtt_connection" where
  "mqtt_msg_init buf len =
     \<lparr>message = \<lparr>data = NullData, length_of = 0,
                 fragmented_msg_total_length = 0, fragmented_msg_data_offset = 0\<rparr>,
      message_id = 0, buffer = buf, buffer_length = len\<rparr>"

section \<open>Reading a received packet\<close>

text \<open>
  The loop that accumulates the remaining length, repeated in three functions:
  \<open>for (i = 1; i < length; ++i) { totlen += (buffer[i] & 0x7f) << (7 * (i - 1)); ... }\<close>.
  The result is the value of \<open>i\<close> after the loop and the accumulated \<open>totlen\<close>.
\<close>

function scan_length :: "u8 list \<Rightarrow> nat \<Rightarrow> nat \<Rightarrow> u32 \<Rightarrow> (nat \<times> u32) option" where
  "scan_length buf len i totlen =
     (if i < len then do {
        b \<leftarrow> mem_read buf i;
        part \<leftarrow> shl32 (ucast (b AND 0x7f)) (7 * (i - 1));
        (if b AND 0x80 = 0 then Some (i + 1, totlen + part)
         else scan_length buf len (i + 1) (totlen + part)) }
      else Some (i, totlen))"
  by pat_completeness auto
termination by (relation "measure (\<lambda>(buf, len, i, totlen). len - i)") auto

text \<open>The same loop of \<open>mqtt_get_id\<close>, which does not accumulate.\<close>

function skip_length :: "u8 list \<Rightarrow> nat \<Rightarrow> nat \<Rightarrow> nat option" where
  "skip_length buf len i =
     (if i < len then do {
        b \<leftarrow> mem_read buf i;
        (if b AND 0x80 = 0 then Some (i + 1) else skip_length buf len (i + 1)) }
      else Some i)"
  by pat_completeness auto
termination by (relation "measure (\<lambda>(buf, len, i). len - i)") auto

declare scan_length.simps [simp del] skip_length.simps [simp del]

text \<open>The pair returned is the total length and \<open>*fixed_size_len\<close>.\<close>

definition mqtt_get_total_length :: "u8 list \<Rightarrow> u16 \<Rightarrow> (u32 \<times> nat) option" where
  "mqtt_get_total_length buf len = do {
     (i, totlen) \<leftarrow> scan_length buf (unat len) 1 0;
     Some (totlen + of_nat i, i) }"

text \<open>\<open>Some None\<close> is the early \<open>return false\<close> of the loop of \<open>mqtt_header_complete\<close>.\<close>

function header_scan :: "u8 list \<Rightarrow> nat \<Rightarrow> nat \<Rightarrow> nat option option" where
  "header_scan buf len i =
     (if i < MQTT_MAX_FIXED_HEADER_SIZE then
        (if len \<le> i then Some None
         else do {
           b \<leftarrow> mem_read buf i;
           (if b AND 0x80 = 0 then Some (Some (i + 1)) else header_scan buf len (i + 1)) })
      else Some (Some i))"
  by pat_completeness auto
termination
  by (relation "measure (\<lambda>(buf, len, i). MQTT_MAX_FIXED_HEADER_SIZE - i)") auto

declare header_scan.simps [simp del]

text \<open>\<open>i\<close> is a \<open>uint16_t\<close> here: the additions of the topic length and of 2 wrap at 65536.\<close>

definition mqtt_header_complete :: "u8 list \<Rightarrow> u16 \<Rightarrow> bool option" where
  "mqtt_header_complete buf len = do {
     r \<leftarrow> header_scan buf (unat len) 1;
     (case r of None \<Rightarrow> Some False
      | Some i \<Rightarrow>
          if unat len \<le> i + 2 then Some False
          else do {
            hi \<leftarrow> mem_read buf i;
            lo \<leftarrow> mem_read buf (i + 1);
            let j = (of_nat (i + 2) :: u16) + of_nat (be16 hi lo);
            qos \<leftarrow> mqtt_get_qos buf;
            let j = (if 0 < sint qos then j + 2 else j);
            Some (j \<le> len) }) }"

text \<open>
  The topic and the payload are returned as their offset in the buffer and their length, \<open>None\<close>
  inside \<open>Some\<close> being the C result \<open>NULL\<close>.  \<open>*length\<close> comes in as the argument \<open>len\<close>.
\<close>

definition mqtt_get_publish_topic :: "u8 list \<Rightarrow> u32 \<Rightarrow> (nat \<times> nat) option option" where
  "mqtt_get_publish_topic buf len = do {
     (i, totlen) \<leftarrow> scan_length buf (unat len) 1 0;
     (if unat len \<le> i + 2 then Some None
      else do {
        hi \<leftarrow> mem_read buf i;
        lo \<leftarrow> mem_read buf (i + 1);
        let topiclen = be16 hi lo;
        (if unat len < i + 2 + topiclen then Some None
         else Some (Some (i + 2, topiclen))) }) }"

text \<open>
  Here \<open>*length\<close> is written on every path, so it is returned beside the pointer.
  \<open>blength\<close> is an \<open>int\<close>: a negative one fails every comparison like 0.
\<close>

definition mqtt_get_publish_data :: "u8 list \<Rightarrow> u32 \<Rightarrow> (nat option \<times> u32) option" where
  "mqtt_get_publish_data buf len = do {
     let blength = nat (sint len);
     (i, totlen) \<leftarrow> scan_length buf blength 1 0;
     let totlen = totlen + of_nat i;
     (if blength \<le> i + 2 then Some (None, 0)
      else do {
        hi \<leftarrow> mem_read buf i;
        lo \<leftarrow> mem_read buf (i + 1);
        let topiclen = be16 hi lo;
        let i = i + 2;
        (if blength \<le> i + topiclen then Some (None, 0)
         else do {
           let i = i + topiclen;
           qos \<leftarrow> mqtt_get_qos buf;
           (if 0 < sint qos \<and> blength \<le> i + 2 then Some (None, 0)
            else do {
              let i = (if 0 < sint qos then i + 2 else i);
              (if sint totlen < int i then Some (None, 0)
               else if sint totlen \<le> int blength then Some (Some i, totlen - of_nat i)
               else Some (Some i, of_nat (blength - i))) }) }) }) }"

definition mqtt_get_id :: "u8 list \<Rightarrow> u16 \<Rightarrow> u16 option" where
  "mqtt_get_id buf len16 = do {
     let len = unat len16;
     (if len < 1 then Some 0
      else do {
        ty \<leftarrow> mqtt_get_type buf;
        (if ty = type_code MQTT_MSG_TYPE_PUBLISH then do {
           i \<leftarrow> skip_length buf len 1;
           (if len \<le> i + 2 then Some 0
            else do {
              hi \<leftarrow> mem_read buf i;
              lo \<leftarrow> mem_read buf (i + 1);
              let topiclen = be16 hi lo;
              let i = i + 2;
              (if len < i + topiclen then Some 0
               else do {
                 let i = i + topiclen;
                 qos \<leftarrow> mqtt_get_qos buf;
                 (if 0 < sint qos then
                    (if len < i + 2 then Some 0
                     else do {
                       hi \<leftarrow> mem_read buf i;
                       lo \<leftarrow> mem_read buf (i + 1);
                       Some (of_nat (be16 hi lo)) })
                  else Some 0) }) }) }
         else if ty \<in> type_code ` {MQTT_MSG_TYPE_PUBACK, MQTT_MSG_TYPE_PUBREC,
                MQTT_MSG_TYPE_PUBREL, MQTT_MSG_TYPE_PUBCOMP, MQTT_MSG_TYPE_SUBACK,
                MQTT_MSG_TYPE_UNSUBACK, MQTT_MSG_TYPE_SUBSCRIBE, MQTT_MSG_TYPE_UNSUBSCRIBE} then
           (if 4 \<le> len then do {
              b \<leftarrow> mem_read buf 1;
              (if b AND 0x80 = 0 then do {
                 hi \<leftarrow> mem_read buf 2;
                 lo \<leftarrow> mem_read buf 3;
                 Some (of_nat (be16 hi lo)) }
               else Some 0) }
            else Some 0)
         else Some 0) }) }"

definition mqtt_has_valid_msg_hdr :: "u8 list \<Rightarrow> u16 \<Rightarrow> bool option" where
  "mqtt_has_valid_msg_hdr buf len =
     (if unat len < 1 then Some False
      else do {
        ty \<leftarrow> mqtt_get_type buf;
        b \<leftarrow> mem_read buf 0;
        (if ty \<in> type_code ` {MQTT_MSG_TYPE_CONNECT, MQTT_MSG_TYPE_CONNACK, MQTT_MSG_TYPE_PUBACK,
              MQTT_MSG_TYPE_PUBREC, MQTT_MSG_TYPE_PUBCOMP, MQTT_MSG_TYPE_SUBACK,
              MQTT_MSG_TYPE_UNSUBACK, MQTT_MSG_TYPE_PINGREQ, MQTT_MSG_TYPE_PINGRESP,
              MQTT_MSG_TYPE_DISCONNECT} then Some (b AND 0x0f = 0)
         else if ty \<in> type_code ` {MQTT_MSG_TYPE_PUBREL, MQTT_MSG_TYPE_SUBSCRIBE,
              MQTT_MSG_TYPE_UNSUBSCRIBE} then Some (b AND 0x0f = 0x02)
         else if ty = type_code MQTT_MSG_TYPE_PUBLISH then do {
           qos \<leftarrow> mqtt_get_qos buf;
           dup \<leftarrow> mqtt_get_dup buf;
           Some (sint qos < 3 \<and> (0 < sint qos \<or> dup = 0)) }
         else Some False) })"

section \<open>Building packets\<close>

text \<open>The flag bits of the CONNECT variable header.\<close>

definition "MQTT_CONNECT_FLAG_USERNAME = (push_bit 7 1 :: u8)"
definition "MQTT_CONNECT_FLAG_PASSWORD = (push_bit 6 1 :: u8)"
definition "MQTT_CONNECT_FLAG_WILL_RETAIN = (push_bit 5 1 :: u8)"
definition "MQTT_CONNECT_FLAG_WILL = (push_bit 2 1 :: u8)"
definition "MQTT_CONNECT_FLAG_CLEAN_SESSION = (push_bit 1 1 :: u8)"

text \<open>
  \<open>struct mqtt_connect_variable_header\<close>: length of the protocol name, \<open>magic\<close>, version, flags and
  keep-alive time, packed in ten bytes; the flags are the eighth.
\<close>

definition connect_variable_header :: "i32 \<Rightarrow> u8 list" where
  "connect_variable_header keep =
     [0, 4] @ ascii ''MQTT'' @ [4, 0, ucast (signed_drop_bit 8 keep), ucast (keep AND 0xff)]"

text \<open>\<open>variable_header->flags |= bits\<close>, the header being at offset \<open>vh\<close> of the buffer.\<close>

definition or_flags :: "mqtt_connection \<Rightarrow> nat \<Rightarrow> u8 \<Rightarrow> mqtt_connection option" where
  "or_flags c vh bits = do {
     b \<leftarrow> mem_read (buffer c) (vh + 7);
     m \<leftarrow> mem_write (buffer c) (vh + 7) [b OR bits];
     Some (c\<lparr>buffer := m\<rparr>) }"

text \<open>
  One field of the payload: \<open>Inl\<close> is the early \<open>return fail_message(connection)\<close>, \<open>Inr\<close> goes on.
\<close>

definition append_or_fail ::
    "mqtt_connection \<Rightarrow> u8 list \<Rightarrow> i32 \<Rightarrow> (mqtt_connection + mqtt_connection) option" where
  "append_or_fail c s len = do {
     (r, c) \<leftarrow> append_string c s len;
     Some (if sint r < 0 then Inl (fail_message c) else Inr c) }"

definition connect_client_id ::
    "mqtt_connection \<Rightarrow> mqtt_connect_info \<Rightarrow> (mqtt_connection + mqtt_connection) option" where
  "connect_client_id c info =
     (if str_present (client_id info)
      then append_or_fail c (the (client_id info)) (strlen32 (the (client_id info)))
      else Some (Inl (fail_message c)))"

definition connect_will ::
    "mqtt_connection \<Rightarrow> nat \<Rightarrow> mqtt_connect_info \<Rightarrow> (mqtt_connection + mqtt_connection) option" where
  "connect_will c vh info =
     (if str_present (will_topic info) then do {
        r \<leftarrow> append_or_fail c (the (will_topic info)) (strlen32 (the (will_topic info)));
        (case r of Inl c \<Rightarrow> Some (Inl c)
         | Inr c \<Rightarrow> do {
             r \<leftarrow> append_or_fail c (case will_message info of None \<Rightarrow> [] | Some m \<Rightarrow> m)
                    (will_length info);
             (case r of Inl c \<Rightarrow> Some (Inl c)
              | Inr c \<Rightarrow> do {
                  c \<leftarrow> or_flags c vh MQTT_CONNECT_FLAG_WILL;
                  c \<leftarrow> (if will_retain info \<noteq> 0 then or_flags c vh MQTT_CONNECT_FLAG_WILL_RETAIN
                       else Some c);
                  c \<leftarrow> or_flags c vh (ucast (push_bit 3 (will_qos info AND 3)));
                  Some (Inr c) }) }) }
      else Some (Inr c))"

definition connect_credential ::
    "mqtt_connection \<Rightarrow> nat \<Rightarrow> cstr \<Rightarrow> u8 \<Rightarrow> (mqtt_connection + mqtt_connection) option" where
  "connect_credential c vh s flag =
     (if str_present s then do {
        r \<leftarrow> append_or_fail c (the s) (strlen32 (the s));
        (case r of Inl c \<Rightarrow> Some (Inl c)
         | Inr c \<Rightarrow> do { c \<leftarrow> or_flags c vh flag; Some (Inr c) }) }
      else Some (Inr c))"

definition mqtt_msg_connect ::
    "mqtt_connection \<Rightarrow> mqtt_connect_info \<Rightarrow> mqtt_connection option" where
  "mqtt_msg_connect c info = do {
     let c = init_message c;
     let vh = length_of (message c);
     (if unat (buffer_length c) < size_add vh 10 then Some (fail_message c)
      else do {
        c \<leftarrow> put_bytes c (connect_variable_header (keepalive info)) 10;
        c \<leftarrow> (if clean_session info \<noteq> 0 then or_flags c vh MQTT_CONNECT_FLAG_CLEAN_SESSION
             else Some c);
        r \<leftarrow> connect_client_id c info;
        (case r of Inl c \<Rightarrow> Some c | Inr c \<Rightarrow> do {
        r \<leftarrow> connect_will c vh info;
        (case r of Inl c \<Rightarrow> Some c | Inr c \<Rightarrow> do {
        r \<leftarrow> connect_credential c vh (username info) MQTT_CONNECT_FLAG_USERNAME;
        (case r of Inl c \<Rightarrow> Some c | Inr c \<Rightarrow> do {
        r \<leftarrow> connect_credential c vh (password info) MQTT_CONNECT_FLAG_PASSWORD;
        (case r of Inl c \<Rightarrow> Some c
         | Inr c \<Rightarrow> fini_message c (type_code MQTT_MSG_TYPE_CONNECT) 0 0 0) }) }) }) }) }"

text \<open>The part of \<open>mqtt_msg_publish\<close> after the identifier: the payload, or its first fragment.\<close>

definition publish_payload ::
    "mqtt_connection \<Rightarrow> u8 list option \<Rightarrow> i32 \<Rightarrow> mqtt_connection option" where
  "publish_payload c payload data_length =
     (let src = (case payload of None \<Rightarrow> [] | Some d \<Rightarrow> d); len = length_of (message c) in
      if unat (buffer_length c) < size_add len (size_of_i32 data_length)
      then do {
        let c = c\<lparr>message := (message c)\<lparr>fragmented_msg_data_offset := of_nat len\<rparr>\<rparr>;
        c \<leftarrow> put_bytes c src (size_sub (unat (buffer_length c)) len);
        Some (c\<lparr>message := (message c)\<lparr>
                  length_of := unat (buffer_length c),
                  fragmented_msg_total_length :=
                    data_length + fragmented_msg_data_offset (message c)\<rparr>\<rparr>) }
      else do {
        c \<leftarrow> put_bytes c src (size_of_i32 data_length);
        Some (c\<lparr>message := (message c)\<lparr>fragmented_msg_total_length := 0\<rparr>\<rparr>) })"

text \<open>
  The out-parameter \<open>*message_id\<close> is threaded: it keeps its old value on the paths that return
  before writing it.
\<close>

definition mqtt_msg_publish ::
    "('w \<Rightarrow> u32 \<times> 'w) \<Rightarrow> mqtt_connection \<Rightarrow> cstr \<Rightarrow> u8 list option \<Rightarrow> i32 \<Rightarrow> i32 \<Rightarrow> i32 \<Rightarrow> u16 \<Rightarrow> 'w \<Rightarrow>
     (mqtt_connection \<times> u16 \<times> 'w) option" where
  "mqtt_msg_publish rnd c topic payload data_length qos retain mid w = do {
     let c = init_message c;
     (if \<not> str_present topic then Some (fail_message c, mid, w)
      else do {
        r \<leftarrow> append_or_fail c (the topic) (strlen32 (the topic));
        (case r of Inl c \<Rightarrow> Some (c, mid, w)
         | Inr c \<Rightarrow> do {
             (mid, c, w) \<leftarrow> (if 0 < sint qos then append_message_id rnd c 0 w
                              else Some (0, c, w));
             (if 0 < sint qos \<and> mid = 0 then Some (fail_message c, mid, w)
              else do {
                c \<leftarrow> publish_payload c payload data_length;
                c \<leftarrow> fini_message c (type_code MQTT_MSG_TYPE_PUBLISH) 0 qos retain;
                Some (c, mid, w) }) }) }) }"

text \<open>\<open>mqtt_msg_puback\<close>, \<open>mqtt_msg_pubrec\<close>, \<open>mqtt_msg_pubrel\<close>, \<open>mqtt_msg_pubcomp\<close>\<close>

definition mqtt_msg_ack ::
    "('w \<Rightarrow> u32 \<times> 'w) \<Rightarrow> mqtt_message_type \<Rightarrow> i32 \<Rightarrow> mqtt_connection \<Rightarrow> u16 \<Rightarrow> 'w \<Rightarrow>
     (mqtt_connection \<times> 'w) option" where
  "mqtt_msg_ack rnd ty qos c mid w = do {
     (r, c, w) \<leftarrow> append_message_id rnd (init_message c) mid w;
     (if r = 0 then Some (fail_message c, w)
      else do { c \<leftarrow> fini_message c (type_code ty) 0 qos 0; Some (c, w) }) }"

definition "mqtt_msg_puback rnd = mqtt_msg_ack rnd MQTT_MSG_TYPE_PUBACK 0"
definition "mqtt_msg_pubrec rnd = mqtt_msg_ack rnd MQTT_MSG_TYPE_PUBREC 0"
definition "mqtt_msg_pubrel rnd = mqtt_msg_ack rnd MQTT_MSG_TYPE_PUBREL 1"
definition "mqtt_msg_pubcomp rnd = mqtt_msg_ack rnd MQTT_MSG_TYPE_PUBCOMP 0"

definition mqtt_msg_subscribe ::
    "('w \<Rightarrow> u32 \<times> 'w) \<Rightarrow> mqtt_connection \<Rightarrow> cstr \<Rightarrow> i32 \<Rightarrow> u16 \<Rightarrow> 'w \<Rightarrow>
     (mqtt_connection \<times> u16 \<times> 'w) option" where
  "mqtt_msg_subscribe rnd c topic qos mid w = do {
     let c = init_message c;
     (if \<not> str_present topic then Some (fail_message c, mid, w)
      else do {
        (mid, c, w) \<leftarrow> append_message_id rnd c 0 w;
        (if mid = 0 then Some (fail_message c, mid, w)
         else do {
           r \<leftarrow> append_or_fail c (the topic) (strlen32 (the topic));
           (case r of Inl c \<Rightarrow> Some (c, mid, w)
            | Inr c \<Rightarrow>
                if unat (buffer_length c) < size_add (length_of (message c)) 1
                then Some (fail_message c, mid, w)
                else do {
                  c \<leftarrow> put_byte c (ucast qos);
                  c \<leftarrow> fini_message c (type_code MQTT_MSG_TYPE_SUBSCRIBE) 0 1 0;
                  Some (c, mid, w) }) }) }) }"

definition mqtt_msg_unsubscribe ::
    "('w \<Rightarrow> u32 \<times> 'w) \<Rightarrow> mqtt_connection \<Rightarrow> cstr \<Rightarrow> u16 \<Rightarrow> 'w \<Rightarrow>
     (mqtt_connection \<times> u16 \<times> 'w) option" where
  "mqtt_msg_unsubscribe rnd c topic mid w = do {
     let c = init_message c;
     (if \<not> str_present topic then Some (fail_message c, mid, w)
      else do {
        (mid, c, w) \<leftarrow> append_message_id rnd c 0 w;
        (if mid = 0 then Some (fail_message c, mid, w)
         else do {
           r \<leftarrow> append_or_fail c (the topic) (strlen32 (the topic));
           (case r of Inl c \<Rightarrow> Some (c, mid, w)
            | Inr c \<Rightarrow> do {
                c \<leftarrow> fini_message c (type_code MQTT_MSG_TYPE_UNSUBSCRIBE) 0 1 0;
                Some (c, mid, w) }) }) }) }"

definition mqtt_msg_pingreq :: "mqtt_connection \<Rightarrow> mqtt_connection option" where
  "mqtt_msg_pingreq c = fini_message (init_message c) (type_code MQTT_MSG_TYPE_PINGREQ) 0 0 0"

definition mqtt_msg_pingresp :: "mqtt_connection \<Rightarrow> mqtt_connection option" where
  "mqtt_msg_pingresp c = fini_message (init_message c) (type_code MQTT_MSG_TYPE_PINGRESP) 0 0 0"

definition mqtt_msg_disconnect :: "mqtt_connection \<Rightarrow> mqtt_connection option" where
  "mqtt_msg_disconnect c = fini_message (init_message c) (type_code MQTT_MSG_TYPE_DISCONNECT) 0 0 0"

end
