(* ===== verification/Mqtt_Wire.thy ===== *)
theory Mqtt_Wire
  imports Mqtt_Msg
begin

text \<open>
  The MQTT 3.1.1 wire format as a specification, and the lemmas that relate the packet layer of
  Mqtt_Msg to it: how each append extends the message under construction, what the length loop of
  \<open>fini_message\<close> computes, what the reading loops do on an encoded length.
\<close>

named_theorems build_simps \<open>what the building blocks of a packet do when there is room\<close>

section \<open>The remaining-length field\<close>

text \<open>MQTT 3.1.1, section 2.2.3: seven bits per byte, least significant first.\<close>

fun remaining_length :: "nat \<Rightarrow> u8 list" where
  "remaining_length n =
     (if n < 128 then [of_nat n] else of_nat (n mod 128 + 128) # remaining_length (n div 128))"

declare remaining_length.simps [simp del]

lemma remaining_length_small: "n < 128 \<Longrightarrow> remaining_length n = [of_nat n]"
  by (subst remaining_length.simps) simp

lemma remaining_length_step:
  "128 \<le> n \<Longrightarrow> remaining_length n = of_nat (n mod 128 + 128) # remaining_length (n div 128)"
  by (subst remaining_length.simps) simp

lemma remaining_length_nonempty [simp]: "remaining_length n \<noteq> []"
  by (subst remaining_length.simps) simp

lemma length_remaining_length_le: "length (remaining_length n) \<le> Suc k \<longleftrightarrow> n < 128 ^ Suc k"
proof (induction k arbitrary: n)
  case 0
  show ?case
    by (subst remaining_length.simps) (cases "remaining_length (n div 128)", auto)
next
  case (Suc k)
  show ?case
  proof (cases "n < 128")
    case True
    have "(128::nat) \<le> 128 ^ Suc (Suc k)" by simp
    with True show ?thesis by (simp add: remaining_length_small del: power_Suc)
  next
    case False
    then have "length (remaining_length n) \<le> Suc (Suc k) \<longleftrightarrow> n div 128 < 128 ^ Suc k"
      by (simp add: remaining_length_step Suc.IH del: power_Suc)
    also have "\<dots> \<longleftrightarrow> n < 128 ^ Suc (Suc k)"
      by (simp add: div_less_iff_less_mult mult.commute)
    finally show ?thesis .
  qed
qed

lemma length_remaining_length_4: "length (remaining_length n) \<le> 4 \<longleftrightarrow> n < 2 ^ 28"
proof -
  have "(128::nat) ^ Suc 3 = 2 ^ 28" "Suc 3 = 4" by simp_all
  then show ?thesis using length_remaining_length_le [of n 3] by metis
qed

lemma or_0x80: "0 \<le> e \<Longrightarrow> e < 128 \<Longrightarrow> (e :: int) OR 0x80 = e + 128"
proof -
  assume e: "0 \<le> e" "e < 128"
  then have "\<not> bit e 7" by (simp add: bit_iff_odd)
  then have "e AND 2 ^ 7 = 0" by (simp only: and_exp_eq_0_iff_not_bit simp_thms)
  then have "e AND 128 = 0" by simp
  then show ?thesis by (simp add: disjunctive_add_eq_or)
qed

lemma encode_length_loop_eq:
  "encode_length_loop (int n) lens =
     (if length lens + length (remaining_length n) \<le> 4
      then Some (lens @ remaining_length n) else None)"
proof (induction n arbitrary: lens rule: remaining_length.induct)
  case (1 n)
  show ?case
  proof (cases "n < 128")
    case True
    then show ?thesis
      by (subst encode_length_loop.simps) (auto simp: remaining_length_small)
  next
    case False
    then have n: "128 \<le> n" and pos: "0 < n div 128" by (auto simp: div_greater_zero_iff)
    have low: "int n mod 128 = int (n mod 128)" by (simp add: zmod_int)
    have "int (n mod 128) OR 0x80 = int (n mod 128 + 128)"
      using or_0x80 [of "int (n mod 128)"] by simp
    then have byte: "(word_of_int ((int n mod 128) OR 0x80) :: u8) = of_nat (n mod 128 + 128)"
      by (simp only: low of_int_of_nat_eq)
    have div: "c_div (int n) 128 = int (n div 128)" by (simp add: zdiv_int)
    show ?thesis
    proof (cases "4 \<le> length lens")
      case True
      then show ?thesis
        using n by (subst encode_length_loop.simps) (simp add: remaining_length_step)
    next
      case short: False
      have "encode_length_loop (int n) lens =
          encode_length_loop (int (n div 128)) (lens @ [of_nat (n mod 128 + 128)])"
        using short pos byte div
        by (subst encode_length_loop.simps) (simp add: Let_def)
      then show ?thesis
        using "1.IH" [OF False, of "lens @ [of_nat (n mod 128 + 128)]"] n
        by (simp add: remaining_length_step)
    qed
  qed
qed

section \<open>Extending the message under construction\<close>

text \<open>
  \<open>app c bs\<close> is the connection after \<open>bs\<close> has been appended; \<open>room c n\<close> says that the
  code's own bound leaves space for \<open>n\<close> more bytes and is not larger than the object.
\<close>

definition app :: "mqtt_connection \<Rightarrow> u8 list \<Rightarrow> mqtt_connection" where
  "app c bs =
     (let n = length_of (message c) in
      c\<lparr>buffer := take n (buffer c) @ bs @ drop (n + length bs) (buffer c),
        message := (message c)\<lparr>length_of := n + length bs\<rparr>\<rparr>)"

definition room :: "mqtt_connection \<Rightarrow> nat \<Rightarrow> bool" where
  "room c n \<longleftrightarrow> unat (buffer_length c) \<le> length (buffer c) \<and>
     length_of (message c) + n \<le> unat (buffer_length c)"

lemma roomD:
  "room c n \<Longrightarrow> length_of (message c) + n \<le> length (buffer c)"
  "room c n \<Longrightarrow> length_of (message c) + n < 65536"
  using unsigned_less [of "buffer_length c", where ?'a = nat] by (auto simp: room_def)

lemma room_mono: "room c n \<Longrightarrow> m \<le> n \<Longrightarrow> room c m"
  by (simp add: room_def)

lemma app_simps [simp]:
  "length_of (message (app c bs)) = length_of (message c) + length bs"
  "data (message (app c bs)) = data (message c)"
  "fragmented_msg_total_length (message (app c bs)) = fragmented_msg_total_length (message c)"
  "fragmented_msg_data_offset (message (app c bs)) = fragmented_msg_data_offset (message c)"
  "buffer_length (app c bs) = buffer_length c"
  "message_id (app c bs) = message_id c"
  by (simp_all add: app_def Let_def)

lemma length_buffer_app [simp]: "room c (length bs) \<Longrightarrow> length (buffer (app c bs)) = length (buffer c)"
  by (auto simp: app_def Let_def dest!: roomD(1))

lemma room_app [simp]: "room c (length bs + n) \<Longrightarrow> room (app c bs) n"
  using room_mono [of c "length bs + n" "length bs"] by (simp add: room_def)

lemma buffer_app: "room c (length bs) \<Longrightarrow>
   take (length_of (message c) + length bs) (buffer (app c bs)) = take (length_of (message c)) (buffer c) @ bs"
  by (auto simp: app_def Let_def dest!: roomD(1))

lemma app_app [simp]:
  "room c (length xs + length ys) \<Longrightarrow> app (app c xs) ys = app c (xs @ ys)"
  by (auto simp: app_def Let_def ac_simps dest!: roomD(1))

lemma put_byte_ok [build_simps]: "room c 1 \<Longrightarrow> put_byte c b = Some (app c [b])"
  using roomD [of c 1] by (simp add: put_byte_def app_def Let_def)

lemma put_bytes_ok [build_simps]:
  "n \<le> length s \<Longrightarrow> room c n \<Longrightarrow> put_bytes c s n = Some (app c (take n s))"
  using roomD [of c n] by (simp add: put_bytes_def mem_bytes_def app_def Let_def)

lemma high_byte_i32 [word_conv]:
  "(ucast (signed_drop_bit 8 (of_nat n :: i32)) :: u8) = of_nat (n div 256)"
proof -
  have div: "n div 256 = drop_bit 8 n" by (simp add: drop_bit_eq_div)
  show ?thesis unfolding div by (rule bit_word_eqI) (auto simp: bit_simps)
qed

lemma low_byte_i32 [word_conv]: "(ucast (of_nat n AND 0xff :: i32) :: u8) = of_nat n"
proof -
  have mask: "(0xff :: i32) = mask 8" by (simp add: mask_eq_exp_minus_1)
  show ?thesis unfolding mask by (rule bit_word_eqI) (auto simp: bit_simps)
qed

lemma high_byte_u16 [word_conv]: "(ucast (drop_bit 8 (m :: u16)) :: u8) = of_nat (unat m div 256)"
proof -
  have div: "unat m div 256 = drop_bit 8 (unat m)" by (simp add: drop_bit_eq_div)
  show ?thesis unfolding div by (rule bit_word_eqI) (auto simp: bit_simps)
qed

lemma low_byte_u16 [word_conv]: "(ucast (m AND 0xff :: u16) :: u8) = of_nat (unat m)"
proof -
  have mask: "(0xff :: u16) = mask 8" by (simp add: mask_eq_exp_minus_1)
  show ?thesis unfolding mask by (rule bit_word_eqI) (auto simp: bit_simps)
qed

lemma append_string_ok:
  assumes "0 \<le> sint len" and "nat (sint len) \<le> length s" and "room c (2 + nat (sint len))"
  shows "append_string c s len =
    Some (len + 2, app c (be16_bytes (nat (sint len)) @ take (nat (sint len)) s))"
proof -
  define n where "n = nat (sint len)"
  have len: "len = of_nat n" using assms(1) by (simp add: n_def)
  have size: "size_of_i32 len = n" using assms(1) by (simp add: n_def size_of_i32_nonneg)
  have room: "room c (2 + n)" using assms(3) by (simp add: n_def)
  then have small: "length_of (message c) + 2 + n < 65536" and fits: "\<not> unat (buffer_length c) < length_of (message c) + n + 2"
    using roomD(2) [of c "2 + n"] by (auto simp: room_def)
  have rooms: "room c (Suc 0)" "room c (Suc (Suc 0))" "room c (Suc (Suc n))"
    using room room_mono [OF room] by simp_all
  have n: "n \<le> length s" using assms(2) by (simp add: n_def)
  show ?thesis
    unfolding n_def [symmetric] append_string_def size
    using small fits rooms n
    by (simp add: build_simps word_conv len be16_bytes_def)
qed

lemma append_string_full:
  assumes "0 \<le> sint len" and "unat (buffer_length c) < length_of (message c) + 2 + nat (sint len)"
    and "length_of (message c) < 65536"
  shows "append_string c s len = Some (-1, c)"
proof -
  have "nat (sint len) < 2 ^ 31" using sint_lt [of len] by simp
  with assms show ?thesis
    by (simp add: append_string_def size_of_i32_nonneg)
qed

lemma sint_strlen32: "length s < 2 ^ 31 \<Longrightarrow> sint (strlen32 s) = int (length s)"
  by (simp add: strlen32_def sint_of_nat_small)

lemma append_or_fail_ok [build_simps]:
  assumes "room c (2 + length s)"
  shows "append_or_fail c s (strlen32 s) = Some (Inr (app c (be16_bytes (length s) @ s)))"
proof -
  have small: "length s < 65534" using roomD(2) [OF assms] by simp
  then have len: "sint (strlen32 s) = int (length s)" by (simp add: sint_strlen32)
  have "sint (strlen32 s + 2) = int (length s + 2)"
    using small sint_of_nat_small [of "length s + 2"] by (simp add: strlen32_def add.commute)
  then show ?thesis
    using append_string_ok [of "strlen32 s" s c] assms len by (simp add: append_or_fail_def)
qed

lemma append_or_fail_full [build_simps]:
  assumes "unat (buffer_length c) < length_of (message c) + 2 + length s"
    and "length_of (message c) < 65536" and "length s < 2 ^ 31"
  shows "append_or_fail c s (strlen32 s) = Some (Inl (fail_message c))"
  using append_string_full [of "strlen32 s" c s] assms
  by (simp add: append_or_fail_def sint_strlen32)

lemma choose_message_id_nonzero: "choose_message_id rnd mid w = Some (m, w') \<Longrightarrow> m \<noteq> 0"
proof -
  assume ret: "choose_message_id rnd mid w = Some (m, w')"
  have "fst (m, w') \<noteq> 0"
  proof (rule choose_message_id.raw_induct [where P = "\<lambda>rnd mid w r. fst r \<noteq> 0", OF _ ret])
    fix f :: "('a \<Rightarrow> u32 \<times> 'a) \<Rightarrow> u16 \<Rightarrow> 'a \<Rightarrow> (u16 \<times> 'a) option" and rnd mid w r
    assume IH: "\<And>rnd mid w r. f rnd mid w = Some r \<Longrightarrow> fst r \<noteq> 0"
      and step: "(if mid = 0 then let (r, w') = platform_random rnd 65535 w in f rnd (ucast r) w'
                  else Some (mid, w)) = Some r"
    then show "fst r \<noteq> 0" by (auto split: if_splits prod.splits)
  qed
  then show ?thesis by simp
qed

lemma choose_message_id_given: "mid \<noteq> 0 \<Longrightarrow> choose_message_id rnd mid w = Some (mid, w)"
  by (simp add: choose_message_id.simps)

lemma append_message_id_ok [build_simps]:
  assumes "choose_message_id rnd mid w = Some (m, w')" and "room c 2"
  shows "append_message_id rnd c mid w = Some (m, app c (be16_bytes (unat m)), w')"
proof -
  have rooms: "room c (Suc 0)" "room c (Suc (Suc 0))"
    using assms(2) room_mono [of c 2] by simp_all
  moreover have "\<not> unat (buffer_length c) < length_of (message c) + 2"
    "length_of (message c) + 2 < 65536"
    using assms(2) roomD(2) [OF assms(2)] by (auto simp: room_def)
  ultimately show ?thesis
    using assms(1) by (simp add: append_message_id_def build_simps word_conv be16_bytes_def)
qed

lemma append_message_id_full [build_simps]:
  assumes "choose_message_id rnd mid w = Some (m, w')"
    and "unat (buffer_length c) < length_of (message c) + 2" and "length_of (message c) < 65536"
  shows "append_message_id rnd c mid w = Some (0, c, w')"
  using assms by (simp add: append_message_id_def)

section \<open>Finishing a message\<close>

text \<open>The bytes that the message now denotes, \<open>message.length\<close> bytes at \<open>message.data\<close>.\<close>

definition message_bytes :: "mqtt_connection \<Rightarrow> u8 list option" where
  "message_bytes c =
     (case data (message c) of
        InBuffer off \<Rightarrow>
          (if off + length_of (message c) \<le> length (buffer c)
           then Some (take (length_of (message c)) (drop off (buffer c))) else None)
      | _ \<Rightarrow> None)"

definition finished :: "mqtt_connection \<Rightarrow> u8 \<Rightarrow> nat \<Rightarrow> nat \<Rightarrow> mqtt_connection" where
  "finished c hdr t n =
     (let lens = remaining_length t; offs = 4 - length lens in
      c\<lparr>buffer := take offs (buffer c) @ hdr # lens @ drop 5 (buffer c),
        message := (message c)\<lparr>length_of := n + length lens + 1, data := InBuffer offs,
          fragmented_msg_data_offset := fragmented_msg_data_offset (message c) - of_nat offs\<rparr>\<rparr>)"

text \<open>
  \<open>n\<close> is the number of bytes after the fixed header that are in the buffer, \<open>t\<close> the number
  announced in it: they differ only for the first fragment of an oversized message.
\<close>

lemma fini_message_eq:
  assumes len: "length_of (message c) = 5 + n" "5 + n \<le> length (buffer c)"
    and small: "t < 2 ^ 28" "n < 2 ^ 28"
    and total: "fragmented_msg_total_length (message c) = 0 \<and> t = n \<or>
                unat (fragmented_msg_total_length (message c)) = 5 + t"
  shows "fini_message c ty dup qos retain = Some (finished c (header_byte ty dup qos retain) t n)"
proof -
  define lens where "lens = remaining_length t"
  have l4: "length lens \<le> 4" using small(1) by (simp add: lens_def length_remaining_length_4)
  have whole: "(of_nat n :: i32) = of_nat t" if "fragmented_msg_total_length (message c) = 0"
    using total that by auto
  have part: "fragmented_msg_total_length (message c) - 5 = of_nat t"
    if "fragmented_msg_total_length (message c) \<noteq> 0"
  proof -
    have "of_nat (unat (fragmented_msg_total_length (message c))) =
        fragmented_msg_total_length (message c)" by simp
    moreover have "unat (fragmented_msg_total_length (message c)) = 5 + t" using total that by auto
    ultimately have "fragmented_msg_total_length (message c) = of_nat (5 + t)" by metis
    then show ?thesis by simp
  qed
  have loop: "encode_length_loop (sint (of_nat t :: i32)) [] = Some lens"
    using small(1) l4 by (simp add: sint_of_nat_small encode_length_loop_eq lens_def)
  have newlen: "size_of_i32 (of_nat n + of_nat (length lens) + 1) = n + length lens + 1"
    using size_of_i32_of_nat [of "n + length lens + 1"] small(2) l4 by (simp add: add.commute)
  show ?thesis
    using len l4 small(2) whole part loop newlen
    by (cases "fragmented_msg_total_length (message c) = 0")
      (simp_all add: fini_message_def MQTT_MAX_FIXED_HEADER_SIZE_def finished_def Let_def
        flip: lens_def)
qed

lemma message_bytes_finished:
  assumes "5 + n \<le> length (buffer c)" and "t < 2 ^ 28"
  shows "message_bytes (finished c hdr t n) =
    Some (hdr # remaining_length t @ take n (drop 5 (buffer c)))"
proof -
  have "length (remaining_length t) \<le> 4" using assms(2) by (simp add: length_remaining_length_4)
  with assms(1) show ?thesis by (simp add: message_bytes_def finished_def Let_def)
qed

lemma finished_simps [simp]:
  "buffer_length (finished c hdr t n) = buffer_length c"
  "data (message (finished c hdr t n)) = InBuffer (4 - length (remaining_length t))"
  "length_of (message (finished c hdr t n)) = n + length (remaining_length t) + 1"
  "fragmented_msg_total_length (message (finished c hdr t n)) =
     fragmented_msg_total_length (message c)"
  "fragmented_msg_data_offset (message (finished c hdr t n)) =
     fragmented_msg_data_offset (message c) - of_nat (4 - length (remaining_length t))"
  by (simp_all add: finished_def Let_def)

lemma length_buffer_finished [simp]:
  "5 \<le> length (buffer c) \<Longrightarrow> t < 2 ^ 28 \<Longrightarrow> length (buffer (finished c hdr t n)) = length (buffer c)"
  using length_remaining_length_4 [of t] by (simp add: finished_def Let_def)

section \<open>Reading an encoded length\<close>

lemma byte_low7 [word_conv]:
  "n < 128 \<Longrightarrow> (of_nat n AND 0x80 :: u8) = 0"
  "n < 128 \<Longrightarrow> (of_nat (n + 128) AND 0x80 :: u8) \<noteq> 0"
  "(of_nat n AND 0x7f :: u8) = of_nat (n mod 128)"
proof -
  have bit7: "bit (of_nat m :: u8) 7 = odd (m div 128)" for m
    by (simp add: bit_simps) (simp add: bit_iff_odd)
  have exp: "(0x80 :: u8) = 2 ^ 7" and mask: "(0x7f :: u8) = mask 7"
    by (simp_all add: mask_eq_exp_minus_1)
  show "(of_nat n AND 0x80 :: u8) = 0" if "n < 128"
    unfolding exp and_exp_eq_0_iff_not_bit using that
    by (simp add: bit7)
  show "(of_nat (n + 128) AND 0x80 :: u8) \<noteq> 0" if "n < 128"
    unfolding exp and_exp_eq_0_iff_not_bit using that
    by (simp add: bit7 div_add_self2 del: of_nat_add)
  show "(of_nat n AND 0x7f :: u8) = of_nat (n mod 128)"
    unfolding mask take_bit_eq_mask [symmetric]
    by (simp only: take_bit_of_nat) (simp add: take_bit_eq_mod)
qed

lemma ucast_low7: "(ucast (of_nat n AND 0x7f :: u8) :: u32) = of_nat (n mod 128)"
  by (simp only: byte_low7(3)) (simp add: unsigned_of_nat take_bit_nat_eq_self)

lemma take_drop_ConsD:
  assumes "take (Suc k) (drop i xs) = b # bs"
  shows "i < length xs" "xs ! i = b" "take k (drop (Suc i) xs) = bs"
proof -
  show i: "i < length xs" using assms by (cases "i < length xs") auto
  show "xs ! i = b" "take k (drop (Suc i) xs) = bs"
    using assms by (simp_all flip: Cons_nth_drop_Suc [OF i])
qed

lemma scan_length_encoded:
  assumes "take (length (remaining_length n)) (drop i buf) = remaining_length n"
    and "i + length (remaining_length n) \<le> len" and "1 \<le> i" and "i + length (remaining_length n) \<le> 6"
  shows "scan_length buf len i acc =
    Some (i + length (remaining_length n), acc + push_bit (7 * (i - 1)) (of_nat n))"
  using assms
proof (induction n arbitrary: i acc rule: remaining_length.induct)
  case (1 n)
  obtain b bs where rl: "remaining_length n = b # bs" by (cases "remaining_length n") auto
  then have in_buf: "i < length buf" and bi: "buf ! i = b"
    and rest: "take (length bs) (drop (Suc i) buf) = bs"
    using take_drop_ConsD [of "length bs" i buf b bs] "1.prems"(1) by simp_all
  have i: "i < len" "7 * (i - 1) < 32" using "1.prems" rl by auto
  show ?case
  proof (cases "n < 128")
    case True
    then have "b = of_nat n" using rl by (simp add: remaining_length_small)
    with True show ?thesis
      using i in_buf bi rl ucast_low7 [of n]
      by (subst scan_length.simps) (simp add: shl32_def word_conv remaining_length_small)
  next
    case False
    then have b: "b = of_nat (n mod 128 + 128)" and bs: "bs = remaining_length (n div 128)"
      using rl by (simp_all add: remaining_length_step)
    have cont: "b AND 0x80 \<noteq> 0" using byte_low7(2) [of "n mod 128"] by (simp add: b)
    have low: "(ucast (b AND 0x7f) :: u32) = of_nat (n mod 128)"
      using ucast_low7 [of "n mod 128 + 128"] by (simp add: b)
    have shift: "7 * i = 7 * (i - 1) + 7" using "1.prems"(3) by simp
    have sum: "push_bit (7 * (i - 1)) (of_nat (n mod 128)) + push_bit (7 * i) (of_nat (n div 128)) =
        (push_bit (7 * (i - 1)) (of_nat n) :: u32)"
    proof -
      have "(of_nat n :: u32) = of_nat (n mod 128) + of_nat (n div 128) * 128"
        by (metis mod_div_mult_eq of_nat_add of_nat_mult of_nat_numeral)
      then show ?thesis
        by (simp only: shift push_bit_eq_mult power_add) (simp add: algebra_simps)
    qed
    have "scan_length buf len (i + 1) (acc + push_bit (7 * (i - 1)) (of_nat (n mod 128))) =
        Some (i + 1 + length bs,
              acc + push_bit (7 * (i - 1)) (of_nat (n mod 128)) + push_bit (7 * (i + 1 - 1)) (of_nat (n div 128)))"
      using "1.IH" [OF False, of "i + 1"] "1.prems" rl rest unfolding bs [symmetric] by simp
    then have "scan_length buf len (i + 1) (acc + push_bit (7 * (i - 1)) (of_nat (n mod 128))) =
        Some (i + 1 + length bs, acc + push_bit (7 * (i - 1)) (of_nat n))"
      using sum by (simp add: add.assoc)
    then show ?thesis
      using i in_buf bi cont low rl by (subst scan_length.simps) (simp add: shl32_def)
  qed
qed

lemma skip_length_encoded:
  assumes "take (length (remaining_length n)) (drop i buf) = remaining_length n"
    and "i + length (remaining_length n) \<le> len"
  shows "skip_length buf len i = Some (i + length (remaining_length n))"
  using assms
proof (induction n arbitrary: i rule: remaining_length.induct)
  case (1 n)
  obtain b bs where rl: "remaining_length n = b # bs" by (cases "remaining_length n") auto
  then have in_buf: "i < length buf" and bi: "buf ! i = b"
    and rest: "take (length bs) (drop (Suc i) buf) = bs"
    using take_drop_ConsD [of "length bs" i buf b bs] "1.prems"(1) by simp_all
  have i: "i < len" using "1.prems" rl by auto
  show ?case
  proof (cases "n < 128")
    case True
    then have "b AND 0x80 = 0" "length (remaining_length n) = 1"
      using rl byte_low7(1) [of n] by (simp_all add: remaining_length_small)
    then show ?thesis using i in_buf bi by (subst skip_length.simps) simp
  next
    case False
    then have b: "b = of_nat (n mod 128 + 128)" and bs: "bs = remaining_length (n div 128)"
      using rl by (simp_all add: remaining_length_step)
    have cont: "b AND 0x80 \<noteq> 0" using byte_low7(2) [of "n mod 128"] by (simp add: b)
    have "skip_length buf len (i + 1) = Some (i + 1 + length bs)"
      using "1.IH" [OF False, of "i + 1"] "1.prems" rl rest unfolding bs [symmetric] by simp
    then show ?thesis
      using i in_buf bi cont rl by (subst skip_length.simps) simp
  qed
qed

end
