(* ===== verification/Mqtt_Packets.thy ===== *)
theory Mqtt_Packets
  imports Mqtt_Wire
begin

text \<open>
  The packets of MQTT 3.1.1 as byte strings, and the theorems that the builders of Mqtt_Msg
  produce exactly these, that the readers recover what was put in, that neither leaves its buffer,
  and where they do not.
\<close>

section \<open>The fixed header\<close>

text \<open>Four adjacent bit fields packed into a byte can each be read back.\<close>

lemma packed_fields:
  fixes a b c d :: i32
  assumes "w0 \<le> s1" "s1 + w1 \<le> s2" "s2 + w2 \<le> s3" "s3 + w3 \<le> 8"
  defines "h \<equiv> (ucast (push_bit s3 (a AND mask w3) OR push_bit s2 (b AND mask w2) OR
                  push_bit s1 (c AND mask w1) OR (d AND mask w0)) :: u8)"
  shows "drop_bit s3 (ucast h AND push_bit s3 (mask w3)) = a AND mask w3"
    and "drop_bit s2 (ucast h AND push_bit s2 (mask w2)) = b AND mask w2"
    and "drop_bit s1 (ucast h AND push_bit s1 (mask w1)) = c AND mask w1"
    and "ucast h AND mask w0 = d AND mask w0"
  unfolding h_def by (rule bit_word_eqI; use assms(1-4) in \<open>auto simp: bit_simps\<close>)+

lemma header_byte_fields [build_simps]:
  "drop_bit 4 (ucast (header_byte ty dup qos retain) AND 0xf0 :: i32) = ty AND 0x0f"
  "drop_bit 3 (ucast (header_byte ty dup qos retain) AND 0x08 :: i32) = dup AND 1"
  "drop_bit 1 (ucast (header_byte ty dup qos retain) AND 0x06 :: i32) = qos AND 3"
  "ucast (header_byte ty dup qos retain) AND 1 = (retain AND 1 :: i32)"
  using packed_fields [of 1 1 2 3 1 4 4 ty dup qos retain]
  by (simp_all add: header_byte_def mask_eq_exp_minus_1 push_bit_eq_mult)

section \<open>The packets as byte strings\<close>

text \<open>Specification: fixed header, remaining length, and the rest of the packet.\<close>

definition mqtt_packet :: "mqtt_message_type \<Rightarrow> i32 \<Rightarrow> i32 \<Rightarrow> i32 \<Rightarrow> u8 list \<Rightarrow> u8 list" where
  "mqtt_packet ty dup qos retain rest =
     header_byte (type_code ty) dup qos retain # remaining_length (length rest) @ rest"

definition utf8_field :: "u8 list \<Rightarrow> u8 list" where
  "utf8_field s = be16_bytes (length s) @ s"

definition publish_rest :: "i32 \<Rightarrow> u8 list \<Rightarrow> u16 \<Rightarrow> u8 list \<Rightarrow> u8 list" where
  "publish_rest qos topic mid payload =
     utf8_field topic @ (if 0 < sint qos then be16_bytes (unat mid) else []) @ payload"

definition publish_packet :: "i32 \<Rightarrow> i32 \<Rightarrow> u8 list \<Rightarrow> u16 \<Rightarrow> u8 list \<Rightarrow> u8 list" where
  "publish_packet qos retain topic mid payload =
     mqtt_packet MQTT_MSG_TYPE_PUBLISH 0 qos retain (publish_rest qos topic mid payload)"

definition connect_flags :: "mqtt_connect_info \<Rightarrow> u8" where
  "connect_flags info =
     (if clean_session info \<noteq> 0 then 0x02 else 0) OR
     (if str_present (will_topic info)
      then 0x04 OR (if will_retain info \<noteq> 0 then 0x20 else 0) OR
           ucast (push_bit 3 (will_qos info AND 3)) else 0) OR
     (if str_present (username info) then 0x80 else 0) OR
     (if str_present (password info) then 0x40 else 0)"

definition connect_payload :: "mqtt_connect_info \<Rightarrow> u8 list" where
  "connect_payload info =
     utf8_field (the (client_id info)) @
     (if str_present (will_topic info)
      then utf8_field (the (will_topic info)) @
           utf8_field (take (nat (sint (will_length info))) (the (will_message info))) else []) @
     (if str_present (username info) then utf8_field (the (username info)) else []) @
     (if str_present (password info) then utf8_field (the (password info)) else [])"

definition connect_rest :: "mqtt_connect_info \<Rightarrow> u8 list" where
  "connect_rest info =
     [0, 4, 0x4d, 0x51, 0x54, 0x54, 4, connect_flags info,
      ucast (signed_drop_bit 8 (keepalive info)), ucast (keepalive info AND 0xff)] @
     connect_payload info"

lemma length_utf8_field [simp]: "length (utf8_field s) = 2 + length s"
  by (simp add: utf8_field_def)

section \<open>Finishing what has been appended to an initialised message\<close>

text \<open>
  \<open>fits c n\<close>: the connection believes in no more memory than it has, and \<open>n\<close> bytes fit behind
  the space reserved for the fixed header.
\<close>

definition fits :: "mqtt_connection \<Rightarrow> nat \<Rightarrow> bool" where
  "fits c n \<longleftrightarrow> unat (buffer_length c) \<le> length (buffer c) \<and>
     MQTT_MAX_FIXED_HEADER_SIZE + n \<le> unat (buffer_length c)"

lemma init_message_simps [simp]:
  "length_of (message (init_message c)) = 5" "buffer (init_message c) = buffer c"
  "buffer_length (init_message c) = buffer_length c"
  "fragmented_msg_total_length (message (init_message c)) = fragmented_msg_total_length (message c)"
  "fragmented_msg_data_offset (message (init_message c)) = fragmented_msg_data_offset (message c)"
  by (simp_all add: init_message_def MQTT_MAX_FIXED_HEADER_SIZE_def)

lemma room_init: "room (init_message c) n \<longleftrightarrow> fits c n"
  by (simp add: room_def fits_def MQTT_MAX_FIXED_HEADER_SIZE_def)

lemma fitsD: "fits c n \<Longrightarrow> 5 + n \<le> length (buffer c)" "fits c n \<Longrightarrow> n < 65536"
  using unsigned_less [of "buffer_length c", where ?'a = nat]
  by (auto simp: fits_def MQTT_MAX_FIXED_HEADER_SIZE_def)

lemma fits_mono: "fits c n \<Longrightarrow> m \<le> n \<Longrightarrow> fits c m"
  by (simp add: fits_def)

text \<open>What a builder that succeeds leaves behind.\<close>

definition built :: "mqtt_connection \<Rightarrow> u8 list \<Rightarrow> mqtt_connection \<Rightarrow> bool" where
  "built c p c' \<longleftrightarrow> message_bytes c' = Some p \<and> length_of (message c') = length p \<and>
     buffer_length c' = buffer_length c \<and> length (buffer c') = length (buffer c)"

lemma fini_whole:
  assumes "fits c (length bs)" and "fragmented_msg_total_length (message c) = 0"
  shows "fini_message (app (init_message c) bs) (type_code ty) dup qos retain =
      Some (finished (app (init_message c) bs) (header_byte (type_code ty) dup qos retain)
              (length bs) (length bs))"
    and "built c (mqtt_packet ty dup qos retain bs)
      (finished (app (init_message c) bs) (header_byte (type_code ty) dup qos retain)
              (length bs) (length bs))"
proof -
  let ?c = "app (init_message c) bs"
  have room: "room (init_message c) (length bs)" using assms(1) by (simp add: room_init)
  have len: "5 + length bs \<le> length (buffer ?c)" and small: "length bs < 2 ^ 28"
    using fitsD [OF assms(1)] room by simp_all
  have "take (5 + length bs) (buffer ?c) = take 5 (buffer c) @ bs"
    using buffer_app [OF room] by simp
  then have "take (length bs) (drop 5 (buffer ?c)) = bs"
    using len room by (simp add: take_drop add.commute)
  then show "built c (mqtt_packet ty dup qos retain bs)
      (finished ?c (header_byte (type_code ty) dup qos retain) (length bs) (length bs))"
    using message_bytes_finished [OF len small] len small room
    by (simp add: built_def mqtt_packet_def)
  show "fini_message ?c (type_code ty) dup qos retain =
      Some (finished ?c (header_byte (type_code ty) dup qos retain) (length bs) (length bs))"
    using len small assms(2) by (intro fini_message_eq) simp_all
qed

section \<open>The builders produce the specified packets\<close>

text \<open>
  The building blocks on an initialised message, with their room stated as an inequality that
  linear arithmetic discharges.
\<close>

named_theorems init_simps \<open>building blocks on an initialised message\<close>

lemma app_Nil [simp]: "app c [] = c"
  by (simp add: app_def Let_def)

lemma fits_room: "fits c (length bs + n) \<Longrightarrow> room (app (init_message c) bs) n"
  by (simp add: room_init)

lemma init_append_string [init_simps]:
  assumes "fits c (length bs + (2 + length s))"
  shows "append_or_fail (app (init_message c) bs) s (strlen32 s) =
    Some (Inr (app (init_message c) (bs @ utf8_field s)))"
  using append_or_fail_ok [OF fits_room [OF assms]] assms
  by (simp add: utf8_field_def room_init)

lemma init_append_mem [init_simps]:
  assumes "0 \<le> sint len" "nat (sint len) \<le> length s" "fits c (length bs + (2 + nat (sint len)))"
  shows "append_or_fail (app (init_message c) bs) s len =
    Some (Inr (app (init_message c) (bs @ utf8_field (take (nat (sint len)) s))))"
proof -
  define k where "k = nat (sint len)"
  have len: "len = of_nat k" using assms(1) by (simp add: k_def)
  have "k < 65534" using fitsD(2) [OF assms(3)] by (simp add: k_def)
  then have "sint (of_nat k + 2 :: i32) = int (k + 2)"
    using sint_of_nat_small [of "k + 2"] by (simp add: add.commute)
  then have "\<not> sint (len + 2) < 0" by (simp only: len)
  then show ?thesis
    using append_string_ok [OF assms(1,2) fits_room [OF assms(3)]] assms
    by (simp add: append_or_fail_def utf8_field_def room_init min_absorb2)
qed

lemma init_append_id [init_simps]:
  assumes "choose_message_id rnd mid w = Some (m, w')" and "fits c (length bs + 2)"
  shows "append_message_id rnd (app (init_message c) bs) mid w =
    Some (m, app (init_message c) (bs @ be16_bytes (unat m)), w')"
  using append_message_id_ok [OF assms(1) fits_room [OF assms(2)]] assms(2)
  by (simp add: room_init)

lemma init_put_byte [init_simps]:
  "fits c (length bs + 1) \<Longrightarrow> put_byte (app (init_message c) bs) b = Some (app (init_message c) (bs @ [b]))"
  using put_byte_ok [OF fits_room] by (simp add: room_init)

lemma init_put_bytes [init_simps]:
  "fits c (length bs + n) \<Longrightarrow> n \<le> length s \<Longrightarrow>
     put_bytes (app (init_message c) bs) s n = Some (app (init_message c) (bs @ take n s))"
  using put_bytes_ok [OF _ fits_room] by (simp add: room_init min_absorb2)

lemmas init_nil_simps [init_simps] =
  init_append_string [of _ "[]", unfolded app_Nil append_Nil list.size(3) add_0]
  init_append_id [of _ _ _ _ _ _ "[]", unfolded app_Nil append_Nil list.size(3) add_0]
  init_put_bytes [of _ "[]", unfolded app_Nil append_Nil list.size(3) add_0]

lemma ack_built:
  assumes "fits c 2" and "fragmented_msg_total_length (message c) = 0"
    and "choose_message_id rnd mid w = Some (m, w')"
  shows "\<exists>c'. mqtt_msg_ack rnd ty qos c mid w = Some (c', w') \<and>
    built c (mqtt_packet ty 0 qos 0 (be16_bytes (unat m))) c'"
proof -
  have "m \<noteq> 0" using assms(3) by (rule choose_message_id_nonzero)
  then show ?thesis
    using assms fini_whole [of c "be16_bytes (unat m)" ty 0 qos 0]
    by (simp add: mqtt_msg_ack_def init_simps)
qed

lemma subscribe_built:
  assumes "fits c (5 + length topic)" and "fragmented_msg_total_length (message c) = 0"
    and "topic \<noteq> []" and "choose_message_id rnd 0 w = Some (m, w')"
  shows "\<exists>c'. mqtt_msg_subscribe rnd c (Some topic) qos mid w = Some (c', m, w') \<and>
    built c (mqtt_packet MQTT_MSG_TYPE_SUBSCRIBE 0 1 0
               (be16_bytes (unat m) @ utf8_field topic @ [ucast qos])) c'"
proof -
  have id: "m \<noteq> 0" using assms(4) by (rule choose_message_id_nonzero)
  have small: "length topic < 65536 - 5" using fitsD(2) [OF assms(1)] by simp
  show ?thesis
    using assms id small
      fini_whole [of c "be16_bytes (unat m) @ utf8_field topic @ [ucast qos]"
        MQTT_MSG_TYPE_SUBSCRIBE 0 1 0]
    by (simp add: mqtt_msg_subscribe_def init_simps fits_def MQTT_MAX_FIXED_HEADER_SIZE_def)
qed

lemma unsubscribe_built:
  assumes "fits c (4 + length topic)" and "fragmented_msg_total_length (message c) = 0"
    and "topic \<noteq> []" and "choose_message_id rnd 0 w = Some (m, w')"
  shows "\<exists>c'. mqtt_msg_unsubscribe rnd c (Some topic) mid w = Some (c', m, w') \<and>
    built c (mqtt_packet MQTT_MSG_TYPE_UNSUBSCRIBE 0 1 0
               (be16_bytes (unat m) @ utf8_field topic)) c'"
proof -
  have id: "m \<noteq> 0" using assms(4) by (rule choose_message_id_nonzero)
  then show ?thesis
    using assms
      fini_whole [of c "be16_bytes (unat m) @ utf8_field topic" MQTT_MSG_TYPE_UNSUBSCRIBE 0 1 0]
    by (simp add: mqtt_msg_unsubscribe_def init_simps fits_def MQTT_MAX_FIXED_HEADER_SIZE_def)
qed

subsection \<open>CONNECT\<close>

text \<open>The variable header with flags \<open>f\<close>, followed by what has been appended so far.\<close>

definition connect_sofar :: "mqtt_connect_info \<Rightarrow> u8 \<Rightarrow> u8 list \<Rightarrow> u8 list" where
  "connect_sofar info f post =
     [0, 4, 0x4d, 0x51, 0x54, 0x54, 4, f,
      ucast (signed_drop_bit 8 (keepalive info)), ucast (keepalive info AND 0xff)] @ post"

lemma length_connect_sofar [simp]: "length (connect_sofar info f post) = 10 + length post"
  by (simp add: connect_sofar_def)

lemma connect_sofar_append [simp]: "connect_sofar info f post @ xs = connect_sofar info f (post @ xs)"
  by (simp add: connect_sofar_def)

lemma connect_variable_header_eq: "connect_variable_header (keepalive info) = connect_sofar info 0 []"
  by (simp add: connect_variable_header_def connect_sofar_def ascii_def)

lemma init_or_flags:
  assumes "fits c (10 + length post)"
  shows "or_flags (app (init_message c) (connect_sofar info f post)) 5 bits =
    Some (app (init_message c) (connect_sofar info (f OR bits) post))"
proof -
  have "12 < length (buffer c)" "10 + length post \<le> length (buffer c)"
    using fitsD(1) [OF assms] by simp_all
  then show ?thesis
    by (simp add: or_flags_def app_def Let_def connect_sofar_def mem_read_def mem_write_def
        nth_append min_def nth_Cons' drop_Cons')
qed

lemma connect_client_id_ok:
  assumes "client_id info = Some cid" "cid \<noteq> []" "fits c (12 + length post + length cid)"
  shows "connect_client_id (app (init_message c) (connect_sofar info f post)) info =
    Some (Inr (app (init_message c) (connect_sofar info f (post @ utf8_field cid))))"
  using assms
  by (simp add: connect_client_id_def init_append_string fits_def MQTT_MAX_FIXED_HEADER_SIZE_def)

lemma connect_credential_ok:
  assumes "str_present s \<longrightarrow> fits c (12 + length post + length (the s))"
  shows "connect_credential (app (init_message c) (connect_sofar info f post)) 5 s flag =
    Some (Inr (app (init_message c)
      (connect_sofar info (if str_present s then f OR flag else f)
        (post @ (if str_present s then utf8_field (the s) else [])))))"
  using assms
  by (simp add: connect_credential_def init_append_string init_or_flags fits_def
      MQTT_MAX_FIXED_HEADER_SIZE_def)

definition will_flags :: "mqtt_connect_info \<Rightarrow> u8" where
  "will_flags info =
     (if str_present (will_topic info)
      then 0x04 OR (if will_retain info \<noteq> 0 then 0x20 else 0) OR
           ucast (push_bit 3 (will_qos info AND 3)) else 0)"

definition will_payload :: "mqtt_connect_info \<Rightarrow> u8 list" where
  "will_payload info =
     (if str_present (will_topic info)
      then utf8_field (the (will_topic info)) @
           utf8_field (take (nat (sint (will_length info))) (the (will_message info))) else [])"

text \<open>A will message is as long as \<open>will_length\<close> says.\<close>

definition will_ok :: "mqtt_connect_info \<Rightarrow> bool" where
  "will_ok info \<longleftrightarrow> str_present (will_topic info) \<longrightarrow>
     (\<exists>m. will_message info = Some m \<and> sint (will_length info) = int (length m))"

lemma or_4_32 [simp]: "(4 :: u8) OR (32 OR x) = 36 OR x"
  by (simp flip: or.assoc)

lemma connect_will_ok:
  assumes "will_ok info" and "fits c (10 + length post + length (will_payload info))"
  shows "connect_will (app (init_message c) (connect_sofar info f post)) 5 info =
    Some (Inr (app (init_message c)
      (connect_sofar info (f OR will_flags info) (post @ will_payload info))))"
proof (cases "str_present (will_topic info)")
  case True
  with assms(1) obtain m where m: "will_message info = Some m" "sint (will_length info) = int (length m)"
    by (auto simp: will_ok_def)
  then show ?thesis
    using assms(2) True
    by (simp add: connect_will_def init_append_string init_append_mem init_or_flags fits_def
        MQTT_MAX_FIXED_HEADER_SIZE_def will_flags_def will_payload_def
        MQTT_CONNECT_FLAG_WILL_def MQTT_CONNECT_FLAG_WILL_RETAIN_def or.assoc)
next
  case False
  then show ?thesis by (simp add: connect_will_def will_flags_def will_payload_def)
qed

lemma connect_rest_eq:
  "connect_rest info = connect_sofar info (connect_flags info) (connect_payload info)"
  by (simp add: connect_rest_def connect_sofar_def)

lemma connect_built:
  assumes "fits c (length (connect_rest info))" and "fragmented_msg_total_length (message c) = 0"
    and "str_present (client_id info)" and "will_ok info"
  shows "\<exists>c'. mqtt_msg_connect c info = Some c' \<and>
    built c (mqtt_packet MQTT_MSG_TYPE_CONNECT 0 0 0 (connect_rest info)) c'"
proof -
  obtain cid where cid: "client_id info = Some cid" "cid \<noteq> []"
    using assms(3) by (auto simp: str_present_def split: option.splits)
  let ?f0 = "if clean_session info \<noteq> 0 then 0x02 else 0 :: u8"
  let ?wu = "connect_sofar info (?f0 OR will_flags info)
     (utf8_field cid @ will_payload info)"
  have payload: "connect_payload info = utf8_field cid @ will_payload info @
      (if str_present (username info) then utf8_field (the (username info)) else []) @
      (if str_present (password info) then utf8_field (the (password info)) else [])"
    by (simp add: connect_payload_def will_payload_def cid)
  have flags: "connect_flags info = (?f0 OR will_flags info) OR
      (if str_present (username info) then 0x80 else 0) OR
      (if str_present (password info) then 0x40 else 0)"
    by (simp add: connect_flags_def will_flags_def or.assoc)
  have room: "fits c (10 + length (connect_payload info))"
    using assms(1) by (simp add: connect_rest_eq)
  have vh: "\<not> unat (buffer_length c) < 15"
    using room by (simp add: fits_def MQTT_MAX_FIXED_HEADER_SIZE_def)
  have user: "str_present (username info) \<longrightarrow>
      fits c (12 + length (utf8_field cid @ will_payload info) + length (the (username info)))"
    and pass: "str_present (password info) \<longrightarrow>
      fits c (12 + length ((utf8_field cid @ will_payload info) @
        (if str_present (username info) then utf8_field (the (username info)) else [])) +
        length (the (password info)))"
    and will: "fits c (10 + length (utf8_field cid) + length (will_payload info))"
    and cidr: "fits c (12 + length ([] :: u8 list) + length cid)"
    and base: "fits c (10 + length ([] :: u8 list))"
    using room fits_mono [OF room] by (auto simp: payload)
  have s1: "put_bytes (init_message c) (connect_variable_header (keepalive info)) 10 =
      Some (app (init_message c) (connect_sofar info 0 []))"
    using init_put_bytes [of c "[]" 10 "connect_sofar info 0 []"] base
    by (simp add: connect_variable_header_eq)
  have s2: "(if clean_session info \<noteq> 0
       then or_flags (app (init_message c) (connect_sofar info 0 [])) 5 MQTT_CONNECT_FLAG_CLEAN_SESSION
       else Some (app (init_message c) (connect_sofar info 0 []))) =
      Some (app (init_message c) (connect_sofar info ?f0 []))"
    using init_or_flags [OF base] by (simp add: MQTT_CONNECT_FLAG_CLEAN_SESSION_def)
  note s3 = connect_client_id_ok [OF cid cidr, of ?f0, unfolded append_Nil]
  note s4 = connect_will_ok [OF assms(4) will, of ?f0]
  note s5 = connect_credential_ok [OF user, of info "?f0 OR will_flags info" MQTT_CONNECT_FLAG_USERNAME]
  note s6 = connect_credential_ok [OF pass, of info "if str_present (username info)
      then (?f0 OR will_flags info) OR MQTT_CONNECT_FLAG_USERNAME else ?f0 OR will_flags info"
      MQTT_CONNECT_FLAG_PASSWORD]
  have last: "connect_sofar info
      (if str_present (password info)
       then (if str_present (username info)
             then (?f0 OR will_flags info) OR MQTT_CONNECT_FLAG_USERNAME
             else ?f0 OR will_flags info) OR MQTT_CONNECT_FLAG_PASSWORD
       else (if str_present (username info)
             then (?f0 OR will_flags info) OR MQTT_CONNECT_FLAG_USERNAME
             else ?f0 OR will_flags info))
      (((utf8_field cid @ will_payload info) @
        (if str_present (username info) then utf8_field (the (username info)) else [])) @
       (if str_present (password info) then utf8_field (the (password info)) else [])) =
      connect_rest info"
    by (simp add: connect_rest_eq payload flags MQTT_CONNECT_FLAG_USERNAME_def
        MQTT_CONNECT_FLAG_PASSWORD_def or.assoc)
  have "mqtt_msg_connect c info =
      fini_message (app (init_message c) (connect_rest info)) (type_code MQTT_MSG_TYPE_CONNECT) 0 0 0"
    unfolding mqtt_msg_connect_def Let_def
    by (simp only: init_message_simps size_add_small vh if_False s1 s2 s3 s4 s5 s6 last
        Option.bind.simps sum.case) (simp add: vh)
  then show ?thesis
    using fini_whole [OF assms(1,2), of MQTT_MSG_TYPE_CONNECT 0 0 0] by simp
qed

subsection \<open>PUBLISH\<close>

text \<open>The part of a PUBLISH packet before the payload.\<close>

definition publish_head :: "i32 \<Rightarrow> u8 list \<Rightarrow> u16 \<Rightarrow> u8 list" where
  "publish_head qos topic mid =
     utf8_field topic @ (if 0 < sint qos then be16_bytes (unat mid) else [])"

lemma publish_rest_eq: "publish_rest qos topic mid payload = publish_head qos topic mid @ payload"
  by (simp add: publish_rest_def publish_head_def)

text \<open>The identifier of a PUBLISH: drawn for QoS 1 and 2, zero for QoS 0.\<close>

definition publish_id :: "('w \<Rightarrow> u32 \<times> 'w) \<Rightarrow> i32 \<Rightarrow> 'w \<Rightarrow> (u16 \<times> 'w) option" where
  "publish_id rnd qos w = (if 0 < sint qos then choose_message_id rnd 0 w else Some (0, w))"

lemma publish_step:
  assumes "fits c (length (publish_head qos topic m))" and "topic \<noteq> []"
    and "publish_id rnd qos w = Some (m, w')"
  shows "mqtt_msg_publish rnd c (Some topic) payload len qos retain mid w = do {
     c \<leftarrow> publish_payload (app (init_message c) (publish_head qos topic m)) payload len;
     c \<leftarrow> fini_message c (type_code MQTT_MSG_TYPE_PUBLISH) 0 qos retain;
     Some (c, m, w') }"
proof (cases "0 < sint qos")
  case True
  then have "m \<noteq> 0" and "choose_message_id rnd 0 w = Some (m, w')"
    using assms(3) choose_message_id_nonzero [of rnd 0 w m w'] by (auto simp: publish_id_def)
  then show ?thesis
    using assms(1,2) True
    by (simp add: mqtt_msg_publish_def publish_head_def init_simps fits_def)
next
  case False
  then show ?thesis
    using assms by (simp add: mqtt_msg_publish_def publish_head_def publish_id_def init_simps fits_def)
qed

definition set_total :: "mqtt_connection \<Rightarrow> u32 \<Rightarrow> mqtt_connection" where
  "set_total c t = c\<lparr>message := (message c)\<lparr>fragmented_msg_total_length := t\<rparr>\<rparr>"

definition set_offset :: "mqtt_connection \<Rightarrow> u32 \<Rightarrow> mqtt_connection" where
  "set_offset c t = c\<lparr>message := (message c)\<lparr>fragmented_msg_data_offset := t\<rparr>\<rparr>"

lemma set_total_simps [simp]:
  "fits (set_total c t) n = fits c n"
  "fragmented_msg_total_length (message (set_total c t)) = t"
  "fragmented_msg_data_offset (message (set_total c t)) = fragmented_msg_data_offset (message c)"
  "built (set_total c t) p c' = built c p c'"
  "set_total (app (init_message c) bs) t = app (init_message (set_total c t)) bs"
  "buffer (set_total c t) = buffer c" "buffer_length (set_total c t) = buffer_length c"
  "length_of (message (set_total c t)) = length_of (message c)"
  by (simp_all add: set_total_def fits_def built_def app_def Let_def init_message_def)

lemma set_offset_simps [simp]:
  "fits (set_offset c t) n = fits c n"
  "fragmented_msg_data_offset (message (set_offset c t)) = t"
  "fragmented_msg_total_length (message (set_offset c t)) = fragmented_msg_total_length (message c)"
  "built (set_offset c t) p c' = built c p c'"
  "set_offset (app (init_message c) bs) t = app (init_message (set_offset c t)) bs"
  "buffer (set_offset c t) = buffer c" "buffer_length (set_offset c t) = buffer_length c"
  "length_of (message (set_offset c t)) = length_of (message c)"
  by (simp_all add: set_offset_def fits_def built_def app_def Let_def init_message_def)

lemma publish_built:
  assumes "fits c (length (publish_rest qos topic m d))" and "topic \<noteq> []"
    and "publish_id rnd qos w = Some (m, w')" and "sint len = int (length d)"
  shows "\<exists>c'. mqtt_msg_publish rnd c (Some topic) (Some d) len qos retain mid w = Some (c', m, w') \<and>
    built c (publish_packet qos retain topic m d) c' \<and>
    fragmented_msg_total_length (message c') = 0"
proof -
  have room: "fits c (length (publish_head qos topic m) + length d)"
    and head: "fits c (length (publish_head qos topic m))"
    using assms(1) fits_mono [OF assms(1)] by (simp_all add: publish_rest_eq)
  have small: "5 + length (publish_head qos topic m) + length d \<le> unat (buffer_length c)"
    using room by (simp add: fits_def MQTT_MAX_FIXED_HEADER_SIZE_def)
  have size: "size_of_i32 len = length d" using assms(4) by (simp add: size_of_i32_nonneg)
  have "publish_payload (app (init_message c) (publish_head qos topic m)) (Some d) len =
      Some (set_total (app (init_message c) (publish_rest qos topic m d)) 0)"
    using small room unsigned_less [of "buffer_length c", where ?'a = nat]
    by (simp add: publish_payload_def size init_put_bytes publish_rest_eq set_total_def Let_def)
  then show ?thesis
    using publish_step [OF head assms(2,3), of "Some d" len retain mid]
      fini_whole [of "set_total c 0" "publish_rest qos topic m d" MQTT_MSG_TYPE_PUBLISH 0 qos retain]
      assms(1)
    by (simp add: publish_packet_def)
qed

text \<open>
  The connection in which an oversized message is being built: the place of the payload and the
  length of the whole message have been noted, \<open>k\<close> bytes of the payload fit.
\<close>

definition fragmenting :: "mqtt_connection \<Rightarrow> u8 list \<Rightarrow> u8 list \<Rightarrow> mqtt_connection" where
  "fragmenting c h d =
     set_total (set_offset c (of_nat (5 + length h))) (of_nat (5 + (length h + length d)))"

lemma fragmenting_simps [simp]:
  "buffer (fragmenting c h d) = buffer c" "buffer_length (fragmenting c h d) = buffer_length c"
  "fits (fragmenting c h d) n = fits c n"
  "fragmented_msg_data_offset (message (fragmenting c h d)) = of_nat (5 + length h)"
  "fragmented_msg_total_length (message (fragmenting c h d)) = of_nat (5 + (length h + length d))"
  by (simp_all add: fragmenting_def)

lemma publish_payload_fragment:
  assumes fits: "fits c (length h)" and len: "sint len = int (length d)"
    and over: "unat (buffer_length c) < 5 + (length h + length d)"
  defines "k \<equiv> unat (buffer_length c) - (5 + length h)"
  shows "publish_payload (app (init_message c) h) (Some d) len =
    Some (app (init_message (fragmenting c h d)) (h @ take k d))"
proof -
  let ?bl = "unat (buffer_length c)"
  have bounds: "5 + length h \<le> ?bl" "?bl \<le> length (buffer c)" "?bl < 65536"
    using fits unsigned_less [of "buffer_length c", where ?'a = nat]
    by (simp_all add: fits_def MQTT_MAX_FIXED_HEADER_SIZE_def)
  have d_small: "length d < 2 ^ 31" using len sint_lt [of len] by simp
  have pos: "0 \<le> sint len" and size: "size_of_i32 len = length d"
    using len by (simp_all add: size_of_i32_nonneg)
  from pos have "len = of_nat (nat (sint len))" by simp
  then have len_word: "len = of_nat (length d)" by (simp only: len nat_int)
  have k: "length h + k = ?bl - 5" "k < length d" "5 + (length h + k) = ?bl"
    using bounds over by (auto simp: k_def)
  have fits_k: "fits c (length h + k)"
    using bounds k by (simp add: fits_def MQTT_MAX_FIXED_HEADER_SIZE_def)
  let ?o = "set_offset c (word_of_nat (5 + length h))"
  have off: "set_offset (app (init_message c) h) (word_of_nat (5 + length h)) =
      app (init_message ?o) h" by simp
  have put: "put_bytes (app (init_message ?o) h) d k = Some (app (init_message ?o) (h @ take k d))"
    using fits_k k by (intro init_put_bytes) simp_all
  have sum: "word_of_nat (5 + length h) + len = (word_of_nat (5 + (length h + length d)) :: u32)"
    by (simp add: len_word)
  have "size_add (5 + length h) (length d) = 5 + (length h + length d)"
    "size_sub ?bl (5 + length h) = k"
    using d_small bounds by (simp_all add: k_def)
  then have "publish_payload (app (init_message c) h) (Some d) len =
      do { c' \<leftarrow> put_bytes (set_offset (app (init_message c) h) (of_nat (5 + length h))) d k;
           Some (c'\<lparr>message := (message c')\<lparr>length_of := unat (buffer_length c'),
             fragmented_msg_total_length := len + fragmented_msg_data_offset (message c')\<rparr>\<rparr>) }"
    using over by (simp add: publish_payload_def size set_offset_def Let_def)
  also have "\<dots> = Some (set_total (app (init_message ?o) (h @ take k d))
      (of_nat (5 + (length h + length d))))"
    using k sum unfolding off put
    by (simp add: set_total_def app_def Let_def add.commute min_absorb2 init_message_def
        MQTT_MAX_FIXED_HEADER_SIZE_def set_offset_def)
  finally show ?thesis by (simp add: fragmenting_def)
qed

lemma publish_fragmented:
  fixes retain :: i32
  assumes "fits c (length (publish_head qos topic m))" and "topic \<noteq> []"
    and "publish_id rnd qos w = Some (m, w')" and "sint len = int (length d)"
    and "unat (buffer_length c) < 5 + length (publish_rest qos topic m d)"
    and "length (publish_rest qos topic m d) < 2 ^ 28"
  defines "p \<equiv> publish_packet qos retain topic m d"
  shows "\<exists>c'. mqtt_msg_publish rnd c (Some topic) (Some d) len qos retain mid w = Some (c', m, w') \<and>
    built c (take (length_of (message c')) p) c' \<and> length_of (message c') < length p \<and>
    unat (fragmented_msg_total_length (message c')) = 5 + length (publish_rest qos topic m d) \<and>
    unat (fragmented_msg_data_offset (message c')) = length p - length d \<and>
    unat (fragmented_msg_data_offset (message c')) \<le> length_of (message c')"
proof -
  let ?h = "publish_head qos topic m" and ?t = "length (publish_rest qos topic m d)"
  let ?bl = "unat (buffer_length c)" and ?hdr = "header_byte (type_code MQTT_MSG_TYPE_PUBLISH) 0 qos retain"
  have head: "5 + length ?h \<le> ?bl" and mem: "?bl \<le> length (buffer c)" and bl: "?bl < 65536"
    using assms(1) unsigned_less [of "buffer_length c", where ?'a = nat]
    by (simp_all add: fits_def MQTT_MAX_FIXED_HEADER_SIZE_def)
  have t: "?t = length ?h + length d" by (simp add: publish_rest_eq)
  define k where "k = ?bl - (5 + length ?h)"
  have k: "length ?h + k = ?bl - 5" "k < length d" "5 + (length ?h + k) = ?bl"
    using head assms(5) t by (auto simp: k_def)
  have fits_k: "fits c (length ?h + k)" using mem k by (simp add: fits_def MQTT_MAX_FIXED_HEADER_SIZE_def)
  let ?c1 = "fragmenting c ?h d"
  have total: "unat (fragmented_msg_total_length (message ?c1)) = 5 + ?t"
    using unat_u32_of_nat [of "5 + ?t"] assms(6) by (simp add: t del: of_nat_add)
  have room: "room (init_message ?c1) (length (?h @ take k d))"
    using fits_k k by (simp add: room_init)
  let ?c = "app (init_message ?c1) (?h @ take k d)"
  let ?f = "finished ?c ?hdr ?t (length ?h + k)"
  have "fini_message ?c (type_code MQTT_MSG_TYPE_PUBLISH) 0 qos retain = Some ?f"
    using assms(6) room mem k bl total by (intro fini_message_eq) (simp_all add: min_absorb2)
  then have run: "mqtt_msg_publish rnd c (Some topic) (Some d) len qos retain mid w = Some (?f, m, w')"
    using publish_step [OF assms(1-3), of "Some d" len retain mid] assms(5)
      publish_payload_fragment [OF assms(1,4)] by (simp add: t k_def)
  have "take (5 + (length ?h + k)) (buffer ?c) = take 5 (buffer c) @ ?h @ take k d"
    using buffer_app [OF room] k by (simp add: min_absorb2)
  then have content: "take (length ?h + k) (drop 5 (buffer ?c)) = ?h @ take k d"
    using k mem room by (simp add: take_drop add.commute)
  let ?l = "length (remaining_length ?t)"
  have l4: "?l \<le> 4" using assms(6) by (simp only: length_remaining_length_4)
  have "message_bytes ?f = Some (take (length ?h + k + ?l + 1) p)"
    using message_bytes_finished [of "length ?h + k" ?c ?t ?hdr] room mem k assms(6) content
    by (simp add: p_def publish_packet_def mqtt_packet_def publish_rest_eq flip: k_def)
  moreover have "length p = 1 + ?l + ?t" by (simp add: p_def publish_packet_def mqtt_packet_def)
  moreover have "unat (word_of_nat (5 + length ?h) - word_of_nat (4 - ?l) :: u32) = 1 + ?l + length ?h"
  proof -
    have "(word_of_nat (5 + length ?h) - word_of_nat (4 - ?l) :: u32) =
        word_of_nat (5 + length ?h - (4 - ?l))"
      by (rule of_nat_diff [symmetric]) simp
    moreover have "5 + length ?h - (4 - ?l) = 1 + ?l + length ?h" using l4 by simp
    ultimately have "(word_of_nat (5 + length ?h) - word_of_nat (4 - ?l) :: u32) =
        word_of_nat (1 + ?l + length ?h)"
      by (simp only:)
    moreover have "1 + ?l + length ?h < 2 ^ 32" using assms(6) t l4 by simp
    ultimately show ?thesis by (simp only: unat_u32_of_nat)
  qed
  ultimately show ?thesis
    using run room mem k assms(6) t total
    by (intro exI [of _ ?f])
      (simp add: built_def min_absorb2, use head k in \<open>intro conjI; linarith\<close>)
qed

text \<open>
  From 2^28 bytes on, the loop of \<open>fini_message\<close> writes a fifth byte into \<open>encoded_lens[4]\<close>
  before the check that would have refused the message.
\<close>

lemma publish_overflow:
  assumes "fits c (length (publish_head qos topic m))" and "topic \<noteq> []"
    and "publish_id rnd qos w = Some (m, w')" and "sint len = int (length d)"
    and "2 ^ 28 \<le> length (publish_rest qos topic m d)"
    and "length (publish_rest qos topic m d) < 2 ^ 31"
  shows "mqtt_msg_publish rnd c (Some topic) (Some d) len qos retain mid w = None"
proof -
  let ?h = "publish_head qos topic m" and ?t = "length (publish_rest qos topic m d)"
  have t: "?t = length ?h + length d" by (simp add: publish_rest_eq)
  have over: "unat (buffer_length c) < 5 + ?t"
    using assms(5) unsigned_less [of "buffer_length c", where ?'a = nat] by simp
  have "\<not> length (remaining_length ?t) \<le> 4" using assms(5) by (simp only: length_remaining_length_4)
  then have loop: "encode_length_loop (sint (word_of_nat ?t :: i32)) [] = None"
    using assms(6) by (simp add: sint_of_nat_small encode_length_loop_eq)
  have "unat (word_of_nat (5 + ?t) :: u32) = 5 + ?t"
    using assms(6) by (intro unat_u32_of_nat) simp
  then have nonzero: "(word_of_nat (5 + ?t) :: u32) \<noteq> 0" by (metis add_is_0 unat_0 zero_neq_numeral)
  have "fini_message (app (init_message (fragmenting c ?h d)) bs) ty 0 qos retain = None" for bs ty
    using loop nonzero by (simp add: fini_message_def MQTT_MAX_FIXED_HEADER_SIZE_def t)
  then show ?thesis
    using publish_step [OF assms(1-3), of "Some d" len retain mid] over
      publish_payload_fragment [OF assms(1,4)] by (simp add: t)
qed

end
