(* ===== verification/Mqtt_Readers.thy ===== *)
theory Mqtt_Readers
  imports Mqtt_Packets
begin

text \<open>
  Reading packets: the readers of Mqtt_Msg applied to a buffer that holds a PUBLISH packet, or
  the part of one that has been received, recover what the builder put in.
\<close>

section \<open>The layout of a PUBLISH packet\<close>

text \<open>\<open>holds buf n p\<close>: the first \<open>n\<close> bytes of the buffer are the first \<open>n\<close> bytes of \<open>p\<close>.\<close>

definition holds :: "u8 list \<Rightarrow> nat \<Rightarrow> u8 list \<Rightarrow> bool" where
  "holds buf n p \<longleftrightarrow> n \<le> length p \<and> n \<le> length buf \<and> take n buf = take n p"

lemma holds_nth: "holds buf n p \<Longrightarrow> i < n \<Longrightarrow> buf ! i = p ! i"
  by (metis holds_def nth_take)

lemma holds_read: "holds buf n p \<Longrightarrow> i < n \<Longrightarrow> mem_read buf i = Some (p ! i)"
  using holds_nth [of buf n p i] by (simp add: holds_def)

lemma holds_slice: "holds buf n p \<Longrightarrow> i + k \<le> n \<Longrightarrow> take k (drop i buf) = take k (drop i p)"
proof -
  assume h: "holds buf n p" and i: "i + k \<le> n"
  have "take k (drop i xs) = drop i (take (i + k) (take n xs))" for xs :: "u8 list"
    using i by (simp add: take_drop add.commute min_absorb2)
  then show ?thesis using h unfolding holds_def by metis
qed

lemma holds_whole: "holds (p @ junk) (length p) p"
  by (simp add: holds_def)

text \<open>Where the variable header starts, where the topic starts, and where the payload starts.\<close>

definition body_offset :: "i32 \<Rightarrow> u8 list \<Rightarrow> u16 \<Rightarrow> u8 list \<Rightarrow> nat" where
  "body_offset qos topic m d = 1 + length (remaining_length (length (publish_rest qos topic m d)))"

definition topic_offset :: "i32 \<Rightarrow> u8 list \<Rightarrow> u16 \<Rightarrow> u8 list \<Rightarrow> nat" where
  "topic_offset qos topic m d = body_offset qos topic m d + 2"

definition payload_offset :: "i32 \<Rightarrow> u8 list \<Rightarrow> u16 \<Rightarrow> u8 list \<Rightarrow> nat" where
  "payload_offset qos topic m d =
     topic_offset qos topic m d + length topic + (if 0 < sint qos then 2 else 0)"

lemma publish_packet_eq:
  "publish_packet qos retain topic m d =
     (header_byte 3 0 qos retain # remaining_length (length (publish_rest qos topic m d)) @
        be16_bytes (length topic)) @ topic @ (if 0 < sint qos then be16_bytes (unat m) else []) @ d"
  by (simp add: publish_packet_def mqtt_packet_def publish_rest_def utf8_field_def)

lemma length_publish_packet:
  "length (publish_packet qos retain topic m d) = payload_offset qos topic m d + length d"
  by (simp add: publish_packet_eq payload_offset_def topic_offset_def body_offset_def)

lemma drop_payload:
  "drop (payload_offset qos topic m d) (publish_packet qos retain topic m d) = d"
  by (simp add: publish_packet_eq payload_offset_def topic_offset_def body_offset_def drop_Cons')

lemma take_topic:
  "take (length topic) (drop (topic_offset qos topic m d) (publish_packet qos retain topic m d)) = topic"
  by (simp add: publish_packet_eq topic_offset_def body_offset_def drop_Cons')

text \<open>A buffer that holds enough of a PUBLISH packet, of a length that can be announced.\<close>

definition received ::
    "u8 list \<Rightarrow> nat \<Rightarrow> i32 \<Rightarrow> i32 \<Rightarrow> u8 list \<Rightarrow> u16 \<Rightarrow> u8 list \<Rightarrow> bool" where
  "received buf n qos retain topic m d \<longleftrightarrow>
     holds buf n (publish_packet qos retain topic m d) \<and> length topic < 65536 \<and>
     length (publish_rest qos topic m d) < 2 ^ 28 \<and> payload_offset qos topic m d < n"

lemma receivedD:
  assumes "received buf n qos retain topic m d"
  shows "holds buf n (publish_packet qos retain topic m d)" "length topic < 65536"
    "length (publish_rest qos topic m d) < 2 ^ 28" "payload_offset qos topic m d < n"
  using assms by (simp_all add: received_def)


lemma size_n:
  assumes r: "received buf n qos retain topic m d"
  shows "n < 2 ^ 28 + 5"
proof -
  have "length (remaining_length (length (publish_rest qos topic m d))) \<le> 4"
    using receivedD(3) [OF r] by (simp only: length_remaining_length_4)
  then show ?thesis
    using receivedD(1) [OF r] receivedD(3) [OF r] by (auto simp: holds_def publish_packet_def mqtt_packet_def)
qed

lemma n_words:
  assumes r: "received buf n qos retain topic m d"
  shows "unat (of_nat n :: u32) = n" "sint (of_nat n :: u32) = int n"
  using size_n [OF r] by (simp_all add: unat_u32_of_nat sint_of_nat_small)

lemma header_read:
  assumes r: "received buf n qos retain topic m d"
  shows "mem_read buf 0 = Some (header_byte 3 0 qos retain)"
  using holds_read [OF receivedD(1) [OF r], of 0] receivedD(4) [OF r] by (simp add: publish_packet_eq)

lemma reads_flags:
  assumes r: "received buf n qos retain topic m d"
  shows "mqtt_get_type buf = Some 3"
    and "mqtt_get_dup buf = Some 0"
    and "mqtt_get_qos buf = Some (qos AND 3)"
    and "mqtt_get_retain buf = Some (retain AND 1)"
  using header_byte_fields [of 3 0 qos retain]
  by (simp_all add: mqtt_get_type_def mqtt_get_dup_def mqtt_get_qos_def mqtt_get_retain_def
      header_read [OF r])

lemma length_field:
  assumes r: "received buf n qos retain topic m d"
  shows "take (length (remaining_length (length (publish_rest qos topic m d)))) (drop 1 buf) =
     remaining_length (length (publish_rest qos topic m d))"
  using holds_slice [OF receivedD(1) [OF r], of 1 "body_offset qos topic m d - 1"] receivedD(4) [OF r]
  by (simp add: topic_offset_def payload_offset_def body_offset_def publish_packet_eq)

lemma scan_read:
  assumes r: "received buf n qos retain topic m d"
    and "body_offset qos topic m d \<le> len"
  shows "scan_length buf len (Suc 0) 0 =
    Some (body_offset qos topic m d, of_nat (length (publish_rest qos topic m d)))"
proof -
  have "length (remaining_length (length (publish_rest qos topic m d))) \<le> 4"
    using receivedD(3) [OF r] by (simp only: length_remaining_length_4)
  then show ?thesis
    using scan_length_encoded [OF length_field [OF r], of len 0] assms by (simp add: body_offset_def)
qed

lemma skip_read:
  assumes r: "received buf n qos retain topic m d"
    and "body_offset qos topic m d \<le> len"
  shows "skip_length buf len (Suc 0) = Some (body_offset qos topic m d)"
  using skip_length_encoded [OF length_field [OF r], of len] assms by (simp add: body_offset_def)

lemma topic_length_read:
  assumes r: "received buf n qos retain topic m d"
  shows "mem_read buf (body_offset qos topic m d) = Some (of_nat (length topic div 256))"
  "mem_read buf (Suc (body_offset qos topic m d)) = Some (of_nat (length topic))"
  using receivedD(4) [OF r]
  by (simp_all add: holds_read [OF receivedD(1) [OF r]] publish_packet_eq be16_bytes_def nth_append
      topic_offset_def payload_offset_def body_offset_def)

lemma topic_length_value:
  assumes r: "received buf n qos retain topic m d"
  shows "be16 (word_of_nat (length topic div 256)) (word_of_nat (length topic)) = length topic"
  using receivedD(2) [OF r] by (rule be16_be16_bytes)

lemma id_read:
  assumes r: "received buf n qos retain topic m d"
    and "0 < sint qos"
  shows "mem_read buf (Suc (Suc (body_offset qos topic m d + length topic))) = Some (of_nat (unat m div 256))"
    "mem_read buf (Suc (Suc (Suc (body_offset qos topic m d + length topic)))) = Some (of_nat (unat m))"
  using receivedD(4) [OF r] assms
  by (simp_all add: holds_read [OF receivedD(1) [OF r]] publish_packet_eq be16_bytes_def nth_append
      topic_offset_def payload_offset_def body_offset_def)

lemmas offsets = payload_offset_def topic_offset_def

lemma topic_slice:
  assumes r: "received buf n qos retain topic m d"
  shows "take (length topic) (drop (topic_offset qos topic m d) buf) = topic"
  using holds_slice [OF receivedD(1) [OF r], of "topic_offset qos topic m d" "length topic"] receivedD(4) [OF r]
  by (simp add: take_topic payload_offset_def)

lemma payload_slice:
  assumes r: "received buf n qos retain topic m d"
  shows "take (n - payload_offset qos topic m d) (drop (payload_offset qos topic m d) buf) =
     take (n - payload_offset qos topic m d) d"
  using holds_slice [OF receivedD(1) [OF r], of "payload_offset qos topic m d" "n - payload_offset qos topic m d"]
    receivedD(4) [OF r] by (simp add: drop_payload)

lemma publish_topic_read:
  assumes r: "received buf n qos retain topic m d"
  shows "mqtt_get_publish_topic buf (of_nat n) = Some (Some (topic_offset qos topic m d, length topic))"
  using receivedD(4) [OF r] n_words [OF r]
  by (simp add: mqtt_get_publish_topic_def scan_read [OF r] topic_length_read [OF r]
      topic_length_value [OF r] offsets)

lemma total_length_word:
  "of_nat (length (publish_rest qos topic m d)) + of_nat (body_offset qos topic m d) =
     (of_nat (length (publish_packet qos retain topic m d)) :: u32)"
proof -
  have "length (publish_rest qos topic m d) + (body_offset qos topic m d) =
      length (publish_packet qos retain topic m d)"
    by (simp add: body_offset_def publish_packet_def mqtt_packet_def)
  then show ?thesis by (metis of_nat_add)
qed

lemma publish_data_read:
  assumes r: "received buf n qos retain topic m d"
    and "qos \<in> {0, 1, 2}"
  shows "mqtt_get_publish_data buf (of_nat n) =
    Some (Some (payload_offset qos topic m d), of_nat (n - payload_offset qos topic m d))"
proof -
  let ?p = "length (publish_packet qos retain topic m d)"
  have p: "payload_offset qos topic m d < n" "n \<le> ?p" "?p < 2 ^ 31"
    using receivedD(4) [OF r] receivedD(1) [OF r] size_n [OF r] receivedD(3) [OF r] length_remaining_length_4 [of "length (publish_rest qos topic m d)"]
    by (auto simp: holds_def publish_packet_def mqtt_packet_def)
  have qos3: "qos AND 3 = qos" using assms(2) by auto
  have total: "sint (word_of_nat ?p :: i32) = int ?p" using p by (simp add: sint_of_nat_small)
  show ?thesis
    using p n_words [OF r] total
    by (cases "n = ?p")
      (auto simp: mqtt_get_publish_data_def scan_read [OF r] topic_length_read [OF r]
      topic_length_value [OF r] offsets
        total_length_word [of qos topic m d retain] reads_flags [OF r] qos3 Let_def of_nat_diff)
qed

lemma id_recovered:
  assumes r: "received buf n qos retain topic m d"
    and "qos \<in> {1, 2}" and "n < 65536"
  shows "mqtt_get_id buf (of_nat n) = Some m"
proof -
  have qos: "qos AND 3 = qos" "0 < sint qos" using assms(2) by auto
  have len: "unat (of_nat n :: u16) = n" using assms(3) by (simp add: unat_of_nat)
  have id: "be16 (word_of_nat (unat m div 256)) (ucast m) = unat m"
    using be16_be16_bytes [of "unat m"] unsigned_less [of m, where ?'a = nat] by simp
  show ?thesis
    using receivedD(4) [OF r] qos
    by (simp add: mqtt_get_id_def len reads_flags [OF r] skip_read [OF r] topic_length_read [OF r]
        topic_length_value [OF r] 
        offsets id_read [OF r qos(2)] id Let_def)
qed

section \<open>Is the header complete?\<close>

lemma header_scan_encoded:
  assumes "\<And>j. j < length (remaining_length t) \<Longrightarrow> i + j < n \<Longrightarrow>
      mem_read buf (i + j) = Some (remaining_length t ! j)"
    and "i + length (remaining_length t) \<le> 5"
  shows "header_scan buf n i =
    Some (if i + length (remaining_length t) \<le> n then Some (i + length (remaining_length t)) else None)"
  using assms
proof (induction t arbitrary: i rule: remaining_length.induct)
  case (1 t)
  show ?case
  proof (cases "t < 128")
    case True
    then show ?thesis
      using "1.prems"(1) [of 0] "1.prems"(2)
      by (subst header_scan.simps)
        (auto simp: remaining_length_small MQTT_MAX_FIXED_HEADER_SIZE_def byte_low7)
  next
    case False
    let ?r = "remaining_length (t div 128)"
    have rl: "remaining_length t = of_nat (t mod 128 + 128) # ?r"
      using False by (simp add: remaining_length_step)
    have "mem_read buf (i + 1 + j) = Some (?r ! j)" if "j < length ?r" "i + 1 + j < n" for j
      using "1.prems"(1) [of "Suc j"] that by (simp add: rl)
    then have rest: "header_scan buf n (i + 1) =
        Some (if i + 1 + length ?r \<le> n then Some (i + 1 + length ?r) else None)"
      using "1.IH" [OF False, of "i + 1"] "1.prems"(2) by (simp add: rl)
    have cont: "(of_nat (t mod 128 + 128) :: u8) AND 0x80 \<noteq> 0"
      by (rule byte_low7(2)) simp
    have i: "i < 5" using "1.prems"(2) by (simp add: rl)
    show ?thesis
    proof (cases "i < n")
      case True
      then have "mem_read buf i = Some (of_nat (t mod 128 + 128))"
        using "1.prems"(1) [of 0] by (simp add: rl)
      with True i cont rest show ?thesis
        by (subst header_scan.simps) (simp add: rl MQTT_MAX_FIXED_HEADER_SIZE_def del: of_nat_add)
    next
      case False
      with i show ?thesis
        by (subst header_scan.simps) (simp add: rl MQTT_MAX_FIXED_HEADER_SIZE_def)
    qed
  qed
qed

lemma publish_packet_nth:
  "publish_packet qos retain topic m d ! 0 = header_byte 3 0 qos retain"
  "j < length (remaining_length (length (publish_rest qos topic m d))) \<Longrightarrow>
     publish_packet qos retain topic m d ! Suc j = remaining_length (length (publish_rest qos topic m d)) ! j"
  "publish_packet qos retain topic m d ! body_offset qos topic m d = of_nat (length topic div 256)"
  "publish_packet qos retain topic m d ! Suc (body_offset qos topic m d) = of_nat (length topic)"
  by (simp_all add: publish_packet_eq body_offset_def nth_append be16_bytes_def)

lemma u16_arith: "unat ((of_nat a :: u16) + of_nat b) = (a + b) mod 65536"
  "unat ((of_nat a :: u16) + of_nat b + 2) = (a + b + 2) mod 65536"
proof -
  have "unat (of_nat k :: u16) = k mod 65536" for k
    by (simp add: unat_of_nat)
  from this [of "a + b"] this [of "a + b + 2"]
  show "unat ((of_nat a :: u16) + of_nat b) = (a + b) mod 65536"
    "unat ((of_nat a :: u16) + of_nat b + 2) = (a + b + 2) mod 65536"
    by (simp_all only: of_nat_add of_nat_numeral)
qed

text \<open>
  What \<open>mqtt_header_complete\<close> answers when the first \<open>n\<close> bytes of a PUBLISH packet have been
  received: its 16-bit index makes it compare the true length of the header modulo 65536.
\<close>

lemma header_complete_eq:
  assumes held: "holds buf n (publish_packet qos retain topic m d)"
    and "length topic < 65536" and "length (publish_rest qos topic m d) < 2 ^ 28"
    and "n < 65536" and "qos \<in> {0, 1, 2}"
  shows "mqtt_header_complete buf (of_nat n) =
    Some (topic_offset qos topic m d < n \<and> payload_offset qos topic m d mod 65536 \<le> n)"
proof -
  let ?l = "length (remaining_length (length (publish_rest qos topic m d)))"
  have l4: "?l \<le> 4" using assms(3) by (simp only: length_remaining_length_4)
  have n: "unat (of_nat n :: u16) = n" using assms(4) by (simp add: unat_of_nat)
  have scan: "header_scan buf n (Suc 0) =
      Some (if body_offset qos topic m d \<le> n then Some (body_offset qos topic m d) else None)"
    using header_scan_encoded [of "length (publish_rest qos topic m d)" 1 n buf] l4
    by (simp add: holds_read [OF held] publish_packet_nth body_offset_def)
  show ?thesis
  proof (cases "topic_offset qos topic m d < n")
    case False
    then show ?thesis by (simp add: mqtt_header_complete_def n scan topic_offset_def)
  next
    case True
    have qos3: "qos AND 3 = qos" using assms(5) by auto
    have "mqtt_get_qos buf = Some qos"
      using True header_byte_fields(3) [of 3 0 qos retain] qos3
      by (simp add: mqtt_get_qos_def holds_read [OF held] publish_packet_nth)
    moreover have "be16 (word_of_nat (length topic div 256)) (word_of_nat (length topic)) = length topic"
      using assms(2) by (rule be16_be16_bytes)
    moreover have small: "body_offset qos topic m d + 2 < 65536"
      using l4 by (simp add: body_offset_def)
    ultimately show ?thesis
      using True u16_arith [of "body_offset qos topic m d + 2" "length topic"]
      by (simp add: mqtt_header_complete_def n scan topic_offset_def payload_offset_def
          holds_read [OF held] publish_packet_nth word_le_nat_alt)
  qed
qed

section \<open>Flags, lengths and identifiers of any packet\<close>

text \<open>Specification: table 2.2 of MQTT 3.1.1, the flags each type may carry.\<close>

fun legal_flags :: "mqtt_message_type \<Rightarrow> i32 \<Rightarrow> i32 \<Rightarrow> i32 \<Rightarrow> bool" where
  "legal_flags MQTT_MSG_TYPE_PUBLISH dup qos retain = (qos \<noteq> 3 \<and> (qos = 0 \<longrightarrow> dup = 0))"
| "legal_flags ty dup qos retain =
     (dup = 0 \<and>
      qos = (if ty \<in> {MQTT_MSG_TYPE_PUBREL, MQTT_MSG_TYPE_SUBSCRIBE, MQTT_MSG_TYPE_UNSUBSCRIBE}
             then 1 else 0) \<and> retain = 0)"

lemma and_1_cases: "(x :: i32) AND 1 = 0 \<or> x AND 1 = 1"
  by (cases "odd x") (simp_all add: and_one_eq mod_2_eq_odd)

lemma and_3_cases: "(x :: i32) AND 3 \<in> {0, 1, 2, 3}"
proof -
  have "x AND 3 \<le> 3" by (rule word_and_le1)
  then have "unat (x AND 3) \<le> 3" by (simp add: word_le_nat_alt)
  moreover have "y = 0 \<longleftrightarrow> unat y = 0" "y = 1 \<longleftrightarrow> unat y = 1" "y = 2 \<longleftrightarrow> unat y = 2"
    "y = 3 \<longleftrightarrow> unat y = 3" for y :: i32
    by (simp_all add: word_unat_eq_iff)
  ultimately show ?thesis by auto
qed

lemma packed_low:
  fixes a b c d :: i32
  assumes "w0 \<le> s1" "s1 + w1 \<le> s2" "s2 + w2 \<le> s3" "s3 \<le> 8"
  shows "(ucast (push_bit s3 (a AND mask w3) OR push_bit s2 (b AND mask w2) OR
                  push_bit s1 (c AND mask w1) OR (d AND mask w0)) :: u8) AND mask s3 =
    ucast (push_bit s2 (b AND mask w2) OR push_bit s1 (c AND mask w1) OR (d AND mask w0))"
  by (rule bit_word_eqI) (use assms in \<open>auto simp: bit_simps\<close>)

lemma header_byte_nibble: "header_byte ty dup qos retain AND 0x0f =
    ucast (push_bit 3 (dup AND 1) OR push_bit 1 (qos AND 3) OR (retain AND 1))"
  using packed_low [of 1 1 2 3 1 4 ty 4 dup qos retain]
  by (simp add: header_byte_def mask_eq_exp_minus_1)

lemma low_nibble:
  assumes "d \<in> {0, 1}" "q \<in> {0, 1, 2, 3}" "r \<in> {0, 1 :: i32}"
  shows "header_byte ty d q r AND 0x0f = 0 \<longleftrightarrow> d = 0 \<and> q = 0 \<and> r = 0"
    and "header_byte ty d q r AND 0x0f = 2 \<longleftrightarrow> d = 0 \<and> q = 1 \<and> r = 0"
  unfolding header_byte_nibble using assms by (elim insertE emptyE; hypsubst; simp)+

lemma type_code_eq [simp]: "type_code a = type_code b \<longleftrightarrow> a = b"
  by (cases a; cases b; simp)

lemma type_code_image: "type_code ty \<in> type_code ` S \<longleftrightarrow> ty \<in> S"
  by (auto simp: image_iff)

lemma header_byte_type: "mqtt_get_type (header_byte (type_code ty) dup qos retain # xs) = Some (type_code ty)"
proof -
  have "type_code ty AND 0x0f = type_code ty" by (cases ty) simp_all
  then show ?thesis
    using header_byte_fields(1) [of "type_code ty" dup qos retain] by (simp add: mqtt_get_type_def)
qed

lemma header_byte_low: "header_byte ty dup qos retain =
    header_byte ty (dup AND 1) (qos AND 3) (retain AND 1)"
  by (simp add: header_byte_def and.assoc)

lemma valid_hdr_eq:
  assumes "1 \<le> unat len"
  shows "mqtt_has_valid_msg_hdr (header_byte (type_code ty) dup qos retain # xs) len =
    Some (legal_flags ty (dup AND 1) (qos AND 3) (retain AND 1))"
proof -
  have red: "mqtt_has_valid_msg_hdr (header_byte (type_code ty) d q r # xs) len =
      Some (legal_flags ty d q r)" if dqr: "d \<in> {0, 1}" "q \<in> {0, 1, 2, 3}" "r \<in> {0, 1}" for d q r
  proof -
    note nibble = low_nibble [OF dqr, of "type_code ty"]
    have qos: "q AND 3 = q" "sint q < 3 \<longleftrightarrow> q \<noteq> 3" "0 < sint q \<longleftrightarrow> q \<noteq> 0" and dup: "d AND 1 = d"
      using dqr by auto
    have "mqtt_get_qos (header_byte (type_code ty) d q r # xs) = Some q"
      "mqtt_get_dup (header_byte (type_code ty) d q r # xs) = Some d"
      using header_byte_fields [of "type_code ty" d q r] qos(1) dup
      by (simp_all add: mqtt_get_qos_def mqtt_get_dup_def)
    then show ?thesis
      using assms nibble qos(2,3)
      unfolding mqtt_has_valid_msg_hdr_def header_byte_type
      by (cases ty) (simp_all add: type_code_image)
  qed
  show ?thesis
    unfolding header_byte_low [of _ dup qos retain]
    using and_1_cases [of dup] and_3_cases [of qos] and_1_cases [of retain]
    by (intro red) auto
qed

lemma set_dup_eq:
  "mqtt_set_dup (header_byte ty dup qos retain # xs) = Some (header_byte ty 1 qos retain # xs)"
proof -
  have "header_byte ty d q r OR 8 = header_byte ty 1 q r" if "d \<in> {0, 1}" for d q r
    using that by (auto simp: header_byte_def unsigned_or_eq or.assoc or.commute or.left_commute)
  from this [of "dup AND 1" "qos AND 3" "retain AND 1"]
  have "header_byte ty dup qos retain OR 8 = header_byte ty 1 qos retain"
    using and_1_cases [of dup] by (subst (1 2) header_byte_low) simp
  then show ?thesis by (simp add: mqtt_set_dup_def)
qed

lemma total_length_eq:
  assumes held: "holds buf n (mqtt_packet ty dup qos retain rest)"
    and small: "length rest < 2 ^ 28" and n: "1 + length (remaining_length (length rest)) \<le> n" "n < 65536"
  shows "mqtt_get_total_length buf (of_nat n) =
    Some (of_nat (length (mqtt_packet ty dup qos retain rest)), 1 + length (remaining_length (length rest)))"
proof -
  let ?l = "length (remaining_length (length rest))"
  have l4: "?l \<le> 4" using small by (simp only: length_remaining_length_4)
  have n16: "unat (of_nat n :: u16) = n" using n(2) by (simp add: unat_of_nat)
  have "take ?l (drop 1 buf) = remaining_length (length rest)"
    using holds_slice [OF held, of 1 ?l] n(1) by (simp add: mqtt_packet_def)
  from scan_length_encoded [OF this, of n 0] show ?thesis
    using n(1) l4 by (simp add: mqtt_get_total_length_def n16 mqtt_packet_def add.commute)
qed

lemma skip_length_safe:
  assumes "len \<le> length buf"
  shows "\<exists>j. skip_length buf len i = Some j \<and> i \<le> j \<and> (i \<le> len \<longrightarrow> j \<le> len)"
  using assms
proof (induction buf len i rule: skip_length.induct)
  case (1 buf len i)
  show ?case
  proof (cases "i < len \<and> buf ! i AND 0x80 \<noteq> 0")
    case True
    then have "skip_length buf len i = skip_length buf len (i + 1)"
      using "1.prems" by (subst skip_length.simps) simp
    moreover have "\<exists>j. skip_length buf len (i + 1) = Some j \<and> i + 1 \<le> j \<and> (i + 1 \<le> len \<longrightarrow> j \<le> len)"
      using "1.IH" [of "buf ! i"] "1.prems" True by simp
    ultimately show ?thesis using True by auto
  next
    case False
    then show ?thesis using "1.prems" by (subst skip_length.simps) auto
  qed
qed

lemma get_id_safe:
  assumes "unat len \<le> length buf"
  shows "mqtt_get_id buf len \<noteq> None"
proof (cases "unat len < 1")
  case False
  with assms have "0 < length buf" by linarith
  then have b0: "mem_read buf 0 = Some (buf ! 0)" by simp
  obtain j where "skip_length buf (unat len) (Suc 0) = Some j" "j \<le> unat len"
    using skip_length_safe [OF assms, of "Suc 0"] False by auto
  with b0 False assms show ?thesis
    by (auto simp: mqtt_get_id_def mqtt_get_type_def mqtt_get_qos_def Let_def)
qed (simp add: mqtt_get_id_def)

end
