(* ===== verification/Mqtt_Packet_Laws.thy ===== *)
theory Mqtt_Packet_Laws
  imports Mqtt_Readers
begin

text \<open>
  The properties of the MQTT packet layer (mqtt_msg.c), each on the model's definitions with a
  concrete instance: the builders, the readers, round trips between them, and the inputs on which
  the code leaves its intended behaviour.
\<close>

section \<open>Refusals\<close>

lemma fail_message_simps [simp]:
  "length_of (message (fail_message c)) = 0" "buffer (fail_message c) = buffer c"
  "buffer_length (fail_message c) = buffer_length c"
  by (simp_all add: fail_message_def)

lemma not_fits_full:
  assumes "unat (buffer_length c) \<le> length (buffer c)" "\<not> fits c n"
  shows "unat (buffer_length c) < 5 + n"
  using assms by (simp add: fits_def MQTT_MAX_FIXED_HEADER_SIZE_def)

text \<open>The identifier and the topic of SUBSCRIBE and UNSUBSCRIBE, or a refusal.\<close>

lemma append_id_cases:
  assumes wf: "unat (buffer_length c) \<le> length (buffer c)"
    and id: "choose_message_id rnd mid w = Some (m, w')"
  shows "append_message_id rnd (init_message c) mid w =
    Some (if fits c 2 then (m, app (init_message c) (be16_bytes (unat m)), w')
          else (0, init_message c, w'))"
  using append_message_id_full [OF id, of "init_message c"] not_fits_full [OF wf, of 2] id
  by (simp add: init_simps)

lemma append_topic_cases:
  assumes wf: "unat (buffer_length c) \<le> length (buffer c)" and fits: "fits c (length bs)"
    and len: "length s < 2 ^ 31"
  shows "append_or_fail (app (init_message c) bs) s (strlen32 s) =
    Some (if fits c (length bs + (2 + length s)) then Inr (app (init_message c) (bs @ utf8_field s))
          else Inl (fail_message (app (init_message c) bs)))"
proof -
  have "length bs < 65536 - 5"
    using fits unsigned_less [of "buffer_length c", where ?'a = nat]
    by (simp add: fits_def MQTT_MAX_FIXED_HEADER_SIZE_def)
  then show ?thesis
    using append_or_fail_full [of "app (init_message c) bs" s] not_fits_full [OF wf, of "length bs + (2 + length s)"]
      len by (cases "fits c (length bs + (2 + length s))") (simp_all add: init_simps add.assoc)
qed

lemma subscribe_refused:
  assumes wf: "unat (buffer_length c) \<le> length (buffer c)" and "\<not> fits c (5 + length topic)"
    and "length topic < 2 ^ 31" and id: "choose_message_id rnd 0 w = Some (m, w')" and "topic \<noteq> []"
  shows "\<exists>c' mid'. mqtt_msg_subscribe rnd c (Some topic) qos mid w = Some (c', mid', w') \<and>
    length_of (message c') = 0"
proof -
  have "m \<noteq> 0" using id by (rule choose_message_id_nonzero)
  moreover have "unat (buffer_length c) < 5 + (4 + length topic) + 1"
    using not_fits_full [OF wf assms(2)] by simp
  moreover have "length topic < 65536" if "fits c (4 + length topic)"
    using fitsD(2) [OF that] by simp
  ultimately show ?thesis
    using assms(5) append_id_cases [OF wf id]
      append_topic_cases [OF wf, of "be16_bytes (unat m)" topic] assms(3)
    by (auto simp: mqtt_msg_subscribe_def)
qed

lemma unsubscribe_refused:
  assumes wf: "unat (buffer_length c) \<le> length (buffer c)" and "\<not> fits c (4 + length topic)"
    and "length topic < 2 ^ 31" and id: "choose_message_id rnd 0 w = Some (m, w')" and "topic \<noteq> []"
  shows "\<exists>c' mid'. mqtt_msg_unsubscribe rnd c (Some topic) mid w = Some (c', mid', w') \<and>
    length_of (message c') = 0"
proof -
  have "m \<noteq> 0" using id by (rule choose_message_id_nonzero)
  moreover have "\<not> fits c (Suc (Suc (Suc (Suc (length topic)))))"
    using assms(2) by (simp add: eval_nat_numeral)
  ultimately show ?thesis
    using assms(5) append_id_cases [OF wf id]
      append_topic_cases [OF wf, of "be16_bytes (unat m)" topic] assms(3)
    by (auto simp: mqtt_msg_unsubscribe_def)
qed

section \<open>Concrete instances\<close>

text \<open>A connection with \<open>n\<close> bytes of memory, and a source of randomness that repeats itself.\<close>

definition sample_connection :: "nat \<Rightarrow> mqtt_connection" where
  "sample_connection n = mqtt_msg_init (replicate n 0) (of_nat n)"

lemma sample_fits: "k + 5 \<le> n \<Longrightarrow> n < 65536 \<Longrightarrow> fits (sample_connection n) k"
  by (simp add: sample_connection_def mqtt_msg_init_def fits_def MQTT_MAX_FIXED_HEADER_SIZE_def
      unat_of_nat)

lemma sample_fits_not: "n < k + 5 \<Longrightarrow> \<not> fits (sample_connection n) k"
  using unsigned_of_nat [of n, where ?'a = 16]
  by (auto simp: sample_connection_def mqtt_msg_init_def fits_def MQTT_MAX_FIXED_HEADER_SIZE_def)

lemma sample_simps [simp]:
  "fragmented_msg_total_length (message (sample_connection n)) = 0"
  "length (buffer (sample_connection n)) = n"
  "buffer_length (sample_connection n) = of_nat n"
  by (simp_all add: sample_connection_def mqtt_msg_init_def)

definition sample_rnd :: "unit \<Rightarrow> u32 \<times> unit" where
  "sample_rnd w = (0x2a0001, w)"

lemma sample_id: "choose_message_id sample_rnd 0 () = Some (0x2b, ())"
  by (simp add: choose_message_id.simps platform_random_def sample_rnd_def)

lemma sample_publish_id: "publish_id sample_rnd 1 () = Some (0x2b, ())"
  by (simp add: publish_id_def sample_id)

section \<open>Properties\<close>

text \<open>
  C1: Round trip of PUBLISH.  When \<open>mqtt_msg_publish\<close> is given a topic, a payload and an
  identifier source, and the packet fits the buffer, it succeeds, and the readers applied to its
  bytes (with anything behind them in the receive buffer) return the type, the QoS, the topic, the
  payload and, for QoS 1 and 2, the identifier.
\<close>

theorem publish_roundtrip:
  assumes "fits c (length (publish_rest qos topic m d))" and "topic \<noteq> []" and "d \<noteq> []"
    and "publish_id rnd qos w = Some (m, w')" and "sint len = int (length d)" and "qos \<in> {0, 1, 2}"
  shows "\<exists>c' p t k. mqtt_msg_publish rnd c (Some topic) (Some d) len qos retain mid w = Some (c', m, w') \<and>
    message_bytes c' = Some p \<and>
    mqtt_get_type (p @ junk) = Some (type_code MQTT_MSG_TYPE_PUBLISH) \<and>
    mqtt_get_qos (p @ junk) = Some qos \<and> mqtt_get_retain (p @ junk) = Some (retain AND 1) \<and>
    mqtt_get_publish_topic (p @ junk) (of_nat (length p)) = Some (Some (t, length topic)) \<and>
    take (length topic) (drop t (p @ junk)) = topic \<and>
    mqtt_get_publish_data (p @ junk) (of_nat (length p)) = Some (Some k, of_nat (length d)) \<and>
    take (length d) (drop k (p @ junk)) = d \<and>
    (qos \<noteq> 0 \<longrightarrow> mqtt_get_id (p @ junk) (of_nat (length p)) = Some m)"
proof -
  let ?p = "publish_packet qos retain topic m d"
  obtain c' where run: "mqtt_msg_publish rnd c (Some topic) (Some d) len qos retain mid w = Some (c', m, w')"
    and p: "message_bytes c' = Some ?p"
    using publish_built [OF assms(1,2,4,5)] by (auto simp: built_def)
  have small: "length (publish_rest qos topic m d) + 5 < 65536"
    using assms(1) unsigned_less [of "buffer_length c", where ?'a = nat]
    by (simp add: fits_def MQTT_MAX_FIXED_HEADER_SIZE_def)
  have r: "received (?p @ junk) (length ?p) qos retain topic m d"
    using small assms(3) holds_whole [of ?p junk]
    by (simp add: received_def length_publish_packet) (simp add: publish_rest_def)
  have n: "length ?p < 65536"
    using small length_remaining_length_4 [of "length (publish_rest qos topic m d)"]
    by (simp add: publish_packet_def mqtt_packet_def)
  have "qos AND 3 = qos" using assms(6) by auto
  moreover have "length ?p - payload_offset qos topic m d = length d"
    by (simp add: length_publish_packet)
  ultimately show ?thesis
    using run p reads_flags [OF r] publish_topic_read [OF r] publish_data_read [OF r assms(6)]
      topic_slice [OF r] payload_slice [OF r] id_recovered [OF r _ n] assms(6)
    by (intro exI [of _ c'] exI [of _ ?p] exI [of _ "topic_offset qos topic m d"]
        exI [of _ "payload_offset qos topic m d"]) auto
qed

theorem publish_roundtrip_witness:
  "\<exists>c' p t k. mqtt_msg_publish sample_rnd (sample_connection 32) (Some [0x74]) (Some [1, 2, 3]) 3 1 0 0 () =
      Some (c', 0x2b, ()) \<and>
    message_bytes c' = Some p \<and>
    mqtt_get_type (p @ [9]) = Some (type_code MQTT_MSG_TYPE_PUBLISH) \<and>
    mqtt_get_qos (p @ [9]) = Some 1 \<and> mqtt_get_retain (p @ [9]) = Some (0 AND 1) \<and>
    mqtt_get_publish_topic (p @ [9]) (of_nat (length p)) = Some (Some (t, length [0x74 :: u8])) \<and>
    take (length [0x74 :: u8]) (drop t (p @ [9])) = [0x74] \<and>
    mqtt_get_publish_data (p @ [9]) (of_nat (length p)) = Some (Some k, of_nat (length [1, 2, 3 :: u8])) \<and>
    take (length [1, 2, 3 :: u8]) (drop k (p @ [9])) = [1, 2, 3] \<and>
    ((1 :: i32) \<noteq> 0 \<longrightarrow> mqtt_get_id (p @ [9]) (of_nat (length p)) = Some 0x2b)"
  by (rule publish_roundtrip [where junk = "[9]"])
    (simp_all add: sample_publish_id sample_fits publish_rest_def)

text \<open>
  PUBLISH is built exactly as MQTT 3.1.1 lays it out when it fits the output buffer, and the
  message is marked as not fragmented.
\<close>

theorem publish_whole:
  assumes "fits c (length (publish_rest qos topic m d))" and "topic \<noteq> []"
    and "publish_id rnd qos w = Some (m, w')" and "sint len = int (length d)"
  shows "\<exists>c'. mqtt_msg_publish rnd c (Some topic) (Some d) len qos retain mid w = Some (c', m, w') \<and>
    built c (publish_packet qos retain topic m d) c' \<and>
    fragmented_msg_total_length (message c') = 0"
  using assms by (rule publish_built)

theorem publish_whole_witness:
  "\<exists>c'. mqtt_msg_publish sample_rnd (sample_connection 32) (Some [0x74]) (Some [1, 2, 3]) 3 1 0 0 () =
      Some (c', 0x2b, ()) \<and>
    built (sample_connection 32) (publish_packet 1 0 [0x74] 0x2b [1, 2, 3]) c' \<and>
    fragmented_msg_total_length (message c') = 0"
  by (rule publish_whole) (simp_all add: sample_publish_id sample_fits publish_rest_def)

text \<open>
  An oversized PUBLISH.  When the topic fits but the payload does not, the message is the
  beginning of the packet of the specification, as long as the buffer allows; the data offset is
  where the payload starts in it, and the total length is recorded for the fragments to come.
\<close>

theorem publish_first_fragment:
  fixes retain :: i32
  assumes "fits c (length (publish_head qos topic m))" and "topic \<noteq> []"
    and "publish_id rnd qos w = Some (m, w')" and "sint len = int (length d)"
    and "unat (buffer_length c) < 5 + length (publish_rest qos topic m d)"
    and "length (publish_rest qos topic m d) < 2 ^ 28"
  shows "\<exists>c'. mqtt_msg_publish rnd c (Some topic) (Some d) len qos retain mid w = Some (c', m, w') \<and>
    built c (take (length_of (message c')) (publish_packet qos retain topic m d)) c' \<and>
    length_of (message c') < length (publish_packet qos retain topic m d) \<and>
    unat (fragmented_msg_total_length (message c')) = 5 + length (publish_rest qos topic m d) \<and>
    unat (fragmented_msg_data_offset (message c')) =
      length (publish_packet qos retain topic m d) - length d \<and>
    unat (fragmented_msg_data_offset (message c')) \<le> length_of (message c')"
  using assms by (rule publish_fragmented)

theorem publish_first_fragment_witness:
  "\<exists>c'. mqtt_msg_publish sample_rnd (sample_connection 16) (Some [0x74]) (Some (replicate 20 7)) 20 1 0 0 () =
      Some (c', 0x2b, ()) \<and>
    built (sample_connection 16)
      (take (length_of (message c')) (publish_packet 1 0 [0x74] 0x2b (replicate 20 7))) c' \<and>
    length_of (message c') < length (publish_packet 1 0 [0x74] 0x2b (replicate 20 7)) \<and>
    unat (fragmented_msg_total_length (message c')) =
      5 + length (publish_rest 1 [0x74] 0x2b (replicate 20 7)) \<and>
    unat (fragmented_msg_data_offset (message c')) =
      length (publish_packet 1 0 [0x74] 0x2b (replicate 20 7)) - length (replicate 20 (7 :: u8)) \<and>
    unat (fragmented_msg_data_offset (message c')) \<le> length_of (message c')"
  by (rule publish_first_fragment)
    (simp_all add: sample_publish_id sample_fits publish_rest_def publish_head_def)

text \<open>
  C31: CONNECT is built exactly as MQTT 3.1.1 lays it out: protocol name and level, the flags
  that describe which of will, user name and password follow, the keep-alive time, and these
  fields in this order.
\<close>

theorem connect_packet:
  assumes "fits c (length (connect_rest info))" and "fragmented_msg_total_length (message c) = 0"
    and "str_present (client_id info)" and "will_ok info"
  shows "\<exists>c'. mqtt_msg_connect c info = Some c' \<and>
    built c (mqtt_packet MQTT_MSG_TYPE_CONNECT 0 0 0 (connect_rest info)) c'"
  using assms by (rule connect_built)

definition sample_info :: mqtt_connect_info where
  "sample_info = \<lparr>client_id = Some [0x61, 0x62], username = Some [0x75], password = Some [0x70],
     will_topic = Some [0x77, 0x74], will_message = Some [1, 2, 3], keepalive = 120,
     will_length = 3, will_qos = 1, will_retain = 1, clean_session = 1\<rparr>"

theorem connect_packet_witness:
  "\<exists>c'. mqtt_msg_connect (sample_connection 64) sample_info = Some c' \<and>
    built (sample_connection 64)
      (mqtt_packet MQTT_MSG_TYPE_CONNECT 0 0 0 (connect_rest sample_info)) c'"
  by (rule connect_packet)
    (simp_all add: sample_fits connect_rest_def connect_payload_def sample_info_def will_ok_def)

text \<open>
  C32: SUBSCRIBE decides by size: with room for the packet it is built exactly, with a fresh
  identifier, and without room for it the message is refused (length 0); it never writes outside
  the buffer.
\<close>

theorem subscribe_decides:
  assumes "unat (buffer_length c) \<le> length (buffer c)"
    and "fragmented_msg_total_length (message c) = 0"
    and "topic \<noteq> []" and "length topic < 2 ^ 31" and "choose_message_id rnd 0 w = Some (m, w')"
  shows "\<exists>c' mid'. mqtt_msg_subscribe rnd c (Some topic) qos mid w = Some (c', mid', w') \<and>
    (if fits c (5 + length topic)
     then mid' = m \<and> built c (mqtt_packet MQTT_MSG_TYPE_SUBSCRIBE 0 1 0
            (be16_bytes (unat m) @ utf8_field topic @ [ucast qos])) c'
     else length_of (message c') = 0)"
  using assms subscribe_built [of c topic rnd w m w' qos mid]
    subscribe_refused [of c topic rnd w m w' qos mid] by auto

theorem subscribe_decides_witness:
  "\<exists>c' mid'. mqtt_msg_subscribe sample_rnd (sample_connection 16) (Some [0x74, 0x75]) 1 0 () =
      Some (c', mid', ()) \<and>
    (if fits (sample_connection 16) (5 + length [0x74 :: u8, 0x75])
     then mid' = 0x2b \<and> built (sample_connection 16) (mqtt_packet MQTT_MSG_TYPE_SUBSCRIBE 0 1 0
            (be16_bytes (unat (0x2b :: u16)) @ utf8_field [0x74, 0x75] @ [ucast (1 :: i32)])) c'
     else length_of (message c') = 0)"
  by (rule subscribe_decides) (simp_all add: sample_id)

text \<open>
  UNSUBSCRIBE decides by size in the same way.
\<close>

theorem unsubscribe_decides:
  assumes "unat (buffer_length c) \<le> length (buffer c)"
    and "fragmented_msg_total_length (message c) = 0"
    and "topic \<noteq> []" and "length topic < 2 ^ 31" and "choose_message_id rnd 0 w = Some (m, w')"
  shows "\<exists>c' mid'. mqtt_msg_unsubscribe rnd c (Some topic) mid w = Some (c', mid', w') \<and>
    (if fits c (4 + length topic)
     then mid' = m \<and> built c (mqtt_packet MQTT_MSG_TYPE_UNSUBSCRIBE 0 1 0
            (be16_bytes (unat m) @ utf8_field topic)) c'
     else length_of (message c') = 0)"
  using assms unsubscribe_built [of c topic rnd w m w' mid]
    unsubscribe_refused [of c topic rnd w m w' mid] by auto

theorem unsubscribe_decides_witness:
  "\<exists>c' mid'. mqtt_msg_unsubscribe sample_rnd (sample_connection 16) (Some [0x74, 0x75]) 0 () =
      Some (c', mid', ()) \<and>
    (if fits (sample_connection 16) (4 + length [0x74 :: u8, 0x75])
     then mid' = 0x2b \<and> built (sample_connection 16) (mqtt_packet MQTT_MSG_TYPE_UNSUBSCRIBE 0 1 0
            (be16_bytes (unat (0x2b :: u16)) @ utf8_field [0x74, 0x75])) c'
     else length_of (message c') = 0)"
  by (rule unsubscribe_decides) (simp_all add: sample_id)

text \<open>
  The four acknowledgements carry the identifier they are given and the flags MQTT requires
  (PUBREL has the reserved bit pattern 2), and \<open>mqtt_get_id\<close> reads the identifier back.
\<close>

theorem acks_roundtrip:
  assumes "fits c 2" and "fragmented_msg_total_length (message c) = 0" and "m \<noteq> 0"
    and "(build, ty) \<in> {(mqtt_msg_puback rnd, MQTT_MSG_TYPE_PUBACK), (mqtt_msg_pubrec rnd, MQTT_MSG_TYPE_PUBREC),
      (mqtt_msg_pubrel rnd, MQTT_MSG_TYPE_PUBREL), (mqtt_msg_pubcomp rnd, MQTT_MSG_TYPE_PUBCOMP)}"
  shows "\<exists>c' p. build c m w = Some (c', w) \<and> message_bytes c' = Some p \<and> length p = 4 \<and>
    mqtt_get_type p = Some (type_code ty) \<and> mqtt_has_valid_msg_hdr p 4 = Some True \<and>
    mqtt_get_id p 4 = Some m"
proof -
  obtain qos where build: "build = mqtt_msg_ack rnd ty qos"
    and qos: "qos = (if ty = MQTT_MSG_TYPE_PUBREL then 1 else 0)"
    and ty: "ty \<in> {MQTT_MSG_TYPE_PUBACK, MQTT_MSG_TYPE_PUBREC, MQTT_MSG_TYPE_PUBREL, MQTT_MSG_TYPE_PUBCOMP}"
    using assms(4) by (auto simp: mqtt_msg_puback_def mqtt_msg_pubrec_def mqtt_msg_pubrel_def mqtt_msg_pubcomp_def)
  let ?p = "mqtt_packet ty 0 qos 0 (be16_bytes (unat m))"
  obtain c' where run: "mqtt_msg_ack rnd ty qos c m w = Some (c', w)" and p: "message_bytes c' = Some ?p"
    using ack_built [OF assms(1,2) choose_message_id_given [OF assms(3), of rnd w], of ty qos]
    by (auto simp: built_def)
  have bytes: "?p = [header_byte (type_code ty) 0 qos 0, 2, of_nat (unat m div 256), ucast m]"
    by (simp add: mqtt_packet_def remaining_length_small be16_bytes_def)
  have "be16 (word_of_nat (unat m div 256)) (ucast m) = unat m"
    using be16_be16_bytes [of "unat m"] unsigned_less [of m, where ?'a = nat] by simp
  then have "mqtt_get_id ?p 4 = Some m"
    unfolding bytes using ty
    by (auto simp: mqtt_get_id_def header_byte_type Let_def)
  moreover have "mqtt_has_valid_msg_hdr ?p 4 = Some True"
    unfolding bytes using ty by (auto simp: valid_hdr_eq qos)
  moreover have "mqtt_get_type ?p = Some (type_code ty)"
    unfolding bytes by (simp add: header_byte_type)
  ultimately show ?thesis
    using run p by (auto simp: build bytes)
qed

theorem acks_roundtrip_witness:
  "\<exists>c' p. mqtt_msg_pubrel sample_rnd (sample_connection 8) 0x1234 () = Some (c', ()) \<and>
    message_bytes c' = Some p \<and> length p = 4 \<and>
    mqtt_get_type p = Some (type_code MQTT_MSG_TYPE_PUBREL) \<and> mqtt_has_valid_msg_hdr p 4 = Some True \<and>
    mqtt_get_id p 4 = Some 0x1234"
  by (rule acks_roundtrip [where rnd = sample_rnd]) (simp_all add: sample_fits)

text \<open>
  Reading a PUBLISH of which only the first \<open>n\<close> bytes have been received.  The topic is
  found, and the data is the received part of the payload, no more and no less.
\<close>

theorem publish_partial_read:
  assumes "received buf n qos retain topic m d" and "qos \<in> {0, 1, 2}"
  shows "\<exists>t k. mqtt_get_publish_topic buf (of_nat n) = Some (Some (t, length topic)) \<and>
    take (length topic) (drop t buf) = topic \<and>
    mqtt_get_publish_data buf (of_nat n) = Some (Some k, of_nat (n - k)) \<and>
    k = length (publish_packet qos retain topic m d) - length d \<and>
    take (n - k) (drop k buf) = take (n - k) d"
  using publish_topic_read [OF assms(1)] publish_data_read [OF assms] topic_slice [OF assms(1)]
    payload_slice [OF assms(1)]
  by (intro exI [of _ "topic_offset qos topic m d"] exI [of _ "payload_offset qos topic m d"])
    (simp add: length_publish_packet)

text \<open>An instance: 9 of the 10 bytes of a packet, in a buffer of 9.\<close>

definition sample_buf :: "u8 list" where
  "sample_buf = [0x32, 8, 0, 1, 0x74, 0, 5, 1, 2]"

lemma sample_packet: "publish_packet 1 0 [0x74] 5 [1, 2, 3] = sample_buf @ [3]"
  by (simp add: sample_buf_def publish_packet_def mqtt_packet_def publish_rest_def utf8_field_def
      header_byte_def remaining_length_small be16_bytes_def)

lemma sample_holds: "holds sample_buf 9 (publish_packet 1 0 [0x74] 5 [1, 2, 3])"
  unfolding sample_packet by (simp add: holds_def sample_buf_def)

lemma sample_received: "received sample_buf 9 1 0 [0x74] 5 [1, 2, 3]"
  using sample_holds
  by (simp add: received_def payload_offset_def topic_offset_def body_offset_def
      remaining_length_small publish_rest_def)

theorem publish_partial_read_witness:
  "\<exists>t k. mqtt_get_publish_topic sample_buf (of_nat 9) = Some (Some (t, length [0x74 :: u8])) \<and>
    take (length [0x74 :: u8]) (drop t sample_buf) = [0x74] \<and>
    mqtt_get_publish_data sample_buf (of_nat 9) = Some (Some k, of_nat (9 - k)) \<and>
    k = length (publish_packet 1 0 [0x74] 5 [1, 2, 3]) - length [1, 2, 3 :: u8] \<and>
    take (9 - k) (drop k sample_buf) = take (9 - k) [1, 2, 3]"
  using sample_received by (rule publish_partial_read) simp

text \<open>
  \<open>mqtt_header_complete\<close> is exact for headers below 64 KiB: it answers true precisely when the
  received bytes reach the payload.
\<close>

theorem header_complete_exact:
  assumes "holds buf n (publish_packet qos retain topic m d)" and "topic \<noteq> []"
    and "length (publish_rest qos topic m d) < 2 ^ 28" and "n < 65536" and "qos \<in> {0, 1, 2}"
    and "payload_offset qos topic m d < 65536"
  shows "mqtt_header_complete buf (of_nat n) = Some (payload_offset qos topic m d \<le> n)"
proof -
  have "length topic < 65536" using assms(6) by (simp add: payload_offset_def)
  moreover have "topic_offset qos topic m d < payload_offset qos topic m d"
    using assms(2) by (simp add: payload_offset_def)
  ultimately show ?thesis
    using header_complete_eq [OF assms(1) _ assms(3-5)] assms(6) by auto
qed

theorem header_complete_exact_witness:
  "mqtt_header_complete sample_buf (of_nat 9) = Some (payload_offset 1 [0x74] 5 [1, 2, 3] \<le> 9)"
  using sample_holds
  by (rule header_complete_exact)
    (simp_all add: publish_rest_def payload_offset_def topic_offset_def body_offset_def
      remaining_length_small)

text \<open>
  Above that, the 16-bit index of \<open>mqtt_header_complete\<close> wraps: a topic so long that the
  payload starts past 65535 is reported complete as soon as the length of the header modulo 65536
  has been received, although most of the topic is missing.
\<close>

theorem header_complete_wraps:
  assumes "holds buf n (publish_packet qos retain topic m d)" and "length topic < 65536"
    and "length (publish_rest qos topic m d) < 2 ^ 28" and "n < 65536" and "qos \<in> {0, 1, 2}"
    and "65536 \<le> payload_offset qos topic m d" and "topic_offset qos topic m d < n"
    and "payload_offset qos topic m d mod 65536 \<le> n"
  shows "mqtt_header_complete buf (of_nat n) = Some True \<and> n < payload_offset qos topic m d"
  using header_complete_eq [OF assms(1-5)] assms(4,6-8) by simp

definition long_publish :: "u8 list" where
  "long_publish = publish_packet 0 0 (replicate 65535 0x61) 0 [1]"

lemma long_publish_layout:
  "length (publish_rest 0 (replicate 65535 0x61) 0 [1]) = 65538"
  "body_offset 0 (replicate 65535 0x61) 0 [1] = 4"
  by (simp_all add: publish_rest_def body_offset_def utf8_field_def remaining_length_step remaining_length_small)

theorem header_complete_wraps_witness:
  "mqtt_header_complete (take 100 long_publish) (of_nat 100) = Some True \<and>
   100 < payload_offset 0 (replicate 65535 0x61) 0 [1]"
  by (rule header_complete_wraps [where retain = 0])
    (simp_all add: holds_def long_publish_def length_publish_packet long_publish_layout
      payload_offset_def topic_offset_def)

text \<open>
  \<open>mqtt_has_valid_msg_hdr\<close> accepts a first byte exactly when its flags are those that MQTT
  3.1.1 (table 2.2) allows for its type.
\<close>

theorem valid_header_iff_legal:
  assumes "1 \<le> unat len"
  shows "mqtt_has_valid_msg_hdr (header_byte (type_code ty) dup qos retain # xs) len =
    Some (legal_flags ty (dup AND 1) (qos AND 3) (retain AND 1))"
  using assms by (rule valid_hdr_eq)

theorem valid_header_iff_legal_witness:
  "mqtt_has_valid_msg_hdr (header_byte (type_code MQTT_MSG_TYPE_PUBLISH) 1 0 0 # [0]) 2 =
    Some (legal_flags MQTT_MSG_TYPE_PUBLISH (1 AND 1) (0 AND 3) (0 AND 1))"
  by (rule valid_header_iff_legal) simp

text \<open>
  \<open>mqtt_get_id\<close> never reads outside a buffer of at least the given length, whatever its bytes.
\<close>

theorem get_id_memory_safe:
  assumes "unat len \<le> length buf"
  shows "mqtt_get_id buf len \<noteq> None"
  using assms by (rule get_id_safe)

theorem get_id_memory_safe_witness: "mqtt_get_id [0x30, 0xff, 0xff, 0xff] 4 \<noteq> None"
  by (rule get_id_memory_safe) simp

text \<open>
  A PUBLISH of 2^28 bytes or more leaves defined behaviour: \<open>fini_message\<close> writes past the end
  of its four-byte array of length bytes before it checks their number.
\<close>

theorem publish_too_long_overflows:
  assumes "fits c (length (publish_head qos topic m))" and "topic \<noteq> []"
    and "publish_id rnd qos w = Some (m, w')" and "sint len = int (length d)"
    and "2 ^ 28 \<le> length (publish_rest qos topic m d)"
    and "length (publish_rest qos topic m d) < 2 ^ 31"
  shows "mqtt_msg_publish rnd c (Some topic) (Some d) len qos retain mid w = None"
  using assms by (rule publish_overflow)

theorem publish_too_long_overflows_witness:
  "mqtt_msg_publish sample_rnd (sample_connection 32) (Some [0x74]) (Some (replicate (2 ^ 28) 0)) (2 ^ 28)
     1 0 0 () = None"
  by (rule publish_too_long_overflows)
    (simp_all add: sample_publish_id sample_fits publish_rest_def publish_head_def)

text \<open>
  \<open>mqtt_set_dup\<close> changes nothing but the DUP flag of the packet it is applied to, and
  \<open>mqtt_get_dup\<close> then reports it.
\<close>

theorem set_dup_only:
  "mqtt_set_dup (mqtt_packet ty dup qos retain rest) = Some (mqtt_packet ty 1 qos retain rest) \<and>
   mqtt_get_dup (mqtt_packet ty 1 qos retain rest) = Some 1"
  using header_byte_fields(2) [of "type_code ty" 1 qos retain]
  by (simp add: mqtt_packet_def set_dup_eq mqtt_get_dup_def)

text \<open>
  \<open>mqtt_get_total_length\<close> recovers the length of a packet and of its fixed header as soon as
  the fixed header has been received.
\<close>

theorem total_length_read:
  assumes "holds buf n (mqtt_packet ty dup qos retain rest)" and "length rest < 2 ^ 28"
    and "1 + length (remaining_length (length rest)) \<le> n" and "n < 65536"
  shows "mqtt_get_total_length buf (of_nat n) =
    Some (of_nat (length (mqtt_packet ty dup qos retain rest)), 1 + length (remaining_length (length rest)))"
  using assms by (rule total_length_eq)

theorem total_length_read_witness:
  "mqtt_get_total_length [0x30, 2] (of_nat 2) =
    Some (of_nat (length (mqtt_packet MQTT_MSG_TYPE_PUBLISH 0 0 0 [0, 0])),
      1 + length (remaining_length (length [0, 0 :: u8])))"
  by (rule total_length_read)
    (simp_all add: holds_def mqtt_packet_def remaining_length_small header_byte_def)

section \<open>The length field as a codec\<close>

definition encode_remaining_length :: "nat \<Rightarrow> u8 list" where
  "encode_remaining_length n = the (encode_length_loop (int n) [])"

definition decode_remaining_length :: "u8 list \<Rightarrow> nat option" where
  "decode_remaining_length bs =
     do { (i, t) \<leftarrow> scan_length (0 # bs) (1 + length bs) 1 0; Some (unat t) }"

interpretation length_codec:
  codec "\<lambda>n. n < 2 ^ 28" encode_remaining_length decode_remaining_length
proof
  fix n :: nat
  assume n: "n < 2 ^ 28"
  let ?l = "length (remaining_length n)"
  have l4: "?l \<le> 4" using n by (simp only: length_remaining_length_4)
  then have enc: "encode_remaining_length n = remaining_length n"
    using encode_length_loop_eq [of n "[]"] by (simp add: encode_remaining_length_def)
  have "scan_length (0 # remaining_length n) (1 + ?l) 1 0 = Some (1 + ?l, of_nat n)"
    using scan_length_encoded [of n 1 "0 # remaining_length n" "1 + ?l" 0] l4 by simp
  then show "decode_remaining_length (encode_remaining_length n) = Some n"
    using n by (simp add: decode_remaining_length_def enc unat_u32_of_nat)
qed

text \<open>
  The length bytes the builder writes determine the length: no two lengths below 2^28 have
  the same encoding.
\<close>

theorem length_encoding_injective: "inj_on encode_remaining_length {n. n < 2 ^ 28}"
  by (rule length_codec.encode_inj_on)

end
