(* ===== verification/Mqtt_Outbox.thy ===== *)
theory Mqtt_Outbox
  imports Esp_Prelude
begin

text \<open>
  The MQTT outbox, \<open>mqtt_outbox.c\<close> and \<open>mqtt_outbox.h\<close>: a tail queue of copies of the messages
  that wait to be sent or to be acknowledged.

  The tail queue is the list of its items in order.  An \<open>outbox_item_handle_t\<close> is a pointer, so
  every item carries the number of its allocation, \<open>handle\<close>; allocations are numbered upwards.
  An \<open>int\<close> is a 32-bit word and the age \<open>current_tick - item->tick\<close> wraps like the machine's.
  The allocation check \<open>ESP_MEM_CHECK\<close> is empty in this build (platform_esp32_idf.h), so
  allocation is taken to succeed.
\<close>

section \<open>Types\<close>

datatype pending_state = QUEUED | TRANSMITTED | CONFIRMED

datatype esp_err = ESP_OK | ESP_FAIL

record outbox_item =
  handle :: nat
  item_buffer :: "u8 list"
  item_len :: i32
  item_msg_id :: i32
  item_msg_type :: i32
  item_msg_qos :: i32
  item_tick :: i32
  retry_count :: i32
  pending :: pending_state

record outbox =
  items :: "outbox_item list"
  next_handle :: nat

text \<open>\<open>outbox_message_t\<close>; the two pointers are the bytes they point to.\<close>

record outbox_message =
  msg_data :: "u8 list"
  msg_len :: i32
  msg_msg_id :: i32
  msg_msg_qos :: i32
  msg_msg_type :: i32
  remaining_data :: "u8 list option"
  remaining_len :: i32

section \<open>Operations\<close>

definition outbox_init :: outbox where
  "outbox_init = \<lparr>items = [], next_handle = 0\<rparr>"

text \<open>
  The new item's buffer has \<open>len + remaining_len\<close> bytes.  Bytes that no \<open>memcpy\<close> fills are
  indeterminate in C; they are zero here, and no property depends on them.
\<close>

definition outbox_enqueue :: "outbox \<Rightarrow> outbox_message \<Rightarrow> i32 \<Rightarrow> (outbox_item \<times> outbox) option" where
  "outbox_enqueue ob m tick = do {
     let total = msg_len m + remaining_len m;
     let buf = replicate (size_of_i32 total) 0;
     bs \<leftarrow> mem_bytes (msg_data m) (size_of_i32 (msg_len m));
     buf \<leftarrow> mem_write buf 0 bs;
     buf \<leftarrow> (case remaining_data m of None \<Rightarrow> Some buf
            | Some d \<Rightarrow> do {
                bs \<leftarrow> mem_bytes d (size_of_i32 (remaining_len m));
                mem_write buf (size_of_i32 (msg_len m)) bs });
     let item = \<lparr>handle = next_handle ob, item_buffer = buf, item_len = total,
                 item_msg_id = msg_msg_id m, item_msg_type = msg_msg_type m,
                 item_msg_qos = msg_msg_qos m, item_tick = tick, retry_count = 0, pending = QUEUED\<rparr>;
     Some (item, \<lparr>items = items ob @ [item], next_handle = next_handle ob + 1\<rparr>) }"

text \<open>\<open>STAILQ_FOREACH ... return item\<close>\<close>

definition outbox_get :: "outbox \<Rightarrow> i32 \<Rightarrow> outbox_item option" where
  "outbox_get ob mid = find (\<lambda>it. item_msg_id it = mid) (items ob)"

text \<open>The out-parameter \<open>*tick\<close> is the item's \<open>item_tick\<close>.\<close>

definition outbox_dequeue :: "outbox \<Rightarrow> pending_state \<Rightarrow> outbox_item option" where
  "outbox_dequeue ob st = find (\<lambda>it. pending it = st) (items ob)"

text \<open>Length as \<open>size_t\<close>, identifier as \<open>uint16_t\<close>, type, QoS; the data are the item's buffer.\<close>

definition outbox_item_get_data :: "outbox_item \<Rightarrow> nat \<times> u16 \<times> i32 \<times> i32" where
  "outbox_item_get_data it =
     (size_of_i32 (item_len it), ucast (item_msg_id it), item_msg_type it, item_msg_qos it)"

text \<open>\<open>STAILQ_REMOVE\<close> of an item, found by its address.\<close>

definition stailq_remove :: "nat \<Rightarrow> outbox \<Rightarrow> outbox" where
  "stailq_remove h ob = ob\<lparr>items := filter (\<lambda>it. handle it \<noteq> h) (items ob)\<rparr>"

definition outbox_delete :: "outbox \<Rightarrow> i32 \<Rightarrow> i32 \<Rightarrow> esp_err \<times> outbox" where
  "outbox_delete ob mid ty =
     (case find (\<lambda>it. item_msg_id it = mid \<and> 0xFF AND item_msg_type it = ty) (items ob) of
        Some it \<Rightarrow> (ESP_OK, stailq_remove (handle it) ob)
      | None \<Rightarrow> (ESP_FAIL, ob))"

text \<open>
  \<open>STAILQ_FOREACH_SAFE\<close> over the items of the beginning, removing those that satisfy a condition
  and counting them.
\<close>

fun foreach_remove :: "(outbox_item \<Rightarrow> bool) \<Rightarrow> outbox_item list \<Rightarrow> outbox \<Rightarrow> nat \<Rightarrow> outbox \<times> nat" where
  "foreach_remove cond [] ob n = (ob, n)"
| "foreach_remove cond (it # its) ob n =
     (if cond it then foreach_remove cond its (stailq_remove (handle it) ob) (n + 1)
      else foreach_remove cond its ob n)"

definition outbox_delete_msgid :: "outbox \<Rightarrow> i32 \<Rightarrow> esp_err \<times> outbox" where
  "outbox_delete_msgid ob mid =
     (ESP_OK, fst (foreach_remove (\<lambda>it. item_msg_id it = mid) (items ob) ob 0))"

text \<open>A write through the item pointer that \<open>outbox_get\<close> returned.\<close>

definition update_item :: "nat \<Rightarrow> (outbox_item \<Rightarrow> outbox_item) \<Rightarrow> outbox \<Rightarrow> outbox" where
  "update_item h f ob = ob\<lparr>items := map (\<lambda>it. if handle it = h then f it else it) (items ob)\<rparr>"

definition outbox_set_pending :: "outbox \<Rightarrow> i32 \<Rightarrow> pending_state \<Rightarrow> esp_err \<times> outbox" where
  "outbox_set_pending ob mid st =
     (case outbox_get ob mid of
        Some it \<Rightarrow> (ESP_OK, update_item (handle it) (\<lambda>it. it\<lparr>pending := st\<rparr>) ob)
      | None \<Rightarrow> (ESP_FAIL, ob))"

definition outbox_delete_msgtype :: "outbox \<Rightarrow> i32 \<Rightarrow> esp_err \<times> outbox" where
  "outbox_delete_msgtype ob ty =
     (ESP_OK, fst (foreach_remove (\<lambda>it. item_msg_type it = ty) (items ob) ob 0))"

definition expired :: "i32 \<Rightarrow> i32 \<Rightarrow> outbox_item \<Rightarrow> bool" where
  "expired now timeout it \<longleftrightarrow> sint timeout < sint (now - item_tick it)"

definition outbox_delete_expired :: "outbox \<Rightarrow> i32 \<Rightarrow> i32 \<Rightarrow> i32 \<times> outbox" where
  "outbox_delete_expired ob now timeout =
     (let (ob', n) = foreach_remove (expired now timeout) (items ob) ob 0 in (of_nat n, ob'))"

definition outbox_get_size :: "outbox \<Rightarrow> i32" where
  "outbox_get_size ob = foldl (\<lambda>siz it. siz + item_len it) 0 (items ob)"

lemma find_SomeD: "find P xs = Some x \<Longrightarrow> x \<in> set xs \<and> P x"
  by (induction xs) (auto split: if_splits)

function outbox_cleanup :: "outbox \<Rightarrow> i32 \<Rightarrow> esp_err \<times> outbox" where
  "outbox_cleanup ob max_size =
     (if sint max_size < sint (outbox_get_size ob) then
        (case outbox_dequeue ob CONFIRMED of
           None \<Rightarrow> (ESP_FAIL, ob)
         | Some it \<Rightarrow> outbox_cleanup (stailq_remove (handle it) ob) max_size)
      else (ESP_OK, ob))"
  by pat_completeness auto
termination
  by (relation "measure (\<lambda>(ob, _). length (items ob))")
    (auto simp: outbox_dequeue_def stailq_remove_def length_filter_less dest!: find_SomeD)

declare outbox_cleanup.simps [simp del]

text \<open>
  \<open>outbox_destroy\<close> frees the head of the list.  The result is the list of the items whose memory
  is still allocated, and unreachable, afterwards.
\<close>

definition outbox_destroy :: "outbox \<Rightarrow> outbox_item list" where
  "outbox_destroy ob = items (snd (outbox_cleanup ob 0))"

section \<open>Well-formed outboxes\<close>

text \<open>No two items share an address, and every buffer has the length its item states.\<close>

definition outbox_wf :: "outbox \<Rightarrow> bool" where
  "outbox_wf ob \<longleftrightarrow> distinct (map handle (items ob)) \<and>
     (\<forall>it \<in> set (items ob). handle it < next_handle ob \<and>
        length (item_buffer it) = size_of_i32 (item_len it))"

lemma outbox_init_wf [simp]: "outbox_wf outbox_init"
  by (simp add: outbox_wf_def outbox_init_def)

lemma distinct_map_filter_handle:
  "distinct (map handle its) \<Longrightarrow> distinct (map handle (filter P its))"
  by (induction its) auto

lemma stailq_remove_wf: "outbox_wf ob \<Longrightarrow> outbox_wf (stailq_remove h ob)"
  by (auto simp: outbox_wf_def stailq_remove_def distinct_map_filter_handle)

lemma foreach_remove_wf: "outbox_wf ob \<Longrightarrow> outbox_wf (fst (foreach_remove P its ob n))"
  by (induction P its ob n rule: foreach_remove.induct) (auto intro: stailq_remove_wf)

lemma update_item_wf:
  assumes "outbox_wf ob" and "\<And>it. handle (f it) = handle it" and "\<And>it. item_len (f it) = item_len it"
    and "\<And>it. length (item_buffer (f it)) = length (item_buffer it)"
  shows "outbox_wf (update_item h f ob)"
proof -
  have "map handle (map (\<lambda>it. if handle it = h then f it else it) its) = map handle its" for its
    by (induction its) (auto simp: assms(2))
  then show ?thesis
    using assms(1) by (auto simp: outbox_wf_def update_item_def assms(2-4) simp del: map_map)
qed

lemma set_pending_wf: "outbox_wf ob \<Longrightarrow> outbox_wf (snd (outbox_set_pending ob mid st))"
  by (auto simp: outbox_set_pending_def intro!: update_item_wf split: option.split)

lemma cleanup_wf: "outbox_wf ob \<Longrightarrow> outbox_wf (snd (outbox_cleanup ob mx))"
  by (induction ob mx rule: outbox_cleanup.induct)
    (subst outbox_cleanup.simps, auto intro: stailq_remove_wf split: option.split)

lemma enqueue_SomeD:
  assumes "outbox_enqueue ob m tick = Some (it, ob')"
  shows "items ob' = items ob @ [it]" "next_handle ob' = next_handle ob + 1"
    "handle it = next_handle ob" "pending it = QUEUED" "item_tick it = tick"
    "item_msg_id it = msg_msg_id m" "item_msg_type it = msg_msg_type m"
    "item_msg_qos it = msg_msg_qos m" "item_len it = msg_len m + remaining_len m"
    "length (item_buffer it) = size_of_i32 (item_len it)"
  using assms
  by (auto simp: outbox_enqueue_def Let_def bind_eq_Some_conv dest!: mem_write_length split: option.splits)

lemma enqueue_wf: "outbox_enqueue ob m tick = Some (it, ob') \<Longrightarrow> outbox_wf ob \<Longrightarrow> outbox_wf ob'"
  by (frule enqueue_SomeD(1), frule enqueue_SomeD(2), frule enqueue_SomeD(3), drule enqueue_SomeD(10))
    (fastforce simp: outbox_wf_def)

section \<open>The outbox as a machine\<close>

text \<open>
  The operations a client can perform, as data; a write of the DUP bit into an item's buffer
  (\<open>mqtt_set_dup\<close> through the pointer that \<open>outbox_item_get_data\<close> returned) is one of them.
  An enqueue outside defined behaviour is no step.
\<close>

datatype outbox_op =
    Enqueue outbox_message i32
  | Set_pending i32 pending_state
  | Delete i32 i32
  | Delete_msgid i32
  | Delete_msgtype i32
  | Delete_expired i32 i32
  | Cleanup i32
  | Set_dup nat

definition set_item_dup :: "nat \<Rightarrow> outbox \<Rightarrow> outbox" where
  "set_item_dup h = update_item h
     (\<lambda>it. it\<lparr>item_buffer := (case item_buffer it of [] \<Rightarrow> [] | b # bs \<Rightarrow> (b OR 0x08) # bs)\<rparr>)"

fun outbox_step :: "outbox_op \<Rightarrow> outbox \<Rightarrow> outbox" where
  "outbox_step (Enqueue m tick) ob =
     (case outbox_enqueue ob m tick of None \<Rightarrow> ob | Some (it, ob') \<Rightarrow> ob')"
| "outbox_step (Set_pending mid st) ob = snd (outbox_set_pending ob mid st)"
| "outbox_step (Delete mid ty) ob = snd (outbox_delete ob mid ty)"
| "outbox_step (Delete_msgid mid) ob = snd (outbox_delete_msgid ob mid)"
| "outbox_step (Delete_msgtype ty) ob = snd (outbox_delete_msgtype ob ty)"
| "outbox_step (Delete_expired now timeout) ob = snd (outbox_delete_expired ob now timeout)"
| "outbox_step (Cleanup mx) ob = snd (outbox_cleanup ob mx)"
| "outbox_step (Set_dup h) ob = set_item_dup h ob"

lemma outbox_step_wf: "outbox_wf ob \<Longrightarrow> outbox_wf (outbox_step op ob)"
  by (cases op)
    (auto simp: outbox_delete_def outbox_delete_msgid_def outbox_delete_msgtype_def
        outbox_delete_expired_def case_prod_unfold Let_def set_item_dup_def
      intro: enqueue_wf set_pending_wf stailq_remove_wf foreach_remove_wf cleanup_wf
      intro!: update_item_wf split: option.split list.split)

interpretation outbox_machine: invariant_machine outbox_step outbox_wf
  by unfold_locales (rule outbox_step_wf)

section \<open>What the operations do\<close>

lemma filter_other_handles [simp]:
  "h \<notin> handle ` set its \<Longrightarrow> filter (\<lambda>it. handle it \<noteq> h) its = its"
  by (induction its) auto

lemma map_other_handles [simp]:
  "h \<notin> handle ` set its \<Longrightarrow> map (\<lambda>it. if handle it = h then f it else it) its = its"
  by (induction its) auto

lemma foreach_remove_general:
  assumes "items ob = pre @ its" and "distinct (map handle (pre @ its))"
  shows "items (fst (foreach_remove P its ob n)) = pre @ filter (\<lambda>it. \<not> P it) its \<and>
    snd (foreach_remove P its ob n) = n + length (filter P its)"
  using assms
proof (induction its arbitrary: ob n pre)
  case Nil
  then show ?case by simp
next
  case (Cons it its)
  show ?case
  proof (cases "P it")
    case True
    have "filter (\<lambda>x. handle x \<noteq> handle it) (pre @ it # its) = pre @ its"
      using Cons.prems(2) by simp
    then have "items (stailq_remove (handle it) ob) = pre @ its"
      using Cons.prems(1) by (simp add: stailq_remove_def)
    moreover have "distinct (map handle (pre @ its))" using Cons.prems(2) by auto
    ultimately show ?thesis
      using Cons.IH [of "stailq_remove (handle it) ob" pre "n + 1"] True by simp
  next
    case False
    have "items ob = (pre @ [it]) @ its" "distinct (map handle ((pre @ [it]) @ its))"
      using Cons.prems by auto
    from Cons.IH [OF this, of n] False show ?thesis by simp
  qed
qed

lemma foreach_remove_items:
  assumes "outbox_wf ob"
  shows "items (fst (foreach_remove P (items ob) ob 0)) = filter (\<lambda>it. \<not> P it) (items ob)"
    and "snd (foreach_remove P (items ob) ob 0) = length (filter P (items ob))"
  using foreach_remove_general [of ob "[]" "items ob" P 0] assms by (simp_all add: outbox_wf_def)

text \<open>Removing one item by its address removes it and keeps the rest in order.\<close>

lemma stailq_remove_split:
  assumes "outbox_wf ob" and "items ob = xs @ it # ys"
  shows "items (stailq_remove (handle it) ob) = xs @ ys"
  using assms by (simp add: stailq_remove_def outbox_wf_def)

lemma find_split:
  assumes "find P xs = Some x"
  obtains ys zs where "xs = ys @ x # zs" "P x" "\<forall>y \<in> set ys. \<not> P y"
proof -
  have "\<exists>ys zs. xs = ys @ x # zs \<and> P x \<and> (\<forall>y \<in> set ys. \<not> P y)"
    using assms
  proof (induction xs)
    case (Cons a xs)
    show ?case
    proof (cases "P a")
      case True
      with Cons.prems have "a # xs = [] @ x # xs \<and> P x \<and> (\<forall>y \<in> set []. \<not> P y)" by simp
      then show ?thesis by blast
    next
      case False
      with Cons obtain ys zs where "xs = ys @ x # zs" "P x" "\<forall>y \<in> set ys. \<not> P y" by auto
      with False have "a # xs = (a # ys) @ x # zs \<and> P x \<and> (\<forall>y \<in> set (a # ys). \<not> P y)" by simp
      then show ?thesis by blast
    qed
  qed simp
  with that show thesis by blast
qed

lemma find_filter_hd: "find P xs = (case filter P xs of [] \<Rightarrow> None | x # _ \<Rightarrow> Some x)"
  by (induction xs) auto

lemma cleanup_spec:
  assumes "outbox_wf ob" and "outbox_cleanup ob mx = (r, ob')"
  shows "(r = ESP_OK \<longleftrightarrow> sint (outbox_get_size ob') \<le> sint mx) \<and>
    (r = ESP_FAIL \<longrightarrow> (\<forall>it \<in> set (items ob'). pending it \<noteq> CONFIRMED)) \<and>
    filter (\<lambda>it. pending it \<noteq> CONFIRMED) (items ob') = filter (\<lambda>it. pending it \<noteq> CONFIRMED) (items ob) \<and>
    (\<exists>k. filter (\<lambda>it. pending it = CONFIRMED) (items ob') =
      drop k (filter (\<lambda>it. pending it = CONFIRMED) (items ob)))"
  using assms
proof (induction ob mx arbitrary: r ob' rule: outbox_cleanup.induct)
  case (1 ob mx)
  show ?case
  proof (cases "sint mx < sint (outbox_get_size ob)")
    case False
    then have "r = ESP_OK" "ob' = ob" using "1.prems"(2) by (auto simp: outbox_cleanup.simps [of ob])
    then show ?thesis using False by (auto intro: exI [of _ 0])
  next
    case over: True
    show ?thesis
    proof (cases "outbox_dequeue ob CONFIRMED")
      case None
      then have "r = ESP_FAIL" "ob' = ob"
        using "1.prems"(2) over by (auto simp: outbox_cleanup.simps [of ob])
      then show ?thesis
        using over None by (auto simp: outbox_dequeue_def find_None_iff intro: exI [of _ 0])
    next
      case (Some it)
      then obtain ys zs where split: "items ob = ys @ it # zs" "pending it = CONFIRMED"
        "\<forall>y \<in> set ys. pending y \<noteq> CONFIRMED"
        unfolding outbox_dequeue_def by (elim find_split) auto
      have rest: "items (stailq_remove (handle it) ob) = ys @ zs"
        using "1.prems"(1) split(1) by (rule stailq_remove_split)
      have "outbox_cleanup (stailq_remove (handle it) ob) mx = (r, ob')"
        using "1.prems"(2) over Some by (simp add: outbox_cleanup.simps [of ob])
      from "1.IH" [OF over Some stailq_remove_wf [OF "1.prems"(1)] this] obtain k where
        ih: "r = ESP_OK \<longleftrightarrow> sint (outbox_get_size ob') \<le> sint mx"
          "r = ESP_FAIL \<longrightarrow> (\<forall>it \<in> set (items ob'). pending it \<noteq> CONFIRMED)"
          "filter (\<lambda>it. pending it \<noteq> CONFIRMED) (items ob') = filter (\<lambda>it. pending it \<noteq> CONFIRMED) (ys @ zs)"
          "filter (\<lambda>it. pending it = CONFIRMED) (items ob') =
             drop k (filter (\<lambda>it. pending it = CONFIRMED) (ys @ zs))"
        unfolding rest by blast
      have "filter (\<lambda>it. pending it = CONFIRMED) ys = []" using split(3) by (simp add: filter_empty_conv)
      then show ?thesis
        using ih split by (intro conjI exI [of _ "Suc k"]) simp_all
    qed
  qed
qed

text \<open>
  The messages that wait to be sent for the first time, served as the client does: take the first
  queued item and mark the item with its message identifier as transmitted.
\<close>

definition queued_items :: "outbox \<Rightarrow> outbox_item list" where
  "queued_items ob = filter (\<lambda>it. pending it = QUEUED) (items ob)"

definition mark_transmitted :: "outbox \<Rightarrow> outbox" where
  "mark_transmitted ob =
     (case outbox_dequeue ob QUEUED of None \<Rightarrow> ob
      | Some it \<Rightarrow> snd (outbox_set_pending ob (item_msg_id it) TRANSMITTED))"

definition outbox_ids_distinct :: "outbox \<Rightarrow> bool" where
  "outbox_ids_distinct ob \<longleftrightarrow> outbox_wf ob \<and> distinct (map item_msg_id (items ob))"

lemma mark_transmitted_split:
  assumes ok: "outbox_ids_distinct ob" and it: "outbox_dequeue ob QUEUED = Some it"
  obtains ys zs where "items ob = ys @ it # zs" "pending it = QUEUED" "\<forall>y \<in> set ys. pending y \<noteq> QUEUED"
    "items (mark_transmitted ob) = ys @ it\<lparr>pending := TRANSMITTED\<rparr> # zs"
proof -
  obtain ys zs where split: "items ob = ys @ it # zs" "pending it = QUEUED"
    "\<forall>y \<in> set ys. pending y \<noteq> QUEUED"
    using it unfolding outbox_dequeue_def by (elim find_split) auto
  have "find (\<lambda>x. item_msg_id x = item_msg_id it) (ys @ it # zs) = Some it"
    using ok unfolding outbox_ids_distinct_def split(1) by (induction ys) auto
  then have get: "outbox_get ob (item_msg_id it) = Some it"
    by (simp add: outbox_get_def split(1))
  have "map (\<lambda>x. if handle x = handle it then x\<lparr>pending := TRANSMITTED\<rparr> else x) (ys @ it # zs) =
      ys @ it\<lparr>pending := TRANSMITTED\<rparr> # zs"
    using ok unfolding outbox_ids_distinct_def outbox_wf_def split(1) by simp
  then have "items (mark_transmitted ob) = ys @ it\<lparr>pending := TRANSMITTED\<rparr> # zs"
    using it get by (simp add: mark_transmitted_def outbox_set_pending_def update_item_def split(1))
  with split that show thesis by blast
qed

interpretation outbox_fifo:
  fifo queued_items "\<lambda>ob. outbox_dequeue ob QUEUED" mark_transmitted outbox_ids_distinct
proof
  fix ob
  show "outbox_dequeue ob QUEUED = (case queued_items ob of [] \<Rightarrow> None | x # xs \<Rightarrow> Some x)"
    by (simp add: outbox_dequeue_def queued_items_def find_filter_hd)
next
  fix ob
  assume ok: "outbox_ids_distinct ob" and "queued_items ob \<noteq> []"
  then obtain it where it: "outbox_dequeue ob QUEUED = Some it"
    by (cases "queued_items ob") (auto simp: outbox_dequeue_def queued_items_def find_filter_hd)
  obtain ys zs where split: "items ob = ys @ it # zs" "pending it = QUEUED"
      "\<forall>y \<in> set ys. pending y \<noteq> QUEUED"
    and after: "items (mark_transmitted ob) = ys @ it\<lparr>pending := TRANSMITTED\<rparr> # zs"
    using ok it by (rule mark_transmitted_split)
  have "filter (\<lambda>it. pending it = QUEUED) ys = []" using split(3) by (simp add: filter_empty_conv)
  then show "queued_items (mark_transmitted ob) = tl (queued_items ob)"
    using split by (simp add: queued_items_def after)
  have "outbox_wf (mark_transmitted ob)"
    using ok by (auto simp: mark_transmitted_def outbox_ids_distinct_def intro: set_pending_wf split: option.split)
  then show "outbox_ids_distinct (mark_transmitted ob)"
    using ok by (simp add: outbox_ids_distinct_def after split(1))
qed

lemma enqueue_whole:
  assumes "sint (msg_len m) = int (length (msg_data m))"
    and "remaining_data m = Some r" and "sint (remaining_len m) = int (length r)"
    and "length (msg_data m) + length r < 2 ^ 31"
  shows "\<exists>it ob'. outbox_enqueue ob m tick = Some (it, ob') \<and> item_buffer it = msg_data m @ r \<and>
    sint (item_len it) = int (length (msg_data m) + length r)"
proof -
  have words: "msg_len m = of_nat (length (msg_data m))" "remaining_len m = of_nat (length r)"
    using assms(1,3) by (simp_all only: sint_eq_int_imp)
  have total: "msg_len m + remaining_len m = of_nat (length (msg_data m) + length r)"
    by (simp add: words)
  have sizes: "size_of_i32 (msg_len m) = length (msg_data m)" "size_of_i32 (remaining_len m) = length r"
    "size_of_i32 (msg_len m + remaining_len m) = length (msg_data m) + length r"
    using assms(1,3,4) unfolding total by (simp_all add: size_of_i32_nonneg del: of_nat_add)
  have "sint (msg_len m + remaining_len m) = int (length (msg_data m) + length r)"
    unfolding total using assms(4) by (rule sint_of_nat_small)
  then show ?thesis
    by (simp add: outbox_enqueue_def sizes assms(2) Let_def)
qed

section \<open>Properties\<close>


text \<open>
  An enqueued message is copied whole: the new item, at the end of the queue, holds the data
  followed by the remaining data, is queued, and carries the message's identifier, type and QoS.
\<close>

theorem enqueue_copies_whole:
  assumes "sint (msg_len m) = int (length (msg_data m))"
    and "remaining_data m = Some r" and "sint (remaining_len m) = int (length r)"
    and "length (msg_data m) + length r < 2 ^ 31"
  shows "\<exists>it ob'. outbox_enqueue ob m tick = Some (it, ob') \<and> items ob' = items ob @ [it] \<and>
    item_buffer it = msg_data m @ r \<and> sint (item_len it) = int (length (msg_data m) + length r) \<and>
    pending it = QUEUED \<and> item_msg_id it = msg_msg_id m \<and> item_msg_type it = msg_msg_type m \<and>
    item_msg_qos it = msg_msg_qos m \<and> item_tick it = tick"
proof -
  obtain it ob' where "outbox_enqueue ob m tick = Some (it, ob')" "item_buffer it = msg_data m @ r"
    "sint (item_len it) = int (length (msg_data m) + length r)"
    using enqueue_whole [OF assms] by blast
  with enqueue_SomeD [of ob m tick it ob'] show ?thesis by auto
qed

definition sample_message :: outbox_message where
  "sample_message = \<lparr>msg_data = [0x32, 5], msg_len = 2, msg_msg_id = 7, msg_msg_qos = 1,
     msg_msg_type = 3, remaining_data = Some [1, 2, 3], remaining_len = 3\<rparr>"

theorem enqueue_copies_whole_witness:
  "\<exists>it ob'. outbox_enqueue outbox_init sample_message 10 = Some (it, ob') \<and>
    items ob' = items outbox_init @ [it] \<and>
    item_buffer it = msg_data sample_message @ [1, 2, 3] \<and>
    sint (item_len it) = int (length (msg_data sample_message) + length [1, 2, 3 :: u8]) \<and>
    pending it = QUEUED \<and> item_msg_id it = msg_msg_id sample_message \<and>
    item_msg_type it = msg_msg_type sample_message \<and>
    item_msg_qos it = msg_msg_qos sample_message \<and> item_tick it = 10"
  by (rule enqueue_copies_whole) (simp_all add: sample_message_def)

text \<open>
  C13: Messages leave in the order in which they were enqueued.  When the identifiers of the items
  are distinct, taking the first queued item and marking its identifier as transmitted, \<open>n\<close>
  times, yields the first \<open>n\<close> queued items in order and leaves the others queued in order.
\<close>

theorem outbox_serves_in_order:
  assumes "outbox_ids_distinct ob"
  shows "fst (outbox_fifo.serve n ob) = take n (queued_items ob) \<and>
    queued_items (snd (outbox_fifo.serve n ob)) = drop n (queued_items ob)"
  using assms by (simp add: outbox_fifo.serve_order outbox_fifo.serve_rest)

text \<open>Three items, the second of them confirmed.\<close>

definition sample_item :: "nat \<Rightarrow> pending_state \<Rightarrow> i32 \<Rightarrow> outbox_item" where
  "sample_item h st tick = \<lparr>handle = h, item_buffer = [0x30, 0], item_len = 2,
     item_msg_id = of_nat h, item_msg_type = 3, item_msg_qos = 1, item_tick = tick,
     retry_count = 0, pending = st\<rparr>"

definition sample_outbox :: outbox where
  "sample_outbox = \<lparr>items = [sample_item 1 QUEUED 0, sample_item 2 CONFIRMED 100,
     sample_item 3 QUEUED 200], next_handle = 4\<rparr>"

lemma sample_outbox_ok: "outbox_wf sample_outbox" "outbox_ids_distinct sample_outbox"
  by (simp_all add: sample_outbox_def sample_item_def outbox_wf_def outbox_ids_distinct_def
      size_of_i32_def)

theorem outbox_serves_in_order_witness:
  "fst (outbox_fifo.serve 2 sample_outbox) = take 2 (queued_items sample_outbox) \<and>
   queued_items (snd (outbox_fifo.serve 2 sample_outbox)) = drop 2 (queued_items sample_outbox)"
  using sample_outbox_ok(2) by (rule outbox_serves_in_order)

text \<open>
  \<open>outbox_delete\<close> removes the first item with the given identifier and type (compared in the
  low byte) and nothing else, and says whether there was one.
\<close>

theorem delete_removes_first_match:
  fixes mid ty :: i32
  assumes "outbox_wf ob"
  defines "match \<equiv> \<lambda>it. item_msg_id it = mid \<and> 0xFF AND item_msg_type it = ty"
  shows "case outbox_delete ob mid ty of
      (ESP_OK, ob') \<Rightarrow> \<exists>xs it ys. items ob = xs @ it # ys \<and> match it \<and> (\<forall>x \<in> set xs. \<not> match x) \<and>
        items ob' = xs @ ys
    | (ESP_FAIL, ob') \<Rightarrow> ob' = ob \<and> (\<forall>it \<in> set (items ob). \<not> match it)"
proof (cases "find match (items ob)")
  case None
  then have "\<forall>it \<in> set (items ob). \<not> match it" by (auto simp: find_None_iff)
  moreover have "outbox_delete ob mid ty = (ESP_FAIL, ob)"
    using None by (simp add: outbox_delete_def match_def)
  ultimately show ?thesis by simp
next
  case (Some it)
  then obtain xs ys where split: "items ob = xs @ it # ys" "match it" "\<forall>x \<in> set xs. \<not> match x"
    by (rule find_split)
  have "outbox_delete ob mid ty = (ESP_OK, stailq_remove (handle it) ob)"
    using Some by (simp add: outbox_delete_def match_def)
  then show ?thesis
    using split stailq_remove_split [OF assms(1) split(1)] by auto
qed

theorem delete_removes_first_match_witness:
  "case outbox_delete sample_outbox 2 3 of
      (ESP_OK, ob') \<Rightarrow> \<exists>xs it ys. items sample_outbox = xs @ it # ys \<and>
        (item_msg_id it = 2 \<and> 0xFF AND item_msg_type it = 3) \<and>
        (\<forall>x \<in> set xs. \<not> (item_msg_id x = 2 \<and> 0xFF AND item_msg_type x = 3)) \<and> items ob' = xs @ ys
    | (ESP_FAIL, ob') \<Rightarrow> ob' = sample_outbox \<and>
        (\<forall>it \<in> set (items sample_outbox). \<not> (item_msg_id it = 2 \<and> 0xFF AND item_msg_type it = 3))"
  using sample_outbox_ok(1) by (rule delete_removes_first_match)



text \<open>
  C38: \<open>outbox_cleanup\<close> returns, and gives up only confirmed items, oldest first: what is not
  confirmed stays, in order; it reports success exactly when the size is within the limit, and
  failure only when no confirmed item is left.
\<close>

theorem cleanup_drops_confirmed_only:
  assumes "outbox_wf ob" and "outbox_cleanup ob mx = (r, ob')"
  shows "(r = ESP_OK \<longleftrightarrow> sint (outbox_get_size ob') \<le> sint mx) \<and>
    (r = ESP_FAIL \<longrightarrow> (\<forall>it \<in> set (items ob'). pending it \<noteq> CONFIRMED)) \<and>
    filter (\<lambda>it. pending it \<noteq> CONFIRMED) (items ob') = filter (\<lambda>it. pending it \<noteq> CONFIRMED) (items ob) \<and>
    (\<exists>k. filter (\<lambda>it. pending it = CONFIRMED) (items ob') =
      drop k (filter (\<lambda>it. pending it = CONFIRMED) (items ob)))"
  using assms by (rule cleanup_spec)

theorem cleanup_drops_confirmed_only_witness:
  "\<exists>r ob'. outbox_cleanup sample_outbox 4 = (r, ob') \<and>
    (r = ESP_OK \<longleftrightarrow> sint (outbox_get_size ob') \<le> sint (4 :: i32)) \<and>
    filter (\<lambda>it. pending it \<noteq> CONFIRMED) (items ob') =
      filter (\<lambda>it. pending it \<noteq> CONFIRMED) (items sample_outbox)"
  using cleanup_drops_confirmed_only [OF sample_outbox_ok(1), of 4] by (metis surj_pair)

text \<open>
  \<open>outbox_destroy\<close> leaks.  It frees the items through \<open>outbox_cleanup\<close>, which removes
  confirmed items only, and then frees the head: every item that is not confirmed stays allocated
  and unreachable.
\<close>

theorem destroy_leaks_unconfirmed:
  assumes "outbox_wf ob" and "it \<in> set (items ob)" and "pending it \<noteq> CONFIRMED"
  shows "it \<in> set (outbox_destroy ob)"
proof -
  obtain r ob' where run: "outbox_cleanup ob 0 = (r, ob')" by fastforce
  have "it \<in> set (filter (\<lambda>it. pending it \<noteq> CONFIRMED) (items ob))" using assms(2,3) by simp
  then have "it \<in> set (filter (\<lambda>it. pending it \<noteq> CONFIRMED) (items ob'))"
    using cleanup_spec [OF assms(1) run] by simp
  then show ?thesis by (simp add: outbox_destroy_def run)
qed

theorem destroy_leaks_unconfirmed_witness: "sample_item 1 QUEUED 0 \<in> set (outbox_destroy sample_outbox)"
  using sample_outbox_ok(1)
  by (rule destroy_leaks_unconfirmed) (simp_all add: sample_outbox_def sample_item_def)

end
