(* ===== verification/Base64.thy ===== *)
theory Base64
  imports Esp_Prelude
begin

text \<open>
  Base64, \<open>mbedtls/library/mbedbase64.c\<close>: encoding and decoding between byte objects.

  A buffer argument is the list of the bytes of the object it points to, together with the length
  the caller states; \<open>None\<close> for \<open>dst\<close> is \<open>NULL\<close>.  The result of a function is the return code,
  \<open>*olen\<close> and the destination afterwards; \<open>None\<close> is an access outside an object.
\<close>

section \<open>Tables and codes\<close>

definition MBEDTLS_ERR_BASE64_BUFFER_TOO_SMALL :: int where
  "MBEDTLS_ERR_BASE64_BUFFER_TOO_SMALL = - 0x002A"

definition MBEDTLS_ERR_BASE64_INVALID_CHARACTER :: int where
  "MBEDTLS_ERR_BASE64_INVALID_CHARACTER = - 0x002C"

definition base64_enc_map :: "u8 list" where
  "base64_enc_map =
     ascii ''ABCDEFGHIJKLMNOPQRSTUVWXYZabcdefghijklmnopqrstuvwxyz0123456789+/''"

definition base64_dec_map :: "u8 list" where
  "base64_dec_map =
    [127, 127, 127, 127, 127, 127, 127, 127, 127, 127,
     127, 127, 127, 127, 127, 127, 127, 127, 127, 127,
     127, 127, 127, 127, 127, 127, 127, 127, 127, 127,
     127, 127, 127, 127, 127, 127, 127, 127, 127, 127,
     127, 127, 127,  62, 127, 127, 127,  63,  52,  53,
      54,  55,  56,  57,  58,  59,  60,  61, 127, 127,
     127,  64, 127, 127, 127,   0,   1,   2,   3,   4,
       5,   6,   7,   8,   9,  10,  11,  12,  13,  14,
      15,  16,  17,  18,  19,  20,  21,  22,  23,  24,
      25, 127, 127, 127, 127, 127, 127,  26,  27,  28,
      29,  30,  31,  32,  33,  34,  35,  36,  37,  38,
      39,  40,  41,  42,  43,  44,  45,  46,  47,  48,
      49,  50,  51, 127, 127, 127, 127, 127]"

definition BASE64_SIZE_T_MAX :: nat where
  "BASE64_SIZE_T_MAX = 2 ^ 64 - 1"

section \<open>Encoding\<close>

text \<open>\<open>base64_enc_map[v & 0x3F]\<close>\<close>

definition enc_char :: "i32 \<Rightarrow> u8" where
  "enc_char v = base64_enc_map ! unat (v AND 0x3F)"

text \<open>The four characters of a whole group of three octets.\<close>

definition enc_group :: "i32 \<Rightarrow> i32 \<Rightarrow> i32 \<Rightarrow> u8 list" where
  "enc_group C1 C2 C3 =
     [enc_char (drop_bit 2 C1),
      enc_char (push_bit 4 (C1 AND 3) + drop_bit 4 C2),
      enc_char (push_bit 2 (C2 AND 15) + drop_bit 6 C3),
      enc_char C3]"

text \<open>\<open>for( i = 0, p = dst; i < n; i += 3 )\<close>; the result is \<open>i\<close>, the destination and \<open>p - dst\<close>.\<close>

function encode_loop :: "u8 list \<Rightarrow> nat \<Rightarrow> nat \<Rightarrow> u8 list \<Rightarrow> nat \<Rightarrow> (nat \<times> u8 list \<times> nat) option" where
  "encode_loop src i n dst p =
     (if i < n then do {
        C1 \<leftarrow> mem_read src i;
        C2 \<leftarrow> mem_read src (i + 1);
        C3 \<leftarrow> mem_read src (i + 2);
        dst \<leftarrow> mem_write dst p (enc_group (ucast C1) (ucast C2) (ucast C3));
        encode_loop src (i + 3) n dst (p + 4) }
      else Some (i, dst, p))"
  by pat_completeness auto
termination by (relation "measure (\<lambda>(src, i, n, dst, p). n - i)") auto

declare encode_loop.simps [simp del]

text \<open>The last one or two octets.\<close>

definition encode_tail :: "u8 list \<Rightarrow> nat \<Rightarrow> nat \<Rightarrow> u8 list \<Rightarrow> nat \<Rightarrow> (u8 list \<times> nat) option" where
  "encode_tail src i slen dst p =
     (if i < slen then do {
        C1 \<leftarrow> mem_read src i;
        C2 \<leftarrow> (if i + 1 < slen then mem_read src (i + 1) else Some 0);
        dst \<leftarrow> mem_write dst p
          [enc_char (drop_bit 2 (ucast C1)),
           enc_char (push_bit 4 (ucast C1 AND 3) + drop_bit 4 (ucast C2)),
           (if i + 1 < slen then enc_char (push_bit 2 (ucast C2 AND 15)) else 0x3d),
           0x3d];
        Some (dst, p + 4) }
      else Some (dst, p))"

definition mbedtls_base64_encode ::
    "u8 list option \<Rightarrow> nat \<Rightarrow> u8 list \<Rightarrow> nat \<Rightarrow> (int \<times> nat \<times> u8 list option) option" where
  "mbedtls_base64_encode dst dlen src slen =
     (if slen = 0 then Some (0, 0, dst)
      else let n = slen div 3 + (if slen mod 3 \<noteq> 0 then 1 else 0) in
        if (BASE64_SIZE_T_MAX - 1) div 4 < n
        then Some (MBEDTLS_ERR_BASE64_BUFFER_TOO_SMALL, BASE64_SIZE_T_MAX, dst)
        else let n = n * 4 in
        (case dst of
           None \<Rightarrow> Some (MBEDTLS_ERR_BASE64_BUFFER_TOO_SMALL, size_add n 1, dst)
         | Some d \<Rightarrow>
             if dlen < size_add n 1
             then Some (MBEDTLS_ERR_BASE64_BUFFER_TOO_SMALL, size_add n 1, dst)
             else do {
               (i, d, p) \<leftarrow> encode_loop src 0 (slen div 3 * 3) d 0;
               (d, p) \<leftarrow> encode_tail src i slen d p;
               d \<leftarrow> mem_write d p [0];
               Some (0, p, Some d) }))"

section \<open>Decoding\<close>

text \<open>\<open>while( i < slen && src[i] == ' ' )\<close>\<close>

function skip_spaces :: "u8 list \<Rightarrow> nat \<Rightarrow> nat \<Rightarrow> nat \<Rightarrow> (nat \<times> nat) option" where
  "skip_spaces src slen i x =
     (if i < slen then do {
        c \<leftarrow> mem_read src i;
        (if c = 0x20 then skip_spaces src slen (i + 1) (x + 1) else Some (i, x)) }
      else Some (i, x))"
  by pat_completeness auto
termination by (relation "measure (\<lambda>(src, slen, i, x). slen - i)") auto

declare skip_spaces.simps [simp del]

lemma skip_spaces_ge: "skip_spaces src slen i x = Some (i', x') \<Longrightarrow> i \<le> i'"
proof (induction src slen i x rule: skip_spaces.induct)
  case (1 src slen i x)
  show ?case
    using "1.prems" "1.IH"
    by (simp add: skip_spaces.simps [of src slen i x])
      (fastforce simp: bind_eq_Some_conv split: if_splits)
qed

text \<open>
  First pass.  \<open>Inl\<close> is the early return of an error, \<open>Inr\<close> the values of \<open>i\<close>, \<open>n\<close> and \<open>j\<close> after
  the loop.  \<open>j\<close> counts the padding characters; it never exceeds 3.
\<close>

function decode_scan :: "u8 list \<Rightarrow> nat \<Rightarrow> nat \<Rightarrow> nat \<Rightarrow> nat \<Rightarrow> (int + nat \<times> nat \<times> nat) option" where
  "decode_scan src slen i n j =
     (if i < slen then
       (case skip_spaces src slen i 0 of None \<Rightarrow> None | Some (k, x) \<Rightarrow>
          if slen \<le> k then Some (Inr (k, n, j))
          else do {
            c \<leftarrow> mem_read src k;
            crlf \<leftarrow> (if 2 \<le> slen - k \<and> c = 0x0d
                     then do { c' \<leftarrow> mem_read src (k + 1); Some (c' = 0x0a) } else Some False);
            (if crlf then decode_scan src slen (k + 1) n j
             else if c = 0x0a then decode_scan src slen (k + 1) n j
             else if x \<noteq> 0 then Some (Inl MBEDTLS_ERR_BASE64_INVALID_CHARACTER)
             else let j' = (if c = 0x3d then j + 1 else j) in
               if c = 0x3d \<and> 2 < j' then Some (Inl MBEDTLS_ERR_BASE64_INVALID_CHARACTER)
               else if 127 < c \<or> base64_dec_map ! unat c = 127
               then Some (Inl MBEDTLS_ERR_BASE64_INVALID_CHARACTER)
               else if base64_dec_map ! unat c < 64 \<and> j' \<noteq> 0
               then Some (Inl MBEDTLS_ERR_BASE64_INVALID_CHARACTER)
               else decode_scan src slen (k + 1) (n + 1) j') })
      else Some (Inr (i, n, j)))"
  by pat_completeness auto
termination
  by (relation "measure (\<lambda>(src, slen, i, n, j). slen - i)")
    (auto dest!: skip_spaces_ge intro!: diff_less_mono2)

declare decode_scan.simps [simp del]

text \<open>\<open>if( cond ) *p++ = b;\<close>\<close>

definition put_if :: "bool \<Rightarrow> u8 \<Rightarrow> u8 list \<times> nat \<Rightarrow> (u8 list \<times> nat) option" where
  "put_if cond b = (\<lambda>(dst, p).
     if cond then do { dst \<leftarrow> mem_write dst p [b]; Some (dst, p + 1) } else Some (dst, p))"

text \<open>
  Second pass, over the \<open>i\<close> characters that the first pass has read.  The state is \<open>j\<close>, \<open>n\<close>, \<open>x\<close>
  and the destination with the place of \<open>p\<close> in it.
\<close>

fun decode_write :: "u8 list \<Rightarrow> u32 \<Rightarrow> nat \<Rightarrow> u32 \<Rightarrow> u8 list \<times> nat \<Rightarrow> (u8 list \<times> nat) option" where
  "decode_write [] j n x out = Some out"
| "decode_write (c # cs) j n x out =
     (if c = 0x0d \<or> c = 0x0a \<or> c = 0x20 then decode_write cs j n x out
      else do {
        d \<leftarrow> mem_read base64_dec_map (unat c);
        let j = j - (if d = 64 then 1 else 0);
        let x = push_bit 6 x OR (ucast d AND 0x3F);
        (if n + 1 = 4 then do {
           out \<leftarrow> put_if (0 < j) (ucast (drop_bit 16 x)) out;
           out \<leftarrow> put_if (1 < j) (ucast (drop_bit 8 x)) out;
           out \<leftarrow> put_if (2 < j) (ucast x) out;
           decode_write cs j 0 x out }
         else decode_write cs j (n + 1) x out) })"

text \<open>The number of octets that \<open>n\<close> characters, \<open>j\<close> of them padding, can stand for.\<close>

definition decoded_size :: "nat \<Rightarrow> nat \<Rightarrow> nat" where
  "decoded_size n j = size_sub (6 * drop_bit 3 n + drop_bit 3 (6 * (n AND 0x7) + 7)) j"

text \<open>\<open>*olen\<close> keeps its value \<open>olen\<close> when a character is invalid.\<close>

definition mbedtls_base64_decode ::
    "u8 list option \<Rightarrow> nat \<Rightarrow> nat \<Rightarrow> u8 list \<Rightarrow> nat \<Rightarrow> (int \<times> nat \<times> u8 list option) option" where
  "mbedtls_base64_decode dst dlen olen src slen = do {
     r \<leftarrow> decode_scan src slen 0 0 0;
     (case r of
        Inl e \<Rightarrow> Some (e, olen, dst)
      | Inr (i, n, j) \<Rightarrow>
          if n = 0 then Some (0, 0, dst)
          else let n = decoded_size n j in
          (case dst of
             None \<Rightarrow> Some (MBEDTLS_ERR_BASE64_BUFFER_TOO_SMALL, n, dst)
           | Some d \<Rightarrow>
               if dlen < n then Some (MBEDTLS_ERR_BASE64_BUFFER_TOO_SMALL, n, dst)
               else do {
                 cs \<leftarrow> mem_bytes src i;
                 (d, p) \<leftarrow> decode_write cs 3 0 0 (d, 0);
                 Some (0, p, Some d) })) }"

section \<open>The encoding as a specification\<close>

text \<open>
  RFC 4648: three octets are a number of 24 bits, written with four digits of the alphabet; one or
  two octets at the end are padded with zero bits and marked with equal signs.
\<close>

definition digit :: "nat \<Rightarrow> u8" where
  "digit k = base64_enc_map ! (k mod 64)"

definition triple :: "u8 \<Rightarrow> u8 \<Rightarrow> u8 \<Rightarrow> nat" where
  "triple a b c = unat a * 65536 + unat b * 256 + unat c"

fun b64 :: "u8 list \<Rightarrow> u8 list" where
  "b64 [] = []"
| "b64 [a] = [digit (triple a 0 0 div 2 ^ 18), digit (triple a 0 0 div 2 ^ 12), 0x3d, 0x3d]"
| "b64 [a, b] = [digit (triple a b 0 div 2 ^ 18), digit (triple a b 0 div 2 ^ 12),
     digit (triple a b 0 div 2 ^ 6), 0x3d]"
| "b64 (a # b # c # bs) = [digit (triple a b c div 2 ^ 18), digit (triple a b c div 2 ^ 12),
     digit (triple a b c div 2 ^ 6), digit (triple a b c)] @ b64 bs"

lemma length_b64: "length (b64 bs) = 4 * ((length bs + 2) div 3)"
  by (induction bs rule: b64.induct) (auto, presburger)

lemma b64_append:
  "length xs = 3 * k \<Longrightarrow> b64 (xs @ ys) = b64 xs @ b64 ys"
proof (induction k arbitrary: xs)
  case (Suc k)
  then obtain a b c zs where "xs = a # b # c # zs" "length zs = 3 * k"
    by (cases xs; cases "tl xs"; cases "tl (tl xs)") auto
  then show ?case using Suc.IH by simp
qed simp

lemma unat_and_mask: "unat (w AND mask k) = unat w mod 2 ^ k"
  for w :: "'a :: len word"
  by (simp only: take_bit_eq_mask [symmetric] unsigned_take_bit_eq) (simp add: take_bit_eq_mod)

lemma enc_char_digit: "enc_char v = digit (unat v)"
proof -
  have "(0x3F :: i32) = mask 6" by (simp add: mask_eq_exp_minus_1)
  then have "unat (v AND 0x3F) = unat v mod 64" using unat_and_mask [of v 6] by simp
  then show ?thesis by (simp add: enc_char_def digit_def)
qed

lemma div_split: "r < m \<Longrightarrow> (q * m + r) div m = (q :: nat)" "r < m \<Longrightarrow> (q * m + r) mod m = (r :: nat)"
  by simp_all

lemma triple_digits:
  fixes a b c :: nat
  assumes "a < 256" "b < 256" "c < 256"
  shows "(a * 65536 + b * 256 + c) div 262144 = a div 4"
    and "(a * 65536 + b * 256 + c) div 4096 mod 64 = a mod 4 * 16 + b div 16"
    and "(a * 65536 + b * 256 + c) div 64 mod 64 = b mod 16 * 4 + c div 64"
    and "(a * 65536 + b * 256 + c) mod 64 = c mod 64"
    and "a mod 4 * 16 + b div 16 < 64" and "b mod 16 * 4 + c div 64 < 64"
proof -
  define a1 a0 b1 b0 c1 c0 where d: "a1 = a div 4" "a0 = a mod 4" "b1 = b div 16" "b0 = b mod 16"
    "c1 = c div 64" "c0 = c mod 64"
  have e: "a = a1 * 4 + a0" "b = b1 * 16 + b0" "c = c1 * 64 + c0" by (simp_all add: d)
  have l: "a0 < 4" "b0 < 16" "c0 < 64" by (simp_all add: d)
  have l1: "b1 < 16" "c1 < 4" using assms e by linarith+
  have s1: "a * 65536 + b * 256 + c = a1 * 262144 + (a0 * 65536 + b1 * 4096 + b0 * 256 + c1 * 64 + c0)"
    and s2: "a * 65536 + b * 256 + c = (a1 * 64 + (a0 * 16 + b1)) * 4096 + (b0 * 256 + c1 * 64 + c0)"
    and s3: "a * 65536 + b * 256 + c = ((a1 * 64 + a0 * 16 + b1) * 64 + (b0 * 4 + c1)) * 64 + c0"
    unfolding e by (simp_all add: algebra_simps)
  have m: "a0 * 16 + b1 < 64" "b0 * 4 + c1 < 64"
    "a0 * 65536 + b1 * 4096 + b0 * 256 + c1 * 64 + c0 < 262144" "b0 * 256 + c1 * 64 + c0 < 4096"
    using l l1 by linarith+
  show "(a * 65536 + b * 256 + c) div 262144 = a div 4"
    unfolding s1 div_split(1) [OF m(3)] by (simp only: d)
  show "(a * 65536 + b * 256 + c) div 4096 mod 64 = a mod 4 * 16 + b div 16"
    unfolding s2 div_split(1) [OF m(4)] div_split(2) [OF m(1)] by (simp only: d)
  show "(a * 65536 + b * 256 + c) div 64 mod 64 = b mod 16 * 4 + c div 64"
    unfolding s3 div_split(1) [OF l(3)] div_split(2) [OF m(2)] by (simp only: d)
  show "(a * 65536 + b * 256 + c) mod 64 = c mod 64"
    unfolding s3 div_split(2) [OF l(3)] by (simp only: d)
  show "a mod 4 * 16 + b div 16 < 64" "b mod 16 * 4 + c div 64 < 64"
    using m(1,2) by (simp_all only: d)
qed
lemma digit_cong: "k mod 64 = l mod 64 \<Longrightarrow> digit k = digit l"
  by (simp add: digit_def)

lemma unat_ucast_byte: "unat (ucast w :: i32) = unat w" for w :: u8
  by (simp add: unsigned_ucast_eq take_bit_nat_eq_self order.strict_trans [OF u8_less])

lemma unat_drop_bit: "unat (drop_bit k v) = unat v div 2 ^ k" for v :: i32
  using unsigned_less [of v, where ?'a = nat]
  by (simp only: unsigned_drop_bit_eq) (simp add: drop_bit_eq_div take_bit_nat_eq_self)

lemma unat_shift_add:
  fixes x y :: i32
  assumes "unat x * 2 ^ k + unat y < 64"
  shows "unat (push_bit k x + y) = unat x * 2 ^ k + unat y"
proof -
  have small: "unat x * 2 ^ k + unat y < 2 ^ 32" using assms by simp
  have "push_bit k x + y = of_nat (unat x * 2 ^ k + unat y)"
    by (simp add: push_bit_eq_mult)
  then show ?thesis using unat_u32_of_nat [OF small] by (simp only:)
qed

lemma enc_group_b64: "enc_group (ucast a) (ucast b) (ucast c) =
    [digit (triple a b c div 2 ^ 18), digit (triple a b c div 2 ^ 12),
     digit (triple a b c div 2 ^ 6), digit (triple a b c)]"
proof -
  have small: "unat a < 256" "unat b < 256" "unat c < 256" by (rule u8_less)+
  note t = triple_digits [OF small, folded triple_def]
  have masks: "(3 :: i32) = mask 2" "(15 :: i32) = mask 4"
    by (simp_all add: mask_eq_exp_minus_1)
  have u2: "unat (ucast a AND 3 :: i32) = unat a mod 4" "unat (ucast b AND 15 :: i32) = unat b mod 16"
    unfolding masks unat_and_mask unat_ucast_byte by simp_all
  have v2: "unat (drop_bit 4 (ucast b) :: i32) = unat b div 16" "unat (drop_bit 6 (ucast c) :: i32) = unat c div 64"
    unfolding unat_drop_bit unat_ucast_byte by simp_all
  have e1: "enc_char (drop_bit 2 (ucast a)) = digit (triple a b c div 2 ^ 18)"
    unfolding enc_char_digit unat_drop_bit unat_ucast_byte using t(1) by simp
  have p: "(2::nat) ^ 4 = 16" "(2::nat) ^ 2 = 4" "(2::nat) ^ 12 = 4096" "(2::nat) ^ 6 = 64" by simp_all
  have e2: "enc_char (push_bit 4 (ucast a AND 3) + drop_bit 4 (ucast b)) = digit (triple a b c div 2 ^ 12)"
  proof -
    have "unat (ucast a AND 3 :: i32) * 2 ^ 4 + unat (drop_bit 4 (ucast b) :: i32) < 64"
      unfolding u2 v2 p by (rule t(5))
    from unat_shift_add [OF this]
    have u: "unat (push_bit 4 (ucast a AND 3) + drop_bit 4 (ucast b) :: i32) = unat a mod 4 * 16 + unat b div 16"
      unfolding u2 v2 p .
    show ?thesis
      unfolding enc_char_digit u p by (rule digit_cong) (simp only: t(2) mod_less [OF t(5)])
  qed
  have e3: "enc_char (push_bit 2 (ucast b AND 15) + drop_bit 6 (ucast c)) = digit (triple a b c div 2 ^ 6)"
  proof -
    have "unat (ucast b AND 15 :: i32) * 2 ^ 2 + unat (drop_bit 6 (ucast c) :: i32) < 64"
      unfolding u2 v2 p by (rule t(6))
    from unat_shift_add [OF this]
    have u: "unat (push_bit 2 (ucast b AND 15) + drop_bit 6 (ucast c) :: i32) = unat b mod 16 * 4 + unat c div 64"
      unfolding u2 v2 p .
    show ?thesis
      unfolding enc_char_digit u p by (rule digit_cong) (simp only: t(3) mod_less [OF t(6)])
  qed
  have "enc_char (ucast c) = digit (triple a b c)"
    unfolding enc_char_digit unat_ucast_byte by (rule digit_cong) (simp only: t(4))
  then show ?thesis by (simp only: enc_group_def e1 e2 e3)
qed

text \<open>The last one or two octets; \<open>pos\<close> is where they are.\<close>

lemma enc_tail_one: "[enc_char (drop_bit 2 (ucast a)), enc_char (push_bit 4 (ucast a AND 3))] =
    [digit (triple a 0 0 div 2 ^ 18), digit (triple a 0 0 div 2 ^ 12)]"
  using enc_group_b64 [of a 0 0] by (simp add: enc_group_def)

lemma enc_tail_two: "[enc_char (drop_bit 2 (ucast a)),
      enc_char (push_bit 4 (ucast a AND 3) + drop_bit 4 (ucast b)),
      enc_char (push_bit 2 (ucast b AND 15))] =
    [digit (triple a b 0 div 2 ^ 18), digit (triple a b 0 div 2 ^ 12), digit (triple a b 0 div 2 ^ 6)]"
  using enc_group_b64 [of a b 0] by (simp add: enc_group_def)

lemma encode_loop_eq:
  assumes "i + 3 * k \<le> length src" and "p + 4 * k \<le> length dst"
  shows "encode_loop src i (i + 3 * k) dst p =
    Some (i + 3 * k, take p dst @ b64 (take (3 * k) (drop i src)) @ drop (p + 4 * k) dst, p + 4 * k)"
  using assms
proof (induction k arbitrary: i dst p)
  case 0
  then show ?case by (subst encode_loop.simps) simp
next
  case (Suc k)
  let ?a = "src ! i" and ?b = "src ! (i + 1)" and ?c = "src ! (i + 2)"
  let ?g = "enc_group (ucast ?a) (ucast ?b) (ucast ?c)"
  let ?dst = "take p dst @ ?g @ drop (p + 4) dst"
  have read: "mem_read src i = Some ?a" "mem_read src (i + 1) = Some ?b" "mem_read src (i + 2) = Some ?c"
    using Suc.prems(1) by simp_all
  have glen: "length ?g = 4" by (simp add: enc_group_def)
  have "take (3 * Suc k) (drop i src) = ?a # ?b # ?c # take (3 * k) (drop (i + 3) src)"
    using Suc.prems(1)
    by (simp add: Cons_nth_drop_Suc [symmetric] eval_nat_numeral)
  then have b64: "b64 (take (3 * Suc k) (drop i src)) = ?g @ b64 (take (3 * k) (drop (i + 3) src))"
    using enc_group_b64 [of ?a ?b ?c] by simp
  have "encode_loop src i (i + 3 * Suc k) dst p = encode_loop src (i + 3) (i + 3 + 3 * k) ?dst (p + 4)"
    using Suc.prems(2) read glen
    by (subst encode_loop.simps) (simp add: add.assoc)
  also have "\<dots> = Some (i + 3 + 3 * k,
      take (p + 4) ?dst @ b64 (take (3 * k) (drop (i + 3) src)) @ drop (p + 4 + 4 * k) ?dst, p + 4 + 4 * k)"
    using Suc.prems glen by (intro Suc.IH) simp_all
  finally show ?case
    unfolding b64 using Suc.prems(2) glen by (simp add: min_absorb2 ac_simps)
qed

lemma encode_tail_eq:
  assumes "slen = i + length bs" and "take (length bs) (drop i src) = bs" and "length bs < 3"
    and "p + length (b64 bs) \<le> length dst"
  shows "encode_tail src i slen dst p =
    Some (take p dst @ b64 bs @ drop (p + length (b64 bs)) dst, p + length (b64 bs))"
proof -
  consider "bs = []" | a where "bs = [a]" | a b where "bs = [a, b]"
    using assms(3) by (cases bs; cases "tl bs"; cases "tl (tl bs)") auto
  then show ?thesis
  proof cases
    case 1
    then show ?thesis using assms by (simp add: encode_tail_def)
  next
    case 2
    then have "drop i src \<noteq> [] \<and> hd (drop i src) = a" using assms(2) by (cases "drop i src") auto
    then have "i < length src" "src ! i = a" by (auto simp: hd_drop_conv_nth)
    then show ?thesis
      using assms 2 enc_tail_one [of a] by (simp add: encode_tail_def)
  next
    case 3
    then obtain xs where xs: "drop i src = a # b # xs"
      using assms(2) by (cases "drop i src"; cases "tl (drop i src)") auto
    have "length (drop i src) = length (a # b # xs)" by (simp only: xs)
    then have "i + 1 < length src" by simp
    moreover have "src ! i = a" "src ! (i + 1) = b"
      using xs nth_drop [of i src 0] nth_drop [of i src 1] calculation by simp_all
    ultimately show ?thesis
      using assms 3 enc_tail_two [of a b] by (simp add: encode_tail_def)
  qed
qed

lemma encode_eq:
  assumes "slen \<noteq> 0" and "slen \<le> length src" and "slen < 2 ^ 63"
    and "length (b64 (take slen src)) + 1 \<le> dlen" and "dlen \<le> length d"
  shows "mbedtls_base64_encode (Some d) dlen src slen =
    Some (0, length (b64 (take slen src)),
      Some (b64 (take slen src) @ [0] @ drop (length (b64 (take slen src)) + 1) d))"
proof -
  define k where "k = slen div 3"
  define n where "n = k + (if slen mod 3 \<noteq> 0 then 1 else 0)"
  let ?bs = "drop (3 * k) (take slen src)"
  have arith: "3 * k \<le> slen" "slen < 3 * k + 3" "(slen + 2) div 3 = n" "3 * n \<le> slen + 2"
    unfolding k_def n_def by presburger+
  have split: "take slen src = take (3 * k) src @ ?bs"
    using append_take_drop_id [of "3 * k" "take slen src"] arith(1) by (simp add: min_absorb1)
  have lens: "length (take (3 * k) src) = 3 * k" "slen = 3 * k + length ?bs" "length ?bs < 3"
    using assms(2) arith by auto
  have b64: "b64 (take slen src) = b64 (take (3 * k) src) @ b64 ?bs"
    using b64_append [OF lens(1), of ?bs] split by simp
  have l1: "length (b64 (take (3 * k) src)) = 4 * k"
    using lens(1) by (simp add: length_b64)
  have size: "length (b64 (take slen src)) = n * 4"
    unfolding length_b64 using assms(2) arith(3) by (simp add: min_absorb2)
  have room: "4 * k + length (b64 ?bs) + 1 \<le> length d"
    using assms(4,5) b64 l1 by simp
  have loop: "encode_loop src 0 (k * 3) d 0 =
      Some (3 * k, b64 (take (3 * k) src) @ drop (4 * k) d, 4 * k)"
    using encode_loop_eq [of 0 k src 0 d] assms(2) arith(1) room by (simp add: mult.commute)
  let ?d = "b64 (take (3 * k) src) @ drop (4 * k) d"
  have "take (length ?bs) (drop (3 * k) src) = ?bs"
    using assms(2) by (simp add: drop_take min_absorb2)
  then have tail: "encode_tail src (3 * k) slen ?d (4 * k) =
      Some (b64 (take slen src) @ drop (4 * k + length (b64 ?bs)) d, length (b64 (take slen src)))"
    using encode_tail_eq [of slen "3 * k" ?bs src "4 * k" ?d] lens(2,3) room l1
    by (simp add: b64 add.commute [of _ "4 * k"])
  have small: "n * 4 + 1 < 2 ^ 64" using arith(4) assms(2,4) size assms(3) by simp
  then have "\<not> (BASE64_SIZE_T_MAX - 1) div 4 < n" by (simp add: BASE64_SIZE_T_MAX_def)
  moreover have "size_add (n * 4) 1 = length (b64 (take slen src)) + 1"
    using small size by simp
  moreover have "mem_write (b64 (take slen src) @ drop (4 * k + length (b64 ?bs)) d)
      (length (b64 (take slen src))) [0] =
      Some (b64 (take slen src) @ [0] @ drop (length (b64 (take slen src)) + 1) d)"
    using room l1 by (simp add: b64)
  ultimately show ?thesis
    using assms(1,4) loop tail
    unfolding mbedtls_base64_encode_def Let_def k_def [symmetric] n_def [symmetric]
    by simp
qed

section \<open>What the decoder accepts and produces\<close>

definition blank :: "u8 \<Rightarrow> bool" where
  "blank c \<longleftrightarrow> c = 0x0d \<or> c = 0x0a \<or> c = 0x20"

definition code :: "u8 \<Rightarrow> u8" where
  "code c = base64_dec_map ! unat c"

definition strip :: "u8 list \<Rightarrow> u8 list" where
  "strip cs = filter (\<lambda>c. \<not> blank c) cs"

lemma strip_simps [simp]:
  "strip [] = []" "strip (c # cs) = (if blank c then strip cs else c # strip cs)"
  by (simp_all add: strip_def)

lemma length_dec_map [simp]: "length base64_dec_map = 128"
  by (simp add: base64_dec_map_def)

text \<open>The table at a glance: data characters, the pad, and the rest.\<close>

lemma dec_map_entries:
  "list_all (\<lambda>k. base64_dec_map ! k = 127 \<or> base64_dec_map ! k < 64 \<or> k = 61) [0..<128]"
  by code_simp

lemma dec_map_cases:
  "unat c < 128 \<Longrightarrow> code c = 127 \<or> code c < 64 \<or> c = 0x3d"
proof -
  assume "unat c < 128"
  then have "code c = 127 \<or> code c < 64 \<or> unat c = 61"
    using dec_map_entries by (auto simp: list_all_iff code_def)
  then show ?thesis by (simp add: word_unat_eq_iff)
qed

lemma code_pad: "code 0x3d = 64"
  by (simp add: code_def base64_dec_map_def)

lemma code_blank: "blank c \<Longrightarrow> code c = 127"
  by (auto simp: blank_def code_def base64_dec_map_def)

lemma skip_spaces_spec:
  assumes "slen \<le> length src" and "i \<le> slen"
  shows "\<exists>k. skip_spaces src slen i x = Some (k, x + (k - i)) \<and> i \<le> k \<and> k \<le> slen \<and>
    (k < slen \<longrightarrow> src ! k \<noteq> 0x20) \<and>
    strip (drop i (take slen src)) = strip (drop k (take slen src))"
  using assms
proof (induction src slen i x rule: skip_spaces.induct)
  case (1 src slen i x)
  show ?case
  proof (cases "i < slen \<and> src ! i = 0x20")
    case True
    then have read: "mem_read src i = Some 0x20" using "1.prems" by simp
    then have step: "skip_spaces src slen i x = skip_spaces src slen (i + 1) (x + 1)"
      using True by (subst skip_spaces.simps) simp
    obtain k where k: "skip_spaces src slen (i + 1) (x + 1) = Some (k, x + 1 + (k - (i + 1)))"
      "i + 1 \<le> k" "k \<le> slen" "k < slen \<longrightarrow> src ! k \<noteq> 0x20"
      "strip (drop (i + 1) (take slen src)) = strip (drop k (take slen src))"
      using "1.IH" [OF _ read] True "1.prems" by auto
    have "drop i (take slen src) = 0x20 # drop (i + 1) (take slen src)"
      using True "1.prems" by (simp add: Cons_nth_drop_Suc [symmetric])
    then have "strip (drop i (take slen src)) = strip (drop k (take slen src))"
      using k(5) by (simp add: blank_def)
    moreover have "x + 1 + (k - (i + 1)) = x + (k - i)" using k(2) by simp
    ultimately show ?thesis using step k by (intro exI [of _ k]) simp
  next
    case False
    then have "skip_spaces src slen i x = Some (i, x)"
      using "1.prems" by (subst skip_spaces.simps) auto
    then show ?thesis using False "1.prems" by (intro exI [of _ i]) auto
  qed
qed

text \<open>
  \<open>padded data j cs\<close>: the characters are \<open>data\<close>, all of the alphabet, followed by \<open>j\<close> pads.
\<close>

definition padded :: "u8 list \<Rightarrow> nat \<Rightarrow> u8 list \<Rightarrow> bool" where
  "padded data j cs \<longleftrightarrow> cs = data @ replicate j 0x3d \<and> (\<forall>c \<in> set data. unat c < 128 \<and> code c < 64)"

text \<open>What an outcome of the first pass, from position \<open>i\<close> with \<open>n\<close> and \<open>j\<close> so far, says.\<close>

definition scan_outcome :: "u8 list \<Rightarrow> nat \<Rightarrow> nat \<Rightarrow> nat \<Rightarrow> nat \<Rightarrow> (int + nat \<times> nat \<times> nat) \<Rightarrow> bool" where
  "scan_outcome src slen i n j r \<longleftrightarrow>
     (case r of Inl e \<Rightarrow> e = MBEDTLS_ERR_BASE64_INVALID_CHARACTER
      | Inr (i', n', j') \<Rightarrow> i' = slen \<and> j \<le> j' \<and> j' \<le> 2 \<and>
          (\<exists>data. padded data (j' - j) (strip (drop i (take slen src))) \<and> (j \<noteq> 0 \<longrightarrow> data = []) \<and>
             n' = n + length data + (j' - j)))"

lemma scan_outcome_skip:
  "strip (drop i (take slen src)) = strip (drop k (take slen src)) \<Longrightarrow>
     scan_outcome src slen k n j r \<Longrightarrow> scan_outcome src slen i n j r"
  by (simp only: scan_outcome_def)

lemma scan_outcome_data:
  assumes "strip (drop i (take slen src)) = c # strip (drop k (take slen src))"
    and "unat c < 128" "code c < 64" "scan_outcome src slen k (n + 1) 0 r"
  shows "scan_outcome src slen i n 0 r"
proof (cases r)
  case (Inr t)
  obtain i' n' j' data where t: "t = (i', n', j')" "i' = slen" "j' \<le> 2"
    "padded data j' (strip (drop k (take slen src)))" "n' = n + 1 + length data + j'"
    using assms(4) Inr by (auto simp: scan_outcome_def)
  then have "padded (c # data) j' (strip (drop i (take slen src)))"
    using assms(1-3) by (simp add: padded_def)
  then show ?thesis using t Inr by (auto simp: scan_outcome_def intro!: exI [of _ "c # data"])
qed (use assms(4) in \<open>simp add: scan_outcome_def\<close>)

lemma scan_outcome_pad:
  assumes "strip (drop i (take slen src)) = 0x3d # strip (drop k (take slen src))"
    and "scan_outcome src slen k (n + 1) (j + 1) r"
  shows "scan_outcome src slen i n j r"
proof (cases r)
  case (Inr t)
  obtain i' n' j' where t: "t = (i', n', j')" "i' = slen" "j + 1 \<le> j'" "j' \<le> 2"
    "strip (drop k (take slen src)) = replicate (j' - (j + 1)) 0x3d" "n' = n + 1 + (j' - (j + 1))"
    using assms(2) Inr by (auto simp: scan_outcome_def padded_def)
  moreover have "j' - j = Suc (j' - (j + 1))" using t(3) by simp
  ultimately have "strip (drop i (take slen src)) = replicate (j' - j) 0x3d"
    using assms(1) by simp
  then show ?thesis using t Inr by (auto simp: scan_outcome_def padded_def intro!: exI [of _ "[]"])
qed (use assms(2) in \<open>simp add: scan_outcome_def\<close>)

lemma decode_scan_spec:
  assumes "slen \<le> length src" and "i \<le> slen" and "j \<le> 2"
  shows "\<exists>r. decode_scan src slen i n j = Some r \<and> scan_outcome src slen i n j r"
  using assms(2,3)
proof (induction "slen - i" arbitrary: i n j rule: less_induct)
  case less
  show ?case
  proof (cases "i < slen")
    case False
    then have "decode_scan src slen i n j = Some (Inr (i, n, j))"
      by (subst decode_scan.simps) simp
    then show ?thesis using False less.prems by (auto simp: scan_outcome_def padded_def)
  next
    case i: True
    obtain k where k: "skip_spaces src slen i 0 = Some (k, k - i)" "i \<le> k" "k \<le> slen"
      "k < slen \<longrightarrow> src ! k \<noteq> 0x20" "strip (drop i (take slen src)) = strip (drop k (take slen src))"
      using skip_spaces_spec [OF assms(1) less.prems(1), of 0] by auto
    show ?thesis
    proof (cases "k < slen")
      case False
      then have "decode_scan src slen i n j = Some (Inr (k, n, j))"
        using i k(1) by (subst decode_scan.simps) simp
      then show ?thesis
        using False k(3,5) less.prems(2) by (auto simp: scan_outcome_def padded_def)
    next
      case kl: True
      define c where "c = src ! k"
      have read: "mem_read src k = Some c" and split: "drop k (take slen src) = c # drop (k + 1) (take slen src)"
        using kl assms(1) by (simp_all add: c_def Cons_nth_drop_Suc [symmetric])
      obtain crlf where crlf: "(if 2 \<le> slen - k \<and> c = 0x0d
          then do { c' \<leftarrow> mem_read src (k + 1); Some (c' = 0x0a) } else Some False) = Some crlf"
        "crlf \<longrightarrow> c = 0x0d"
        using assms(1) by (cases "2 \<le> slen - k \<and> c = 0x0d") auto
      have go: "\<exists>r. decode_scan src slen (k + 1) n' j' = Some r \<and> scan_outcome src slen (k + 1) n' j' r"
        if "j' \<le> 2" for n' j'
        using less.hyps [of "k + 1" j' n'] kl k(2) i that by simp
      note step = decode_scan.simps [of src slen i n j]
      consider "blank c" | "\<not> blank c" "c = 0x3d" | "\<not> blank c" "c \<noteq> 0x3d" by blast
      then show ?thesis
      proof cases
        case 1
        then have nospace: "c = 0x0d \<or> c = 0x0a" using k(4) kl by (auto simp: blank_def c_def)
        have skip: "strip (drop i (take slen src)) = strip (drop (k + 1) (take slen src))"
          using k(5) 1 by (simp add: split)
        show ?thesis
        proof (cases "crlf \<or> c = 0x0a")
          case True
          then have "decode_scan src slen i n j = decode_scan src slen (k + 1) n j"
            using i kl k(1) read crlf(1) by (subst step) auto
          then show ?thesis using go [OF less.prems(2)] scan_outcome_skip [OF skip] by metis
        next
          case False
          then have "decode_scan src slen i n j = Some (Inl MBEDTLS_ERR_BASE64_INVALID_CHARACTER)"
            using i kl k(1) read crlf(1) nospace code_blank [OF 1]
            by (subst step) (auto simp: code_def)
          then show ?thesis by (simp add: scan_outcome_def)
        qed
      next
        case 2
        have nocrlf: "\<not> crlf" "c \<noteq> 0x0a" using 2 crlf(2) by auto
        show ?thesis
        proof (cases "k - i = 0 \<and> j + 1 \<le> 2")
          case True
          then have "decode_scan src slen i n j = decode_scan src slen (k + 1) (n + 1) (j + 1)"
            using i kl k(1) read crlf(1) nocrlf 2(2) code_pad
            by (subst step) (simp add: code_def)
          moreover have "strip (drop i (take slen src)) = 0x3d # strip (drop (k + 1) (take slen src))"
            using k(5) 2 by (simp add: split)
          ultimately show ?thesis using go [of "j + 1" "n + 1"] True scan_outcome_pad by fastforce
        next
          case False
          then have "decode_scan src slen i n j = Some (Inl MBEDTLS_ERR_BASE64_INVALID_CHARACTER)"
            using i kl k(1) read crlf(1) nocrlf 2(2) by (subst step) auto
          then show ?thesis by (simp add: scan_outcome_def)
        qed
      next
        case 3
        have nocrlf: "\<not> crlf" "c \<noteq> 0x0a" using 3 crlf(2) by (auto simp: blank_def)
        show ?thesis
        proof (cases "k - i = 0 \<and> unat c < 128 \<and> code c < 64 \<and> j = 0")
          case True
          then have "decode_scan src slen i n j = decode_scan src slen (k + 1) (n + 1) j"
            using i kl k(1) read crlf(1) nocrlf 3(2)
            by (subst step) (auto simp: code_def word_less_nat_alt)
          moreover have "strip (drop i (take slen src)) = c # strip (drop (k + 1) (take slen src))"
            using k(5) 3 by (simp add: split)
          ultimately show ?thesis using go [of 0 "n + 1"] True scan_outcome_data by fastforce
        next
          case False
          have "unat c < 128 \<Longrightarrow> code c = 127 \<or> code c < 64" using dec_map_cases [of c] 3(2) by blast
          then have "decode_scan src slen i n j = Some (Inl MBEDTLS_ERR_BASE64_INVALID_CHARACTER)"
            using i kl k(1) read crlf(1) nocrlf 3(2) False
            by (subst step) (auto simp: code_def word_less_nat_alt)
          then show ?thesis by (simp add: scan_outcome_def)
        qed
      qed
    qed
  qed
qed

text \<open>
  The octets of the second pass as a specification: each complete group of four characters gives
  three octets, less one for every pad so far.
\<close>

definition sextet :: "u8 \<Rightarrow> u32" where
  "sextet c = ucast (code c) AND 0x3F"

definition group_bytes :: "u8 \<Rightarrow> u8 \<Rightarrow> u8 \<Rightarrow> u8 \<Rightarrow> u8 list" where
  "group_bytes a b c d =
     (let x = push_bit 18 (sextet a) OR push_bit 12 (sextet b) OR push_bit 6 (sextet c) OR sextet d
      in [ucast (drop_bit 16 x), ucast (drop_bit 8 x), ucast x])"

definition pad :: "u8 \<Rightarrow> nat" where
  "pad c = (if c = 0x3d then 1 else 0)"

fun emit :: "nat \<Rightarrow> u8 list \<Rightarrow> u8 list" where
  "emit j (a # b # c # d # cs) =
     (let j' = j - (pad a + pad b + pad c + pad d) in take j' (group_bytes a b c d) @ emit j' cs)"
| "emit j cs = []"

lemma decode_write_strip: "decode_write cs j n x out = decode_write (strip cs) j n x out"
proof (induction cs arbitrary: j n x out)
  case (Cons c cs)
  have "decode_write cs j n x = decode_write (strip cs) j n x" for j n x
    using Cons.IH by (intro ext)
  then show ?case by (simp add: blank_def Let_def cong: if_cong)
qed simp

lemma group_shift:
  fixes x va vb vc vd :: u32
  defines "y \<equiv> push_bit 6 (push_bit 6 (push_bit 6 (push_bit 6 x OR va) OR vb) OR vc) OR vd"
    and "z \<equiv> push_bit 18 va OR push_bit 12 vb OR push_bit 6 vc OR vd"
  shows "(ucast (drop_bit 16 y) :: u8) = ucast (drop_bit 16 z)"
    and "(ucast (drop_bit 8 y) :: u8) = ucast (drop_bit 8 z)"
    and "(ucast y :: u8) = ucast z"
  unfolding y_def z_def by (rule bit_word_eqI; auto simp: bit_simps)+

lemma put_three:
  assumes "j \<le> 3" "p + j \<le> length dst"
  shows "put_if (0 < (of_nat j :: u32)) b1 (dst, p) \<bind> (\<lambda>out. put_if (1 < (of_nat j :: u32)) b2 out \<bind>
      (\<lambda>out. put_if (2 < (of_nat j :: u32)) b3 out \<bind> f)) =
    f (take p dst @ take j [b1, b2, b3] @ drop (p + j) dst, p + j)"
proof -
  consider "j = 0" | "j = 1" | "j = 2" | "j = 3" using assms(1) by linarith
  then show ?thesis
    by cases (use assms(2) in \<open>simp_all add: put_if_def min_def numeral_3_eq_3\<close>)
qed

lemma of_nat_pad: "pad c \<le> j \<Longrightarrow> (of_nat j :: u32) - (if c = 0x3d then 1 else 0) = of_nat (j - pad c)"
  by (simp add: pad_def)

definition plain :: "u8 \<Rightarrow> bool" where
  "plain c \<longleftrightarrow> unat c < 128 \<and> \<not> blank c \<and> (code c = 64 \<longleftrightarrow> c = 0x3d)"

lemma decode_write_plain:
  assumes "plain c" "pad c \<le> j"
  shows "decode_write (c # cs) (of_nat j) n x out =
    (if n + 1 = 4 then
       put_if (0 < (of_nat (j - pad c) :: u32)) (ucast (drop_bit 16 (push_bit 6 x OR sextet c))) out \<bind>
       (\<lambda>out. put_if (1 < (of_nat (j - pad c) :: u32)) (ucast (drop_bit 8 (push_bit 6 x OR sextet c))) out \<bind>
       (\<lambda>out. put_if (2 < (of_nat (j - pad c) :: u32)) (ucast (push_bit 6 x OR sextet c)) out \<bind>
       (\<lambda>out. decode_write cs (of_nat (j - pad c)) 0 (push_bit 6 x OR sextet c) out)))
     else decode_write cs (of_nat (j - pad c)) (n + 1) (push_bit 6 x OR sextet c) out)"
proof -
  have "mem_read base64_dec_map (unat c) = Some (code c)"
    using assms(1) by (simp add: plain_def code_def)
  moreover have "(of_nat j :: u32) - (if code c = 64 then 1 else 0) = of_nat (j - pad c)"
    using assms of_nat_pad [of c j] by (simp add: plain_def)
  ultimately show ?thesis
    using assms(1) by (simp add: plain_def blank_def sextet_def Let_def)
qed

lemma decode_write_short:
  "\<forall>c \<in> set cs. plain c \<Longrightarrow> n + length cs < 4 \<Longrightarrow> decode_write cs j n x out = Some out"
  by (induction cs arbitrary: j n x) (auto simp: plain_def Let_def)

lemma decode_write_emit:
  assumes "\<forall>c \<in> set cs. plain c" and "(\<Sum>c\<leftarrow>cs. pad c) \<le> j" and "j \<le> 3"
    and "p + length (emit j cs) \<le> length dst"
  shows "decode_write cs (of_nat j) 0 x (dst, p) =
    Some (take p dst @ emit j cs @ drop (p + length (emit j cs)) dst, p + length (emit j cs))"
  using assms
proof (induction j cs arbitrary: p dst x rule: emit.induct)
  case (1 j a b c d cs)
  let ?j = "j - (pad a + pad b + pad c + pad d)"
  have plain: "plain a" "plain b" "plain c" "plain d" using "1.prems"(1) by simp_all
  have pads: "pad a \<le> j" "pad b \<le> j - pad a" "pad c \<le> j - pad a - pad b" "pad d \<le> j - pad a - pad b - pad c"
    using "1.prems"(2) by simp_all
  have j: "j - pad a - pad b - pad c - pad d = ?j" by simp
  define y where "y = push_bit 6 (push_bit 6 (push_bit 6 (push_bit 6 x OR sextet a) OR sextet b) OR sextet c) OR sextet d"
  have bytes: "[ucast (drop_bit 16 y), ucast (drop_bit 8 y), ucast y] = group_bytes a b c d"
    unfolding y_def group_bytes_def Let_def by (simp only: group_shift)
  have len: "length (take ?j (group_bytes a b c d)) = ?j"
    using "1.prems"(3) by (simp add: group_bytes_def)
  have room: "p + ?j + length (emit ?j cs) \<le> length dst"
    using "1.prems"(4) len by (simp add: Let_def)
  let ?dst = "take p dst @ take ?j (group_bytes a b c d) @ drop (p + ?j) dst"
  have "decode_write (a # b # c # d # cs) (of_nat j) 0 x (dst, p) =
      decode_write cs (of_nat ?j) 0 y (?dst, p + ?j)"
  proof -
    have n: "0 + 1 \<noteq> (4 :: nat)" "0 + 1 + 1 \<noteq> (4 :: nat)" "0 + 1 + 1 + 1 \<noteq> (4 :: nat)"
      "0 + 1 + 1 + 1 + 1 = (4 :: nat)" by simp_all
    have jp: "?j \<le> 3" "p + ?j \<le> length dst" using "1.prems"(3) room by simp_all
    show ?thesis
      by (simp only: decode_write_plain [OF plain(1) pads(1)] decode_write_plain [OF plain(2) pads(2)]
          decode_write_plain [OF plain(3) pads(3)] decode_write_plain [OF plain(4) pads(4)]
          n if_True if_False simp_thms j y_def [symmetric] put_three [OF jp] bytes)
  qed
  also have "\<dots> = Some (take (p + ?j) ?dst @ emit ?j cs @ drop (p + ?j + length (emit ?j cs)) ?dst,
      p + ?j + length (emit ?j cs))"
    using "1.prems" room len by (intro "1.IH") simp_all
  finally show ?case
    using room len by (simp add: Let_def min_absorb2 ac_simps del: decode_write.simps)
qed (auto simp: decode_write_short simp del: decode_write.simps)

lemma plain_data: "unat c < 128 \<Longrightarrow> code c < 64 \<Longrightarrow> plain c \<and> pad c = 0"
  using code_pad code_blank [of c] by (auto simp: plain_def pad_def)

lemma plain_pad: "plain 0x3d" "pad 0x3d = 1"
  using code_pad by (auto simp: plain_def blank_def pad_def)

lemma padded_plain:
  assumes "padded data j cs"
  shows "\<forall>c \<in> set cs. plain c" "(\<Sum>c\<leftarrow>cs. pad c) = j" "length cs = length data + j"
proof -
  have "(\<Sum>c\<leftarrow>data. pad c) = 0"
    using assms plain_data by (fastforce simp: padded_def)
  moreover have "(\<Sum>c\<leftarrow>replicate j 0x3d. pad c) = j"
    by (induction j) (simp_all add: plain_pad)
  ultimately show "\<forall>c \<in> set cs. plain c" "(\<Sum>c\<leftarrow>cs. pad c) = j" "length cs = length data + j"
    using assms plain_data plain_pad by (auto simp: padded_def)
qed

lemma four_induct:
  assumes short: "\<And>cs. length cs < 4 \<Longrightarrow> P cs" and step: "\<And>a b c d cs. P cs \<Longrightarrow> P (a # b # c # d # cs)"
  shows "P (cs :: 'a list)"
proof (induction cs rule: length_induct)
  case (1 cs)
  show ?case
  proof (cases "length cs < 4")
    case False
    then obtain a b c d ds where "cs = a # b # c # d # ds"
      by (cases cs; cases "tl cs"; cases "tl (tl cs)"; cases "tl (tl (tl cs))") auto
    then show ?thesis using 1 step by simp
  qed (rule short)
qed

lemma emit_short [simp]: "length cs < 4 \<Longrightarrow> emit j cs = []"
  by (induction j cs rule: emit.induct) auto

lemma length_emit_one: "length cs < 4 \<Longrightarrow>
    length (emit j (a # b # c # d # cs)) \<le> j - (pad a + pad b + pad c + pad d)"
  by (simp add: Let_def)

lemma emit_length:
  assumes "padded data j cs" "j \<le> 2"
  shows "length (emit 3 cs) + j \<le> (6 * length cs + 7) div 8"
  using assms(1)
proof (induction data arbitrary: cs rule: four_induct)
  case (1 data)
  have pads: "\<forall>c \<in> set data. pad c = 0" using 1(2) plain_data by (auto simp: padded_def)
  have cs: "cs = data @ replicate j 0x3d" using 1(2) by (simp add: padded_def)
  consider "length data + j < 4" | a b where "data = [a, b]" "j = 2"
    | a b c where "data = [a, b, c]" "j = 1" | a b c where "data = [a, b, c]" "j = 2"
    using 1(1) assms(2)
    by (cases data; cases "tl data"; cases "tl (tl data)"; cases "tl (tl (tl data))"; cases "j = 2"; cases "j = 1") auto
  then show ?case
  proof cases
    case 1
    have "j \<le> (6 * (length data + j) + 7) div 8"
      using assms(2) by (simp add: less_eq_div_iff_mult_less_eq)
    then show ?thesis using 1 by (simp add: cs)
  next
    case (2 a b)
    then show ?thesis
      using length_emit_one [where cs = "[]" and j = 3 and a = a and b = b and c = "0x3d" and d = "0x3d"] pads by (simp add: cs numeral_2_eq_2 plain_pad)
  next
    case (3 a b c)
    then show ?thesis
      using length_emit_one [where cs = "[]" and j = 3 and a = a and b = b and c = c and d = "0x3d"] pads by (simp add: cs plain_pad)
  next
    case (4 a b c)
    then show ?thesis
      using length_emit_one [where cs = "[0x3d]" and j = 3 and a = a and b = b and c = c and d = "0x3d"] pads by (simp add: cs numeral_2_eq_2 plain_pad)
  qed
next
  case (2 a b c d data)
  have "padded data j (data @ replicate j 0x3d)" using 2(2) by (simp add: padded_def)
  from 2(1) [OF this] have IH: "length (emit 3 (data @ replicate j 0x3d)) + j \<le>
      (6 * length (data @ replicate j (0x3d :: u8)) + 7) div 8" .
  have "pad a = 0" "pad b = 0" "pad c = 0" "pad d = 0" and cs: "cs = a # b # c # d # data @ replicate j 0x3d"
    using 2(2) plain_data by (auto simp: padded_def)
  then have "length (emit 3 cs) = 3 + length (emit 3 (data @ replicate j 0x3d))"
    by (simp add: Let_def group_bytes_def)
  with IH show ?case by (simp add: cs)
qed

lemma decoded_size_eq:
  assumes "n < 2 ^ 60" "j \<le> (6 * n + 7) div 8"
  shows "decoded_size n j = (6 * n + 7) div 8 - j"
proof -
  have "n AND 7 = n mod 8" using take_bit_eq_mask [of 3 n] by (simp add: mask_eq_exp_minus_1 take_bit_eq_mod)
  moreover have "6 * (q * 8 + r) + 7 = 6 * q * 8 + (6 * r + 7)" for q r :: nat by simp
  then have "6 * n + 7 = 6 * (n div 8) * 8 + (6 * (n mod 8) + 7)" by (metis div_mult_mod_eq)
  then have "(6 * n + 7) div 8 = 6 * (n div 8) + (6 * (n mod 8) + 7) div 8"
    using div_mult_self3 [of 8 "6 * (n div 8)" "6 * (n mod 8) + 7"] by (simp only: add.assoc)
  ultimately have "6 * drop_bit 3 n + drop_bit 3 (6 * (n AND 7) + 7) = (6 * n + 7) div 8"
    by (simp add: drop_bit_eq_div)
  moreover have "(6 * n + 7) div 8 < 2 ^ 64" using assms(1) by simp
  ultimately show ?thesis using assms(2) unfolding decoded_size_def by (simp only: size_sub_small)
qed

text \<open>The decoder as a whole, on a valid source.\<close>

lemma decode_eq:
  assumes "slen \<le> length src" "slen < 2 ^ 60" "dlen \<le> length d"
    and "decode_scan src slen 0 0 0 = Some (Inr (i, n, j))"
  defines "out \<equiv> emit 3 (strip (take slen src))" and "need \<equiv> (6 * n + 7) div 8 - j"
  shows "mbedtls_base64_decode (Some d) dlen olen src slen =
    (if n = 0 then Some (0, 0, Some d)
     else if dlen < need then Some (MBEDTLS_ERR_BASE64_BUFFER_TOO_SMALL, need, Some d)
     else Some (0, length out, Some (out @ drop (length out) d)))"
    and "length out \<le> need" and "n = length (strip (take slen src))"
proof -
  obtain data where o: "i = slen" "j \<le> 2" "padded data j (strip (take slen src))" "n = length data + j"
    using decode_scan_spec [OF assms(1), of 0 0 0] assms(4) by (auto simp: scan_outcome_def)
  note p = padded_plain [OF o(3)]
  show n: "n = length (strip (take slen src))" using o(4) p(3) by simp
  have "length (strip (take slen src)) \<le> slen"
    unfolding strip_def by (rule order_trans [OF length_filter_le]) simp
  then have small: "n < 2 ^ 60" using n assms(2) by simp
  have len: "length out + j \<le> (6 * n + 7) div 8"
    unfolding out_def n by (rule emit_length [OF o(3,2)])
  then show "length out \<le> need" by (simp add: need_def)
  have need: "decoded_size n j = need"
    unfolding need_def using small len by (intro decoded_size_eq) simp_all
  have "decode_write (take slen src) 3 0 0 (d, 0) = Some (out @ drop (length out) d, length out)"
    if "length out \<le> length d"
    using decode_write_emit [OF p(1), of 3 0 d 0] o(2) p(2) that
    by (subst decode_write_strip) (simp add: out_def)
  then show "mbedtls_base64_decode (Some d) dlen olen src slen =
    (if n = 0 then Some (0, 0, Some d)
     else if dlen < need then Some (MBEDTLS_ERR_BASE64_BUFFER_TOO_SMALL, need, Some d)
     else Some (0, length out, Some (out @ drop (length out) d)))"
    using assms(1,3,4) o(1) need \<open>length out \<le> need\<close>
    by (simp add: mbedtls_base64_decode_def mem_bytes_def Let_def)
qed

section \<open>Decoding what was encoded\<close>

lemma decode_scan_accepts:
  assumes "slen \<le> length src" and "drop i (take slen src) = data @ replicate p 0x3d" and "i \<le> slen"
    and "\<forall>c \<in> set data. unat c < 128 \<and> code c < 64" and "j + p \<le> 2" and "j \<noteq> 0 \<longrightarrow> data = []"
  shows "decode_scan src slen i n j = Some (Inr (slen, n + length data + p, j + p))"
  using assms(2-)
proof (induction "slen - i" arbitrary: i n j data p rule: less_induct)
  case less
  show ?case
  proof (cases "i < slen")
    case False
    then have "data = []" "p = 0" "i = slen" using less.prems(1,2) by auto
    then show ?thesis by (subst decode_scan.simps) simp
  next
    case True
    define c where "c = src ! i"
    have split: "drop i (take slen src) = c # drop (i + 1) (take slen src)" and read: "mem_read src i = Some c"
      using True assms(1) by (simp_all add: c_def Cons_nth_drop_Suc [symmetric])
    have one: "unat c < 128 \<and> code c < 64 \<or> c = 0x3d"
      using less.prems(1,3) split by (cases data; cases p) auto
    then have nb: "c \<noteq> 0x20" "c \<noteq> 0x0d" "c \<noteq> 0x0a"
      using code_blank [of c] by (auto simp: blank_def)
    then have skip: "skip_spaces src slen i 0 = Some (i, 0)"
      using read by (subst skip_spaces.simps) simp
    note step = decode_scan.simps [of src slen i n j]
    show ?thesis
    proof (cases data)
      case (Cons a rest)
      then have a: "a = c" "drop (i + 1) (take slen src) = rest @ replicate p 0x3d" "j = 0"
        using less.prems(1,5) split by auto
      have "unat c < 128" "code c < 64" using less.prems(3) Cons a(1) by auto
      moreover from this have "c \<noteq> 0x3d" using code_pad by auto
      ultimately have "decode_scan src slen i n j = decode_scan src slen (i + 1) (n + 1) j"
        using True skip read nb a(3) by (subst step) (auto simp: code_def word_less_nat_alt)
      also have "\<dots> = Some (Inr (slen, n + 1 + length rest + p, j + p))"
        using less.prems True a Cons by (intro less.hyps) auto
      finally show ?thesis using Cons by simp
    next
      case Nil
      then obtain q where q: "p = Suc q" "c = 0x3d" "drop (i + 1) (take slen src) = replicate q 0x3d"
        using less.prems(1) split by (cases p) auto
      then have "decode_scan src slen i n j = decode_scan src slen (i + 1) (n + 1) (j + 1)"
        using True skip read nb less.prems(4) code_pad by (subst step) (simp add: code_def)
      also have "\<dots> = Some (Inr (slen, n + 1 + length ([] :: u8 list) + q, j + 1 + q))"
        using less.prems True q Nil by (intro less.hyps) auto
      finally show ?thesis using Nil q(1) by simp
    qed
  qed
qed

lemma enc_map_entries:
  "list_all (\<lambda>k. unat (base64_enc_map ! k) < 128 \<and> code (base64_enc_map ! k) = of_nat k) [0..<64]"
  by code_simp

lemma digit_ok: "unat (digit k) < 128" "code (digit k) = of_nat (k mod 64)" "code (digit k) < 64"
proof -
  have "k mod 64 < 64" by simp
  then show "unat (digit k) < 128" "code (digit k) = of_nat (k mod 64)"
    using enc_map_entries by (auto simp: list_all_iff digit_def)
  then show "code (digit k) < 64" by (simp add: word_less_nat_alt unat_of_nat)
qed

lemma sextet_digit: "sextet (digit k) = take_bit 6 (of_nat k)"
proof -
  have mask: "(0x3F :: u32) = mask 6" by (simp add: mask_eq_exp_minus_1)
  have "k mod 64 = take_bit 6 k" by (simp add: take_bit_eq_mod)
  then show ?thesis
    unfolding sextet_def digit_ok(2) mask
    by (intro bit_word_eqI) (auto simp: bit_simps)
qed

lemma group_bytes_digits: "group_bytes (digit (t div 2 ^ 18)) (digit (t div 2 ^ 12)) (digit (t div 2 ^ 6)) (digit t) =
    [of_nat (t div 2 ^ 16), of_nat (t div 2 ^ 8), of_nat t]"
proof -
  let ?x = "push_bit 18 (take_bit 6 (of_nat (drop_bit 18 t))) OR push_bit 12 (take_bit 6 (of_nat (drop_bit 12 t))) OR
    push_bit 6 (take_bit 6 (of_nat (drop_bit 6 t))) OR take_bit 6 (of_nat t) :: u32"
  have x: "?x = take_bit 24 (of_nat t)"
  proof (rule bit_word_eqI)
    fix n assume "n < LENGTH(32)"
    consider "n < 6" | "6 \<le> n" "n < 12" | "12 \<le> n" "n < 18" | "18 \<le> n" "n < 24" | "24 \<le> n" by linarith
    then show "bit ?x n = bit (take_bit 24 (word_of_nat t) :: u32) n"
      by cases (auto simp: bit_simps)
  qed
  have shift: "t div 2 ^ k = drop_bit k t" for k by (simp add: drop_bit_eq_div)
  have "[ucast (drop_bit 16 (take_bit 24 (of_nat t) :: u32)), ucast (drop_bit 8 (take_bit 24 (of_nat t) :: u32)),
      ucast (take_bit 24 (of_nat t) :: u32)] = [of_nat (drop_bit 16 t), of_nat (drop_bit 8 t), of_nat t :: u8]"
    by (auto intro!: bit_word_eqI simp: bit_simps)
  then show ?thesis
    unfolding group_bytes_def sextet_digit shift x Let_def .
qed

lemma triple_octets:
  "(of_nat (triple a b c div 2 ^ 16) :: u8) = a" "(of_nat (triple a b c div 2 ^ 8) :: u8) = b"
  "(of_nat (triple a b c) :: u8) = c"
proof -
  have small: "unat b * 256 + unat c < 65536" "unat c < 256" using u8_less [of b] u8_less [of c] by simp_all
  have "triple a b c = unat a * 2 ^ 16 + (unat b * 256 + unat c)"
    "triple a b c = (unat a * 256 + unat b) * 2 ^ 8 + unat c" by (simp_all add: triple_def)
  then have "triple a b c div 2 ^ 16 = unat a" "triple a b c div 2 ^ 8 = unat a * 256 + unat b"
    using div_split(1) [of "unat b * 256 + unat c" "2 ^ 16" "unat a"]
      div_split(1) [of "unat c" "2 ^ 8" "unat a * 256 + unat b"] small by simp_all
  moreover have "(256 :: u8) = 0" "(65536 :: u8) = 0" by simp_all
  ultimately show "(of_nat (triple a b c div 2 ^ 16) :: u8) = a" "(of_nat (triple a b c div 2 ^ 8) :: u8) = b"
    "(of_nat (triple a b c) :: u8) = c"
    by (simp_all only: triple_def of_nat_add of_nat_mult of_nat_numeral) simp_all
qed

lemma group_bytes_b64: "group_bytes (digit (triple a b c div 2 ^ 18)) (digit (triple a b c div 2 ^ 12))
    (digit (triple a b c div 2 ^ 6)) (digit (triple a b c)) = [a, b, c]"
  unfolding group_bytes_digits triple_octets ..

lemma pad_digit: "pad (digit k) = 0"
  using plain_data [OF digit_ok(1,3)] by blast

lemma sextet_zero: "k mod 64 = 0 \<Longrightarrow> sextet (digit k) = sextet 0x3d"
  by (simp add: sextet_def digit_ok(2) code_pad)

lemma emit_b64: "emit 3 (b64 bs) = bs"
proof (induction bs rule: b64.induct)
  case (2 a)
  have "triple a 0 0 div 2 ^ 6 mod 64 = 0" "triple a 0 0 mod 64 = 0"
    using triple_digits(3,4) [OF u8_less [of a], of 0 0] by (simp_all add: triple_def)
  then have "group_bytes (digit (triple a 0 0 div 2 ^ 18)) (digit (triple a 0 0 div 2 ^ 12)) 0x3d 0x3d = [a, 0, 0]"
    using group_bytes_b64 [of a 0 0] sextet_zero [of "triple a 0 0 div 2 ^ 6"] sextet_zero [of "triple a 0 0"]
    unfolding group_bytes_def Let_def by metis
  then show ?case by (simp add: Let_def pad_digit plain_pad)
next
  case (3 a b)
  have "triple a b 0 mod 64 = 0"
    using triple_digits(4) [OF u8_less [of a] u8_less [of b], of 0] by (simp add: triple_def)
  then have "group_bytes (digit (triple a b 0 div 2 ^ 18)) (digit (triple a b 0 div 2 ^ 12))
      (digit (triple a b 0 div 2 ^ 6)) 0x3d = [a, b, 0]"
    using group_bytes_b64 [of a b 0] sextet_zero [of "triple a b 0"]
    unfolding group_bytes_def Let_def by metis
  then show ?case by (simp add: Let_def pad_digit plain_pad numeral_2_eq_2)
next
  case (4 a b c bs)
  have "emit 3 (b64 (a # b # c # bs)) = group_bytes (digit (triple a b c div 2 ^ 18))
      (digit (triple a b c div 2 ^ 12)) (digit (triple a b c div 2 ^ 6)) (digit (triple a b c)) @ emit 3 (b64 bs)"
    by (simp add: Let_def pad_digit group_bytes_def)
  then show ?case using group_bytes_b64 [of a b c] by (simp add: 4 del: b64.simps)
qed simp

lemma b64_padded:
  "\<exists>data j. b64 bs = data @ replicate j 0x3d \<and> (\<forall>c \<in> set data. unat c < 128 \<and> code c < 64) \<and> j \<le> 2 \<and>
     (6 * length (b64 bs) + 7) div 8 = length bs + j"
proof (induction bs rule: b64.induct)
  case 1
  show ?case by (intro exI [of _ "[]"] exI [of _ 0]) simp
next
  case (2 a)
  show ?case
    by (intro exI [of _ "[digit (triple a 0 0 div 2 ^ 18), digit (triple a 0 0 div 2 ^ 12)]"] exI [of _ "Suc (Suc 0)"])
      (simp add: digit_ok(1,3))
next
  case (3 a b)
  show ?case
    by (intro exI [of _ "[digit (triple a b 0 div 2 ^ 18), digit (triple a b 0 div 2 ^ 12), digit (triple a b 0 div 2 ^ 6)]"]
        exI [of _ 1]) (simp add: digit_ok(1,3))
next
  case (4 a b c bs)
  then obtain data j where "b64 bs = data @ replicate j 0x3d" "\<forall>c \<in> set data. unat c < 128 \<and> code c < 64"
    "j \<le> 2" "(6 * length (b64 bs) + 7) div 8 = length bs + j" by blast
  then show ?case
    by (intro exI [of _ "[digit (triple a b c div 2 ^ 18), digit (triple a b c div 2 ^ 12),
        digit (triple a b c div 2 ^ 6), digit (triple a b c)] @ data"] exI [of _ j]) (simp add: digit_ok(1,3))
qed

lemma decode_b64:
  assumes "bs \<noteq> []" and "length (b64 bs) < 2 ^ 60" and "length bs \<le> dlen" "dlen \<le> length d"
  shows "mbedtls_base64_decode (Some d) dlen olen (b64 bs @ junk) (length (b64 bs)) =
    Some (0, length bs, Some (bs @ drop (length bs) d))"
proof -
  obtain data j where p: "b64 bs = data @ replicate j 0x3d" "\<forall>c \<in> set data. unat c < 128 \<and> code c < 64"
    "j \<le> 2" "(6 * length (b64 bs) + 7) div 8 = length bs + j"
    using b64_padded [of bs] by blast
  have pad: "padded data j (b64 bs)" using p(1,2) by (simp add: padded_def)
  have "\<not> blank c" if "c \<in> set (b64 bs)" for c
    using padded_plain(1) [OF pad] that by (simp add: plain_def)
  then have strip: "strip (b64 bs) = b64 bs" unfolding strip_def by (simp add: filter_id_conv)
  have "drop 0 (take (length (b64 bs)) (b64 bs @ junk)) = data @ replicate j 0x3d"
    using p(1) by simp
  from decode_scan_accepts [OF _ this _ p(2), of 0 0] p(3)
  have scan: "decode_scan (b64 bs @ junk) (length (b64 bs)) 0 0 0 =
      Some (Inr (length (b64 bs), length data + j, j))" by simp
  have n: "length data + j = length (b64 bs)" using p(1) by simp
  have "(k + 2) div 3 \<noteq> 0" if "k \<noteq> 0" for k :: nat using that by presburger
  then have pos: "length (b64 bs) \<noteq> 0" using assms(1) by (simp only: length_b64) simp
  show ?thesis
    using decode_eq(1) [OF _ assms(2,4) scan, of olen] assms(3) p(4) pos n
    by (simp add: strip emit_b64)
qed

text \<open>
  Encoding into a buffer that is large enough, and decoding again, as total functions on octet
  strings; the decoder gets a destination of the length of its source.
\<close>

definition encode_text :: "u8 list \<Rightarrow> u8 list" where
  "encode_text bs =
     (case mbedtls_base64_encode (Some (replicate (length (b64 bs) + 1) 0)) (length (b64 bs) + 1) bs (length bs) of
        Some (_, n, Some d) \<Rightarrow> take n d | _ \<Rightarrow> [])"

definition decode_text :: "u8 list \<Rightarrow> u8 list option" where
  "decode_text cs =
     (case mbedtls_base64_decode (Some (replicate (length cs) 0)) (length cs) 0 cs (length cs) of
        Some (r, n, Some d) \<Rightarrow> if r = 0 then Some (take n d) else None | _ \<Rightarrow> None)"

lemma encode_text_eq:
  assumes "length bs < 2 ^ 58"
  shows "encode_text bs = b64 bs"
proof (cases "bs = []")
  case True
  then show ?thesis by (simp add: encode_text_def mbedtls_base64_encode_def)
next
  case False
  then have "mbedtls_base64_encode (Some (replicate (length (b64 bs) + 1) 0)) (length (b64 bs) + 1) bs (length bs) =
      Some (0, length (b64 bs), Some (b64 bs @ [0]))"
    using encode_eq [of "length bs" bs "length (b64 bs) + 1" "replicate (length (b64 bs) + 1) 0"] assms
    by simp
  then show ?thesis by (simp add: encode_text_def)
qed

interpretation base64_codec: codec "\<lambda>bs. length bs < 2 ^ 58" encode_text decode_text
proof
  fix bs :: "u8 list"
  assume small: "length bs < 2 ^ 58"
  show "decode_text (encode_text bs) = Some bs"
  proof (cases "bs = []")
    case True
    then show ?thesis
      by (simp add: encode_text_eq decode_text_def mbedtls_base64_decode_def decode_scan.simps)
  next
    case False
    have "length (b64 bs) < 2 ^ 60" using small by (simp add: length_b64)
    moreover have "length bs \<le> length (b64 bs)" by (simp add: length_b64)
    ultimately have "mbedtls_base64_decode (Some (replicate (length (b64 bs)) 0)) (length (b64 bs)) 0
        (b64 bs) (length (b64 bs)) = Some (0, length bs, Some (bs @ replicate (length (b64 bs) - length bs) 0))"
      using decode_b64 [OF False, of "length (b64 bs)" "replicate (length (b64 bs)) 0" 0 "[]"] by simp
    then show ?thesis by (simp add: encode_text_eq [OF small] decode_text_def)
  qed
qed

section \<open>Properties\<close>

text \<open>
  \<open>mbedtls_base64_encode\<close> implements RFC 4648: with room for the text and its terminating NUL
  it writes exactly the specified text and the NUL, leaves the rest of the destination alone and
  reports the length of the text.
\<close>

theorem base64_encode_correct:
  assumes "slen \<noteq> 0" and "slen \<le> length src" and "slen < 2 ^ 63"
    and "length (b64 (take slen src)) + 1 \<le> dlen" and "dlen \<le> length d"
  shows "mbedtls_base64_encode (Some d) dlen src slen =
    Some (0, length (b64 (take slen src)),
      Some (b64 (take slen src) @ [0] @ drop (length (b64 (take slen src)) + 1) d))"
  using assms by (rule encode_eq)

theorem base64_encode_correct_witness:
  "mbedtls_base64_encode (Some (replicate 12 7)) 12 [1, 2, 3, 4] 4 =
    Some (0, length (b64 (take 4 [1, 2, 3, 4])),
      Some (b64 (take 4 [1, 2, 3, 4]) @ [0] @ drop (length (b64 (take 4 [1, 2, 3, 4])) + 1) (replicate 12 7)))"
  by (rule base64_encode_correct) simp_all

text \<open>
  C15: Round trip.  Decoding the text that encoding produced, wherever it is in memory, returns the
  octets that were encoded, and leaves the rest of the destination alone.
\<close>

theorem base64_roundtrip:
  assumes "bs \<noteq> []" and "length bs < 2 ^ 58" and "length (b64 bs) + 1 \<le> dlen1" "dlen1 \<le> length d1"
    and "length bs \<le> dlen2" "dlen2 \<le> length d2"
  shows "\<exists>n e. mbedtls_base64_encode (Some d1) dlen1 bs (length bs) = Some (0, n, Some e) \<and>
    mbedtls_base64_decode (Some d2) dlen2 olen e n = Some (0, length bs, Some (bs @ drop (length bs) d2))"
proof -
  have "length (b64 bs) < 2 ^ 60" using assms(2) by (simp add: length_b64)
  then have "mbedtls_base64_decode (Some d2) dlen2 olen (b64 bs @ [0] @ drop (length (b64 bs) + 1) d1)
      (length (b64 bs)) = Some (0, length bs, Some (bs @ drop (length bs) d2))"
    using assms by (intro decode_b64) simp_all
  then show ?thesis
    using encode_eq [of "length bs" bs dlen1 d1] assms by simp
qed

theorem base64_roundtrip_witness:
  "\<exists>n e. mbedtls_base64_encode (Some (replicate 12 7)) 12 [1, 2, 3, 4] (length [1, 2, 3, 4 :: u8]) =
      Some (0, n, Some e) \<and>
    mbedtls_base64_decode (Some [9, 9, 9, 9, 9]) 5 0 e n =
      Some (0, length [1, 2, 3, 4 :: u8], Some ([1, 2, 3, 4] @ drop (length [1, 2, 3, 4 :: u8]) [9, 9, 9, 9, 9]))"
  by (rule base64_roundtrip) simp_all

text \<open>
  \<open>mbedtls_base64_decode\<close> is memory-safe on every input: whatever the source bytes, it reads and
  writes only inside its buffers, and on success what it reports as written fits the destination.
\<close>

theorem base64_decode_memory_safe:
  assumes "slen \<le> length src" and "slen < 2 ^ 60" and "dlen \<le> length d"
  shows "\<exists>r n d'. mbedtls_base64_decode (Some d) dlen olen src slen = Some (r, n, Some d') \<and>
    length d' = length d \<and> (r = 0 \<longrightarrow> n \<le> dlen \<and> drop n d' = drop n d)"
proof -
  obtain res where o: "decode_scan src slen 0 0 0 = Some res" "scan_outcome src slen 0 0 0 res"
    using decode_scan_spec [OF assms(1), of 0 0 0] by auto
  show ?thesis
  proof (cases res)
    case (Inl e)
    then show ?thesis
      using o by (simp add: mbedtls_base64_decode_def scan_outcome_def MBEDTLS_ERR_BASE64_INVALID_CHARACTER_def)
  next
    case (Inr t)
    then obtain i n j where "decode_scan src slen 0 0 0 = Some (Inr (i, n, j))"
      using o(1) by (cases t) auto
    from decode_eq(1) [OF assms this, of olen] decode_eq(2) [OF assms this] assms(3) show ?thesis
      by (auto simp: MBEDTLS_ERR_BASE64_BUFFER_TOO_SMALL_def)
  qed
qed

theorem base64_decode_memory_safe_witness:
  "\<exists>r n d'. mbedtls_base64_decode (Some [0, 0, 0]) 3 0 [0x51, 0x3d, 0x0d, 0xff] 4 = Some (r, n, Some d') \<and>
    length d' = length [0, 0, 0 :: u8] \<and> (r = 0 \<longrightarrow> n \<le> 3 \<and> drop n d' = drop n [0, 0, 0])"
  by (rule base64_decode_memory_safe) simp_all

text \<open>
  What a successful decoding means.  Blanks (spaces, CR, LF) do not matter: the octets written
  are those of the complete groups of the characters that remain, which are characters of the
  alphabet followed by at most two pads.
\<close>

theorem base64_decode_success:
  assumes "slen \<le> length src" and "slen < 2 ^ 60" and "dlen \<le> length d"
    and "mbedtls_base64_decode (Some d) dlen olen src slen = Some (0, n, Some d')"
  shows "\<exists>data j. padded data j (strip (take slen src)) \<and> j \<le> 2 \<and>
    n = length (emit 3 (strip (take slen src))) \<and> d' = emit 3 (strip (take slen src)) @ drop n d"
proof -
  obtain res where o: "decode_scan src slen 0 0 0 = Some res" "scan_outcome src slen 0 0 0 res"
    using decode_scan_spec [OF assms(1), of 0 0 0] by auto
  obtain i m j where t: "res = Inr (i, m, j)"
  proof (cases res)
    case (Inl e)
    then have "mbedtls_base64_decode (Some d) dlen olen src slen =
        Some (MBEDTLS_ERR_BASE64_INVALID_CHARACTER, olen, Some d)"
      using o by (simp add: mbedtls_base64_decode_def scan_outcome_def)
    then show ?thesis using assms(4) by (simp add: MBEDTLS_ERR_BASE64_INVALID_CHARACTER_def)
  next
    case (Inr u)
    then show ?thesis using that by (cases u) auto
  qed
  obtain data where data: "padded data j (strip (take slen src))" "j \<le> 2"
    using o(2) t by (auto simp: scan_outcome_def)
  have scan: "decode_scan src slen 0 0 0 = Some (Inr (i, m, j))" using o(1) t by simp
  have "strip (take slen src) = []" if "m = 0"
    using decode_eq(3) [OF assms(1-3) scan] that by simp
  then show ?thesis
    using decode_eq(1) [OF assms(1-3) scan, of olen] assms(4) data
    by (auto simp: MBEDTLS_ERR_BASE64_BUFFER_TOO_SMALL_def split: if_splits)
qed

theorem base64_decode_success_witness:
  "\<exists>data j. padded data j (strip (take 8 (b64 [1, 2, 3, 4]))) \<and> j \<le> 2 \<and>
    (4 :: nat) = length (emit 3 (strip (take 8 (b64 [1, 2, 3, 4])))) \<and>
    [1, 2, 3, 4] = emit 3 (strip (take 8 (b64 [1, 2, 3, 4]))) @ drop 4 [9, 9, 9, 9 :: u8]"
proof -
  have l: "length (b64 [1, 2, 3, 4]) = 8" "length [1, 2, 3, 4 :: u8] = 4" "length [9, 9, 9, 9 :: u8] = 4"
    by simp_all
  have "mbedtls_base64_decode (Some [9, 9, 9, 9]) 4 0 (b64 [1, 2, 3, 4]) 8 =
      Some (0, 4, Some ([1, 2, 3, 4] @ drop 4 [9, 9, 9, 9]))"
    using decode_b64 [of "[1, 2, 3, 4]" 4 "[9, 9, 9, 9]" 0 "[]", unfolded l append_Nil2] by simp
  then have run: "mbedtls_base64_decode (Some [9, 9, 9, 9]) 4 0 (b64 [1, 2, 3, 4]) 8 =
      Some (0, 4, Some [1, 2, 3, 4])" by simp
  show ?thesis
    by (rule base64_decode_success [OF _ _ _ run]) (simp_all only: l, simp_all)
qed

text \<open>
  Different octet strings have different encodings.
\<close>

theorem base64_injective: "inj_on encode_text {bs. length bs < 2 ^ 58}"
  by (rule base64_codec.encode_inj_on)

end
