(* ===== verification/Sha1.thy ===== *)
theory Sha1
  imports Esp_Prelude
begin

text \<open>
  SHA-1 as mbedtls has it, \<open>mbedtls/library/sha1.c\<close>: the compression function with its unrolled
  rounds, rotated register names and sixteen-word ring of the message schedule, and the streaming
  interface (\<open>starts\<close>, \<open>update\<close>, \<open>finish\<close>).  The theorems show that it is the SHA-1 of FIPS 180-4.

  A context is the record \<open>sha1_context\<close>; the functions return the C \<open>int\<close> result with the new
  context.  \<open>None\<close> is an access outside a buffer.  The wrappers \<open>mbedtls_sha1_process\<close>,
  \<open>_update\<close>, \<open>_finish\<close> and \<open>mbedtls_sha1\<close> drop the result of the functions that return one.
\<close>

section \<open>The context\<close>

record sha1_context =
  total0 :: u32
  total1 :: u32
  sha_state :: "u32 list"
  sha_buffer :: "u8 list"

definition mbedtls_sha1_init :: sha1_context where
  "mbedtls_sha1_init =
     \<lparr>total0 = 0, total1 = 0, sha_state = replicate 5 0, sha_buffer = replicate 64 0\<rparr>"

text \<open>\<open>mbedtls_platform_zeroize\<close> of the bytes of an object\<close>

definition mbedtls_platform_zeroize :: "u8 list \<Rightarrow> nat \<Rightarrow> u8 list option" where
  "mbedtls_platform_zeroize buf n = mem_write buf 0 (replicate n 0)"

text \<open>The pointer may be \<open>NULL\<close>.\<close>

definition mbedtls_sha1_free :: "sha1_context option \<Rightarrow> sha1_context option" where
  "mbedtls_sha1_free ctx =
     (case ctx of
        None \<Rightarrow> None
      | Some c \<Rightarrow> Some (c\<lparr>total0 := 0, total1 := 0, sha_state := replicate 5 0,
                           sha_buffer := replicate 64 0\<rparr>))"

definition mbedtls_sha1_clone :: "sha1_context \<Rightarrow> sha1_context \<Rightarrow> sha1_context" where
  "mbedtls_sha1_clone dst src = src"

definition mbedtls_sha1_starts_ret :: "sha1_context \<Rightarrow> i32 \<times> sha1_context" where
  "mbedtls_sha1_starts_ret ctx =
     (0, ctx\<lparr>total0 := 0, total1 := 0,
             sha_state := [0x67452301, 0xEFCDAB89, 0x98BADCFE, 0x10325476, 0xC3D2E1F0]\<rparr>)"

definition mbedtls_sha1_starts :: "sha1_context \<Rightarrow> sha1_context" where
  "mbedtls_sha1_starts ctx = snd (mbedtls_sha1_starts_ret ctx)"

section \<open>Big-endian words\<close>

definition get_uint32_be :: "u8 list \<Rightarrow> nat \<Rightarrow> u32 option" where
  "get_uint32_be b i = do {
     b0 \<leftarrow> mem_read b i;
     b1 \<leftarrow> mem_read b (i + 1);
     b2 \<leftarrow> mem_read b (i + 2);
     b3 \<leftarrow> mem_read b (i + 3);
     Some (push_bit 24 (ucast b0) OR push_bit 16 (ucast b1) OR push_bit 8 (ucast b2) OR ucast b3)
   }"

definition put_uint32_be :: "u32 \<Rightarrow> u8 list \<Rightarrow> nat \<Rightarrow> u8 list option" where
  "put_uint32_be n b i =
     mem_write b i [ucast (drop_bit 24 n), ucast (drop_bit 16 n), ucast (drop_bit 8 n), ucast n]"

section \<open>The compression function\<close>

text \<open>
  The macro \<open>P(a,b,c,d,e,x)\<close> names the five registers it works on, so the unrolled code is a list
  of such calls.  Its last argument is either a word \<open>W[i]\<close> of the block or the macro \<open>R(t)\<close>,
  which first replaces a word of the ring.
\<close>

datatype reg = RA | RB | RC | RD | RE

datatype operand = Wd nat | Rd nat

datatype instr = P reg reg reg reg reg operand

type_synonym regs = "reg \<Rightarrow> u32"

text \<open>The macro \<open>S(x,n)\<close>\<close>

definition sha_S :: "u32 \<Rightarrow> nat \<Rightarrow> u32" where
  "sha_S x n = (push_bit n x OR drop_bit (32 - n) (x AND 0xFFFFFFFF))"

definition sha_R :: "u32 list \<Rightarrow> nat \<Rightarrow> u32 \<times> u32 list" where
  "sha_R W t =
     (let temp = W ! ((t - 3) AND 0x0F) XOR W ! ((t - 8) AND 0x0F)
                 XOR W ! ((t - 14) AND 0x0F) XOR W ! (t AND 0x0F);
          v = sha_S temp 1
      in (v, W[t AND 0x0F := v]))"

fun operand_value :: "operand \<Rightarrow> u32 list \<Rightarrow> u32 \<times> u32 list" where
  "operand_value (Wd i) W = (W ! i, W)"
| "operand_value (Rd t) W = sha_R W t"

fun sha_P :: "(u32 \<Rightarrow> u32 \<Rightarrow> u32 \<Rightarrow> u32) \<Rightarrow> u32 \<Rightarrow> instr \<Rightarrow> regs \<times> u32 list \<Rightarrow> regs \<times> u32 list" where
  "sha_P F K (P a b c d e x) (r, W) =
     (let (v, W') = operand_value x W;
          r1 = r(e := r e + (sha_S (r a) 5 + F (r b) (r c) (r d) + K + v))
      in (r1(b := sha_S (r1 b) 30), W'))"

definition F1 :: "u32 \<Rightarrow> u32 \<Rightarrow> u32 \<Rightarrow> u32" where "F1 x y z = z XOR (x AND (y XOR z))"
definition F2 :: "u32 \<Rightarrow> u32 \<Rightarrow> u32 \<Rightarrow> u32" where "F2 x y z = x XOR y XOR z"
definition F3 :: "u32 \<Rightarrow> u32 \<Rightarrow> u32 \<Rightarrow> u32" where "F3 x y z = (x AND y) OR (z AND (x OR y))"

definition K1 :: u32 where "K1 = 0x5A827999"
definition K2 :: u32 where "K2 = 0x6ED9EBA1"
definition K3 :: u32 where "K3 = 0x8F1BBCDC"
definition K4 :: u32 where "K4 = 0xCA62C1D6"

definition rounds1 :: "instr list" where
  "rounds1 =
    [P RA RB RC RD RE (Wd 0),
     P RE RA RB RC RD (Wd 1),
     P RD RE RA RB RC (Wd 2),
     P RC RD RE RA RB (Wd 3),
     P RB RC RD RE RA (Wd 4),
     P RA RB RC RD RE (Wd 5),
     P RE RA RB RC RD (Wd 6),
     P RD RE RA RB RC (Wd 7),
     P RC RD RE RA RB (Wd 8),
     P RB RC RD RE RA (Wd 9),
     P RA RB RC RD RE (Wd 10),
     P RE RA RB RC RD (Wd 11),
     P RD RE RA RB RC (Wd 12),
     P RC RD RE RA RB (Wd 13),
     P RB RC RD RE RA (Wd 14),
     P RA RB RC RD RE (Wd 15),
     P RE RA RB RC RD (Rd 16),
     P RD RE RA RB RC (Rd 17),
     P RC RD RE RA RB (Rd 18),
     P RB RC RD RE RA (Rd 19)]"

definition rounds2 :: "instr list" where
  "rounds2 =
    [P RA RB RC RD RE (Rd 20),
     P RE RA RB RC RD (Rd 21),
     P RD RE RA RB RC (Rd 22),
     P RC RD RE RA RB (Rd 23),
     P RB RC RD RE RA (Rd 24),
     P RA RB RC RD RE (Rd 25),
     P RE RA RB RC RD (Rd 26),
     P RD RE RA RB RC (Rd 27),
     P RC RD RE RA RB (Rd 28),
     P RB RC RD RE RA (Rd 29),
     P RA RB RC RD RE (Rd 30),
     P RE RA RB RC RD (Rd 31),
     P RD RE RA RB RC (Rd 32),
     P RC RD RE RA RB (Rd 33),
     P RB RC RD RE RA (Rd 34),
     P RA RB RC RD RE (Rd 35),
     P RE RA RB RC RD (Rd 36),
     P RD RE RA RB RC (Rd 37),
     P RC RD RE RA RB (Rd 38),
     P RB RC RD RE RA (Rd 39)]"

definition rounds3 :: "instr list" where
  "rounds3 =
    [P RA RB RC RD RE (Rd 40),
     P RE RA RB RC RD (Rd 41),
     P RD RE RA RB RC (Rd 42),
     P RC RD RE RA RB (Rd 43),
     P RB RC RD RE RA (Rd 44),
     P RA RB RC RD RE (Rd 45),
     P RE RA RB RC RD (Rd 46),
     P RD RE RA RB RC (Rd 47),
     P RC RD RE RA RB (Rd 48),
     P RB RC RD RE RA (Rd 49),
     P RA RB RC RD RE (Rd 50),
     P RE RA RB RC RD (Rd 51),
     P RD RE RA RB RC (Rd 52),
     P RC RD RE RA RB (Rd 53),
     P RB RC RD RE RA (Rd 54),
     P RA RB RC RD RE (Rd 55),
     P RE RA RB RC RD (Rd 56),
     P RD RE RA RB RC (Rd 57),
     P RC RD RE RA RB (Rd 58),
     P RB RC RD RE RA (Rd 59)]"

definition rounds4 :: "instr list" where
  "rounds4 =
    [P RA RB RC RD RE (Rd 60),
     P RE RA RB RC RD (Rd 61),
     P RD RE RA RB RC (Rd 62),
     P RC RD RE RA RB (Rd 63),
     P RB RC RD RE RA (Rd 64),
     P RA RB RC RD RE (Rd 65),
     P RE RA RB RC RD (Rd 66),
     P RD RE RA RB RC (Rd 67),
     P RC RD RE RA RB (Rd 68),
     P RB RC RD RE RA (Rd 69),
     P RA RB RC RD RE (Rd 70),
     P RE RA RB RC RD (Rd 71),
     P RD RE RA RB RC (Rd 72),
     P RC RD RE RA RB (Rd 73),
     P RB RC RD RE RA (Rd 74),
     P RA RB RC RD RE (Rd 75),
     P RE RA RB RC RD (Rd 76),
     P RD RE RA RB RC (Rd 77),
     P RC RD RE RA RB (Rd 78),
     P RB RC RD RE RA (Rd 79)]"

text \<open>
  \<open>mbedtls_internal_sha1_process\<close>: load the block, copy the state into the registers, run the
  four groups of rounds, and add the registers to the state.
\<close>

definition load_block :: "u8 list \<Rightarrow> u32 list option" where
  "load_block data = those (map (\<lambda>j. get_uint32_be data (4 * j)) [0..<16])"

definition load_regs :: "u32 \<Rightarrow> u32 \<Rightarrow> u32 \<Rightarrow> u32 \<Rightarrow> u32 \<Rightarrow> regs" where
  "load_regs a b c d e r = (case r of RA \<Rightarrow> a | RB \<Rightarrow> b | RC \<Rightarrow> c | RD \<Rightarrow> d | RE \<Rightarrow> e)"

definition all_rounds :: "regs \<times> u32 list \<Rightarrow> regs \<times> u32 list" where
  "all_rounds s =
     fold (sha_P F2 K4) rounds4
      (fold (sha_P F3 K3) rounds3
        (fold (sha_P F2 K2) rounds2
          (fold (sha_P F1 K1) rounds1 s)))"

definition mbedtls_internal_sha1_process ::
  "sha1_context \<Rightarrow> u8 list \<Rightarrow> (i32 \<times> sha1_context) option" where
  "mbedtls_internal_sha1_process ctx data = do {
     W \<leftarrow> load_block data;
     case sha_state ctx of
       [s0, s1, s2, s3, s4] \<Rightarrow>
         (let r = fst (all_rounds (load_regs s0 s1 s2 s3 s4, W))
          in Some (0, ctx\<lparr>sha_state :=
                [s0 + r RA, s1 + r RB, s2 + r RC, s3 + r RD, s4 + r RE]\<rparr>))
     | _ \<Rightarrow> None
   }"

definition mbedtls_sha1_process :: "sha1_context \<Rightarrow> u8 list \<Rightarrow> sha1_context option" where
  "mbedtls_sha1_process ctx data = map_option snd (mbedtls_internal_sha1_process ctx data)"

section \<open>The streaming interface\<close>

text \<open>
  \<open>while (ilen >= 64)\<close>: process whole blocks of the input.  The result is the return code of the
  first failing block, the context, and what is left of the input.
\<close>

function update_blocks ::
  "sha1_context \<Rightarrow> u8 list \<Rightarrow> nat \<Rightarrow> (i32 \<times> sha1_context \<times> u8 list \<times> nat) option" where
  "update_blocks ctx input ilen =
     (if 64 \<le> ilen then do {
        (ret, ctx) \<leftarrow> mbedtls_internal_sha1_process ctx input;
        if ret \<noteq> 0 then Some (ret, ctx, input, ilen)
        else update_blocks ctx (drop 64 input) (ilen - 64)
      } else Some (0, ctx, input, ilen))"
  by pat_completeness auto

termination
  by (relation "measure (\<lambda>(ctx, input, ilen). ilen)") auto

declare update_blocks.simps [simp del]

definition update_total :: "sha1_context \<Rightarrow> nat \<Rightarrow> sha1_context" where
  "update_total ctx ilen =
     (let t0 = (total0 ctx + of_nat ilen) AND 0xFFFFFFFF
      in if t0 < of_nat ilen then ctx\<lparr>total0 := t0, total1 := total1 ctx + 1\<rparr>
         else ctx\<lparr>total0 := t0\<rparr>)"

text \<open>The rest of \<open>update\<close>: the whole blocks, then what stays in the buffer.\<close>

definition update_rest ::
  "sha1_context \<Rightarrow> u8 list \<Rightarrow> nat \<Rightarrow> nat \<Rightarrow> (i32 \<times> sha1_context) option" where
  "update_rest ctx input ilen left = do {
     (ret, ctx, input, ilen) \<leftarrow> update_blocks ctx input ilen;
     if ret \<noteq> 0 then Some (ret, ctx)
     else if 0 < ilen then do {
       bs \<leftarrow> mem_bytes input ilen;
       buf \<leftarrow> mem_write (sha_buffer ctx) left bs;
       Some (0, ctx\<lparr>sha_buffer := buf\<rparr>)
     } else Some (0, ctx)
   }"

definition mbedtls_sha1_update_ret ::
  "sha1_context \<Rightarrow> u8 list \<Rightarrow> nat \<Rightarrow> (i32 \<times> sha1_context) option" where
  "mbedtls_sha1_update_ret ctx input ilen =
     (if ilen = 0 then Some (0, ctx)
      else do {
        let left = unat (total0 ctx AND 0x3F);
        let fill = 64 - left;
        let ctx = update_total ctx ilen;
        (ret, ctx, input, ilen, left) \<leftarrow>
          (if left \<noteq> 0 \<and> fill \<le> ilen then do {
             bs \<leftarrow> mem_bytes input fill;
             buf \<leftarrow> mem_write (sha_buffer ctx) left bs;
             let ctx = ctx\<lparr>sha_buffer := buf\<rparr>;
             (ret, ctx) \<leftarrow> mbedtls_internal_sha1_process ctx (sha_buffer ctx);
             Some (ret, ctx, drop fill input, ilen - fill, 0)
           } else Some (0, ctx, input, ilen, left));
        if ret \<noteq> 0 then Some (ret, ctx) else update_rest ctx input ilen left
      })"

definition mbedtls_sha1_update :: "sha1_context \<Rightarrow> u8 list \<Rightarrow> nat \<Rightarrow> sha1_context option" where
  "mbedtls_sha1_update ctx input ilen = map_option snd (mbedtls_sha1_update_ret ctx input ilen)"

text \<open>The padding of \<open>finish\<close>: 0x80, zeros, and an extra block when the length does not fit.\<close>

definition finish_padding :: "sha1_context \<Rightarrow> (i32 \<times> sha1_context) option" where
  "finish_padding ctx = do {
     let used = unat (total0 ctx AND 0x3F);
     buf \<leftarrow> mem_write (sha_buffer ctx) used [0x80];
     let used = used + 1;
     if used \<le> 56 then do {
       buf \<leftarrow> mem_write buf used (replicate (56 - used) 0);
       Some (0, ctx\<lparr>sha_buffer := buf\<rparr>)
     } else do {
       buf \<leftarrow> mem_write buf used (replicate (64 - used) 0);
       (ret, ctx) \<leftarrow> mbedtls_internal_sha1_process (ctx\<lparr>sha_buffer := buf\<rparr>) buf;
       if ret \<noteq> 0 then Some (ret, ctx)
       else do {
         buf \<leftarrow> mem_write (sha_buffer ctx) 0 (replicate 56 0);
         Some (0, ctx\<lparr>sha_buffer := buf\<rparr>)
       }
     }
   }"

definition put_state :: "u32 list \<Rightarrow> u8 list \<Rightarrow> u8 list option" where
  "put_state st out = (case st of
       [s0, s1, s2, s3, s4] \<Rightarrow> do {
         out \<leftarrow> put_uint32_be s0 out 0;
         out \<leftarrow> put_uint32_be s1 out 4;
         out \<leftarrow> put_uint32_be s2 out 8;
         out \<leftarrow> put_uint32_be s3 out 12;
         put_uint32_be s4 out 16
       }
     | _ \<Rightarrow> None)"

definition mbedtls_sha1_finish_ret ::
  "sha1_context \<Rightarrow> u8 list \<Rightarrow> (i32 \<times> sha1_context \<times> u8 list) option" where
  "mbedtls_sha1_finish_ret ctx out = do {
     (ret, ctx) \<leftarrow> finish_padding ctx;
     if ret \<noteq> 0 then Some (ret, ctx, out)
     else do {
       let high = drop_bit 29 (total0 ctx) OR push_bit 3 (total1 ctx);
       let low = push_bit 3 (total0 ctx);
       buf \<leftarrow> put_uint32_be high (sha_buffer ctx) 56;
       buf \<leftarrow> put_uint32_be low buf 60;
       (ret, ctx) \<leftarrow> mbedtls_internal_sha1_process (ctx\<lparr>sha_buffer := buf\<rparr>) buf;
       if ret \<noteq> 0 then Some (ret, ctx, out)
       else do {
         out \<leftarrow> put_state (sha_state ctx) out;
         Some (0, ctx, out)
       }
     }
   }"

definition mbedtls_sha1_finish ::
  "sha1_context \<Rightarrow> u8 list \<Rightarrow> (sha1_context \<times> u8 list) option" where
  "mbedtls_sha1_finish ctx out = map_option snd (mbedtls_sha1_finish_ret ctx out)"

text \<open>The context is a local variable: its bytes before \<open>init\<close> do not matter.\<close>

definition mbedtls_sha1_ret :: "u8 list \<Rightarrow> nat \<Rightarrow> u8 list \<Rightarrow> (i32 \<times> u8 list) option" where
  "mbedtls_sha1_ret input ilen out = do {
     let (ret, ctx) = mbedtls_sha1_starts_ret mbedtls_sha1_init;
     if ret \<noteq> 0 then Some (ret, out)
     else do {
       (ret, ctx) \<leftarrow> mbedtls_sha1_update_ret ctx input ilen;
       if ret \<noteq> 0 then Some (ret, out)
       else do {
         (ret, ctx, out) \<leftarrow> mbedtls_sha1_finish_ret ctx out;
         Some (ret, out)
       }
     }
   }"

definition mbedtls_sha1 :: "u8 list \<Rightarrow> nat \<Rightarrow> u8 list \<Rightarrow> u8 list option" where
  "mbedtls_sha1 input ilen out = map_option snd (mbedtls_sha1_ret input ilen out)"

section \<open>FIPS 180-4\<close>

text \<open>
  The standard's own definitions: the logical functions and constants of round \<open>t\<close>, the message
  schedule of eighty words, the round, the compression of a block and the padding.
\<close>

definition fips_f :: "nat \<Rightarrow> u32 \<Rightarrow> u32 \<Rightarrow> u32 \<Rightarrow> u32" where
  "fips_f t x y z =
     (if t < 20 then (x AND y) XOR (NOT x AND z)
      else if t < 40 then x XOR y XOR z
      else if t < 60 then (x AND y) XOR (x AND z) XOR (y AND z)
      else x XOR y XOR z)"

definition fips_k :: "nat \<Rightarrow> u32" where
  "fips_k t =
     (if t < 20 then 0x5A827999 else if t < 40 then 0x6ED9EBA1
      else if t < 60 then 0x8F1BBCDC else 0xCA62C1D6)"

fun fips_w :: "u32 list \<Rightarrow> nat \<Rightarrow> u32" where
  "fips_w M t =
     (if t < 16 then M ! t
      else word_rotl 1 (fips_w M (t - 3) XOR fips_w M (t - 8)
                        XOR fips_w M (t - 14) XOR fips_w M (t - 16)))"

declare fips_w.simps [simp del]

type_synonym digest_state = "u32 \<times> u32 \<times> u32 \<times> u32 \<times> u32"

fun fips_round :: "u32 list \<Rightarrow> nat \<Rightarrow> digest_state \<Rightarrow> digest_state" where
  "fips_round M t (a, b, c, d, e) =
     (word_rotl 5 a + fips_f t b c d + e + fips_k t + fips_w M t, a, word_rotl 30 b, c, d)"

primrec fips_rounds :: "u32 list \<Rightarrow> nat \<Rightarrow> digest_state \<Rightarrow> digest_state" where
  "fips_rounds M 0 s = s"
| "fips_rounds M (Suc t) s = fips_round M t (fips_rounds M t s)"

fun add_state :: "digest_state \<Rightarrow> digest_state \<Rightarrow> digest_state" where
  "add_state (a, b, c, d, e) (a', b', c', d', e') = (a + a', b + b', c + c', d + d', e + e')"

definition be_word :: "u8 list \<Rightarrow> nat \<Rightarrow> u32" where
  "be_word m i = push_bit 24 (ucast (m ! i)) OR push_bit 16 (ucast (m ! (i + 1)))
     OR push_bit 8 (ucast (m ! (i + 2))) OR ucast (m ! (i + 3))"

definition block_words :: "u8 list \<Rightarrow> u32 list" where
  "block_words m = map (\<lambda>j. be_word m (4 * j)) [0..<16]"

definition fips_compress :: "u8 list \<Rightarrow> digest_state \<Rightarrow> digest_state" where
  "fips_compress m H = add_state H (fips_rounds (block_words m) 80 H)"

section \<open>The unrolled rounds are the rounds of the standard\<close>

text \<open>The registers that round \<open>t\<close> of the unrolled code works on\<close>

definition round_args :: "nat \<Rightarrow> reg \<times> reg \<times> reg \<times> reg \<times> reg" where
  "round_args t =
     (if t mod 5 = 0 then (RA, RB, RC, RD, RE)
      else if t mod 5 = 1 then (RE, RA, RB, RC, RD)
      else if t mod 5 = 2 then (RD, RE, RA, RB, RC)
      else if t mod 5 = 3 then (RC, RD, RE, RA, RB)
      else (RB, RC, RD, RE, RA))"

definition round_instr :: "nat \<Rightarrow> instr" where
  "round_instr t =
     (case round_args t of (a, b, c, d, e) \<Rightarrow> P a b c d e (if t < 16 then Wd t else Rd t))"

definition view :: "nat \<Rightarrow> regs \<Rightarrow> digest_state" where
  "view t r = (case round_args t of (a, b, c, d, e) \<Rightarrow> (r a, r b, r c, r d, r e))"

lemma rounds_literal:
  "rounds1 = map round_instr [0..<20]" "rounds2 = map round_instr [20..<40]"
  "rounds3 = map round_instr [40..<60]" "rounds4 = map round_instr [60..<80]"
  by code_simp+

lemma and_all_ones: "x AND 0xFFFFFFFF = (x :: u32)"
proof -
  have "(0xFFFFFFFF :: u32) = - 1" by simp
  then show ?thesis by (simp only: and.right_neutral)
qed
lemma rotl_index:
  "n < 32 \<Longrightarrow> i < 32 \<Longrightarrow> (i + (32 - n)) mod 32 = (if n \<le> i then i - n else i + (32 - n))" for n i :: nat
  by (auto simp: mod_if)
lemma sha_S_rotl:
  assumes "n < 32"
  shows "sha_S x n = word_rotl n x"
proof (rule bit_word_eqI)
  fix i assume i: "i < LENGTH(32)"
  then have i': "i < 32" by simp
  have idx: "(i + (LENGTH(32) - n mod LENGTH(32))) mod LENGTH(32) =
      (if n \<le> i then i - n else i + (32 - n))"
    using rotl_index [OF assms i'] assms by simp
  have hi: "\<not> bit x k" if "32 \<le> k" for k using that bit_imp_le_length [of x k] by auto
  show "bit (sha_S x n) i = bit (word_rotl n x) i"
  proof (cases "n \<le> i")
    case True
    have "\<not> bit x (32 - n + i)" using True by (intro hi) simp
    with True i assms show ?thesis
      by (simp only: sha_S_def and_all_ones bit_or_iff bit_word_rotl_iff idx bit_drop_bit_eq comp_def
          bit_push_bit_iff possible_bit_word if_True simp_thms)
  next
    case False
    with i assms show ?thesis
      by (simp only: sha_S_def and_all_ones bit_or_iff bit_word_rotl_iff idx bit_drop_bit_eq comp_def
          bit_push_bit_iff if_False simp_thms add.commute)
  qed
qed
lemma F_fips:
  "t < 20 \<Longrightarrow> fips_f t = F1" "20 \<le> t \<Longrightarrow> t < 40 \<Longrightarrow> fips_f t = F2"
  "40 \<le> t \<Longrightarrow> t < 60 \<Longrightarrow> fips_f t = F3" "60 \<le> t \<Longrightarrow> fips_f t = F2"
  by (auto simp: fips_f_def F1_def F2_def F3_def fun_eq_iff bit_simps intro!: bit_word_eqI)

lemma K_fips:
  "t < 20 \<Longrightarrow> fips_k t = K1" "20 \<le> t \<Longrightarrow> t < 40 \<Longrightarrow> fips_k t = K2"
  "40 \<le> t \<Longrightarrow> t < 60 \<Longrightarrow> fips_k t = K3" "60 \<le> t \<Longrightarrow> fips_k t = K4"
  by (auto simp: fips_k_def K1_def K2_def K3_def K4_def)

lemma and_15: "(n AND 15 :: nat) = n mod 16"
  using take_bit_eq_mask [of 4 n] by (simp add: take_bit_eq_mod mask_eq_exp_minus_1)

text \<open>The ring of sixteen words holds the latest words of the schedule.\<close>

definition ring_ok :: "u32 list \<Rightarrow> nat \<Rightarrow> u32 list \<Rightarrow> bool" where
  "ring_ok M t W \<longleftrightarrow> length W = 16 \<and>
     (\<forall>i. i < max 16 t \<longrightarrow> t \<le> i + 16 \<longrightarrow> W ! (i mod 16) = fips_w M i)"

lemma ring_read:
  "ring_ok M t W \<Longrightarrow> 16 \<le> t \<Longrightarrow> 0 < k \<Longrightarrow> k \<le> 16 \<Longrightarrow> W ! ((t - k) AND 15) = fips_w M (t - k)"
  by (simp add: ring_ok_def and_15)

lemma ring_first: "ring_ok M t W \<Longrightarrow> t < 16 \<Longrightarrow> W ! t = fips_w M t"
  by (auto simp: ring_ok_def dest!: spec [of _ t])

lemma ring_start: "length W = 16 \<Longrightarrow> ring_ok W 0 W"
  by (simp add: ring_ok_def fips_w.simps [of W])

lemma ring_R:
  assumes ring: "ring_ok M t W" and t: "16 \<le> t"
  shows "fst (sha_R W t) = fips_w M t" "ring_ok M (Suc t) (snd (sha_R W t))"
proof -
  have self: "W ! (t AND 15) = fips_w M (t - 16)"
    using ring_read [OF ring t, of 16] t by (simp add: and_15 le_mod_geq)
  have val: "sha_S (W ! ((t - 3) AND 0x0F) XOR W ! ((t - 8) AND 0x0F)
       XOR W ! ((t - 14) AND 0x0F) XOR W ! (t AND 0x0F)) 1 = fips_w M t"
    using t by (simp add: ring_read [OF ring t] self sha_S_rotl fips_w.simps [of M t])
  then show "fst (sha_R W t) = fips_w M t"
    by (simp add: sha_R_def Let_def)
  have snd: "snd (sha_R W t) = W[t mod 16 := fips_w M t]"
    using val by (simp add: sha_R_def and_15 Let_def)
  have "W[t mod 16 := fips_w M t] ! (i mod 16) = fips_w M i"
    if i: "i < Suc t" "Suc t \<le> i + 16" for i
  proof (cases "i = t")
    case True
    then show ?thesis using ring by (simp add: ring_ok_def)
  next
    case False
    with i have "\<not> 16 dvd t - i" by (auto dest: dvd_imp_le)
    with i have "t mod 16 \<noteq> i mod 16" using mod_eq_dvd_iff_nat [of i t 16] by simp
    then have "W[t mod 16 := fips_w M t] ! (i mod 16) = W ! (i mod 16)" by simp
    also have "\<dots> = fips_w M i" using False i ring t by (simp add: ring_ok_def)
    finally show ?thesis .
  qed
  with ring t show "ring_ok M (Suc t) (snd (sha_R W t))"
    by (simp add: snd ring_ok_def max_def)
qed

lemma ring_Suc: "ring_ok M t W \<Longrightarrow> t < 16 \<Longrightarrow> ring_ok M (Suc t) W"
  by (auto simp: ring_ok_def max_def)

lemma operand_round:
  assumes "ring_ok M t W"
  shows "\<exists>W'. operand_value (if t < 16 then Wd t else Rd t) W = (fips_w M t, W')
     \<and> ring_ok M (Suc t) W'"
  using assms ring_R [of M t W]
  by (cases "t < 16") (auto simp: ring_first ring_Suc prod_eq_iff)

lemma view_round:
  assumes op: "operand_value (if t < 16 then Wd t else Rd t) W = (fips_w M t, W')"
    and f: "F = fips_f t" and k: "K = fips_k t"
  shows "\<exists>r'. sha_P F K (round_instr t) (r, W) = (r', W') \<and>
     view (Suc t) r' = fips_round M t (view t r)"
proof -
  have sum: "e + (sha_S a 5 + F b c d + K + v) = word_rotl 5 a + fips_f t b c d + e + fips_k t + v"
    for a b c d e v
    by (simp add: sha_S_rotl f k algebra_simps)
  have "t mod 5 = 0 \<and> Suc t mod 5 = 1 \<or> t mod 5 = 1 \<and> Suc t mod 5 = 2
     \<or> t mod 5 = 2 \<and> Suc t mod 5 = 3 \<or> t mod 5 = 3 \<and> Suc t mod 5 = 4
     \<or> t mod 5 = 4 \<and> Suc t mod 5 = 0"
    by presburger
  then show ?thesis
    by (elim disjE conjE)
      (simp_all add: round_instr_def view_def round_args_def op sum sha_S_rotl Let_def f k)
qed

lemma rounds_run:
  assumes "ring_ok M m W" "\<And>t. m \<le> t \<Longrightarrow> t < n \<Longrightarrow> fips_f t = F \<and> fips_k t = K" "m \<le> n"
    and "view m r = fips_rounds M m s"
  shows "\<exists>r' W'. fold (sha_P F K) (map round_instr [m..<n]) (r, W) = (r', W')
     \<and> ring_ok M n W' \<and> view n r' = fips_rounds M n s"
  using assms(3, 2)
proof (induction n rule: dec_induct)
  case base
  then show ?case using assms by auto
next
  case (step n)
  then obtain r' W' where IH: "fold (sha_P F K) (map round_instr [m..<n]) (r, W) = (r', W')"
      "ring_ok M n W'" "view n r' = fips_rounds M n s"
    by (metis less_SucI)
  obtain W'' where "operand_value (if n < 16 then Wd n else Rd n) W' = (fips_w M n, W'')"
      "ring_ok M (Suc n) W''"
    using operand_round [OF IH(2)] by blast
  with view_round [of n W' M W'' F K r'] step IH show ?case by auto
qed

lemma all_rounds_fips:
  assumes "length W = 16"
  shows "\<exists>r' W'. all_rounds (r, W) = (r', W') \<and> view 0 r' = fips_rounds W 80 (view 0 r)"
proof -
  obtain r1 W1 where 1: "fold (sha_P F1 K1) rounds1 (r, W) = (r1, W1)" "ring_ok W 20 W1"
      "view 20 r1 = fips_rounds W 20 (view 0 r)"
    using rounds_run [of W 0 W 20 F1 K1 r "view 0 r"] ring_start [OF assms]
    by (auto simp: rounds_literal F_fips K_fips)
  obtain r2 W2 where 2: "fold (sha_P F2 K2) rounds2 (r1, W1) = (r2, W2)" "ring_ok W 40 W2"
      "view 40 r2 = fips_rounds W 40 (view 0 r)"
    using rounds_run [of W 20 W1 40 F2 K2 r1 "view 0 r"] 1
    by (auto simp: rounds_literal F_fips K_fips)
  obtain r3 W3 where 3: "fold (sha_P F3 K3) rounds3 (r2, W2) = (r3, W3)" "ring_ok W 60 W3"
      "view 60 r3 = fips_rounds W 60 (view 0 r)"
    using rounds_run [of W 40 W2 60 F3 K3 r2 "view 0 r"] 2
    by (auto simp: rounds_literal F_fips K_fips)
  obtain r4 W4 where 4: "fold (sha_P F2 K4) rounds4 (r3, W3) = (r4, W4)" "ring_ok W 80 W4"
      "view 80 r4 = fips_rounds W 80 (view 0 r)"
    using rounds_run [of W 60 W3 80 F2 K4 r3 "view 0 r"] 3
    by (auto simp: rounds_literal F_fips K_fips)
  have "view 80 r4 = view 0 r4" by (simp add: view_def round_args_def)
  with 4 show ?thesis by (simp add: all_rounds_def 1(1) 2(1) 3(1))
qed

section \<open>Blocks, padding and digest\<close>

fun state_list :: "digest_state \<Rightarrow> u32 list" where
  "state_list (a, b, c, d, e) = [a, b, c, d, e]"

function hash_blocks :: "u8 list \<Rightarrow> digest_state \<Rightarrow> digest_state" where
  "hash_blocks m H =
     (if length m < 64 then H else hash_blocks (drop 64 m) (fips_compress (take 64 m) H))"
  by pat_completeness auto

termination
  by (relation "measure (\<lambda>(m, H). length m)") auto

declare hash_blocks.simps [simp del]

definition fips_H0 :: digest_state where
  "fips_H0 = (0x67452301, 0xEFCDAB89, 0x98BADCFE, 0x10325476, 0xC3D2E1F0)"

definition be32_bytes :: "nat \<Rightarrow> u8 list" where
  "be32_bytes n = [of_nat (n div 2 ^ 24), of_nat (n div 2 ^ 16), of_nat (n div 2 ^ 8), of_nat n]"

definition fips_pad :: "u8 list \<Rightarrow> u8 list" where
  "fips_pad m = m @ [0x80] @ replicate ((119 - length m mod 64) mod 64) 0
     @ be32_bytes (8 * length m div 2 ^ 32) @ be32_bytes (8 * length m)"

definition digest_bytes :: "digest_state \<Rightarrow> u8 list" where
  "digest_bytes H = concat (map (\<lambda>w. be32_bytes (unat w)) (state_list H))"

definition fips_sha1 :: "u8 list \<Rightarrow> u8 list" where
  "fips_sha1 m = digest_bytes (hash_blocks (fips_pad m) fips_H0)"

lemma length_be32_bytes [simp]: "length (be32_bytes n) = 4"
  by (simp add: be32_bytes_def)

lemma hash_blocks_short: "length m < 64 \<Longrightarrow> hash_blocks m H = H"
  by (simp add: hash_blocks.simps)

lemma hash_blocks_block:
  "length b = 64 \<Longrightarrow> hash_blocks (b @ m) H = hash_blocks m (fips_compress b H)"
  by (subst hash_blocks.simps) simp

lemma hash_blocks_append:
  "64 dvd length m \<Longrightarrow> hash_blocks (m @ n) H = hash_blocks n (hash_blocks m H)"
proof (induction m H rule: hash_blocks.induct)
  case (1 m H)
  show ?case
  proof (cases "length m < 64")
    case True
    with "1.prems" have "m = []" by (auto dest: dvd_imp_le)
    then show ?thesis by (simp add: hash_blocks_short)
  next
    case False
    with "1.prems" have "64 dvd length (drop 64 m)" by (simp add: dvd_diff_nat)
    with False "1.IH" have "hash_blocks (drop 64 m @ n) (fips_compress (take 64 m) H) =
        hash_blocks n (hash_blocks (drop 64 m) (fips_compress (take 64 m) H))" by blast
    with False show ?thesis
      by (simp add: hash_blocks.simps [of m] hash_blocks.simps [of "m @ n"])
  qed
qed

lemma get_uint32_be_eq: "i + 3 < length m \<Longrightarrow> get_uint32_be m i = Some (be_word m i)"
  by (simp add: get_uint32_be_def be_word_def)

lemma load_block_eq: "64 \<le> length m \<Longrightarrow> load_block m = Some (block_words (take 64 m))"
proof -
  assume len: "64 \<le> length m"
  have "map (\<lambda>j. get_uint32_be m (4 * j)) [0..<16] = map Some (block_words (take 64 m))"
    unfolding block_words_def map_map
    by (rule map_cong [OF refl]) (use len in \<open>auto simp: get_uint32_be_eq be_word_def\<close>)
  moreover have "those (map Some xs) = Some xs" for xs :: "u32 list" by (induction xs) auto
  ultimately show ?thesis by (simp add: load_block_def)
qed

lemma length_block_words [simp]: "length (block_words m) = 16"
  by (simp add: block_words_def)

lemma process_fips:
  assumes "64 \<le> length data" "sha_state ctx = state_list H"
  shows "mbedtls_internal_sha1_process ctx data =
     Some (0, ctx\<lparr>sha_state := state_list (fips_compress (take 64 data) H)\<rparr>)"
proof -
  obtain a b c d e where H: "H = (a, b, c, d, e)" by (cases H)
  obtain r W where "all_rounds (load_regs a b c d e, block_words (take 64 data)) = (r, W)"
      "view 0 r = fips_rounds (block_words (take 64 data)) 80 (view 0 (load_regs a b c d e))"
    using all_rounds_fips [of "block_words (take 64 data)"] by fastforce
  moreover from this have "fips_rounds (block_words (take 64 data)) 80 H =
      (r RA, r RB, r RC, r RD, r RE)"
    by (simp add: view_def round_args_def load_regs_def H)
  ultimately show ?thesis
    using assms by (simp add: mbedtls_internal_sha1_process_def load_block_eq H fips_compress_def)
qed

section \<open>The streaming interface computes the standard's digest\<close>

text \<open>
  What a context means after the bytes \<open>m\<close>: the counters are the length, the state is the hash of
  the complete blocks, and the buffer begins with the bytes of the incomplete one.
\<close>

definition sha_inv :: "u8 list \<Rightarrow> sha1_context \<Rightarrow> bool" where
  "sha_inv m ctx \<longleftrightarrow>
     total0 ctx = of_nat (length m) \<and> total1 ctx = of_nat (length m div 2 ^ 32) \<and>
     length (sha_buffer ctx) = 64 \<and>
     (\<exists>whole part. m = whole @ part \<and> 64 dvd length whole \<and> length part < 64 \<and>
        sha_state ctx = state_list (hash_blocks whole fips_H0) \<and>
        take (length part) (sha_buffer ctx) = part)"

lemma starts_inv: "length (sha_buffer ctx) = 64 \<Longrightarrow> sha_inv [] (snd (mbedtls_sha1_starts_ret ctx))"
  by (simp add: sha_inv_def mbedtls_sha1_starts_ret_def hash_blocks_short fips_H0_def)

lemma update_blocks_eq:
  "sha_state ctx = state_list H \<Longrightarrow> ilen \<le> length input \<Longrightarrow>
   update_blocks ctx input ilen =
     Some (0, ctx\<lparr>sha_state := state_list (hash_blocks (take ilen input) H)\<rparr>,
           drop (64 * (ilen div 64)) input, ilen mod 64)"
proof (induction ctx input ilen arbitrary: H rule: update_blocks.induct)
  case (1 ctx input ilen)
  show ?case
  proof (cases "64 \<le> ilen")
    case True
    let ?H = "fips_compress (take 64 input) H"
    let ?ctx = "ctx\<lparr>sha_state := state_list ?H\<rparr>"
    have p: "mbedtls_internal_sha1_process ctx input = Some (0, ?ctx)"
      using "1.prems" True by (simp add: process_fips)
    have "update_blocks ?ctx (drop 64 input) (ilen - 64) =
       Some (0, ?ctx\<lparr>sha_state := state_list (hash_blocks (take (ilen - 64) (drop 64 input)) ?H)\<rparr>,
         drop (64 * ((ilen - 64) div 64)) (drop 64 input), (ilen - 64) mod 64)"
      using "1.IH" [OF True p refl, of ?H] "1.prems" by simp
    moreover have "take ilen input = take 64 input @ take (ilen - 64) (drop 64 input)"
      using True by (metis le_add_diff_inverse take_add)
    moreover have "64 * ((ilen - 64) div 64) + 64 = 64 * (ilen div 64)"
      using True by (simp add: le_div_geq)
    moreover have "(ilen - 64) mod 64 = ilen mod 64"
      using True by (simp add: le_mod_geq)
    ultimately show ?thesis
      using True "1.prems" by (subst update_blocks.simps) (simp add: p hash_blocks_block)
  next
    case False
    with "1.prems" show ?thesis
      by (subst update_blocks.simps) (simp add: hash_blocks_short)
  qed
qed

lemma and_63: "unat ((of_nat n :: u32) AND 0x3F) = n mod 64"
proof -
  have m: "(0x3F :: u32) = mask 6" by (simp add: mask_eq_exp_minus_1)
  have "unat ((of_nat n :: u32) AND 0x3F) = take_bit 6 (unat (of_nat n :: u32))"
    by (simp only: m take_bit_eq_mask [symmetric] unsigned_take_bit_eq)
  then show ?thesis
    by (simp add: unat_of_nat take_bit_eq_mod mod_mod_cancel)
qed

lemma carry_count:
  fixes L k :: nat
  assumes "k < B"
  shows "(L + k) mod B < k \<longleftrightarrow> (L + k) div B = Suc (L div B)"
    and "\<not> (L + k) mod B < k \<longleftrightarrow> (L + k) div B = L div B"
proof -
  define x q where "x = L mod B" and "q = L div B"
  have L: "L = B * q + x" and x: "x < B" using assms by (auto simp: x_def q_def)
  have m: "(L + k) mod B = (x + k) mod B" and d: "(L + k) div B = q + (x + k) div B"
    using assms by (simp_all add: L add.assoc)
  have "(L + k) mod B < k \<and> (L + k) div B = Suc q \<or> \<not> (L + k) mod B < k \<and> (L + k) div B = q"
  proof (cases "x + k < B")
    case False
    then have "(x + k) mod B = x + k - B" "(x + k) div B = 1"
      using x assms by (simp_all add: le_mod_geq le_div_geq)
    with False x assms show ?thesis unfolding m d by auto
  qed (auto simp: m d)
  then show "(L + k) mod B < k \<longleftrightarrow> (L + k) div B = Suc (L div B)"
    "\<not> (L + k) mod B < k \<longleftrightarrow> (L + k) div B = L div B"
    unfolding q_def [symmetric] by auto
qed

lemma update_total_eq:
  assumes "total0 ctx = of_nat L" "total1 ctx = of_nat (L div 2 ^ 32)" "ilen < 2 ^ 32"
  shows "update_total ctx ilen =
     ctx\<lparr>total0 := of_nat (L + ilen), total1 := of_nat ((L + ilen) div 2 ^ 32)\<rparr>"
proof -
  have "((of_nat (L + ilen) :: u32) < of_nat ilen) = ((L + ilen) mod 2 ^ 32 < ilen)"
    using assms(3) by (simp add: word_less_nat_alt unat_of_nat del: of_nat_add)
  then show ?thesis
    using assms carry_count [OF assms(3), of L]
    by (cases "(L + ilen) mod 2 ^ 32 < ilen")
      (simp_all add: update_total_def and_all_ones add.commute)
qed

lemma write_part:
  "take (length p) buf = p \<Longrightarrow> length p + length bs \<le> length buf \<Longrightarrow>
   \<exists>buf'. mem_write buf (length p) bs = Some buf' \<and> length buf' = length buf
     \<and> take (length p + length bs) buf' = p @ bs"
  by (simp add: min_def)


lemma update_rest_eq:
  assumes st: "sha_state ctx = state_list (hash_blocks whole fips_H0)" "64 dvd length whole"
    and buf: "take (length part) (sha_buffer ctx) = part" "length (sha_buffer ctx) = 64"
    and part: "part = [] \<or> length part + n < 64" "n \<le> length input"
  shows "\<exists>w p b. update_rest ctx input n (length part) =
       Some (0, ctx\<lparr>sha_state := state_list (hash_blocks w fips_H0), sha_buffer := b\<rparr>)
     \<and> whole @ part @ take n input = w @ p \<and> 64 dvd length w \<and> length p < 64
     \<and> length b = 64 \<and> take (length p) b = p"
proof -
  define w where "w = whole @ take (64 * (n div 64)) input"
  define p where "p = part @ take (n mod 64) (drop (64 * (n div 64)) input)"
  have n: "64 * (n div 64) + n mod 64 = n" by simp
  have le: "64 * (n div 64) \<le> length input" using part(2) n by linarith
  have "take n input = take (64 * (n div 64)) input @ take (n mod 64) (drop (64 * (n div 64)) input)"
    by (metis n take_add)
  moreover have "part = [] \<or> n div 64 = 0" using part by auto
  ultimately have wp: "whole @ part @ take n input = w @ p" by (auto simp: w_def p_def)
  have dw: "64 dvd length w" using st(2) le by (simp add: w_def min_def)
  have lp: "length part + n mod 64 < 64" using part by auto
  have le': "n mod 64 \<le> length input - 64 * (n div 64)" using part(2) n by linarith
  then have lenp: "length p = length part + n mod 64"
    by (simp add: p_def)
  have "hash_blocks (take n input) (hash_blocks whole fips_H0) = hash_blocks w fips_H0"
  proof -
    have "hash_blocks (take n input) (hash_blocks whole fips_H0) =
        hash_blocks (whole @ take n input) fips_H0"
      using st(2) by (simp add: hash_blocks_append)
    also have "\<dots> = hash_blocks (w @ take (n mod 64) (drop (64 * (n div 64)) input)) fips_H0"
      using \<open>take n input = _\<close> by (simp add: w_def)
    also have "\<dots> = hash_blocks w fips_H0"
      using dw by (simp add: hash_blocks_append hash_blocks_short)
    finally show ?thesis .
  qed
  then have ub: "update_blocks ctx input n =
      Some (0, ctx\<lparr>sha_state := state_list (hash_blocks w fips_H0)\<rparr>,
        drop (64 * (n div 64)) input, n mod 64)"
    using update_blocks_eq [OF st(1) part(2)] by simp
  show ?thesis
  proof (cases "n mod 64 = 0")
    case True
    then have "update_rest ctx input n (length part) =
        Some (0, ctx\<lparr>sha_state := state_list (hash_blocks w fips_H0), sha_buffer := sha_buffer ctx\<rparr>)"
      by (simp add: update_rest_def ub)
    moreover have "p = part" using True by (simp add: p_def)
    ultimately show ?thesis using wp dw lp lenp buf by metis
  next
    case False
    obtain b where "mem_write (sha_buffer ctx) (length part)
          (take (n mod 64) (drop (64 * (n div 64)) input)) = Some b"
        "length b = 64" "take (length part + n mod 64) b = p"
      using write_part [OF buf(1), of "take (n mod 64) (drop (64 * (n div 64)) input)"] lp buf(2) le'
      by (auto simp: p_def)
    moreover from this have "update_rest ctx input n (length part) =
        Some (0, ctx\<lparr>sha_state := state_list (hash_blocks w fips_H0), sha_buffer := b\<rparr>)"
      using False le' by (simp add: update_rest_def ub mem_bytes_def)
    ultimately show ?thesis using wp dw lp lenp by metis
  qed
qed

lemma update_inv:
  assumes inv: "sha_inv m ctx" and len: "ilen \<le> length input" "ilen < 2 ^ 32"
  shows "\<exists>ctx'. mbedtls_sha1_update_ret ctx input ilen = Some (0, ctx')
    \<and> sha_inv (m @ take ilen input) ctx'"
proof (cases "ilen = 0")
  case True
  with inv show ?thesis by (simp add: mbedtls_sha1_update_ret_def)
next
  case False
  from inv obtain whole part where m: "m = whole @ part" "64 dvd length whole" "length part < 64"
      and st: "sha_state ctx = state_list (hash_blocks whole fips_H0)"
      and buf: "take (length part) (sha_buffer ctx) = part" "length (sha_buffer ctx) = 64"
      and tot: "total0 ctx = of_nat (length m)" "total1 ctx = of_nat (length m div 2 ^ 32)"
    by (auto simp: sha_inv_def)
  have "length m mod 64 = length part" using m by (auto elim!: dvdE)
  then have left: "unat (total0 ctx AND 0x3F) = length part"
    by (simp only: tot and_63)
  define ctx1 where "ctx1 = update_total ctx ilen"
  have ctx1: "ctx1 = ctx\<lparr>total0 := of_nat (length m + ilen),
      total1 := of_nat ((length m + ilen) div 2 ^ 32)\<rparr>"
    unfolding ctx1_def using tot len(2) by (rule update_total_eq)
  have tot1: "sha_inv (m @ take ilen input)
      (ctx1\<lparr>sha_state := state_list (hash_blocks w fips_H0), sha_buffer := b\<rparr>)"
    if "m @ take ilen input = w @ p" "64 dvd length w" "length p < 64" "length b = 64"
      "take (length p) b = p" for w p b
  proof -
    have "length (m @ take ilen input) = length m + ilen" using len(1) by simp
    with that show ?thesis unfolding sha_inv_def
      by (intro conjI, simp_all only:) (auto simp: ctx1)
  qed
  show ?thesis
  proof (cases "part \<noteq> [] \<and> 64 - length part \<le> ilen")
    case True
    define fill where "fill = 64 - length part"
    have fill: "fill \<le> ilen" "0 < fill" "fill \<le> length input" "length part + fill = 64"
      using True m(3) len(1) by (simp_all add: fill_def)
    define b where "b = part @ take fill input"
    have lb: "length b = 64" using fill by (simp add: b_def)
    have wr: "mem_write (sha_buffer ctx1) (length part) (take fill input) = Some b"
      using buf fill by (simp add: ctx1 b_def)
    let ?w = "whole @ b"
    let ?c = "ctx1\<lparr>sha_buffer := b, sha_state := state_list (hash_blocks ?w fips_H0)\<rparr>"
    have proc: "mbedtls_internal_sha1_process (ctx1\<lparr>sha_buffer := b\<rparr>) b = Some (0, ?c)"
      using process_fips [of b "ctx1\<lparr>sha_buffer := b\<rparr>" "hash_blocks whole fips_H0"] lb st m(2)
        hash_blocks_block [OF lb, of "[]"]
      by (simp add: ctx1 hash_blocks_append hash_blocks_short)
    have "mbedtls_sha1_update_ret ctx input ilen =
        update_rest ?c (drop fill input) (ilen - fill) (length ([] :: u8 list))"
      using False True fill wr proc
      unfolding mbedtls_sha1_update_ret_def left ctx1_def [symmetric]
      by (simp add: Let_def fill_def [symmetric] mem_bytes_def)
    moreover have "\<exists>w p b'. update_rest ?c (drop fill input) (ilen - fill) (length ([] :: u8 list)) =
         Some (0, ?c\<lparr>sha_state := state_list (hash_blocks w fips_H0), sha_buffer := b'\<rparr>)
       \<and> ?w @ [] @ take (ilen - fill) (drop fill input) = w @ p \<and> 64 dvd length w \<and> length p < 64
       \<and> length b' = 64 \<and> take (length p) b' = p"
      by (rule update_rest_eq) (use m(2) lb len(1) in simp_all)
    then obtain w p b' where
        "update_rest ?c (drop fill input) (ilen - fill) (length ([] :: u8 list)) =
         Some (0, ?c\<lparr>sha_state := state_list (hash_blocks w fips_H0), sha_buffer := b'\<rparr>)"
        "?w @ [] @ take (ilen - fill) (drop fill input) = w @ p" "64 dvd length w" "length p < 64"
        "length b' = 64" "take (length p) b' = p"
      by blast
    moreover have "m @ take ilen input = ?w @ [] @ take (ilen - fill) (drop fill input)"
      using fill(1) take_add [of fill "ilen - fill" input] by (simp add: m(1) b_def)
    ultimately show ?thesis using tot1 [of w p b'] by simp
  next
    case F: False
    have "mbedtls_sha1_update_ret ctx input ilen = update_rest ctx1 input ilen (length part)"
      using False F unfolding mbedtls_sha1_update_ret_def left ctx1_def [symmetric]
      by (auto simp: Let_def)
    moreover have "\<exists>w p b'. update_rest ctx1 input ilen (length part) =
         Some (0, ctx1\<lparr>sha_state := state_list (hash_blocks w fips_H0), sha_buffer := b'\<rparr>)
       \<and> whole @ part @ take ilen input = w @ p \<and> 64 dvd length w \<and> length p < 64
       \<and> length b' = 64 \<and> take (length p) b' = p"
      by (rule update_rest_eq) (use st m(2,3) buf F len(1) in \<open>auto simp: ctx1\<close>)
    then obtain w p b' where "update_rest ctx1 input ilen (length part) =
         Some (0, ctx1\<lparr>sha_state := state_list (hash_blocks w fips_H0), sha_buffer := b'\<rparr>)"
        "whole @ part @ take ilen input = w @ p" "64 dvd length w" "length p < 64"
        "length b' = 64" "take (length p) b' = p"
      by blast
    ultimately show ?thesis using tot1 [of w p b'] m(1) by simp
  qed
qed

section \<open>The final blocks\<close>

lemma byte_of_word: "ucast (drop_bit k (of_nat n :: u32)) = (of_nat (n div 2 ^ k) :: u8)" if "k \<le> 24"
proof (rule bit_word_eqI)
  fix i assume i: "i < LENGTH(8)"
  have "n div 2 ^ k = drop_bit k n" by (simp add: drop_bit_eq_div)
  with i that show "bit (ucast (drop_bit k (of_nat n :: u32)) :: u8) i = bit (of_nat (n div 2 ^ k) :: u8) i"
    by (simp only: bit_ucast_iff bit_drop_bit_eq comp_def bit_of_nat_iff) (simp add: possible_bit_def)
qed

lemma put_uint32_be_nat:
  "put_uint32_be (of_nat n) b i = mem_write b i (be32_bytes n)"
  using byte_of_word [of 24 n] byte_of_word [of 16 n] byte_of_word [of 8 n] byte_of_word [of 0 n]
  by (simp add: put_uint32_be_def be32_bytes_def)

lemma put_uint32_be_bytes: "put_uint32_be w b i = mem_write b i (be32_bytes (unat w))"
  using put_uint32_be_nat [of "unat w" b i] by simp

text \<open>The two length words of \<open>finish\<close> are the length in bits, without overflow below 2^61 bytes.\<close>

lemma length_words:
  assumes "L < 2 ^ 61"
  shows "drop_bit 29 (of_nat L :: u32) OR push_bit 3 (of_nat (L div 2 ^ 32)) = of_nat (8 * L div 2 ^ 32)"
    and "push_bit 3 (of_nat L :: u32) = of_nat (8 * L)"
proof -
  show "push_bit 3 (of_nat L :: u32) = of_nat (8 * L)"
    by (simp add: push_bit_eq_mult)
  have "drop_bit 29 (of_nat L :: u32) AND push_bit 3 (of_nat (L div 2 ^ 32)) = 0"
    by (rule bit_word_eqI) (auto simp: bit_simps dest: bit_imp_le_length)
  then have "drop_bit 29 (of_nat L :: u32) OR push_bit 3 (of_nat (L div 2 ^ 32)) =
      drop_bit 29 (of_nat L) + push_bit 3 (of_nat (L div 2 ^ 32))"
    by (rule disjunctive_add_eq_or [symmetric])
  moreover have "drop_bit 29 (of_nat L :: u32) = of_nat (L mod 2 ^ 32 div 2 ^ 29)"
  proof -
    have "unat (drop_bit 29 (of_nat L :: u32)) = drop_bit 29 (unat (of_nat L :: u32))"
      by (simp only: unat_drop_bit_eq)
    also have "\<dots> = L mod 2 ^ 32 div 2 ^ 29"
      by (simp add: unat_of_nat drop_bit_eq_div take_bit_eq_mod)
    finally have "unat (drop_bit 29 (of_nat L :: u32)) = L mod 2 ^ 32 div 2 ^ 29" .
    then show ?thesis by (metis of_nat_unat ucast_id)
  qed
  moreover have "push_bit 3 (of_nat (L div 2 ^ 32) :: u32) = of_nat (8 * (L div 2 ^ 32))"
    by (simp add: push_bit_eq_mult)
  moreover have "of_nat (L mod 2 ^ 32 div 2 ^ 29) + of_nat (8 * (L div 2 ^ 32)) =
      (of_nat (L mod 2 ^ 32 div 2 ^ 29 + 8 * (L div 2 ^ 32)) :: u32)"
    by simp
  moreover have "L mod 2 ^ 32 div 2 ^ 29 + 8 * (L div 2 ^ 32) = 8 * L div 2 ^ 32"
  proof -
    define x q where "x = L mod 2 ^ 32" and "q = L div 2 ^ 32"
    have "8 * L = 2 ^ 32 * (8 * q) + 8 * x"
      unfolding x_def q_def using mult_div_mod_eq [of "2 ^ 32" L] by linarith
    then have "8 * L div 2 ^ 32 = 8 * q + 8 * x div 2 ^ 32" by simp
    moreover have "8 * x div 2 ^ 32 = x div 2 ^ 29" by (simp add: div_mult_mult1 [of 8 x "2 ^ 29", symmetric])
    ultimately show ?thesis unfolding x_def q_def by simp
  qed
  ultimately show "drop_bit 29 (of_nat L :: u32) OR push_bit 3 (of_nat (L div 2 ^ 32)) =
      of_nat (8 * L div 2 ^ 32)"
    by (simp only:)
qed

lemma finish_blocks:
  assumes "length part < 64" "length m mod 64 = length part"
  shows "fips_pad m = m @ 0x80 # replicate (if length part < 56 then 55 - length part
        else 119 - length part) 0
      @ be32_bytes (8 * length m div 2 ^ 32) @ be32_bytes (8 * length m)"
  using assms by (auto simp: fips_pad_def le_mod_geq)

lemma compress_last:
  assumes "64 dvd length whole" "length b = 64"
  shows "hash_blocks (whole @ b) H = fips_compress b (hash_blocks whole H)"
  using hash_blocks_block [OF assms(2), of "[]"] assms(1)
  by (simp add: hash_blocks_append hash_blocks_short)

text \<open>
  What the padding leaves behind: the state has absorbed whole blocks of the padded message, and
  the first 56 bytes of the buffer are the beginning of its last block.
\<close>

lemma finish_padding_eq:
  assumes inv: "sha_inv m ctx"
  shows "\<exists>w p b. finish_padding ctx =
       Some (0, ctx\<lparr>sha_state := state_list (hash_blocks w fips_H0), sha_buffer := b\<rparr>)
     \<and> 64 dvd length w \<and> length b = 64 \<and> length p = 56 \<and> take 56 b = p
     \<and> fips_pad m = w @ p @ be32_bytes (8 * length m div 2 ^ 32) @ be32_bytes (8 * length m)"
proof -
  from inv obtain whole part where m: "m = whole @ part" "64 dvd length whole" "length part < 64"
      and st: "sha_state ctx = state_list (hash_blocks whole fips_H0)"
      and buf: "take (length part) (sha_buffer ctx) = part" "length (sha_buffer ctx) = 64"
      and tot: "total0 ctx = of_nat (length m)"
    by (auto simp: sha_inv_def)
  have lm: "length m mod 64 = length part" using m by (auto elim!: dvdE)
  then have used: "unat (total0 ctx AND 0x3F) = length part" by (simp only: tot and_63)
  obtain b1 where b1: "mem_write (sha_buffer ctx) (length part) [0x80] = Some b1"
      "length b1 = 64" "take (length (part @ [0x80])) b1 = part @ [0x80]"
    using write_part [OF buf(1), of "[0x80]"] buf(2) m(3) by auto
  define z where "z = (if length part < 56 then 55 - length part else 63 - length part)"
  have "length (part @ [0x80]) + length (replicate z (0 :: u8)) \<le> length b1"
    using m(3) b1(2) by (simp add: z_def)
  from write_part [OF b1(3) this] obtain b2 where
      b2: "mem_write b1 (length part + 1) (replicate z 0) = Some b2" "length b2 = 64"
      "take (length part + 1 + z) b2 = part @ 0x80 # replicate z 0"
    using b1(2) by auto
  show ?thesis
  proof (cases "length part < 56")
    case True
    let ?p = "part @ 0x80 # replicate z 0"
    have "ctx\<lparr>sha_state := state_list (hash_blocks whole fips_H0)\<rparr> = ctx" using st by simp
    then have "finish_padding ctx =
        Some (0, ctx\<lparr>sha_state := state_list (hash_blocks whole fips_H0), sha_buffer := b2\<rparr>)"
      using True b2(1) by (simp add: finish_padding_def used b1 z_def Let_def)
    moreover have "length ?p = 56" "take 56 b2 = ?p" using True b2(3) by (simp_all add: z_def)
    moreover have "fips_pad m =
        whole @ ?p @ be32_bytes (8 * length m div 2 ^ 32) @ be32_bytes (8 * length m)"
      using finish_blocks [OF m(3) lm] True by (simp add: z_def m(1))
    ultimately show ?thesis using m(2) b2(2) by blast
  next
    case False
    let ?b = "part @ 0x80 # replicate z 0"
    have lb: "length ?b = 64" using m(3) False by (simp add: z_def)
    then have b2': "b2 = ?b" using b2(2,3) False m(3) by (simp add: z_def)
    let ?w = "whole @ ?b"
    have proc: "mbedtls_internal_sha1_process (ctx\<lparr>sha_buffer := b2\<rparr>) b2 =
        Some (0, ctx\<lparr>sha_buffer := b2, sha_state := state_list (hash_blocks ?w fips_H0)\<rparr>)"
      using process_fips [of b2 "ctx\<lparr>sha_buffer := b2\<rparr>" "hash_blocks whole fips_H0"] st b2(2)
        compress_last [OF m(2) lb] by (simp add: b2')
    define zs where "zs = replicate 56 (0 :: u8)"
    have lz: "length zs = 56" by (simp add: zs_def)
    define b3 where "b3 = zs @ drop 56 b2"
    have b3: "mem_write b2 0 zs = Some b3" "length b3 = 64" "take 56 b3 = zs"
      using b2(2) lz by (simp_all add: b3_def)
    have "finish_padding ctx =
        Some (0, ctx\<lparr>sha_state := state_list (hash_blocks ?w fips_H0), sha_buffer := b3\<rparr>)"
      using False b2(1) proc b3(1)
      by (simp add: finish_padding_def used b1 z_def Let_def zs_def [symmetric])
    moreover have "119 - length part = z + 56" using False m(3) by (simp add: z_def)
    then have "fips_pad m = ?w @ zs
        @ be32_bytes (8 * length m div 2 ^ 32) @ be32_bytes (8 * length m)"
      using finish_blocks [OF m(3) lm] False
      by (simp add: m(1) replicate_add zs_def [symmetric])
    moreover have "64 dvd length ?w" using m(2) lb by (simp only: length_append dvd_add_right_iff dvd_refl)
    ultimately show ?thesis using b3(2,3) lz
      by (intro exI [of _ ?w] exI [of _ zs] exI [of _ b3] conjI)
  qed
qed

lemma put_state_bytes:
  assumes "length out = 20"
  shows "put_state (state_list H) out = Some (digest_bytes H)"
  using assms by (cases H)
    (simp add: put_state_def put_uint32_be_bytes mem_write_def digest_bytes_def)

lemma finish_digest:
  assumes inv: "sha_inv m ctx" and "length out = 20" "length m < 2 ^ 61"
  shows "\<exists>ctx'. mbedtls_sha1_finish_ret ctx out = Some (0, ctx', fips_sha1 m) \<and>
    length (sha_buffer ctx') = 64"
proof -
  obtain w p b where fp: "finish_padding ctx =
       Some (0, ctx\<lparr>sha_state := state_list (hash_blocks w fips_H0), sha_buffer := b\<rparr>)"
     "64 dvd length w" "length b = 64" "length p = 56" "take 56 b = p"
     and pad: "fips_pad m = w @ p @ be32_bytes (8 * length m div 2 ^ 32) @ be32_bytes (8 * length m)"
    using finish_padding_eq [OF inv] by blast
  define hi lo where "hi = be32_bytes (8 * length m div 2 ^ 32)" and "lo = be32_bytes (8 * length m)"
  have l4: "length hi = 4" "length lo = 4" by (simp_all add: hi_def lo_def)
  have tot: "total0 ctx = of_nat (length m)" "total1 ctx = of_nat (length m div 2 ^ 32)"
    using inv by (simp_all add: sha_inv_def)
  have high: "put_uint32_be (drop_bit 29 (total0 ctx) OR push_bit 3 (total1 ctx)) b 56 =
      mem_write b 56 hi"
    unfolding tot length_words(1) [OF assms(3)] put_uint32_be_nat hi_def ..
  have low: "put_uint32_be (push_bit 3 (total0 ctx)) b' 60 = mem_write b' 60 lo" for b'
    unfolding tot length_words(2) [OF assms(3)] put_uint32_be_nat lo_def ..
  define b1 where "b1 = p @ hi @ drop 60 b"
  have w1: "mem_write b 56 hi = Some b1" using fp l4 by (simp add: b1_def)
  define b2 where "b2 = p @ hi @ lo"
  have w2: "mem_write b1 60 lo = Some b2" using fp l4 by (simp add: b1_def b2_def)
  have lb2: "length b2 = 64" using fp l4 by (simp add: b2_def)
  let ?c = "ctx\<lparr>sha_state := state_list (hash_blocks w fips_H0), sha_buffer := b2\<rparr>"
  have proc: "mbedtls_internal_sha1_process ?c b2 =
      Some (0, ?c\<lparr>sha_state := state_list (hash_blocks (fips_pad m) fips_H0)\<rparr>)"
    using process_fips [of b2 ?c "hash_blocks w fips_H0"] compress_last [OF fp(2) lb2] lb2
    by (simp add: pad b2_def hi_def lo_def)
  show ?thesis
    using fp(1) w1 w2 proc put_state_bytes [OF assms(2)]
    by (simp add: mbedtls_sha1_finish_ret_def high low Let_def fips_sha1_def lb2)
qed

section \<open>The self test\<close>

text \<open>
  The tables and loops of \<open>mbedtls_sha1_self_test\<close>; the messages that it prints are left out, and
  \<open>mbedtls_sha1_free\<close> at its end only clears the local context.
\<close>

definition sha1_test_buf :: "nat \<Rightarrow> u8 list" where
  "sha1_test_buf i = [ascii ''abc'' @ replicate 54 0,
     ascii ''abcdbcdecdefdefgefghfghighijhijkijkljklmklmnlmnomnopnopq'' @ [0], replicate 57 0] ! i"

definition sha1_test_buflen :: "nat \<Rightarrow> nat" where
  "sha1_test_buflen i = [3, 56, 1000] ! i"

definition sha1_test_sum :: "nat \<Rightarrow> u8 list" where
  "sha1_test_sum i =
    [[0xA9, 0x99, 0x3E, 0x36, 0x47, 0x06, 0x81, 0x6A, 0xBA, 0x3E,
      0x25, 0x71, 0x78, 0x50, 0xC2, 0x6C, 0x9C, 0xD0, 0xD8, 0x9D],
     [0x84, 0x98, 0x3E, 0x44, 0x1C, 0x3B, 0xD2, 0x6E, 0xBA, 0xAE,
      0x4A, 0xA1, 0xF9, 0x51, 0x29, 0xE5, 0xE5, 0x46, 0x70, 0xF1],
     [0x34, 0xAA, 0x97, 0x3C, 0xD4, 0xC4, 0xDA, 0xA4, 0xF6, 0x1E,
      0xEB, 0x2B, 0xDB, 0xAD, 0x27, 0x31, 0x65, 0x34, 0x01, 0x6F]] ! i"

text \<open>\<open>for (j = 0; j < n; j++)\<close> with the same buffer\<close>

fun repeat_update :: "nat \<Rightarrow> sha1_context \<Rightarrow> u8 list \<Rightarrow> nat \<Rightarrow> (i32 \<times> sha1_context) option" where
  "repeat_update 0 ctx buf buflen = Some (0, ctx)"
| "repeat_update (Suc n) ctx buf buflen = do {
     (ret, ctx) \<leftarrow> mbedtls_sha1_update_ret ctx buf buflen;
     if ret \<noteq> 0 then Some (ret, ctx) else repeat_update n ctx buf buflen
   }"

definition self_test_step :: "nat \<Rightarrow> sha1_context \<Rightarrow> (i32 \<times> sha1_context) option" where
  "self_test_step i ctx = do {
     let (ret, ctx) = mbedtls_sha1_starts_ret ctx;
     if ret \<noteq> 0 then Some (ret, ctx)
     else do {
       (ret, ctx) \<leftarrow>
         (if i = 2 then repeat_update 1000 ctx (replicate 1000 0x61 @ replicate 24 0) 1000
          else mbedtls_sha1_update_ret ctx (sha1_test_buf i) (sha1_test_buflen i));
       if ret \<noteq> 0 then Some (ret, ctx)
       else do {
         (ret, ctx, sha1sum) \<leftarrow> mbedtls_sha1_finish_ret ctx (replicate 20 0);
         if ret \<noteq> 0 then Some (ret, ctx)
         else if sha1sum \<noteq> sha1_test_sum i then Some (1, ctx)
         else Some (0, ctx)
       }
     }
   }"

fun self_test_loop :: "nat list \<Rightarrow> sha1_context \<Rightarrow> i32 option" where
  "self_test_loop [] ctx = Some 0"
| "self_test_loop (i # is) ctx = do {
     (ret, ctx) \<leftarrow> self_test_step i ctx;
     if ret \<noteq> 0 then Some ret else self_test_loop is ctx
   }"

definition mbedtls_sha1_self_test :: "i32 option" where
  "mbedtls_sha1_self_test = self_test_loop [0..<3] mbedtls_sha1_init"

section \<open>An incremental hash\<close>

text \<open>
  The contract of an incremental hash: a context represents the bytes it has absorbed, \<open>update\<close>
  appends to them, and \<open>finish\<close> gives the hash of all of them.
\<close>

locale incremental_hash =
  fixes represents :: "u8 list \<Rightarrow> 's \<Rightarrow> bool"
    and update :: "'s \<Rightarrow> u8 list \<Rightarrow> 's option"
    and finish :: "'s \<Rightarrow> u8 list option"
    and hash :: "u8 list \<Rightarrow> u8 list"
    and chunk_max :: nat
    and total_max :: nat
  assumes update_represents:
      "represents m s \<Longrightarrow> length c < chunk_max \<Longrightarrow>
         \<exists>s'. update s c = Some s' \<and> represents (m @ c) s'"
    and finish_hash: "represents m s \<Longrightarrow> length m < total_max \<Longrightarrow> finish s = Some (hash m)"
begin

fun feed :: "'s \<Rightarrow> u8 list list \<Rightarrow> 's option" where
  "feed s [] = Some s"
| "feed s (c # cs) = do { s \<leftarrow> update s c; feed s cs }"

lemma feed_represents:
  "represents m s \<Longrightarrow> list_all (\<lambda>c. length c < chunk_max) cs \<Longrightarrow>
     \<exists>s'. feed s cs = Some s' \<and> represents (m @ concat cs) s'"
proof (induction cs arbitrary: m s)
  case (Cons c cs)
  then obtain s1 where s1: "update s c = Some s1" "represents (m @ c) s1"
    using update_represents [of m s c] by auto
  with Cons.IH [OF s1(2)] Cons.prems(2) show ?case by auto
qed simp

lemma feed_finish:
  assumes "represents [] s" "list_all (\<lambda>c. length c < chunk_max) cs" "length (concat cs) < total_max"
  shows "Option.bind (feed s cs) finish = Some (hash (concat cs))"
  using feed_represents [OF assms(1,2)] finish_hash assms(3) by auto

end

text \<open>The model of the C functions is one.\<close>

fun sha1_chunks :: "sha1_context \<Rightarrow> u8 list list \<Rightarrow> sha1_context option" where
  "sha1_chunks ctx [] = Some ctx"
| "sha1_chunks ctx (c # cs) = do {
     ctx \<leftarrow> mbedtls_sha1_update ctx c (length c);
     sha1_chunks ctx cs
   }"

definition sha1_digest :: "sha1_context \<Rightarrow> u8 list option" where
  "sha1_digest ctx = map_option snd (mbedtls_sha1_finish ctx (replicate 20 0))"

interpretation sha1_hash: incremental_hash sha_inv
  "\<lambda>ctx c. mbedtls_sha1_update ctx c (length c)" sha1_digest fips_sha1 "2 ^ 32" "2 ^ 61"
proof unfold_locales
  fix m s and c :: "u8 list"
  assume "sha_inv m s" "length c < 2 ^ 32"
  then show "\<exists>s'. mbedtls_sha1_update s c (length c) = Some s' \<and> sha_inv (m @ c) s'"
    using update_inv [of m s "length c" c] by (auto simp: mbedtls_sha1_update_def)
next
  fix m s assume "sha_inv m s" "length m < 2 ^ 61"
  then show "sha1_digest s = Some (fips_sha1 m)"
    using finish_digest [of m s "replicate 20 0"]
    by (auto simp: sha1_digest_def mbedtls_sha1_finish_def)
qed

lemma sha1_chunks_feed: "sha1_chunks ctx cs = sha1_hash.feed ctx cs"
  by (induction cs arbitrary: ctx) auto

section \<open>Properties\<close>

definition sample_block :: "u8 list" where
  "sample_block = replicate 64 0x61"

text \<open>C36: The compression function with its sixteen-word ring, rotated registers and optimised
  logical functions adds to the state exactly what the eighty rounds of FIPS 180-4 compute for the
  block, on every state and every block.\<close>

theorem sha1_process_fips:
  assumes "64 \<le> length data" and "sha_state ctx = [a, b, c, d, e]"
  shows "mbedtls_internal_sha1_process ctx data =
     Some (0, ctx\<lparr>sha_state := state_list (fips_compress (take 64 data) (a, b, c, d, e))\<rparr>)"
  using assms process_fips [of data ctx "(a, b, c, d, e)"] by simp

theorem sha1_process_fips_witness:
  "mbedtls_internal_sha1_process (snd (mbedtls_sha1_starts_ret mbedtls_sha1_init)) sample_block =
     Some (0, (snd (mbedtls_sha1_starts_ret mbedtls_sha1_init))
       \<lparr>sha_state := state_list (fips_compress (take 64 sample_block) fips_H0)\<rparr>)"
  unfolding fips_H0_def
  by (rule sha1_process_fips) (simp_all add: sample_block_def mbedtls_sha1_starts_ret_def)

text \<open>C12: \<open>mbedtls_sha1_ret\<close> returns 0 and writes the SHA-1 digest that FIPS 180-4 defines for the
  first \<open>ilen\<close> bytes of the input, for every length below 4 GiB.\<close>

theorem sha1_is_fips:
  assumes "ilen \<le> length input" "ilen < 2 ^ 32" and "length out = 20"
  shows "mbedtls_sha1_ret input ilen out = Some (0, fips_sha1 (take ilen input))"
proof -
  obtain ctx where ctx: "mbedtls_sha1_update_ret (snd (mbedtls_sha1_starts_ret mbedtls_sha1_init)) input ilen =
      Some (0, ctx)" "sha_inv (take ilen input) ctx"
    using update_inv [OF starts_inv assms(1,2), of mbedtls_sha1_init]
    by (auto simp: mbedtls_sha1_init_def)
  have "length (take ilen input) < 2 ^ 61" using assms(1,2) by simp
  with finish_digest [OF ctx(2) assms(3)] ctx(1) show ?thesis
    by (auto simp: mbedtls_sha1_ret_def mbedtls_sha1_starts_ret_def)
qed

theorem sha1_is_fips_witness:
  "mbedtls_sha1_ret [0x61, 0x62, 0x63] 3 (replicate 20 0) = Some (0, fips_sha1 [0x61, 0x62, 0x63])"
  using sha1_is_fips [of 3 "[0x61, 0x62, 0x63]" "replicate 20 0"] by simp



lemma repeat_update_inv:
  "sha_inv m ctx \<Longrightarrow> k \<le> length buf \<Longrightarrow> k < 2 ^ 32 \<Longrightarrow>
     \<exists>ctx'. repeat_update n ctx buf k = Some (0, ctx') \<and>
       sha_inv (m @ concat (replicate n (take k buf))) ctx'"
proof (induction n arbitrary: m ctx)
  case (Suc n)
  obtain c1 where c1: "mbedtls_sha1_update_ret ctx buf k = Some (0, c1)" "sha_inv (m @ take k buf) c1"
    using update_inv [OF Suc.prems] by blast
  with Suc.IH [OF c1(2) Suc.prems(2,3)] show ?case by auto
qed simp

definition test_message :: "nat \<Rightarrow> u8 list" where
  "test_message i =
     (if i = 2 then concat (replicate 1000 (replicate 1000 0x61))
      else take (sha1_test_buflen i) (sha1_test_buf i))"

lemma self_test_step_eq:
  assumes "length (sha_buffer ctx) = 64" "i < 3"
  shows "\<exists>ctx'. self_test_step i ctx =
      Some (if fips_sha1 (test_message i) = sha1_test_sum i then 0 else 1, ctx')
    \<and> length (sha_buffer ctx') = 64"
proof -
  obtain c0 where c0: "mbedtls_sha1_starts_ret ctx = (0, c0)" and inv0: "sha_inv [] c0"
    using starts_inv [OF assms(1)] by (simp add: mbedtls_sha1_starts_ret_def)
  have "\<exists>ctx1. (if i = 2 then repeat_update 1000 c0 (replicate 1000 0x61 @ replicate 24 0) 1000
      else mbedtls_sha1_update_ret c0 (sha1_test_buf i) (sha1_test_buflen i)) = Some (0, ctx1)
      \<and> sha_inv (test_message i) ctx1 \<and> length (test_message i) < 2 ^ 61"
  proof (cases "i = 2")
    case True
    define buf where "buf = replicate 1000 (0x61 :: u8) @ replicate 24 0"
    define a1000 where "a1000 = replicate 1000 (0x61 :: u8)"
    have b: "1000 \<le> length buf" "take 1000 buf = a1000"
      by (simp_all only: buf_def a1000_def length_append length_replicate take_append take_replicate) simp_all
    have "length (concat (replicate n xs)) = n * length xs" for n and xs :: "u8 list"
      by (induction n) simp_all
    then have "length (test_message i) = 1000 * 1000"
      unfolding test_message_def True by (simp only: if_True length_replicate simp_thms)
    moreover have "test_message i = [] @ concat (replicate 1000 a1000)"
      unfolding test_message_def a1000_def if_P [OF True] append_Nil ..
    moreover obtain c1 where "repeat_update 1000 c0 buf 1000 = Some (0, c1)"
        "sha_inv ([] @ concat (replicate 1000 a1000)) c1"
      using repeat_update_inv [OF inv0 b(1), of 1000] unfolding b(2) by auto
    ultimately show ?thesis using True unfolding buf_def [symmetric] by auto
  next
    case False
    with assms(2) have i: "i = 0 \<or> i = 1" by auto
    have n: "sha1_test_buflen i \<le> length (sha1_test_buf i)" "sha1_test_buflen i < 2 ^ 32"
      using i by (auto simp: sha1_test_buflen_def sha1_test_buf_def)
    have "length (test_message i) < 2 ^ 61"
      using False n by (simp add: test_message_def)
    with False update_inv [OF inv0 n] show ?thesis by (auto simp: test_message_def)
  qed
  then obtain c1 where c1: "(if i = 2 then repeat_update 1000 c0 (replicate 1000 0x61 @ replicate 24 0) 1000
      else mbedtls_sha1_update_ret c0 (sha1_test_buf i) (sha1_test_buflen i)) = Some (0, c1)"
      "sha_inv (test_message i) c1" "length (test_message i) < 2 ^ 61"
    by blast
  obtain c2 where c2: "mbedtls_sha1_finish_ret c1 (replicate 20 0) = Some (0, c2, fips_sha1 (test_message i))"
      "length (sha_buffer c2) = 64"
    using finish_digest [OF c1(2) length_replicate c1(3)] by blast
  have "self_test_step i ctx =
      Some (if fips_sha1 (test_message i) = sha1_test_sum i then 0 else 1, c2)"
    unfolding self_test_step_def Let_def
    by (simp only: c0 case_prod_conv c1(1) c2(1) bind.bind_lunit simp_thms if_False if_True) simp
  with c2(2) show ?thesis by blast
qed

text \<open>The self test runs to its end without leaving its buffers and returns 0 exactly when the
  three published digests are the SHA-1 of the three test messages (the third is a million
  letters a, fed in a thousand pieces), and 1 otherwise.\<close>

theorem sha1_self_test_decides:
  "mbedtls_sha1_self_test =
     Some (if list_all (\<lambda>i. fips_sha1 (test_message i) = sha1_test_sum i) [0, 1, 2] then 0 else 1)"
proof -
  have loop: "self_test_loop is ctx =
      Some (if list_all (\<lambda>i. fips_sha1 (test_message i) = sha1_test_sum i) is then 0 else 1)"
    if "length (sha_buffer ctx) = 64" "list_all (\<lambda>i. i < 3) is" for "is" ctx
    using that
  proof (induction "is" arbitrary: ctx)
    case (Cons i "is")
    then obtain c' where c': "self_test_step i ctx =
        Some (if fips_sha1 (test_message i) = sha1_test_sum i then 0 else 1, c')"
        "length (sha_buffer c') = 64"
      using self_test_step_eq [of ctx i] by auto
    with Cons.IH [OF c'(2)] Cons.prems(2) show ?case by simp
  qed simp
  have "[0..<3] = [0, 1, 2 :: nat]" by code_simp
  then show ?thesis
    unfolding mbedtls_sha1_self_test_def
    using loop [of mbedtls_sha1_init "[0, 1, 2]"] by (simp add: mbedtls_sha1_init_def)
qed

text \<open>
  The length counter takes only the low 32 bits of a piece: 4 GiB fed in one call are not counted,
  so the digest of such a message would end in the wrong length.
\<close>

lemma update_total_4gib: "update_total ctx (2 ^ 32) = ctx"
proof -
  have "(of_nat (2 ^ 32) :: u32) = 0" by simp
  then show ?thesis
    unfolding update_total_def by (simp only: Let_def and_all_ones add_0_right word_not_simps if_False) simp
qed

end
