(* ===== verification/C_Text.thy ===== *)
theory C_Text
  imports Esp_Prelude
begin

text \<open>
  Numbers as text, as \<open>printf\<close> writes and \<open>scanf\<close> reads them in the protocols of the simulation:
  the socket layer, the transport and the flash exchange decimal and hexadecimal numbers.
\<close>

section \<open>Decimal numbers\<close>

text \<open>\<open>%d\<close> of \<open>printf\<close>\<close>

fun dec_nat :: "nat \<Rightarrow> u8 list" where
  "dec_nat n = (if n < 10 then [of_nat (48 + n)] else dec_nat (n div 10) @ [of_nat (48 + n mod 10)])"

declare dec_nat.simps [simp del]

definition dec_int :: "int \<Rightarrow> u8 list" where
  "dec_int n = (if n < 0 then 0x2D # dec_nat (nat (- n)) else dec_nat (nat n))"

definition is_digit :: "u8 \<Rightarrow> bool" where
  "is_digit b \<longleftrightarrow> 48 \<le> b \<and> b \<le> 57"

definition digit_val :: "u8 \<Rightarrow> int" where
  "digit_val b = uint b - 48"

text \<open>\<open>%d\<close> of \<open>scanf\<close>: blanks, an optional sign, digits.  A number outside \<open>int\<close> is undefined in
  C; here it keeps its value.\<close>

fun scan_digits :: "u8 list \<Rightarrow> int \<Rightarrow> int \<times> u8 list" where
  "scan_digits [] acc = (acc, [])"
| "scan_digits (b # bs) acc =
     (if is_digit b then scan_digits bs (acc * 10 + digit_val b) else (acc, b # bs))"

definition is_space :: "u8 \<Rightarrow> bool" where
  "is_space b \<longleftrightarrow> b = 32 \<or> 9 \<le> b \<and> b \<le> 13"

definition scan_int :: "u8 list \<Rightarrow> (int \<times> u8 list) option" where
  "scan_int s =
     (let s = dropWhile is_space s;
          (neg, s) = (case s of b # bs \<Rightarrow> if b = 0x2D then (True, bs)
                                      else if b = 0x2B then (False, bs) else (False, s)
                      | [] \<Rightarrow> (False, []))
      in case s of
           b # bs \<Rightarrow> if is_digit b then
                       (let (n, rest) = scan_digits s 0 in Some (if neg then - n else n, rest))
                     else None
         | [] \<Rightarrow> None)"

definition scan_char :: "u8 \<Rightarrow> u8 list \<Rightarrow> u8 list option" where
  "scan_char c s = (case s of b # bs \<Rightarrow> if b = c then Some bs else None | [] \<Rightarrow> None)"

section \<open>Hexadecimal numbers\<close>

text \<open>\<open>%0x\<close> of \<open>printf\<close>\<close>

definition hex_char :: "nat \<Rightarrow> u8" where
  "hex_char d = (if d < 10 then of_nat (48 + d) else of_nat (87 + d))"

fun hex_nat :: "nat \<Rightarrow> u8 list" where
  "hex_nat n = (if n < 16 then [hex_char n] else hex_nat (n div 16) @ [hex_char (n mod 16)])"

declare hex_nat.simps [simp del]

text \<open>\<open>%x\<close> of \<open>scanf\<close>: blanks, an optional sign, an optional \<open>0x\<close>, digits.\<close>

definition is_xdigit :: "u8 \<Rightarrow> bool" where
  "is_xdigit b \<longleftrightarrow> 48 \<le> b \<and> b \<le> 57 \<or> 65 \<le> b \<and> b \<le> 70 \<or> 97 \<le> b \<and> b \<le> 102"

definition xdigit_val :: "u8 \<Rightarrow> int" where
  "xdigit_val b = (if b \<le> 57 then uint b - 48 else if b \<le> 70 then uint b - 55 else uint b - 87)"

fun scan_xdigits :: "u8 list \<Rightarrow> int \<Rightarrow> int \<times> u8 list" where
  "scan_xdigits [] acc = (acc, [])"
| "scan_xdigits (b # bs) acc =
     (if is_xdigit b then scan_xdigits bs (acc * 16 + xdigit_val b) else (acc, b # bs))"

definition skip_0x :: "u8 list \<Rightarrow> u8 list" where
  "skip_0x s =
     (case s of z # x # b # bs \<Rightarrow>
        if z = 0x30 \<and> (x = 0x78 \<or> x = 0x58) \<and> is_xdigit b then b # bs else s
      | _ \<Rightarrow> s)"

definition scan_hex :: "u8 list \<Rightarrow> (int \<times> u8 list) option" where
  "scan_hex s =
     (let s = dropWhile is_space s;
          (neg, s) = (case s of b # bs \<Rightarrow> if b = 0x2D then (True, bs)
                                      else if b = 0x2B then (False, bs) else (False, s)
                      | [] \<Rightarrow> (False, []));
          s = skip_0x s
      in case s of
           b # bs \<Rightarrow> if is_xdigit b then
                       (let (n, rest) = scan_xdigits s 0 in Some (if neg then - n else n, rest))
                     else None
         | [] \<Rightarrow> None)"

section \<open>What is written is read back\<close>

lemma dec_nat_digits: "b \<in> set (dec_nat n) \<Longrightarrow> is_digit b"
proof (induction n rule: dec_nat.induct)
  case (1 n)
  have digit: "k < 10 \<Longrightarrow> is_digit (of_nat (48 + k))" for k
    by (simp add: is_digit_def word_le_nat_alt unat_of_nat del: of_nat_add)
  show ?case
  proof (cases "n < 10")
    case True
    with 1 digit [of n] show ?thesis by (simp add: dec_nat.simps del: of_nat_add)
  next
    case False
    with 1 digit [of "n mod 10"] show ?thesis
      by (subst (asm) (2) dec_nat.simps) (auto simp del: of_nat_add)
  qed
qed

lemma dec_nat_nonempty: "dec_nat n \<noteq> []"
  by (subst dec_nat.simps) simp

definition digits_value :: "int \<Rightarrow> u8 list \<Rightarrow> int" where
  "digits_value = foldl (\<lambda>acc b. acc * 10 + digit_val b)"

lemma digit_val_digit: "k < 10 \<Longrightarrow> digit_val (of_nat (48 + k)) = int k"
  by (simp add: digit_val_def uint_nat unat_of_nat del: of_nat_add)

lemma dec_nat_value: "digits_value 0 (dec_nat n) = int n"
proof (induction n rule: dec_nat.induct)
  case (1 n)
  show ?case
  proof (cases "n < 10")
    case True
    then show ?thesis
      by (simp add: dec_nat.simps digits_value_def digit_val_digit del: of_nat_add)
  next
    case False
    have "digits_value 0 (dec_nat (n div 10) @ [of_nat (48 + n mod 10)]) = int (n div 10) * 10 + int (n mod 10)"
      using 1 False digit_val_digit [of "n mod 10"] by (simp add: digits_value_def del: of_nat_add)
    moreover have "int (n div 10) * 10 + int (n mod 10) = int n"
      using div_mult_mod_eq [of n 10] by (metis of_nat_add of_nat_mult of_nat_numeral)
    ultimately show ?thesis using False by (subst dec_nat.simps) (simp del: of_nat_add)
  qed
qed

lemma dec_int_pos: "0 \<le> n \<Longrightarrow> dec_int n = dec_nat (nat n)"
  by (simp add: dec_int_def)

lemma scan_digits_append:
  "\<forall>b \<in> set ds. is_digit b \<Longrightarrow> (case rest of [] \<Rightarrow> True | b # _ \<Rightarrow> \<not> is_digit b) \<Longrightarrow>
     scan_digits (ds @ rest) acc = (digits_value acc ds, rest)"
proof (induction ds arbitrary: acc)
  case Nil
  then show ?case by (cases rest) (simp_all add: digits_value_def)
qed (simp add: digits_value_def)

lemma digit_no_space: "is_digit b \<Longrightarrow> \<not> is_space b \<and> b \<noteq> 0x2D \<and> b \<noteq> 0x2B"
  by (auto simp: is_digit_def is_space_def word_le_nat_alt word_unat_eq_iff)

lemma scan_int_dec_nat:
  assumes "case rest of [] \<Rightarrow> True | b # _ \<Rightarrow> \<not> is_digit b"
  shows "scan_int (dec_nat n @ rest) = Some (int n, rest)"
proof -
  obtain d ds where ds: "dec_nat n = d # ds" using dec_nat_nonempty by (cases "dec_nat n") auto
  have "is_digit d" using dec_nat_digits [of d n] ds by simp
  moreover have "scan_digits (d # ds @ rest) 0 = (int n, rest)"
    using scan_digits_append [OF _ assms, of "d # ds" 0] dec_nat_digits [of _ n] dec_nat_value [of n] ds
    by simp
  ultimately show ?thesis
    using digit_no_space [of d] by (simp add: scan_int_def ds Let_def del: scan_digits.simps)
qed

lemma scan_xdigits_append:
  "\<forall>b \<in> set ds. is_xdigit b \<Longrightarrow> (case rest of [] \<Rightarrow> True | b # _ \<Rightarrow> \<not> is_xdigit b) \<Longrightarrow>
     scan_xdigits (ds @ rest) acc = (foldl (\<lambda>acc b. acc * 16 + xdigit_val b) acc ds, rest)"
proof (induction ds arbitrary: acc)
  case Nil
  then show ?case by (cases rest) simp_all
qed simp

lemma hex_char_digit: "d < 16 \<Longrightarrow> is_xdigit (hex_char d) \<and> xdigit_val (hex_char d) = int d"
proof -
  assume d: "d < 16"
  have u: "k < 256 \<Longrightarrow> unat (of_nat k :: u8) = k" for k by (simp add: unat_of_nat)
  show ?thesis
  proof (cases "d < 10")
    case True
    then have "unat (hex_char d) = 48 + d" using u [of "48 + d"] by (simp add: hex_char_def del: of_nat_add)
    then show ?thesis using True by (simp add: is_xdigit_def xdigit_val_def word_le_nat_alt uint_nat)
  next
    case False
    then have "unat (hex_char d) = 87 + d" using u [of "87 + d"] d by (simp add: hex_char_def del: of_nat_add)
    then show ?thesis using False d by (simp add: is_xdigit_def xdigit_val_def word_le_nat_alt uint_nat)
  qed
qed

lemma hex_nat_digits: "b \<in> set (hex_nat n) \<Longrightarrow> is_xdigit b"
proof (induction n rule: hex_nat.induct)
  case (1 n)
  then show ?case
    using hex_char_digit [of n] hex_char_digit [of "n mod 16"]
    by (subst (asm) (2) hex_nat.simps) (auto split: if_splits)
qed

lemma hex_nat_nonempty: "hex_nat n \<noteq> []"
  by (subst hex_nat.simps) simp

lemma hex_nat_value: "foldl (\<lambda>acc b. acc * 16 + xdigit_val b) 0 (hex_nat n) = int n"
proof (induction n rule: hex_nat.induct)
  case (1 n)
  show ?case
  proof (cases "n < 16")
    case True
    then show ?thesis using hex_char_digit [of n] by (simp add: hex_nat.simps)
  next
    case False
    have "int (n div 16) * 16 + int (n mod 16) = int n"
      using div_mult_mod_eq [of n 16] by (metis of_nat_add of_nat_mult of_nat_numeral)
    then show ?thesis using 1 False hex_char_digit [of "n mod 16"] by (subst hex_nat.simps) simp
  qed
qed

lemma xdigit_no_space: "is_xdigit b \<Longrightarrow> \<not> is_space b \<and> b \<noteq> 0x2D \<and> b \<noteq> 0x2B \<and> b \<noteq> 0x78 \<and> b \<noteq> 0x58"
  by (auto simp: is_xdigit_def is_space_def word_le_nat_alt word_unat_eq_iff)

lemma scan_hex_hex_nat:
  assumes "case rest of [] \<Rightarrow> True | b # _ \<Rightarrow> is_space b"
  shows "scan_hex (hex_nat n @ rest) = Some (int n, rest)"
proof -
  obtain d ds where ds: "hex_nat n = d # ds" using hex_nat_nonempty by (cases "hex_nat n") auto
  have dig: "is_xdigit d" "\<forall>b \<in> set ds. is_xdigit b" using hex_nat_digits [of _ n] ds by auto
  have rest: "case rest of [] \<Rightarrow> True | b # _ \<Rightarrow> \<not> is_xdigit b"
    using assms xdigit_no_space by (auto split: list.splits)
  have "skip_0x (d # ds @ rest) = d # ds @ rest"
  proof (cases "ds @ rest")
    case (Cons x xs)
    have "x \<noteq> 0x78 \<and> x \<noteq> 0x58"
    proof (cases ds)
      case Nil
      then show ?thesis using Cons assms by (auto simp: is_space_def word_le_nat_alt word_unat_eq_iff)
    next
      case (Cons y ys)
      then show ?thesis using \<open>ds @ rest = x # xs\<close> dig(2) xdigit_no_space by auto
    qed
    then show ?thesis by (simp add: Cons skip_0x_def split: list.split)
  qed (simp add: skip_0x_def)
  moreover have "scan_xdigits (d # ds @ rest) 0 = (int n, rest)"
    using scan_xdigits_append [OF _ rest, of "d # ds" 0] dig hex_nat_value [of n] ds by simp
  ultimately show ?thesis
    using dig(1) xdigit_no_space [of d] by (simp add: scan_hex_def ds Let_def del: scan_xdigits.simps)
qed

end
