(* ===== verification/Sockets.thy ===== *)
theory Sockets
  imports C_Text
begin

text \<open>
  The simulated socket layer, \<open>lwip/sockets.cpp\<close>.  Firmware calls BSD-like functions
  (\<open>espm_socket\<close>, \<open>espm_connect\<close>, \<open>espm_write\<close>, ...); below them all sockets share one serial
  line to the test bench, \<open>WiFiSerial\<close>, on which \<open>__espm_sendmsg\<close> frames the bytes and from which
  the thread \<open>fillbuffers\<close> distributes what arrives to the buffers of the descriptors.

  The globals of the file are the record \<open>net\<close>: the vector \<open>_fdlist\<close>, \<open>_controlfd\<close>,
  \<open>_controlport\<close>, \<open>_portclosed\<close>, the static \<open>lastport\<close>, \<open>errno\<close>, and the outgoing side of
  the serial line as the bytes written so far with the free room of its FIFO.  A blocking write to
  a full FIFO returns once the other side has taken a byte, so it leaves no room.

  \<open>None\<close> is undefined behaviour (an index outside the vector, a null dereference) or a thread
  that stays blocked.  A thread that waits for \<open>__fifowrite_ev\<close> gives the other threads their
  turn; what they did is given to the function as a list of wake-ups, each with the time and the
  state it finds.

  Three things of the platform are parameters: whether \<open>char\<close> is signed, the text of an
  \<open>IPAddress\<close> (a class of the Arduino core, not part of the repository), and the MAC address and
  IP address of the access point that \<open>espm_accept\<close> sends.  The numeric constants are those of
  the Linux headers that the file includes.
\<close>

section \<open>State\<close>

datatype errno_t = E_NONE | EBADF | EINVAL | EAFNOSUPPORT | EPROTONOSUPPORT | EFAULT | EPROTOTYPE
  | EISCONN | ECONNREFUSED | EOPNOTSUPP | EWOULDBLOCK | EPROTO | ECONNABORTED | ENOTTY
  | EDESTADDRREQ | ENOTCONN | EAGAIN | EMSGSIZE | ETIMEDOUT | EMFILE | ENOMEM | E_MINUS_ONE

record fd_t =
  fdn :: int
  fd_ip :: u32
  fd_port :: int
  fd_owner :: int
  tmout :: nat
  fd_flags :: i32
  fd_type :: int
  connected :: bool
  bound :: bool
  closed :: bool
  maxconnect :: int
  connections :: int
  tcpnodelay :: i32
  keepalive :: i32
  buffer :: "u8 list"

definition SOCK_STREAM :: int where "SOCK_STREAM = 1"
definition SOCK_DGRAM :: int where "SOCK_DGRAM = 2"
definition SOCK_SEQPACKET :: int where "SOCK_SEQPACKET = 5"
definition AF_INET :: int where "AF_INET = 2"
definition SOL_SOCKET :: int where "SOL_SOCKET = 1"
definition SO_REUSEADDR :: int where "SO_REUSEADDR = 2"
definition SO_KEEPALIVE :: int where "SO_KEEPALIVE = 9"
definition SO_RCVTIMEO :: int where "SO_RCVTIMEO = 20"
definition SO_SNDTIMEO :: int where "SO_SNDTIMEO = 21"
definition IPPROTO_TCP :: int where "IPPROTO_TCP = 6"
definition TCP_NODELAY :: int where "TCP_NODELAY = 1"
definition FIONREAD :: int where "FIONREAD = 0x541B"
definition F_GETFL :: int where "F_GETFL = 3"
definition F_SETFL :: int where "F_SETFL = 4"
definition O_NONBLOCK :: i32 where "O_NONBLOCK = 0x800"
definition MSG_DONTWAIT :: i32 where "MSG_DONTWAIT = 0x40"
definition MSG_WAITALL :: i32 where "MSG_WAITALL = 0x100"
definition FD_SETSIZE :: int where "FD_SETSIZE = 1024"
definition EINVAL_code :: int where "EINVAL_code = 22"
definition INT32_MAX :: int where "INT32_MAX = 2147483647"

text \<open>The four constructors of \<open>fd_t\<close>\<close>

definition fd_new_ip_port_owner :: "u32 \<Rightarrow> int \<Rightarrow> int \<Rightarrow> fd_t" where
  "fd_new_ip_port_owner ip port owner =
     \<lparr>fdn = 0, fd_ip = ip, fd_port = port, fd_owner = owner, tmout = 0, fd_flags = 0,
      fd_type = SOCK_STREAM, connected = False, bound = False, closed = False, maxconnect = -1,
      connections = 0, tcpnodelay = 0, keepalive = 0, buffer = []\<rparr>"

definition fd_new_ip_port :: "u32 \<Rightarrow> int \<Rightarrow> fd_t" where
  "fd_new_ip_port ip port =
     \<lparr>fdn = 0, fd_ip = ip, fd_port = port, fd_owner = -1, tmout = 0, fd_flags = 0,
      fd_type = SOCK_STREAM, connected = False, bound = False, closed = False, maxconnect = -1,
      connections = 0, tcpnodelay = 0, keepalive = 0, buffer = []\<rparr>"

definition fd_new :: fd_t where
  "fd_new =
     \<lparr>fdn = 0, fd_ip = 0, fd_port = -1, fd_owner = -1, tmout = 0, fd_flags = 0,
      fd_type = SOCK_STREAM, connected = False, bound = False, closed = False, maxconnect = -1,
      connections = 0, tcpnodelay = 0, keepalive = 0, buffer = []\<rparr>"

definition fd_new_owner :: "int \<Rightarrow> fd_t" where
  "fd_new_owner owner =
     \<lparr>fdn = 0, fd_ip = 0, fd_port = -1, fd_owner = owner, tmout = 0, fd_flags = 0,
      fd_type = SOCK_STREAM, connected = False, bound = False, closed = False, maxconnect = -1,
      connections = 0, tcpnodelay = 0, keepalive = 0, buffer = []\<rparr>"

definition islistening :: "fd_t \<Rightarrow> bool" where
  "islistening f \<longleftrightarrow>
     (fd_type f = SOCK_STREAM \<or> fd_type f = SOCK_SEQPACKET) \<and> bound f \<and> 0 \<le> maxconnect f"

record net =
  fdlist :: "fd_t list"
  controlfd :: int
  controlport :: int
  portclosed :: bool
  lastport :: int
  errno :: errno_t
  serial_out :: "u8 list"
  room :: nat

definition set_errno :: "errno_t \<Rightarrow> net \<Rightarrow> net" where
  "set_errno e st = st\<lparr>errno := e\<rparr>"

text \<open>An update of \<open>_fdlist[i]\<close>; the index is an \<open>int\<close> that the callers have checked to be found.\<close>

definition upd_fd :: "nat \<Rightarrow> (fd_t \<Rightarrow> fd_t) \<Rightarrow> net \<Rightarrow> net" where
  "upd_fd i f st = st\<lparr>fdlist := (fdlist st)[i := f (fdlist st ! i)]\<rparr>"

definition push_bytes :: "u8 list \<Rightarrow> fd_t \<Rightarrow> fd_t" where
  "push_bytes bs f = f\<lparr>buffer := buffer f @ bs\<rparr>"

section \<open>The descriptor table\<close>

text \<open>\<open>espm_getind\<close>: the index of a descriptor, or -1 (\<open>None\<close> here).\<close>

fun find_fd :: "int \<Rightarrow> fd_t list \<Rightarrow> nat \<Rightarrow> nat option" where
  "find_fd fd [] it = None"
| "find_fd fd (f # fs) it = (if fd = fdn f then Some it else find_fd fd fs (it + 1))"

definition espm_getind :: "net \<Rightarrow> int \<Rightarrow> nat option" where
  "espm_getind st fd = (if fd < 0 then None else find_fd fd (fdlist st) 0)"

definition isopen :: "net \<Rightarrow> int \<Rightarrow> bool" where
  "isopen st fd =
     (if fd < 0 then False
      else if fd = 0 then True
      else case espm_getind st fd of None \<Rightarrow> False | Some ind \<Rightarrow> connected (fdlist st ! ind))"

definition alloc :: "int \<Rightarrow> net \<Rightarrow> int \<times> net" where
  "alloc owner st =
     (if fdlist st = [] then
        (1, st\<lparr>fdlist := [(fd_new_owner owner)\<lparr>fdn := 1\<rparr>]\<rparr>)
      else
        let newfdn = fdn (last (fdlist st)) in
        if newfdn = INT32_MAX then (-1, set_errno EMFILE st)
        else (newfdn + 1, st\<lparr>fdlist := fdlist st @ [(fd_new_owner owner)\<lparr>fdn := newfdn + 1\<rparr>]\<rparr>))"

fun find_notlisten :: "int \<Rightarrow> fd_t list \<Rightarrow> nat \<Rightarrow> nat option" where
  "find_notlisten port [] it = None"
| "find_notlisten port (f # fs) it =
     (if \<not> islistening f \<and> fd_port f = port then Some it else find_notlisten port fs (it + 1))"

definition getnotlisten :: "net \<Rightarrow> int \<Rightarrow> nat option" where
  "getnotlisten st port = (if port < 0 then None else find_notlisten port (fdlist st) 0)"

section \<open>Text of addresses\<close>

text \<open>\<open>5 == sscanf(s, "%d.%d.%d.%d:%d", ...)\<close>: the five numbers, or nothing.\<close>

definition scan_address :: "u8 list \<Rightarrow> (int \<times> int \<times> int \<times> int \<times> int) option" where
  "scan_address s = do {
     (a1, s) \<leftarrow> scan_int s; s \<leftarrow> scan_char 0x2E s;
     (a2, s) \<leftarrow> scan_int s; s \<leftarrow> scan_char 0x2E s;
     (a3, s) \<leftarrow> scan_int s; s \<leftarrow> scan_char 0x2E s;
     (a4, s) \<leftarrow> scan_int s; s \<leftarrow> scan_char 0x3A s;
     (port, s) \<leftarrow> scan_int s;
     Some (a1, a2, a3, a4, port)
   }"

section \<open>Sending on the serial line\<close>

datatype escstyle = ESCAPENONE | ESCAPEALL | ESCAPEFROMCOLON

text \<open>The comparison of a \<open>char\<close> with \<open>0xff\<close>: a signed \<open>char\<close> is sign-extended first.\<close>

definition char_is_ff :: "bool \<Rightarrow> u8 \<Rightarrow> bool" where
  "char_is_ff char_signed b = ((if char_signed then sint b else uint b) = 0xff)"

definition serial_write :: "u8 \<Rightarrow> net \<Rightarrow> net" where
  "serial_write b st = st\<lparr>serial_out := serial_out st @ [b], room := room st - 1\<rparr>"

text \<open>The port prefix, and the port remembered for the next message\<close>

definition port_prefix :: "int \<Rightarrow> net \<Rightarrow> u8 list \<times> net" where
  "port_prefix port st =
     (if 0 \<le> port \<and> lastport st \<noteq> port then (0xff # dec_int port @ [0x3A], st\<lparr>lastport := port\<rparr>)
      else if 0 \<le> port \<and> lastport st = port then ([], st)
      else ([], st\<lparr>lastport := -1\<rparr>))"

text \<open>Whether the message does not fit: \<open>msg[0]\<close> and \<open>msg[1]\<close> are read only when needed.\<close>

definition no_room :: "bool \<Rightarrow> nat \<Rightarrow> u8 list \<Rightarrow> net \<Rightarrow> bool option" where
  "no_room char_signed len msg st = do {
     first \<leftarrow> (if room st < len + 1 then do {
                  b0 \<leftarrow> mem_read msg 0; Some (\<not> char_is_ff char_signed b0)
                } else Some False);
     if first then Some True
     else if room st < len + 2 then do {
       b0 \<leftarrow> mem_read msg 0;
       if char_is_ff char_signed b0 then do {
         b1 \<leftarrow> mem_read msg 1; Some (char_is_ff char_signed b1)
       } else Some False
     } else Some False
   }"

function send_loop ::
  "bool \<Rightarrow> u8 list \<Rightarrow> int \<Rightarrow> escstyle \<Rightarrow> bool \<Rightarrow> bool \<Rightarrow> nat \<Rightarrow> net \<Rightarrow> (nat \<times> net) option" where
  "send_loop char_signed msg sz style wait escape p st =
     (if 0 < sz \<and> int p < sz \<or> sz < 0 then
        (if length msg \<le> p then None
         else let b = msg ! p in
           if sz < 0 \<and> b = 0 then Some (p, st)
           else
             let escape = (escape \<or> style = ESCAPEFROMCOLON \<and> b = 0x3A) in
             if \<not> wait \<and> (room st = 0 \<or> char_is_ff char_signed b \<and> room st = 1 \<and> escape)
             then Some (p, st)
             else
               let st = serial_write b st;
                   st = (if escape \<and> char_is_ff char_signed b then serial_write b st else st)
               in send_loop char_signed msg sz style wait escape (p + 1) st)
      else Some (p, st))"
  by pat_completeness auto

termination
  by (relation "measure (\<lambda>(_, msg, _, _, _, _, p, _). length msg - p)") auto

declare send_loop.simps [simp del]

definition espm_sendmsg ::
  "bool \<Rightarrow> int \<Rightarrow> u8 list \<Rightarrow> int \<Rightarrow> escstyle \<Rightarrow> bool \<Rightarrow> net \<Rightarrow> (int \<times> net) option" where
  "espm_sendmsg char_signed port msg sz style wait st = do {
     let (portstr, st) = port_prefix port st;
     let escape = (style = ESCAPEALL);
     full \<leftarrow> no_room char_signed (length portstr) msg st;
     if full then Some (0, st)
     else do {
       let st = fold serial_write portstr st;
       (p, st) \<leftarrow> send_loop char_signed msg sz style wait escape 0 st;
       Some (int p, st)
     }
   }"

section \<open>Receiving from the serial line\<close>

text \<open>
  The thread \<open>fillbuffers\<close> reads one byte at a time with the blocking \<open>bl_read\<close>, so between two
  bytes any other thread may run.  A \<open>fill_mode\<close> says where in its loop it waits for the next
  byte: at the top (\<open>Token\<close>), after 0xff (\<open>Escape\<close>), in the digits of a port, discarding a line,
  copying an answer to a descriptor, copying a command to the control descriptor, or in the loop
  of \<open>takerequest\<close> with its \<open>rec\<close>, \<open>firstcolon\<close> and \<open>msg\<close>.  Its locals \<open>ind\<close> and \<open>port\<close> stay.
\<close>

datatype fill_mode = Token | Escape | PortDigits | FlushLine | ReplyLine | ControlLine
  | Request bool u8 bool "u8 list"

record fill =
  fnet :: net
  fill_ind :: int
  fport :: int
  fmode :: fill_mode

text \<open>\<open>_fdlist[i].buffer.push_back\<close> with the \<open>int\<close> index of the thread\<close>

definition push_at :: "int \<Rightarrow> u8 list \<Rightarrow> net \<Rightarrow> net option" where
  "push_at i bs st =
     (if 0 \<le> i \<and> nat i < length (fdlist st) then Some (upd_fd (nat i) (push_bytes bs) st) else None)"

definition ind_of :: "nat option \<Rightarrow> int" where
  "ind_of i = (case i of None \<Rightarrow> -1 | Some n \<Rightarrow> int n)"

definition fill_data :: "u8 \<Rightarrow> fill \<Rightarrow> fill option" where
  "fill_data token f = do {
     let f = (if portclosed (fnet f)
              then f\<lparr>fill_ind := ind_of (getnotlisten (fnet f) (fport f)),
                     fnet := (fnet f)\<lparr>portclosed := False\<rparr>\<rparr>
              else f);
     if 0 \<le> fill_ind f then do {
       st \<leftarrow> push_at (fill_ind f) [token] (fnet f);
       Some (f\<lparr>fnet := st, fmode := Token\<rparr>)
     } else Some (f\<lparr>fmode := Token\<rparr>)
   }"

text \<open>The index of the descriptor that takes a connect or send request\<close>

definition request_target :: "bool \<Rightarrow> int \<Rightarrow> fd_t \<Rightarrow> bool" where
  "request_target connect port f \<longleftrightarrow> islistening f \<and> fd_port f = port \<and>
     (connect \<and> fd_type f = SOCK_STREAM \<or> \<not> connect \<and> fd_type f \<noteq> SOCK_STREAM)"

fun find_target :: "bool \<Rightarrow> int \<Rightarrow> fd_t list \<Rightarrow> nat \<Rightarrow> nat" where
  "find_target connect port [] it = it"
| "find_target connect port (f # fs) it =
     (if request_target connect port f then it else find_target connect port fs (it + 1))"

text \<open>
  The end of \<open>takerequest\<close>, with the collected text.  A connect request passes \<open>NULL\<close> for \<open>ind\<close>,
  so a text that does not parse dereferences it.
\<close>

definition takerequest :: "bool \<Rightarrow> bool \<Rightarrow> u8 list \<Rightarrow> fill \<Rightarrow> fill option" where
  "takerequest char_signed connect msg f =
     (case scan_address msg of
        None \<Rightarrow> if connect then None else Some (f\<lparr>fill_ind := -1\<rparr>)
      | Some (a1, a2, a3, a4, port) \<Rightarrow>
          let st = fnet f; it = find_target connect port (fdlist st) 0 in
          if it < length (fdlist st) \<and> fd_type (fdlist st ! it) \<noteq> SOCK_STREAM then
            (if connect then None else Some (f\<lparr>fill_ind := int it\<rparr>))
          else if \<not> connect \<and> it = length (fdlist st) then Some f
          else if connect \<and> (it = length (fdlist st)
                  \<or> connections (fdlist st ! it) = maxconnect (fdlist st ! it)) then do {
            let msg = take 9 (0xff # dec_int port @ [0x6E]) @ msg;
            (resp, st) \<leftarrow> espm_sendmsg char_signed (controlport st) (msg @ [0]) (-1) ESCAPENONE True st;
            Some (f\<lparr>fnet := st\<rparr>)
          } else
            Some (f\<lparr>fnet := upd_fd it (\<lambda>d. (push_bytes (0xff # 0x63 # 0x20 # msg) d)
              \<lparr>connections := connections d + 1\<rparr>) st\<rparr>))"

definition fill_byte :: "bool \<Rightarrow> u8 \<Rightarrow> fill \<Rightarrow> fill option" where
  "fill_byte char_signed b f =
     (case fmode f of
        Token \<Rightarrow> if b = 0xff then Some (f\<lparr>fmode := Escape\<rparr>) else fill_data b f
      | Escape \<Rightarrow>
          if b = 0xff then fill_data b f
          else if is_digit b then Some (f\<lparr>fport := digit_val b, fmode := PortDigits\<rparr>)
          else if b = 0x63 then Some (f\<lparr>fmode := Request True 0 False []\<rparr>)
          else if b = 0x73 then Some (f\<lparr>fmode := Request False 0 False []\<rparr>)
          else do {
            st \<leftarrow> push_at 0 [0xff, b] (fnet f);
            Some (f\<lparr>fnet := st, fmode := ControlLine\<rparr>)
          }
      | PortDigits \<Rightarrow>
          if is_digit b then Some (f\<lparr>fport := fport f * 10 + digit_val b\<rparr>)
          else
            let f = f\<lparr>fill_ind := ind_of (getnotlisten (fnet f) (fport f))\<rparr> in
            if fill_ind f < 0 then Some (f\<lparr>fmode := Token\<rparr>)
            else if b = 0x21 then Some (f\<lparr>fmode := FlushLine\<rparr>)
            else if b = 0x79 \<or> b = 0x6E then do {
              st \<leftarrow> push_at (fill_ind f) [0xff, b] (fnet f);
              Some (f\<lparr>fnet := st, fmode := ReplyLine\<rparr>)
            } else Some (f\<lparr>fmode := Token\<rparr>)
      | FlushLine \<Rightarrow> if b = 0x0A then Some (f\<lparr>fmode := Token\<rparr>) else Some f
      | ReplyLine \<Rightarrow> do {
          st \<leftarrow> push_at (fill_ind f) [b] (fnet f);
          Some (f\<lparr>fnet := st, fmode := (if b = 0x0A then Token else ReplyLine)\<rparr>)
        }
      | ControlLine \<Rightarrow> do {
          st \<leftarrow> push_at 0 [b] (fnet f);
          Some (f\<lparr>fnet := st, fmode := (if b = 0x0A then Token else ControlLine)\<rparr>)
        }
      | Request connect rec firstcolon msg \<Rightarrow>
          let firstcolon = (firstcolon \<or> rec = 0x3A);
              msg = (if b = 0x20 then msg else msg @ [b])
          in if b = 0x0A \<or> b = 0x3A \<and> firstcolon
             then map_option (\<lambda>f. f\<lparr>fmode := Token\<rparr>) (takerequest char_signed connect msg f)
             else Some (f\<lparr>fmode := Request connect b firstcolon msg\<rparr>))"

fun fill_bytes :: "bool \<Rightarrow> u8 list \<Rightarrow> fill \<Rightarrow> fill option" where
  "fill_bytes char_signed [] f = Some f"
| "fill_bytes char_signed (b # bs) f = do {
     f \<leftarrow> fill_byte char_signed b f;
     fill_bytes char_signed bs f
   }"

text \<open>What the thread does first: it creates the control descriptor.\<close>

definition fill_start :: "net \<Rightarrow> fill option" where
  "fill_start st = do {
     let (fd, st) = alloc (-1) st;
     let st = st\<lparr>controlfd := fd, controlport := -1\<rparr>;
     i \<leftarrow> espm_getind st fd;
     Some \<lparr>fnet = upd_fd i (fd_port_update (\<lambda>_. -1)) st, fill_ind = -1, fport = -1, fmode = Token\<rparr>
   }"

section \<open>The socket calls\<close>

text \<open>
  What the calls need of the platform.  \<open>sim_running\<close> and \<open>in_thread\<close> are the two checks with
  which \<open>espm_close\<close> recognises the end of the simulation.
\<close>

record platform =
  char_signed :: bool
  ip_text :: "u32 \<Rightarrow> u8 list"
  ap_mac :: "u8 list"
  ap_ip :: u32
  sim_running :: bool
  in_thread :: bool

text \<open>A \<open>struct sockaddr_in\<close> that the firmware passes in\<close>

record sockaddr =
  sin_family :: int
  sin_port :: u16
  sin_addr :: u32

definition sizeof_sockaddr_in :: nat where "sizeof_sockaddr_in = 16"
definition sizeof_timeval :: nat where "sizeof_timeval = 16"
definition sizeof_int :: nat where "sizeof_int = 4"

definition snprintf :: "nat \<Rightarrow> u8 list \<Rightarrow> u8 list" where
  "snprintf n s = take (n - 1) s"

text \<open>One wake-up of a thread that waits: the time and the state it finds, and whether the event
  (rather than the timeout) woke it.\<close>

record wakeup =
  triggered :: bool
  now :: nat
  found :: net

definition fail :: "errno_t \<Rightarrow> net \<Rightarrow> int \<times> net" where
  "fail e st = (-1, set_errno e st)"

subsection \<open>Creating and configuring\<close>

definition espm_socket :: "int \<Rightarrow> int \<Rightarrow> int \<Rightarrow> net \<Rightarrow> int \<times> net" where
  "espm_socket domain type protocol st =
     (let st = set_errno E_NONE st in
      if domain \<noteq> AF_INET then fail EAFNOSUPPORT st
      else if type \<noteq> SOCK_STREAM \<and> type \<noteq> SOCK_DGRAM then fail EPROTONOSUPPORT st
      else if protocol \<noteq> 0 then fail EPROTONOSUPPORT st
      else
        let (fd, st) = alloc (-1) st in
        if fd < 0 then (fd, st)
        else case espm_getind st fd of
            None \<Rightarrow> fail EBADF st
          | Some ind \<Rightarrow> (fd, upd_fd ind (fd_type_update (\<lambda>_. type)) st))"

text \<open>The option value that \<open>optval\<close> points to: the bytes read as a \<open>timeval\<close> or as an \<open>int\<close>\<close>

datatype optval = OptTimeval int int | OptInt i32

definition unsigned_long :: "int \<Rightarrow> nat" where
  "unsigned_long n = nat (n mod 2 ^ 64)"

definition espm_setsockopt ::
  "int \<Rightarrow> int \<Rightarrow> int \<Rightarrow> optval option \<Rightarrow> nat \<Rightarrow> net \<Rightarrow> (int \<times> net) option" where
  "espm_setsockopt s level optname optval optlen st =
     (let st = set_errno E_NONE st in
      case optval of
        None \<Rightarrow> Some (fail EFAULT st)
      | Some v \<Rightarrow>
          (case espm_getind st s of
             None \<Rightarrow> Some (fail EBADF st)
           | Some ind \<Rightarrow>
               if level = SOL_SOCKET \<and> (optname = SO_RCVTIMEO \<or> optname = SO_SNDTIMEO) then
                 (if optlen < sizeof_timeval then Some (fail EINVAL st)
                  else case v of
                      OptTimeval sec usec \<Rightarrow>
                        Some (0, upd_fd ind (tmout_update (\<lambda>_. unsigned_long (sec * 1000 + c_div usec 1000))) st)
                    | OptInt _ \<Rightarrow> None)
               else if level = SOL_SOCKET \<and> optname = SO_KEEPALIVE then
                 (if optlen < sizeof_int then Some (fail EINVAL st)
                  else case v of
                      OptInt i \<Rightarrow> Some (0, upd_fd ind (keepalive_update (\<lambda>_. i)) st)
                    | OptTimeval _ _ \<Rightarrow> None)
               else if level = SOL_SOCKET \<and> optname = SO_REUSEADDR then Some (0, st)
               else if level = IPPROTO_TCP \<and> optname = TCP_NODELAY then
                 (if optlen < sizeof_int then Some (fail EINVAL st)
                  else case v of
                      OptInt i \<Rightarrow> Some (0, upd_fd ind (tcpnodelay_update (\<lambda>_. i)) st)
                    | OptTimeval _ _ \<Rightarrow> None)
               else Some (fail EINVAL st)))"

text \<open>
  \<open>espm_getsockopt\<close> copies at most \<open>*optlen\<close> bytes; the result is the value, the number of bytes
  copied and the new \<open>*optlen\<close>.
\<close>

definition espm_getsockopt ::
  "int \<Rightarrow> int \<Rightarrow> int \<Rightarrow> bool \<Rightarrow> nat option \<Rightarrow> net \<Rightarrow> int \<times> (optval \<times> nat) option \<times> net" where
  "espm_getsockopt s level optname has_optval optlen st =
     (let st = set_errno E_NONE st in
      case espm_getind st s of
        None \<Rightarrow> (-1, None, set_errno EBADF st)
      | Some ind \<Rightarrow>
          if \<not> has_optval then (-1, None, set_errno EFAULT st)
          else (case optlen of
              None \<Rightarrow> (-1, None, set_errno EFAULT st)
            | Some len \<Rightarrow>
                let d = fdlist st ! ind in
                if level = SOL_SOCKET \<and> (optname = SO_RCVTIMEO \<or> optname = SO_SNDTIMEO) then
                  (0, Some (OptTimeval (int (tmout d div 1000)) (int (tmout d mod 1000 * 1000)),
                            min len sizeof_timeval), st)
                else if level = SOL_SOCKET \<and> optname = SO_KEEPALIVE then
                  (0, Some (OptInt (keepalive d), min len sizeof_int), st)
                else if level = IPPROTO_TCP \<and> optname = TCP_NODELAY then
                  (0, Some (OptInt (tcpnodelay d), min len sizeof_int), st)
                else (-1, None, set_errno EINVAL st)))"

definition espm_bind :: "int \<Rightarrow> sockaddr option \<Rightarrow> nat \<Rightarrow> net \<Rightarrow> int \<times> net" where
  "espm_bind socket address address_len st =
     (let i = espm_getind st socket; st = set_errno E_NONE st in
      case i of
        None \<Rightarrow> fail EBADF st
      | Some ind \<Rightarrow>
          (case address of
             None \<Rightarrow> fail EINVAL st
           | Some radd \<Rightarrow>
               if address_len < sizeof_sockaddr_in then fail EINVAL st
               else if bound (fdlist st ! ind) then fail EINVAL st
               else if sin_family radd \<noteq> AF_INET then fail EOPNOTSUPP st
               else (0, upd_fd ind (\<lambda>d. d\<lparr>fd_ip := sin_addr radd, fd_port := uint (sin_port radd),
                                         bound := True, maxconnect := -1\<rparr>) st)))"

definition espm_listen :: "int \<Rightarrow> int \<Rightarrow> net \<Rightarrow> int \<times> net" where
  "espm_listen socket backlog st =
     (let i = espm_getind st socket; st = set_errno E_NONE st in
      case i of
        None \<Rightarrow> fail EBADF st
      | Some ind \<Rightarrow>
          let d = fdlist st ! ind in
          if \<not> bound d then fail EINVAL st
          else if fd_type d \<noteq> SOCK_STREAM \<and> fd_type d \<noteq> SOCK_SEQPACKET then fail EOPNOTSUPP st
          else (0, upd_fd ind (maxconnect_update (\<lambda>_. backlog)) st))"

definition espm_fcntl :: "int \<Rightarrow> int \<Rightarrow> i32 \<Rightarrow> net \<Rightarrow> i32 \<times> net" where
  "espm_fcntl s cmd val st =
     (let i = espm_getind st s; st = set_errno E_NONE st in
      case i of
        None \<Rightarrow> (-1, set_errno EBADF st)
      | Some ind \<Rightarrow>
          if cmd = F_GETFL then (fd_flags (fdlist st ! ind), st)
          else if cmd = F_SETFL then (0, upd_fd ind (fd_flags_update (\<lambda>_. val)) st)
          else (-1, set_errno EINVAL st))"

text \<open>\<open>espm_ioctl_r\<close>: the value stored through \<open>argp\<close>\<close>

definition espm_ioctl_r :: "int \<Rightarrow> int \<Rightarrow> bool \<Rightarrow> net \<Rightarrow> int \<times> nat option \<times> net" where
  "espm_ioctl_r s cmd has_argp st =
     (let i = espm_getind st s; st = set_errno E_NONE st in
      if cmd \<noteq> FIONREAD then (-1, None, set_errno EINVAL st)
      else if \<not> has_argp then (-1, None, set_errno EINVAL st)
      else case i of
          None \<Rightarrow> (-1, None, set_errno ENOTTY st)
        | Some ind \<Rightarrow> (0, Some (length (buffer (fdlist st ! ind))), st))"

text \<open>The bytes of the address that \<open>espm_getpeername\<close> and \<open>espm_getsockname\<close> build\<close>

definition sockaddr_bytes :: "fd_t \<Rightarrow> u8 list" where
  "sockaddr_bytes d =
     [2, 0, word_of_int (fd_port d div 256), word_of_int (fd_port d),
      ucast (fd_ip d), ucast (drop_bit 8 (fd_ip d)), ucast (drop_bit 16 (fd_ip d)),
      ucast (drop_bit 24 (fd_ip d))]"

text \<open>The destination is its bytes; the result gives the bytes and the new \<open>*addrlen\<close>.\<close>

definition espm_getpeername ::
  "int \<Rightarrow> u8 list option \<Rightarrow> nat option \<Rightarrow> net \<Rightarrow> (int \<times> u8 list option \<times> nat option \<times> net) option" where
  "espm_getpeername s addr addrlen st =
     (let i = espm_getind st s; st = set_errno E_NONE st in
      case (addr, addrlen) of
        (Some a, Some len) \<Rightarrow>
          (case i of
             None \<Rightarrow> Some (-1, addr, addrlen, set_errno EBADF st)
           | Some ind \<Rightarrow>
               if \<not> connected (fdlist st ! ind) then Some (-1, addr, addrlen, set_errno ENOTCONN st)
               else do {
                 let n = min len sizeof_sockaddr_in;
                 a \<leftarrow> mem_write a 0 (take n (sockaddr_bytes (fdlist st ! ind) @ replicate 8 0));
                 Some (0, Some a, Some n, st)
               })
      | _ \<Rightarrow> Some (-1, addr, addrlen, set_errno EFAULT st))"

definition espm_getsockname ::
  "int \<Rightarrow> u8 list option \<Rightarrow> nat option \<Rightarrow> net \<Rightarrow> (int \<times> u8 list option \<times> nat option \<times> net) option" where
  "espm_getsockname s addr addrlen st =
     (let i = espm_getind st s; st = set_errno E_NONE st in
      case i of
        None \<Rightarrow> Some (-1, addr, addrlen, set_errno EBADF st)
      | Some ind \<Rightarrow>
          (case (addr, addrlen) of
             (Some a, Some len) \<Rightarrow>
               if len < sizeof_sockaddr_in then Some (-1, addr, addrlen, set_errno EINVAL st)
               else do {
                 a \<leftarrow> mem_write a 0 (sockaddr_bytes (fdlist st ! ind));
                 Some (0, Some a, Some sizeof_sockaddr_in, st)
               }
           | _ \<Rightarrow> Some (-1, addr, addrlen, set_errno EFAULT st)))"

subsection \<open>Sending\<close>

definition blocking :: "fd_t \<Rightarrow> bool" where
  "blocking d \<longleftrightarrow> fd_flags d AND O_NONBLOCK \<noteq> O_NONBLOCK"

definition espm_write ::
  "platform \<Rightarrow> int \<Rightarrow> u8 list \<Rightarrow> int \<Rightarrow> net \<Rightarrow> (int \<times> net) option" where
  "espm_write pl fd buf count st =
     (case espm_getind st fd of
        None \<Rightarrow> Some (fail EBADF st)
      | Some ind \<Rightarrow>
          let d = fdlist st ! ind in
          if \<not> bound d \<and> fd_type d = SOCK_DGRAM then Some (fail EDESTADDRREQ st)
          else if \<not> connected d \<and> fd_type d \<noteq> SOCK_DGRAM then Some (fail EBADF st)
          else espm_sendmsg (char_signed pl) (fd_port d) buf count ESCAPEALL (blocking d) st)"

definition espm_send ::
  "platform \<Rightarrow> int \<Rightarrow> u8 list \<Rightarrow> int \<Rightarrow> i32 \<Rightarrow> net \<Rightarrow> (int \<times> net) option" where
  "espm_send pl socket buf len flags st =
     (let i = espm_getind st socket; st = set_errno E_NONE st in
      case i of
        None \<Rightarrow> Some (fail EBADF st)
      | Some ind \<Rightarrow>
          let d = fdlist st ! ind in
          if \<not> bound d \<and> fd_type d = SOCK_DGRAM then Some (fail EDESTADDRREQ st)
          else if \<not> connected d \<and> fd_type d \<noteq> SOCK_DGRAM then Some (fail ENOTCONN st)
          else if fd_type d \<noteq> SOCK_STREAM \<and> connected d then Some (fail EISCONN st)
          else if fd_type d \<noteq> SOCK_STREAM \<and> \<not> bound d then Some (fail EAGAIN st)
          else espm_sendmsg (char_signed pl) (fd_port d) buf len ESCAPEALL
                 (\<not> (fd_flags d AND O_NONBLOCK = O_NONBLOCK \<or> flags AND MSG_DONTWAIT = MSG_DONTWAIT)) st)"

text \<open>
  \<open>espm_sendto\<close>.  The last argument of its \<open>__espm_sendmsg\<close>, named \<open>wait\<close> there, is the
  condition for not waiting.
\<close>

definition espm_sendto ::
  "platform \<Rightarrow> int \<Rightarrow> u8 list \<Rightarrow> nat \<Rightarrow> i32 \<Rightarrow> sockaddr option \<Rightarrow> nat \<Rightarrow> net \<Rightarrow> (int \<times> net) option" where
  "espm_sendto pl socket buf len flags dest_addr dest_len st =
     (let st = set_errno E_NONE st in
      case dest_addr of
        None \<Rightarrow> if dest_len \<noteq> 0 then Some (fail EINVAL st) else espm_send pl socket buf (int len) flags st
      | Some dip \<Rightarrow>
          if dest_len = 0 then Some (fail EINVAL st)
          else (case espm_getind st socket of
              None \<Rightarrow> Some (fail EBADF st)
            | Some ind \<Rightarrow>
                let d = fdlist st ! ind in
                if 1460 < len then Some (fail EMSGSIZE st)
                else if fd_type d = SOCK_STREAM \<or> fd_type d = SOCK_SEQPACKET then Some (fail EISCONN st)
                else if connected d then Some (fail EISCONN st)
                else do {
                  let cmd = snprintf 50 (0xff # 0x73 # 0x20 # ip_text pl (sin_addr dip) @ 0x3A
                              # dec_int (uint (sin_port dip)) @ [0x3A]);
                  data \<leftarrow> mem_bytes buf len;
                  (resp, st) \<leftarrow> espm_sendmsg (char_signed pl) (controlport st) (cmd @ data)
                    (int (length cmd + len)) ESCAPEFROMCOLON
                    (flags AND MSG_DONTWAIT = MSG_DONTWAIT \<or> fd_flags d AND O_NONBLOCK \<noteq> 0) st;
                  if resp < 0 then Some (resp, st)
                  else if resp - int (length cmd) \<le> 0 then Some (0, st)
                  else Some (resp - int (length cmd), st)
                }))"

subsection \<open>Receiving\<close>

text \<open>
  The wait of \<open>__espm_receive\<close> and of \<open>__espm_readline\<close> for a byte in the buffer: it goes through
  the wake-ups until one shows data (\<open>Inr\<close>, with the wake-ups left) or the timeout has expired
  (\<open>Inl\<close>).
\<close>

fun wait_data :: "nat \<Rightarrow> nat \<Rightarrow> net \<Rightarrow> wakeup list \<Rightarrow> (net + net \<times> wakeup list) option" where
  "wait_data ind timeouttarg st ws =
     (if length (fdlist st) \<le> ind then None
      else if buffer (fdlist st ! ind) \<noteq> [] then Some (Inr (st, ws))
      else (case ws of
          [] \<Rightarrow> None
        | w # ws' \<Rightarrow>
            if \<not> triggered w \<and> timeouttarg \<noteq> 0 \<and> timeouttarg \<le> now w then Some (Inl (found w))
            else wait_data ind timeouttarg (found w) ws'))"

declare wait_data.simps [simp del]

definition take_byte :: "nat \<Rightarrow> net \<Rightarrow> u8 \<times> net" where
  "take_byte ind st =
     (hd (buffer (fdlist st ! ind)), upd_fd ind (\<lambda>d. d\<lparr>buffer := tl (buffer d)\<rparr>) st)"

text \<open>The loop of \<open>__espm_receive\<close>; \<open>got\<close> are the bytes stored so far.\<close>

fun receive_loop ::
  "nat \<Rightarrow> nat \<Rightarrow> bool \<Rightarrow> nat \<Rightarrow> u8 list \<Rightarrow> net \<Rightarrow> wakeup list \<Rightarrow> (int \<times> u8 list \<times> net) option" where
  "receive_loop ind timeouttarg waitall 0 got st ws = Some (int (length got), got, st)"
| "receive_loop ind timeouttarg waitall (Suc n) got st ws =
     (if length (fdlist st) \<le> ind then None
      else if \<not> waitall \<and> buffer (fdlist st ! ind) = [] then Some (int (length got), got, st)
      else do {
        r \<leftarrow> (if waitall then wait_data ind timeouttarg st ws else Some (Inr (st, ws)));
        case r of
          Inl st \<Rightarrow> Some (-1, got, set_errno ETIMEDOUT st)
        | Inr (st, ws) \<Rightarrow>
            (let (b, st) = take_byte ind st
             in receive_loop ind timeouttarg waitall n (got @ [b]) st ws)
      })"

text \<open>
  \<open>__espm_receive\<close> at time \<open>start\<close>.  The test for unsupported flags parses as
  \<open>flags & (~(...) > 0)\<close>, and \<open>~(...)\<close> is negative.
\<close>

definition espm_receive ::
  "nat \<Rightarrow> int \<Rightarrow> nat \<Rightarrow> i32 \<Rightarrow> net \<Rightarrow> wakeup list \<Rightarrow> (int \<times> u8 list \<times> net) option" where
  "espm_receive start s len flags st ws =
     (case espm_getind st s of
        None \<Rightarrow> Some (-1, [], set_errno EBADF st)
      | Some ind \<Rightarrow>
          let d = fdlist st ! ind in
          if fd_type d = SOCK_STREAM \<and> \<not> connected d then Some (-1, [], set_errno ENOTCONN st)
          else if fd_type d \<noteq> SOCK_STREAM \<and> \<not> bound d then Some (-1, [], set_errno EAGAIN st)
          else if (flags AND MSG_DONTWAIT = MSG_DONTWAIT \<or> fd_flags d AND O_NONBLOCK \<noteq> 0)
             \<and> (buffer d = [] \<or> len = 0) then Some (-1, [], set_errno EWOULDBLOCK st)
          else if flags AND (if 0 < sint (NOT (MSG_WAITALL OR MSG_DONTWAIT)) then 1 else 0) \<noteq> 0
             then Some (-1, [], set_errno EOPNOTSUPP st)
          else if closed d \<and> buffer d = [] then Some (0, [], st)
          else receive_loop ind (if tmout d = 0 then 0 else start + tmout d)
                 (flags AND MSG_WAITALL = MSG_WAITALL) len [] st ws)"

definition espm_recv ::
  "nat \<Rightarrow> int \<Rightarrow> nat \<Rightarrow> i32 \<Rightarrow> net \<Rightarrow> wakeup list \<Rightarrow> (int \<times> u8 list \<times> net) option" where
  "espm_recv start s len flags st ws = espm_receive start s len flags (set_errno E_NONE st) ws"

definition espm_read ::
  "nat \<Rightarrow> int \<Rightarrow> nat \<Rightarrow> net \<Rightarrow> wakeup list \<Rightarrow> (int \<times> u8 list \<times> net) option" where
  "espm_read start s len st ws = espm_recv start s len MSG_WAITALL st ws"

definition espm_recvfrom ::
  "nat \<Rightarrow> int \<Rightarrow> nat \<Rightarrow> i32 \<Rightarrow> u8 list option \<Rightarrow> nat option \<Rightarrow> net \<Rightarrow> wakeup list \<Rightarrow>
     (int \<times> u8 list \<times> u8 list option \<times> nat option \<times> net) option" where
  "espm_recvfrom start s len flags src_addr addrlen st ws =
     (if src_addr \<noteq> None \<and> addrlen = None \<or> src_addr = None \<and> addrlen \<noteq> None
      then Some (-1, [], src_addr, addrlen, set_errno EINVAL st)
      else do {
        (resplen, bs, st) \<leftarrow> espm_receive start s len flags (set_errno E_NONE st) ws;
        if resplen < 0 then Some (-1, bs, src_addr, addrlen, st)
        else if src_addr \<noteq> None \<and> addrlen \<noteq> None then do {
          (r, src_addr, addrlen, st) \<leftarrow> espm_getpeername s src_addr addrlen st;
          if 0 < r then Some (-1, bs, src_addr, addrlen, st)
          else Some (resplen, bs, src_addr, addrlen, st)
        } else Some (resplen, bs, src_addr, addrlen, st)
      })"

text \<open>
  The loop of \<open>__espm_readline\<close>: \<open>msg\<close> is the line so far.  Every turn takes one byte; \<open>n\<close>
  bounds the number of turns and is the number of bytes that the caller's wake-ups can bring.
  The C function returns its counter \<open>p\<close>, which it never initialises; the callers only test
  whether the result is negative, and the model gives the length of the line.
\<close>

fun readline_loop ::
  "nat \<Rightarrow> nat \<Rightarrow> nat \<Rightarrow> u8 list \<Rightarrow> bool \<Rightarrow> net \<Rightarrow> wakeup list \<Rightarrow>
     (int \<times> u8 list \<times> net \<times> wakeup list) option" where
  "readline_loop 0 ind timeouttarg msg crseen st ws = None"
| "readline_loop (Suc n) ind timeouttarg msg crseen st ws = do {
     r \<leftarrow> wait_data ind timeouttarg st ws;
     case r of
       Inl st \<Rightarrow> Some (-1, msg, set_errno ETIMEDOUT st, ws)
     | Inr (st, ws) \<Rightarrow>
         (let (nchar, st) = take_byte ind st in
          if nchar = 0x0A \<and> crseen then Some (int (length msg), msg, st, ws)
          else
            let msg = (if crseen then msg @ [0x0D] else msg) in
            if nchar = 0x0D then readline_loop n ind timeouttarg msg True st ws
            else readline_loop n ind timeouttarg (msg @ [nchar]) False st ws)
   }"

text \<open>All bytes that the buffers of the wake-ups hold bound what one line can consume.\<close>

definition buffered :: "net \<Rightarrow> nat" where
  "buffered st = sum_list (map (\<lambda>d. length (buffer d)) (fdlist st))"

definition readline_fuel :: "net \<Rightarrow> wakeup list \<Rightarrow> nat" where
  "readline_fuel st ws = Suc (buffered st + sum_list (map (\<lambda>w. buffered (found w)) ws))"

definition espm_readline ::
  "nat \<Rightarrow> int \<Rightarrow> bool \<Rightarrow> net \<Rightarrow> wakeup list \<Rightarrow> (int \<times> u8 list \<times> net \<times> wakeup list) option" where
  "espm_readline start s usetimeout st ws =
     (let i = espm_getind st s; st = set_errno E_NONE st in
      case i of
        None \<Rightarrow> Some (-1, [], set_errno EBADF st, ws)
      | Some ind \<Rightarrow>
          let t = tmout (fdlist st ! ind) in
          readline_loop (readline_fuel st ws) ind
            (if \<not> usetimeout \<or> t = 0 then 0 else start + t) [] False st ws)"

subsection \<open>Connecting, accepting and closing\<close>

definition espm_connect ::
  "platform \<Rightarrow> nat \<Rightarrow> int \<Rightarrow> sockaddr option \<Rightarrow> nat \<Rightarrow> net \<Rightarrow> wakeup list \<Rightarrow> (int \<times> net) option" where
  "espm_connect pl start s name namelen st ws =
     (let i = espm_getind st s; st = set_errno E_NONE st in
      case i of
        None \<Rightarrow> Some (fail EBADF st)
      | Some ind \<Rightarrow>
          (case name of
             None \<Rightarrow> Some (fail EPROTOTYPE st)
           | Some rip \<Rightarrow>
               if namelen < sizeof_sockaddr_in then Some (fail EINVAL st)
               else if sin_family rip \<noteq> AF_INET then Some (fail EPROTOTYPE st)
               else if fd_type (fdlist st ! ind) = SOCK_DGRAM then Some (espm_bind s name namelen st)
               else if connected (fdlist st ! ind) then Some (fail EISCONN st)
               else do {
                 let st = upd_fd ind (\<lambda>d. d\<lparr>fd_ip := sin_addr rip, fd_port := uint (sin_port rip)\<rparr>) st;
                 let request = snprintf 50 (0xff # 0x63 # 0x20 # ip_text pl (fd_ip (fdlist st ! ind))
                    @ 0x3A # dec_int (fd_port (fdlist st ! ind)) @ [0x0D, 0x0A]);
                 (resp, st) \<leftarrow> espm_sendmsg (char_signed pl) (controlport st) (request @ [0]) (-1)
                    ESCAPENONE True st;
                 if resp < 0 then Some (-1, st)
                 else do {
                   (resp, msg, st, ws) \<leftarrow> espm_readline start (fdn (fdlist st ! ind)) False st ws;
                   if resp < 0 then Some (-1, st)
                   else if length (fdlist st) \<le> ind then None
                   else if take 2 msg = [0xff, 0x79]
                   then Some (0, upd_fd ind (\<lambda>d. d\<lparr>connected := True, bound := False\<rparr>) st)
                   else Some (fail ECONNREFUSED st)
                 }
               }))"

definition espm_connect_r ::
  "platform \<Rightarrow> nat \<Rightarrow> int \<Rightarrow> sockaddr option \<Rightarrow> nat \<Rightarrow> net \<Rightarrow> wakeup list \<Rightarrow> (int \<times> net) option" where
  "espm_connect_r pl start s name namelen st ws = espm_connect pl start s name namelen st ws"

text \<open>The message with which a descriptor's close is announced, and \<open>erase\<close> of the vector\<close>

definition close_message :: "fd_t \<Rightarrow> u8 list" where
  "close_message d = snprintf 15 (0xff # dec_int (fd_port d) @ [0x21, 0x0D, 0x0A])"

definition erase_fd :: "nat \<Rightarrow> net \<Rightarrow> net" where
  "erase_fd ind st =
     st\<lparr>fdlist := take ind (fdlist st) @ drop (Suc ind) (fdlist st), portclosed := True\<rparr>"

text \<open>
  \<open>for (fd = 0; fd < _fdlist.size(); fd++)\<close> of a listening descriptor: close the owners.  The
  bound is read again in every turn, since the vector shrinks.
\<close>

fun close_owners :: "(int \<Rightarrow> net \<Rightarrow> (int \<times> net) option) \<Rightarrow> nat \<Rightarrow> nat \<Rightarrow> net \<Rightarrow> net option" where
  "close_owners close 0 fd st = Some st"
| "close_owners close (Suc n) fd st =
     (if length (fdlist st) \<le> fd then Some st
      else do {
        (r, st) \<leftarrow> close (fd_owner (fdlist st ! fd)) st;
        close_owners close n (fd + 1) st
      })"

text \<open>
  \<open>espm_close\<close> calls itself for the owners; \<open>n\<close> bounds the depth (\<open>None\<close> when it is exceeded).
\<close>

fun close_at_depth :: "platform \<Rightarrow> nat \<Rightarrow> int \<Rightarrow> net \<Rightarrow> (int \<times> net) option" where
  "close_at_depth pl 0 s st = None"
| "close_at_depth pl (Suc n) s st =
     (let st = set_errno E_NONE st in
      case espm_getind st s of
        None \<Rightarrow> Some (fail EBADF st)
      | Some ind \<Rightarrow>
          if s = controlfd st then Some (fail EBADF st)
          else do {
            let d = fdlist st ! ind;
            let ownerind = espm_getind st (fd_owner d);
            st \<leftarrow> (if islistening d then
                      (if ownerind \<noteq> None
                       then close_owners (close_at_depth pl n) (length (fdlist st)) 0 st else Some st)
                    else case ownerind of
                        None \<Rightarrow> Some st
                      | Some o_ind \<Rightarrow> Some (upd_fd o_ind (connections_update (\<lambda>c. c - 1)) st));
            if \<not> sim_running pl then Some (0, st)
            else if \<not> in_thread pl then Some (0, st)
            else if length (fdlist st) \<le> ind then None
            else do {
              st \<leftarrow> (if connected (fdlist st ! ind) then
                        map_option snd (espm_sendmsg (char_signed pl) (controlport st)
                          (close_message (fdlist st ! ind) @ [0]) (-1) ESCAPENONE True st)
                      else Some st);
              Some (0, erase_fd ind st)
            }
          })"

definition espm_close :: "platform \<Rightarrow> int \<Rightarrow> net \<Rightarrow> (int \<times> net) option" where
  "espm_close pl s st = close_at_depth pl (Suc (length (fdlist st))) s st"

text \<open>\<open>%02x\<close>\<close>

definition hex_digit :: "nat \<Rightarrow> u8" where
  "hex_digit n = of_nat (if n < 10 then 48 + n else 87 + n)"

definition hex_byte :: "u8 \<Rightarrow> u8 list" where
  "hex_byte b = [hex_digit (unat b div 16), hex_digit (unat b mod 16)]"

fun mac_text :: "u8 list \<Rightarrow> u8 list" where
  "mac_text [] = []"
| "mac_text [b] = hex_byte b"
| "mac_text (b # bs) = hex_byte b @ 0x3A # mac_text bs"

definition accept_message :: "platform \<Rightarrow> int \<Rightarrow> u8 list" where
  "accept_message pl port = snprintf 80
     (0xff # dec_int port @ 0x79 # 0x20 # mac_text (ap_mac pl) @ 0x20 # ip_text pl (ap_ip pl)
      @ 0x3A # dec_int port @ [0x0D, 0x0A])"

definition espm_accept ::
  "platform \<Rightarrow> nat \<Rightarrow> int \<Rightarrow> u8 list option \<Rightarrow> nat option \<Rightarrow> net \<Rightarrow> wakeup list \<Rightarrow>
     (int \<times> u8 list option \<times> nat option \<times> net) option" where
  "espm_accept pl start s addr addrlen st ws =
     (let i = espm_getind st s; st = set_errno E_NONE st;
          failed = (\<lambda>e st. Some (-1, addr, addrlen, set_errno e st)) in
      if addr = None \<and> addrlen \<noteq> None \<or> addr \<noteq> None \<and> addrlen = None then failed EINVAL st
      else if (case addrlen of None \<Rightarrow> False | Some n \<Rightarrow> n < sizeof_sockaddr_in) then failed EINVAL st
      else case i of
          None \<Rightarrow> failed EBADF st
        | Some ind \<Rightarrow>
            let d = fdlist st ! ind in
            if fd_type d \<noteq> SOCK_STREAM \<and> fd_type d \<noteq> SOCK_SEQPACKET then failed EOPNOTSUPP st
            else if \<not> islistening d then failed EINVAL st
            else if closed d \<and> buffer d = [] then failed EINVAL st
            else if fd_flags d AND O_NONBLOCK = O_NONBLOCK \<and> buffer d = [] then failed EWOULDBLOCK st
            else do {
              (resp, msg, st, ws) \<leftarrow> espm_readline start s False st ws;
              if resp < 0 then Some (-1, addr, addrlen, st)
              else case (if take 2 msg = [0xff, 0x63] then scan_address (drop 2 msg) else None) of
                  None \<Rightarrow> failed EPROTO st
                | Some _ \<Rightarrow>
                    let (afd, st) = alloc s st in
                    if afd < 0 then Some (-1, addr, addrlen, st)
                    else (case espm_getind st afd of
                        None \<Rightarrow> failed EBADF st
                      | Some aind \<Rightarrow>
                          if length (fdlist st) \<le> ind then None
                          else do {
                            let l = fdlist st ! ind;
                            let st = upd_fd aind (\<lambda>a. a\<lparr>fd_ip := fd_ip l, fd_port := fd_port l,
                                       fd_flags := fd_flags l, connected := True, bound := False,
                                       maxconnect := 0\<rparr>) st;
                            (resp, st) \<leftarrow> espm_sendmsg (char_signed pl) (controlport st)
                               (accept_message pl (fd_port (fdlist st ! aind)) @ [0]) (-1) ESCAPENONE True st;
                            if resp \<le> 0 then do {
                              (r, st) \<leftarrow> espm_close pl afd st;
                              failed ECONNABORTED st
                            } else if addr \<noteq> None then do {
                              (r, addr, addrlen, st) \<leftarrow> espm_getsockname afd addr addrlen st;
                              Some (afd, addr, addrlen, st)
                            } else Some (afd, addr, addrlen, st)
                          })
            })"

subsection \<open>Select\<close>

text \<open>A descriptor set is the list of its members; the first component of the result tells whether
  the loop of \<open>espm_select\<close> found a ready descriptor.\<close>

definition ready_read :: "int list option \<Rightarrow> fd_t \<Rightarrow> bool" where
  "ready_read readset d \<longleftrightarrow> (case readset of None \<Rightarrow> False | Some r \<Rightarrow> fdn d \<in> set r) \<and> buffer d \<noteq> []"

definition ready_write :: "int list option \<Rightarrow> nat \<Rightarrow> fd_t \<Rightarrow> bool" where
  "ready_write writeset rm d \<longleftrightarrow> (case writeset of None \<Rightarrow> False | Some w \<Rightarrow> fdn d \<in> set w) \<and> 0 < rm"

fun count_ready :: "int \<Rightarrow> int list option \<Rightarrow> int list option \<Rightarrow> nat \<Rightarrow> fd_t list \<Rightarrow> nat" where
  "count_ready maxfdp1 readset writeset rm [] = 0"
| "count_ready maxfdp1 readset writeset rm (d # ds) =
     (if maxfdp1 \<le> fdn d then 0
      else (if ready_read readset d then 1 else 0) + (if ready_write writeset rm d then 1 else 0)
         + count_ready maxfdp1 readset writeset rm ds)"

text \<open>The waiting loop at time \<open>time\<close>; it ends with the state in which it stopped.\<close>

fun select_wait ::
  "int \<Rightarrow> int list option \<Rightarrow> int list option \<Rightarrow> nat \<Rightarrow> nat \<Rightarrow> net \<Rightarrow> wakeup list \<Rightarrow> net option" where
  "select_wait maxfdp1 readset writeset timeouttarg time st ws =
     (if \<not> (timeouttarg = 0 \<or> time \<le> timeouttarg) then Some st
      else if 0 < count_ready maxfdp1 readset writeset (room st) (fdlist st) then Some st
      else if timeouttarg \<le> time then Some st
      else (case ws of
          [] \<Rightarrow> None
        | w # ws' \<Rightarrow> select_wait maxfdp1 readset writeset timeouttarg (now w) (found w) ws'))"

declare select_wait.simps [simp del]

text \<open>The second scan: it counts the ready descriptors and clears the others from the sets.\<close>

definition scan_set :: "int \<Rightarrow> bool \<Rightarrow> int list option \<Rightarrow> int \<Rightarrow> int \<times> int list option" where
  "scan_set fd ready fds n =
     (case fds of
        None \<Rightarrow> (n, None)
      | Some s \<Rightarrow> if fd \<in> set s then (if ready then (n + 1, Some s) else (n, Some (removeAll fd s)))
                  else (n, Some s))"

fun select_scan ::
  "int \<Rightarrow> nat \<Rightarrow> fd_t list \<Rightarrow> int \<Rightarrow> int list option \<Rightarrow> int list option \<Rightarrow>
     int \<times> int list option \<times> int list option" where
  "select_scan maxfdp1 rm [] n readset writeset = (n, readset, writeset)"
| "select_scan maxfdp1 rm (d # ds) n readset writeset =
     (let (n, readset) = scan_set (fdn d) (fdn d < maxfdp1 \<and> buffer d \<noteq> []) readset n;
          (n, writeset) = scan_set (fdn d) (fdn d < maxfdp1 \<and> 0 < rm) writeset n
      in select_scan maxfdp1 rm ds n readset writeset)"

text \<open>
  \<open>espm_select\<close> without an exception set; the timeout is a \<open>timeval\<close> (seconds, microseconds) or
  \<open>NULL\<close>.  An invalid call returns the positive number \<open>EINVAL\<close>.
\<close>

definition espm_select ::
  "nat \<Rightarrow> int \<Rightarrow> int list option \<Rightarrow> int list option \<Rightarrow> (int \<times> int) option \<Rightarrow> net \<Rightarrow> wakeup list \<Rightarrow>
     (int \<times> int list option \<times> int list option \<times> net) option" where
  "espm_select start maxfdp1 readset writeset timeout st ws =
     (let st = set_errno E_NONE st in
      if maxfdp1 < 0 \<or> FD_SETSIZE < maxfdp1
      then Some (EINVAL_code, readset, writeset, set_errno E_MINUS_ONE st)
      else if (maxfdp1 = 0 \<or> readset = None \<and> writeset = None) \<and> timeout \<noteq> None
      then Some (0, map_option (\<lambda>_. []) readset, map_option (\<lambda>_. []) writeset,
                 if ws = [] then st else found (last ws))
      else if readset = None \<and> writeset = None \<and> timeout = None
      then Some (EINVAL_code, readset, writeset, set_errno E_MINUS_ONE st)
      else do {
        let timeouttarg = (case timeout of None \<Rightarrow> 0
             | Some (sec, usec) \<Rightarrow> unsigned_long (int start + sec * 1000 + c_div usec 1000));
        st \<leftarrow> select_wait maxfdp1 readset writeset timeouttarg start st ws;
        let (n, readset, writeset) = select_scan maxfdp1 (room st) (fdlist st) 0 readset writeset;
        Some (n, readset, writeset, st)
      })"

end
