(* ===== verification/Transport.thy ===== *)
theory Transport
  imports Sockets
begin

text \<open>
  The transport layer, \<open>tcp_transport/esp_transport.c\<close>, \<open>esp_transport_tcp.c\<close> and
  \<open>esp_transport_utils.c\<close>: transports with a table of functions, a list of transports found by
  their scheme, and the TCP transport on the simulated sockets.

  A handle is the address of a \<open>trans_item\<close>.  Its function pointers are names, one type per C
  function type, with \<open>None\<close> for \<open>NULL\<close>: the functions of the TCP transport, or a function that
  the firmware supplies, whose effect is the parameter \<open>others\<close>.  \<open>None\<close> as a result is undefined
  behaviour or a thread that stays blocked, as in the socket layer.  A call that waits gets the
  time and the wake-ups of the thread (\<open>turn\<close>).
\<close>

section \<open>State\<close>

datatype connect_fn = Tcp_connect | Other_connect nat
datatype io_read_fn = Tcp_read | Other_read nat
datatype io_fn = Tcp_write | Other_write nat
datatype poll_fn = Tcp_poll_read | Tcp_poll_write | Other_poll nat
datatype close_fn = Tcp_close | Other_close nat
datatype destroy_fn = Tcp_destroy | Other_destroy nat
datatype parent_fn = Default_parent | Other_parent nat

record trans_item =
  t_port :: i32
  t_socket :: i32
  t_scheme :: cstr
  t_context :: "nat option"
  t_data :: "nat option"
  t_connect :: "connect_fn option"
  t_read :: "io_read_fn option"
  t_write :: "io_fn option"
  t_close :: "close_fn option"
  t_poll_read :: "poll_fn option"
  t_poll_write :: "poll_fn option"
  t_destroy :: "destroy_fn option"
  t_connect_async :: "connect_fn option"
  t_parent :: "parent_fn option"

text \<open>The memory: transports, TCP contexts (their \<open>sock\<close>) and the socket layer\<close>

record world =
  trans :: "nat \<Rightarrow> trans_item option"
  tcps :: "nat \<Rightarrow> int option"
  next_addr :: nat
  wnet :: net

record turn =
  at_time :: nat
  wakeups :: "wakeup list"

record others =
  other_connect :: "nat \<Rightarrow> nat \<Rightarrow> cstr \<Rightarrow> i32 \<Rightarrow> i32 \<Rightarrow> world \<Rightarrow> (int \<times> world) option"
  other_read :: "nat \<Rightarrow> nat \<Rightarrow> nat \<Rightarrow> i32 \<Rightarrow> world \<Rightarrow> (int \<times> u8 list \<times> world) option"
  other_write :: "nat \<Rightarrow> nat \<Rightarrow> u8 list \<Rightarrow> int \<Rightarrow> i32 \<Rightarrow> world \<Rightarrow> (int \<times> world) option"
  other_poll :: "nat \<Rightarrow> nat \<Rightarrow> i32 \<Rightarrow> world \<Rightarrow> (int \<times> world) option"
  other_trans :: "nat \<Rightarrow> nat \<Rightarrow> world \<Rightarrow> (int \<times> world) option"
  other_parent :: "nat \<Rightarrow> nat \<Rightarrow> nat option"

definition ESP_ERR_INVALID_ARG :: i32 where "ESP_ERR_INVALID_ARG = 0x102"

definition empty_item :: trans_item where
  "empty_item = \<lparr>t_port = 0, t_socket = 0, t_scheme = None, t_context = None, t_data = None,
     t_connect = None, t_read = None, t_write = None, t_close = None, t_poll_read = None,
     t_poll_write = None, t_destroy = None, t_connect_async = None, t_parent = None\<rparr>"

text \<open>Reading and changing an item through a handle that is not \<open>NULL\<close>\<close>

definition item_at :: "nat \<Rightarrow> world \<Rightarrow> trans_item option" where
  "item_at t w = trans w t"

definition put_item :: "nat \<Rightarrow> trans_item \<Rightarrow> world \<Rightarrow> world" where
  "put_item t i w = w\<lparr>trans := (trans w)(t := Some i)\<rparr>"

definition free_item :: "nat \<Rightarrow> world \<Rightarrow> world" where
  "free_item t w = w\<lparr>trans := (trans w)(t := None)\<rparr>"

text \<open>A transport setter: -1 for \<open>NULL\<close>, otherwise the change and 0.\<close>

definition set_item :: "nat option \<Rightarrow> (trans_item \<Rightarrow> trans_item) \<Rightarrow> world \<Rightarrow> (i32 \<times> world) option" where
  "set_item t f w =
     (case t of None \<Rightarrow> Some (-1, w)
      | Some t \<Rightarrow> do { i \<leftarrow> item_at t w; Some (0, put_item t (f i) w) })"

section \<open>Transports\<close>

definition esp_transport_init :: "world \<Rightarrow> nat \<times> world" where
  "esp_transport_init w =
     (next_addr w, (put_item (next_addr w) empty_item w)\<lparr>next_addr := next_addr w + 1\<rparr>)"

definition esp_transport_destroy :: "nat \<Rightarrow> world \<Rightarrow> (i32 \<times> world) option" where
  "esp_transport_destroy t w = do { i \<leftarrow> item_at t w; Some (0, free_item t w) }"

definition esp_transport_get_default_parent :: "nat \<Rightarrow> nat" where
  "esp_transport_get_default_parent t = t"

definition esp_transport_get_payload_transport_handle ::
  "others \<Rightarrow> nat option \<Rightarrow> world \<Rightarrow> nat option option" where
  "esp_transport_get_payload_transport_handle oth t w =
     (case t of None \<Rightarrow> Some None
      | Some t \<Rightarrow> do {
          i \<leftarrow> item_at t w;
          if t_read i = None then Some None
          else (case t_parent i of
              None \<Rightarrow> None
            | Some Default_parent \<Rightarrow> Some (Some (esp_transport_get_default_parent t))
            | Some (Other_parent n) \<Rightarrow> Some (other_parent oth n t))
        })"

definition esp_transport_get_context_data :: "nat option \<Rightarrow> world \<Rightarrow> nat option option" where
  "esp_transport_get_context_data t w =
     (case t of None \<Rightarrow> Some None | Some t \<Rightarrow> do { i \<leftarrow> item_at t w; Some (t_data i) })"

definition esp_transport_set_context_data ::
  "nat option \<Rightarrow> nat option \<Rightarrow> world \<Rightarrow> (i32 \<times> world) option" where
  "esp_transport_set_context_data t data w = set_item t (t_data_update (\<lambda>_. data)) w"

definition esp_transport_set_func ::
  "nat option \<Rightarrow> connect_fn option \<Rightarrow> io_read_fn option \<Rightarrow> io_fn option \<Rightarrow> close_fn option \<Rightarrow>
   poll_fn option \<Rightarrow> poll_fn option \<Rightarrow> destroy_fn option \<Rightarrow> world \<Rightarrow> (i32 \<times> world) option" where
  "esp_transport_set_func t con rd wr cl pr pw de w = set_item t (\<lambda>i. i\<lparr>
     t_connect := con, t_read := rd, t_write := wr, t_close := cl, t_poll_read := pr,
     t_poll_write := pw, t_destroy := de, t_connect_async := None,
     t_parent := Some Default_parent\<rparr>) w"

definition esp_transport_get_default_port :: "nat option \<Rightarrow> world \<Rightarrow> i32 option" where
  "esp_transport_get_default_port t w =
     (case t of None \<Rightarrow> Some (-1) | Some t \<Rightarrow> do { i \<leftarrow> item_at t w; Some (t_port i) })"

definition esp_transport_set_default_port :: "nat option \<Rightarrow> i32 \<Rightarrow> world \<Rightarrow> (i32 \<times> world) option" where
  "esp_transport_set_default_port t p w = set_item t (t_port_update (\<lambda>_. p)) w"

definition esp_transport_set_async_connect_func ::
  "nat option \<Rightarrow> connect_fn option \<Rightarrow> world \<Rightarrow> (i32 \<times> world) option" where
  "esp_transport_set_async_connect_func t f w = set_item t (t_connect_async_update (\<lambda>_. f)) w"

definition esp_transport_set_parent_transport_func ::
  "nat option \<Rightarrow> parent_fn option \<Rightarrow> world \<Rightarrow> (i32 \<times> world) option" where
  "esp_transport_set_parent_transport_func t f w = set_item t (t_parent_update (\<lambda>_. f)) w"

section \<open>The TCP transport\<close>

text \<open>\<open>esp_transport_utils_ms_to_timeval\<close>: seconds and microseconds\<close>

definition esp_transport_utils_ms_to_timeval :: "i32 \<Rightarrow> int \<times> int" where
  "esp_transport_utils_ms_to_timeval timeout_ms =
     (let sec = c_div (sint timeout_ms) 1000 in (sec, (sint timeout_ms - sec * 1000) * 1000))"

text \<open>\<open>sscanf(host, "%d.%d.%d.%d", ...)\<close>: the numbers that match\<close>

definition scan_quad :: "u8 list \<Rightarrow> int list" where
  "scan_quad s =
     (case scan_int s of None \<Rightarrow> []
      | Some (a, s) \<Rightarrow> (case Option.bind (scan_char 0x2E s) scan_int of None \<Rightarrow> [a]
        | Some (b, s) \<Rightarrow> (case Option.bind (scan_char 0x2E s) scan_int of None \<Rightarrow> [a, b]
          | Some (c, s) \<Rightarrow> (case Option.bind (scan_char 0x2E s) scan_int of None \<Rightarrow> [a, b, c]
            | Some (d, s) \<Rightarrow> [a, b, c, d]))))"

text \<open>
  \<open>resolve_dns\<close>: the numbers are used when \<open>sscanf\<close> did \<^emph>\<open>not\<close> find all four, so at least one
  variable that is read was never set.
\<close>

definition resolve_dns :: "cstr \<Rightarrow> (int \<times> u32) option" where
  "resolve_dns host =
     (case host of None \<Rightarrow> Some (-1, 0)
      | Some h \<Rightarrow>
          if length (scan_quad h) \<noteq> 4 then None
          else Some (0, 127 OR push_bit 8 210 OR push_bit 16 0 OR push_bit 24 55))"

text \<open>\<open>inet_pton(AF_INET, ...)\<close>: four decimal octets and nothing else\<close>

definition octet :: "u8 list \<Rightarrow> (u32 \<times> u8 list) option" where
  "octet s =
     (let ds = takeWhile is_digit s; n = fst (scan_digits ds 0) in
      if ds = [] \<or> 255 < n \<or> (hd ds = 0x30 \<and> length ds \<noteq> 1) then None
      else Some (word_of_int n, dropWhile is_digit s))"

definition inet_pton :: "u8 list \<Rightarrow> u32 option" where
  "inet_pton s = do {
     (a, s) \<leftarrow> octet s; s \<leftarrow> scan_char 0x2E s;
     (b, s) \<leftarrow> octet s; s \<leftarrow> scan_char 0x2E s;
     (c, s) \<leftarrow> octet s; s \<leftarrow> scan_char 0x2E s;
     (d, s) \<leftarrow> octet s;
     if s = [] then Some (a OR push_bit 8 b OR push_bit 16 c OR push_bit 24 d) else None
   }"

text \<open>The TCP context of a transport: its address and its socket\<close>

definition tcp_of :: "nat \<Rightarrow> world \<Rightarrow> (nat \<times> int) option" where
  "tcp_of t w = do {
     d \<leftarrow> esp_transport_get_context_data (Some t) w;
     a \<leftarrow> d;
     sock \<leftarrow> tcps w a;
     Some (a, sock)
   }"

definition set_sock :: "nat \<Rightarrow> int \<Rightarrow> world \<Rightarrow> world" where
  "set_sock a sock w = w\<lparr>tcps := (tcps w)(a := Some sock)\<rparr>"

definition set_net :: "net \<Rightarrow> world \<Rightarrow> world" where
  "set_net n w = w\<lparr>wnet := n\<rparr>"

definition tcp_connect ::
  "platform \<Rightarrow> turn \<Rightarrow> nat \<Rightarrow> cstr \<Rightarrow> i32 \<Rightarrow> i32 \<Rightarrow> world \<Rightarrow> (int \<times> world) option" where
  "tcp_connect pl tn t host port timeout_ms w = do {
     (a, _) \<leftarrow> tcp_of t w;
     h \<leftarrow> host;
     (r, ip) \<leftarrow> (case inet_pton h of Some ip \<Rightarrow> Some (0, ip) | None \<Rightarrow> resolve_dns host);
     if r < 0 then Some (-1, w)
     else do {
       let (sock, n) = espm_socket AF_INET SOCK_STREAM 0 (wnet w);
       let w = set_sock a sock (set_net n w);
       if sock < 0 then Some (-1, w)
       else do {
         let (sec, usec) = esp_transport_utils_ms_to_timeval timeout_ms;
         (r, n) \<leftarrow> espm_setsockopt sock SOL_SOCKET SO_RCVTIMEO (Some (OptTimeval sec usec))
            sizeof_timeval (wnet w);
         (r, n) \<leftarrow> espm_connect pl (at_time tn) sock
            (Some \<lparr>sin_family = AF_INET, sin_port = ucast port, sin_addr = ip\<rparr>)
            sizeof_sockaddr_in n (wakeups tn);
         let w = set_net n w;
         if r \<noteq> 0 then do {
           (r, n) \<leftarrow> espm_close pl sock (wnet w);
           Some (-1, set_sock a (-1) (set_net n w))
         } else Some (sock, w)
       }
     }
   }"

text \<open>\<open>FD_SET\<close> of a negative descriptor, or one beyond the set, writes outside the set.\<close>

definition tcp_poll :: "bool \<Rightarrow> turn \<Rightarrow> nat \<Rightarrow> i32 \<Rightarrow> world \<Rightarrow> (int \<times> world) option" where
  "tcp_poll reading tn t timeout_ms w = do {
     (a, sock) \<leftarrow> tcp_of t w;
     if sock < 0 \<or> FD_SETSIZE \<le> sock then None
     else do {
       let fds = Some [sock];
       (r, rs, ws, n) \<leftarrow> espm_select (at_time tn) (sock + 1)
          (if reading then fds else None) (if reading then None else fds)
          (Some (esp_transport_utils_ms_to_timeval timeout_ms)) (wnet w) (wakeups tn);
       Some (r, set_net n w)
     }
   }"

definition tcp_poll_read :: "turn \<Rightarrow> nat \<Rightarrow> i32 \<Rightarrow> world \<Rightarrow> (int \<times> world) option" where
  "tcp_poll_read tn t timeout_ms w = tcp_poll True tn t timeout_ms w"

definition tcp_poll_write :: "turn \<Rightarrow> nat \<Rightarrow> i32 \<Rightarrow> world \<Rightarrow> (int \<times> world) option" where
  "tcp_poll_write tn t timeout_ms w = tcp_poll False tn t timeout_ms w"

definition tcp_close :: "platform \<Rightarrow> nat \<Rightarrow> world \<Rightarrow> (int \<times> world) option" where
  "tcp_close pl t w = do {
     (a, sock) \<leftarrow> tcp_of t w;
     if 0 \<le> sock then do {
       (r, n) \<leftarrow> espm_close pl sock (wnet w);
       Some (r, set_sock a (-1) (set_net n w))
     } else Some (-1, w)
   }"

section \<open>Calls through the function table\<close>

definition esp_transport_poll_read ::
  "others \<Rightarrow> turn \<Rightarrow> nat option \<Rightarrow> i32 \<Rightarrow> world \<Rightarrow> (int \<times> world) option" where
  "esp_transport_poll_read oth tn t timeout_ms w =
     (case t of None \<Rightarrow> Some (-1, w)
      | Some t \<Rightarrow> do {
          i \<leftarrow> item_at t w;
          case t_poll_read i of
            None \<Rightarrow> Some (-1, w)
          | Some Tcp_poll_read \<Rightarrow> tcp_poll_read tn t timeout_ms w
          | Some Tcp_poll_write \<Rightarrow> tcp_poll_write tn t timeout_ms w
          | Some (Other_poll n) \<Rightarrow> other_poll oth n t timeout_ms w
        })"

definition esp_transport_poll_write ::
  "others \<Rightarrow> turn \<Rightarrow> nat option \<Rightarrow> i32 \<Rightarrow> world \<Rightarrow> (int \<times> world) option" where
  "esp_transport_poll_write oth tn t timeout_ms w =
     (case t of None \<Rightarrow> Some (-1, w)
      | Some t \<Rightarrow> do {
          i \<leftarrow> item_at t w;
          case t_poll_write i of
            None \<Rightarrow> Some (-1, w)
          | Some Tcp_poll_read \<Rightarrow> tcp_poll_read tn t timeout_ms w
          | Some Tcp_poll_write \<Rightarrow> tcp_poll_write tn t timeout_ms w
          | Some (Other_poll n) \<Rightarrow> other_poll oth n t timeout_ms w
        })"

text \<open>\<open>len\<close> is a C \<open>int\<close>; as the \<open>size_t\<close> of \<open>espm_write\<close> and the \<open>int\<close> of
  \<open>__espm_sendmsg\<close> it keeps its value.\<close>

definition tcp_write ::
  "platform \<Rightarrow> others \<Rightarrow> turn \<Rightarrow> nat \<Rightarrow> u8 list \<Rightarrow> int \<Rightarrow> i32 \<Rightarrow> world \<Rightarrow> (int \<times> world) option" where
  "tcp_write pl oth tn t buf len timeout_ms w = do {
     (a, _) \<leftarrow> tcp_of t w;
     (poll, w) \<leftarrow> esp_transport_poll_write oth tn (Some t) timeout_ms w;
     if poll \<le> 0 then Some (poll, w)
     else do {
       sock \<leftarrow> tcps w a;
       (r, n) \<leftarrow> espm_write pl sock buf len (wnet w);
       Some (r, set_net n w)
     }
   }"

text \<open>The second turn is that of the read after the poll.\<close>

definition tcp_read ::
  "others \<Rightarrow> turn \<Rightarrow> turn \<Rightarrow> nat \<Rightarrow> nat \<Rightarrow> i32 \<Rightarrow> world \<Rightarrow> (int \<times> u8 list \<times> world) option" where
  "tcp_read oth tn tn' t len timeout_ms w = do {
     (a, _) \<leftarrow> tcp_of t w;
     (poll, w) \<leftarrow> esp_transport_poll_read oth tn (Some t) timeout_ms w;
     if poll \<le> 0 then Some (poll, [], w)
     else do {
       sock \<leftarrow> tcps w a;
       (read_len, bs, n) \<leftarrow> espm_read (at_time tn') sock len (wnet w) (wakeups tn');
       let w = set_net n w;
       if read_len = 0 then Some (-1, bs, w) else Some (read_len, bs, w)
     }
   }"

definition esp_transport_connect ::
  "platform \<Rightarrow> others \<Rightarrow> turn \<Rightarrow> nat option \<Rightarrow> cstr \<Rightarrow> i32 \<Rightarrow> i32 \<Rightarrow> world \<Rightarrow> (int \<times> world) option" where
  "esp_transport_connect pl oth tn t host port timeout_ms w =
     (case t of None \<Rightarrow> Some (-1, w)
      | Some t \<Rightarrow> do {
          i \<leftarrow> item_at t w;
          case t_connect i of
            None \<Rightarrow> Some (-1, w)
          | Some Tcp_connect \<Rightarrow> tcp_connect pl tn t host port timeout_ms w
          | Some (Other_connect n) \<Rightarrow> other_connect oth n t host port timeout_ms w
        })"

definition esp_transport_connect_async ::
  "platform \<Rightarrow> others \<Rightarrow> turn \<Rightarrow> nat option \<Rightarrow> cstr \<Rightarrow> i32 \<Rightarrow> i32 \<Rightarrow> world \<Rightarrow> (int \<times> world) option" where
  "esp_transport_connect_async pl oth tn t host port timeout_ms w =
     (case t of None \<Rightarrow> Some (-1, w)
      | Some t \<Rightarrow> do {
          i \<leftarrow> item_at t w;
          case t_connect_async i of
            None \<Rightarrow> Some (-1, w)
          | Some Tcp_connect \<Rightarrow> tcp_connect pl tn t host port timeout_ms w
          | Some (Other_connect n) \<Rightarrow> other_connect oth n t host port timeout_ms w
        })"

definition esp_transport_read ::
  "others \<Rightarrow> turn \<Rightarrow> turn \<Rightarrow> nat option \<Rightarrow> nat \<Rightarrow> i32 \<Rightarrow> world \<Rightarrow> (int \<times> u8 list \<times> world) option" where
  "esp_transport_read oth tn tn' t len timeout_ms w =
     (case t of None \<Rightarrow> Some (-1, [], w)
      | Some t \<Rightarrow> do {
          i \<leftarrow> item_at t w;
          case t_read i of
            None \<Rightarrow> Some (-1, [], w)
          | Some Tcp_read \<Rightarrow> tcp_read oth tn tn' t len timeout_ms w
          | Some (Other_read n) \<Rightarrow> other_read oth n t len timeout_ms w
        })"

definition esp_transport_write ::
  "platform \<Rightarrow> others \<Rightarrow> turn \<Rightarrow> nat option \<Rightarrow> u8 list \<Rightarrow> int \<Rightarrow> i32 \<Rightarrow> world \<Rightarrow> (int \<times> world) option" where
  "esp_transport_write pl oth tn t buf len timeout_ms w =
     (case t of None \<Rightarrow> Some (-1, w)
      | Some t \<Rightarrow> do {
          i \<leftarrow> item_at t w;
          case t_write i of
            None \<Rightarrow> Some (-1, w)
          | Some Tcp_write \<Rightarrow> tcp_write pl oth tn t buf len timeout_ms w
          | Some (Other_write n) \<Rightarrow> other_write oth n t buf len timeout_ms w
        })"

definition esp_transport_close ::
  "platform \<Rightarrow> others \<Rightarrow> nat option \<Rightarrow> world \<Rightarrow> (int \<times> world) option" where
  "esp_transport_close pl oth t w =
     (case t of None \<Rightarrow> Some (0, w)
      | Some t \<Rightarrow> do {
          i \<leftarrow> item_at t w;
          case t_close i of
            None \<Rightarrow> Some (0, w)
          | Some Tcp_close \<Rightarrow> tcp_close pl t w
          | Some (Other_close n) \<Rightarrow> other_trans oth n t w
        })"

definition tcp_destroy :: "platform \<Rightarrow> others \<Rightarrow> nat \<Rightarrow> world \<Rightarrow> (int \<times> world) option" where
  "tcp_destroy pl oth t w = do {
     (a, _) \<leftarrow> tcp_of t w;
     (r, w) \<leftarrow> esp_transport_close pl oth (Some t) w;
     Some (0, w\<lparr>tcps := (tcps w)(a := None)\<rparr>)
   }"

definition esp_transport_tcp_init :: "world \<Rightarrow> (nat \<times> world) option" where
  "esp_transport_tcp_init w = do {
     let (t, w) = esp_transport_init w;
     let tcp = next_addr w;
     let w = w\<lparr>tcps := (tcps w)(tcp := Some (-1)), next_addr := tcp + 1\<rparr>;
     (r, w) \<leftarrow> esp_transport_set_func (Some t) (Some Tcp_connect) (Some Tcp_read) (Some Tcp_write)
        (Some Tcp_close) (Some Tcp_poll_read) (Some Tcp_poll_write) (Some Tcp_destroy) w;
     (r, w) \<leftarrow> esp_transport_set_context_data (Some t) (Some tcp) w;
     Some (t, w)
   }"

section \<open>The list of transports\<close>

text \<open>The tail queue is the list of its handles.  Inserting a handle that is already in it would
  corrupt the queue and is left undefined.\<close>

definition esp_transport_list_init :: "nat list" where
  "esp_transport_list_init = []"

definition esp_transport_list_add ::
  "nat list option \<Rightarrow> nat option \<Rightarrow> cstr \<Rightarrow> world \<Rightarrow> (i32 \<times> nat list option \<times> world) option" where
  "esp_transport_list_add l t scheme w =
     (case (l, t) of
        (Some ts, Some t) \<Rightarrow> do {
          s \<leftarrow> scheme;
          i \<leftarrow> item_at t w;
          if t \<in> set ts then None
          else Some (0, Some (ts @ [t]), put_item t (i\<lparr>t_scheme := Some s\<rparr>) w)
        }
      | _ \<Rightarrow> Some (ESP_ERR_INVALID_ARG, l, w))"

text \<open>\<open>strcasecmp\<close>\<close>

definition tolower :: "u8 \<Rightarrow> u8" where
  "tolower b = (if 0x41 \<le> b \<and> b \<le> 0x5A then b + 32 else b)"

definition strcaseeq :: "u8 list \<Rightarrow> u8 list \<Rightarrow> bool" where
  "strcaseeq a b \<longleftrightarrow> map tolower a = map tolower b"

fun find_scheme :: "u8 list \<Rightarrow> world \<Rightarrow> nat list \<Rightarrow> nat option option" where
  "find_scheme s w [] = Some None"
| "find_scheme s w (t # ts) = do {
     i \<leftarrow> item_at t w;
     s' \<leftarrow> t_scheme i;
     if strcaseeq s' s then Some (Some t) else find_scheme s w ts
   }"

definition esp_transport_list_get_transport ::
  "nat list option \<Rightarrow> cstr \<Rightarrow> world \<Rightarrow> nat option option" where
  "esp_transport_list_get_transport l scheme w =
     (case l of None \<Rightarrow> Some None
      | Some ts \<Rightarrow> (case scheme of
            None \<Rightarrow> Some (case ts of [] \<Rightarrow> None | t # _ \<Rightarrow> Some t)
          | Some s \<Rightarrow> find_scheme s w ts))"

fun clean_items :: "platform \<Rightarrow> others \<Rightarrow> nat list \<Rightarrow> world \<Rightarrow> world option" where
  "clean_items pl oth [] w = Some w"
| "clean_items pl oth (t # ts) w = do {
     i \<leftarrow> item_at t w;
     (r, w) \<leftarrow> (case t_destroy i of
          None \<Rightarrow> Some (0, w)
        | Some Tcp_destroy \<Rightarrow> tcp_destroy pl oth t w
        | Some (Other_destroy n) \<Rightarrow> other_trans oth n t w);
     (r, w) \<leftarrow> esp_transport_destroy t w;
     clean_items pl oth ts w
   }"

definition esp_transport_list_clean ::
  "platform \<Rightarrow> others \<Rightarrow> nat list option \<Rightarrow> world \<Rightarrow> (i32 \<times> nat list option \<times> world) option" where
  "esp_transport_list_clean pl oth l w = do {
     ts \<leftarrow> l;
     w \<leftarrow> clean_items pl oth ts w;
     Some (0, Some [], w)
   }"

definition esp_transport_list_destroy ::
  "platform \<Rightarrow> others \<Rightarrow> nat list option \<Rightarrow> world \<Rightarrow> (i32 \<times> world) option" where
  "esp_transport_list_destroy pl oth l w = do {
     (r, l, w) \<leftarrow> esp_transport_list_clean pl oth l w;
     Some (0, w)
   }"

end
