(* ===== verification/Socket_Laws.thy ===== *)
theory Socket_Laws
  imports Sockets
begin

text \<open>
  What the simulated socket layer guarantees: the descriptor table stays sorted with fresh numbers,
  the framing on the serial line is undone by the receiving thread, reads return what was
  buffered, select reports the ready descriptors.  It also shows the inputs on which the code
  does something else: bytes 0xff with a signed \<open>char\<close>, a full FIFO, malformed requests.
\<close>

section \<open>The descriptor table\<close>

definition table_ok :: "net \<Rightarrow> bool" where
  "table_ok st \<longleftrightarrow> sorted_wrt (<) (map fdn (fdlist st)) \<and> (\<forall>d \<in> set (fdlist st). 0 < fdn d)"

definition fdns :: "net \<Rightarrow> int list" where
  "fdns st = map fdn (fdlist st)"

named_theorems fdns_simps \<open>operations that keep the descriptor numbers\<close>

lemma table_ok_fdns: "table_ok st \<longleftrightarrow> sorted_wrt (<) (fdns st) \<and> (\<forall>n \<in> set (fdns st). 0 < n)"
  by (auto simp: table_ok_def fdns_def)

lemma fdns_keep: "fdns st' = fdns st \<Longrightarrow> table_ok st \<Longrightarrow> table_ok st'"
  by (simp add: table_ok_fdns)

lemma fdns_upd [fdns_simps]: "(\<And>d. fdn (f d) = fdn d) \<Longrightarrow> fdns (upd_fd i f st) = fdns st"
  by (cases "i < length (fdlist st)") (auto simp: fdns_def upd_fd_def map_update list_update_same_conv
      intro!: nth_equalityI simp: nth_list_update)

lemma fdns_basic [fdns_simps]:
  "fdns (set_errno e st) = fdns st" "fdns (serial_write b st) = fdns st"
  "fdns (st\<lparr>lastport := p\<rparr>) = fdns st" "fdns (st\<lparr>portclosed := c\<rparr>) = fdns st"
  "fdns (st\<lparr>controlfd := n, controlport := m\<rparr>) = fdns st"
  by (simp_all add: fdns_def set_errno_def serial_write_def)

lemma fdns_fail [fdns_simps]: "fdns (snd (fail e st)) = fdns st"
  by (simp add: fail_def fdns_simps)

lemma fdns_failD: "fail e st = (r, st') \<Longrightarrow> fdns st' = fdns st"
  using fdns_fail [of e st] by simp

lemma fdns_port_prefix [fdns_simps]: "fdns (snd (port_prefix port st)) = fdns st"
  by (simp add: port_prefix_def fdns_simps)

lemma fdns_writes [fdns_simps]: "fdns (fold serial_write bs st) = fdns st"
  by (induction bs arbitrary: st) (simp_all add: fdns_simps)

lemma fdns_send_loop:
  "send_loop cs msg sz style wait escape p st = Some (n, st') \<Longrightarrow> fdns st' = fdns st"
proof (induction cs msg sz style wait escape p st rule: send_loop.induct)
  case (1 cs msg sz style wait escape p st)
  then show ?case
    by (subst (asm) send_loop.simps) (auto simp: Let_def fdns_simps split: if_splits)
qed

lemma fdns_sendmsg: "espm_sendmsg cs port msg sz style wait st = Some (n, st') \<Longrightarrow> fdns st' = fdns st"
  using fdns_port_prefix [of port st]
  by (auto simp: espm_sendmsg_def Let_def fdns_simps case_prod_unfold bind_eq_Some_conv split: if_splits
      dest!: fdns_send_loop)

lemma find_fd_Some:
  "find_fd fd ds it = Some i \<Longrightarrow> it \<le> i \<and> i < it + length ds \<and> fdn (ds ! (i - it)) = fd"
proof (induction ds arbitrary: it)
  case (Cons d ds)
  show ?case
  proof (cases "fd = fdn d")
    case False
    with Cons.prems have "find_fd fd ds (it + 1) = Some i" by simp
    with Cons.IH [OF this] show ?thesis by (auto simp: nth_Cons')
  qed (use Cons.prems in auto)
qed simp

lemma find_fd_None: "find_fd fd ds it = None \<longleftrightarrow> fd \<notin> fdn ` set ds"
  by (induction ds arbitrary: it) auto

lemma find_fd_append:
  "fd \<notin> fdn ` set ds \<Longrightarrow> find_fd fd (ds @ es) it = find_fd fd es (it + length ds)"
  by (induction ds arbitrary: it) auto

lemma getind_Some:
  "espm_getind st fd = Some i \<Longrightarrow> i < length (fdlist st) \<and> fdn (fdlist st ! i) = fd \<and> 0 \<le> fd"
  by (auto simp: espm_getind_def dest: find_fd_Some split: if_splits)

lemma sorted_last: "sorted_wrt (<) (xs :: int list) \<Longrightarrow> x \<in> set xs \<Longrightarrow> x \<le> last xs"
  by (induction xs) (auto simp: less_imp_le)

lemma table_last: "table_ok st \<Longrightarrow> d \<in> set (fdlist st) \<Longrightarrow> fdn d \<le> fdn (last (fdlist st))"
proof -
  assume ok: "table_ok st" "d \<in> set (fdlist st)"
  then have "fdlist st \<noteq> []" by auto
  with ok sorted_last [of "fdns st" "fdn d"] show ?thesis
    by (auto simp: table_ok_fdns fdns_def last_map)
qed

text \<open>A new descriptor has a number above all others and stands at the end of the table.\<close>

lemma alloc_fresh:
  assumes "table_ok st" "alloc owner st = (fd, st')" "0 \<le> fd"
  shows "table_ok st' \<and> espm_getind st fd = None \<and> espm_getind st' fd = Some (length (fdlist st))
    \<and> fdlist st' = fdlist st @ [(fd_new_owner owner)\<lparr>fdn := fd\<rparr>]"
proof (cases "fdlist st = []")
  case True
  with assms show ?thesis
    by (auto simp: alloc_def table_ok_def espm_getind_def)
next
  case False
  let ?n = "fdn (last (fdlist st))"
  have fd: "fd = ?n + 1" "st' = st\<lparr>fdlist := fdlist st @ [(fd_new_owner owner)\<lparr>fdn := fd\<rparr>]\<rparr>"
    using assms(2,3) False by (auto simp: alloc_def Let_def split: if_splits)
  have less: "d \<in> set (fdlist st) \<Longrightarrow> fdn d < fd" for d
    using table_last [OF assms(1), of d] fd(1) by simp
  then have new: "fd \<notin> fdn ` set (fdlist st)" by fastforce
  moreover have "table_ok st'"
    using assms(1) less last_in_set [OF False]
    by (auto simp: table_ok_def fd sorted_wrt_append)
  ultimately show ?thesis
    using assms(3) fd find_fd_append [OF new, of "[(fd_new_owner owner)\<lparr>fdn := fd\<rparr>]" 0]
    by (auto simp: espm_getind_def find_fd_None)
qed

lemma alloc_table:
  assumes ok: "table_ok st" and al: "alloc owner st = (fd, st')"
  shows "table_ok st'"
proof (cases "0 \<le> fd")
  case True
  with assms alloc_fresh show ?thesis by blast
next
  case False
  have "fdlist st \<noteq> [] \<Longrightarrow> 0 < fdn (last (fdlist st))"
    using ok by (simp add: table_ok_def)
  with False al have "st' = set_errno EMFILE st"
    by (fastforce simp: alloc_def Let_def split: if_splits)
  with ok show ?thesis by (simp add: table_ok_def set_errno_def)
qed

lemma erase_table: "table_ok st \<Longrightarrow> table_ok (erase_fd i st)"
proof -
  assume ok: "table_ok st"
  have "fdlist st = take i (fdlist st) @ drop i (fdlist st)" by simp
  with ok have "sorted_wrt (<) (map fdn (take i (fdlist st)) @ map fdn (drop i (fdlist st)))"
    unfolding table_ok_def by (metis map_append)
  moreover have "drop (Suc i) (fdlist st) = tl (drop i (fdlist st))" by (simp add: drop_Suc tl_drop)
  moreover have "sorted_wrt (<) (x # xs) \<Longrightarrow> sorted_wrt (<) xs" for x :: int and xs by simp
  ultimately have "sorted_wrt (<) (map fdn (take i (fdlist st)) @ map fdn (drop (Suc i) (fdlist st)))"
    by (cases "drop i (fdlist st)") (auto simp: sorted_wrt_append)
  moreover have "set (take i (fdlist st) @ drop (Suc i) (fdlist st)) \<subseteq> set (fdlist st)"
    by (auto dest: in_set_takeD in_set_dropD)
  ultimately show ?thesis
    using ok unfolding table_ok_def erase_fd_def by (auto dest: in_set_takeD in_set_dropD)
qed

text \<open>The calls that firmware can make without waiting, and the arrival of a byte\<close>

datatype net_op =
    Op_socket int int int
  | Op_setsockopt int int int "optval option" nat
  | Op_bind int "sockaddr option" nat
  | Op_listen int int
  | Op_fcntl int int i32
  | Op_write int "u8 list" int
  | Op_send int "u8 list" int i32
  | Op_close int
  | Op_byte u8

definition on_net :: "fill \<Rightarrow> net option \<Rightarrow> fill" where
  "on_net f r = (case r of None \<Rightarrow> f | Some st \<Rightarrow> f\<lparr>fnet := st\<rparr>)"

fun net_step :: "platform \<Rightarrow> net_op \<Rightarrow> fill \<Rightarrow> fill" where
  "net_step pl (Op_socket d t p) f = f\<lparr>fnet := snd (espm_socket d t p (fnet f))\<rparr>"
| "net_step pl (Op_setsockopt s l n v len) f =
     on_net f (map_option snd (espm_setsockopt s l n v len (fnet f)))"
| "net_step pl (Op_bind s a len) f = f\<lparr>fnet := snd (espm_bind s a len (fnet f))\<rparr>"
| "net_step pl (Op_listen s b) f = f\<lparr>fnet := snd (espm_listen s b (fnet f))\<rparr>"
| "net_step pl (Op_fcntl s c v) f = f\<lparr>fnet := snd (espm_fcntl s c v (fnet f))\<rparr>"
| "net_step pl (Op_write s b n) f = on_net f (map_option snd (espm_write pl s b n (fnet f)))"
| "net_step pl (Op_send s b n fl) f = on_net f (map_option snd (espm_send pl s b n fl (fnet f)))"
| "net_step pl (Op_close s) f = on_net f (map_option snd (espm_close pl s (fnet f)))"
| "net_step pl (Op_byte b) f =
     (case fill_byte (char_signed pl) b f of None \<Rightarrow> f | Some f' \<Rightarrow> f')"

lemma socket_table: "table_ok st \<Longrightarrow> table_ok (snd (espm_socket d t p st))"
proof -
  assume "table_ok st"
  then have "table_ok (set_errno E_NONE st)" by (rule fdns_keep [rotated]) (simp add: fdns_simps)
  then have "table_ok (snd (alloc (-1) (set_errno E_NONE st)))"
    by (metis alloc_table prod.collapse)
  then have "table_ok (upd_fd i (fd_type_update (\<lambda>_. t)) (snd (alloc (-1) (set_errno E_NONE st))))" for i
    by (rule fdns_keep [rotated]) (simp add: fdns_simps)
  with \<open>table_ok (set_errno E_NONE st)\<close> \<open>table_ok (snd (alloc (-1) (set_errno E_NONE st)))\<close> show ?thesis
    by (auto simp: espm_socket_def Let_def case_prod_unfold fail_def fdns_simps
        intro: fdns_keep [rotated] split: option.split)
qed

lemma fdns_setsockopt: "espm_setsockopt s l n v len st = Some r \<Longrightarrow> fdns (snd r) = fdns st"
  by (auto simp: espm_setsockopt_def Let_def fdns_simps split: option.splits optval.splits if_splits)

lemma fdns_bind: "fdns (snd (espm_bind s a len st)) = fdns st"
  by (auto simp: espm_bind_def Let_def fdns_simps split: option.splits)

lemma fdns_listen: "fdns (snd (espm_listen s b st)) = fdns st"
  by (auto simp: espm_listen_def Let_def fdns_simps split: option.splits)

lemma fdns_fcntl: "fdns (snd (espm_fcntl s c v st)) = fdns st"
  by (auto simp: espm_fcntl_def Let_def fdns_simps split: option.splits)

lemma fdns_write: "espm_write pl s b n st = Some r \<Longrightarrow> fdns (snd r) = fdns st"
  by (cases r) (auto simp: espm_write_def Let_def fdns_simps split: option.splits if_splits
      dest: fdns_sendmsg fdns_failD)

lemma fdns_send: "espm_send pl s b n fl st = Some r \<Longrightarrow> fdns (snd r) = fdns st"
  by (cases r) (auto simp: espm_send_def Let_def fdns_simps split: option.splits if_splits
      dest: fdns_sendmsg fdns_failD)

lemma close_owners_table:
  assumes close: "\<And>s st r st'. close s st = Some (r, st') \<Longrightarrow> table_ok st \<Longrightarrow> table_ok st'"
  shows "close_owners close m k st = Some st' \<Longrightarrow> table_ok st \<Longrightarrow> table_ok st'"
proof (induction m arbitrary: k st)
  case (Suc m)
  show ?case
  proof (cases "length (fdlist st) \<le> k")
    case False
    with Suc.prems obtain r st1 where "close (fd_owner (fdlist st ! k)) st = Some (r, st1)"
        "close_owners close m (k + 1) st1 = Some st'"
      by (auto simp: bind_eq_Some_conv)
    with Suc.IH close Suc.prems(2) show ?thesis by blast
  qed (use Suc.prems in auto)
qed simp

lemma close_table: "close_at_depth pl n s st = Some (r, st') \<Longrightarrow> table_ok st \<Longrightarrow> table_ok st'"
proof (induction n arbitrary: s st r st')
  case (Suc n)
  let ?st = "set_errno E_NONE st"
  have ok: "table_ok ?st" using Suc.prems(2) by (simp add: table_ok_def set_errno_def)
  have send: "table_ok st1 \<Longrightarrow> espm_sendmsg cs po msg sz sty w st1 = Some (k, st2) \<Longrightarrow> table_ok st2"
    for cs po msg sz sty w st1 k st2
    by (metis fdns_sendmsg fdns_keep)
  have fin: "table_ok st'"
    if "table_ok st1" and "(if \<not> sim_running pl then Some (0, st1)
            else if \<not> in_thread pl then Some (0, st1)
            else if length (fdlist st1) \<le> i then None
            else do {
              st \<leftarrow> (if connected (fdlist st1 ! i) then
                        map_option snd (espm_sendmsg (char_signed pl) (controlport st1)
                          (close_message (fdlist st1 ! i) @ [0]) (-1) ESCAPENONE True st1)
                      else Some st1);
              Some (0, erase_fd i st)
            }) = Some (r, st')" for st1 i
    using that by (auto simp: bind_eq_Some_conv intro!: erase_table dest: send split: if_splits)
  show ?case
  proof (cases "espm_getind ?st s")
    case None
    with Suc.prems ok show ?thesis by (auto simp: Let_def fail_def table_ok_def set_errno_def)
  next
    case (Some i)
    show ?thesis
    proof (cases "s = controlfd ?st")
      case True
      with Some Suc.prems ok show ?thesis by (auto simp: Let_def fail_def table_ok_def set_errno_def)
    next
      case False
      let ?d = "fdlist ?st ! i"
      let ?own = "espm_getind ?st (fd_owner ?d)"
      obtain st1 where st1: "(if islistening ?d then
             (if ?own \<noteq> None then close_owners (close_at_depth pl n) (length (fdlist ?st)) 0 ?st else Some ?st)
             else case ?own of None \<Rightarrow> Some ?st
               | Some oi \<Rightarrow> Some (upd_fd oi (connections_update (\<lambda>c. c - 1)) ?st)) = Some st1"
        and rest: "(if \<not> sim_running pl then Some (0, st1)
            else if \<not> in_thread pl then Some (0, st1)
            else if length (fdlist st1) \<le> i then None
            else do {
              st \<leftarrow> (if connected (fdlist st1 ! i) then
                        map_option snd (espm_sendmsg (char_signed pl) (controlport st1)
                          (close_message (fdlist st1 ! i) @ [0]) (-1) ESCAPENONE True st1)
                      else Some st1);
              Some (0, erase_fd i st)
            }) = Some (r, st')"
        using Suc.prems(1) Some False by (auto simp: Let_def bind_eq_Some_conv)
      have "table_ok (upd_fd oi (connections_update (\<lambda>c. c - 1)) ?st)" for oi
        using ok by (rule fdns_keep [rotated]) (simp add: fdns_simps)
      with st1 ok close_owners_table [of "close_at_depth pl n", OF Suc.IH] have "table_ok st1"
        by (auto split: if_splits option.splits)
      with fin rest show ?thesis by blast
    qed
  qed
qed simp

lemma fdns_push_at: "push_at i bs st = Some st' \<Longrightarrow> fdns st' = fdns st"
  by (auto simp: push_at_def fdns_simps push_bytes_def split: if_splits)

lemma fdns_fill_data: "fill_data b f = Some f' \<Longrightarrow> fdns (fnet f') = fdns (fnet f)"
  by (auto simp: fill_data_def Let_def bind_eq_Some_conv fdns_simps dest!: fdns_push_at split: if_splits)

lemma fdns_takerequest: "takerequest cs c msg f = Some f' \<Longrightarrow> fdns (fnet f') = fdns (fnet f)"
  by (auto simp: takerequest_def Let_def bind_eq_Some_conv fdns_simps push_bytes_def
      dest!: fdns_sendmsg split: option.splits if_splits)

lemma fdns_fill_byte: "fill_byte cs b f = Some f' \<Longrightarrow> fdns (fnet f') = fdns (fnet f)"
  by (auto simp: fill_byte_def Let_def bind_eq_Some_conv dest!: fdns_fill_data fdns_push_at
      fdns_takerequest split: fill_mode.splits if_splits)

interpretation net_machine: invariant_machine "net_step pl" "\<lambda>f :: fill. table_ok (fnet f)"
proof unfold_locales
  fix f :: fill and op
  assume ok: "table_ok (fnet f)"
  show "table_ok (fnet (net_step pl op f))"
  proof (cases op)
    case (Op_socket d t p)
    with ok show ?thesis by (simp add: socket_table)
  next
    case (Op_setsockopt s l n v len)
    with ok show ?thesis
      by (auto simp: on_net_def table_ok_fdns dest!: fdns_setsockopt split: option.splits)
  next
    case (Op_bind s a len)
    with ok show ?thesis by (auto intro: fdns_keep [OF fdns_bind])
  next
    case (Op_listen s b)
    with ok show ?thesis by (auto intro: fdns_keep [OF fdns_listen])
  next
    case (Op_fcntl s c v)
    with ok show ?thesis by (auto intro: fdns_keep [OF fdns_fcntl])
  next
    case (Op_write s b n)
    with ok show ?thesis
      by (auto simp: on_net_def table_ok_fdns dest!: fdns_write split: option.splits)
  next
    case (Op_send s b n fl)
    with ok show ?thesis
      by (auto simp: on_net_def table_ok_fdns dest!: fdns_send split: option.splits)
  next
    case (Op_close s)
    with ok show ?thesis
      by (auto simp: on_net_def espm_close_def simp del: close_at_depth.simps
          dest: close_table split: option.splits)
  next
    case (Op_byte b)
    with ok show ?thesis
      by (auto intro: fdns_keep [OF fdns_fill_byte] split: option.splits)
  qed
qed

lemma getind_unique:
  "table_ok st \<Longrightarrow> i < length (fdlist st) \<Longrightarrow> espm_getind st (fdn (fdlist st ! i)) = Some i"
proof -
  assume ok: "table_ok st" and i: "i < length (fdlist st)"
  let ?fd = "fdn (fdlist st ! i)"
  have pos: "0 < ?fd" using ok i by (simp add: table_ok_def)
  have "?fd \<in> fdn ` set (fdlist st)" using i by simp
  then obtain j where j: "find_fd ?fd (fdlist st) 0 = Some j"
    using find_fd_None [of ?fd "fdlist st" 0] by auto
  from find_fd_Some [OF this] have "j < length (fdlist st)" "fdn (fdlist st ! j) = ?fd" by auto
  with ok i have "j = i"
    unfolding table_ok_def sorted_wrt_iff_nth_less
    by (metis length_map less_irrefl linorder_neqE_nat nth_map)
  with j pos show ?thesis by (simp add: espm_getind_def)
qed

section \<open>Properties of the table\<close>


definition empty_net :: net where
  "empty_net = \<lparr>fdlist = [], controlfd = 0, controlport = 0, portclosed = False, lastport = -1,
     errno = E_NONE, serial_out = [], room = 1000\<rparr>"

definition empty_fill :: fill where
  "empty_fill = \<lparr>fnet = empty_net, fill_ind = -1, fport = -1, fmode = Token\<rparr>"

definition linux_platform :: platform where
  "linux_platform = \<lparr>char_signed = True, ip_text = (\<lambda>ip. [0x31]), ap_mac = replicate 6 0, ap_ip = 0,
     sim_running = True, in_thread = True\<rparr>"


lemma getind_err: "espm_getind (set_errno e st) fd = espm_getind st fd"
  and fdlist_err [simp]: "fdlist (set_errno e st) = fdlist st"
  by (simp_all add: espm_getind_def set_errno_def)

text \<open>\<open>espm_socket\<close> with the arguments it supports returns a descriptor that was not in use,
  puts it at the end of the table, unconnected, unbound, with an empty buffer and the requested
  type, and leaves all other descriptors as they were.\<close>

theorem socket_is_fresh:
  assumes "table_ok st" and "espm_socket d t p st = (fd, st')" and "0 \<le> fd"
  shows "d = AF_INET \<and> (t = SOCK_STREAM \<or> t = SOCK_DGRAM) \<and> p = 0 \<and> espm_getind st fd = None \<and>
    espm_getind st' fd = Some (length (fdlist st)) \<and>
    fdlist st' = fdlist st @ [(fd_new_owner (-1))\<lparr>fdn := fd, fd_type := t\<rparr>]"
proof -
  let ?st = "set_errno E_NONE st"
  have ok: "table_ok ?st" using assms(1) by (simp add: table_ok_def set_errno_def)
  have args: "d = AF_INET" "t = SOCK_STREAM \<or> t = SOCK_DGRAM" "p = 0"
    using assms(2,3) by (auto simp: espm_socket_def Let_def fail_def split: if_splits)
  obtain n st1 where al: "alloc (-1) ?st = (n, st1)" by fastforce
  have "0 \<le> n"
    using assms(2,3) args al by (auto simp: espm_socket_def Let_def fail_def split: if_splits option.splits)
  note fresh = alloc_fresh [OF ok al this, unfolded getind_err]
  then have "fd = n" "st' = upd_fd (length (fdlist st)) (fd_type_update (\<lambda>_. t)) st1"
    using assms(2) args al \<open>0 \<le> n\<close> by (auto simp: espm_socket_def Let_def set_errno_def)
  moreover have "espm_getind (upd_fd (length (fdlist st)) (fd_type_update (\<lambda>_. t)) st1) n =
      Some (length (fdlist st))"
  proof -
    have "table_ok (upd_fd (length (fdlist st)) (fd_type_update (\<lambda>_. t)) st1)"
      by (rule fdns_keep [OF _ conjunct1 [OF fresh]]) (simp add: fdns_simps)
    from getind_unique [OF this, of "length (fdlist st)"] conjunct2 [OF fresh] show ?thesis
      by (simp add: upd_fd_def set_errno_def)
  qed
  ultimately show ?thesis
    using args fresh getind_err [of E_NONE st] by (simp add: upd_fd_def)
qed

theorem socket_is_fresh_witness:
  "espm_getind empty_net 1 = None \<and> espm_getind (snd (espm_socket 2 1 0 empty_net)) 1 = Some 0"
  using socket_is_fresh [of empty_net 2 1 0 1 "snd (espm_socket 2 1 0 empty_net)"]
  by (simp add: table_ok_def empty_net_def espm_socket_def alloc_def AF_INET_def
      SOCK_STREAM_def set_errno_def espm_getind_def fd_new_owner_def upd_fd_def)

section \<open>Framing on the serial line\<close>

text \<open>What the sender puts on the line for some data, and what the receiver should do with it\<close>

definition escaped :: "bool \<Rightarrow> u8 list \<Rightarrow> u8 list" where
  "escaped cs data = concat (map (\<lambda>b. if char_is_ff cs b then [b, b] else [b]) data)"

definition deliver :: "int \<Rightarrow> u8 list \<Rightarrow> net \<Rightarrow> net" where
  "deliver port data st =
     (case getnotlisten st port of None \<Rightarrow> st | Some i \<Rightarrow> upd_fd i (push_bytes data) st)"

lemma fold_serial_write:
  "fold serial_write bs st = st\<lparr>serial_out := serial_out st @ bs, room := room st - length bs\<rparr>"
  by (induction bs arbitrary: st) (simp_all add: serial_write_def)

lemma send_loop_all:
  "p \<le> length msg \<Longrightarrow>
     send_loop cs msg (int (length msg)) ESCAPEALL True True p st =
       Some (length msg, fold serial_write (escaped cs (drop p msg)) st)"
proof (induction "length msg - p" arbitrary: p st)
  case 0
  then show ?case by (subst send_loop.simps) (simp add: escaped_def)
next
  case (Suc n)
  then have p: "p < length msg" by simp
  let ?b = "msg ! p"
  let ?st = "if char_is_ff cs ?b then serial_write ?b (serial_write ?b st) else serial_write ?b st"
  have IH: "send_loop cs msg (int (length msg)) ESCAPEALL True True (p + 1) st' =
      Some (length msg, fold serial_write (escaped cs (drop (p + 1) msg)) st')" for st'
    using Suc p by simp
  have "escaped cs (drop p msg) =
      (if char_is_ff cs ?b then [?b, ?b] else [?b]) @ escaped cs (drop (p + 1) msg)"
    using p by (simp add: escaped_def Cons_nth_drop_Suc [symmetric])
  moreover have "msg \<noteq> []" using p by auto
  ultimately show ?case using p IH by (subst send_loop.simps) (simp add: Let_def)
qed

text \<open>A blocking write with room for its first bytes sends everything.\<close>

lemma sendmsg_all:
  assumes "data \<noteq> []" "length (fst (port_prefix port st)) + 2 \<le> room st"
  shows "espm_sendmsg cs port data (int (length data)) ESCAPEALL True st =
    Some (int (length data),
      fold serial_write (fst (port_prefix port st) @ escaped cs data) (snd (port_prefix port st)))"
proof -
  have "room (snd (port_prefix port st)) = room st" by (simp add: port_prefix_def)
  with assms show ?thesis
    by (simp add: espm_sendmsg_def case_prod_unfold Let_def no_room_def send_loop_all)
qed

lemma fill_bytes_append:
  "fill_bytes cs (as @ bs) f = Option.bind (fill_bytes cs as f) (fill_bytes cs bs)"
proof (induction as arbitrary: f)
  case (Cons a as)
  show ?case by (cases "fill_byte cs a f") (simp_all add: Cons.IH)
qed simp

lemma fill_digits:
  "(\<And>b. b \<in> set ds \<Longrightarrow> is_digit b) \<Longrightarrow> fmode f = PortDigits \<Longrightarrow>
     fill_bytes cs ds f = Some (f\<lparr>fport := digits_value (fport f) ds\<rparr>)"
proof (induction ds arbitrary: f)
  case (Cons d ds)
  let ?f = "f\<lparr>fport := fport f * 10 + digit_val d\<rparr>"
  have "fill_byte cs d f = Some ?f" using Cons.prems by (simp add: fill_byte_def)
  moreover have "fill_bytes cs ds ?f = Some (?f\<lparr>fport := digits_value (fport ?f) ds\<rparr>)"
    using Cons.prems by (intro Cons.IH) auto
  ultimately show ?case by (simp add: digits_value_def)
qed (simp add: digits_value_def)

text \<open>The port prefix selects the descriptor.\<close>

lemma fill_prefix:
  assumes "0 \<le> port" "fmode f = Token"
  shows "fill_bytes cs (0xff # dec_int port @ [0x3A]) f =
    Some (f\<lparr>fport := port, fill_ind := ind_of (getnotlisten (fnet f) port), fmode := Token\<rparr>)"
proof -
  obtain d ds where ds: "dec_nat (nat port) = d # ds"
    using dec_nat_nonempty by (cases "dec_nat (nat port)") auto
  have dig: "is_digit d" "\<And>b. b \<in> set ds \<Longrightarrow> is_digit b"
    using dec_nat_digits [of _ "nat port"] ds by auto
  have val: "digits_value (digit_val d) ds = port"
    using dec_nat_value [of "nat port"] ds assms(1) by (simp add: digits_value_def)
  have d_ff: "d \<noteq> 0xff" using dig(1) by (auto simp: is_digit_def)
  let ?f1 = "f\<lparr>fmode := Escape\<rparr>"
  let ?f2 = "f\<lparr>fport := digit_val d, fmode := PortDigits\<rparr>"
  have 1: "fill_byte cs 0xff f = Some ?f1" using assms(2) by (simp add: fill_byte_def)
  have 2: "fill_byte cs d ?f1 = Some ?f2" using dig(1) d_ff by (simp add: fill_byte_def)
  have 3: "fill_bytes cs ds ?f2 = Some (f\<lparr>fport := port, fmode := PortDigits\<rparr>)"
    using fill_digits [of ds ?f2 cs, OF dig(2)] val by simp
  have 4: "fill_byte cs 0x3A (f\<lparr>fport := port, fmode := PortDigits\<rparr>) =
      Some (f\<lparr>fport := port, fill_ind := ind_of (getnotlisten (fnet f) port), fmode := Token\<rparr>)"
    by (simp add: fill_byte_def is_digit_def Let_def)
  show ?thesis
    using assms(1) by (simp add: dec_int_pos ds 1 2 3 4 fill_bytes_append)
qed

lemma getnotlisten_len: "getnotlisten st port = Some i \<Longrightarrow> i < length (fdlist st)"
proof -
  have "find_notlisten port ds it = Some i \<Longrightarrow> i < it + length ds" for ds it
    by (induction ds arbitrary: it) (fastforce split: if_splits)+
  then show "getnotlisten st port = Some i \<Longrightarrow> i < length (fdlist st)"
    by (fastforce simp: getnotlisten_def split: if_splits)
qed

lemma find_notlisten_push:
  "i < length ds \<Longrightarrow>
   find_notlisten port (ds[i := push_bytes bs (ds ! i)]) it = find_notlisten port ds it"
proof (induction ds arbitrary: i it)
  case (Cons d ds)
  then show ?case by (cases i) (auto simp: push_bytes_def islistening_def)
qed simp

lemma getnotlisten_push [simp]:
  "getnotlisten (upd_fd i (push_bytes bs) st) port = getnotlisten st port"
proof (cases "i < length (fdlist st)")
  case True
  then show ?thesis by (simp add: getnotlisten_def upd_fd_def find_notlisten_push)
next
  case False
  then show ?thesis by (simp add: getnotlisten_def upd_fd_def list_update_beyond)
qed

lemma push_push:
  "i < length (fdlist st) \<Longrightarrow> upd_fd i (push_bytes bs) (upd_fd i (push_bytes as) st) =
     upd_fd i (push_bytes (as @ bs)) st"
  by (simp add: upd_fd_def push_bytes_def)

definition synced :: "int \<Rightarrow> fill \<Rightarrow> bool" where
  "synced port f \<longleftrightarrow> fmode f = Token \<and> \<not> portclosed (fnet f) \<and>
     fport f = port \<and> fill_ind f = ind_of (getnotlisten (fnet f) port)"

lemma synced_push: "synced port f \<Longrightarrow> synced port (f\<lparr>fnet := deliver p bs (fnet f)\<rparr>)"
  by (auto simp: synced_def deliver_def upd_fd_def[of _ "push_bytes _"] split: option.splits)
    (simp_all add: upd_fd_def [symmetric])

lemma deliver_append: "deliver port bs (deliver port as st) = deliver port (as @ bs) st"
  by (auto simp: deliver_def push_push dest: getnotlisten_len split: option.splits)

lemma deliver_nil: "deliver port [] st = st"
  by (auto simp: deliver_def upd_fd_def push_bytes_def dest: getnotlisten_len split: option.splits)

lemma fill_data_deliver:
  assumes "synced port f"
  shows "fill_data b (f\<lparr>fmode := m\<rparr>) = Some (f\<lparr>fnet := deliver port [b] (fnet f)\<rparr>)"
proof (cases "getnotlisten (fnet f) port")
  case None
  with assms show ?thesis by (simp add: fill_data_def synced_def deliver_def ind_of_def)
next
  case (Some i)
  with assms getnotlisten_len [OF Some] show ?thesis
    by (simp add: fill_data_def synced_def deliver_def ind_of_def push_at_def)
qed

text \<open>The line is clean for some data when \<open>char\<close> is unsigned, or when no byte is 0xff.\<close>

definition line_clean :: "bool \<Rightarrow> u8 list \<Rightarrow> bool" where
  "line_clean cs data \<longleftrightarrow> \<not> cs \<or> 0xff \<notin> set data"

lemma char_is_ff_unsigned [simp]: "char_is_ff False b \<longleftrightarrow> b = 0xff"
proof -
  have "uint b = 255 \<longleftrightarrow> b = 0xff"
    using word_uint_eq_iff [of b "0xff"] by simp
  then show ?thesis by (simp add: char_is_ff_def)
qed

lemma char_is_ff_signed [simp]: "\<not> char_is_ff True b"
  using sint_lt [of b] by (simp add: char_is_ff_def)

lemma escaped_signed: "escaped True data = data"
  by (induction data) (simp_all add: escaped_def)

lemma fill_escaped:
  "synced port f \<Longrightarrow> line_clean cs data \<Longrightarrow>
     fill_bytes cs' (escaped cs data) f = Some (f\<lparr>fnet := deliver port data (fnet f)\<rparr>)"
proof (induction data arbitrary: f)
  case Nil
  then show ?case by (simp add: escaped_def deliver_nil)
next
  case (Cons b data)
  let ?f = "f\<lparr>fnet := deliver port [b] (fnet f)\<rparr>"
  have tok: "fmode f = Token" using Cons.prems(1) by (simp add: synced_def)
  then have f_tok: "f\<lparr>fmode := Token\<rparr> = f" by simp
  have "fill_bytes cs' (if char_is_ff cs b then [b, b] else [b]) f = Some ?f"
  proof (cases "b = 0xff")
    case True
    with Cons.prems(2) have "cs = False" by (auto simp: line_clean_def)
    with True tok fill_data_deliver [OF Cons.prems(1), of b Escape] show ?thesis
      by (simp add: fill_byte_def)
  next
    case False
    then have "\<not> char_is_ff cs b" by (cases cs) auto
    with False tok fill_data_deliver [OF Cons.prems(1), of b Token, unfolded f_tok] show ?thesis
      by (simp add: fill_byte_def)
  qed
  moreover have "escaped cs (b # data) = (if char_is_ff cs b then [b, b] else [b]) @ escaped cs data"
    by (simp add: escaped_def)
  moreover have "fill_bytes cs' (escaped cs data) ?f = Some (?f\<lparr>fnet := deliver port data (fnet ?f)\<rparr>)"
    using Cons.prems by (intro Cons.IH synced_push) (auto simp: line_clean_def)
  ultimately show ?case
    by (simp only: fill_bytes_append bind.bind_lunit) (simp add: deliver_append)
qed

text \<open>Sender and receiver agree on the port selected last (-1 when none is).\<close>

definition agree :: "net \<Rightarrow> fill \<Rightarrow> bool" where
  "agree s f \<longleftrightarrow> fmode f = Token \<and> \<not> portclosed (fnet f) \<and>
     (0 \<le> lastport s \<longrightarrow> synced (lastport s) f)"

lemma portclosed_deliver [simp]: "portclosed (deliver p bs st) = portclosed st"
  by (auto simp: deliver_def upd_fd_def split: option.splits)

lemma send_receive:
  assumes "agree s f" "0 \<le> port" "data \<noteq> []" "line_clean cs data"
    and "length (fst (port_prefix port s)) + 2 \<le> room s"
  shows "\<exists>s' bytes f'. espm_sendmsg cs port data (int (length data)) ESCAPEALL True s =
        Some (int (length data), s')
      \<and> serial_out s' = serial_out s @ bytes \<and> fill_bytes cs' bytes f = Some f'
      \<and> fnet f' = deliver port data (fnet f) \<and> agree s' f' \<and> room s \<le> room s' + length bytes
      \<and> length bytes \<le> length (fst (port_prefix port s)) + 2 * length data"
proof -
  have len: "length (escaped cs data) \<le> 2 * length data"
    by (induction data) (auto simp: escaped_def)
  obtain pre s1 where pre: "port_prefix port s = (pre, s1)" by fastforce
  have s1: "lastport s1 = port" "serial_out s1 = serial_out s" "room s1 = room s"
    using pre assms(2) by (auto simp: port_prefix_def split: if_splits)
  let ?s' = "fold serial_write (pre @ escaped cs data) s1"
  have send: "espm_sendmsg cs port data (int (length data)) ESCAPEALL True s = Some (int (length data), ?s')"
    using sendmsg_all [of data port s cs] assms(3,5) pre by simp
  let ?f1 = "f\<lparr>fport := port, fill_ind := ind_of (getnotlisten (fnet f) port)\<rparr>"
  have sync1: "synced port ?f1" using assms(1) by (simp add: synced_def agree_def)
  have "fill_bytes cs' pre f = Some ?f1"
  proof (cases "lastport s = port")
    case True
    then have "synced port f" "pre = []" using assms(1,2) pre by (auto simp: agree_def port_prefix_def)
    then show ?thesis by (simp add: synced_def)
  next
    case False
    then have "pre = 0xff # dec_int port @ [0x3A]" using pre assms(2) by (auto simp: port_prefix_def)
    with fill_prefix [OF assms(2), of f cs'] assms(1) show ?thesis by (simp add: agree_def)
  qed
  then have "fill_bytes cs' (pre @ escaped cs data) f =
      Some (?f1\<lparr>fnet := deliver port data (fnet ?f1)\<rparr>)"
    by (simp only: fill_bytes_append bind.bind_lunit fill_escaped [OF sync1 assms(4)])
  moreover have "agree ?s' (?f1\<lparr>fnet := deliver port data (fnet ?f1)\<rparr>)"
    using synced_push [OF sync1, of port data] sync1
    by (simp add: agree_def fold_serial_write s1 synced_def)
  ultimately show ?thesis
    using send len pre
    by (intro exI [of _ ?s'] exI [of _ "pre @ escaped cs data"]
        exI [of _ "?f1\<lparr>fnet := deliver port data (fnet ?f1)\<rparr>"])
      (simp add: fold_serial_write s1)
qed

text \<open>A sequence of messages, each a port and its data\<close>

fun send_messages :: "bool \<Rightarrow> (int \<times> u8 list) list \<Rightarrow> net \<Rightarrow> net option" where
  "send_messages cs [] st = Some st"
| "send_messages cs ((port, data) # ms) st = do {
     (n, st) \<leftarrow> espm_sendmsg cs port data (int (length data)) ESCAPEALL True st;
     send_messages cs ms st
   }"

definition message_room :: "(int \<times> u8 list) list \<Rightarrow> nat" where
  "message_room ms = sum_list (map (\<lambda>(port, data). length (dec_int port) + 4 + 2 * length data) ms)"

text \<open>C14: The framing of the serial line loses nothing: whatever messages firmware writes to
  whatever ports with blocking sends, the receiving thread at the other end appends to the buffer
  of the descriptor of each port exactly the bytes that were sent to it, in order, and touches no
  other descriptor.  This holds when \<open>char\<close> is unsigned, or no byte is 0xff, and the FIFO has room.\<close>

theorem serial_framing_roundtrip:
  assumes "agree s f" and "list_all (\<lambda>(port, data). 0 \<le> port \<and> data \<noteq> [] \<and> line_clean cs data) ms"
    and "message_room ms \<le> room s"
  shows "\<exists>s' bytes f'. send_messages cs ms s = Some s' \<and> serial_out s' = serial_out s @ bytes \<and>
    fill_bytes cs' bytes f = Some f' \<and> fnet f' = fold (\<lambda>(port, data). deliver port data) ms (fnet f)"
  using assms
proof (induction ms arbitrary: s f)
  case Nil
  then show ?case by (intro exI [of _ s] exI [of _ "[]"] exI [of _ f]) simp
next
  case (Cons m ms)
  obtain port data where m: "m = (port, data)" by fastforce
  have pre: "length (fst (port_prefix port s)) \<le> length (dec_int port) + 2"
    by (simp add: port_prefix_def)
  have rm: "message_room (m # ms) = length (dec_int port) + 4 + 2 * length data + message_room ms"
    by (simp add: message_room_def m)
  obtain s1 b1 f1 where 1: "espm_sendmsg cs port data (int (length data)) ESCAPEALL True s =
        Some (int (length data), s1)" "serial_out s1 = serial_out s @ b1"
      "fill_bytes cs' b1 f = Some f1" "fnet f1 = deliver port data (fnet f)" "agree s1 f1"
      "room s \<le> room s1 + length b1" "length b1 \<le> length (fst (port_prefix port s)) + 2 * length data"
    using send_receive [of s f port data cs cs'] Cons.prems pre rm unfolding m by fastforce
  have "message_room ms \<le> room s1" using 1(6,7) pre rm Cons.prems(3) by linarith
  then obtain s2 b2 f2 where 2: "send_messages cs ms s1 = Some s2" "serial_out s2 = serial_out s1 @ b2"
      "fill_bytes cs' b2 f1 = Some f2" "fnet f2 = fold (\<lambda>(port, data). deliver port data) ms (fnet f1)"
    using Cons.IH [OF 1(5)] Cons.prems(2) by auto
  show ?case
    using 1 2 by (intro exI [of _ s2] exI [of _ "b1 @ b2"] exI [of _ f2]) (simp add: m fill_bytes_append)
qed

theorem serial_framing_roundtrip_witness:
  "\<exists>s' bytes f'. send_messages False [(80, [0xff, 0x41]), (81, [0x42])] empty_net = Some s' \<and>
    serial_out s' = serial_out empty_net @ bytes \<and> fill_bytes False bytes empty_fill = Some f' \<and>
    fnet f' = fold (\<lambda>(port, data). deliver port data) [(80, [0xff, 0x41]), (81, [0x42])] (fnet empty_fill)"
  by (rule serial_framing_roundtrip)
    (simp_all add: agree_def empty_net_def empty_fill_def line_clean_def message_room_def dec_int_def
      dec_nat.simps)

text \<open>C40: With a signed \<open>char\<close>, as on x86 Linux, the comparison with 0xff never holds: the escaping
  is dead and a byte 0xff of the data goes out alone, so that the receiver takes what follows it for a
  command.  The bytes 41 ff 42 written to port 80 arrive as 41 only, and the receiver is left copying
  everything up to the next newline to the control descriptor.\<close>

theorem signed_char_corrupts_data:
  assumes "agree s f" "0 \<le> port" "length (dec_int port) + 4 \<le> room s"
    and "getnotlisten (fnet f) port = Some i"
  shows "\<exists>s' bytes f'. espm_sendmsg True port [0x41, 0xff, 0x42] 3 ESCAPEALL True s = Some (3, s') \<and>
    serial_out s' = serial_out s @ bytes \<and> fill_bytes cs bytes f = Some f' \<and>
    fnet f' = upd_fd 0 (push_bytes [0xff, 0x42]) (deliver port [0x41] (fnet f)) \<and>
    fmode f' = ControlLine"
proof -
  have pre_len: "length (fst (port_prefix port s)) \<le> length (dec_int port) + 2"
    by (simp add: port_prefix_def)
  then have rm: "length (fst (port_prefix port s)) + 2 \<le> room s" using assms(3) by linarith
  obtain s1 b1 f1 where 1: "espm_sendmsg False port [0x41] 1 ESCAPEALL True s = Some (1, s1)"
      "serial_out s1 = serial_out s @ b1" "fill_bytes cs b1 f = Some f1"
      "fnet f1 = deliver port [0x41] (fnet f)" "agree s1 f1"
    using send_receive [OF assms(1,2) _ _ rm, of "[0x41]" False cs] by (auto simp: line_clean_def)
  have b1: "b1 = fst (port_prefix port s) @ [0x41]"
    using 1(1,2) sendmsg_all [of "[0x41]" port s False] rm
    by (auto simp: fold_serial_write serial_write_def escaped_def port_prefix_def split: if_splits)
  have send: "espm_sendmsg True port [0x41, 0xff, 0x42] 3 ESCAPEALL True s =
      Some (3, fold serial_write (fst (port_prefix port s) @ [0x41, 0xff, 0x42]) (snd (port_prefix port s)))"
    using sendmsg_all [of "[0x41, 0xff, 0x42]" port s True] rm by (simp add: escaped_signed)
  have out: "serial_out (snd (port_prefix port s)) = serial_out s" by (simp add: port_prefix_def)
  have ne: "0 < length (fdlist (fnet f1))"
    using getnotlisten_len [OF assms(4)] 1(4) by (auto simp: assms(4) deliver_def upd_fd_def)
  have "fmode f1 = Token" using 1(5) by (simp add: agree_def)
  with ne have "fill_bytes cs [0xff, 0x42] f1 =
      Some (f1\<lparr>fnet := upd_fd 0 (push_bytes [0xff, 0x42]) (fnet f1), fmode := ControlLine\<rparr>)"
    by (simp add: fill_byte_def is_digit_def push_at_def)
  with 1(3) have "fill_bytes cs (b1 @ [0xff, 0x42]) f =
      Some (f1\<lparr>fnet := upd_fd 0 (push_bytes [0xff, 0x42]) (fnet f1), fmode := ControlLine\<rparr>)"
    by (simp only: fill_bytes_append bind.bind_lunit)
  with send out show ?thesis
    unfolding b1
    by (intro exI conjI) (assumption | simp add: fold_serial_write serial_write_def 1(4))+
qed

definition one_socket :: fill where
  "one_socket = empty_fill\<lparr>fnet := empty_net\<lparr>fdlist :=
     [(fd_new_owner (-1))\<lparr>fdn := 1\<rparr>, (fd_new_owner (-1))\<lparr>fdn := 2, fd_port := 80\<rparr>]\<rparr>\<rparr>"

theorem signed_char_corrupts_data_witness:
  "\<exists>s' bytes f'. espm_sendmsg True 80 [0x41, 0xff, 0x42] 3 ESCAPEALL True empty_net = Some (3, s') \<and>
    serial_out s' = serial_out empty_net @ bytes \<and> fill_bytes True bytes one_socket = Some f' \<and>
    fnet f' = upd_fd 0 (push_bytes [0xff, 0x42]) (deliver 80 [0x41] (fnet one_socket)) \<and>
    fmode f' = ControlLine"
  by (rule signed_char_corrupts_data)
    (simp_all add: agree_def empty_net_def one_socket_def empty_fill_def dec_int_def dec_nat.simps
      getnotlisten_def fd_new_owner_def islistening_def)

section \<open>Further behaviour\<close>

text \<open>A send that finds no room returns 0 and writes nothing, yet it has already recorded its
  port as the one selected last.  Repeated with room, it sends the data without the port prefix:
  the receiver appends it to the port that was really selected before.\<close>

theorem full_fifo_loses_port:
  assumes "0 \<le> port" "lastport st \<noteq> port" "data \<noteq> []" "\<not> char_is_ff cs (hd data)"
    and "room st < length (dec_int port) + 3" "2 \<le> r"
  shows "espm_sendmsg cs port data (int (length data)) ESCAPEALL True st = Some (0, st\<lparr>lastport := port\<rparr>)
    \<and> espm_sendmsg cs port data (int (length data)) ESCAPEALL True (st\<lparr>lastport := port, room := r\<rparr>) =
      Some (int (length data), st\<lparr>lastport := port, serial_out := serial_out st @ escaped cs data,
                               room := r - length (escaped cs data)\<rparr>)"
proof
  obtain b bs where data: "data = b # bs" using assms(3) by (cases data) auto
  show "espm_sendmsg cs port data (int (length data)) ESCAPEALL True st = Some (0, st\<lparr>lastport := port\<rparr>)"
    using assms by (simp add: espm_sendmsg_def port_prefix_def Let_def no_room_def data)
  show "espm_sendmsg cs port data (int (length data)) ESCAPEALL True (st\<lparr>lastport := port, room := r\<rparr>) =
      Some (int (length data), st\<lparr>lastport := port, serial_out := serial_out st @ escaped cs data,
                               room := r - length (escaped cs data)\<rparr>)"
    using sendmsg_all [of data port "st\<lparr>lastport := port, room := r\<rparr>" cs] assms
    by (simp add: port_prefix_def fold_serial_write)
qed

theorem full_fifo_loses_port_witness:
  "espm_sendmsg True 80 [0x41] 1 ESCAPEALL True (empty_net\<lparr>room := 2\<rparr>) =
     Some (0, empty_net\<lparr>lastport := 80, room := 2\<rparr>)"
  using full_fifo_loses_port [of 80 "empty_net\<lparr>room := 2\<rparr>" "[0x41]" True 10]
  by (simp add: empty_net_def dec_int_def dec_nat.simps)

text \<open>The loop of \<open>__espm_receive\<close> on buffered data\<close>

lemma receive_loop_buffered:
  "n \<le> length (buffer (fdlist st ! i)) \<Longrightarrow> i < length (fdlist st) \<Longrightarrow>
   receive_loop i t w n got st ws =
     Some (int (length got + n), got @ take n (buffer (fdlist st ! i)),
           upd_fd i (\<lambda>d. d\<lparr>buffer := drop n (buffer d)\<rparr>) st)"
proof (induction n arbitrary: got st)
  case 0
  then show ?case by (simp add: upd_fd_def)
next
  case (Suc n)
  then have ne: "buffer (fdlist st ! i) \<noteq> []" by auto
  let ?st = "upd_fd i (\<lambda>d. d\<lparr>buffer := tl (buffer d)\<rparr>) st"
  have buf: "fdlist ?st ! i = (fdlist st ! i)\<lparr>buffer := tl (buffer (fdlist st ! i))\<rparr>"
    "length (fdlist ?st) = length (fdlist st)"
    using Suc.prems(2) by (simp_all add: upd_fd_def)
  have "receive_loop i t w n (got @ [hd (buffer (fdlist st ! i))]) ?st ws =
      Some (int (length (got @ [hd (buffer (fdlist st ! i))]) + n),
        (got @ [hd (buffer (fdlist st ! i))]) @ take n (buffer (fdlist ?st ! i)),
        upd_fd i (\<lambda>d. d\<lparr>buffer := drop n (buffer d)\<rparr>) ?st)"
    using Suc.prems by (intro Suc.IH) (simp_all add: buf)
  moreover have "upd_fd i (\<lambda>d. d\<lparr>buffer := drop n (buffer d)\<rparr>) ?st =
      upd_fd i (\<lambda>d. d\<lparr>buffer := drop (Suc n) (buffer d)\<rparr>) st"
    using Suc.prems(2) by (simp add: upd_fd_def drop_Suc)
  moreover have "wait_data i t st ws = Some (Inr (st, ws))"
    using Suc.prems(2) ne by (simp add: wait_data.simps [of i t st])
  ultimately show ?case
    using Suc.prems(2) ne by (cases w; cases "buffer (fdlist st ! i)") (simp_all add: take_byte_def buf)
qed

text \<open>C39: Reading from a connected stream that has the bytes buffered returns exactly the first
  \<open>len\<close> of them in order and removes them from the buffer, whatever the timeout and whatever the
  other threads do meanwhile.\<close>

theorem read_takes_buffered:
  assumes "espm_getind st s = Some i" "fd_type (fdlist st ! i) = SOCK_STREAM" "connected (fdlist st ! i)"
    and "fd_flags (fdlist st ! i) AND O_NONBLOCK = 0 \<or> 0 < len" "len \<le> length (buffer (fdlist st ! i))"
    and "buffer (fdlist st ! i) \<noteq> []"
  shows "espm_read start s len st ws =
    Some (int len, take len (buffer (fdlist st ! i)),
          upd_fd i (\<lambda>d. d\<lparr>buffer := drop len (buffer d)\<rparr>) (set_errno E_NONE st))"
proof -
  have "espm_getind (set_errno E_NONE st) s = Some i" using assms(1) by (simp add: getind_err)
  moreover have "i < length (fdlist st)" using getind_Some [OF assms(1)] by simp
  moreover have "MSG_WAITALL AND MSG_DONTWAIT \<noteq> MSG_DONTWAIT" "\<not> 0 < sint (NOT (MSG_WAITALL OR MSG_DONTWAIT))"
    by (simp_all add: MSG_WAITALL_def MSG_DONTWAIT_def)
  ultimately show ?thesis
    using assms by (auto simp: espm_read_def espm_recv_def espm_receive_def Let_def receive_loop_buffered)
qed

definition open_stream :: net where
  "open_stream = empty_net\<lparr>fdlist := [(fd_new_owner (-1))\<lparr>fdn := 1, connected := True,
     buffer := [0x61, 0x62, 0x63]\<rparr>]\<rparr>"

theorem read_takes_buffered_witness:
  "fst (the (espm_read 0 1 2 open_stream [])) = 2 \<and> fst (snd (the (espm_read 0 1 2 open_stream []))) = [0x61, 0x62]"
  using read_takes_buffered [of open_stream 1 0 2 0 "[]"]
  by (simp add: open_stream_def empty_net_def espm_getind_def fd_new_owner_def SOCK_STREAM_def)

text \<open>\<open>espm_select\<close> with a bound that is out of range, or with neither sets nor timeout, does
  not return -1: it returns the positive number 22 and leaves the sets full, which a caller that
  tests for a positive result takes for ready descriptors.\<close>

theorem select_invalid_looks_ready:
  assumes "maxfdp1 < 0 \<or> FD_SETSIZE < maxfdp1 \<or> maxfdp1 \<noteq> 0 \<and> r = None \<and> w = None \<and> t = None"
  shows "\<exists>st'. espm_select start maxfdp1 r w t st ws = Some (22, r, w, st') \<and> errno st' = E_MINUS_ONE"
  using assms by (auto simp: espm_select_def Let_def EINVAL_code_def set_errno_def FD_SETSIZE_def)

theorem select_invalid_looks_ready_witness:
  "\<exists>st'. espm_select 0 1025 (Some [1024]) None (Some (0, 0)) empty_net [] = Some (22, Some [1024], None, st')
    \<and> errno st' = E_MINUS_ONE"
  by (rule select_invalid_looks_ready) (simp add: FD_SETSIZE_def)

lemma scan_keeps: "fd \<notin> fdn ` set ds \<Longrightarrow> select_scan m rm ds n (Some r) w = (n', Some r', w') \<Longrightarrow>
    fd \<in> set r' \<longleftrightarrow> fd \<in> set r"
proof (induction ds arbitrary: n r w)
  case (Cons d ds)
  then show ?case
    by (auto simp: scan_set_def split: option.splits if_splits)
qed simp

text \<open>What the second scan leaves in a read set, and what it counts\<close>

lemma select_scan_read:
  assumes "distinct (map fdn ds)" "distinct r"
  shows "\<exists>r'. select_scan m rm ds n (Some r) None =
      (n + int (length (filter (\<lambda>d. fdn d \<in> set r \<and> fdn d < m \<and> buffer d \<noteq> []) ds)), Some r', None)
    \<and> set r' = {fd \<in> set r. \<forall>d \<in> set ds. fdn d = fd \<longrightarrow> fd < m \<and> buffer d \<noteq> []}"
  using assms
proof (induction ds arbitrary: n r)
  case (Cons d ds)
  let ?ready = "fdn d < m \<and> buffer d \<noteq> []"
  let ?r = "if fdn d \<in> set r \<and> \<not> ?ready then removeAll (fdn d) r else r"
  let ?n = "if fdn d \<in> set r \<and> ?ready then n + 1 else n"
  have nd: "fdn d \<notin> fdn ` set ds" "distinct (map fdn ds)" using Cons.prems by auto
  have scan: "select_scan m rm (d # ds) n (Some r) None = select_scan m rm ds ?n (Some ?r) None"
    by (auto simp: scan_set_def)
  have dr: "distinct ?r" using Cons.prems(2) by (simp add: distinct_removeAll)
  obtain r' where IH: "select_scan m rm ds ?n (Some ?r) None =
      (?n + int (length (filter (\<lambda>d. fdn d \<in> set ?r \<and> fdn d < m \<and> buffer d \<noteq> []) ds)), Some r', None)"
     "set r' = {fd \<in> set ?r. \<forall>d \<in> set ds. fdn d = fd \<longrightarrow> fd < m \<and> buffer d \<noteq> []}"
    using Cons.IH [OF nd(2) dr, of ?n] by blast
  have "filter (\<lambda>d. fdn d \<in> set ?r \<and> fdn d < m \<and> buffer d \<noteq> []) ds =
      filter (\<lambda>d. fdn d \<in> set r \<and> fdn d < m \<and> buffer d \<noteq> []) ds"
    using nd(1) by (intro filter_cong) (auto simp: image_iff)
  then have "?n + int (length (filter (\<lambda>d. fdn d \<in> set ?r \<and> fdn d < m \<and> buffer d \<noteq> []) ds)) =
      n + int (length (filter (\<lambda>d. fdn d \<in> set r \<and> fdn d < m \<and> buffer d \<noteq> []) (d # ds)))"
    by auto
  moreover have "set r' = {fd \<in> set r. \<forall>d' \<in> set (d # ds). fdn d' = fd \<longrightarrow> fd < m \<and> buffer d' \<noteq> []}"
    unfolding IH(2) using nd(1) by auto
  ultimately show ?case unfolding scan IH(1) by (intro exI [of _ r']) simp
qed simp

text \<open>When \<open>espm_select\<close> returns for a read set, the set holds the requested descriptors that
  are not in the table at all or are below the bound and have data buffered, and the result is the
  number of descriptors in the table with data among those requested.\<close>

theorem select_reports_readable:
  assumes "espm_select start m (Some r) None (Some (sec, usec)) st ws = Some (n, r', w', st')"
    and "0 < m" "m \<le> FD_SETSIZE" "table_ok st'" "distinct r"
  shows "w' = None \<and>
    n = int (length (filter (\<lambda>d. fdn d \<in> set r \<and> fdn d < m \<and> buffer d \<noteq> []) (fdlist st'))) \<and>
    (case r' of None \<Rightarrow> False | Some r' \<Rightarrow>
      set r' = {fd \<in> set r. \<forall>d \<in> set (fdlist st'). fdn d = fd \<longrightarrow> fd < m \<and> buffer d \<noteq> []})"
proof -
  have "distinct (map fdn (fdlist st'))"
    using assms(4) strict_sorted_iff by (auto simp: table_ok_def)
  then obtain r1 where r1: "select_scan m (room st') (fdlist st') 0 (Some r) None =
      (0 + int (length (filter (\<lambda>d. fdn d \<in> set r \<and> fdn d < m \<and> buffer d \<noteq> []) (fdlist st'))), Some r1, None)"
    "set r1 = {fd \<in> set r. \<forall>d \<in> set (fdlist st'). fdn d = fd \<longrightarrow> fd < m \<and> buffer d \<noteq> []}"
    using select_scan_read [OF _ assms(5)] by blast
  with assms(1,2,3) show ?thesis
    by (auto simp: espm_select_def Let_def bind_eq_Some_conv case_prod_unfold split: if_splits)
qed

theorem select_reports_readable_witness:
  "\<exists>n r' w' st'. espm_select 0 2 (Some [1]) None (Some (0, 0)) open_stream [] = Some (n, r', w', st') \<and> n = 1"
proof -
  have sel: "espm_select 0 2 (Some [1]) None (Some (0, 0)) open_stream [] =
      Some (1, Some [1], None, set_errno E_NONE open_stream)"
    by (simp add: espm_select_def select_wait.simps open_stream_def empty_net_def FD_SETSIZE_def
        unsigned_long_def ready_read_def ready_write_def fd_new_owner_def scan_set_def set_errno_def Let_def)
  from select_reports_readable [OF this] show ?thesis
    by (simp add: sel)
qed

lemma fill_request_line:
  "list_all (\<lambda>b. b \<noteq> 0x0A \<and> b \<noteq> 0x20 \<and> b \<noteq> 0x3A) line \<Longrightarrow> rec \<noteq> 0x3A \<Longrightarrow>
   fmode f = Request c rec fc acc \<Longrightarrow>
   fill_bytes cs (line @ [0x0A]) f =
     map_option (\<lambda>f. f\<lparr>fmode := Token\<rparr>) (takerequest cs c (acc @ line @ [0x0A])
       (if line = [] then f else f\<lparr>fmode := Request c (last line) fc (acc @ line)\<rparr>))"
proof (induction line arbitrary: rec acc f)
  case Nil
  then show ?case
    by (cases "takerequest cs c (acc @ [0x0A]) f") (simp_all add: fill_byte_def Let_def)
next
  case (Cons b line)
  let ?f = "f\<lparr>fmode := Request c b fc (acc @ [b])\<rparr>"
  have "fill_byte cs b f = Some ?f" using Cons.prems by (simp add: fill_byte_def Let_def)
  moreover have "fill_bytes cs (line @ [0x0A]) ?f =
     map_option (\<lambda>f. f\<lparr>fmode := Token\<rparr>) (takerequest cs c ((acc @ [b]) @ line @ [0x0A])
       (if line = [] then ?f else ?f\<lparr>fmode := Request c (last line) fc ((acc @ [b]) @ line)\<rparr>))"
    using Cons.prems by (intro Cons.IH) auto
  ultimately show ?case by (cases "line = []") simp_all
qed

text \<open>A connect request from the line whose address does not parse makes the receiving thread
  dereference a null pointer: \<open>takerequest\<close> stores -1 through the \<open>ind\<close> that \<open>fillbuffers\<close>
  passed as \<open>NULL\<close>.\<close>

theorem malformed_connect_faults:
  assumes "fmode f = Token" and "list_all (\<lambda>b. b \<noteq> 0x0A \<and> b \<noteq> 0x20 \<and> b \<noteq> 0x3A) line"
    and "scan_address (line @ [0x0A]) = None"
  shows "fill_bytes cs ([0xff, 0x63] @ line @ [0x0A]) f = None"
proof -
  have "fill_bytes cs [0xff, 0x63] f = Some (f\<lparr>fmode := Request True 0 False []\<rparr>)"
    using assms(1) by (simp add: fill_byte_def is_digit_def)
  moreover have "fill_bytes cs (line @ [0x0A]) (f\<lparr>fmode := Request True 0 False []\<rparr>) = None"
    using fill_request_line [OF assms(2), of 0 "f\<lparr>fmode := Request True 0 False []\<rparr>" True False "[]" cs]
      assms(3) by (simp add: takerequest_def)
  ultimately show ?thesis unfolding fill_bytes_append by simp
qed

theorem malformed_connect_faults_witness:
  "fill_bytes True ([0xff, 0x63] @ [0x78] @ [0x0A]) empty_fill = None"
  by (rule malformed_connect_faults)
    (simp_all add: empty_fill_def scan_address_def scan_int_def is_space_def is_digit_def)

text \<open>Datagrams never arrive.  A send request looks for a descriptor that is not a stream but
  for which \<open>islistening\<close> holds, which datagram sockets never do; so, unless a sequenced-packet
  socket listens, the request is dropped without moving the index, and the data that follows it is
  appended to whatever descriptor was selected before.\<close>

theorem datagrams_never_selected:
  assumes "scan_address msg = Some (a, b, c, d, port)"
    and "list_all (\<lambda>d. fd_type d = SOCK_STREAM \<or> fd_type d = SOCK_DGRAM) (fdlist (fnet f))"
  shows "takerequest cs False msg f = Some f"
proof -
  have "list_all (\<lambda>d. fd_type d = SOCK_STREAM \<or> fd_type d = SOCK_DGRAM) ds \<Longrightarrow>
      find_target False port ds it = it + length ds" for ds it
    by (induction ds arbitrary: it)
      (auto simp: request_target_def islistening_def SOCK_STREAM_def SOCK_DGRAM_def SOCK_SEQPACKET_def)
  from this [OF assms(2), of 0] assms(1) show ?thesis
    by (simp add: takerequest_def Let_def)
qed

theorem datagrams_never_selected_witness:
  "takerequest True False (ascii ''1.2.3.4:80:'') one_socket = Some one_socket"
  by (rule datagrams_never_selected [of _ 1 2 3 4 80])
    (simp_all add: one_socket_def empty_fill_def fd_new_owner_def scan_address_def scan_int_def
      scan_char_def ascii_def is_space_def is_digit_def digit_val_def Let_def)

end
