(* ===== verification/Transport_Laws.thy ===== *)
theory Transport_Laws
  imports Transport Socket_Laws
begin

text \<open>
  Properties of the transport layer: the conversion of timeouts, the registry of transports by
  scheme (a locale, interpreted on the transport list), the life of a TCP socket, what writing
  through a TCP transport puts on the line and the receiver makes of it, and what happens to host
  names and closed sockets.
\<close>

section \<open>Timeouts\<close>

lemma c_div_parts:
  "\<bar>x - c_div x 1000 * 1000\<bar> < 1000" "0 \<le> x \<Longrightarrow> 0 \<le> x - c_div x 1000 * 1000"
  "x \<le> 0 \<Longrightarrow> x - c_div x 1000 * 1000 \<le> 0"
proof -
  have pos: "0 \<le> y \<Longrightarrow> y - c_div y 1000 * 1000 = y mod 1000" for y
    by (simp add: minus_div_mult_eq_mod)
  have neg: "c_div (- y) 1000 = - c_div y 1000" for y by (simp add: c_div_def)
  have "x - c_div x 1000 * 1000 = (if 0 \<le> x then x mod 1000 else - ((- x) mod 1000))"
    using pos [of x] pos [of "- x"] neg [of x] by (cases "0 \<le> x") auto
  then show "\<bar>x - c_div x 1000 * 1000\<bar> < 1000" "0 \<le> x \<Longrightarrow> 0 \<le> x - c_div x 1000 * 1000"
    "x \<le> 0 \<Longrightarrow> x - c_div x 1000 * 1000 \<le> 0"
    by (auto simp: abs_if)
qed

text \<open>The conversion of milliseconds is exact for every \<open>int\<close>: seconds and microseconds add up
  to the timeout, the microseconds stay below a second, and a timeout that is not negative gives a
  valid \<open>timeval\<close>.\<close>

theorem ms_to_timeval_exact:
  "case esp_transport_utils_ms_to_timeval ms of (sec, usec) \<Rightarrow>
     sec * 1000000 + usec = sint ms * 1000 \<and> \<bar>usec\<bar> < 1000000 \<and>
     (0 \<le> sint ms \<longrightarrow> 0 \<le> sec \<and> 0 \<le> usec)"
proof -
  have "\<bar>(sint ms - c_div (sint ms) 1000 * 1000) * 1000\<bar> < 1000000"
    using c_div_parts(1) [of "sint ms"] by (simp add: abs_mult)
  moreover have "0 \<le> sint ms \<Longrightarrow> 0 \<le> c_div (sint ms) 1000" by simp
  ultimately show ?thesis
    using c_div_parts(2) [of "sint ms"]
    by (simp add: esp_transport_utils_ms_to_timeval_def Let_def algebra_simps)
qed

theorem ms_to_timeval_exact_witness:
  "0 \<le> fst (esp_transport_utils_ms_to_timeval 1500) \<and> 0 \<le> snd (esp_transport_utils_ms_to_timeval 1500)"
  using ms_to_timeval_exact [of 1500] by (simp add: case_prod_unfold)

section \<open>The registry\<close>

text \<open>
  A registry: entries are added under a name, and a lookup finds the earliest entry whose name
  matches.  What was found before stays found.
\<close>

locale registry =
  fixes ok :: "'s \<Rightarrow> bool"
    and add :: "'k \<Rightarrow> 'v \<Rightarrow> 's \<Rightarrow> 's option"
    and lookup :: "'k \<Rightarrow> 's \<Rightarrow> 'v option"
    and matches :: "'k \<Rightarrow> 'k \<Rightarrow> bool"
  assumes add_ok: "ok s \<Longrightarrow> add k v s = Some s' \<Longrightarrow> ok s'"
    and lookup_add: "ok s \<Longrightarrow> add k v s = Some s' \<Longrightarrow>
      lookup q s' = (case lookup q s of Some x \<Rightarrow> Some x | None \<Rightarrow> if matches k q then Some v else None)"
begin

fun add_all :: "('k \<times> 'v) list \<Rightarrow> 's \<Rightarrow> 's option" where
  "add_all [] s = Some s"
| "add_all ((k, v) # es) s = do { s \<leftarrow> add k v s; add_all es s }"

lemma lookup_add_all:
  "ok s \<Longrightarrow> add_all es s = Some s' \<Longrightarrow>
     lookup q s' = (case lookup q s of Some x \<Rightarrow> Some x
       | None \<Rightarrow> map_option snd (List.find (\<lambda>(k, v). matches k q) es))"
proof (induction es arbitrary: s)
  case Nil
  then show ?case by (simp split: option.split)
next
  case (Cons e es)
  obtain k v where e: "e = (k, v)" by fastforce
  with Cons.prems obtain s1 where s1: "add k v s = Some s1" "add_all es s1 = Some s'"
    by (auto simp: bind_eq_Some_conv)
  from Cons.IH [OF add_ok [OF Cons.prems(1) s1(1)] s1(2)] lookup_add [OF Cons.prems(1) s1(1), of q]
  show ?case by (auto simp: e split: option.splits)
qed

end

text \<open>The transport list with the memory is one; every handle in it has a scheme.\<close>

definition list_ok :: "nat list \<times> world \<Rightarrow> bool" where
  "list_ok lw \<longleftrightarrow> list_all (\<lambda>t. case item_at t (snd lw) of None \<Rightarrow> False
      | Some i \<Rightarrow> t_scheme i \<noteq> None) (fst lw)"

definition list_add :: "u8 list \<Rightarrow> nat \<Rightarrow> nat list \<times> world \<Rightarrow> (nat list \<times> world) option" where
  "list_add s t lw =
     (case esp_transport_list_add (Some (fst lw)) (Some t) (Some s) (snd lw) of
        Some (_, Some ts, w) \<Rightarrow> Some (ts, w) | _ \<Rightarrow> None)"

definition list_lookup :: "u8 list \<Rightarrow> nat list \<times> world \<Rightarrow> nat option" where
  "list_lookup q lw = Option.bind
     (esp_transport_list_get_transport (Some (fst lw)) (Some q) (snd lw)) id"

lemma list_add_eq:
  "list_add s t (ts, w) = Some (ts', w') \<longleftrightarrow>
     (\<exists>i. item_at t w = Some i \<and> t \<notin> set ts \<and> ts' = ts @ [t] \<and> w' = put_item t (i\<lparr>t_scheme := Some s\<rparr>) w)"
  by (auto simp: list_add_def esp_transport_list_add_def bind_eq_Some_conv split: option.splits if_splits)

lemma item_at_put [simp]: "item_at t' (put_item t i w) = (if t' = t then Some i else item_at t' w)"
  by (simp add: item_at_def put_item_def)

lemma find_scheme_put:
  "t \<notin> set ts \<Longrightarrow> find_scheme q (put_item t i w) ts = find_scheme q w ts"
proof (induction ts)
  case (Cons t' ts)
  then have "find_scheme q (put_item t i w) ts = find_scheme q w ts" by simp
  with Cons.prems show ?case by (cases "item_at t' w") (simp_all cong: if_cong)
qed simp

lemma find_scheme_append:
  "find_scheme q w (ts @ us) =
     (case find_scheme q w ts of None \<Rightarrow> None | Some (Some t) \<Rightarrow> Some (Some t)
      | Some None \<Rightarrow> find_scheme q w us)"
proof (induction ts)
  case (Cons t ts)
  show ?case
  proof (cases "Option.bind (item_at t w) t_scheme")
    case None
    then show ?thesis by (cases "item_at t w") simp_all
  next
    case (Some s)
    then obtain i where "item_at t w = Some i" "t_scheme i = Some s" by (auto simp: bind_eq_Some_conv)
    with Cons.IH show ?thesis by simp
  qed
qed simp

lemma find_scheme_total: "list_ok (ts, w) \<Longrightarrow> find_scheme q w ts \<noteq> None"
  by (induction ts) (auto simp: list_ok_def split: option.splits)

interpretation transport_registry: registry list_ok list_add list_lookup strcaseeq
proof unfold_locales
  fix lw lw' :: "nat list \<times> world" and k v
  assume ok: "list_ok lw" and add: "list_add k v lw = Some lw'"
  obtain ts w ts' w' where lw: "lw = (ts, w)" "lw' = (ts', w')" by fastforce
  with add obtain i where i: "item_at v w = Some i" "v \<notin> set ts" "ts' = ts @ [v]"
      "w' = put_item v (i\<lparr>t_scheme := Some k\<rparr>) w"
    by (auto simp: list_add_eq)
  show "list_ok lw'"
    using ok i by (auto simp: lw list_ok_def list_all_iff)
  fix q
  show "list_lookup q lw' =
      (case list_lookup q lw of Some x \<Rightarrow> Some x | None \<Rightarrow> if strcaseeq k q then Some v else None)"
    using find_scheme_total [of ts w q] ok i
    by (auto simp: lw list_lookup_def esp_transport_list_get_transport_def find_scheme_append
        find_scheme_put split: option.splits)
qed

text \<open>Looking a scheme up in a transport list, without regard to case, gives the transport that
  was added first under a matching scheme, however many transports are added.\<close>

theorem transport_list_lookup:
  assumes "transport_registry.add_all es ([], w) = Some (ts, w')"
  shows "esp_transport_list_get_transport (Some ts) (Some q) w' =
    Some (map_option snd (List.find (\<lambda>(s, t). map tolower s = map tolower q) es))"
proof -
  have ok: "list_ok ([], w)" by (simp add: list_ok_def)
  have ok_all: "list_ok lw \<Longrightarrow> transport_registry.add_all es lw = Some lw' \<Longrightarrow> list_ok lw'" for lw lw'
  proof (induction es arbitrary: lw)
    case (Cons e es)
    then obtain lw1 where "list_add (fst e) (snd e) lw = Some lw1"
        "transport_registry.add_all es lw1 = Some lw'"
      by (cases e) (auto simp: bind_eq_Some_conv)
    with Cons.IH Cons.prems(1) transport_registry.add_ok show ?case by blast
  qed simp
  have "find_scheme q w' ts \<noteq> None"
    using find_scheme_total ok_all [OF ok assms] by blast
  with transport_registry.lookup_add_all [OF ok assms, of q] show ?thesis
    by (auto simp: list_lookup_def esp_transport_list_get_transport_def strcaseeq_def)
qed

definition empty_world :: world where
  "empty_world = \<lparr>trans = (\<lambda>_. None), tcps = (\<lambda>_. None), next_addr = 0, wnet = empty_net\<rparr>"

definition two_transports :: world where
  "two_transports = put_item 1 empty_item (put_item 0 empty_item empty_world)"

theorem transport_list_lookup_witness:
  "\<exists>ts w'. transport_registry.add_all [(ascii ''mqtt'', 0), (ascii ''mqtts'', 1)] ([], two_transports) =
      Some (ts, w') \<and>
    esp_transport_list_get_transport (Some ts) (Some (ascii ''MQTTS'')) w' = Some (Some 1)"
proof -
  obtain ts w' where a: "transport_registry.add_all [(ascii ''mqtt'', 0), (ascii ''mqtts'', 1)]
      ([], two_transports) = Some (ts, w')"
    by (simp add: list_add_def esp_transport_list_add_def two_transports_def)
  from transport_list_lookup [OF this, of "ascii ''MQTTS''"] a show ?thesis
    by (simp add: ascii_def tolower_def)
qed

section \<open>The life of a TCP socket\<close>

lemma tcp_of_set_sock: "tcp_of t w = Some (a, s) \<Longrightarrow> tcp_of t (set_sock a s' w) = Some (a, s')"
  by (auto simp: tcp_of_def set_sock_def esp_transport_get_context_data_def item_at_def
      bind_eq_Some_conv)

lemma tcp_of_set_net [simp]: "tcp_of t (set_net n w) = tcp_of t w"
  by (simp add: tcp_of_def set_net_def esp_transport_get_context_data_def item_at_def)

text \<open>A connection attempt either returns -1 and leaves a context that is closed (or was never
  touched, when the address could not be resolved), or returns a descriptor, and the context holds
  exactly that descriptor.\<close>

theorem tcp_connect_result:
  assumes "tcp_connect pl tn t host port timeout_ms w = Some (r, w')" and "tcp_of t w = Some (a, s)"
  shows "r = -1 \<and> (\<exists>s'. tcp_of t w' = Some (a, s') \<and> (s' < 0 \<or> w' = w)) \<or>
    0 \<le> r \<and> tcp_of t w' = Some (a, r)"
proof -
  obtain sock n where sk: "espm_socket AF_INET SOCK_STREAM 0 (wnet w) = (sock, n)" by fastforce
  have upd: "tcp_of t (set_net n2 (set_sock a s2 (set_net n1 w))) = Some (a, s2)"
    "tcp_of t (set_sock a s3 (set_net n3 (set_net n2 (set_sock a s2 (set_net n1 w))))) = Some (a, s3)"
    for n1 n2 n3 s2 s3
    using tcp_of_set_sock [of t "set_net n1 w" a s] assms(2)
      tcp_of_set_sock [of t "set_net n3 (set_net n2 (set_sock a s2 (set_net n1 w)))" a s2]
    by simp_all
  have upd1: "tcp_of t (set_sock a s2 (set_net n1 w)) = Some (a, s2)" for n1 s2
    using tcp_of_set_sock [of t "set_net n1 w" a s] assms(2) by simp
  obtain sec usec where tv: "esp_transport_utils_ms_to_timeval timeout_ms = (sec, usec)" by fastforce
  show ?thesis
    using assms
    by (auto simp: tcp_connect_def bind_eq_Some_conv sk tv Let_def upd upd1 split: if_splits)
qed

definition tcp_world :: world where
  "tcp_world = snd (the (esp_transport_tcp_init empty_world))"

lemma tcp_world_eq:
  "tcp_world = \<lparr>trans = (\<lambda>_. None)(0 := Some (empty_item\<lparr>t_data := Some 1,
      t_connect := Some Tcp_connect, t_read := Some Tcp_read, t_write := Some Tcp_write,
      t_close := Some Tcp_close, t_poll_read := Some Tcp_poll_read,
      t_poll_write := Some Tcp_poll_write, t_destroy := Some Tcp_destroy,
      t_parent := Some Default_parent\<rparr>)), tcps = (\<lambda>_. None)(1 := Some (-1)), next_addr = 2,
      wnet = empty_net\<rparr>"
  by (simp add: tcp_world_def esp_transport_tcp_init_def esp_transport_init_def empty_world_def
      esp_transport_set_func_def esp_transport_set_context_data_def set_item_def put_item_def
      item_at_def Let_def empty_item_def fun_eq_iff)

text \<open>A connection refused by the bench: the answer on the line is \<open>n\<close>.\<close>

definition refusing_turn :: turn where
  "refusing_turn = \<lparr>at_time = 0, wakeups = [\<lparr>triggered = True, now = 1,
     found = empty_net\<lparr>fdlist := [(fd_new_owner (-1))\<lparr>fdn := 1, fd_port := 80,
       buffer := [0xff, 0x6E, 0x0D, 0x0A]\<rparr>]\<rparr>\<rparr>]\<rparr>"

definition full_world :: world where
  "full_world = set_net (empty_net\<lparr>fdlist := [(fd_new_owner (-1))\<lparr>fdn := INT32_MAX\<rparr>]\<rparr>) tcp_world"

theorem tcp_connect_result_witness:
  "\<exists>w'. tcp_connect linux_platform refusing_turn 0 (Some (ascii ''1.2.3.4'')) 80 1000 full_world = Some (-1, w')
    \<and> (\<exists>s'. tcp_of 0 w' = Some (1, s') \<and> (s' < 0 \<or> w' = full_world))"
proof -
  have ip: "inet_pton (ascii ''1.2.3.4'') = Some 0x04030201"
    by (simp add: inet_pton_def octet_def ascii_def is_digit_def digit_val_def scan_char_def Let_def)
  have t: "tcp_of 0 full_world = Some (1, -1)"
    by (simp add: tcp_of_def tcp_world_eq full_world_def set_net_def esp_transport_get_context_data_def
        item_at_def)
  have n: "wnet full_world = empty_net\<lparr>fdlist := [(fd_new_owner (-1))\<lparr>fdn := INT32_MAX\<rparr>]\<rparr>"
    by (simp add: full_world_def set_net_def)
  obtain w' where c: "tcp_connect linux_platform refusing_turn 0 (Some (ascii ''1.2.3.4'')) 80 1000 full_world =
      Some (-1, w')"
    by (simp add: tcp_connect_def ip t espm_socket_def alloc_def n AF_INET_def SOCK_STREAM_def
        Let_def set_errno_def)
  from tcp_connect_result [OF c t] c show ?thesis by auto
qed

text \<open>Closing a TCP transport forgets its socket: the context is marked closed, and closing it
  again returns -1 and changes nothing.\<close>

theorem tcp_close_once:
  assumes "tcp_close pl t w = Some (r, w')" and "tcp_of t w = Some (a, s)"
  shows "\<exists>s'. tcp_of t w' = Some (a, s') \<and> s' < 0 \<and> tcp_close pl t w' = Some (-1, w')"
proof (cases "0 \<le> s")
  case True
  with assms obtain n where w': "w' = set_sock a (-1) (set_net n w)"
    by (auto simp: tcp_close_def bind_eq_Some_conv)
  have "tcp_of t w' = Some (a, -1)"
    unfolding w' using tcp_of_set_sock [of t "set_net n w" a s] assms(2) by simp
  then show ?thesis by (simp add: tcp_close_def)
next
  case False
  with assms have "w' = w" by (auto simp: tcp_close_def)
  with False assms(2) show ?thesis by (simp add: tcp_close_def)
qed

theorem tcp_close_once_witness:
  "\<exists>s'. tcp_of 0 tcp_world = Some (1, s') \<and> s' < 0 \<and> tcp_close linux_platform 0 tcp_world = Some (-1, tcp_world)"
  by (rule tcp_close_once [of linux_platform 0 tcp_world "-1"])
    (simp_all add: tcp_close_def tcp_of_def tcp_world_eq esp_transport_get_context_data_def item_at_def)

text \<open>Polling a TCP transport that is not connected is undefined: \<open>FD_SET\<close> gets the negative
  descriptor.  So are the reads and writes that poll first.\<close>

theorem poll_closed_faults:
  assumes "item_at t w = Some i" "t_poll_read i = Some Tcp_poll_read" "t_read i = Some Tcp_read"
    and "tcp_of t w = Some (a, s)" "s < 0"
  shows "esp_transport_poll_read oth tn (Some t) timeout_ms w = None \<and>
    esp_transport_read oth tn tn' (Some t) len timeout_ms w = None"
  using assms
  by (simp add: esp_transport_poll_read_def esp_transport_read_def tcp_read_def tcp_poll_read_def
      tcp_poll_def)

definition no_others :: others where
  "no_others = \<lparr>other_connect = (\<lambda>_ _ _ _ _ _. None), other_read = (\<lambda>_ _ _ _ _. None),
     other_write = (\<lambda>_ _ _ _ _ _. None), other_poll = (\<lambda>_ _ _ _. None),
     other_trans = (\<lambda>_ _ _. None), other_parent = (\<lambda>_ _. None)\<rparr>"

theorem poll_closed_faults_witness:
  "esp_transport_poll_read no_others refusing_turn (Some 0) 1000 tcp_world = None \<and>
    esp_transport_read no_others refusing_turn refusing_turn (Some 0) 10 1000 tcp_world = None"
proof (rule poll_closed_faults)
  show "item_at 0 tcp_world = Some (the (item_at 0 tcp_world))"
    by (simp add: tcp_world_eq item_at_def)
  show "tcp_of 0 tcp_world = Some (1, -1)"
    by (simp add: tcp_of_def tcp_world_eq esp_transport_get_context_data_def item_at_def)
qed (simp_all add: tcp_world_eq item_at_def)

text \<open>Host names cannot be connected to: for a text that is not a dotted address and from which
  \<open>sscanf\<close> does not read four numbers, \<open>resolve_dns\<close> builds the address from variables that were
  never set.  The condition on the result of \<open>sscanf\<close> is inverted: when it does read four numbers
  (say 1.2.3.400, which \<open>inet_pton\<close> refuses), the fixed address 127.210.0.55 is used.\<close>

theorem host_names_undefined:
  assumes "inet_pton h = None"
  shows "(length (scan_quad h) \<noteq> 4 \<longrightarrow> tcp_connect pl tn t (Some h) port timeout_ms w = None) \<and>
    (length (scan_quad h) = 4 \<longrightarrow> resolve_dns (Some h) = Some (0, 0x3700D27F))"
proof -
  have "(127 :: u32) OR push_bit 8 210 OR push_bit 16 0 OR push_bit 24 55 = 0x3700D27F" by simp
  with assms show ?thesis
    by (auto simp: tcp_connect_def resolve_dns_def bind_eq_None_conv split: prod.split)
qed

theorem host_names_undefined_witness:
  "tcp_connect linux_platform refusing_turn 0 (Some (ascii ''localhost'')) 1883 1000 tcp_world = None"
  using host_names_undefined [of "ascii ''localhost''" linux_platform refusing_turn 0 1883 1000 tcp_world]
  by (simp add: inet_pton_def octet_def ascii_def is_digit_def scan_quad_def scan_int_def is_space_def)

section \<open>Writing through a transport\<close>

text \<open>A connected, blocking stream socket at index \<open>i\<close> of the table, below the set size\<close>

definition stream_at :: "net \<Rightarrow> int \<Rightarrow> nat \<Rightarrow> bool" where
  "stream_at n sock i \<longleftrightarrow> espm_getind n sock = Some i \<and> sock < FD_SETSIZE \<and>
     connected (fdlist n ! i) \<and> fd_type (fdlist n ! i) \<noteq> SOCK_DGRAM \<and> blocking (fdlist n ! i)"

lemma count_ready_pos:
  "d \<in> set ds \<Longrightarrow> fdn d = sock \<Longrightarrow> 0 < rm \<Longrightarrow> sorted_wrt (<) (map fdn ds) \<Longrightarrow>
   0 < count_ready (sock + 1) None (Some [sock]) rm ds"
proof (induction ds)
  case (Cons e ds)
  show ?case
  proof (cases "fdn e = sock")
    case False
    with Cons.prems have "d \<in> set ds" by auto
    with Cons.prems have "fdn e < sock" by auto
    with Cons \<open>d \<in> set ds\<close> show ?thesis by auto
  qed (use Cons.prems in \<open>simp add: ready_write_def\<close>)
qed simp

lemma select_scan_write:
  "distinct (map fdn ds) \<Longrightarrow> 0 < rm \<Longrightarrow> d \<in> set ds \<Longrightarrow> fdn d = sock \<Longrightarrow>
   \<exists>w'. select_scan (sock + 1) rm ds n None (Some [sock]) = (n + 1, None, w')"
proof (induction ds arbitrary: n)
  case (Cons e ds)
  have skip: "sock \<notin> fdn ` set ds \<Longrightarrow>
      select_scan (sock + 1) rm ds m None (Some [sock]) = (m, None, Some [sock])" for m ds
    by (induction ds) (auto simp: scan_set_def)
  show ?case
  proof (cases "fdn e = sock")
    case True
    with Cons.prems have "sock \<notin> fdn ` set ds" by auto
    with True Cons.prems(2) show ?thesis by (simp add: scan_set_def skip)
  next
    case False
    with Cons show ?thesis by (auto simp: scan_set_def)
  qed
qed simp

lemma poll_write_ready:
  assumes "tcp_of t w = Some (a, sock)" "stream_at (wnet w) sock i" "table_ok (wnet w)"
    and "0 < room (wnet w)" "0 \<le> sint timeout_ms" "at_time tn < 2 ^ 63"
  shows "tcp_poll_write tn t timeout_ms w = Some (1, set_net (set_errno E_NONE (wnet w)) w)"
proof -
  let ?n = "set_errno E_NONE (wnet w)"
  obtain sec usec where tv: "esp_transport_utils_ms_to_timeval timeout_ms = (sec, usec)" by fastforce
  have nonneg: "0 \<le> sec" "0 \<le> usec" "usec < 1000000" "sec * 1000000 + usec = sint timeout_ms * 1000"
    using ms_to_timeval_exact [of timeout_ms] assms(5) by (auto simp: tv)
  have le: "sint timeout_ms < 2 ^ 31" using sint_lt [of timeout_ms] by simp
  let ?x = "int (at_time tn) + sec * 1000 + c_div usec 1000"
  have c: "c_div usec 1000 = usec div 1000" "usec div 1000 < 1000" "0 \<le> usec div 1000"
    using nonneg zdiv_mono1 [of usec 999999 1000] by simp_all
  have "sec * 1000 \<le> sint timeout_ms" using nonneg by linarith
  moreover have t63: "int (at_time tn) < 2 ^ 63"
    using assms(6) of_nat_less_iff [of "at_time tn" "2 ^ 63", where 'a = int] by simp
  ultimately have x: "int (at_time tn) \<le> ?x" "?x < 2 ^ 64"
    using nonneg c le t63 by simp_all
  have targ: "at_time tn \<le> unsigned_long ?x"
    using x by (simp add: unsigned_long_def)
  have sock: "0 \<le> sock" "sock < FD_SETSIZE" "fdn (fdlist ?n ! i) = sock" "i < length (fdlist ?n)"
    using assms(2) getind_Some [of "wnet w" sock i] by (auto simp: stream_at_def)
  have srt: "sorted_wrt (<) (map fdn (fdlist ?n))" using assms(3) by (simp add: table_ok_def)
  have rm: "0 < room ?n" using assms(4) by (simp add: set_errno_def)
  have mem: "fdlist ?n ! i \<in> set (fdlist ?n)" using sock(4) by (rule nth_mem)
  have "select_wait (sock + 1) None (Some [sock]) (unsigned_long ?x) (at_time tn) ?n (wakeups tn) = Some ?n"
    using targ count_ready_pos [OF mem sock(3) rm srt]
    by (simp add: select_wait.simps)
  moreover obtain w' where "select_scan (sock + 1) (room ?n) (fdlist ?n) 0 None (Some [sock]) =
      (0 + 1, None, w')"
    using select_scan_write [OF _ rm mem sock(3), of 0] srt by (auto simp: strict_sorted_iff)
  ultimately have "espm_select (at_time tn) (sock + 1) None (Some [sock]) (Some (sec, usec)) (wnet w)
      (wakeups tn) = Some (1, None, w', ?n)"
    using sock(1,2) by (simp add: espm_select_def Let_def)
  with sock(1,2) show ?thesis
    by (simp add: tcp_poll_write_def tcp_poll_def assms(1) tv)
qed


text \<open>A TCP transport connected to port 80\<close>

definition connected_world :: world where
  "connected_world = set_sock 1 2 (set_net (empty_net\<lparr>fdlist := [(fd_new_owner (-1))\<lparr>fdn := 1\<rparr>,
     (fd_new_owner (-1))\<lparr>fdn := 2, fd_port := 80, connected := True\<rparr>]\<rparr>) tcp_world)"




section \<open>Reading through a transport\<close>

text \<open>
  What a client of a byte stream relies on: a read of bytes that are there returns exactly them and
  removes them.  Reading in pieces is then reading at once.
\<close>

locale byte_stream =
  fixes ready :: "'s \<Rightarrow> bool"
    and avail :: "'s \<Rightarrow> u8 list"
    and read :: "'p \<Rightarrow> nat \<Rightarrow> 's \<Rightarrow> (int \<times> u8 list \<times> 's) option"
  assumes read_avail: "ready s \<Longrightarrow> 0 < n \<Longrightarrow> n \<le> length (avail s) \<Longrightarrow>
    \<exists>s'. read p n s = Some (int n, take n (avail s), s') \<and> ready s' \<and> avail s' = drop n (avail s)"
begin

fun read_pieces :: "'p \<Rightarrow> nat list \<Rightarrow> 's \<Rightarrow> (u8 list \<times> 's) option" where
  "read_pieces p [] s = Some ([], s)"
| "read_pieces p (n # ns) s =
     (case read p n s of None \<Rightarrow> None
      | Some (_, bs, s) \<Rightarrow> (case read_pieces p ns s of None \<Rightarrow> None
          | Some (cs, s) \<Rightarrow> Some (bs @ cs, s)))"

lemma read_pieces_all:
  "ready s \<Longrightarrow> \<forall>n \<in> set ns. 0 < n \<Longrightarrow> sum_list ns \<le> length (avail s) \<Longrightarrow>
   \<exists>s'. read_pieces p ns s = Some (take (sum_list ns) (avail s), s') \<and> ready s' \<and>
     avail s' = drop (sum_list ns) (avail s)"
proof (induction ns arbitrary: s)
  case (Cons n ns)
  then obtain s1 where s1: "read p n s = Some (int n, take n (avail s), s1)" "ready s1"
      "avail s1 = drop n (avail s)"
    using read_avail [of s n p] by auto
  have le: "sum_list ns \<le> length (avail s1)" using Cons.prems(3) s1(3) by simp
  have pos: "\<forall>n \<in> set ns. 0 < n" using Cons.prems(2) by simp
  obtain s' where "read_pieces p ns s1 = Some (take (sum_list ns) (avail s1), s')" "ready s'"
      "avail s' = drop (sum_list ns) (avail s1)"
    using Cons.IH [OF s1(2) pos le] by blast
  with s1 show ?case by (auto simp: take_add add.commute)
qed simp

end

text \<open>A transport over a connected, blocking TCP socket, and what the socket has buffered\<close>

definition tcp_ready :: "nat \<Rightarrow> world \<Rightarrow> bool" where
  "tcp_ready t w \<longleftrightarrow> (\<exists>i a sock k. item_at t w = Some i \<and> t_read i = Some Tcp_read \<and>
     t_poll_read i = Some Tcp_poll_read \<and> t_parent i = Some Default_parent \<and>
     tcp_of t w = Some (a, sock) \<and> espm_getind (wnet w) sock = Some k \<and> sock < FD_SETSIZE \<and>
     fd_type (fdlist (wnet w) ! k) = SOCK_STREAM \<and> connected (fdlist (wnet w) ! k) \<and>
     fd_flags (fdlist (wnet w) ! k) AND O_NONBLOCK = 0 \<and> table_ok (wnet w))"

definition tcp_avail :: "nat \<Rightarrow> world \<Rightarrow> u8 list" where
  "tcp_avail t w =
     (case tcp_of t w of None \<Rightarrow> []
      | Some (a, sock) \<Rightarrow> (case espm_getind (wnet w) sock of None \<Rightarrow> []
          | Some k \<Rightarrow> buffer (fdlist (wnet w) ! k)))"

lemma count_ready_read:
  "d \<in> set ds \<Longrightarrow> fdn d = sock \<Longrightarrow> buffer d \<noteq> [] \<Longrightarrow> sorted_wrt (<) (map fdn ds) \<Longrightarrow>
   0 < count_ready (sock + 1) (Some [sock]) None rm ds"
proof (induction ds)
  case (Cons e ds)
  show ?case
  proof (cases "fdn e = sock \<and> buffer e \<noteq> []")
    case True
    then show ?thesis by (simp add: ready_read_def)
  next
    case False
    with Cons.prems have "d \<in> set ds" by auto
    with Cons.prems have "fdn e < sock" by auto
    with Cons \<open>d \<in> set ds\<close> show ?thesis by auto
  qed
qed simp

lemma poll_read_ready:
  assumes "tcp_of t w = Some (a, sock)" "espm_getind (wnet w) sock = Some k" "sock < FD_SETSIZE"
    and "buffer (fdlist (wnet w) ! k) \<noteq> []" "table_ok (wnet w)"
  shows "\<exists>n. 0 < n \<and> tcp_poll_read tn t timeout_ms w = Some (n, set_net (set_errno E_NONE (wnet w)) w)"
proof -
  let ?n = "set_errno E_NONE (wnet w)"
  obtain sec usec where tv: "esp_transport_utils_ms_to_timeval timeout_ms = (sec, usec)" by fastforce
  have d: "k < length (fdlist ?n)" "fdn (fdlist ?n ! k) = sock" "0 \<le> sock"
    using getind_Some [OF assms(2)] by auto
  have mem: "fdlist ?n ! k \<in> set (fdlist ?n)" using d(1) by (rule nth_mem)
  have srt: "sorted_wrt (<) (map fdn (fdlist ?n))" using assms(5) by (simp add: table_ok_def)
  have buf: "buffer (fdlist ?n ! k) \<noteq> []" using assms(4) by (simp add: set_errno_def)
  have wait: "select_wait (sock + 1) (Some [sock]) None x y ?n ws = Some ?n" for x y ws
    using count_ready_read [OF mem d(2) buf srt] by (simp add: select_wait.simps)
  have "distinct (map fdn (fdlist ?n))" using srt strict_sorted_iff by auto
  then obtain r' where scan: "select_scan (sock + 1) (room ?n) (fdlist ?n) 0 (Some [sock]) None =
      (0 + int (length (filter (\<lambda>d. fdn d \<in> set [sock] \<and> fdn d < sock + 1 \<and> buffer d \<noteq> []) (fdlist ?n))), Some r', None)"
    using select_scan_read [of "fdlist ?n" "[sock]" "sock + 1" "room ?n" 0] by auto
  have "fdlist ?n ! k \<in> set (filter (\<lambda>d. fdn d \<in> set [sock] \<and> fdn d < sock + 1 \<and> buffer d \<noteq> []) (fdlist ?n))"
    using mem d(2) buf by simp
  then have pos: "0 < length (filter (\<lambda>d. fdn d \<in> set [sock] \<and> fdn d < sock + 1 \<and> buffer d \<noteq> []) (fdlist ?n))"
    by (rule length_pos_if_in_set)
  from pos have "0 < 0 + int (length (filter (\<lambda>d. fdn d \<in> set [sock] \<and> fdn d < sock + 1 \<and> buffer d \<noteq> []) (fdlist ?n)))"
    by (simp only: add_0 of_nat_0_less_iff)
  with scan obtain n where n: "0 < n" "select_scan (sock + 1) (room ?n) (fdlist ?n) 0 (Some [sock]) None = (n, Some r', None)"
    by blast
  then have "espm_select (at_time tn) (sock + 1) (Some [sock]) None (Some (sec, usec)) (wnet w) (wakeups tn) =
      Some (n, Some r', None, ?n)"
    using wait d(3) assms(3) by (simp add: espm_select_def Let_def)
  with n(1) d(3) assms(3) show ?thesis
    by (auto simp: tcp_poll_read_def tcp_poll_def assms(1) tv)
qed

lemma find_fd_fdn: "map fdn ds = map fdn es \<Longrightarrow> find_fd fd ds it = find_fd fd es it"
proof (induction ds arbitrary: es it)
  case (Cons d ds)
  then show ?case by (cases es) auto
qed simp

lemma getind_fdns: "fdns st' = fdns st \<Longrightarrow> espm_getind st' fd = espm_getind st fd"
  using find_fd_fdn [of "fdlist st'" "fdlist st" fd 0] by (simp add: espm_getind_def fdns_def)

lemma tcp_read_buffered:
  assumes "tcp_ready t w" "0 < n" "n \<le> length (tcp_avail t w)"
  shows "\<exists>w'. esp_transport_read oth tn tn' (Some t) n timeout_ms w = Some (int n, take n (tcp_avail t w), w') \<and>
     tcp_ready t w' \<and> tcp_avail t w' = drop n (tcp_avail t w)"
proof -
  from assms(1) obtain i a sock k where i: "item_at t w = Some i" "t_read i = Some Tcp_read"
    "t_poll_read i = Some Tcp_poll_read" "t_parent i = Some Default_parent"
    and sock: "tcp_of t w = Some (a, sock)" "espm_getind (wnet w) sock = Some k" "sock < FD_SETSIZE"
    and d: "fd_type (fdlist (wnet w) ! k) = SOCK_STREAM" "connected (fdlist (wnet w) ! k)"
      "fd_flags (fdlist (wnet w) ! k) AND O_NONBLOCK = 0"
    and tab: "table_ok (wnet w)"
    unfolding tcp_ready_def by blast
  let ?n = "set_errno E_NONE (wnet w)"
  have buf: "tcp_avail t w = buffer (fdlist (wnet w) ! k)" by (simp add: tcp_avail_def sock)
  with assms(2,3) have ne: "buffer (fdlist (wnet w) ! k) \<noteq> []" by auto
  obtain r where poll: "0 < r" "esp_transport_poll_read oth tn (Some t) timeout_ms w = Some (r, set_net ?n w)"
    using poll_read_ready [OF sock(1-3) ne tab] i by (auto simp: esp_transport_poll_read_def)
  have gi: "espm_getind ?n sock = Some k" by (simp add: getind_err sock)
  have fd: "fdlist ?n = fdlist (wnet w)" by (simp add: set_errno_def)
  let ?m = "upd_fd k (\<lambda>d. d\<lparr>buffer := drop n (buffer d)\<rparr>) (set_errno E_NONE ?n)"
  have rd: "espm_read (at_time tn') sock n ?n (wakeups tn') =
      Some (int n, take n (buffer (fdlist (wnet w) ! k)), ?m)"
    using read_takes_buffered [OF gi, of n] d ne assms(2,3) buf unfolding fd by simp
  have tcps: "tcps (set_net ?n w) a = Some sock"
    using sock(1) by (auto simp: tcp_of_def set_net_def bind_eq_Some_conv)
  let ?w = "set_net ?m (set_net ?n w)"
  have "esp_transport_read oth tn tn' (Some t) n timeout_ms w = Some (int n, take n (tcp_avail t w), ?w)"
    using i sock poll tcps rd assms(2)
    by (simp add: esp_transport_read_def tcp_read_def buf) (simp add: set_net_def)
  moreover have k: "k < length (fdlist (wnet w))" using getind_Some [OF sock(2)] by simp
  have tab': "table_ok ?m" "espm_getind ?m sock = Some k"
    using tab gi fdns_keep [of ?m "wnet w"] getind_fdns [of ?m "wnet w"] sock(2)
    by (simp_all add: fdns_simps)
  moreover have nth: "fdlist ?m ! k = (fdlist (wnet w) ! k)\<lparr>buffer := drop n (buffer (fdlist (wnet w) ! k))\<rparr>"
    using k by (simp add: upd_fd_def set_errno_def)
  moreover have w': "item_at t ?w = Some i" "tcp_of t ?w = Some (a, sock)" "wnet ?w = ?m"
    using i(1) sock(1) by (simp_all add: item_at_def tcp_of_set_net) (simp_all add: set_net_def)
  ultimately have "tcp_ready t ?w"
    unfolding tcp_ready_def using i sock(3) d by (intro exI [of _ i] exI [of _ a] exI [of _ sock] exI [of _ k]) simp
  moreover have "tcp_avail t ?w = drop n (tcp_avail t w)"
    unfolding buf using w' tab'(2) nth by (simp add: tcp_avail_def)
  ultimately show ?thesis
    using \<open>esp_transport_read oth tn tn' (Some t) n timeout_ms w = Some (int n, take n (tcp_avail t w), ?w)\<close>
    by blast
qed

interpretation tcp_bytes: byte_stream "tcp_ready t" "tcp_avail t"
  "\<lambda>(tn, tn', timeout_ms) n w. esp_transport_read oth tn tn' (Some t) n timeout_ms w" for t oth
proof
  fix w :: world and n :: nat and p :: "turn \<times> turn \<times> i32"
  assume "tcp_ready t w" "0 < n" "n \<le> length (tcp_avail t w)"
  then show "\<exists>w'. (case p of (tn, tn', timeout_ms) \<Rightarrow> \<lambda>n w. esp_transport_read oth tn tn' (Some t) n timeout_ms w) n w =
      Some (int n, take n (tcp_avail t w), w') \<and> tcp_ready t w' \<and> tcp_avail t w' = drop n (tcp_avail t w)"
    using tcp_read_buffered by (cases p) simp
qed

end
