(* ===== verification/Http_Url.thy ===== *)
theory Http_Url
  imports Esp_Prelude
begin

text \<open>
  The URL parser of \<open>src/esp32sdk/http_parser.cpp\<close>: \<open>parse_url_char\<close>, \<open>http_parse_host_char\<close>,
  \<open>http_parse_host\<close>, \<open>http_parser_url_init\<close> and \<open>http_parser_parse_url\<close>, as the MQTT client uses
  it.  \<open>HTTP_PARSER_STRICT\<close> is 1 (http_parser.h), so the strict branches are the ones modelled.

  The buffer is the list of its \<open>buflen\<close> bytes; a pointer \<open>p\<close> into it is its offset.  A failing
  \<open>assert\<close> is \<open>None\<close>; otherwise the result is the returned \<open>int\<close> and the structure written.  Of
  \<open>enum state\<close> only the states that the URL parser starts from or reaches are constructors.
\<close>

section \<open>Types\<close>

datatype url_state =
    s_dead | s_req_spaces_before_url | s_req_schema | s_req_schema_slash | s_req_schema_slash_slash
  | s_req_server_start | s_req_server | s_req_server_with_at | s_req_path
  | s_req_query_string_start | s_req_query_string | s_req_fragment_start | s_req_fragment

datatype http_host_state =
    s_http_host_dead | s_http_userinfo_start | s_http_userinfo | s_http_host_start
  | s_http_host_v6_start | s_http_host | s_http_host_v6 | s_http_host_v6_end
  | s_http_host_v6_zone_start | s_http_host_v6_zone | s_http_host_port_start | s_http_host_port

datatype url_field = UF_SCHEMA | UF_HOST | UF_PORT | UF_PATH | UF_QUERY | UF_FRAGMENT | UF_USERINFO

primrec uf_code :: "url_field \<Rightarrow> nat" where
  "uf_code UF_SCHEMA = 0"
| "uf_code UF_HOST = 1"
| "uf_code UF_PORT = 2"
| "uf_code UF_PATH = 3"
| "uf_code UF_QUERY = 4"
| "uf_code UF_FRAGMENT = 5"
| "uf_code UF_USERINFO = 6"

record http_parser_url =
  field_set :: u16
  url_port :: u16
  field_off :: "url_field \<Rightarrow> u16"
  field_len :: "url_field \<Rightarrow> u16"

text \<open>\<open>u->field_set & (1 << f)\<close>, and the assignments to a field\<close>

definition has_field :: "url_field \<Rightarrow> http_parser_url \<Rightarrow> bool" where
  "has_field f u \<longleftrightarrow> field_set u AND push_bit (uf_code f) 1 \<noteq> 0"

definition mark_field :: "url_field \<Rightarrow> http_parser_url \<Rightarrow> http_parser_url" where
  "mark_field f u = u\<lparr>field_set := field_set u OR push_bit (uf_code f) 1\<rparr>"

definition set_off :: "url_field \<Rightarrow> nat \<Rightarrow> http_parser_url \<Rightarrow> http_parser_url" where
  "set_off f p u = u\<lparr>field_off := (field_off u)(f := of_nat p)\<rparr>"

definition set_len :: "url_field \<Rightarrow> u16 \<Rightarrow> http_parser_url \<Rightarrow> http_parser_url" where
  "set_len f n u = u\<lparr>field_len := (field_len u)(f := n)\<rparr>"

section \<open>Classes of characters\<close>

definition LOWER :: "u8 \<Rightarrow> u8" where
  "LOWER c = c OR 0x20"

definition IS_ALPHA :: "u8 \<Rightarrow> bool" where
  "IS_ALPHA c \<longleftrightarrow> 0x61 \<le> LOWER c \<and> LOWER c \<le> 0x7A"

definition IS_NUM :: "u8 \<Rightarrow> bool" where
  "IS_NUM c \<longleftrightarrow> 0x30 \<le> c \<and> c \<le> 0x39"

definition IS_ALPHANUM :: "u8 \<Rightarrow> bool" where
  "IS_ALPHANUM c \<longleftrightarrow> IS_ALPHA c \<or> IS_NUM c"

definition IS_HEX :: "u8 \<Rightarrow> bool" where
  "IS_HEX c \<longleftrightarrow> IS_NUM c \<or> 0x61 \<le> LOWER c \<and> LOWER c \<le> 0x66"

definition IS_MARK :: "u8 \<Rightarrow> bool" where
  "IS_MARK c \<longleftrightarrow> c \<in> set (ascii ''-_.!~*'') \<union> {0x27} \<union> set (ascii ''()'')"

definition IS_USERINFO_CHAR :: "u8 \<Rightarrow> bool" where
  "IS_USERINFO_CHAR c \<longleftrightarrow> IS_ALPHANUM c \<or> IS_MARK c \<or> c \<in> set (ascii ''%;:&=+$,'')"

definition IS_HOST_CHAR :: "u8 \<Rightarrow> bool" where
  "IS_HOST_CHAR c \<longleftrightarrow> IS_ALPHANUM c \<or> c = 0x2E \<or> c = 0x2D"

text \<open>The bit map of the characters allowed in a URL, one byte for eight characters\<close>

definition normal_url_char :: "u8 list" where
  "normal_url_char =
     replicate 4 0 @
     [0 OR 2 OR 4 OR 0 OR 16 OR 32 OR 64 OR 128,
      1 OR 2 OR 4 OR 8 OR 16 OR 32 OR 64 OR 128,
      1 OR 2 OR 4 OR 8 OR 16 OR 32 OR 64 OR 128,
      1 OR 2 OR 4 OR 8 OR 16 OR 32 OR 64 OR 0] @
     replicate 7 (1 OR 2 OR 4 OR 8 OR 16 OR 32 OR 64 OR 128) @
     [1 OR 2 OR 4 OR 8 OR 16 OR 32 OR 64 OR 0] @
     replicate 16 0"

definition IS_URL_CHAR :: "u8 \<Rightarrow> bool" where
  "IS_URL_CHAR c \<longleftrightarrow> (normal_url_char ! (unat c div 8)) AND push_bit (unat c mod 8) 1 \<noteq> 0"

section \<open>The state machines\<close>

definition server_char :: "u8 \<Rightarrow> url_state" where
  "server_char ch =
     (if ch = 0x2F then s_req_path
      else if ch = 0x3F then s_req_query_string_start
      else if ch = 0x40 then s_req_server_with_at
      else if IS_USERINFO_CHAR ch \<or> ch = 0x5B \<or> ch = 0x5D then s_req_server
      else s_dead)"

definition query_char :: "u8 \<Rightarrow> url_state" where
  "query_char ch =
     (if IS_URL_CHAR ch then s_req_query_string
      else if ch = 0x3F then s_req_query_string
      else if ch = 0x23 then s_req_fragment_start
      else s_dead)"

definition parse_url_char :: "url_state \<Rightarrow> u8 \<Rightarrow> url_state" where
  "parse_url_char s ch =
     (if ch = 0x20 \<or> ch = 0x0D \<or> ch = 0x0A then s_dead
      else if ch = 0x09 \<or> ch = 0x0C then s_dead
      else case s of
        s_req_spaces_before_url \<Rightarrow>
          (if ch = 0x2F \<or> ch = 0x2A then s_req_path
           else if IS_ALPHA ch then s_req_schema else s_dead)
      | s_req_schema \<Rightarrow>
          (if IS_ALPHA ch then s else if ch = 0x3A then s_req_schema_slash else s_dead)
      | s_req_schema_slash \<Rightarrow> (if ch = 0x2F then s_req_schema_slash_slash else s_dead)
      | s_req_schema_slash_slash \<Rightarrow> (if ch = 0x2F then s_req_server_start else s_dead)
      | s_req_server_with_at \<Rightarrow> (if ch = 0x40 then s_dead else server_char ch)
      | s_req_server_start \<Rightarrow> server_char ch
      | s_req_server \<Rightarrow> server_char ch
      | s_req_path \<Rightarrow>
          (if IS_URL_CHAR ch then s
           else if ch = 0x3F then s_req_query_string_start
           else if ch = 0x23 then s_req_fragment_start
           else s_dead)
      | s_req_query_string_start \<Rightarrow> query_char ch
      | s_req_query_string \<Rightarrow> query_char ch
      | s_req_fragment_start \<Rightarrow>
          (if IS_URL_CHAR ch then s_req_fragment
           else if ch = 0x3F then s_req_fragment
           else if ch = 0x23 then s
           else s_dead)
      | s_req_fragment \<Rightarrow>
          (if IS_URL_CHAR ch then s
           else if ch = 0x3F \<or> ch = 0x23 then s
           else s_dead)
      | s_dead \<Rightarrow> s_dead)"

definition http_parse_host_char :: "http_host_state \<Rightarrow> u8 \<Rightarrow> http_host_state" where
  "http_parse_host_char s ch =
     (let userinfo = (if ch = 0x40 then s_http_host_start
                      else if IS_USERINFO_CHAR ch then s_http_userinfo else s_http_host_dead);
          v6_end = (if ch = 0x3A then s_http_host_port_start else s_http_host_dead);
          v6_start = (if IS_HEX ch \<or> ch = 0x3A \<or> ch = 0x2E then s_http_host_v6
                      else if s = s_http_host_v6 \<and> ch = 0x25 then s_http_host_v6_zone_start
                      else s_http_host_dead);
          zone_start = (if IS_ALPHANUM ch \<or> ch \<in> set (ascii ''%.-_~'') then s_http_host_v6_zone
                        else s_http_host_dead);
          port = (if IS_NUM ch then s_http_host_port else s_http_host_dead)
      in case s of
        s_http_userinfo \<Rightarrow> userinfo
      | s_http_userinfo_start \<Rightarrow> userinfo
      | s_http_host_start \<Rightarrow>
          (if ch = 0x5B then s_http_host_v6_start
           else if IS_HOST_CHAR ch then s_http_host else s_http_host_dead)
      | s_http_host \<Rightarrow> (if IS_HOST_CHAR ch then s_http_host else v6_end)
      | s_http_host_v6_end \<Rightarrow> v6_end
      | s_http_host_v6 \<Rightarrow> (if ch = 0x5D then s_http_host_v6_end else v6_start)
      | s_http_host_v6_start \<Rightarrow> v6_start
      | s_http_host_v6_zone \<Rightarrow> (if ch = 0x5D then s_http_host_v6_end else zone_start)
      | s_http_host_v6_zone_start \<Rightarrow> zone_start
      | s_http_host_port \<Rightarrow> port
      | s_http_host_port_start \<Rightarrow> port
      | s_http_host_dead \<Rightarrow> s_http_host_dead)"

section \<open>The host part\<close>

text \<open>What one character does to the fields, the machine going from \<open>s\<close> to \<open>new_s\<close> at offset \<open>p\<close>\<close>

definition enter_field :: "url_field \<Rightarrow> nat \<Rightarrow> bool \<Rightarrow> http_parser_url \<Rightarrow> http_parser_url" where
  "enter_field f p entering u =
     (let u = (if entering then mark_field f (set_len f 0 (set_off f p u)) else u)
      in set_len f (field_len u f + 1) u)"

definition host_field :: "http_host_state \<Rightarrow> http_host_state \<Rightarrow> nat \<Rightarrow> http_parser_url \<Rightarrow> http_parser_url" where
  "host_field s new_s p u =
     (case new_s of
        s_http_host \<Rightarrow>
          (let u = (if s \<noteq> s_http_host then set_off UF_HOST p u else u)
           in set_len UF_HOST (field_len u UF_HOST + 1) u)
      | s_http_host_v6 \<Rightarrow>
          (let u = (if s \<noteq> s_http_host_v6 then set_off UF_HOST p u else u)
           in set_len UF_HOST (field_len u UF_HOST + 1) u)
      | s_http_host_v6_zone_start \<Rightarrow> set_len UF_HOST (field_len u UF_HOST + 1) u
      | s_http_host_v6_zone \<Rightarrow> set_len UF_HOST (field_len u UF_HOST + 1) u
      | s_http_host_port \<Rightarrow> enter_field UF_PORT p (s \<noteq> s_http_host_port) u
      | s_http_userinfo \<Rightarrow> enter_field UF_USERINFO p (s \<noteq> s_http_userinfo) u
      | _ \<Rightarrow> u)"

fun host_loop ::
  "u8 list \<Rightarrow> nat \<Rightarrow> http_host_state \<Rightarrow> http_parser_url \<Rightarrow>
   http_parser_url + http_host_state \<times> http_parser_url" where
  "host_loop [] p s u = Inr (s, u)"
| "host_loop (ch # chs) p s u =
     (let new_s = http_parse_host_char s ch
      in if new_s = s_http_host_dead then Inl u
         else host_loop chs (p + 1) new_s (host_field s new_s p u))"

definition bad_host_end :: "http_host_state \<Rightarrow> bool" where
  "bad_host_end s \<longleftrightarrow> s \<in> {s_http_host_start, s_http_host_v6_start, s_http_host_v6,
     s_http_host_v6_zone_start, s_http_host_v6_zone, s_http_host_port_start, s_http_userinfo,
     s_http_userinfo_start}"

text \<open>The loop reads \<open>buf[off]\<close> up to \<open>buf[off + len - 1]\<close>, which must lie in the buffer.\<close>

definition http_parse_host ::
  "u8 list \<Rightarrow> http_parser_url \<Rightarrow> bool \<Rightarrow> (i32 \<times> http_parser_url) option" where
  "http_parse_host buf u found_at =
     (let off = unat (field_off u UF_HOST);
          buflen = off + unat (field_len u UF_HOST)
      in if \<not> has_field UF_HOST u then None
         else if off < buflen \<and> length buf < buflen then None
         else
           case host_loop (drop off (take buflen buf)) off
                  (if found_at then s_http_userinfo_start else s_http_host_start)
                  (set_len UF_HOST 0 u) of
             Inl u \<Rightarrow> Some (1, u)
           | Inr (s, u) \<Rightarrow> Some (if bad_host_end s then 1 else 0, u))"

section \<open>The parser\<close>

definition http_parser_url_init :: http_parser_url where
  "http_parser_url_init =
     \<lparr>field_set = 0, url_port = 0, field_off = (\<lambda>_. 0), field_len = (\<lambda>_. 0)\<rparr>"

text \<open>The field that a state belongs to; \<open>Inl\<close> for the states that are skipped or impossible.\<close>

definition url_field_of :: "url_state \<Rightarrow> url_field option option" where
  "url_field_of s =
     (case s of
        s_dead \<Rightarrow> None
      | s_req_spaces_before_url \<Rightarrow> None
      | s_req_schema_slash \<Rightarrow> Some None
      | s_req_schema_slash_slash \<Rightarrow> Some None
      | s_req_server_start \<Rightarrow> Some None
      | s_req_query_string_start \<Rightarrow> Some None
      | s_req_fragment_start \<Rightarrow> Some None
      | s_req_schema \<Rightarrow> Some (Some UF_SCHEMA)
      | s_req_server_with_at \<Rightarrow> Some (Some UF_HOST)
      | s_req_server \<Rightarrow> Some (Some UF_HOST)
      | s_req_path \<Rightarrow> Some (Some UF_PATH)
      | s_req_query_string \<Rightarrow> Some (Some UF_QUERY)
      | s_req_fragment \<Rightarrow> Some (Some UF_FRAGMENT))"

text \<open>
  The loop over the characters.  \<open>Inl\<close> is the early \<open>return 1\<close>, \<open>Inr\<close> the end of the loop with
  \<open>found_at\<close>; \<open>None\<close> the assertion on an unexpected state.
\<close>

fun url_loop ::
  "u8 list \<Rightarrow> nat \<Rightarrow> url_state \<Rightarrow> url_field option \<Rightarrow> bool \<Rightarrow> http_parser_url \<Rightarrow>
   (http_parser_url + bool \<times> http_parser_url) option" where
  "url_loop [] p s old_uf found_at u = Some (Inr (found_at, u))"
| "url_loop (ch # chs) p s old_uf found_at u =
     (let s = parse_url_char s ch; found_at = (found_at \<or> s = s_req_server_with_at)
      in if s = s_dead then Some (Inl u)
         else case url_field_of s of
           None \<Rightarrow> None
         | Some None \<Rightarrow> url_loop chs (p + 1) s old_uf found_at u
         | Some (Some uf) \<Rightarrow>
             if old_uf = Some uf
             then url_loop chs (p + 1) s old_uf found_at (set_len uf (field_len u uf + 1) u)
             else url_loop chs (p + 1) s (Some uf) found_at
                    (mark_field uf (set_len uf 1 (set_off uf p u))))"

text \<open>The loop that converts the port, \<open>v\<close> an \<open>unsigned long\<close>: \<open>None\<close> for the early \<open>return 1\<close>\<close>

fun port_value :: "u8 list \<Rightarrow> nat \<Rightarrow> nat option" where
  "port_value [] v = Some v"
| "port_value (ch # chs) v =
     (let v = nat ((int v * 10 + sint ch - 48) mod 2 ^ 64)
      in if 0xffff < v then None else port_value chs v)"

definition http_parser_parse_url ::
  "u8 list \<Rightarrow> bool \<Rightarrow> http_parser_url \<Rightarrow> (i32 \<times> http_parser_url) option" where
  "http_parser_parse_url buf is_connect u =
     (if buf = [] then Some (1, u)
      else do {
        let u = u\<lparr>url_port := 0, field_set := 0\<rparr>;
        r \<leftarrow> url_loop buf 0 (if is_connect then s_req_server_start else s_req_spaces_before_url)
               None False u;
        case r of Inl u \<Rightarrow> Some (1, u)
        | Inr (found_at, u) \<Rightarrow>
            if has_field UF_SCHEMA u \<and> \<not> has_field UF_HOST u then Some (1, u)
            else do {
              (e, u) \<leftarrow> (if has_field UF_HOST u then http_parse_host buf u found_at else Some (0, u));
              if e \<noteq> 0 then Some (1, u)
              else if is_connect \<and> field_set u \<noteq> push_bit (uf_code UF_HOST) 1 OR push_bit (uf_code UF_PORT) 1
              then Some (1, u)
              else if has_field UF_PORT u then
                (let off = unat (field_off u UF_PORT); len = unat (field_len u UF_PORT)
                 in if length buf < off + len then None
                    else case port_value (take len (drop off buf)) 0 of
                      None \<Rightarrow> Some (1, u)
                    | Some v \<Rightarrow> Some (0, u\<lparr>url_port := of_nat v\<rparr>))
              else Some (0, u)
            }
      })"

end
