(* ===== verification/Http_Url_Laws.thy ===== *)
theory Http_Url_Laws
  imports Http_Url
begin

text \<open>
  Properties of the URL parser: every field lies inside the text, whatever the text; and an address
  composed of scheme, user information, host, port and path is read back as it was composed, which
  makes composing and parsing a codec.
\<close>

section \<open>The fields stay inside the buffer\<close>

definition field_end :: "url_field \<Rightarrow> http_parser_url \<Rightarrow> nat" where
  "field_end f u = unat (field_off u f) + unat (field_len u f)"

lemma unat_suc_le: "unat ((x :: u16) + 1) \<le> unat x + 1"
  by (simp add: unat_word_ariths mod_less_eq_dividend)

lemma field_end_simps [simp]:
  "field_end f (mark_field g u) = field_end f u"
  "field_end f (u\<lparr>field_set := fs\<rparr>) = field_end f u"
  "field_end f (u\<lparr>url_port := v\<rparr>) = field_end f u"
  "f \<noteq> g \<Longrightarrow> field_end f (set_off g p u) = field_end f u"
  "f \<noteq> g \<Longrightarrow> field_end f (set_len g n u) = field_end f u"
  "field_end f (set_len f n u) = unat (field_off u f) + unat n"
  by (simp_all add: field_end_def mark_field_def set_off_def set_len_def)

lemma field_parts [simp]:
  "field_off (set_len g n u) = field_off u" "field_len (set_off g p u) = field_len u"
  "field_off (set_off f p u) f = of_nat p" "field_len (set_len f n u) f = n"
  "field_off (mark_field g u) = field_off u" "field_len (mark_field g u) = field_len u"
  "f \<noteq> g \<Longrightarrow> field_off (set_off g p u) f = field_off u f"
  "f \<noteq> g \<Longrightarrow> field_len (set_len g n u) f = field_len u f"
  "field_set (set_off g p u) = field_set u" "field_set (set_len g n u) = field_set u"
  by (simp_all add: mark_field_def set_off_def set_len_def)

lemma has_field_iff: "has_field f u \<longleftrightarrow> bit (field_set u) (uf_code f)"
  by (simp add: has_field_def and_exp_eq_0_iff_not_bit push_bit_of_1)

lemma uf_code_eq [simp]: "uf_code f = uf_code g \<longleftrightarrow> f = g"
  by (cases f; cases g) simp_all

lemma uf_code_less: "uf_code f < 16"
  by (cases f) simp_all

lemma has_field_mark [simp]: "has_field f (mark_field g u) \<longleftrightarrow> f = g \<or> has_field f u"
  using uf_code_less [of g] by (auto simp: has_field_iff mark_field_def bit_simps)

lemma has_field_set [simp]:
  "has_field f (set_off g p u) = has_field f u" "has_field f (set_len g n u) = has_field f u"
  by (simp_all add: has_field_def)

lemma parse_url_char_not_start: "parse_url_char s ch \<noteq> s_req_spaces_before_url"
  by (simp add: parse_url_char_def server_char_def query_char_def split: url_state.split)

lemma url_field_of_parsed:
  "parse_url_char s ch \<noteq> s_dead \<Longrightarrow> url_field_of (parse_url_char s ch) \<noteq> None"
  using parse_url_char_not_start [of s ch]
  by (cases "parse_url_char s ch") (simp_all add: url_field_of_def)

text \<open>What the loop keeps true at offset \<open>p\<close>: no field reaches beyond \<open>p\<close>, and the fields that only
  the host parser writes are empty.\<close>

definition url_ok :: "nat \<Rightarrow> http_parser_url \<Rightarrow> bool" where
  "url_ok p u \<longleftrightarrow> (\<forall>f. field_end f u \<le> p) \<and> field_end UF_PORT u = 0 \<and> field_end UF_USERINFO u = 0
     \<and> \<not> has_field UF_PORT u \<and> \<not> has_field UF_USERINFO u"

lemma url_field_of_not_host_fields:
  "url_field_of s = Some (Some f) \<Longrightarrow> f \<noteq> UF_PORT \<and> f \<noteq> UF_USERINFO"
  by (cases s) (auto simp: url_field_of_def)

lemma url_ok_mono: "url_ok p u \<Longrightarrow> p \<le> q \<Longrightarrow> url_ok q u"
  by (auto simp: url_ok_def intro: order.trans)

lemma url_ok_extend:
  assumes "url_ok p u" and "f \<noteq> UF_PORT" and "f \<noteq> UF_USERINFO"
  shows "url_ok (p + 1) (set_len f (field_len u f + 1) u)"
proof -
  have "unat (field_off u f) + unat (field_len u f + 1) \<le> p + 1"
  proof -
    have "unat (field_off u f) + unat (field_len u f) \<le> p"
      using assms(1) by (simp add: url_ok_def field_end_def)
    with unat_suc_le [of "field_len u f"] show ?thesis by linarith
  qed
  then have "field_end g (set_len f (field_len u f + 1) u) \<le> p + 1" for g
    using assms(1) by (cases "g = f") (auto simp: url_ok_def intro: order.trans)
  then show ?thesis using assms by (simp add: url_ok_def)
qed

lemma url_ok_enter:
  assumes "url_ok p u" and "f \<noteq> UF_PORT" and "f \<noteq> UF_USERINFO"
  shows "url_ok (p + 1) (mark_field f (set_len f 1 (set_off f p u)))"
proof -
  have "unat (of_nat p :: u16) \<le> p" by (simp add: unat_of_nat)
  then have "field_end g (mark_field f (set_len f 1 (set_off f p u))) \<le> p + 1" for g
    using assms(1) by (cases "g = f") (auto simp: url_ok_def intro: order.trans)
  then show ?thesis using assms by (simp add: url_ok_def)
qed

definition url_post :: "nat \<Rightarrow> http_parser_url + bool \<times> http_parser_url \<Rightarrow> bool" where
  "url_post q r \<longleftrightarrow> (case r of Inl u \<Rightarrow> url_ok q u | Inr (b, u) \<Rightarrow> url_ok q u)"

lemma url_loop_ok:
  "url_ok p u \<Longrightarrow> \<exists>r. url_loop buf p s old found u = Some r \<and> url_post (p + length buf) r"
proof (induction buf arbitrary: p s old found u)
  case (Cons ch chs)
  let ?s = "parse_url_char s ch"
  show ?case
  proof (cases "?s = s_dead")
    case True
    then show ?thesis using Cons.prems by (auto simp: url_post_def intro: url_ok_mono)
  next
    case False
    then obtain r where r: "url_field_of ?s = Some r"
      using url_field_of_parsed [of s ch] by auto
    show ?thesis
    proof (cases r)
      case None
      have "url_ok (p + 1) u" using Cons.prems by (rule url_ok_mono) simp
      from Cons.IH [OF this] show ?thesis using False r None by (simp add: Let_def)
    next
      case (Some f)
      then have f: "f \<noteq> UF_PORT" "f \<noteq> UF_USERINFO"
        using url_field_of_not_host_fields [of ?s f] r by auto
      note ih = Cons.IH [OF url_ok_extend [OF Cons.prems f]] Cons.IH [OF url_ok_enter [OF Cons.prems f]]
      show ?thesis using False r Some ih by (simp add: Let_def)
    qed
  qed
qed (simp add: url_post_def)

text \<open>The same for the host parser, which starts with an empty host field.\<close>

lemma early_to_host:
  "http_parse_host_char s ch = s_http_host \<Longrightarrow> s = s_http_host \<or> s = s_http_host_start"
  "http_parse_host_char s ch = s_http_host_v6 \<Longrightarrow> s = s_http_host_v6 \<or> s = s_http_host_v6_start"
  by (cases s; simp add: http_parse_host_char_def Let_def split: if_splits)+

lemma early_preserved:
  "http_parse_host_char s ch \<in> {s_http_userinfo_start, s_http_userinfo, s_http_host_start, s_http_host_v6_start} \<Longrightarrow>
   s \<in> {s_http_userinfo_start, s_http_userinfo, s_http_host_start, s_http_host_v6_start}"
  by (cases s; simp add: http_parse_host_char_def Let_def split: if_splits)

lemma set_len_ok:
  assumes "field_end f u \<le> p" and "p < n" and "\<forall>g. field_end g u \<le> n"
  shows "\<forall>g. field_end g (set_len f (field_len u f + 1) u) \<le> n"
    "field_end f (set_len f (field_len u f + 1) u) \<le> p + 1"
proof -
  show *: "field_end f (set_len f (field_len u f + 1) u) \<le> p + 1"
    using assms(1) unat_suc_le [of "field_len u f"] by (simp add: field_end_def)
  show "\<forall>g. field_end g (set_len f (field_len u f + 1) u) \<le> n"
  proof
    fix g
    show "field_end g (set_len f (field_len u f + 1) u) \<le> n"
      using * assms(2,3) by (cases "g = f") auto
  qed
qed

abbreviation host_fields :: "url_field set" where
  "host_fields \<equiv> {UF_HOST, UF_PORT, UF_USERINFO}"

definition fields_ok :: "nat \<Rightarrow> nat \<Rightarrow> http_parser_url \<Rightarrow> bool" where
  "fields_ok n p u \<longleftrightarrow> (\<forall>f. field_end f u \<le> n) \<and> (\<forall>f \<in> host_fields. field_end f u \<le> p)"

lemma fields_ok_len:
  assumes "fields_ok n p u" and "p < n" and "f \<in> host_fields"
  shows "fields_ok n (p + 1) (set_len f (field_len u f + 1) u)"
proof -
  have "field_end f u \<le> p" "\<forall>g. field_end g u \<le> n"
    using assms by (auto simp: fields_ok_def)
  note * = set_len_ok [OF this(1) assms(2) this(2)]
  have "field_end g (set_len f (field_len u f + 1) u) \<le> p + 1" if "g \<in> host_fields" for g
  proof (cases "g = f")
    case True
    then show ?thesis using *(2) by simp
  next
    case False
    then show ?thesis using assms(1) that by (auto simp: fields_ok_def intro: order.trans le_SucI)
  qed
  with *(1) show ?thesis by (simp add: fields_ok_def)
qed

lemma fields_ok_off:
  assumes "fields_ok n p u" and "p < n" and "f \<in> host_fields" and "field_len u f = 0"
  shows "fields_ok n p (set_off f p u)"
proof -
  have end_f: "field_end f (set_off f p u) \<le> p"
    using assms(4) by (simp add: field_end_def unat_of_nat)
  then have "field_end g (set_off f p u) \<le> n" for g
    using assms by (cases "g = f") (auto simp: fields_ok_def intro: order.trans)
  moreover have "field_end g (set_off f p u) \<le> p" if "g \<in> host_fields" for g
    using end_f that assms(1) by (cases "g = f") (auto simp: fields_ok_def)
  ultimately show ?thesis by (simp add: fields_ok_def)
qed

lemma fields_ok_mark [simp]: "fields_ok n p (mark_field f u) = fields_ok n p u"
  by (simp add: fields_ok_def)

lemma fields_ok_enter:
  assumes "fields_ok n p u" and "p < n" and "f \<in> host_fields"
  shows "fields_ok n (p + 1) (enter_field f p entering u)"
proof (cases entering)
  case True
  let ?v = "set_len f 0 (set_off f p u)"
  have e: "field_end f ?v \<le> p" by (simp add: unat_of_nat)
  have "field_end g ?v \<le> n" for g
    using e assms by (cases "g = f") (auto simp: fields_ok_def intro: order.trans)
  moreover have "field_end g ?v \<le> p" if "g \<in> host_fields" for g
    using e that assms(1) by (cases "g = f") (auto simp: fields_ok_def)
  ultimately have "fields_ok n p ?v" by (simp add: fields_ok_def)
  then have "fields_ok n p (mark_field f ?v)" by simp
  from fields_ok_len [OF this assms(2,3)] show ?thesis using True by (simp add: enter_field_def Let_def)
next
  case False
  then show ?thesis using fields_ok_len [OF assms] by (simp add: enter_field_def)
qed

lemma fields_ok_mono: "fields_ok n p u \<Longrightarrow> fields_ok n (p + 1) u"
  by (auto simp: fields_ok_def intro: le_SucI)

abbreviation early_states :: "http_host_state set" where
  "early_states \<equiv> {s_http_userinfo_start, s_http_userinfo, s_http_host_start, s_http_host_v6_start}"

lemma host_field_ok:
  assumes ok: "fields_ok n p u" and p: "p < n"
    and early: "s \<in> early_states \<Longrightarrow> field_len u UF_HOST = 0"
    and new: "http_parse_host_char s ch = new_s"
  shows "fields_ok n (p + 1) (host_field s new_s p u)"
    and "new_s \<in> early_states \<Longrightarrow> field_len (host_field s new_s p u) UF_HOST = 0"
proof -
  note len = fields_ok_len [OF ok p, of UF_HOST]
  note off = fields_ok_len [OF fields_ok_off [OF ok p, of UF_HOST] p, of UF_HOST]
  show "fields_ok n (p + 1) (host_field s new_s p u)"
  proof (cases new_s)
    case s_http_host
    with new early_to_host(1) [of s ch] early len off show ?thesis
      by (cases "s = s_http_host") (auto simp: host_field_def)
  next
    case s_http_host_v6
    with new early_to_host(2) [of s ch] early len off show ?thesis
      by (cases "s = s_http_host_v6") (auto simp: host_field_def)
  qed (use fields_ok_enter [OF ok p] fields_ok_mono [OF ok] len in \<open>simp_all add: host_field_def\<close>)
  assume *: "new_s \<in> early_states"
  then have "s \<in> early_states" using early_preserved [of s ch] new by simp
  then have "field_len u UF_HOST = 0" by (rule early)
  then show "field_len (host_field s new_s p u) UF_HOST = 0"
    using * by (auto simp: host_field_def enter_field_def Let_def)
qed

lemma host_loop_ok:
  assumes "fields_ok n p u" and "p + length chs \<le> n"
    and "s \<in> early_states \<Longrightarrow> field_len u UF_HOST = 0"
  shows "case host_loop chs p s u of Inl u' \<Rightarrow> fields_ok n n u' | Inr (s', u') \<Rightarrow> fields_ok n n u'"
  using assms
proof (induction chs arbitrary: p s u)
  case Nil
  then show ?case by (simp add: fields_ok_def)
next
  case (Cons ch chs)
  have p: "p < n" "p + 1 + length chs \<le> n" using Cons.prems(2) by simp_all
  note step = host_field_ok [OF Cons.prems(1) p(1) Cons.prems(3) refl]
  note ih = Cons.IH [OF step(1) p(2) step(2)]
  have "fields_ok n n u" using Cons.prems(1) by (simp add: fields_ok_def)
  with ih show ?case by (simp add: Let_def)
qed

lemma url_ok_init [simp]: "url_ok p (http_parser_url_init)"
  by (simp add: url_ok_def http_parser_url_init_def field_end_def has_field_def)

lemma parse_host_ok:
  assumes "url_ok (length buf) u" and "has_field UF_HOST u"
  shows "\<exists>e u'. http_parse_host buf u found = Some (e, u') \<and> fields_ok (length buf) (length buf) u'"
proof -
  let ?off = "unat (field_off u UF_HOST)"
  let ?fin = "?off + unat (field_len u UF_HOST)"
  have le: "?fin \<le> length buf" using assms(1) by (auto simp: url_ok_def field_end_def)
  have "\<forall>f. field_end f u \<le> length buf" using assms(1) by (simp add: url_ok_def)
  then have "field_end f (set_len UF_HOST 0 u) \<le> length buf" for f
    using le by (cases "f = UF_HOST") auto
  then have start: "fields_ok (length buf) ?off (set_len UF_HOST 0 u)"
    using assms(1) by (auto simp: fields_ok_def url_ok_def)
  have len: "?off + length (drop ?off (take ?fin buf)) \<le> length buf"
    using le by simp
  show ?thesis
    using host_loop_ok [OF start len, of "if found then s_http_userinfo_start else s_http_host_start"] le assms(2)
    by (auto simp: http_parse_host_def Let_def split: sum.splits prod.splits)
qed

text \<open>C11: \<open>http_parser_parse_url\<close> is safe on every input: whatever the text, it returns without a
  failed assertion or a read outside the text, and every field it describes, set or not, lies inside
  the text.\<close>

theorem url_fields_in_buffer:
  "\<exists>e u. http_parser_parse_url buf is_connect http_parser_url_init = Some (e, u) \<and>
     (\<forall>f. unat (field_off u f) + unat (field_len u f) \<le> length buf)"
proof (cases "buf = []")
  case True
  then show ?thesis by (simp add: http_parser_parse_url_def http_parser_url_init_def)
next
  case False
  let ?s = "if is_connect then s_req_server_start else s_req_spaces_before_url"
  have reset: "http_parser_url_init\<lparr>url_port := 0, field_set := 0\<rparr> = http_parser_url_init"
    by (simp add: http_parser_url_init_def)
  obtain r where r: "url_loop buf 0 ?s None False http_parser_url_init = Some r"
    and ok: "url_post (length buf) r"
    using url_loop_ok [OF url_ok_init [of 0]] by fastforce
  note start = http_parser_parse_url_def reset r
  show ?thesis
  proof (cases r)
    case (Inl u)
    then show ?thesis using False ok
      by (simp add: http_parser_parse_url_def reset r url_post_def url_ok_def field_end_def)
  next
    case (Inr bu)
    obtain found u where "bu = (found, u)" by fastforce
    with Inr have r': "r = Inr (found, u)" by simp
    then have u: "url_ok (length buf) u" using ok by (simp add: url_post_def)
    have "\<exists>e u'. (if has_field UF_HOST u then http_parse_host buf u found else Some (0, u)) = Some (e, u')
        \<and> fields_ok (length buf) (length buf) u'"
      using parse_host_ok [OF u] u by (auto simp: url_ok_def fields_ok_def)
    then obtain e u' where h: "(if has_field UF_HOST u then http_parse_host buf u found else Some (0, u)) = Some (e, u')"
      and u': "fields_ok (length buf) (length buf) u'" by blast
    have ends: "unat (field_off u f) + unat (field_len u f) \<le> length buf"
      "unat (field_off u' f) + unat (field_len u' f) \<le> length buf" for f
      using u u' by (simp_all add: url_ok_def fields_ok_def field_end_def)
    have port: "\<not> length buf < unat (field_off u' UF_PORT) + unat (field_len u' UF_PORT)"
      using ends(2) [of UF_PORT] by simp
    show ?thesis
      using False ends port
      by (simp add: http_parser_parse_url_def reset r r' h Let_def cong: if_cong split: option.split)
  qed
qed




section \<open>Parsing what was composed\<close>

definition put_field :: "url_field \<Rightarrow> nat \<Rightarrow> nat \<Rightarrow> http_parser_url \<Rightarrow> http_parser_url" where
  "put_field f p n u = mark_field f (set_len f (of_nat n) (set_off f p u))"

lemma put_field_enter: "mark_field f (set_len f 1 (set_off f p u)) = put_field f p 1 u"
  by (simp add: put_field_def)

lemma put_field_longer [simp]:
  "set_len f (of_nat n + 1) (put_field f p n u) = put_field f p (Suc n) u"
  by (cases u) (simp add: put_field_def mark_field_def set_len_def set_off_def ac_simps)

lemma put_field_parts [simp]:
  "field_off (put_field f p n u) f = of_nat p" "field_len (put_field f p n u) f = of_nat n"
  "f \<noteq> g \<Longrightarrow> field_off (put_field g p n u) f = field_off u f"
  "f \<noteq> g \<Longrightarrow> field_len (put_field g p n u) f = field_len u f"
  "has_field f (put_field g p n u) \<longleftrightarrow> f = g \<or> has_field f u"
  by (simp_all add: put_field_def)

text \<open>A run of characters that stay in one state extends its field.\<close>

lemma url_loop_stay:
  assumes "\<forall>ch \<in> set xs. parse_url_char s ch = s" and "url_field_of s = Some (Some f)"
    and "s \<noteq> s_req_server_with_at"
  shows "url_loop (xs @ ys) p s (Some f) found (put_field f q n u) =
     url_loop ys (p + length xs) s (Some f) found (put_field f q (n + length xs) u)"
  using assms(1)
proof (induction xs arbitrary: p n)
  case (Cons ch chs)
  have "s \<noteq> s_dead" using assms(2) by (auto simp: url_field_of_def)
  with Cons assms(2,3) show ?case by (simp add: Let_def)
qed simp

lemma url_loop_enter:
  assumes "parse_url_char s ch = s'" and "\<forall>ch \<in> set xs. parse_url_char s' ch = s'"
    and "url_field_of s' = Some (Some f)" and "s' \<noteq> s_req_server_with_at" and "old \<noteq> Some f"
  shows "url_loop (ch # xs @ ys) p s old found u =
     url_loop ys (p + Suc (length xs)) s' (Some f) found (put_field f p (Suc (length xs)) u)"
proof -
  have "s' \<noteq> s_dead" using assms(3) by (auto simp: url_field_of_def)
  then have "url_loop (ch # xs @ ys) p s old found u =
      url_loop (xs @ ys) (p + 1) s' (Some f) found (put_field f p 1 u)"
    using assms by (simp add: Let_def put_field_enter)
  with url_loop_stay [OF assms(2,3,4)] show ?thesis by simp
qed

lemma url_loop_more:
  assumes "parse_url_char s ch = s'" and "\<forall>ch \<in> set xs. parse_url_char s' ch = s'"
    and "url_field_of s' = Some (Some f)" and "s' \<noteq> s_req_server_with_at"
  shows "url_loop (ch # xs @ ys) p s (Some f) found (put_field f q n u) =
     url_loop ys (p + Suc (length xs)) s' (Some f) found (put_field f q (n + Suc (length xs)) u)"
proof -
  have "s' \<noteq> s_dead" using assms(3) by (auto simp: url_field_of_def)
  then have "url_loop (ch # xs @ ys) p s (Some f) found (put_field f q n u) =
      url_loop (xs @ ys) (p + 1) s' (Some f) found (put_field f q (Suc n) u)"
    using assms by (simp add: Let_def)
  with url_loop_stay [OF assms(2,3,4)] show ?thesis by simp
qed

subsection \<open>The characters of each part\<close>

lemma alpha_in_schema:
  "IS_ALPHA ch \<Longrightarrow> parse_url_char s_req_schema ch = s_req_schema"
  "IS_ALPHA ch \<Longrightarrow> parse_url_char s_req_spaces_before_url ch = s_req_schema"
proof -
  assume *: "IS_ALPHA ch"
  have "ch \<notin> {0x20, 0x0D, 0x0A, 0x09, 0x0C, 0x2F, 0x2A}"
  proof
    assume "ch \<in> {0x20, 0x0D, 0x0A, 0x09, 0x0C, 0x2F, 0x2A}"
    then have "\<not> IS_ALPHA ch" by (auto simp: IS_ALPHA_def LOWER_def)
    with * show False by simp
  qed
  with * show "parse_url_char s_req_schema ch = s_req_schema"
    "parse_url_char s_req_spaces_before_url ch = s_req_schema"
    by (auto simp: parse_url_char_def)
qed

lemma userinfo_not_special:
  assumes "IS_USERINFO_CHAR ch"
  shows "ch \<notin> {0x20, 0x0D, 0x0A, 0x09, 0x0C, 0x2F, 0x3F, 0x40}"
proof
  assume "ch \<in> {0x20, 0x0D, 0x0A, 0x09, 0x0C, 0x2F, 0x3F, 0x40}"
  then have "\<not> IS_USERINFO_CHAR ch"
    by (auto simp: IS_USERINFO_CHAR_def IS_ALPHANUM_def IS_NUM_def IS_MARK_def IS_ALPHA_def LOWER_def ascii_def of_char_def)
  with assms show False by simp
qed

lemma userinfo_in_server:
  "IS_USERINFO_CHAR ch \<Longrightarrow> s \<in> {s_req_server_start, s_req_server, s_req_server_with_at} \<Longrightarrow>
   parse_url_char s ch = s_req_server"
  using userinfo_not_special [of ch] by (auto simp: parse_url_char_def server_char_def)

lemma at_in_server: "parse_url_char s_req_server 0x40 = s_req_server_with_at"
  by (simp add: parse_url_char_def server_char_def)

lemma host_char_userinfo: "IS_HOST_CHAR ch \<Longrightarrow> IS_USERINFO_CHAR ch"
  by (auto simp: IS_HOST_CHAR_def IS_USERINFO_CHAR_def IS_MARK_def ascii_def)

lemma num_userinfo: "IS_NUM ch \<Longrightarrow> IS_USERINFO_CHAR ch"
  by (simp add: IS_USERINFO_CHAR_def IS_ALPHANUM_def)

lemma colon_userinfo: "IS_USERINFO_CHAR 0x3A"
  by (simp add: IS_USERINFO_CHAR_def ascii_def)

lemma num_not_host_punct: "IS_NUM ch \<Longrightarrow> 48 \<le> unat ch \<and> unat ch \<le> 57"
  by (simp add: IS_NUM_def word_le_nat_alt)

lemma slash_in_server: "s \<in> {s_req_server, s_req_server_with_at} \<Longrightarrow> parse_url_char s 0x2F = s_req_path"
  by (auto simp: parse_url_char_def server_char_def)

lemma blank_not_url:
  "\<not> IS_URL_CHAR 0x20" "\<not> IS_URL_CHAR 0x0D" "\<not> IS_URL_CHAR 0x0A" "\<not> IS_URL_CHAR 0x09"
  "\<not> IS_URL_CHAR 0x0C"
  by code_simp+

lemma url_char_in_path: "IS_URL_CHAR ch \<Longrightarrow> parse_url_char s_req_path ch = s_req_path"
proof -
  assume *: "IS_URL_CHAR ch"
  have "ch \<notin> {0x20, 0x0D, 0x0A, 0x09, 0x0C}"
  proof
    assume "ch \<in> {0x20, 0x0D, 0x0A, 0x09, 0x0C}"
    then have "\<not> IS_URL_CHAR ch" using blank_not_url by auto
    with * show False by simp
  qed
  with * show ?thesis by (simp add: parse_url_char_def)
qed


subsection \<open>The host part\<close>

lemma host_loop_stay:
  assumes "\<forall>ch \<in> set xs. http_parse_host_char s ch = s" and "s \<noteq> s_http_host_dead"
    and "\<And>p n. host_field s s p (put n) = put (Suc n)"
  shows "host_loop (xs @ ys) p s (put n) = host_loop ys (p + length xs) s (put (n + length xs))"
  using assms(1)
  by (induction xs arbitrary: p n) (simp_all add: assms(2,3) Let_def)

lemma host_loop_enter:
  assumes "http_parse_host_char s ch = s'" and "\<forall>ch \<in> set xs. http_parse_host_char s' ch = s'"
    and "s' \<noteq> s_http_host_dead" and "host_field s s' p u = put 1"
    and "\<And>p n. host_field s' s' p (put n) = put (Suc n)"
  shows "host_loop (ch # xs @ ys) p s u =
     host_loop ys (p + Suc (length xs)) s' (put (Suc (length xs)))"
  using host_loop_stay [of xs s' put ys "Suc p" 1] assms by (simp add: Let_def)

definition put_host :: "nat \<Rightarrow> nat \<Rightarrow> http_parser_url \<Rightarrow> http_parser_url" where
  "put_host p n u = set_len UF_HOST (of_nat n) (set_off UF_HOST p u)"

lemma put_host_parts [simp]:
  "field_off (put_host p n u) UF_HOST = of_nat p" "field_len (put_host p n u) UF_HOST = of_nat n"
  "f \<noteq> UF_HOST \<Longrightarrow> field_off (put_host p n u) f = field_off u f"
  "f \<noteq> UF_HOST \<Longrightarrow> field_len (put_host p n u) f = field_len u f"
  "has_field f (put_host p n u) \<longleftrightarrow> has_field f u"
  by (simp_all add: put_host_def)

lemma put_host_longer [simp]:
  "set_len UF_HOST (of_nat n + 1) (put_host p n u) = put_host p (Suc n) u"
  by (cases u) (simp add: put_host_def set_len_def set_off_def ac_simps)

lemma host_field_stay:
  "host_field s_http_host s_http_host p (put_host q n u) = put_host q (Suc n) u"
  "host_field s_http_userinfo s_http_userinfo p (put_field UF_USERINFO q n u) = put_field UF_USERINFO q (Suc n) u"
  "host_field s_http_host_port s_http_host_port p (put_field UF_PORT q n u) = put_field UF_PORT q (Suc n) u"
  by (simp_all add: host_field_def enter_field_def)

lemma host_field_enter:
  "host_field s_http_host_start s_http_host p u = set_len UF_HOST (field_len u UF_HOST + 1) (set_off UF_HOST p u)"
  "host_field s_http_userinfo_start s_http_userinfo p u = put_field UF_USERINFO p 1 u"
  "host_field s_http_host_port_start s_http_host_port p u = put_field UF_PORT p 1 u"
  by (cases u, simp add: host_field_def put_host_def put_field_def mark_field_def set_len_def
      set_off_def enter_field_def Let_def)+

lemma host_char_eqs:
  "http_parse_host_char s_http_host_start ch =
     (if ch = 0x5B then s_http_host_v6_start
      else if IS_HOST_CHAR ch then s_http_host else s_http_host_dead)"
  "http_parse_host_char s_http_host ch =
     (if IS_HOST_CHAR ch then s_http_host
      else if ch = 0x3A then s_http_host_port_start else s_http_host_dead)"
  "s \<in> {s_http_userinfo_start, s_http_userinfo} \<Longrightarrow> http_parse_host_char s ch =
     (if ch = 0x40 then s_http_host_start
      else if IS_USERINFO_CHAR ch then s_http_userinfo else s_http_host_dead)"
  "s \<in> {s_http_host_port_start, s_http_host_port} \<Longrightarrow> http_parse_host_char s ch =
     (if IS_NUM ch then s_http_host_port else s_http_host_dead)"
  unfolding http_parse_host_char_def Let_def by (simp, simp, elim insertE emptyE, simp, simp, elim insertE emptyE, simp, simp)

lemma special_chars:
  "\<not> IS_HOST_CHAR 0x5B" "\<not> IS_HOST_CHAR 0x3A" "\<not> IS_USERINFO_CHAR 0x40"
  by code_simp+

lemma host_chars:
  "IS_HOST_CHAR ch \<Longrightarrow> http_parse_host_char s_http_host_start ch = s_http_host"
  "IS_HOST_CHAR ch \<Longrightarrow> http_parse_host_char s_http_host ch = s_http_host"
  "IS_USERINFO_CHAR ch \<Longrightarrow> http_parse_host_char s_http_userinfo_start ch = s_http_userinfo"
  "IS_USERINFO_CHAR ch \<Longrightarrow> http_parse_host_char s_http_userinfo ch = s_http_userinfo"
  "IS_NUM ch \<Longrightarrow> http_parse_host_char s_http_host_port_start ch = s_http_host_port"
  "IS_NUM ch \<Longrightarrow> http_parse_host_char s_http_host_port ch = s_http_host_port"
  "http_parse_host_char s_http_userinfo 0x40 = s_http_host_start"
  "http_parse_host_char s_http_host 0x3A = s_http_host_port_start"
  using special_chars by (auto simp: host_char_eqs)

text \<open>The text between the two slashes and the path: user information, host and port.\<close>

definition user_part :: "u8 list option \<Rightarrow> u8 list" where
  "user_part user = (case user of None \<Rightarrow> [] | Some ui \<Rightarrow> ui @ [0x40])"

definition port_part :: "u8 list option \<Rightarrow> u8 list" where
  "port_part port = (case port of None \<Rightarrow> [] | Some ds \<Rightarrow> 0x3A # ds)"

definition good_port :: "u8 list option \<Rightarrow> bool" where
  "good_port port \<longleftrightarrow> (case port of None \<Rightarrow> True | Some ds \<Rightarrow> ds \<noteq> [] \<and> list_all IS_NUM ds)"

definition put_port :: "nat \<Rightarrow> u8 list option \<Rightarrow> http_parser_url \<Rightarrow> http_parser_url" where
  "put_port p port u =
     (case port of None \<Rightarrow> u | Some ds \<Rightarrow> put_field UF_PORT (p + 1) (length ds) u)"

lemma host_loop_host:
  assumes "host \<noteq> []" and "list_all IS_HOST_CHAR host" and "field_len u UF_HOST = 0"
  shows "host_loop (host @ ys) p s_http_host_start u =
     host_loop ys (p + length host) s_http_host (put_host p (length host) u)"
proof -
  obtain h hs where host: "host = h # hs" using assms(1) by (cases host) auto
  have first: "host_field s_http_host_start s_http_host p u = put_host p 1 u"
    by (simp add: host_field_enter assms(3) put_host_def)
  show ?thesis
    using assms(2) host host_loop_enter [of s_http_host_start h s_http_host hs p u "\<lambda>n. put_host p n u" ys]
    by (simp add: host_chars first host_field_stay list_all_iff)
qed

lemma host_loop_port:
  assumes "good_port port"
  shows "\<exists>s. host_loop (port_part port) p s_http_host u = Inr (s, put_port p port u) \<and> \<not> bad_host_end s"
proof (cases port)
  case None
  then show ?thesis by (simp add: port_part_def put_port_def bad_host_end_def)
next
  case (Some ds)
  then obtain d ds' where ds: "ds = d # ds'" using assms by (cases ds) (auto simp: good_port_def)
  have first: "host_field s_http_host s_http_host_port_start p u = u" by (simp add: host_field_def)
  show ?thesis
    using assms Some ds
      host_loop_enter [of s_http_host_port_start d s_http_host_port ds' "Suc p" u
        "\<lambda>n. put_field UF_PORT (Suc p) n u" "[]"]
    by (simp add: good_port_def port_part_def put_port_def host_chars host_field_enter host_field_stay
        list_all_iff first bad_host_end_def)
qed

lemma host_loop_user:
  assumes "ui \<noteq> []" and "list_all IS_USERINFO_CHAR ui"
  shows "host_loop (ui @ 0x40 # ys) p s_http_userinfo_start u =
     host_loop ys (p + length ui + 1) s_http_host_start (put_field UF_USERINFO p (length ui) u)"
proof -
  obtain c cs where ui: "ui = c # cs" using assms(1) by (cases ui) auto
  have skip: "host_field s_http_userinfo s_http_host_start q v = v" for q v by (simp add: host_field_def)
  show ?thesis
    using assms(2) ui
      host_loop_enter [of s_http_userinfo_start c s_http_userinfo cs p u
        "\<lambda>n. put_field UF_USERINFO p n u" "0x40 # ys"]
    by (simp add: host_chars host_field_enter host_field_stay list_all_iff skip)
qed




text \<open>The parts of a broker address, and its text \<open>scheme://[user@]host[:port][path]\<close>\<close>

record broker =
  br_scheme :: "u8 list"
  br_user :: "u8 list option"
  br_host :: "u8 list"
  br_port :: "u8 list option"
  br_path :: "u8 list"

definition authority :: "broker \<Rightarrow> u8 list" where
  "authority b = user_part (br_user b) @ br_host b @ port_part (br_port b)"

definition url_text :: "broker \<Rightarrow> u8 list" where
  "url_text b = br_scheme b @ [0x3A, 0x2F, 0x2F] @ authority b @ br_path b"

definition good_user :: "u8 list option \<Rightarrow> bool" where
  "good_user user \<longleftrightarrow> (case user of None \<Rightarrow> True | Some ui \<Rightarrow> ui \<noteq> [] \<and> list_all IS_USERINFO_CHAR ui)"

definition good_path :: "u8 list \<Rightarrow> bool" where
  "good_path path \<longleftrightarrow> (case path of [] \<Rightarrow> True | c # cs \<Rightarrow> c = 0x2F \<and> list_all IS_URL_CHAR cs)"

definition digits_value :: "u8 list \<Rightarrow> nat \<Rightarrow> nat" where
  "digits_value ds v = foldl (\<lambda>v d. v * 10 + (unat d - 48)) v ds"

definition good_broker :: "broker \<Rightarrow> bool" where
  "good_broker b \<longleftrightarrow> br_scheme b \<noteq> [] \<and> list_all IS_ALPHA (br_scheme b) \<and> good_user (br_user b) \<and>
     br_host b \<noteq> [] \<and> list_all IS_HOST_CHAR (br_host b) \<and> good_port (br_port b) \<and>
     (case br_port b of None \<Rightarrow> True | Some ds \<Rightarrow> digits_value ds 0 < 65536) \<and>
     good_path (br_path b) \<and> length (url_text b) < 65536"

lemma url_loop_slashes:
  "url_loop (0x3A # 0x2F # 0x2F # ys) p s_req_schema old found u =
     url_loop ys (p + 3) s_req_server_start old found u"
proof -
  have colon: "\<not> IS_ALPHA 0x3A" by code_simp
  have slashes: "parse_url_char s_req_schema 0x3A = s_req_schema_slash"
    "parse_url_char s_req_schema_slash 0x2F = s_req_schema_slash_slash"
    "parse_url_char s_req_schema_slash_slash 0x2F = s_req_server_start"
    using colon by (simp_all add: parse_url_char_def)
  have skip: "url_field_of s_req_schema_slash = Some None"
    "url_field_of s_req_schema_slash_slash = Some None" "url_field_of s_req_server_start = Some None"
    by (simp_all add: url_field_of_def)
  have "p + 1 + 1 + 1 = p + 3" by simp
  then show ?thesis by (simp only: url_loop.simps Let_def slashes skip simp_thms url_state.distinct if_False option.case)
qed

lemma url_loop_schema:
  assumes "scheme \<noteq> []" and "list_all IS_ALPHA scheme"
  shows "url_loop (scheme @ [0x3A, 0x2F, 0x2F] @ ys) 0 s_req_spaces_before_url None False u =
     url_loop ys (length scheme + 3) s_req_server_start (Some UF_SCHEMA) False
       (put_field UF_SCHEMA 0 (length scheme) u)"
proof -
  obtain c cs where s: "scheme = c # cs" using assms(1) by (cases scheme) auto
  have "url_loop (c # cs @ [0x3A, 0x2F, 0x2F] @ ys) 0 s_req_spaces_before_url None False u =
      url_loop ([0x3A, 0x2F, 0x2F] @ ys) (0 + Suc (length cs)) s_req_schema (Some UF_SCHEMA) False
        (put_field UF_SCHEMA 0 (Suc (length cs)) u)"
    using assms(2) s
    by (intro url_loop_enter) (auto simp: alpha_in_schema url_field_of_def list_all_iff)
  then have "url_loop (c # cs @ [0x3A, 0x2F, 0x2F] @ ys) 0 s_req_spaces_before_url None False u =
      url_loop ys (Suc (length cs) + 3) s_req_server_start (Some UF_SCHEMA) False
        (put_field UF_SCHEMA 0 (Suc (length cs)) u)"
    by (simp only: append_Cons append_Nil url_loop_slashes add_0)
  then show ?thesis by (simp only: s append_Cons list.size add_Suc_right add_Suc add_0_right add_0)
qed

lemma url_loop_at:
  "url_loop (0x40 # zs) p s_req_server (Some UF_HOST) found (put_field UF_HOST q n u) =
     url_loop zs (p + 1) s_req_server_with_at (Some UF_HOST) True (put_field UF_HOST q (Suc n) u)"
  by (simp add: at_in_server Let_def url_field_of_def)

lemma url_loop_authority:
  assumes "good_user (br_user b)" and "br_host b \<noteq> []" and "list_all IS_HOST_CHAR (br_host b)"
    and "good_port (br_port b)"
  shows "url_loop (authority b @ ys) p s_req_server_start (Some UF_SCHEMA) False u =
     url_loop ys (p + length (authority b)) s_req_server (Some UF_HOST) (br_user b \<noteq> None)
       (put_field UF_HOST p (length (authority b)) u)"
proof -
  let ?rest = "br_host b @ port_part (br_port b)"
  have all: "\<forall>ch \<in> set ?rest. IS_USERINFO_CHAR ch"
    using assms(3,4) host_char_userinfo num_userinfo colon_userinfo
    by (auto simp: good_port_def port_part_def list_all_iff split: option.splits)
  obtain h hs where rest: "?rest = h # hs" using assms(2) by (cases "br_host b") auto
  note server = userinfo_in_server [of _ s_req_server] userinfo_in_server [of _ s_req_server_start]
    userinfo_in_server [of _ s_req_server_with_at]
  show ?thesis
  proof (cases "br_user b")
    case None
    have "url_loop (h # hs @ ys) p s_req_server_start (Some UF_SCHEMA) False u =
        url_loop ys (p + Suc (length hs)) s_req_server (Some UF_HOST) False
          (put_field UF_HOST p (Suc (length hs)) u)"
      using all rest by (intro url_loop_enter) (auto simp: server url_field_of_def)
    moreover have "authority b = h # hs" using None rest by (simp add: authority_def user_part_def)
    ultimately show ?thesis using None by simp
  next
    case (Some ui)
    then obtain c cs where ui: "ui = c # cs" using assms(1) by (cases ui) (auto simp: good_user_def)
    have chars: "\<forall>ch \<in> set ui. IS_USERINFO_CHAR ch"
      using assms(1) Some by (simp add: good_user_def list_all_iff)
    have "url_loop (c # cs @ 0x40 # h # hs @ ys) p s_req_server_start (Some UF_SCHEMA) False u =
        url_loop (0x40 # h # hs @ ys) (p + Suc (length cs)) s_req_server (Some UF_HOST) False
          (put_field UF_HOST p (Suc (length cs)) u)"
      using chars ui by (intro url_loop_enter) (auto simp: server url_field_of_def)
    also have "\<dots> = url_loop (h # hs @ ys) (p + Suc (length cs) + 1) s_req_server_with_at (Some UF_HOST) True
          (put_field UF_HOST p (Suc (Suc (length cs))) u)"
      by (rule url_loop_at)
    also have "\<dots> = url_loop ys (p + Suc (length cs) + 1 + Suc (length hs)) s_req_server (Some UF_HOST) True
          (put_field UF_HOST p (Suc (Suc (length cs)) + Suc (length hs)) u)"
      using all rest by (intro url_loop_more) (auto simp: server url_field_of_def)
    finally have "url_loop (c # cs @ 0x40 # h # hs @ ys) p s_req_server_start (Some UF_SCHEMA) False u =
       url_loop ys (p + Suc (length cs) + 1 + Suc (length hs)) s_req_server (Some UF_HOST) True
          (put_field UF_HOST p (Suc (Suc (length cs)) + Suc (length hs)) u)" .
    moreover have "authority b = c # cs @ 0x40 # h # hs"
      using Some ui rest by (simp add: authority_def user_part_def)
    ultimately show ?thesis using Some by (simp add: ac_simps)
  qed
qed

definition put_path :: "nat \<Rightarrow> u8 list \<Rightarrow> http_parser_url \<Rightarrow> http_parser_url" where
  "put_path p path u = (if path = [] then u else put_field UF_PATH p (length path) u)"

lemma url_loop_path:
  assumes "good_path path"
  shows "url_loop path p s_req_server (Some UF_HOST) found u = Some (Inr (found, put_path p path u))"
proof (cases path)
  case (Cons c cs)
  with assms have c: "c = 0x2F" and cs: "list_all IS_URL_CHAR cs" by (simp_all add: good_path_def)
  have "url_loop (c # cs @ []) p s_req_server (Some UF_HOST) found u =
      url_loop [] (p + Suc (length cs)) s_req_path (Some UF_PATH) found (put_field UF_PATH p (Suc (length cs)) u)"
    using c cs by (intro url_loop_enter)
      (auto simp: slash_in_server url_char_in_path url_field_of_def list_all_iff)
  then show ?thesis by (simp add: Cons put_path_def)
qed (simp add: put_path_def)

lemma digits_value_mono: "v \<le> digits_value ds v"
proof (induction ds arbitrary: v)
  case (Cons d ds)
  have "v \<le> v * 10 + (unat d - 48)" by simp
  also have "\<dots> \<le> digits_value ds (v * 10 + (unat d - 48))" by (rule Cons.IH)
  finally show ?case by (simp add: digits_value_def)
qed (simp add: digits_value_def)

lemma digit_sint: "IS_NUM d \<Longrightarrow> sint d = int (unat d)"
proof -
  assume "IS_NUM d"
  then have "unat d \<le> 57" using num_not_host_punct [of d] by simp
  moreover have "d = of_nat (unat d)" by simp
  ultimately obtain n where n: "d = of_nat n" "n \<le> 57" by blast
  then show ?thesis by (simp add: signed_of_nat signed_take_bit_int_eq_self unat_of_nat)
qed

lemma port_value_digits:
  "list_all IS_NUM ds \<Longrightarrow> v < 65536 \<Longrightarrow> digits_value ds v < 65536 \<Longrightarrow> port_value ds v = Some (digits_value ds v)"
proof (induction ds arbitrary: v)
  case (Cons d ds)
  let ?v = "v * 10 + (unat d - 48)"
  have d: "48 \<le> unat d" "sint d = int (unat d)"
    using Cons.prems(1) num_not_host_punct [of d] digit_sint [of d] by simp_all
  have val: "digits_value (d # ds) v = digits_value ds ?v" by (simp add: digits_value_def)
  have small: "?v < 65536"
    using Cons.prems(3) digits_value_mono [of ?v ds] unfolding val by (rule order.strict_trans1 [rotated])
  have "int v * 10 + sint d - 48 = int ?v" using d by (simp add: of_nat_diff)
  then have step: "nat ((int v * 10 + sint d - 48) mod 2 ^ 64) = ?v"
    using small by (simp add: mod_pos_pos_trivial)
  have "port_value ds ?v = Some (digits_value ds ?v)"
    using Cons.IH [of ?v] Cons.prems small unfolding val by simp
  then show ?case using small unfolding val port_value.simps step Let_def by simp
qed (simp add: digits_value_def)




text \<open>The fields after parsing the address \<open>b\<close>, in the order in which they were written\<close>

definition put_user :: "nat \<Rightarrow> u8 list option \<Rightarrow> http_parser_url \<Rightarrow> http_parser_url" where
  "put_user p user u = (case user of None \<Rightarrow> u | Some ui \<Rightarrow> put_field UF_USERINFO p (length ui) u)"

lemma put_user_parts [simp]:
  "f \<noteq> UF_USERINFO \<Longrightarrow> field_off (put_user p user u) f = field_off u f"
  "f \<noteq> UF_USERINFO \<Longrightarrow> field_len (put_user p user u) f = field_len u f"
  "f \<noteq> UF_USERINFO \<Longrightarrow> has_field f (put_user p user u) = has_field f u"
  by (simp_all add: put_user_def split: option.split)

lemma put_port_parts [simp]:
  "f \<noteq> UF_PORT \<Longrightarrow> field_off (put_port p port u) f = field_off u f"
  "f \<noteq> UF_PORT \<Longrightarrow> field_len (put_port p port u) f = field_len u f"
  "f \<noteq> UF_PORT \<Longrightarrow> has_field f (put_port p port u) = has_field f u"
  by (simp_all add: put_port_def split: option.split)

lemma put_path_parts [simp]:
  "f \<noteq> UF_PATH \<Longrightarrow> field_off (put_path p path u) f = field_off u f"
  "f \<noteq> UF_PATH \<Longrightarrow> field_len (put_path p path u) f = field_len u f"
  "f \<noteq> UF_PATH \<Longrightarrow> has_field f (put_path p path u) = has_field f u"
  by (simp_all add: put_path_def)

lemma host_loop_authority:
  assumes "good_user (br_user b)" and "br_host b \<noteq> []" and "list_all IS_HOST_CHAR (br_host b)"
    and "good_port (br_port b)" and "field_len u UF_HOST = 0"
    and q_def: "q = p + length (user_part (br_user b))"
  shows "\<exists>s. host_loop (authority b) p
       (if br_user b \<noteq> None then s_http_userinfo_start else s_http_host_start) u =
     Inr (s, put_port (q + length (br_host b)) (br_port b)
       (put_host q (length (br_host b)) (put_user p (br_user b) u))) \<and> \<not> bad_host_end s"
proof -
  have "field_len (put_user p (br_user b) u) UF_HOST = 0" using assms(5) by simp
  note host = host_loop_host [OF assms(2,3) this, of "port_part (br_port b)" q]
  note port = host_loop_port [OF assms(4)]
  show ?thesis
  proof (cases "br_user b")
    case None
    then show ?thesis using host port
      by (simp add: q_def authority_def user_part_def put_user_def)
  next
    case (Some ui)
    then have ui: "ui \<noteq> []" "list_all IS_USERINFO_CHAR ui"
      using assms(1) by (simp_all add: good_user_def)
    show ?thesis using host port Some host_loop_user [OF ui]
      by (simp add: q_def authority_def user_part_def put_user_def)
  qed
qed

definition url_slice :: "u8 list \<Rightarrow> url_field \<Rightarrow> http_parser_url \<Rightarrow> u8 list" where
  "url_slice buf f u = take (unat (field_len u f)) (drop (unat (field_off u f)) buf)"

lemma u16_of_nat: "n < 65536 \<Longrightarrow> unat (of_nat n :: u16) = n"
  by (simp add: unat_of_nat)

lemma init_fields [simp]:
  "field_off http_parser_url_init f = 0" "field_len http_parser_url_init f = 0"
  "\<not> has_field f http_parser_url_init" "url_port http_parser_url_init = 0"
  by (simp_all add: http_parser_url_init_def has_field_def)

definition broker_fields :: "broker \<Rightarrow> http_parser_url" where
  "broker_fields b =
     (let p = length (br_scheme b) + 3; q = p + length (user_part (br_user b)) in
      put_port (q + length (br_host b)) (br_port b) (put_host q (length (br_host b)) (put_user p (br_user b)
        (set_len UF_HOST 0 (put_path (p + length (authority b)) (br_path b)
          (put_field UF_HOST p (length (authority b))
            (put_field UF_SCHEMA 0 (length (br_scheme b)) http_parser_url_init)))))))"

lemma drop_take_middle: "drop (length a) (take (length a + length b) (a @ b @ c)) = b"
  by simp

lemma url_loop_broker:
  assumes "good_broker b"
  shows "url_loop (url_text b) 0 s_req_spaces_before_url None False http_parser_url_init =
     Some (Inr (br_user b \<noteq> None, put_path (length (br_scheme b) + 3 + length (authority b)) (br_path b)
       (put_field UF_HOST (length (br_scheme b) + 3) (length (authority b))
          (put_field UF_SCHEMA 0 (length (br_scheme b)) http_parser_url_init))))"
proof -
  have g: "br_scheme b \<noteq> []" "list_all IS_ALPHA (br_scheme b)" "good_user (br_user b)"
    "br_host b \<noteq> []" "list_all IS_HOST_CHAR (br_host b)" "good_port (br_port b)" "good_path (br_path b)"
    using assms by (simp_all add: good_broker_def)
  show ?thesis
    unfolding url_text_def url_loop_schema [OF g(1,2)] url_loop_authority [OF g(3-6)]
      url_loop_path [OF g(7)] by (rule refl)
qed

lemma parse_host_eq:
  assumes "unat (field_off u UF_HOST) = p" "unat (field_len u UF_HOST) = n" "has_field UF_HOST u"
    and "p + n \<le> length buf" "drop p (take (p + n) buf) = xs"
    and "host_loop xs p (if found then s_http_userinfo_start else s_http_host_start)
        (set_len UF_HOST 0 u) = Inr (s, u')"
    and "\<not> bad_host_end s"
  shows "http_parse_host buf u found = Some (0, u')"
  using assms(3-) by (simp add: http_parse_host_def Let_def assms(1,2) del: field_end_simps)

lemma parse_host_broker:
  assumes "good_broker b"
  defines "p \<equiv> length (br_scheme b) + 3"
  shows "http_parse_host (url_text b)
      (put_path (p + length (authority b)) (br_path b) (put_field UF_HOST p (length (authority b))
         (put_field UF_SCHEMA 0 (length (br_scheme b)) http_parser_url_init))) (br_user b \<noteq> None) =
    Some (0, broker_fields b)"
proof -
  let ?u = "put_path (p + length (authority b)) (br_path b) (put_field UF_HOST p (length (authority b))
         (put_field UF_SCHEMA 0 (length (br_scheme b)) http_parser_url_init))"
  have len: "length (url_text b) < 65536" using assms(1) by (simp add: good_broker_def)
  then have small: "p < 65536" "length (authority b) < 65536" by (simp_all add: p_def url_text_def)
  have split: "url_text b = (br_scheme b @ [0x3A, 0x2F, 0x2F]) @ authority b @ br_path b"
    "length (br_scheme b @ [0x3A, 0x2F, 0x2F]) = p" by (simp_all add: url_text_def p_def)
  have part: "drop p (take (p + length (authority b)) (url_text b)) = authority b"
    using drop_take_middle [of "br_scheme b @ [0x3A, 0x2F, 0x2F]" "authority b" "br_path b"]
    by (simp only: split)
  have bounds: "p + length (authority b) \<le> length (url_text b)" by (simp add: url_text_def p_def)
  have off: "unat (field_off ?u UF_HOST) = p" "unat (field_len ?u UF_HOST) = length (authority b)"
    using small by (simp_all add: u16_of_nat)
  have "\<exists>s. host_loop (authority b) p
       (if br_user b \<noteq> None then s_http_userinfo_start else s_http_host_start) (set_len UF_HOST 0 ?u) =
     Inr (s, broker_fields b) \<and> \<not> bad_host_end s"
    using assms(1) host_loop_authority [of b "set_len UF_HOST 0 ?u" "p + length (user_part (br_user b))" p]
    by (simp add: good_broker_def broker_fields_def Let_def p_def)
  then obtain s where "host_loop (authority b) p
       (if br_user b \<noteq> None then s_http_userinfo_start else s_http_host_start) (set_len UF_HOST 0 ?u) =
     Inr (s, broker_fields b)" "\<not> bad_host_end s" by blast
  note loop = this
  have has: "has_field UF_HOST ?u" by simp
  show ?thesis by (rule parse_host_eq [OF off has bounds part loop])
qed

lemma broker_port:
  assumes "good_broker b"
  shows "has_field UF_PORT (broker_fields b) \<longleftrightarrow> br_port b \<noteq> None"
    and "br_port b = Some ds \<Longrightarrow> url_slice (url_text b) UF_PORT (broker_fields b) = ds"
    and "br_port b = Some ds \<Longrightarrow>
      unat (field_off (broker_fields b) UF_PORT) + unat (field_len (broker_fields b) UF_PORT) \<le> length (url_text b)"
proof -
  have len: "length (url_text b) < 65536" using assms by (simp add: good_broker_def)
  show "has_field UF_PORT (broker_fields b) \<longleftrightarrow> br_port b \<noteq> None"
    by (simp add: broker_fields_def Let_def put_port_def split: option.split)
  assume port: "br_port b = Some ds"
  let ?q = "length (br_scheme b) + 3 + length (user_part (br_user b)) + length (br_host b) + 1"
  have total: "length (url_text b) = ?q + length ds + length (br_path b)"
    using port by (simp add: url_text_def authority_def port_part_def)
  have f: "unat (field_off (broker_fields b) UF_PORT) = ?q" "unat (field_len (broker_fields b) UF_PORT) = length ds"
    using len total port by (simp_all add: broker_fields_def Let_def put_port_def u16_of_nat del: of_nat_Suc of_nat_add)
  show "url_slice (url_text b) UF_PORT (broker_fields b) = ds"
  proof -
    let ?pre = "br_scheme b @ [0x3A, 0x2F, 0x2F] @ user_part (br_user b) @ br_host b @ [0x3A]"
    have "url_text b = ?pre @ ds @ br_path b" "length ?pre = ?q"
      using port by (simp_all add: url_text_def authority_def port_part_def)
    then show ?thesis by (simp add: url_slice_def f del: append_assoc)
  qed
  show "unat (field_off (broker_fields b) UF_PORT) + unat (field_len (broker_fields b) UF_PORT) \<le> length (url_text b)"
    by (simp add: f total)
qed


lemma parse_broker:
  assumes "good_broker b"
  shows "http_parser_parse_url (url_text b) False http_parser_url_init =
     Some (0, case br_port b of None \<Rightarrow> broker_fields b
              | Some ds \<Rightarrow> (broker_fields b)\<lparr>url_port := of_nat (digits_value ds 0)\<rparr>)"
proof -
  have g: "br_scheme b \<noteq> []" "good_port (br_port b)"
    "case br_port b of None \<Rightarrow> True | Some ds \<Rightarrow> digits_value ds 0 < 65536"
    using assms by (simp_all add: good_broker_def)
  have reset: "http_parser_url_init\<lparr>url_port := 0, field_set := 0\<rparr> = http_parser_url_init"
    by (simp add: http_parser_url_init_def)
  have nonempty: "url_text b \<noteq> []" by (simp add: url_text_def)
  have host: "has_field UF_HOST (put_path p path (put_field UF_HOST p' n u))" for p path p' n u
    by simp
  obtain found u where loop:
      "url_loop (url_text b) 0 s_req_spaces_before_url None False http_parser_url_init = Some (Inr (found, u))"
    and parse: "http_parse_host (url_text b) u found = Some (0, broker_fields b)"
    and has: "has_field UF_HOST u"
    using url_loop_broker [OF assms] parse_host_broker [OF assms] host by blast
  have start: "http_parser_parse_url (url_text b) False http_parser_url_init =
     (if has_field UF_PORT (broker_fields b) then
        (let off = unat (field_off (broker_fields b) UF_PORT); len = unat (field_len (broker_fields b) UF_PORT)
         in if length (url_text b) < off + len then None
            else case port_value (take len (drop off (url_text b))) 0 of
              None \<Rightarrow> Some (1, broker_fields b)
            | Some v \<Rightarrow> Some (0, (broker_fields b)\<lparr>url_port := of_nat v\<rparr>))
      else Some (0, broker_fields b))"
    by (simp add: http_parser_parse_url_def nonempty reset loop parse has Let_def cong: if_cong)
  show ?thesis
  proof (cases "br_port b")
    case None
    then show ?thesis by (simp add: start broker_port(1) [OF assms])
  next
    case (Some ds)
    have val: "port_value ds 0 = Some (digits_value ds 0)"
      using port_value_digits [of ds 0] g Some by (simp add: good_port_def)
    note slice = broker_port(2) [OF assms Some, unfolded url_slice_def]
    show ?thesis
      using broker_port(3) [OF assms Some]
      by (simp add: start Let_def broker_port(1) [OF assms] slice val Some)
  qed
qed

lemma url_port_parts [simp]:
  "url_port (set_len f n u) = url_port u" "url_port (set_off f p u) = url_port u"
  "url_port (mark_field f u) = url_port u" "url_port (put_field f p m u) = url_port u"
  "url_port (put_host p m u) = url_port u" "url_port (put_user p user u) = url_port u"
  "url_port (put_path p path u) = url_port u" "url_port (put_port p port u) = url_port u"
  by (simp_all add: set_len_def set_off_def mark_field_def put_field_def put_host_def put_user_def
      put_path_def put_port_def split: option.split)

lemma broker_slices:
  assumes "good_broker b"
  shows "url_slice (url_text b) UF_SCHEMA (broker_fields b) = br_scheme b"
    and "url_slice (url_text b) UF_USERINFO (broker_fields b) = (case br_user b of None \<Rightarrow> [] | Some ui \<Rightarrow> ui)"
    and "url_slice (url_text b) UF_HOST (broker_fields b) = br_host b"
    and "url_slice (url_text b) UF_PATH (broker_fields b) = br_path b"
proof -
  have len: "length (url_text b) < 65536" using assms by (simp add: good_broker_def)
  let ?p = "length (br_scheme b) + 3" and ?q = "length (br_scheme b) + 3 + length (user_part (br_user b))"
  have total: "length (url_text b) = ?q + length (br_host b) + length (port_part (br_port b)) + length (br_path b)"
    by (simp add: url_text_def authority_def)
  have slice: "url_slice (pre @ xs @ post) f u = xs"
    if "unat (field_off u f) = length pre" "unat (field_len u f) = length xs" for pre xs post f u
    using that by (simp add: url_slice_def)
  have "url_slice ([] @ br_scheme b @ ([0x3A, 0x2F, 0x2F] @ authority b @ br_path b)) UF_SCHEMA (broker_fields b) = br_scheme b"
    using len total by (intro slice) (simp_all add: broker_fields_def Let_def u16_of_nat)
  then show "url_slice (url_text b) UF_SCHEMA (broker_fields b) = br_scheme b" by (simp add: url_text_def)
  have "url_slice ((br_scheme b @ [0x3A, 0x2F, 0x2F] @ user_part (br_user b)) @ br_host b @ (port_part (br_port b) @ br_path b))
      UF_HOST (broker_fields b) = br_host b"
    using len total by (intro slice) (simp_all add: broker_fields_def Let_def u16_of_nat del: of_nat_add)
  then show "url_slice (url_text b) UF_HOST (broker_fields b) = br_host b"
    by (simp add: url_text_def authority_def)
  show "url_slice (url_text b) UF_USERINFO (broker_fields b) = (case br_user b of None \<Rightarrow> [] | Some ui \<Rightarrow> ui)"
  proof (cases "br_user b")
    case None
    then show ?thesis by (simp add: url_slice_def broker_fields_def Let_def put_user_def)
  next
    case (Some ui)
    have "url_slice ((br_scheme b @ [0x3A, 0x2F, 0x2F]) @ ui @ (0x40 # br_host b @ port_part (br_port b) @ br_path b))
        UF_USERINFO (broker_fields b) = ui"
      using len total Some
      by (intro slice) (simp_all add: broker_fields_def Let_def u16_of_nat put_user_def user_part_def del: of_nat_add)
    then show ?thesis using Some by (simp add: url_text_def authority_def user_part_def)
  qed
  show "url_slice (url_text b) UF_PATH (broker_fields b) = br_path b"
  proof (cases "br_path b = []")
    case True
    then show ?thesis by (simp add: url_slice_def broker_fields_def Let_def put_path_def)
  next
    case False
    have "url_slice ((br_scheme b @ [0x3A, 0x2F, 0x2F] @ authority b) @ br_path b @ []) UF_PATH (broker_fields b) = br_path b"
      using len total False
      by (intro slice) (simp_all add: broker_fields_def Let_def u16_of_nat put_path_def authority_def del: of_nat_add)
    then show ?thesis by (simp add: url_text_def)
  qed
qed

lemma parse_broker_slices:
  assumes "good_broker b"
  shows "\<exists>u. http_parser_parse_url (url_text b) False http_parser_url_init = Some (0, u) \<and>
     url_slice (url_text b) UF_SCHEMA u = br_scheme b \<and>
     url_slice (url_text b) UF_USERINFO u = (case br_user b of None \<Rightarrow> [] | Some ui \<Rightarrow> ui) \<and>
     url_slice (url_text b) UF_HOST u = br_host b \<and>
     url_slice (url_text b) UF_PORT u = (case br_port b of None \<Rightarrow> [] | Some ds \<Rightarrow> ds) \<and>
     url_slice (url_text b) UF_PATH u = br_path b \<and>
     unat (url_port u) = (case br_port b of None \<Rightarrow> 0 | Some ds \<Rightarrow> digits_value ds 0)"
proof -
  have port: "case br_port b of None \<Rightarrow> True | Some ds \<Rightarrow> digits_value ds 0 < 65536"
    using assms by (simp add: good_broker_def)
  have same: "url_slice t f (u\<lparr>url_port := v\<rparr>) = url_slice t f u" for t f u v
    by (simp add: url_slice_def)
  have none: "url_port (broker_fields b) = 0" by (simp add: broker_fields_def Let_def)
  moreover have "url_slice (url_text b) UF_PORT (broker_fields b) = []" if "br_port b = None"
    using that by (simp add: url_slice_def broker_fields_def Let_def put_port_def)
  ultimately show ?thesis
    using parse_broker [OF assms] broker_slices [OF assms] broker_port(2) [OF assms] port
    by (cases "br_port b") (simp_all add: same u16_of_nat)
qed

text \<open>The address read back, as a codec: addresses with the same text are equal.\<close>

definition read_broker :: "u8 list \<Rightarrow> broker option" where
  "read_broker t =
     (case http_parser_parse_url t False http_parser_url_init of
        Some (e, u) \<Rightarrow>
          if e \<noteq> 0 then None
          else Some \<lparr>br_scheme = url_slice t UF_SCHEMA u,
             br_user = (if url_slice t UF_USERINFO u = [] then None else Some (url_slice t UF_USERINFO u)),
             br_host = url_slice t UF_HOST u,
             br_port = (if url_slice t UF_PORT u = [] then None else Some (url_slice t UF_PORT u)),
             br_path = url_slice t UF_PATH u\<rparr>
      | None \<Rightarrow> None)"

lemma read_broker_text: "good_broker b \<Longrightarrow> read_broker (url_text b) = Some b"
proof -
  assume good: "good_broker b"
  then have "br_user b \<noteq> Some []" "br_port b \<noteq> Some []"
    by (auto simp: good_broker_def good_user_def good_port_def split: option.splits)
  moreover obtain u where "http_parser_parse_url (url_text b) False http_parser_url_init = Some (0, u)"
    and "url_slice (url_text b) UF_SCHEMA u = br_scheme b"
    and "url_slice (url_text b) UF_USERINFO u = (case br_user b of None \<Rightarrow> [] | Some ui \<Rightarrow> ui)"
    and "url_slice (url_text b) UF_HOST u = br_host b"
    and "url_slice (url_text b) UF_PORT u = (case br_port b of None \<Rightarrow> [] | Some ds \<Rightarrow> ds)"
    and "url_slice (url_text b) UF_PATH u = br_path b"
    using parse_broker_slices [OF good] by blast
  ultimately show ?thesis
    by (cases b) (auto simp: read_broker_def split: option.splits)
qed

interpretation broker_address: codec good_broker url_text read_broker
  by unfold_locales (rule read_broker_text)

lemma broker_text_injective:
  "good_broker a \<Longrightarrow> good_broker b \<Longrightarrow> url_text a = url_text b \<Longrightarrow> a = b"
  by (rule broker_address.encode_inj)

text \<open>C10: A broker address is taken apart as it was put together: for every scheme of letters, optional
  user information, host name, optional port up to 65535 and optional path, \<open>http_parser_parse_url\<close>
  succeeds on \<open>scheme://[user@]host[:port][path]\<close>, and each field designates exactly that part of
  the text, with the port also as a number.\<close>

theorem url_parse_broker:
  assumes "good_broker b"
  shows "\<exists>u. http_parser_parse_url (url_text b) False http_parser_url_init = Some (0, u) \<and>
     url_slice (url_text b) UF_SCHEMA u = br_scheme b \<and>
     url_slice (url_text b) UF_USERINFO u = (case br_user b of None \<Rightarrow> [] | Some ui \<Rightarrow> ui) \<and>
     url_slice (url_text b) UF_HOST u = br_host b \<and>
     url_slice (url_text b) UF_PORT u = (case br_port b of None \<Rightarrow> [] | Some ds \<Rightarrow> ds) \<and>
     url_slice (url_text b) UF_PATH u = br_path b \<and>
     unat (url_port u) = (case br_port b of None \<Rightarrow> 0 | Some ds \<Rightarrow> digits_value ds 0)"
  using assms by (rule parse_broker_slices)

definition sample_broker :: broker where
  "sample_broker = \<lparr>br_scheme = ascii ''mqtt'', br_user = Some (ascii ''me:pw''), br_host = ascii ''broker.lan'',
     br_port = Some (ascii ''1884''), br_path = ascii ''/ws''\<rparr>"

lemma sample_broker_good: "good_broker sample_broker"
proof -
  have "list_all IS_ALPHA (ascii ''mqtt'')" "list_all IS_USERINFO_CHAR (ascii ''me:pw'')"
    "list_all IS_HOST_CHAR (ascii ''broker.lan'')" "list_all IS_NUM (ascii ''1884'')" "good_path (ascii ''/ws'')"
    by code_simp+
  moreover have "digits_value (ascii ''1884'') 0 = 1884"
    by (simp add: digits_value_def ascii_def)
  ultimately show ?thesis
    by (simp add: good_broker_def sample_broker_def good_user_def good_port_def url_text_def authority_def
        user_part_def port_part_def) (simp add: ascii_def)
qed

theorem url_parse_broker_witness:
  "\<exists>u. http_parser_parse_url (url_text sample_broker) False http_parser_url_init = Some (0, u) \<and>
     url_slice (url_text sample_broker) UF_HOST u = ascii ''broker.lan'' \<and> unat (url_port u) = 1884"
proof -
  have "digits_value (ascii ''1884'') 0 = 1884" by (simp add: digits_value_def ascii_def)
  then show ?thesis using url_parse_broker [OF sample_broker_good] by (auto simp: sample_broker_def)
qed

end
