(* ===== verification/Mqtt_Client.thy ===== *)
theory Mqtt_Client
  imports Mqtt_Msg Mqtt_Outbox Http_Url Transport
begin

text \<open>
  The MQTT client, \<open>esp-mqtt/mqtt_client.c\<close>: configuration, the task's state machine, receiving
  and delivering messages, and the API that firmware calls.

  The state of the system is the record \<open>sys\<close>: the client, the transports below it, the number of
  tasks spawned (\<open>xTaskCreate\<close> of freertos/task.cpp always succeeds) and the outside world \<open>'x\<close>, on which the parameters of \<open>env\<close> act: the clock \<open>millis\<close>, the C library's \<open>rand\<close>,
  the turns that other threads take while a socket call waits, and the event handlers of the
  firmware, which get the client and may change it.
  \<open>None\<close> is undefined behaviour, a read of freed memory, or a thread that stays blocked.

  The API locks are compiled out (\<open>MQTT_DISABLE_API_LOCKS\<close> is always defined), \<open>ESP_MEM_CHECK\<close> is
  empty, only the TCP transport is enabled, and no event loop is supported in this build.  Log
  output is left out.
\<close>

section \<open>Types and constants\<close>

definition MQTT_RECONNECT_TIMEOUT_MS :: i32 where "MQTT_RECONNECT_TIMEOUT_MS = 10 * 1000"
definition MQTT_POLL_READ_TIMEOUT_MS :: i32 where "MQTT_POLL_READ_TIMEOUT_MS = 1000"
definition MQTT_BUFFER_SIZE_BYTE :: i32 where "MQTT_BUFFER_SIZE_BYTE = 1024"
definition MQTT_TASK_PRIORITY :: i32 where "MQTT_TASK_PRIORITY = 5"
definition MQTT_TASK_STACK :: i32 where "MQTT_TASK_STACK = 6 * 1024"
definition MQTT_KEEPALIVE_TICK :: i32 where "MQTT_KEEPALIVE_TICK = 120"
definition MQTT_NETWORK_TIMEOUT_MS :: i32 where "MQTT_NETWORK_TIMEOUT_MS = 10000"
definition MQTT_TCP_DEFAULT_PORT :: i32 where "MQTT_TCP_DEFAULT_PORT = 1883"
definition OUTBOX_EXPIRED_TIMEOUT_MS :: i32 where "OUTBOX_EXPIRED_TIMEOUT_MS = 30 * 1000"
definition OUTBOX_MAX_SIZE :: i32 where "OUTBOX_MAX_SIZE = 4 * 1024"

datatype mqtt_client_state =
    MQTT_STATE_ERROR | MQTT_STATE_UNKNOWN | MQTT_STATE_INIT | MQTT_STATE_CONNECTED
  | MQTT_STATE_WAIT_TIMEOUT

primrec state_code :: "mqtt_client_state \<Rightarrow> int" where
  "state_code MQTT_STATE_ERROR = -1"
| "state_code MQTT_STATE_UNKNOWN = 0"
| "state_code MQTT_STATE_INIT = 1"
| "state_code MQTT_STATE_CONNECTED = 2"
| "state_code MQTT_STATE_WAIT_TIMEOUT = 3"

datatype esp_mqtt_event_id =
    MQTT_EVENT_ERROR | MQTT_EVENT_CONNECTED | MQTT_EVENT_DISCONNECTED | MQTT_EVENT_SUBSCRIBED
  | MQTT_EVENT_UNSUBSCRIBED | MQTT_EVENT_PUBLISHED | MQTT_EVENT_DATA | MQTT_EVENT_BEFORE_CONNECT

datatype esp_mqtt_transport =
    MQTT_TRANSPORT_UNKNOWN | MQTT_TRANSPORT_OVER_TCP | MQTT_TRANSPORT_OVER_SSL
  | MQTT_TRANSPORT_OVER_WS | MQTT_TRANSPORT_OVER_WSS

text \<open>The pointers \<open>data\<close> and \<open>topic\<close> of an event point into the client's \<open>in_buffer\<close>, or nowhere.\<close>

record esp_mqtt_event =
  event_id :: esp_mqtt_event_id
  ev_user_context :: "nat option"
  ev_data :: "nat option"
  data_len :: i32
  total_data_len :: i32
  current_data_offset :: i32
  ev_topic :: "nat option"
  topic_len :: i32
  ev_msg_id :: i32
  session_present :: i32

text \<open>The configuration that firmware passes, without the fields for TLS and websockets\<close>

record esp_mqtt_client_config =
  uc_event_handle :: "nat option"
  uc_host :: cstr
  uc_uri :: cstr
  uc_port :: u32
  uc_client_id :: cstr
  uc_username :: cstr
  uc_password :: cstr
  uc_lwt_topic :: cstr
  uc_lwt_msg :: "u8 list option"
  uc_lwt_qos :: i32
  uc_lwt_retain :: i32
  uc_lwt_msg_len :: i32
  uc_disable_clean_session :: i32
  uc_keepalive :: i32
  uc_disable_auto_reconnect :: bool
  uc_user_context :: "nat option"
  uc_task_prio :: i32
  uc_task_stack :: i32
  uc_buffer_size :: i32
  uc_transport :: esp_mqtt_transport
  uc_refresh_connection_after_ms :: i32

record mqtt_config_storage =
  cfg_event_handle :: "nat option"
  cfg_task_stack :: i32
  cfg_task_prio :: i32
  cfg_uri :: cstr
  cfg_host :: cstr
  cfg_path :: cstr
  cfg_scheme :: cstr
  cfg_port :: i32
  cfg_auto_reconnect :: bool
  cfg_user_context :: "nat option"
  cfg_network_timeout_ms :: i32
  cfg_refresh_connection_after_ms :: i32

text \<open>
  \<open>mqtt_state_t\<close>.  \<open>outbound_message\<close> only ever points to \<open>mqtt_connection.message\<close>, so it is
  whether it was set.  \<open>out_buffer\<close> is the block as it was allocated; from the first connection on
  it is the \<open>buffer\<close> of \<open>connection\<close>.
\<close>

record mqtt_state =
  in_buffer :: "u8 list"
  out_buffer :: "u8 list"
  in_buffer_length :: i32
  out_buffer_length :: i32
  message_length :: u32
  in_buffer_read_len :: u32
  outbound_set :: bool
  connection :: mqtt_connection
  pending_msg_id :: u16
  pending_msg_type :: i32
  pending_publish_qos :: i32
  pending_msg_count :: i32

record mqtt_client =
  transport_list :: "nat list option"
  transport :: "nat option"
  config :: "mqtt_config_storage option"
  mstate :: mqtt_state
  connect_info :: mqtt_connect_info
  state :: mqtt_client_state
  refresh_connection_tick :: u64
  keepalive_tick :: u64
  reconnect_tick :: u64
  wait_timeout_ms :: i32
  event :: esp_mqtt_event
  run :: bool
  wait_for_ping_resp :: bool
  the_outbox :: outbox

record 'x sys =
  client :: mqtt_client
  tworld :: world
  tasks :: nat
  outside :: 'x

record 'x env =
  env_platform :: platform
  env_others :: others
  next_turn :: "'x \<Rightarrow> turn \<times> 'x"
  millis :: "'x \<Rightarrow> u64 \<times> 'x"
  rand :: "'x \<Rightarrow> u32 \<times> 'x"
  sta_mac :: "u8 list"
  handler :: "nat \<Rightarrow> mqtt_client \<Rightarrow> world \<Rightarrow> 'x \<Rightarrow> (mqtt_client \<times> world \<times> 'x) option"

definition upd_client :: "(mqtt_client \<Rightarrow> mqtt_client) \<Rightarrow> 'x sys \<Rightarrow> 'x sys" where
  "upd_client f s = s\<lparr>client := f (client s)\<rparr>"

definition upd_mstate :: "(mqtt_state \<Rightarrow> mqtt_state) \<Rightarrow> 'x sys \<Rightarrow> 'x sys" where
  "upd_mstate f = upd_client (\<lambda>c. c\<lparr>mstate := f (mstate c)\<rparr>)"

definition upd_event :: "(esp_mqtt_event \<Rightarrow> esp_mqtt_event) \<Rightarrow> 'x sys \<Rightarrow> 'x sys" where
  "upd_event f = upd_client (\<lambda>c. c\<lparr>event := f (event c)\<rparr>)"

definition set_outbox :: "outbox \<Rightarrow> 'x sys \<Rightarrow> 'x sys" where
  "set_outbox ob = upd_client (\<lambda>c. c\<lparr>the_outbox := ob\<rparr>)"

abbreviation mst :: "'x sys \<Rightarrow> mqtt_state" where
  "mst s \<equiv> mstate (client s)"

section \<open>The platform\<close>

text \<open>
  \<open>esp_gettimeofday\<close> of esp_system.cpp splits the milliseconds into seconds and microseconds, and
  \<open>platform_tick_get_ms\<close> of platform_esp32_idf.c puts them together again.
\<close>

definition esp_gettimeofday :: "'x env \<Rightarrow> 'x \<Rightarrow> (int \<times> int) \<times> 'x" where
  "esp_gettimeofday env x =
     (let (ms, x) = millis env x; tm = sint ms
      in ((c_div tm 1000, c_mod tm 1000 * 1000), x))"

definition platform_tick_get_ms :: "'x env \<Rightarrow> 'x sys \<Rightarrow> u64 \<times> 'x sys" where
  "platform_tick_get_ms env s =
     (let ((sec, usec), x) = esp_gettimeofday env (outside s)
      in (word_of_int (sec * 1000 + c_div usec 1000), s\<lparr>outside := x\<rparr>))"

definition hex_digit :: "bool \<Rightarrow> nat \<Rightarrow> u8" where
  "hex_digit upper n = of_nat (if n < 10 then 48 + n else if upper then 55 + n else 87 + n)"

definition hex2 :: "bool \<Rightarrow> u8 \<Rightarrow> u8 list" where
  "hex2 upper b = [hex_digit upper (unat b div 16), hex_digit upper (unat b mod 16)]"

definition platform_create_id_string :: "u8 list \<Rightarrow> u8 list option" where
  "platform_create_id_string mac = do {
     m3 \<leftarrow> mem_read mac 3; m4 \<leftarrow> mem_read mac 4; m5 \<leftarrow> mem_read mac 5;
     Some (ascii ''ESP32_'' @ hex2 False m3 @ hex2 True m4 @ hex2 True m5)
   }"

text \<open>Calls of the transport layer; a call that waits takes a turn.\<close>

definition turn_of :: "'x env \<Rightarrow> 'x sys \<Rightarrow> turn \<times> 'x sys" where
  "turn_of env s = (let (tn, x) = next_turn env (outside s) in (tn, s\<lparr>outside := x\<rparr>))"

definition transport_connect :: "'x env \<Rightarrow> cstr \<Rightarrow> i32 \<Rightarrow> i32 \<Rightarrow> 'x sys \<Rightarrow> (int \<times> 'x sys) option" where
  "transport_connect env h p timeout s = do {
     let (tn, s) = turn_of env s;
     (r, w) \<leftarrow> esp_transport_connect (env_platform env) (env_others env) tn (transport (client s))
        h p timeout (tworld s);
     Some (r, s\<lparr>tworld := w\<rparr>)
   }"

definition transport_write :: "'x env \<Rightarrow> u8 list \<Rightarrow> i32 \<Rightarrow> i32 \<Rightarrow> 'x sys \<Rightarrow> (int \<times> 'x sys) option" where
  "transport_write env buf len timeout s = do {
     let (tn, s) = turn_of env s;
     (r, w) \<leftarrow> esp_transport_write (env_platform env) (env_others env) tn (transport (client s))
        buf (sint len) timeout (tworld s);
     Some (r, s\<lparr>tworld := w\<rparr>)
   }"

definition transport_read ::
  "'x env \<Rightarrow> nat option \<Rightarrow> i32 \<Rightarrow> i32 \<Rightarrow> 'x sys \<Rightarrow> (int \<times> u8 list \<times> 'x sys) option" where
  "transport_read env t len timeout s = do {
     let (tn, s) = turn_of env s;
     let (tn', s) = turn_of env s;
     (r, bs, w) \<leftarrow> esp_transport_read (env_others env) tn tn' t (size_of_i32 len) timeout (tworld s);
     Some (r, bs, s\<lparr>tworld := w\<rparr>)
   }"

definition transport_poll_read :: "'x env \<Rightarrow> i32 \<Rightarrow> 'x sys \<Rightarrow> (int \<times> 'x sys) option" where
  "transport_poll_read env timeout s = do {
     let (tn, s) = turn_of env s;
     (r, w) \<leftarrow> esp_transport_poll_read (env_others env) tn (transport (client s)) timeout (tworld s);
     Some (r, s\<lparr>tworld := w\<rparr>)
   }"

definition transport_close :: "'x env \<Rightarrow> 'x sys \<Rightarrow> (int \<times> 'x sys) option" where
  "transport_close env s = do {
     (r, w) \<leftarrow> esp_transport_close (env_platform env) (env_others env) (transport (client s)) (tworld s);
     Some (r, s\<lparr>tworld := w\<rparr>)
   }"

definition payload_transport :: "'x env \<Rightarrow> 'x sys \<Rightarrow> nat option option" where
  "payload_transport env s =
     esp_transport_get_payload_transport_handle (env_others env) (transport (client s)) (tworld s)"

section \<open>Configuration\<close>

definition zero_config :: mqtt_config_storage where
  "zero_config = \<lparr>cfg_event_handle = None, cfg_task_stack = 0, cfg_task_prio = 0, cfg_uri = None,
     cfg_host = None, cfg_path = None, cfg_scheme = None, cfg_port = 0, cfg_auto_reconnect = False,
     cfg_user_context = None, cfg_network_timeout_ms = 0, cfg_refresh_connection_after_ms = 0\<rparr>"

definition zero_info :: mqtt_connect_info where
  "zero_info = \<lparr>client_id = None, username = None, password = None, will_topic = None,
     will_message = None, keepalive = 0, will_length = 0, will_qos = 0, will_retain = 0,
     clean_session = 0\<rparr>"

text \<open>\<open>x ? x : y\<close> on numbers and pointers\<close>

definition orelse :: "'a::zero \<Rightarrow> 'a \<Rightarrow> 'a" where
  "orelse x y = (if x \<noteq> 0 then x else y)"

definition orptr :: "'a option \<Rightarrow> 'a option \<Rightarrow> 'a option" where
  "orptr x y = (if x \<noteq> None then x else y)"

text \<open>The part of \<open>esp_mqtt_set_config\<close> that fills \<open>cfg\<close>\<close>

definition storage_of :: "esp_mqtt_client_config \<Rightarrow> mqtt_config_storage \<Rightarrow> mqtt_config_storage" where
  "storage_of uc cfg =
     (let prio = orelse (uc_task_prio uc) (cfg_task_prio cfg);
          stack = orelse (uc_task_stack uc) (cfg_task_stack cfg)
      in cfg\<lparr>
        cfg_task_prio := (if sint prio \<le> 0 then MQTT_TASK_PRIORITY else prio),
        cfg_task_stack := orelse stack MQTT_TASK_STACK,
        cfg_port := orelse (uc_port uc) (cfg_port cfg),
        cfg_host := orptr (uc_host uc) (cfg_host cfg),
        cfg_uri := orptr (uc_uri uc) (cfg_uri cfg),
        cfg_network_timeout_ms := MQTT_NETWORK_TIMEOUT_MS,
        cfg_user_context := orptr (uc_user_context uc) (cfg_user_context cfg),
        cfg_event_handle := orptr (uc_event_handle uc) (cfg_event_handle cfg),
        cfg_refresh_connection_after_ms :=
          orelse (uc_refresh_connection_after_ms uc) (cfg_refresh_connection_after_ms cfg),
        cfg_auto_reconnect := \<not> uc_disable_auto_reconnect uc\<rparr>)"

text \<open>The will: with a length its bytes are copied, without one it is a C string.\<close>

definition will_of :: "esp_mqtt_client_config \<Rightarrow> mqtt_connect_info \<Rightarrow> mqtt_connect_info option" where
  "will_of uc info =
     (case uc_lwt_msg uc of
        None \<Rightarrow> Some info
      | Some m \<Rightarrow>
          if uc_lwt_msg_len uc \<noteq> 0 then do {
            bs \<leftarrow> mem_bytes m (size_of_i32 (uc_lwt_msg_len uc));
            Some (info\<lparr>will_message := Some bs, will_length := uc_lwt_msg_len uc\<rparr>)
          } else Some (info\<lparr>will_message := Some m, will_length := strlen32 m\<rparr>))"

definition info_of ::
  "u8 list \<Rightarrow> esp_mqtt_client_config \<Rightarrow> mqtt_connect_info \<Rightarrow> mqtt_connect_info option" where
  "info_of mac uc info = do {
     let info = info\<lparr>username := orptr (uc_username uc) (username info),
                     password := orptr (uc_password uc) (password info)\<rparr>;
     cid \<leftarrow> (if uc_client_id uc \<noteq> None then Some (uc_client_id uc)
             else if client_id info = None
                  then do { s \<leftarrow> platform_create_id_string mac; Some (Some s) }
                  else Some (client_id info));
     let info = info\<lparr>client_id := cid, will_topic := orptr (uc_lwt_topic uc) (will_topic info)\<rparr>;
     info \<leftarrow> will_of uc info;
     let info = info\<lparr>will_qos := orelse (uc_lwt_qos uc) (will_qos info),
                     will_retain := orelse (uc_lwt_retain uc) (will_retain info)\<rparr>;
     let info = (if uc_disable_clean_session uc = clean_session info
                 then info\<lparr>clean_session := (if uc_disable_clean_session uc = 0 then 1 else 0)\<rparr>
                 else info);
     let keep = orelse (uc_keepalive uc) (mqtt_connect_info.keepalive info);
     Some (info\<lparr>mqtt_connect_info.keepalive := orelse keep MQTT_KEEPALIVE_TICK\<rparr>)
   }"

definition esp_mqtt_set_config ::
  "'x env \<Rightarrow> esp_mqtt_client_config \<Rightarrow> 'x sys \<Rightarrow> (esp_err \<times> 'x sys) option" where
  "esp_mqtt_set_config env uc s = do {
     let cfg = (case config (client s) of None \<Rightarrow> zero_config | Some cfg \<Rightarrow> cfg);
     info \<leftarrow> info_of (sta_mac env) uc (connect_info (client s));
     Some (ESP_OK, upd_client (\<lambda>c. c\<lparr>config := Some (storage_of uc cfg), connect_info := info\<rparr>) s)
   }"

text \<open>The configuration is freed; the pointer to it is left as it is, so it dangles.\<close>

definition esp_mqtt_destroy_config :: "'x sys \<Rightarrow> (esp_err \<times> 'x sys) option" where
  "esp_mqtt_destroy_config s = do {
     cfg \<leftarrow> config (client s);
     Some (ESP_OK, upd_client (\<lambda>c. c\<lparr>config := None, connect_info := zero_info\<rparr>) s)
   }"

definition create_string :: "u8 list \<Rightarrow> nat \<Rightarrow> nat \<Rightarrow> cstr option" where
  "create_string txt off len =
     (if len = 0 then Some None
      else do { bs \<leftarrow> mem_bytes (drop off txt) len; Some (Some bs) })"

text \<open>\<open>strtol(..., NULL, 10)\<close> of a text that starts with a digit\<close>

definition strtol10 :: "u8 list \<Rightarrow> i32" where
  "strtol10 t = (case scan_int t of None \<Rightarrow> 0 | Some (n, _) \<Rightarrow> word_of_int n)"

definition esp_mqtt_client_set_uri :: "u8 list \<Rightarrow> 'x sys \<Rightarrow> (esp_err \<times> 'x sys) option" where
  "esp_mqtt_client_set_uri u s = do {
     (status, puri) \<leftarrow> http_parser_parse_url u False http_parser_url_init;
     if status \<noteq> 0 then Some (ESP_FAIL, s)
     else do {
       cfg \<leftarrow> config (client s);
       let field = (\<lambda>f. create_string u (unat (field_off puri f)) (unat (field_len puri f)));
       sch \<leftarrow> field UF_SCHEMA;
       hst \<leftarrow> field UF_HOST;
       pth \<leftarrow> field UF_PATH;
       let cfg = cfg\<lparr>cfg_scheme := sch, cfg_host := hst, cfg_path := pth\<rparr>;
       let cfg = (if field_len puri UF_PORT \<noteq> 0
                  then cfg\<lparr>cfg_port := strtol10 (drop (unat (field_off puri UF_PORT)) u)\<rparr> else cfg);
       user_info \<leftarrow> field UF_USERINFO;
       let info = connect_info (client s);
       let info = (case user_info of None \<Rightarrow> info
                   | Some ui \<Rightarrow>
                       let info = (if 0x3A \<in> set ui
                                   then info\<lparr>password := Some (tl (dropWhile (\<lambda>b. b \<noteq> 0x3A) ui))\<rparr>
                                   else info)
                       in info\<lparr>username := Some (takeWhile (\<lambda>b. b \<noteq> 0x3A) ui)\<rparr>);
       Some (ESP_OK, upd_client (\<lambda>c. c\<lparr>config := Some cfg, connect_info := info\<rparr>) s)
     }
   }"

section \<open>Sending and events\<close>

text \<open>The bytes at \<open>outbound_message->data\<close>: a resent message points into an item of the outbox.\<close>

definition outbound_bytes :: "mqtt_client \<Rightarrow> u8 list option" where
  "outbound_bytes c =
     (let m = mstate c in
      if \<not> outbound_set m then None
      else case data (message (connection m)) of
        NullData \<Rightarrow> Some []
      | InBuffer offs \<Rightarrow> Some (drop offs (mqtt_connection.buffer (connection m)))
      | ItemData h \<Rightarrow>
          (case find (\<lambda>it. handle it = h) (items (the_outbox c)) of
             None \<Rightarrow> None | Some it \<Rightarrow> Some (item_buffer it)))"

definition outbound_length :: "mqtt_client \<Rightarrow> i32" where
  "outbound_length c = of_nat (length_of (message (connection (mstate c))))"

definition write_outbound :: "'x env \<Rightarrow> 'x sys \<Rightarrow> (int \<times> 'x sys) option" where
  "write_outbound env s = do {
     cfg \<leftarrow> config (client s);
     bs \<leftarrow> outbound_bytes (client s);
     transport_write env bs (outbound_length (client s)) (cfg_network_timeout_ms cfg) s
   }"

definition mqtt_write_data :: "'x env \<Rightarrow> 'x sys \<Rightarrow> (esp_err \<times> 'x sys) option" where
  "mqtt_write_data env s = do {
     (write_len, s) \<leftarrow> write_outbound env s;
     if write_len \<le> 0 then Some (ESP_FAIL, s)
     else do {
       let (now, s) = platform_tick_get_ms env s;
       Some (ESP_OK, upd_client (\<lambda>c. c\<lparr>keepalive_tick := now\<rparr>) s)
     }
   }"

definition esp_mqtt_dispatch_event :: "'x env \<Rightarrow> 'x sys \<Rightarrow> 'x sys option" where
  "esp_mqtt_dispatch_event env s = do {
     cfg \<leftarrow> config (client s);
     let s = upd_event (\<lambda>e. e\<lparr>ev_user_context := cfg_user_context cfg\<rparr>) s;
     case cfg_event_handle cfg of
       None \<Rightarrow> Some s
     | Some h \<Rightarrow> do {
         (c, w, x) \<leftarrow> handler env h (client s) (tworld s) (outside s);
         Some (s\<lparr>client := c, tworld := w, outside := x\<rparr>)
       }
   }"

definition esp_mqtt_dispatch_event_with_msgid :: "'x env \<Rightarrow> 'x sys \<Rightarrow> 'x sys option" where
  "esp_mqtt_dispatch_event_with_msgid env s = do {
     mid \<leftarrow> mqtt_get_id (in_buffer (mst s)) (ucast (in_buffer_length (mst s)));
     esp_mqtt_dispatch_event env (upd_event (\<lambda>e. e\<lparr>ev_msg_id := ucast mid\<rparr>) s)
   }"

definition dispatch_id :: "'x env \<Rightarrow> esp_mqtt_event_id \<Rightarrow> 'x sys \<Rightarrow> 'x sys option" where
  "dispatch_id env i s = esp_mqtt_dispatch_event_with_msgid env (upd_event (\<lambda>e. e\<lparr>event_id := i\<rparr>) s)"

definition esp_mqtt_abort_connection :: "'x env \<Rightarrow> 'x sys \<Rightarrow> 'x sys option" where
  "esp_mqtt_abort_connection env s = do {
     (_, s) \<leftarrow> transport_close env s;
     let (now, s) = platform_tick_get_ms env s;
     dispatch_id env MQTT_EVENT_DISCONNECTED
       (upd_client (\<lambda>c. c\<lparr>wait_timeout_ms := MQTT_RECONNECT_TIMEOUT_MS, reconnect_tick := now,
          state := MQTT_STATE_WAIT_TIMEOUT, wait_for_ping_resp := False\<rparr>) s)
   }"

section \<open>Receiving a message\<close>

text \<open>
  \<open>mqtt_message_receive\<close> keeps \<open>buf\<close> equal to \<open>in_buffer + in_buffer_read_len\<close> throughout, so the
  pointer is not a separate variable.  \<open>receive_bytes\<close> is a read to \<open>buf\<close>; a read that does not fit
  in the buffer writes outside it.
\<close>

definition read_pos :: "'x sys \<Rightarrow> nat" where
  "read_pos s = unat (in_buffer_read_len (mst s))"

definition receive_bytes ::
  "'x env \<Rightarrow> nat option \<Rightarrow> i32 \<Rightarrow> i32 \<Rightarrow> 'x sys \<Rightarrow> (int \<times> 'x sys) option" where
  "receive_bytes env t len timeout s = do {
     (r, bs, s) \<leftarrow> transport_read env t len timeout s;
     m \<leftarrow> mem_write (in_buffer (mst s)) (read_pos s) bs;
     Some (r, upd_mstate (\<lambda>st. st\<lparr>in_buffer := m\<rparr>) s)
   }"

definition add_read :: "int \<Rightarrow> 'x sys \<Rightarrow> 'x sys" where
  "add_read r = upd_mstate (\<lambda>st. st\<lparr>in_buffer_read_len := in_buffer_read_len st + word_of_int r\<rparr>)"

text \<open>In these parts \<open>Inl\<close> is a return from \<open>mqtt_message_receive\<close>, \<open>Inr\<close> goes on.\<close>

definition receive_first :: "'x env \<Rightarrow> i32 \<Rightarrow> 'x sys \<Rightarrow> (int \<times> 'x sys + 'x sys) option" where
  "receive_first env timeout s =
     (if in_buffer_read_len (mst s) = 0 then do {
        (r, s) \<leftarrow> receive_bytes env (transport (client s)) 1 timeout s;
        if r < 0 then Some (Inl (-1, s))
        else if r = 0 then Some (Inl (0, s))
        else do {
          ok \<leftarrow> mqtt_has_valid_msg_hdr (in_buffer (mst s)) (word_of_int r);
          if ok then Some (Inr (add_read 1 s)) else Some (Inl (-1, s))
        }
      } else Some (Inr s))"

text \<open>Whether the byte before \<open>buf\<close> says that the remaining length goes on\<close>

definition length_goes_on :: "'x sys \<Rightarrow> bool option" where
  "length_goes_on s =
     (if read_pos s < 6 then do {
        b \<leftarrow> (if read_pos s = 0 then None else mem_read (in_buffer (mst s)) (read_pos s - 1));
        Some (b AND 0x80 \<noteq> 0)
      } else Some False)"

text \<open>The do-while loop: \<open>in_buffer_read_len\<close> is at least 1 and below 6 before each pass, so five
  passes are enough; the first argument counts them.\<close>

fun receive_length :: "nat \<Rightarrow> 'x env \<Rightarrow> nat option \<Rightarrow> i32 \<Rightarrow> 'x sys \<Rightarrow> (int \<times> 'x sys + 'x sys) option" where
  "receive_length 0 env t timeout s = None"
| "receive_length (Suc n) env t timeout s = do {
     (r, s) \<leftarrow> receive_bytes env t 1 timeout s;
     if r < 0 then Some (Inl (-1, s))
     else if r = 0 then Some (Inl (0, s))
     else do {
       let s = add_read 1 s;
       more \<leftarrow> length_goes_on s;
       if more then receive_length n env t timeout s else Some (Inr s)
     }
   }"

text \<open>
  A message longer than the buffer: only a PUBLISH goes on, with as much of it as the buffer holds,
  if its topic and identifier fit.  The result is the number of bytes to read in all.
\<close>

definition receive_oversized ::
  "'x env \<Rightarrow> nat option \<Rightarrow> i32 \<Rightarrow> nat \<Rightarrow> 'x sys \<Rightarrow> (int \<times> 'x sys + i32 \<times> 'x sys) option" where
  "receive_oversized env t timeout fixed s = do {
     ty \<leftarrow> mqtt_get_type (in_buffer (mst s));
     if ty \<noteq> type_code MQTT_MSG_TYPE_PUBLISH then Some (Inl (-1, s))
     else do {
       r \<leftarrow> (if read_pos s < fixed + 2 then do {
               (r, s) \<leftarrow> receive_bytes env t (in_buffer_read_len (mst s) - of_nat fixed + 2) timeout s;
               if r < 0 then Some (Inl (-1, s))
               else if r = 0 then Some (Inl (0, s))
               else if read_pos (add_read r s) < fixed + 2 then Some (Inl (0, add_read r s))
               else Some (Inr (add_read r s))
             } else Some (Inr s));
       case r of Inl e \<Rightarrow> Some (Inl e)
       | Inr s \<Rightarrow> do {
           hi \<leftarrow> mem_read (in_buffer (mst s)) fixed;
           lo \<leftarrow> mem_read (in_buffer (mst s)) (fixed + 1);
           qos \<leftarrow> mqtt_get_qos (in_buffer (mst s));
           let total_len = int (fixed + be16 hi lo + (if 0 < sint qos then 2 else 0));
           if sint (in_buffer_length (mst s)) < total_len then Some (Inl (-1, s))
           else Some (Inr (in_buffer_length (mst s), s))
         }
     }
   }"

text \<open>The rest of the message; \<open>in_buffer_read_len < total_len\<close> compares as \<open>uint32_t\<close>.\<close>

definition receive_rest :: "'x env \<Rightarrow> nat option \<Rightarrow> i32 \<Rightarrow> i32 \<Rightarrow> 'x sys \<Rightarrow> (int \<times> 'x sys) option" where
  "receive_rest env t timeout total_len s =
     (if in_buffer_read_len (mst s) < total_len then do {
        (r, s) \<leftarrow> receive_bytes env t (total_len - in_buffer_read_len (mst s)) timeout s;
        if r < 0 then Some (-1, s)
        else if r = 0 then Some (0, s)
        else Some (if in_buffer_read_len (mst (add_read r s)) < total_len then 0 else 1, add_read r s)
      } else Some (1, s))"

definition mqtt_message_receive :: "'x env \<Rightarrow> i32 \<Rightarrow> 'x sys \<Rightarrow> (int \<times> 'x sys) option" where
  "mqtt_message_receive env timeout s = do {
     let s = upd_mstate (\<lambda>st. st\<lparr>message_length := 0\<rparr>) s;
     r \<leftarrow> receive_first env timeout s;
     case r of Inl e \<Rightarrow> Some e
     | Inr s \<Rightarrow> do {
         t \<leftarrow> payload_transport env s;
         more \<leftarrow> (if read_pos s = 1 then Some True else length_goes_on s);
         r \<leftarrow> (if more then receive_length 6 env t timeout s else Some (Inr s));
         case r of Inl e \<Rightarrow> Some e
         | Inr s \<Rightarrow> do {
             (total_len, fixed) \<leftarrow>
               mqtt_get_total_length (in_buffer (mst s)) (ucast (in_buffer_read_len (mst s)));
             let s = upd_mstate (\<lambda>st. st\<lparr>message_length := total_len\<rparr>) s;
             r \<leftarrow> (if sint (in_buffer_length (mst s)) < sint total_len
                   then receive_oversized env t timeout fixed s
                   else Some (Inr (total_len, s)));
             case r of Inl e \<Rightarrow> Some e
             | Inr (total_len, s) \<Rightarrow> receive_rest env t timeout total_len s
           }
       }
   }"

section \<open>Processing a message\<close>

text \<open>
  The loop of \<open>deliver_publish\<close> from \<open>post_data_event\<close> on: \<open>nread\<close> and \<open>tot\<close> are the \<open>size_t\<close>
  variables \<open>msg_read_len\<close> and \<open>msg_total_len\<close>, \<open>dptr\<close> and \<open>dlen\<close> the data and its length as
  \<open>uint32_t\<close>.  A negative result of the read becomes a huge length.
\<close>

function deliver_loop ::
  "'x env \<Rightarrow> nat \<Rightarrow> nat \<Rightarrow> nat \<Rightarrow> nat option \<Rightarrow> u32 \<Rightarrow> nat option \<Rightarrow> u32 \<Rightarrow> 'x sys \<Rightarrow>
   (esp_err \<times> 'x sys) option" where
  "deliver_loop env nread tot off dptr dlen tptr tlen s =
     (let s1 = upd_event (\<lambda>e. e\<lparr>event_id := MQTT_EVENT_DATA,
                 ev_data := (if 0 < dlen then dptr else None), data_len := dlen,
                 current_data_offset := of_nat off, ev_topic := tptr, topic_len := tlen\<rparr>) s
      in case esp_mqtt_dispatch_event env s1 of
           None \<Rightarrow> None
         | Some s2 \<Rightarrow>
             if tot \<le> nread then Some (ESP_OK, s2)
             else (case (payload_transport env s2, config (client s2)) of
                 (Some t, Some cfg) \<Rightarrow>
                   (let buf_len = size_of_i32 (in_buffer_length (mst s2));
                        want = of_nat (if buf_len < tot - nread then buf_len else tot - nread)
                    in case transport_read env t want (cfg_network_timeout_ms cfg) s2 of
                         None \<Rightarrow> None
                       | Some (r, bs, s3) \<Rightarrow>
                           (case mem_write (in_buffer (mst s3)) 0 bs of
                              None \<Rightarrow> None
                            | Some m \<Rightarrow>
                                let s4 = upd_mstate (\<lambda>st. st\<lparr>in_buffer := m\<rparr>) s3;
                                    got = (word_of_int r :: u32)
                                in if got = 0 then Some (ESP_FAIL, s4)
                                   else deliver_loop env (nread + unat got) tot (off + unat dlen)
                                          (Some 0) got None 0 s4))
               | _ \<Rightarrow> None))"
  by pat_completeness auto
termination
  by (relation "measure (\<lambda>(env, nread, tot, rest). tot - nread)")
    (auto simp: unat_gt_0 intro!: diff_less_mono2)

declare deliver_loop.simps [simp del]

definition deliver_publish :: "'x env \<Rightarrow> 'x sys \<Rightarrow> (esp_err \<times> 'x sys) option" where
  "deliver_publish env s = do {
     let buf = in_buffer (mst s);
     let nread = in_buffer_read_len (mst s);
     let tot = message_length (mst s);
     topic \<leftarrow> mqtt_get_publish_topic buf nread;
     case topic of None \<Rightarrow> Some (ESP_FAIL, s)
     | Some (tptr, tlen) \<Rightarrow> do {
         (dptr, dlen) \<leftarrow> mqtt_get_publish_data buf nread;
         if 0 < dlen \<and> dptr = None then Some (ESP_FAIL, s)
         else do {
           mid \<leftarrow> mqtt_get_id buf (ucast dlen);
           deliver_loop env (unat nread) (unat tot) 0 dptr dlen (Some tptr) (of_nat tlen)
             (upd_event (\<lambda>e. e\<lparr>ev_msg_id := ucast mid, total_data_len := dlen + tot - nread\<rparr>) s)
         }
       }
   }"

definition is_valid_mqtt_msg :: "mqtt_message_type \<Rightarrow> u16 \<Rightarrow> 'x sys \<Rightarrow> bool \<times> 'x sys" where
  "is_valid_mqtt_msg ty mid s =
     (if pending_msg_count (mst s) = 0 then (False, s)
      else
        let (r, ob) = outbox_delete (the_outbox (client s)) (ucast mid) (type_code ty);
            done = upd_mstate (\<lambda>st. st\<lparr>pending_msg_count := pending_msg_count st - 1\<rparr>)
        in if r = ESP_OK then (True, done (set_outbox ob s))
           else if pending_msg_type (mst s) = type_code ty \<and> pending_msg_id (mst s) = mid
           then (True, done s)
           else (False, s))"

text \<open>Both enqueue functions: the copy of the outbound message, with what remains of its data\<close>

definition enqueue_outbound ::
  "'x env \<Rightarrow> u8 list option \<Rightarrow> i32 \<Rightarrow> 'x sys \<Rightarrow> 'x sys option" where
  "enqueue_outbound env rdata rlen s = do {
     bs \<leftarrow> outbound_bytes (client s);
     let (now, s) = platform_tick_get_ms env s;
     (_, ob) \<leftarrow> outbox_enqueue (the_outbox (client s))
        \<lparr>msg_data = bs, msg_len = outbound_length (client s), msg_msg_id = ucast (pending_msg_id (mst s)),
         msg_msg_qos = pending_publish_qos (mst s), msg_msg_type = pending_msg_type (mst s),
         remaining_data = rdata, remaining_len = rlen\<rparr> (ucast now);
     Some (set_outbox ob s)
   }"

definition mqtt_enqueue_oversized :: "'x env \<Rightarrow> u8 list \<Rightarrow> i32 \<Rightarrow> 'x sys \<Rightarrow> 'x sys option" where
  "mqtt_enqueue_oversized env rdata rlen s = enqueue_outbound env (Some rdata) rlen s"

definition mqtt_enqueue :: "'x env \<Rightarrow> 'x sys \<Rightarrow> 'x sys option" where
  "mqtt_enqueue env s =
     (if 0 < sint (pending_msg_count (mst s)) then enqueue_outbound env None 0 s else Some s)"

definition set_pending_of :: "u16 \<Rightarrow> pending_state \<Rightarrow> 'x sys \<Rightarrow> 'x sys" where
  "set_pending_of mid st s =
     set_outbox (snd (outbox_set_pending (the_outbox (client s)) (ucast mid) st)) s"

text \<open>An acknowledgement built in the output buffer becomes the outbound message.\<close>

definition build_ack ::
  "'x env \<Rightarrow> (('x \<Rightarrow> u32 \<times> 'x) \<Rightarrow> mqtt_connection \<Rightarrow> u16 \<Rightarrow> 'x \<Rightarrow> (mqtt_connection \<times> 'x) option) \<Rightarrow>
   u16 \<Rightarrow> 'x sys \<Rightarrow> 'x sys option" where
  "build_ack env f mid s = do {
     (c, x) \<leftarrow> f (rand env) (connection (mst s)) mid (outside s);
     Some (upd_mstate (\<lambda>st. st\<lparr>connection := c, outbound_set := True\<rparr>) (s\<lparr>outside := x\<rparr>))
   }"

definition set_read_len :: "u32 \<Rightarrow> 'x sys \<Rightarrow> 'x sys" where
  "set_read_len n = upd_mstate (\<lambda>st. st\<lparr>in_buffer_read_len := n\<rparr>)"

text \<open>A confirmation by its type: dispatched when it answers a pending message.\<close>

definition confirm ::
  "'x env \<Rightarrow> mqtt_message_type \<Rightarrow> u16 \<Rightarrow> esp_mqtt_event_id \<Rightarrow> ('x sys \<Rightarrow> 'x sys) \<Rightarrow> 'x sys \<Rightarrow> 'x sys option" where
  "confirm env ty mid ev extra s =
     (let (valid, s) = is_valid_mqtt_msg ty mid s
      in if valid then dispatch_id env ev (extra s) else Some s)"

text \<open>A received PUBLISH: its data are delivered, then QoS 1 and 2 are answered.\<close>

definition process_publish :: "'x env \<Rightarrow> i32 \<Rightarrow> u16 \<Rightarrow> 'x sys \<Rightarrow> (esp_err \<times> 'x sys) option" where
  "process_publish env qos mid s = do {
     (e, s) \<leftarrow> deliver_publish env s;
     if e \<noteq> ESP_OK then Some (ESP_FAIL, s)
     else if qos = 1 \<or> qos = 2 then do {
       s \<leftarrow> build_ack env (if qos = 1 then mqtt_msg_puback else mqtt_msg_pubrec) mid s;
       (e, s) \<leftarrow> mqtt_write_data env s;
       Some (if e \<noteq> ESP_OK then ESP_FAIL else ESP_OK, s)
     } else Some (ESP_OK, s)
   }"

definition process_message :: "'x env \<Rightarrow> i32 \<Rightarrow> i32 \<Rightarrow> u16 \<Rightarrow> 'x sys \<Rightarrow> (esp_err \<times> 'x sys) option" where
  "process_message env ty qos mid s =
     (let fine = map_option (\<lambda>s. (ESP_OK, s)) in
      if ty = type_code MQTT_MSG_TYPE_SUBACK then
        fine (confirm env MQTT_MSG_TYPE_SUBSCRIBE mid MQTT_EVENT_SUBSCRIBED id s)
      else if ty = type_code MQTT_MSG_TYPE_UNSUBACK then
        fine (confirm env MQTT_MSG_TYPE_UNSUBSCRIBE mid MQTT_EVENT_UNSUBSCRIBED id s)
      else if ty = type_code MQTT_MSG_TYPE_PUBLISH then process_publish env qos mid s
      else if ty = type_code MQTT_MSG_TYPE_PUBACK then
        fine (confirm env MQTT_MSG_TYPE_PUBLISH mid MQTT_EVENT_PUBLISHED (set_pending_of mid CONFIRMED) s)
      else if ty = type_code MQTT_MSG_TYPE_PUBREC then do {
        s \<leftarrow> build_ack env mqtt_msg_pubrel mid s;
        (_, s) \<leftarrow> mqtt_write_data env (set_pending_of mid CONFIRMED s);
        Some (ESP_OK, s) }
      else if ty = type_code MQTT_MSG_TYPE_PUBREL then do {
        s \<leftarrow> build_ack env mqtt_msg_pubcomp mid s;
        (_, s) \<leftarrow> mqtt_write_data env s;
        Some (ESP_OK, s) }
      else if ty = type_code MQTT_MSG_TYPE_PUBCOMP then
        fine (confirm env MQTT_MSG_TYPE_PUBLISH mid MQTT_EVENT_PUBLISHED id s)
      else if ty = type_code MQTT_MSG_TYPE_PINGRESP then
        Some (ESP_OK, upd_client (\<lambda>c. c\<lparr>wait_for_ping_resp := False\<rparr>) s)
      else Some (ESP_OK, s))"

definition mqtt_process_receive :: "'x env \<Rightarrow> 'x sys \<Rightarrow> (esp_err \<times> 'x sys) option" where
  "mqtt_process_receive env s = do {
     (recv, s) \<leftarrow> mqtt_message_receive env 0 s;
     if recv < 0 then Some (ESP_FAIL, s)
     else if recv = 0 then Some (ESP_OK, s)
     else do {
       ty \<leftarrow> mqtt_get_type (in_buffer (mst s));
       qos \<leftarrow> mqtt_get_qos (in_buffer (mst s));
       mid \<leftarrow> mqtt_get_id (in_buffer (mst s)) (ucast (message_length (mst s)));
       (e, s) \<leftarrow> process_message env ty qos mid s;
       if e \<noteq> ESP_OK then Some (ESP_FAIL, s) else Some (ESP_OK, set_read_len 0 s)
     }
   }"

section \<open>Resending and connecting\<close>

definition point_at_item :: "outbox_item \<Rightarrow> 'x sys \<Rightarrow> 'x sys" where
  "point_at_item it =
     (let (len, mid, ty, qos) = outbox_item_get_data it in
      upd_mstate (\<lambda>st. st\<lparr>
        connection := (connection st)\<lparr>message := (message (connection st))\<lparr>
          data := ItemData (handle it), length_of := len\<rparr>\<rparr>,
        pending_msg_id := mid, pending_msg_type := ty, pending_publish_qos := qos\<rparr>))"

text \<open>\<open>mqtt_set_dup\<close> writes the first byte of the item's buffer.\<close>

definition set_dup_of :: "outbox_item \<Rightarrow> 'x sys \<Rightarrow> 'x sys option" where
  "set_dup_of it s = do {
     b \<leftarrow> mqtt_set_dup (item_buffer it);
     Some (set_outbox (update_item (handle it) (\<lambda>i. i\<lparr>item_buffer := b\<rparr>) (the_outbox (client s))) s)
   }"

definition mqtt_resend_queued :: "'x env \<Rightarrow> outbox_item \<Rightarrow> 'x sys \<Rightarrow> (esp_err \<times> 'x sys) option" where
  "mqtt_resend_queued env it s =
     (if \<not> outbound_set (mst s) then None
      else do {
        let s = point_at_item it s;
        s \<leftarrow> (if pending_msg_type (mst s) = type_code MQTT_MSG_TYPE_PUBLISH \<and> pending_publish_qos (mst s) = 2
             then set_dup_of it s else Some s);
        (e, s) \<leftarrow> mqtt_write_data env s;
        if e \<noteq> ESP_OK then do { s \<leftarrow> esp_mqtt_abort_connection env s; Some (ESP_FAIL, s) }
        else Some (ESP_OK, s)
      })"

text \<open>The block of the output buffer: before the first connection as allocated, then the buffer of the
  connection, whose contents \<open>mqtt_msg_init\<close> leaves alone.\<close>

definition out_block :: "mqtt_state \<Rightarrow> u8 list" where
  "out_block st = (if buffer_length (connection st) = 0 then out_buffer st
                   else mqtt_connection.buffer (connection st))"

definition esp_mqtt_connect :: "'x env \<Rightarrow> 'x sys \<Rightarrow> (esp_err \<times> 'x sys) option" where
  "esp_mqtt_connect env s = do {
     let s = upd_client (\<lambda>c. c\<lparr>wait_for_ping_resp := False\<rparr>) s;
     cfg \<leftarrow> config (client s);
     c \<leftarrow> mqtt_msg_connect (mqtt_msg_init (out_block (mst s)) (ucast (out_buffer_length (mst s))))
            (connect_info (client s));
     let s = upd_mstate (\<lambda>st. st\<lparr>connection := c, outbound_set := True\<rparr>) s;
     bs \<leftarrow> outbound_bytes (client s);
     ty \<leftarrow> mqtt_get_type bs;
     mid \<leftarrow> mqtt_get_id bs (ucast (outbound_length (client s)));
     let s = upd_mstate (\<lambda>st. st\<lparr>pending_msg_type := ty, pending_msg_id := mid\<rparr>) s;
     (write_len, s) \<leftarrow> write_outbound env s;
     if write_len < 0 then Some (ESP_FAIL, s)
     else do {
       let s = upd_mstate (\<lambda>st. st\<lparr>in_buffer_read_len := 0, message_length := 0\<rparr>) s;
       (read_len, s) \<leftarrow> mqtt_message_receive env (cfg_network_timeout_ms cfg) s;
       if read_len \<le> 0 then Some (ESP_FAIL, s)
       else do {
         ty \<leftarrow> mqtt_get_type (in_buffer (mst s));
         if ty \<noteq> type_code MQTT_MSG_TYPE_CONNACK then Some (ESP_FAIL, s)
         else do {
           let s = set_read_len 0 s;
           code \<leftarrow> mqtt_get_connect_return_code (in_buffer (mst s));
           Some (if code = return_code CONNECTION_ACCEPTED then ESP_OK else ESP_FAIL, s)
         }
       }
     }
   }"

definition esp_mqtt_client_ping :: "'x env \<Rightarrow> 'x sys \<Rightarrow> (esp_err \<times> 'x sys) option" where
  "esp_mqtt_client_ping env s = do {
     c \<leftarrow> mqtt_msg_pingreq (connection (mst s));
     (e, s) \<leftarrow> mqtt_write_data env (upd_mstate (\<lambda>st. st\<lparr>connection := c, outbound_set := True\<rparr>) s);
     Some (if e \<noteq> ESP_OK then ESP_FAIL else ESP_OK, s)
   }"

section \<open>The task\<close>

text \<open>The local variables of \<open>esp_mqtt_task\<close>\<close>

record task_locals =
  last_retransmit :: u32
  msg_tick :: i32

definition set_state :: "mqtt_client_state \<Rightarrow> 'x sys \<Rightarrow> 'x sys" where
  "set_state st = upd_client (\<lambda>c. c\<lparr>state := st\<rparr>)"

definition set_run :: "bool \<Rightarrow> 'x sys \<Rightarrow> 'x sys" where
  "set_run b = upd_client (\<lambda>c. c\<lparr>run := b\<rparr>)"

definition task_init_state :: "'x env \<Rightarrow> 'x sys \<Rightarrow> 'x sys option" where
  "task_init_state env s = do {
     s \<leftarrow> dispatch_id env MQTT_EVENT_BEFORE_CONNECT s;
     let s = (if transport (client s) = None then set_run False s else s);
     cfg \<leftarrow> config (client s);
     (r, s) \<leftarrow> transport_connect env (cfg_host cfg) (cfg_port cfg) (cfg_network_timeout_ms cfg) s;
     if r < 0 then do {
       s \<leftarrow> dispatch_id env MQTT_EVENT_ERROR s;
       esp_mqtt_abort_connection env s
     } else do {
       (e, s) \<leftarrow> esp_mqtt_connect env s;
       if e \<noteq> ESP_OK then esp_mqtt_abort_connection env s
       else do {
         sp \<leftarrow> mqtt_get_connect_session_present (in_buffer (mst s));
         s \<leftarrow> dispatch_id env MQTT_EVENT_CONNECTED
                (set_state MQTT_STATE_CONNECTED (upd_event (\<lambda>e. e\<lparr>session_present := sp\<rparr>) s));
         let (now, s) = platform_tick_get_ms env s;
         Some (upd_client (\<lambda>c. c\<lparr>refresh_connection_tick := now\<rparr>) s)
       }
     }
   }"

text \<open>Resending: the queued messages first, otherwise once a second the oldest transmitted one.\<close>

definition task_resend :: "'x env \<Rightarrow> task_locals \<Rightarrow> 'x sys \<Rightarrow> (task_locals \<times> 'x sys) option" where
  "task_resend env l s =
     (case outbox_dequeue (the_outbox (client s)) QUEUED of
        Some it \<Rightarrow> do {
          (e, s) \<leftarrow> mqtt_resend_queued env it s;
          Some (l, if e = ESP_OK then set_pending_of (pending_msg_id (mst s)) TRANSMITTED s else s)
        }
      | None \<Rightarrow>
          (let (now, s) = platform_tick_get_ms env s in
           if 1000 < sint now - int (unat (last_retransmit l)) then
             (let (now, s) = platform_tick_get_ms env s;
                  l = l\<lparr>last_retransmit := ucast now\<rparr>
              in case outbox_dequeue (the_outbox (client s)) TRANSMITTED of
                   None \<Rightarrow> Some (l, s)
                 | Some it \<Rightarrow>
                     (let l = l\<lparr>msg_tick := item_tick it\<rparr> in
                      if 1000 < last_retransmit l - msg_tick l
                      then do { (_, s) \<leftarrow> mqtt_resend_queued env it s; Some (l, s) }
                      else Some (l, s)))
           else Some (l, s)))"

text \<open>\<open>keepalive * 1000 / 2\<close>, an \<open>int\<close> that must not overflow, compared as \<open>uint64_t\<close>\<close>

definition half_keepalive :: "i32 \<Rightarrow> u64 option" where
  "half_keepalive k =
     (if sint k * 1000 < 2 ^ 31 \<and> - (2 ^ 31) \<le> sint k * 1000
      then Some (word_of_int (c_div (sint k * 1000) 2)) else None)"

text \<open>The keep-alive check; \<open>Inl\<close> is the \<open>break\<close> after the connection was aborted.\<close>

definition task_keepalive :: "'x env \<Rightarrow> 'x sys \<Rightarrow> ('x sys + 'x sys) option" where
  "task_keepalive env s = do {
     let (now, s) = platform_tick_get_ms env s;
     half \<leftarrow> half_keepalive (mqtt_connect_info.keepalive (connect_info (client s)));
     if half < now - keepalive_tick (client s) then
       (if wait_for_ping_resp (client s) then do {
          s \<leftarrow> esp_mqtt_abort_connection env s;
          Some (Inl (upd_client (\<lambda>c. c\<lparr>wait_for_ping_resp := False\<rparr>) s))
        } else do {
          (e, s) \<leftarrow> esp_mqtt_client_ping env s;
          if e = ESP_FAIL then do { s \<leftarrow> esp_mqtt_abort_connection env s; Some (Inl s) }
          else Some (Inr (upd_client (\<lambda>c. c\<lparr>wait_for_ping_resp := True\<rparr>) s))
        })
     else Some (Inr s)
   }"

definition task_refresh :: "'x env \<Rightarrow> 'x sys \<Rightarrow> 'x sys option" where
  "task_refresh env s = do {
     cfg \<leftarrow> config (client s);
     if cfg_refresh_connection_after_ms cfg = 0 then Some s
     else do {
       let (now, s) = platform_tick_get_ms env s;
       if scast (cfg_refresh_connection_after_ms cfg) < now - refresh_connection_tick (client s)
       then do { s \<leftarrow> esp_mqtt_abort_connection env s; Some (set_state MQTT_STATE_INIT s) }
       else Some s
     }
   }"

definition task_expire :: "'x env \<Rightarrow> 'x sys \<Rightarrow> 'x sys" where
  "task_expire env s =
     (let (now, s) = platform_tick_get_ms env s;
          (deleted, ob) = outbox_delete_expired (the_outbox (client s)) (ucast now) OUTBOX_EXPIRED_TIMEOUT_MS;
          left = pending_msg_count (mst s) - deleted;
          s = upd_mstate (\<lambda>st. st\<lparr>pending_msg_count := (if sint left < 0 then 0 else left)\<rparr>) (set_outbox ob s)
      in set_outbox (snd (outbox_cleanup (the_outbox (client s)) OUTBOX_MAX_SIZE)) s)"

definition task_connected_state :: "'x env \<Rightarrow> task_locals \<Rightarrow> 'x sys \<Rightarrow> (task_locals \<times> 'x sys) option" where
  "task_connected_state env l s = do {
     (e, s) \<leftarrow> mqtt_process_receive env s;
     if e = ESP_FAIL then do { s \<leftarrow> esp_mqtt_abort_connection env s; Some (l, s) }
     else do {
       (l, s) \<leftarrow> task_resend env l s;
       r \<leftarrow> task_keepalive env s;
       case r of Inl s \<Rightarrow> Some (l, s)
       | Inr s \<Rightarrow> do {
           s \<leftarrow> task_refresh env s;
           Some (l, task_expire env s)
         }
     }
   }"

text \<open>The waiting state; \<open>True\<close> is the \<open>continue\<close> that skips the rest of the pass.\<close>

definition task_wait_state :: "'x env \<Rightarrow> 'x sys \<Rightarrow> (bool \<times> 'x sys) option" where
  "task_wait_state env s = do {
     cfg \<leftarrow> config (client s);
     if \<not> cfg_auto_reconnect cfg then Some (False, set_state MQTT_STATE_UNKNOWN (set_run False s))
     else do {
       let (now, s) = platform_tick_get_ms env s;
       if scast (wait_timeout_ms (client s)) < now - reconnect_tick (client s) then do {
         let (now, s) = platform_tick_get_ms env s;
         Some (False, upd_client (\<lambda>c. c\<lparr>state := MQTT_STATE_INIT, reconnect_tick := now\<rparr>) s)
       } else Some (True, s)
     }
   }"

text \<open>One pass of the loop of \<open>esp_mqtt_task\<close>\<close>

definition task_pass :: "'x env \<Rightarrow> task_locals \<Rightarrow> 'x sys \<Rightarrow> (task_locals \<times> 'x sys) option" where
  "task_pass env l s = do {
     (skip, l, s) \<leftarrow> (case state (client s) of
         MQTT_STATE_INIT \<Rightarrow> do { s \<leftarrow> task_init_state env s; Some (False, l, s) }
       | MQTT_STATE_CONNECTED \<Rightarrow> do { (l, s) \<leftarrow> task_connected_state env l s; Some (False, l, s) }
       | MQTT_STATE_WAIT_TIMEOUT \<Rightarrow> do { (skip, s) \<leftarrow> task_wait_state env s; Some (skip, l, s) }
       | _ \<Rightarrow> Some (False, l, s));
     if \<not> skip \<and> state (client s) = MQTT_STATE_CONNECTED then do {
       (r, s) \<leftarrow> transport_poll_read env MQTT_POLL_READ_TIMEOUT_MS s;
       if r < 0 then do { s \<leftarrow> esp_mqtt_abort_connection env s; Some (l, s) } else Some (l, s)
     } else Some (l, s)
   }"

text \<open>The task up to its loop\<close>

definition task_start :: "'x env \<Rightarrow> 'x sys \<Rightarrow> (task_locals \<times> 'x sys) option" where
  "task_start env s = do {
     let s = set_run True s;
     cfg \<leftarrow> config (client s);
     t \<leftarrow> esp_transport_list_get_transport (transport_list (client s)) (cfg_scheme cfg) (tworld s);
     let s = upd_client (\<lambda>c. c\<lparr>transport := t\<rparr>) s;
     let s = (if t = None then set_run False s else s);
     p \<leftarrow> (if cfg_port cfg = 0 then esp_transport_get_default_port t (tworld s) else Some (cfg_port cfg));
     Some (\<lparr>last_retransmit = 0, msg_tick = 0\<rparr>,
           set_state MQTT_STATE_INIT (upd_client (\<lambda>c. c\<lparr>config := Some (cfg\<lparr>cfg_port := p\<rparr>)\<rparr>) s))
   }"

text \<open>The loop: it ends when \<open>run\<close> is false, and may go on for ever.\<close>

partial_function (option) task_loop :: "'x env \<Rightarrow> task_locals \<Rightarrow> 'x sys \<Rightarrow> 'x sys option" where
  "task_loop env l s =
     (if run (client s)
      then Option.bind (task_pass env l s) (\<lambda>ls. task_loop env (fst ls) (snd ls))
      else Some s)"

definition esp_mqtt_task :: "'x env \<Rightarrow> 'x sys \<Rightarrow> 'x sys option" where
  "esp_mqtt_task env s = do {
     (l, s) \<leftarrow> task_start env s;
     s \<leftarrow> task_loop env l s;
     (_, s) \<leftarrow> transport_close env s;
     Some s
   }"

section \<open>The API\<close>

text \<open>The functions that check their handle get whether it is \<open>NULL\<close> as an argument.\<close>

definition err_code :: "esp_err \<Rightarrow> i32" where
  "err_code e = (case e of ESP_OK \<Rightarrow> 0 | ESP_FAIL \<Rightarrow> -1)"

definition esp_mqtt_client_stop :: "'x env \<Rightarrow> 'x sys \<Rightarrow> (esp_err \<times> 'x sys) option" where
  "esp_mqtt_client_stop env s =
     (if run (client s) then do {
        s \<leftarrow> (if state (client s) = MQTT_STATE_CONNECTED then do {
               c \<leftarrow> mqtt_msg_disconnect (connection (mst s));
               (_, s) \<leftarrow> mqtt_write_data env (upd_mstate (\<lambda>st. st\<lparr>connection := c, outbound_set := True\<rparr>) s);
               Some s
             } else Some s);
        Some (ESP_OK, set_state MQTT_STATE_UNKNOWN (set_run False s))
      } else Some (ESP_FAIL, s))"

text \<open>What remains after \<open>free(client)\<close> is the world below; \<open>outbox_destroy\<close> leaks what is not confirmed.\<close>

definition esp_mqtt_client_destroy ::
  "'x env \<Rightarrow> bool \<Rightarrow> bool \<Rightarrow> 'x sys \<Rightarrow> (i32 \<times> outbox_item list \<times> world \<times> 'x) option" where
  "esp_mqtt_client_destroy env null has_outbox s =
     (if null then Some (ESP_ERR_INVALID_ARG, [], tworld s, outside s)
      else do {
        (_, s) \<leftarrow> esp_mqtt_client_stop env s;
        (_, s) \<leftarrow> esp_mqtt_destroy_config s;
        (_, w) \<leftarrow> (if transport_list (client s) \<noteq> None
                   then esp_transport_list_destroy (env_platform env) (env_others env)
                          (transport_list (client s)) (tworld s)
                   else Some (0, tworld s));
        Some (err_code ESP_OK, if has_outbox then outbox_destroy (the_outbox (client s)) else [], w, outside s)
      })"

definition zero_event :: esp_mqtt_event where
  "zero_event = \<lparr>event_id = MQTT_EVENT_ERROR, ev_user_context = None, ev_data = None, data_len = 0,
     total_data_len = 0, current_data_offset = 0, ev_topic = None, topic_len = 0, ev_msg_id = 0,
     session_present = 0\<rparr>"

definition zero_mstate :: mqtt_state where
  "zero_mstate = \<lparr>in_buffer = [], out_buffer = [], in_buffer_length = 0, out_buffer_length = 0,
     message_length = 0, in_buffer_read_len = 0, outbound_set = False, connection = mqtt_msg_init [] 0,
     pending_msg_id = 0, pending_msg_type = 0, pending_publish_qos = 0, pending_msg_count = 0\<rparr>"

definition zero_client :: mqtt_client where
  "zero_client = \<lparr>transport_list = None, transport = None, config = None, mstate = zero_mstate,
     connect_info = zero_info, state = MQTT_STATE_UNKNOWN, refresh_connection_tick = 0,
     keepalive_tick = 0, reconnect_tick = 0, wait_timeout_ms = 0, event = zero_event, run = False,
     wait_for_ping_resp = False, the_outbox = outbox_init\<rparr>"

text \<open>The two buffers of \<open>buffer_size\<close> bytes; what \<open>malloc\<close> leaves in them is zero here.\<close>

definition alloc_buffers :: "i32 \<Rightarrow> mqtt_state \<Rightarrow> mqtt_state" where
  "alloc_buffers bsize st =
     (let n = size_of_i32 bsize in st\<lparr>in_buffer := replicate n 0, in_buffer_length := bsize,
        out_buffer := replicate n 0, out_buffer_length := bsize\<rparr>)"

text \<open>\<open>Inl\<close> is the result \<open>NULL\<close>, with the world that the failed client leaves behind.\<close>

definition esp_mqtt_client_init ::
  "'x env \<Rightarrow> esp_mqtt_client_config \<Rightarrow> world \<Rightarrow> nat \<Rightarrow> 'x \<Rightarrow> (world \<times> 'x + 'x sys) option" where
  "esp_mqtt_client_init env uc w ntasks x = do {
     (_, s) \<leftarrow> esp_mqtt_set_config env uc \<lparr>client = zero_client, tworld = w, tasks = ntasks, outside = x\<rparr>;
     (tcp, w) \<leftarrow> esp_transport_tcp_init (tworld s);
     (_, w) \<leftarrow> esp_transport_set_default_port (Some tcp) MQTT_TCP_DEFAULT_PORT w;
     (_, l, w) \<leftarrow> esp_transport_list_add (Some esp_transport_list_init) (Some tcp) (Some (ascii ''mqtt'')) w;
     let s = upd_client (\<lambda>c. c\<lparr>transport_list := l\<rparr>) (s\<lparr>tworld := w\<rparr>);
     cfg \<leftarrow> config (client s);
     sch \<leftarrow> (if uc_transport uc = MQTT_TRANSPORT_OVER_TCP then create_string (ascii ''mqtt'') 0 4
             else Some (cfg_scheme cfg));
     let s = upd_client (\<lambda>c. c\<lparr>config := Some (cfg\<lparr>cfg_scheme := sch\<rparr>)\<rparr>) s;
     (e, s) \<leftarrow> (case cfg_uri cfg of None \<Rightarrow> Some (ESP_OK, s) | Some u \<Rightarrow> esp_mqtt_client_set_uri u s);
     if e \<noteq> ESP_OK then do {
       (_, _, w, x) \<leftarrow> esp_mqtt_client_destroy env False False s;
       Some (Inl (w, x))
     } else do {
       let (t1, s) = platform_tick_get_ms env s;
       let (t2, s) = platform_tick_get_ms env s;
       let (t3, s) = platform_tick_get_ms env s;
       let bsize = (if sint (uc_buffer_size uc) \<le> 0 then MQTT_BUFFER_SIZE_BYTE else uc_buffer_size uc);
       Some (Inr (upd_client (\<lambda>c. c\<lparr>keepalive_tick := t1, reconnect_tick := t2,
          refresh_connection_tick := t3, wait_for_ping_resp := False,
          mstate := alloc_buffers bsize (mstate c), the_outbox := outbox_init\<rparr>) s))
     }
   }"

definition esp_mqtt_client_start :: "bool \<Rightarrow> 'x sys \<Rightarrow> i32 \<times> 'x sys" where
  "esp_mqtt_client_start null s =
     (if null then (ESP_ERR_INVALID_ARG, s)
      else if state_code MQTT_STATE_INIT \<le> state_code (state (client s)) then (err_code ESP_FAIL, s)
      else (err_code ESP_OK, s\<lparr>tasks := tasks s + 1\<rparr>))"

definition esp_mqtt_client_reconnect :: "'x sys \<Rightarrow> esp_err \<times> 'x sys" where
  "esp_mqtt_client_reconnect s =
     (if state (client s) \<noteq> MQTT_STATE_WAIT_TIMEOUT then (ESP_FAIL, s)
      else (ESP_OK, upd_client (\<lambda>c. c\<lparr>wait_timeout_ms := 0\<rparr>) s))"

text \<open>The common part of subscribe and unsubscribe once the message is built\<close>

definition send_request :: "'x env \<Rightarrow> mqtt_connection \<Rightarrow> u16 \<Rightarrow> 'x sys \<Rightarrow> (i32 \<times> 'x sys) option" where
  "send_request env c mid s = do {
     let s = upd_mstate (\<lambda>st. st\<lparr>connection := c, outbound_set := True, pending_msg_id := mid\<rparr>) s;
     bs \<leftarrow> outbound_bytes (client s);
     ty \<leftarrow> mqtt_get_type bs;
     s \<leftarrow> mqtt_enqueue env (upd_mstate (\<lambda>st. st\<lparr>pending_msg_type := ty,
            pending_msg_count := pending_msg_count st + 1\<rparr>) s);
     (e, s) \<leftarrow> mqtt_write_data env (set_pending_of (pending_msg_id (mst s)) TRANSMITTED s);
     Some (if e \<noteq> ESP_OK then -1 else ucast (pending_msg_id (mst s)), s)
   }"

definition esp_mqtt_client_subscribe :: "'x env \<Rightarrow> cstr \<Rightarrow> i32 \<Rightarrow> 'x sys \<Rightarrow> (i32 \<times> 'x sys) option" where
  "esp_mqtt_client_subscribe env topic qos s =
     (if state (client s) \<noteq> MQTT_STATE_CONNECTED then Some (-1, s)
      else do {
        (c, mid, x) \<leftarrow> mqtt_msg_subscribe (rand env) (connection (mst s)) topic qos
          (pending_msg_id (mst s)) (outside s);
        send_request env c mid (s\<lparr>outside := x\<rparr>)
      })"

definition esp_mqtt_client_unsubscribe :: "'x env \<Rightarrow> cstr \<Rightarrow> 'x sys \<Rightarrow> (i32 \<times> 'x sys) option" where
  "esp_mqtt_client_unsubscribe env topic s =
     (if state (client s) \<noteq> MQTT_STATE_CONNECTED then Some (-1, s)
      else do {
        (c, mid, x) \<leftarrow> mqtt_msg_unsubscribe (rand env) (connection (mst s)) topic
          (pending_msg_id (mst s)) (outside s);
        send_request env c mid (s\<lparr>outside := x\<rparr>)
      })"

text \<open>
  The sending loop of \<open>esp_mqtt_client_publish\<close>.  \<open>cur\<close> is \<open>current_data - data\<close>.  The result is
  whether the message was sent (\<open>False\<close> is \<open>goto cannot_publish\<close>).
\<close>

definition next_fragment :: "u8 list \<Rightarrow> int \<Rightarrow> i32 \<Rightarrow> 'x sys \<Rightarrow> 'x sys option" where
  "next_fragment payload cur rlen s =
     (let c = connection (mst s);
          n = (if int (unat (buffer_length c)) < sint rlen then unat (buffer_length c) else nat (sint rlen))
      in if cur < 0 then None
         else do {
           bs \<leftarrow> mem_bytes (drop (nat cur) payload) n;
           m \<leftarrow> mem_write (mqtt_connection.buffer c) 0 bs;
           Some (upd_mstate (\<lambda>st. st\<lparr>connection := c\<lparr>mqtt_connection.buffer := m,
             message := (message c)\<lparr>length_of := n, data := InBuffer 0\<rparr>\<rparr>\<rparr>) s)
         })"

text \<open>The first continuation of an oversized message resets its marks and stores it, if it has a QoS.\<close>

definition first_fragment ::
  "'x env \<Rightarrow> u8 list \<Rightarrow> int \<Rightarrow> i32 \<Rightarrow> i32 \<Rightarrow> 'x sys \<Rightarrow> 'x sys option" where
  "first_fragment env payload cur rlen qos s =
     (let c = connection (mst s) in
      if fragmented_msg_data_offset (message c) \<noteq> 0 then
        (let s = upd_mstate (\<lambda>st. st\<lparr>connection := c\<lparr>message := (message c)\<lparr>
                   fragmented_msg_data_offset := 0, fragmented_msg_total_length := 0\<rparr>\<rparr>\<rparr>) s
         in if 0 < sint qos then
              (if cur < 0 then None else mqtt_enqueue_oversized env (drop (nat cur) payload) rlen s)
            else Some s)
      else Some s)"

partial_function (option) send_fragments ::
  "'x env \<Rightarrow> u8 list \<Rightarrow> i32 \<Rightarrow> int \<Rightarrow> i32 \<Rightarrow> 'x sys \<Rightarrow> (bool \<times> 'x sys) option" where
  "send_fragments env payload qos cur rlen s =
     Option.bind (mqtt_write_data env s) (\<lambda>es.
       if fst es \<noteq> ESP_OK
       then Option.bind (esp_mqtt_abort_connection env (snd es)) (\<lambda>s. Some (False, s))
       else
         (let s = snd es; m = message (connection (mst s));
              sent = (of_nat (length_of m) :: i32) - fragmented_msg_data_offset m;
              rlen = rlen - sent; cur = cur + sint sent
          in if 0 < sint rlen
             then Option.bind (first_fragment env payload cur rlen qos s) (\<lambda>s.
                    Option.bind (next_fragment payload cur rlen s) (\<lambda>s.
                      send_fragments env payload qos cur rlen s))
             else Some (True, s)))"

definition strlen_of :: "u8 list \<Rightarrow> i32" where
  "strlen_of d = of_nat (length (takeWhile (\<lambda>b. b \<noteq> 0) d))"

text \<open>A PUBLISH with a QoS becomes the pending message, stored as queued when it fits the buffer.\<close>

definition publish_pending :: "'x env \<Rightarrow> i32 \<Rightarrow> u16 \<Rightarrow> 'x sys \<Rightarrow> 'x sys option" where
  "publish_pending env qos mid s =
     (if 0 < sint qos then do {
        bs \<leftarrow> outbound_bytes (client s);
        ty \<leftarrow> mqtt_get_type bs;
        let s = upd_mstate (\<lambda>st. st\<lparr>pending_msg_type := ty, pending_msg_id := mid,
                  pending_publish_qos := qos, pending_msg_count := pending_msg_count st + 1\<rparr>) s;
        if fragmented_msg_total_length (message (connection (mst s))) = 0 then mqtt_enqueue env s else Some s
      } else Some s)"

definition esp_mqtt_client_publish ::
  "'x env \<Rightarrow> cstr \<Rightarrow> u8 list option \<Rightarrow> i32 \<Rightarrow> i32 \<Rightarrow> i32 \<Rightarrow> 'x sys \<Rightarrow> (i32 \<times> 'x sys) option" where
  "esp_mqtt_client_publish env topic payload len qos retain s = do {
     let len = (case payload of Some d \<Rightarrow> if sint len \<le> 0 then strlen_of d else len | None \<Rightarrow> len);
     (c, mid, x) \<leftarrow> mqtt_msg_publish (rand env) (connection (mst s)) topic payload len qos retain 0 (outside s);
     let s = upd_mstate (\<lambda>st. st\<lparr>connection := c, outbound_set := True\<rparr>) (s\<lparr>outside := x\<rparr>);
     s \<leftarrow> publish_pending env qos mid s;
     if state (client s) \<noteq> MQTT_STATE_CONNECTED then Some (0, s)
     else do {
       (sent, s) \<leftarrow> send_fragments env (case payload of None \<Rightarrow> [] | Some d \<Rightarrow> d) qos 0 len s;
       if sent then
         Some (ucast mid, if 0 < sint qos then set_pending_of mid TRANSMITTED s else s)
       else Some (0, s)
     }
   }"

definition esp_mqtt_client_register_event :: "bool \<Rightarrow> i32" where
  "esp_mqtt_client_register_event null = (if null then ESP_ERR_INVALID_ARG else err_code ESP_FAIL)"

end
