(* ===== verification/Mqtt_Client_Laws.thy ===== *)
theory Mqtt_Client_Laws
  imports Mqtt_Client Mqtt_Packet_Laws Transport_Laws
begin

text \<open>
  What the MQTT client guarantees, over the laws of the packets, the outbox and the transports.

  The first part follows \<open>mqtt_message_receive\<close> over a socket with a packet in its buffer: the
  predicate \<open>rx\<close> says how much of it has come in, each part of the function moves it on.
\<close>

section \<open>Selectors\<close>

lemma upd_sel [simp]:
  "client (upd_client f s) = f (client s)" "tworld (upd_client f s) = tworld s"
  "outside (upd_client f s) = outside s" "tasks (upd_client f s) = tasks s"
  by (simp_all add: upd_client_def)

lemma upd_mstate_sel [simp]:
  "client (upd_mstate f s) = (client s)\<lparr>mstate := f (mst s)\<rparr>" "tworld (upd_mstate f s) = tworld s"
  "outside (upd_mstate f s) = outside s"
  by (simp_all add: upd_mstate_def)

lemma turn_of_sel: "turn_of env s = (tn, s') \<Longrightarrow> client s' = client s \<and> tworld s' = tworld s"
  by (auto simp: turn_of_def Let_def split: prod.splits)

lemma transport_read_buffered:
  assumes "tcp_ready t (tworld s)" "0 < n" "n \<le> length (tcp_avail t (tworld s))" "n < 2 ^ 31"
  shows "\<exists>s'. transport_read env (Some t) (of_nat n) timeout s = Some (int n, take n (tcp_avail t (tworld s)), s')
     \<and> client s' = client s \<and> tcp_ready t (tworld s') \<and> tcp_avail t (tworld s') = drop n (tcp_avail t (tworld s))"
proof -
  obtain tn s1 where t1: "turn_of env s = (tn, s1)" by fastforce
  obtain tn' s2 where t2: "turn_of env s1 = (tn', s2)" by fastforce
  have same: "client s2 = client s" "tworld s2 = tworld s"
    using turn_of_sel [OF t1] turn_of_sel [OF t2] by simp_all
  obtain w' where w': "esp_transport_read (env_others env) tn tn' (Some t) n timeout (tworld s) =
      Some (int n, take n (tcp_avail t (tworld s)), w')" "tcp_ready t w'"
      "tcp_avail t w' = drop n (tcp_avail t (tworld s))"
    using tcp_bytes.read_avail [OF assms(1-3), of "env_others env" "(tn, tn', timeout)"] by auto
  then show ?thesis
    using assms(4) by (simp add: transport_read_def t1 t2 same)
qed

text \<open>
  While a message \<open>p\<close> comes in, followed by \<open>post\<close>: the first \<open>k\<close> bytes have been received, the rest
  is still in the socket's buffer, and nothing else of the client has changed.
\<close>

definition rx :: "'x sys \<Rightarrow> nat \<Rightarrow> u8 list \<Rightarrow> u8 list \<Rightarrow> u32 \<Rightarrow> nat \<Rightarrow> 'x sys \<Rightarrow> bool" where
  "rx s0 t p post ml k s \<longleftrightarrow> tcp_ready t (tworld s) \<and> tcp_avail t (tworld s) = drop k p @ post \<and> k \<le> length p \<and>
     (\<exists>buf. client s = (client s0)\<lparr>mstate := (mst s0)\<lparr>in_buffer := buf, in_buffer_read_len := of_nat k,
        message_length := ml\<rparr>\<rparr> \<and> length buf = length (in_buffer (mst s0)) \<and> holds buf k p)"

definition rx_room :: "'x sys \<Rightarrow> nat \<Rightarrow> u8 list \<Rightarrow> bool" where
  "rx_room s0 t p \<longleftrightarrow> transport (client s0) = Some t \<and> length p \<le> length (in_buffer (mst s0)) \<and>
     length (in_buffer (mst s0)) < 2 ^ 31 \<and> in_buffer_length (mst s0) = of_nat (length (in_buffer (mst s0)))"

lemma rxD:
  assumes "rx s0 t p post ml k s" "rx_room s0 t p"
  shows "holds (in_buffer (mst s)) k p" "in_buffer_read_len (mst s) = of_nat k" "read_pos s = k"
    "transport (client s) = Some t" "k \<le> length p" "k < 2 ^ 31"
    "in_buffer_length (mst s) = of_nat (length (in_buffer (mst s0)))"
    "tcp_ready t (tworld s)" "tcp_avail t (tworld s) = drop k p @ post"
    "length (in_buffer (mst s)) = length (in_buffer (mst s0))"
proof -
  have k: "k \<le> length p" using assms(1) by (simp add: rx_def)
  then show "k < 2 ^ 31" "k \<le> length p" using assms(2) by (simp_all add: rx_room_def)
  then have u: "unat (of_nat k :: u32) = k" by (simp add: unat_of_nat)
  show "holds (in_buffer (mst s)) k p" "in_buffer_read_len (mst s) = of_nat k" "read_pos s = k"
    "transport (client s) = Some t"
    "in_buffer_length (mst s) = of_nat (length (in_buffer (mst s0)))"
    "tcp_ready t (tworld s)" "tcp_avail t (tworld s) = drop k p @ post"
    "length (in_buffer (mst s)) = length (in_buffer (mst s0))"
    using assms u by (auto simp: rx_def rx_room_def read_pos_def)
qed

lemma rx_step:
  assumes "rx s0 t p post ml k s" "rx_room s0 t p" "0 < n" "k + n \<le> length p"
  shows "\<exists>s1. receive_bytes env (Some t) (of_nat n) timeout s = Some (int n, s1) \<and>
     rx s0 t p post ml (k + n) (add_read (int n) s1) \<and> holds (in_buffer (mst s1)) (k + n) p"
proof -
  note d = rxD [OF assms(1,2)]
  from assms(1) obtain buf where c: "client s = (client s0)\<lparr>mstate := (mst s0)\<lparr>in_buffer := buf,
      in_buffer_read_len := of_nat k, message_length := ml\<rparr>\<rparr>"
    "length buf = length (in_buffer (mst s0))" "holds buf k p" by (auto simp: rx_def)
  have n: "n \<le> length (tcp_avail t (tworld s))" "n < 2 ^ 31"
    using d(5,9) assms(2,4) by (simp_all add: rx_room_def)
  obtain s1 where s1: "transport_read env (Some t) (of_nat n) timeout s = Some (int n, take n (drop k p), s1)"
    "client s1 = client s" "tcp_ready t (tworld s1)" "tcp_avail t (tworld s1) = drop (k + n) p @ post"
    using transport_read_buffered [OF d(8) assms(3) n, of env timeout] d(9) assms(4) by (auto simp: add.commute)
  let ?buf = "take k buf @ take n (drop k p) @ drop (k + n) buf"
  have len: "length (take n (drop k p)) = n" using assms(4) by simp
  have room: "k + n \<le> length buf" using c(2) assms(2,4) by (simp add: rx_room_def)
  have pos: "read_pos s1 = k" using s1(2) d(3) by (simp add: read_pos_def)
  have w: "mem_write (in_buffer (mst s1)) (read_pos s1) (take n (drop k p)) = Some ?buf"
    using mem_write_in [of k "take n (drop k p)" buf] room len s1(2) c(1) pos by simp
  have "take k buf = take k p" using c(3) by (simp add: holds_def)
  then have h: "holds ?buf (k + n) p"
    using assms(4) room by (simp add: holds_def take_add)
  let ?s = "upd_mstate (\<lambda>st. st\<lparr>in_buffer := ?buf\<rparr>) s1"
  have "receive_bytes env (Some t) (of_nat n) timeout s = Some (int n, ?s)"
    using s1(1) w by (simp add: receive_bytes_def)
  moreover have "rx s0 t p post ml (k + n) (add_read (int n) ?s)"
    unfolding rx_def using s1 c assms(4) h room
    by (auto simp: add_read_def intro!: exI [of _ ?buf])
  ultimately show ?thesis using h by auto
qed

lemma remaining_length_bits:
  "i < length (remaining_length n) \<Longrightarrow>
   (remaining_length n ! i) AND 0x80 = 0 \<longleftrightarrow> i = length (remaining_length n) - 1"
proof (induction n arbitrary: i rule: remaining_length.induct)
  case (1 n)
  show ?case
  proof (cases "n < 128")
    case True
    then show ?thesis using "1.prems" byte_low7 [of n] by (simp add: remaining_length_small)
  next
    case False
    then have rl: "remaining_length n = of_nat (n mod 128 + 128) # remaining_length (n div 128)"
      by (simp add: remaining_length_step)
    have cont: "(of_nat (n mod 128 + 128) :: u8) AND 0x80 \<noteq> 0" using byte_low7(2) [of "n mod 128"] by simp
    show ?thesis
    proof (cases i)
      case 0
      then show ?thesis using cont by (simp add: rl)
    next
      case (Suc j)
      have "remaining_length (n div 128) \<noteq> []" by simp
      then show ?thesis using "1.IH" [of j] False "1.prems" Suc
        by (cases "remaining_length (n div 128)") (auto simp: rl)
    qed
  qed
qed


lemma receive_first_rx:
  assumes rx: "rx s0 t p post ml 0 s" and room: "rx_room s0 t p"
    and p: "p = mqtt_packet ty dup qos retain rest"
    and legal: "legal_flags ty (dup AND 1) (qos AND 3) (retain AND 1)"
  shows "\<exists>s1. receive_first env timeout s = Some (Inr s1) \<and> rx s0 t p post ml 1 s1"
proof -
  have "0 + 1 \<le> length p" by (simp add: p mqtt_packet_def)
  from rx_step [OF rx room _ this, of env timeout] obtain s1 where
    s1: "receive_bytes env (Some t) 1 timeout s = Some (1, s1)" "rx s0 t p post ml 1 (add_read 1 s1)"
      "holds (in_buffer (mst s1)) 1 p" by auto
  obtain xs where buf: "in_buffer (mst s1) = header_byte (type_code ty) dup qos retain # xs"
    using s1(3) by (cases "in_buffer (mst s1)") (auto simp: holds_def p mqtt_packet_def)
  have "mqtt_has_valid_msg_hdr (in_buffer (mst s1)) (word_of_int 1) = Some True"
    using legal unfolding buf by (subst valid_header_iff_legal) simp_all
  then show ?thesis
    using s1 rxD [OF rx room] by (simp add: receive_first_def)
qed

lemma length_goes_on_rx:
  assumes rx: "rx s0 t p post ml k s" and room: "rx_room s0 t p"
    and p: "p = mqtt_packet ty dup qos retain rest" and k: "0 < k" "k \<le> 1 + length (remaining_length (length rest))"
    and l4: "length (remaining_length (length rest)) \<le> 4"
  shows "k = 1 \<or> length_goes_on s = Some (k < 1 + length (remaining_length (length rest)))"
proof (cases "k = 1")
  case False
  let ?l = "remaining_length (length rest)"
  note d = rxD [OF rx room]
  have lt: "k - 1 < k" "k - 2 < length ?l" "0 < k - 1" using k False by simp_all
  have len: "k \<le> length (in_buffer (mst s))" using d(1) by (simp add: holds_def)
  have "in_buffer (mst s) ! (k - 1) = p ! (k - 1)" using holds_nth [OF d(1) lt(1)] .
  also have "p ! (k - 1) = ?l ! (k - 2)"
    using lt k False by (simp add: p mqtt_packet_def nth_Cons' nth_append numeral_2_eq_2)
  finally have b: "in_buffer (mst s) ! (k - 1) = ?l ! (k - 2)" .
  have "k < 6" using k l4 by simp
  then have "length_goes_on s = Some (?l ! (k - 2) AND 0x80 \<noteq> 0)"
    using len k b lt(1) by (simp add: length_goes_on_def d(3))
  moreover have "k < 1 + length ?l \<longleftrightarrow> k - 2 \<noteq> length ?l - 1" using k False by auto
  ultimately show ?thesis using remaining_length_bits [OF lt(2)] by simp
qed simp

lemma receive_length_rx:
  assumes room: "rx_room s0 t p" and p: "p = mqtt_packet ty dup qos retain rest"
    and l4: "length (remaining_length (length rest)) \<le> 4"
  shows "rx s0 t p post ml k s \<Longrightarrow> 0 < k \<Longrightarrow> k \<le> length (remaining_length (length rest)) \<Longrightarrow>
    length (remaining_length (length rest)) < k + n \<Longrightarrow>
    \<exists>s'. receive_length n env (Some t) timeout s = Some (Inr s') \<and>
      rx s0 t p post ml (1 + length (remaining_length (length rest))) s'"
proof (induction n arbitrary: k s)
  case (Suc n)
  let ?l = "length (remaining_length (length rest))"
  have "k + 1 \<le> length p" using Suc.prems(3) by (simp add: p mqtt_packet_def)
  from rx_step [OF Suc.prems(1) room _ this, of env timeout] obtain s1 where
    s1: "receive_bytes env (Some t) 1 timeout s = Some (1, s1)" "rx s0 t p post ml (k + 1) (add_read 1 s1)"
    by auto
  have more: "length_goes_on (add_read 1 s1) = Some (k + 1 < 1 + ?l)"
    using length_goes_on_rx [OF s1(2) room p _ _ l4] Suc.prems(2,3) by simp
  show ?case
  proof (cases "k = ?l")
    case True
    then show ?thesis using s1 more by (simp add: Let_def add.commute)
  next
    case False
    then have "k + 1 \<le> ?l" "?l < k + 1 + n" using Suc.prems(3,4) by simp_all
    from Suc.IH [OF s1(2) _ this] show ?thesis using s1 more False Suc.prems(3) by (simp add: Let_def)
  qed
qed simp

lemma payload_rx:
  "rx s0 t p post ml k s \<Longrightarrow> rx_room s0 t p \<Longrightarrow> payload_transport env s = Some (Some t)"
  using rxD(4) [of s0 t p post ml k s] rxD(8) [of s0 t p post ml k s]
  by (auto simp: payload_transport_def esp_transport_get_payload_transport_handle_def
      tcp_ready_def esp_transport_get_default_parent_def)

lemma rx_message_length:
  "rx s0 t p post ml k s \<Longrightarrow> rx s0 t p post n k (upd_mstate (\<lambda>st. st\<lparr>message_length := n\<rparr>) s)"
  by (auto simp: rx_def)

lemma receive_rest_rx:
  assumes rx: "rx s0 t p post ml k s" and room: "rx_room s0 t p"
  shows "\<exists>s'. receive_rest env (Some t) timeout (of_nat (length p)) s = Some (1, s') \<and>
    rx s0 t p post ml (length p) s'"
proof -
  note d = rxD [OF rx room]
  have len: "length p < 2 ^ 31" using room by (simp add: rx_room_def)
  have lt: "in_buffer_read_len (mst s) < of_nat (length p) \<longleftrightarrow> k < length p"
    using d(6) len by (simp add: d(2) word_less_nat_alt unat_of_nat)
  show ?thesis
  proof (cases "k = length p")
    case True
    then show ?thesis using rx lt by (simp add: receive_rest_def)
  next
    case False
    with d(5) have k: "k < length p" "0 < length p - k" "k + (length p - k) \<le> length p" by simp_all
    from rx_step [OF rx room k(2,3), of env timeout] k obtain s1 where
      s1: "receive_bytes env (Some t) (of_nat (length p - k)) timeout s = Some (int (length p - k), s1)"
        "rx s0 t p post ml (length p) (add_read (int (length p - k)) s1)" by auto
    have n: "of_nat (length p) - in_buffer_read_len (mst s) = (of_nat (length p - k) :: u32)"
      using k by (simp add: d(2) of_nat_diff)
    have full: "in_buffer_read_len (mst (add_read (int (length p - k)) s1)) = of_nat (length p)"
      using rxD(2) [OF s1(2) room] .
    show ?thesis using s1 n full k lt by (simp add: receive_rest_def)
  qed
qed


lemma total_length_rx:
  assumes rx: "rx s0 t p post ml k s" and room: "rx_room s0 t p"
    and p: "p = mqtt_packet ty dup qos retain rest" and small: "length rest < 2 ^ 28"
    and k: "k = 1 + length (remaining_length (length rest))"
  shows "mqtt_get_total_length (in_buffer (mst s)) (ucast (in_buffer_read_len (mst s))) =
    Some (of_nat (length p), k)"
proof -
  note d = rxD [OF rx room]
  have "length (remaining_length (length rest)) \<le> 4" using small by (simp only: length_remaining_length_4)
  then have k5: "k \<le> 5" using k by simp
  then have "(ucast (of_nat k :: u32) :: u16) = of_nat k"
    by (simp add: word_unat_eq_iff unsigned_ucast_eq unat_of_nat take_bit_nat_eq_self)
  then show ?thesis
    using total_length_read [of "in_buffer (mst s)" k ty dup qos retain rest] d(1,2) k k5 small
    by (simp add: p)
qed


text \<open>C3: Receiving keeps the framing of the stream.  When the socket of a connected TCP transport has
  buffered a legal packet that fits the client's input buffer, followed by anything, one call of
  \<open>mqtt_message_receive\<close> returns 1, leaves exactly the packet at the beginning of the input buffer
  with its length recorded, and leaves the socket at the byte after the packet; nothing else of the
  client changes.\<close>

theorem receive_whole_message:
  assumes ready: "tcp_ready t (tworld s)" and avail: "tcp_avail t (tworld s) = p @ post"
    and p: "p = mqtt_packet ty dup qos retain rest"
    and legal: "legal_flags ty (dup AND 1) (qos AND 3) (retain AND 1)" and small: "length rest < 2 ^ 28"
    and room: "transport (client s) = Some t" "length p \<le> length (in_buffer (mst s))"
      "length (in_buffer (mst s)) < 2 ^ 31" "in_buffer_length (mst s) = of_nat (length (in_buffer (mst s)))"
    and start: "in_buffer_read_len (mst s) = 0"
  shows "\<exists>s' buf. mqtt_message_receive env timeout s = Some (1, s') \<and>
    client s' = (client s)\<lparr>mstate := (mst s)\<lparr>in_buffer := buf, in_buffer_read_len := of_nat (length p),
      message_length := of_nat (length p)\<rparr>\<rparr> \<and>
    length buf = length (in_buffer (mst s)) \<and> take (length p) buf = p \<and>
    tcp_ready t (tworld s') \<and> tcp_avail t (tworld s') = post"
proof -
  let ?l = "length (remaining_length (length rest))"
  have l4: "?l \<le> 4" using small by (simp only: length_remaining_length_4)
  have rm: "rx_room s t p" using room by (simp add: rx_room_def)
  let ?s = "upd_mstate (\<lambda>st. st\<lparr>message_length := 0\<rparr>) s"
  have "rx s t p post 0 0 ?s"
    using ready avail start by (simp add: rx_def holds_def) (rule exI [of _ "in_buffer (mst s)"], simp)
  from receive_first_rx [OF this rm p legal] obtain s1 where
    s1: "receive_first env timeout ?s = Some (Inr s1)" "rx s t p post 0 1 s1" by blast
  have "1 \<le> ?l" by (cases "remaining_length (length rest)") (auto dest: arg_cong [of _ _ length])
  from receive_length_rx [OF rm p l4 s1(2) _ this, of 6] l4 obtain s2 where
    s2: "receive_length 6 env (Some t) timeout s1 = Some (Inr s2)" "rx s t p post 0 (1 + ?l) s2" by auto
  note tot = total_length_rx [OF s2(2) rm p small refl]
  let ?s3 = "upd_mstate (\<lambda>st. st\<lparr>message_length := of_nat (length p)\<rparr>) s2"
  have s3: "rx s t p post (of_nat (length p)) (1 + ?l) ?s3" by (rule rx_message_length [OF s2(2)])
  from receive_rest_rx [OF s3 rm] obtain s4 where
    s4: "receive_rest env (Some t) timeout (of_nat (length p)) ?s3 = Some (1, s4)"
      "rx s t p post (of_nat (length p)) (length p) s4" by blast
  have fits: "\<not> sint (in_buffer_length (mst ?s3)) < sint (of_nat (length p) :: i32)"
    using rxD(7) [OF s3 rm] room(2,3) by (simp add: sint_of_nat_small)
  have "mqtt_message_receive env timeout s = Some (1, s4)"
    using s1(1) s2(1) tot s4(1) fits payload_rx [OF s1(2) rm, of env] rxD(3) [OF s1(2) rm]
    by (simp add: mqtt_message_receive_def Let_def)
  moreover from s4(2) obtain buf where "client s4 = (client s)\<lparr>mstate := (mst s)\<lparr>in_buffer := buf,
      in_buffer_read_len := of_nat (length p), message_length := of_nat (length p)\<rparr>\<rparr>"
    "length buf = length (in_buffer (mst s))" "holds buf (length p) p" "tcp_ready t (tworld s4)"
    "tcp_avail t (tworld s4) = post"
    by (auto simp: rx_def)
  ultimately show ?thesis by (auto simp: holds_def)
qed


text \<open>A client whose TCP transport is connected to port 80, with \<open>bs\<close> in the socket's buffer\<close>

definition receiving_world :: "u8 list \<Rightarrow> world" where
  "receiving_world bs = set_sock 1 2 (set_net (empty_net\<lparr>fdlist := [(fd_new_owner (-1))\<lparr>fdn := 1\<rparr>,
     (fd_new_owner (-1))\<lparr>fdn := 2, fd_port := 80, connected := True, buffer := bs\<rparr>]\<rparr>) tcp_world)"

definition small_client :: mqtt_client where
  "small_client = zero_client\<lparr>transport := Some 0,
     mstate := zero_mstate\<lparr>in_buffer := replicate 8 0, in_buffer_length := 8\<rparr>\<rparr>"

definition quiet_env :: "unit env" where
  "quiet_env = \<lparr>env_platform = linux_platform, env_others = no_others,
     next_turn = \<lambda>x. (refusing_turn, x), millis = \<lambda>x. (0, x), rand = \<lambda>x. (0, x),
     sta_mac = replicate 6 0, handler = \<lambda>_ c w x. Some (c, w, x)\<rparr>"

definition receiving :: "u8 list \<Rightarrow> unit sys" where
  "receiving bs = \<lparr>client = small_client, tworld = receiving_world bs, tasks = 1, outside = ()\<rparr>"

lemma receiving_world_ready:
  "tcp_ready 0 (receiving_world bs)" "tcp_avail 0 (receiving_world bs) = bs"
proof -
  have t: "tcp_of 0 (receiving_world bs) = Some (1, 2)"
    by (simp add: tcp_of_def tcp_world_eq receiving_world_def set_sock_def set_net_def
        esp_transport_get_context_data_def item_at_def)
  have i: "item_at 0 (receiving_world bs) = Some (the (item_at 0 (receiving_world bs)))"
    "t_read (the (item_at 0 (receiving_world bs))) = Some Tcp_read"
    "t_poll_read (the (item_at 0 (receiving_world bs))) = Some Tcp_poll_read"
    "t_parent (the (item_at 0 (receiving_world bs))) = Some Default_parent"
    by (simp_all add: tcp_world_eq receiving_world_def set_sock_def set_net_def item_at_def)
  have n: "wnet (receiving_world bs) = empty_net\<lparr>fdlist := [(fd_new_owner (-1))\<lparr>fdn := 1\<rparr>,
     (fd_new_owner (-1))\<lparr>fdn := 2, fd_port := 80, connected := True, buffer := bs\<rparr>]\<rparr>"
    by (simp add: receiving_world_def set_sock_def set_net_def)
  have k: "espm_getind (wnet (receiving_world bs)) 2 = Some 1"
    by (simp add: n espm_getind_def)
  show "tcp_avail 0 (receiving_world bs) = bs" by (simp add: tcp_avail_def t k) (simp add: n)
  show "tcp_ready 0 (receiving_world bs)"
    unfolding tcp_ready_def using i t k
    by (intro exI conjI) (assumption | simp add: n table_ok_def fd_new_owner_def FD_SETSIZE_def SOCK_STREAM_def O_NONBLOCK_def)+
qed

theorem receive_whole_message_witness:
  "\<exists>s' buf. mqtt_message_receive quiet_env 0 (receiving [0x40, 2, 1, 2, 0xD0]) = Some (1, s') \<and>
    client s' = small_client\<lparr>mstate := (mstate small_client)\<lparr>in_buffer := buf, in_buffer_read_len := of_nat 4,
      message_length := of_nat 4\<rparr>\<rparr> \<and>
    length buf = 8 \<and> take 4 buf = [0x40, 2, 1, 2] \<and>
    tcp_ready 0 (tworld s') \<and> tcp_avail 0 (tworld s') = [0xD0]"
proof -
  let ?p = "[0x40, 2, 1, 2] :: u8 list"
  have p: "?p = mqtt_packet MQTT_MSG_TYPE_PUBACK 0 0 0 [1, 2]"
    by (simp add: mqtt_packet_def header_byte_def remaining_length_small)
  have len: "length ?p = 4" "length [1, 2 :: u8] < 2 ^ 28" by simp_all
  have legal: "legal_flags MQTT_MSG_TYPE_PUBACK (0 AND 1) (0 AND 3) (0 AND 1)" by simp
  let ?s = "receiving (?p @ [0xD0])"
  have r: "tcp_ready 0 (tworld ?s)" "tcp_avail 0 (tworld ?s) = ?p @ [0xD0]"
    using receiving_world_ready by (simp_all add: receiving_def)
  have room: "transport (client ?s) = Some 0" "length ?p \<le> length (in_buffer (mst ?s))"
    "length (in_buffer (mst ?s)) < 2 ^ 31" "in_buffer_length (mst ?s) = of_nat (length (in_buffer (mst ?s)))"
    "in_buffer_read_len (mst ?s) = 0"
    by (simp_all add: receiving_def small_client_def zero_mstate_def)
  have c: "client ?s = small_client" "length (in_buffer (mstate small_client)) = 8"
    by (simp_all add: receiving_def small_client_def)
  show ?thesis
    using receive_whole_message [OF r p legal len(2) room, of quiet_env 0]
    unfolding len(1) c by simp
qed

end
