(* ===== verification/Mqtt_Client_Steps.thy ===== *)
theory Mqtt_Client_Steps
  imports Mqtt_Client
begin

text \<open>
  What the operations of the MQTT client may change.  The relation \<open>moves\<close> is generated by the changes
  the client makes itself, of a kind \<open>R\<close>, and by the calls of event handlers.  Every operation of
  \<open>Mqtt_Client\<close> is shown once to move the client this way, in the locale \<open>client_changes\<close> for those that
  leave its state and configuration alone and in \<open>client_control\<close> for the others; the two
  interpretations at the end instantiate \<open>R\<close>.
\<close>

lemma bind_SomeE:
  assumes "Option.bind m f = Some y"
  obtains x where "m = Some x" "f x = Some y"
  using assms by (cases m) simp_all

section \<open>The block of a connection\<close>

definition same_block :: "mqtt_connection \<Rightarrow> mqtt_connection \<Rightarrow> bool" where
  "same_block c c' \<longleftrightarrow> buffer_length c' = buffer_length c \<and>
     length (mqtt_connection.buffer c') = length (mqtt_connection.buffer c)"

lemma same_block_trans: "same_block a b \<Longrightarrow> same_block b c \<Longrightarrow> same_block a c"
  by (simp add: same_block_def)

named_theorems block_rules \<open>operations that keep the block of a connection\<close>

lemma message_block [simp]: "same_block a (c\<lparr>message := m\<rparr>) = same_block a c"
  by (simp add: same_block_def)

lemma same_block_refl [simp]: "same_block c c"
  by (simp add: same_block_def)

lemma init_block [simp]: "same_block a (init_message c) = same_block a c"
  by (simp add: init_message_def)

lemma fail_block [simp]: "same_block a (fail_message c) = same_block a c"
  by (simp add: fail_message_def)

lemma put_byte_block [block_rules]: "put_byte c b = Some c' \<Longrightarrow> same_block a c \<Longrightarrow> same_block a c'"
  by (auto simp: put_byte_def same_block_def bind_eq_Some_conv dest: mem_write_length)

lemma put_bytes_block [block_rules]: "put_bytes c s n = Some c' \<Longrightarrow> same_block a c \<Longrightarrow> same_block a c'"
  by (auto simp: put_bytes_def same_block_def bind_eq_Some_conv dest: mem_write_length)

lemma or_flags_block [block_rules]: "or_flags c vh b = Some c' \<Longrightarrow> same_block a c \<Longrightarrow> same_block a c'"
  by (auto simp: or_flags_def same_block_def bind_eq_Some_conv dest: mem_write_length)

lemma fini_block [block_rules]:
  "fini_message c ty dup qos retain = Some c' \<Longrightarrow> same_block a c \<Longrightarrow> same_block a c'"
  by (auto simp: fini_message_def Let_def bind_eq_Some_conv fail_message_def same_block_def
      dest!: mem_write_length split: if_splits)

lemma append_string_block [block_rules]:
  "append_string c s n = Some (r, c') \<Longrightarrow> same_block a c \<Longrightarrow> same_block a c'"
  by (auto simp: append_string_def split: if_split_asm sum.split_asm prod.split_asm elim!: bind_SomeE)
    (erule block_rules | assumption | simp)+

lemma append_id_block [block_rules]:
  "append_message_id rnd c mid w = Some (r, c', w') \<Longrightarrow> same_block a c \<Longrightarrow> same_block a c'"
  by (auto simp: append_message_id_def split: if_split_asm sum.split_asm prod.split_asm elim!: bind_SomeE)
    (erule block_rules | assumption | simp)+

lemma append_or_fail_block [block_rules]:
  "append_or_fail c s n = Some (Inl c') \<Longrightarrow> same_block a c \<Longrightarrow> same_block a c'"
  "append_or_fail c s n = Some (Inr c') \<Longrightarrow> same_block a c \<Longrightarrow> same_block a c'"
  by (auto simp: append_or_fail_def split: if_split_asm sum.split_asm prod.split_asm elim!: bind_SomeE)
    (erule block_rules | assumption | simp)+

lemma publish_payload_block [block_rules]:
  "publish_payload c d n = Some c' \<Longrightarrow> same_block a c \<Longrightarrow> same_block a c'"
  by (auto simp: publish_payload_def Let_def bind_eq_Some_conv
      dest: put_bytes_block [where a = a] split: if_splits)

lemma client_id_block [block_rules]:
  "connect_client_id c i = Some (Inl c') \<Longrightarrow> same_block a c \<Longrightarrow> same_block a c'"
  "connect_client_id c i = Some (Inr c') \<Longrightarrow> same_block a c \<Longrightarrow> same_block a c'"
  by (auto simp: connect_client_id_def split: if_split_asm sum.split_asm)
    (erule block_rules | assumption | simp)+

lemma credential_block [block_rules]:
  "connect_credential c vh s f = Some (Inl c') \<Longrightarrow> same_block a c \<Longrightarrow> same_block a c'"
  "connect_credential c vh s f = Some (Inr c') \<Longrightarrow> same_block a c \<Longrightarrow> same_block a c'"
  by (auto simp: connect_credential_def split: if_split_asm sum.split_asm prod.split_asm elim!: bind_SomeE)
    (erule block_rules | assumption | simp)+

lemma will_block [block_rules]:
  "connect_will c vh i = Some (Inl c') \<Longrightarrow> same_block a c \<Longrightarrow> same_block a c'"
  "connect_will c vh i = Some (Inr c') \<Longrightarrow> same_block a c \<Longrightarrow> same_block a c'"
  by (auto simp: connect_will_def split: if_split_asm sum.split_asm prod.split_asm elim!: bind_SomeE)
    (erule block_rules | assumption | simp)+

lemma connect_block [block_rules]:
  "mqtt_msg_connect c i = Some c' \<Longrightarrow> same_block a c \<Longrightarrow> same_block a c'"
  by (auto simp: mqtt_msg_connect_def Let_def split: if_split_asm sum.split_asm prod.split_asm elim!: bind_SomeE)
    (erule block_rules | assumption | simp)+

lemma publish_block [block_rules]:
  "mqtt_msg_publish rnd c t d n q r m w = Some (c', m', w') \<Longrightarrow> same_block a c \<Longrightarrow> same_block a c'"
  by (auto simp: mqtt_msg_publish_def Let_def split: if_split_asm sum.split_asm prod.split_asm elim!: bind_SomeE)
    (erule block_rules | assumption | simp)+

lemma ack_block [block_rules]:
  "mqtt_msg_ack rnd ty q c m w = Some (c', w') \<Longrightarrow> same_block a c \<Longrightarrow> same_block a c'"
  by (auto simp: mqtt_msg_ack_def split: if_split_asm sum.split_asm prod.split_asm elim!: bind_SomeE)
    (erule block_rules | assumption | simp)+

lemma subscribe_block [block_rules]:
  "mqtt_msg_subscribe rnd c t q m w = Some (c', m', w') \<Longrightarrow> same_block a c \<Longrightarrow> same_block a c'"
  by (auto simp: mqtt_msg_subscribe_def Let_def split: if_split_asm sum.split_asm prod.split_asm elim!: bind_SomeE)
    (erule block_rules | assumption | simp)+

lemma unsubscribe_block [block_rules]:
  "mqtt_msg_unsubscribe rnd c t m w = Some (c', m', w') \<Longrightarrow> same_block a c \<Longrightarrow> same_block a c'"
  by (auto simp: mqtt_msg_unsubscribe_def Let_def split: if_split_asm sum.split_asm prod.split_asm elim!: bind_SomeE)
    (erule block_rules | assumption | simp)+

lemma ping_block [block_rules]:
  "mqtt_msg_pingreq c = Some c' \<Longrightarrow> same_block a c \<Longrightarrow> same_block a c'"
  "mqtt_msg_disconnect c = Some c' \<Longrightarrow> same_block a c \<Longrightarrow> same_block a c'"
  by (auto simp: mqtt_msg_pingreq_def mqtt_msg_disconnect_def split: if_split_asm sum.split_asm)
    (erule block_rules | assumption | simp)+

section \<open>Well-formed clients and what changes them\<close>

text \<open>The buffers have the sizes the client believes they have.\<close>

definition buffers_ok :: "mqtt_state \<Rightarrow> bool" where
  "buffers_ok st \<longleftrightarrow> length (in_buffer st) = size_of_i32 (in_buffer_length st) \<and>
     length (out_buffer st) = size_of_i32 (out_buffer_length st) \<and>
     (buffer_length (connection st) \<noteq> 0 \<longrightarrow>
        buffer_length (connection st) = ucast (out_buffer_length st) \<and>
        length (mqtt_connection.buffer (connection st)) = size_of_i32 (out_buffer_length st))"

definition client_ok :: "mqtt_client \<Rightarrow> bool" where
  "client_ok c \<longleftrightarrow> buffers_ok (mstate c) \<and> outbox_wf (the_outbox c)"

text \<open>
  A quiet change keeps the client well-formed and touches neither its state nor its configuration nor
  its transport.
\<close>

definition quiet :: "mqtt_client \<Rightarrow> mqtt_client \<Rightarrow> bool" where
  "quiet c c' \<longleftrightarrow> state c' = state c \<and> run c' = run c \<and> config c' = config c \<and>
     transport c' = transport c \<and> transport_list c' = transport_list c \<and>
     connect_info c' = connect_info c \<and> (client_ok c \<longrightarrow> client_ok c')"

definition keeps_ok :: "mqtt_client \<Rightarrow> mqtt_client \<Rightarrow> bool" where
  "keeps_ok c c' \<longleftrightarrow> (client_ok c \<longrightarrow> client_ok c')"

text \<open>
  The changes of kind \<open>R\<close> that the client makes itself and the calls of the firmware's event handlers
  are different steps.
\<close>

inductive moves :: "'x env \<Rightarrow> (mqtt_client \<Rightarrow> mqtt_client \<Rightarrow> bool) \<Rightarrow> mqtt_client \<Rightarrow> mqtt_client \<Rightarrow> bool"
  for env R where
  own: "R c c' \<Longrightarrow> moves env R c c'"
| call: "handler env h c w x = Some (c', w', x') \<Longrightarrow> moves env R c c'"
| chain: "moves env R a b \<Longrightarrow> moves env R b c \<Longrightarrow> moves env R a c"

lemma moves_keep:
  assumes "moves env R c c'" and "P c"
    and "\<And>c c'. R c c' \<Longrightarrow> P c \<Longrightarrow> P c'"
    and "\<And>h c w x c' w' x'. handler env h c w x = Some (c', w', x') \<Longrightarrow> P c \<Longrightarrow> P c'"
  shows "P c'"
  using assms by (induction rule: moves.induct) blast+

lemma quiet_refl [simp]: "quiet c c"
  by (simp add: quiet_def)

lemma quiet_mstate [simp]:
  "quiet c (c\<lparr>mstate := st\<rparr>) \<longleftrightarrow> (client_ok c \<longrightarrow> buffers_ok st)"
  by (auto simp: quiet_def client_ok_def)

lemma quiet_fields [simp]:
  "quiet c (c\<lparr>event := e\<rparr>)" "quiet c (c\<lparr>keepalive_tick := t\<rparr>)" "quiet c (c\<lparr>reconnect_tick := t\<rparr>)"
  "quiet c (c\<lparr>refresh_connection_tick := t\<rparr>)" "quiet c (c\<lparr>wait_for_ping_resp := b\<rparr>)"
  "quiet c (c\<lparr>wait_timeout_ms := n\<rparr>)"
  by (simp_all add: quiet_def client_ok_def)

lemma quiet_outbox [simp]:
  "(outbox_wf (the_outbox c) \<Longrightarrow> outbox_wf ob) \<Longrightarrow> quiet c (c\<lparr>the_outbox := ob\<rparr>)"
  by (auto simp: quiet_def client_ok_def)

lemma buffers_fields [simp]:
  "buffers_ok (st\<lparr>message_length := n\<rparr>) = buffers_ok st"
  "buffers_ok (st\<lparr>in_buffer_read_len := n\<rparr>) = buffers_ok st"
  "buffers_ok (st\<lparr>outbound_set := b\<rparr>) = buffers_ok st"
  "buffers_ok (st\<lparr>pending_msg_id := m\<rparr>) = buffers_ok st"
  "buffers_ok (st\<lparr>pending_msg_type := i\<rparr>) = buffers_ok st"
  "buffers_ok (st\<lparr>pending_publish_qos := i\<rparr>) = buffers_ok st"
  "buffers_ok (st\<lparr>pending_msg_count := i\<rparr>) = buffers_ok st"
  by (simp_all add: buffers_ok_def)

lemma buffers_in [simp]:
  "length m = length (in_buffer st) \<Longrightarrow> buffers_ok (st\<lparr>in_buffer := m\<rparr>) = buffers_ok st"
  by (simp add: buffers_ok_def)

lemma buffers_connection:
  "same_block (connection st) c \<Longrightarrow> buffers_ok (st\<lparr>connection := c\<rparr>) = buffers_ok st"
  by (simp add: buffers_ok_def same_block_def)

lemma client_buffers: "client_ok c \<Longrightarrow> buffers_ok (mstate c)"
  by (simp add: client_ok_def)

locale client_changes =
  fixes env :: "'x env" and R :: "mqtt_client \<Rightarrow> mqtt_client \<Rightarrow> bool"
  assumes quiet_R: "quiet c c' \<Longrightarrow> R c c'"
begin

text \<open>What can become of the client \<open>a\<close>; only the client of a system matters.\<close>

abbreviation moved :: "mqtt_client \<Rightarrow> 'x sys \<Rightarrow> bool" where
  "moved a s \<equiv> moves env R a (client s)"

lemma moved_quiet: "moved a s \<Longrightarrow> quiet (client s) (client s') \<Longrightarrow> moved a s'"
  by (blast intro: moves.chain moves.own quiet_R)

lemma moved_upd: "moved a s \<Longrightarrow> quiet (client s) (f (client s)) \<Longrightarrow> moved a (upd_client f s)"
  by (erule moved_quiet) (simp add: upd_client_def)

lemma moved_mstate:
  "moved a s \<Longrightarrow> (buffers_ok (mst s) \<Longrightarrow> buffers_ok (f (mst s))) \<Longrightarrow> moved a (upd_mstate f s)"
  unfolding upd_mstate_def by (erule moved_upd) (simp add: client_buffers)

lemma moved_event: "moved a s \<Longrightarrow> moved a (upd_event f s)"
  unfolding upd_event_def by (erule moved_upd) simp

lemma moved_outbox:
  "moved a s \<Longrightarrow> (outbox_wf (the_outbox (client s)) \<Longrightarrow> outbox_wf ob) \<Longrightarrow> moved a (set_outbox ob s)"
  unfolding set_outbox_def by (erule moved_upd) simp

lemmas moved_updates = moved_upd moved_mstate moved_event moved_outbox

lemma moved_tick: "platform_tick_get_ms env s = (n, s') \<Longrightarrow> moved a s \<Longrightarrow> moved a s'"
  by (auto simp: platform_tick_get_ms_def Let_def split: prod.split_asm)

lemma moved_turn: "turn_of env s = (n, s') \<Longrightarrow> moved a s \<Longrightarrow> moved a s'"
  by (auto simp: turn_of_def Let_def split: prod.split_asm)

lemma moved_transport:
  "transport_connect env h p timeout s = Some (r, s') \<Longrightarrow> moved a s \<Longrightarrow> moved a s'"
  "transport_write env bs n timeout s = Some (r, s') \<Longrightarrow> moved a s \<Longrightarrow> moved a s'"
  "transport_read env t n timeout s = Some (r, got, s') \<Longrightarrow> moved a s \<Longrightarrow> moved a s'"
  "transport_poll_read env timeout s = Some (r, s') \<Longrightarrow> moved a s \<Longrightarrow> moved a s'"
  "transport_close env s = Some (r, s') \<Longrightarrow> moved a s \<Longrightarrow> moved a s'"
  by (auto simp: transport_connect_def transport_write_def transport_read_def transport_poll_read_def
      transport_close_def turn_of_def Let_def split: prod.split_asm elim!: bind_SomeE)

lemma moved_write_outbound: "write_outbound env s = Some (r, s') \<Longrightarrow> moved a s \<Longrightarrow> moved a s'"
  by (auto simp: write_outbound_def elim!: bind_SomeE intro: moved_transport)

lemma moved_write_data: "mqtt_write_data env s = Some (r, s') \<Longrightarrow> moved a s \<Longrightarrow> moved a s'"
  by (auto simp: mqtt_write_data_def Let_def elim!: bind_SomeE split: if_split_asm prod.split_asm)
    (rule moved_updates | erule moved_tick moved_write_outbound | assumption | simp)+

lemma moved_call: "handler env h (client s) w x = Some (c', w', x') \<Longrightarrow> moved a s \<Longrightarrow> moves env R a c'"
  by (blast intro: moves.chain moves.call)

lemma moved_dispatch: "esp_mqtt_dispatch_event env s = Some s' \<Longrightarrow> moved a s \<Longrightarrow> moved a s'"
  by (auto simp: esp_mqtt_dispatch_event_def Let_def elim!: bind_SomeE split: option.split_asm)
    (erule moved_call | rule moved_updates | assumption)+

lemma moved_dispatch_msgid: "esp_mqtt_dispatch_event_with_msgid env s = Some s' \<Longrightarrow> moved a s \<Longrightarrow> moved a s'"
  by (auto simp: esp_mqtt_dispatch_event_with_msgid_def elim!: bind_SomeE
      intro: moved_dispatch moved_event)

lemma moved_dispatch_id: "dispatch_id env i s = Some s' \<Longrightarrow> moved a s \<Longrightarrow> moved a s'"
  by (auto simp: dispatch_id_def intro: moved_dispatch_msgid moved_event)

lemmas moved_calls = moved_tick moved_turn moved_transport moved_write_outbound moved_write_data
  moved_dispatch moved_dispatch_msgid moved_dispatch_id

subsection \<open>Receiving\<close>

lemma moved_receive_bytes: "receive_bytes env t n timeout s = Some (r, s') \<Longrightarrow> moved a s \<Longrightarrow> moved a s'"
  by (auto simp: receive_bytes_def elim!: bind_SomeE split: prod.split_asm dest!: mem_write_length)
    (rule moved_updates | erule moved_calls | assumption | simp)+

lemma moved_add_read: "moved a s \<Longrightarrow> moved a (add_read r s)"
  unfolding add_read_def by (erule moved_mstate) simp

lemma moved_receive_first:
  "receive_first env timeout s = Some (Inl (r, s')) \<Longrightarrow> moved a s \<Longrightarrow> moved a s'"
  "receive_first env timeout s = Some (Inr s') \<Longrightarrow> moved a s \<Longrightarrow> moved a s'"
  by (auto simp: receive_first_def elim!: bind_SomeE split: if_split_asm prod.split_asm)
    (rule moved_add_read | erule moved_receive_bytes | assumption | simp)+

lemma moved_receive_length:
  "receive_length n env t timeout s = Some (Inl (r, s')) \<Longrightarrow> moved a s \<Longrightarrow> moved a s'"
  "receive_length n env t timeout s = Some (Inr s') \<Longrightarrow> moved a s \<Longrightarrow> moved a s'"
proof (induction n arbitrary: s)
  case (Suc n)
  { case 1 then show ?case
      by (auto simp: Let_def elim!: bind_SomeE split: if_split_asm prod.split_asm)
        (erule Suc.IH | rule moved_add_read | erule moved_receive_bytes | assumption)+ }
  { case 2 then show ?case
      by (auto simp: Let_def elim!: bind_SomeE split: if_split_asm prod.split_asm)
        (erule Suc.IH | rule moved_add_read | erule moved_receive_bytes | assumption)+ }
qed simp_all

lemma moved_receive_oversized:
  "receive_oversized env t timeout f s = Some (Inl (r, s')) \<Longrightarrow> moved a s \<Longrightarrow> moved a s'"
  "receive_oversized env t timeout f s = Some (Inr (n, s')) \<Longrightarrow> moved a s \<Longrightarrow> moved a s'"
  by (auto simp: receive_oversized_def Let_def elim!: bind_SomeE
      split: if_split_asm prod.split_asm sum.split_asm)
    (rule moved_add_read | erule moved_receive_bytes | assumption | simp)+

lemma moved_receive_rest:
  "receive_rest env t timeout n s = Some (r, s') \<Longrightarrow> moved a s \<Longrightarrow> moved a s'"
  by (auto simp: receive_rest_def elim!: bind_SomeE split: if_split_asm prod.split_asm)
    (rule moved_add_read | erule moved_receive_bytes | assumption | simp)+

lemmas moved_receive_parts = moved_receive_first moved_receive_length moved_receive_oversized moved_receive_rest

lemma moved_receive: "mqtt_message_receive env timeout s = Some (r, s') \<Longrightarrow> moved a s \<Longrightarrow> moved a s'"
  by (auto simp: mqtt_message_receive_def Let_def elim!: bind_SomeE
      split: if_split_asm prod.split_asm sum.split_asm)
    (rule moved_updates | erule moved_receive_parts | assumption | simp)+

subsection \<open>Processing\<close>

lemma deliver_loop_cases:
  assumes "deliver_loop env nread tot off dptr dlen tptr tlen s = Some (r, s')"
  obtains (last) f where "esp_mqtt_dispatch_event env (upd_event f s) = Some s'"
  | (more) f s2 t want timeout i bs s3 m where "nread < tot"
      "esp_mqtt_dispatch_event env (upd_event f s) = Some s2"
      "transport_read env t want timeout s2 = Some (i, bs, s3)"
      "mem_write (in_buffer (mst s3)) 0 bs = Some m"
      "s' = upd_mstate (\<lambda>st. st\<lparr>in_buffer := m\<rparr>) s3 \<or>
       (\<exists>n dlen'. nread < n \<and> deliver_loop env n tot (off + unat dlen) (Some 0) dlen' None 0
         (upd_mstate (\<lambda>st. st\<lparr>in_buffer := m\<rparr>) s3) = Some (r, s'))"
proof -
  let ?f = "\<lambda>e. e\<lparr>event_id := MQTT_EVENT_DATA, ev_data := (if 0 < dlen then dptr else None), data_len := dlen,
    current_data_offset := of_nat off, ev_topic := tptr, topic_len := tlen\<rparr>"
  note eq = assms [unfolded deliver_loop.simps [of env nread tot off dptr dlen tptr tlen s] Let_def]
  from eq obtain s2 where d: "esp_mqtt_dispatch_event env (upd_event ?f s) = Some s2"
    by (auto split: option.split_asm)
  note eq2 = eq [unfolded d option.case]
  show thesis
  proof (cases "tot \<le> nread")
    case True
    then show thesis using eq2 d by (auto intro: last)
  next
    case False
    note eq3 = eq2 [unfolded if_not_P [OF False]]
    from eq3 obtain t cfg where tc: "payload_transport env s2 = Some t" "config (client s2) = Some cfg"
      by (auto split: option.split_asm)
    show thesis using eq3 d tc False
      by (auto simp: unat_gt_0 split: option.split_asm if_split_asm prod.split_asm intro!: more)
  qed
qed

lemma moved_deliver_loop:
  "deliver_loop env nread tot off dptr dlen tptr tlen s = Some (r, s') \<Longrightarrow> moved a s \<Longrightarrow> moved a s'"
proof (induction "tot - nread" arbitrary: nread off dptr dlen tptr tlen s rule: less_induct)
  case less
  from less.prems(1) show ?case
  proof (cases rule: deliver_loop_cases)
    case (last f)
    then show ?thesis using less.prems(2) by (blast intro: moved_dispatch moved_event)
  next
    case (more f s2 t want timeout i bs s3 m)
    have "moved a s3" using more(2,3) less.prems(2) by (blast intro: moved_dispatch moved_event moved_transport)
    then have s4: "moved a (upd_mstate (\<lambda>st. st\<lparr>in_buffer := m\<rparr>) s3)"
      by (rule moved_mstate) (simp add: mem_write_length [OF more(4)])
    from more(5) show ?thesis
    proof
      assume "\<exists>n dlen'. nread < n \<and> deliver_loop env n tot (off + unat dlen) (Some 0) dlen' None 0
         (upd_mstate (\<lambda>st. st\<lparr>in_buffer := m\<rparr>) s3) = Some (r, s')"
      then obtain n dlen' where n: "nread < n" "deliver_loop env n tot (off + unat dlen) (Some 0) dlen' None 0
         (upd_mstate (\<lambda>st. st\<lparr>in_buffer := m\<rparr>) s3) = Some (r, s')" by blast
      show ?thesis using less.hyps [OF _ n(2) s4] more(1) n(1) by simp
    qed (simp add: s4)
  qed
qed

lemma moved_deliver: "deliver_publish env s = Some (r, s') \<Longrightarrow> moved a s \<Longrightarrow> moved a s'"
  by (auto simp: deliver_publish_def Let_def elim!: bind_SomeE split: option.split_asm if_split_asm prod.split_asm)
    (erule moved_deliver_loop | rule moved_updates | assumption)+

lemma moved_valid: "is_valid_mqtt_msg ty mid s = (b, s') \<Longrightarrow> moved a s \<Longrightarrow> moved a s'"
  by (auto simp: is_valid_mqtt_msg_def Let_def outbox_delete_def split: if_split_asm option.split_asm)
    (rule moved_updates | assumption | simp add: stailq_remove_wf)+

lemma moved_enqueue_outbound: "enqueue_outbound env d n s = Some s' \<Longrightarrow> moved a s \<Longrightarrow> moved a s'"
  by (auto simp: enqueue_outbound_def elim!: bind_SomeE split: prod.split_asm)
    (rule moved_updates | erule moved_tick | assumption | erule enqueue_wf)+

lemma moved_enqueue:
  "mqtt_enqueue_oversized env d n s = Some s' \<Longrightarrow> moved a s \<Longrightarrow> moved a s'"
  "mqtt_enqueue env s = Some s' \<Longrightarrow> moved a s \<Longrightarrow> moved a s'"
  by (auto simp: mqtt_enqueue_oversized_def mqtt_enqueue_def split: if_split_asm
      intro: moved_enqueue_outbound)

lemma moved_set_pending: "moved a s \<Longrightarrow> moved a (set_pending_of mid st s)"
  unfolding set_pending_of_def by (erule moved_outbox) (rule set_pending_wf)

lemma moved_connection:
  "moved a s \<Longrightarrow> same_block (connection (mst s)) c \<Longrightarrow>
   moved a (upd_mstate (\<lambda>st. st\<lparr>connection := c, outbound_set := b\<rparr>) s)"
  by (erule moved_mstate) (simp add: buffers_connection)

lemma moved_acks:
  "build_ack env mqtt_msg_puback mid s = Some s' \<Longrightarrow> moved a s \<Longrightarrow> moved a s'"
  "build_ack env mqtt_msg_pubrec mid s = Some s' \<Longrightarrow> moved a s \<Longrightarrow> moved a s'"
  "build_ack env mqtt_msg_pubrel mid s = Some s' \<Longrightarrow> moved a s \<Longrightarrow> moved a s'"
  "build_ack env mqtt_msg_pubcomp mid s = Some s' \<Longrightarrow> moved a s \<Longrightarrow> moved a s'"
  by (auto simp: build_ack_def mqtt_msg_puback_def mqtt_msg_pubrec_def mqtt_msg_pubrel_def mqtt_msg_pubcomp_def
      elim!: bind_SomeE split: prod.split_asm intro!: moved_connection dest!: ack_block [OF _ same_block_refl])

lemma moved_confirm:
  assumes "confirm env ty mid ev extra s = Some s'" "moved a s" and extra: "\<And>s. moved a s \<Longrightarrow> moved a (extra s)"
  shows "moved a s'"
  using assms(1,2)
  by (auto simp: confirm_def split: if_split_asm prod.split_asm)
    (erule moved_dispatch_id moved_valid | rule extra | assumption)+

lemma moved_read_len: "moved a s \<Longrightarrow> moved a (set_read_len n s)"
  unfolding set_read_len_def by (erule moved_mstate) simp

lemma moved_process_publish: "process_publish env qos mid s = Some (r, s') \<Longrightarrow> moved a s \<Longrightarrow> moved a s'"
  by (auto simp: process_publish_def elim!: bind_SomeE split: if_split_asm prod.split_asm)
    (erule moved_deliver moved_acks moved_write_data | assumption)+

lemma moved_process_message: "process_message env ty qos mid s = Some (r, s') \<Longrightarrow> moved a s \<Longrightarrow> moved a s'"
  by (auto simp: process_message_def Let_def elim!: bind_SomeE split: if_split_asm prod.split_asm)
    (erule moved_confirm moved_process_publish moved_acks moved_write_data |
      rule moved_set_pending moved_updates | assumption | simp)+

lemma moved_process_receive: "mqtt_process_receive env s = Some (r, s') \<Longrightarrow> moved a s \<Longrightarrow> moved a s'"
  by (auto simp: mqtt_process_receive_def elim!: bind_SomeE split: if_split_asm prod.split_asm)
    (erule moved_process_message moved_receive | rule moved_read_len | assumption)+

subsection \<open>Resending, connecting, requests\<close>

lemma moved_point_at: "moved a s \<Longrightarrow> moved a (point_at_item it s)"
  unfolding point_at_item_def
  by (auto simp: Let_def split: prod.split) (erule moved_mstate, simp add: buffers_connection)

lemma point_at_outbox [simp]: "the_outbox (client (point_at_item it s)) = the_outbox (client s)"
  by (simp add: point_at_item_def upd_mstate_def upd_client_def case_prod_unfold Let_def)

lemma set_dup_wf:
  assumes "outbox_wf ob" "it \<in> set (items ob)" "mqtt_set_dup (item_buffer it) = Some b"
  shows "outbox_wf (update_item (handle it) (\<lambda>i. i\<lparr>item_buffer := b\<rparr>) ob)"
proof -
  let ?ob = "update_item (handle it) (\<lambda>i. i\<lparr>item_buffer := b\<rparr>) ob"
  have len: "length b = length (item_buffer it)"
    using assms(3) by (auto simp: mqtt_set_dup_def elim!: bind_SomeE dest: mem_write_length)
  have same: "i = it" if "i \<in> set (items ob)" "handle i = handle it" for i
    using assms(1,2) that by (auto simp: outbox_wf_def distinct_map dest: inj_onD)
  have handles: "map handle (items ?ob) = map handle (items ob)" by (simp add: update_item_def)
  have "handle j < next_handle ?ob \<and> length (item_buffer j) = size_of_i32 (item_len j)"
    if j: "j \<in> set (items ?ob)" for j
  proof -
    from j obtain i where i: "i \<in> set (items ob)"
      "j = (if handle i = handle it then i\<lparr>item_buffer := b\<rparr> else i)" by (auto simp: update_item_def)
    have "next_handle ?ob = next_handle ob" by (simp add: update_item_def)
    then show ?thesis using assms(1) len i same [OF i(1)]
      by (auto simp: outbox_wf_def split: if_splits)
  qed
  moreover have "distinct (map handle (items ob))" using assms(1) by (simp add: outbox_wf_def)
  ultimately show ?thesis unfolding outbox_wf_def handles by blast
qed

lemma moved_set_dup:
  assumes "set_dup_of it s = Some s'" "moved a s" "it \<in> set (items (the_outbox (client s)))"
  shows "moved a s'"
  using assms
  by (auto simp: set_dup_of_def elim!: bind_SomeE intro!: moved_outbox intro: set_dup_wf)

lemma buffers_init:
  "buffers_ok st \<Longrightarrow> same_block (mqtt_msg_init (out_block st) (ucast (out_buffer_length st))) c \<Longrightarrow>
   buffers_ok (st\<lparr>connection := c\<rparr>)"
  by (auto simp: buffers_ok_def same_block_def mqtt_msg_init_def out_block_def)

lemma moved_connect: "esp_mqtt_connect env s = Some (r, s') \<Longrightarrow> moved a s \<Longrightarrow> moved a s'"
  by (auto simp: esp_mqtt_connect_def Let_def elim!: bind_SomeE split: if_split_asm prod.split_asm
      dest!: connect_block [OF _ same_block_refl])
    (erule moved_receive moved_write_outbound | rule moved_read_len moved_updates | assumption |
      erule buffers_init | simp add: upd_client_def)+

lemma moved_ping: "esp_mqtt_client_ping env s = Some (r, s') \<Longrightarrow> moved a s \<Longrightarrow> moved a s'"
  by (auto simp: esp_mqtt_client_ping_def elim!: bind_SomeE split: if_split_asm prod.split_asm
      dest!: ping_block(1) [OF _ same_block_refl])
    (erule moved_write_data | rule moved_connection | assumption)+

lemma delete_expired_wf: "outbox_delete_expired ob t timeout = (n, ob') \<Longrightarrow> outbox_wf ob \<Longrightarrow> outbox_wf ob'"
  using outbox_step_wf [of ob "Delete_expired t timeout"] by simp

lemma moved_expire: "moved a s \<Longrightarrow> moved a (task_expire env s)"
  unfolding task_expire_def Let_def
  by (auto split: prod.split)
    (rule moved_updates cleanup_wf | erule moved_tick delete_expired_wf | assumption | simp)+

lemma moved_request: "send_request env c mid s = Some (r, s') \<Longrightarrow> same_block (connection (mst s)) c \<Longrightarrow>
    moved a s \<Longrightarrow> moved a s'"
  by (auto simp: send_request_def Let_def elim!: bind_SomeE split: prod.split_asm)
    (erule moved_write_data moved_enqueue | rule moved_set_pending moved_updates | assumption |
      simp add: buffers_connection)+

lemma moved_subscribe: "esp_mqtt_client_subscribe env topic qos s = Some (r, s') \<Longrightarrow> moved a s \<Longrightarrow> moved a s'"
  by (auto simp: esp_mqtt_client_subscribe_def elim!: bind_SomeE split: if_split_asm prod.split_asm
      dest!: subscribe_block [OF _ same_block_refl] intro: moved_request)

lemma moved_unsubscribe: "esp_mqtt_client_unsubscribe env topic s = Some (r, s') \<Longrightarrow> moved a s \<Longrightarrow> moved a s'"
  by (auto simp: esp_mqtt_client_unsubscribe_def elim!: bind_SomeE split: if_split_asm prod.split_asm
      dest!: unsubscribe_block [OF _ same_block_refl] intro: moved_request)

lemma moved_next_fragment: "next_fragment d cur n s = Some s' \<Longrightarrow> moved a s \<Longrightarrow> moved a s'"
  by (auto simp: next_fragment_def Let_def elim!: bind_SomeE split: if_split_asm
      intro!: moved_mstate dest!: mem_write_length simp: buffers_connection same_block_def)

lemma moved_first_fragment: "first_fragment env d cur n qos s = Some s' \<Longrightarrow> moved a s \<Longrightarrow> moved a s'"
  by (auto simp: first_fragment_def Let_def split: if_split_asm)
    (erule moved_enqueue | rule moved_mstate | assumption | simp add: buffers_connection)+

lemma moved_publish_pending: "publish_pending env qos mid s = Some s' \<Longrightarrow> moved a s \<Longrightarrow> moved a s'"
  by (auto simp: publish_pending_def Let_def elim!: bind_SomeE split: if_split_asm)
    (erule moved_enqueue | rule moved_mstate | assumption | simp)+

end

text \<open>The operations that also change the state, the flag \<open>run\<close> or the configuration\<close>

locale client_control = client_changes +
  assumes ok_R: "keeps_ok c c' \<Longrightarrow> R c c'"
begin

lemma moved_keep: "moved a s \<Longrightarrow> keeps_ok (client s) (f (client s)) \<Longrightarrow> moved a (upd_client f s)"
  by (auto simp: upd_client_def intro: moves.chain moves.own ok_R)

lemma moved_control:
  "moved a s \<Longrightarrow> moved a (set_state st s)" "moved a s \<Longrightarrow> moved a (set_run b s)"
  "moved a s \<Longrightarrow> moved a (upd_client (\<lambda>c. c\<lparr>config := cfg\<rparr>) s)"
  "moved a s \<Longrightarrow> moved a (upd_client (\<lambda>c. c\<lparr>config := cfg, connect_info := i\<rparr>) s)"
  "moved a s \<Longrightarrow> moved a (upd_client (\<lambda>c. c\<lparr>transport := t\<rparr>) s)"
  "moved a s \<Longrightarrow> moved a (upd_client (\<lambda>c. c\<lparr>state := st, reconnect_tick := n\<rparr>) s)"
  "moved a s \<Longrightarrow> moved a (upd_client (\<lambda>c. c\<lparr>wait_timeout_ms := k, reconnect_tick := n, state := st,
      wait_for_ping_resp := b\<rparr>) s)"
  unfolding set_state_def set_run_def
  by (erule moved_keep, simp add: keeps_ok_def client_ok_def)+

lemma moved_abort: "esp_mqtt_abort_connection env s = Some s' \<Longrightarrow> moved a s \<Longrightarrow> moved a s'"
  by (auto simp: esp_mqtt_abort_connection_def elim!: bind_SomeE split: prod.split_asm)
    (erule moved_dispatch_id moved_tick moved_transport | rule moved_control | assumption)+

lemma moved_resend:
  assumes "mqtt_resend_queued env it s = Some (r, s')" "moved a s" "it \<in> set (items (the_outbox (client s)))"
  shows "moved a s'"
  using assms
  by (auto simp: mqtt_resend_queued_def Let_def elim!: bind_SomeE split: if_split_asm prod.split_asm)
    (erule moved_write_data moved_abort moved_set_dup | rule moved_point_at | assumption | simp)+

lemmas moved_all = moved_abort moved_connect moved_process_receive moved_ping moved_calls

lemma moved_task_init: "task_init_state env s = Some s' \<Longrightarrow> moved a s \<Longrightarrow> moved a s'"
  by (auto simp: task_init_state_def Let_def elim!: bind_SomeE split: if_split_asm prod.split_asm)
    (erule moved_all | rule moved_updates moved_control | assumption | simp)+

lemma tick_client: "platform_tick_get_ms env s = (n, s') \<Longrightarrow> client s' = client s"
  by (auto simp: platform_tick_get_ms_def Let_def split: prod.split_asm)

lemma dequeue_in: "outbox_dequeue ob st = Some it \<Longrightarrow> it \<in> set (items ob)"
  by (auto simp: outbox_dequeue_def dest: find_SomeD)

lemma moved_task_resend: "task_resend env l s = Some (l', s') \<Longrightarrow> moved a s \<Longrightarrow> moved a s'"
  by (auto simp: task_resend_def Let_def elim!: bind_SomeE split: if_split_asm prod.split_asm option.split_asm
      dest!: dequeue_in)
    (erule moved_resend moved_tick | rule moved_set_pending | assumption | simp add: tick_client)+

lemma moved_keepalive:
  "task_keepalive env s = Some (Inl s') \<Longrightarrow> moved a s \<Longrightarrow> moved a s'"
  "task_keepalive env s = Some (Inr s') \<Longrightarrow> moved a s \<Longrightarrow> moved a s'"
  by (auto simp: task_keepalive_def elim!: bind_SomeE split: if_split_asm prod.split_asm)
    (erule moved_all | rule moved_updates | assumption | simp)+

lemma moved_refresh: "task_refresh env s = Some s' \<Longrightarrow> moved a s \<Longrightarrow> moved a s'"
  by (auto simp: task_refresh_def elim!: bind_SomeE split: if_split_asm prod.split_asm)
    (erule moved_all | rule moved_control | assumption)+

lemma moved_connected_state: "task_connected_state env l s = Some (l', s') \<Longrightarrow> moved a s \<Longrightarrow> moved a s'"
  by (auto simp: task_connected_state_def elim!: bind_SomeE split: if_split_asm prod.split_asm sum.split_asm)
    (erule moved_all moved_task_resend moved_keepalive moved_refresh | rule moved_expire | assumption)+

lemma moved_wait_state: "task_wait_state env s = Some (b, s') \<Longrightarrow> moved a s \<Longrightarrow> moved a s'"
  by (auto simp: task_wait_state_def elim!: bind_SomeE split: if_split_asm prod.split_asm)
    (erule moved_all | rule moved_control | assumption)+

lemma moved_pass: "task_pass env l s = Some (l', s') \<Longrightarrow> moved a s \<Longrightarrow> moved a s'"
  by (auto simp: task_pass_def elim!: bind_SomeE
      split: if_split_asm prod.split_asm mqtt_client_state.split_asm)
    (erule moved_all moved_task_init moved_connected_state moved_wait_state | assumption)+

lemma moved_start: "task_start env s = Some (l, s') \<Longrightarrow> moved a s \<Longrightarrow> moved a s'"
  by (auto simp: task_start_def Let_def elim!: bind_SomeE split: if_split_asm)
    (rule moved_control | assumption)+

lemma moved_stop: "esp_mqtt_client_stop env s = Some (r, s') \<Longrightarrow> moved a s \<Longrightarrow> moved a s'"
  by (auto simp: esp_mqtt_client_stop_def elim!: bind_SomeE split: if_split_asm prod.split_asm
      dest!: ping_block(2) [OF _ same_block_refl])
    (erule moved_all | rule moved_control moved_connection | assumption)+

lemma moved_set_config: "esp_mqtt_set_config env uc s = Some (r, s') \<Longrightarrow> moved a s \<Longrightarrow> moved a s'"
  by (auto simp: esp_mqtt_set_config_def Let_def elim!: bind_SomeE intro: moved_control)

lemma moved_set_uri: "esp_mqtt_client_set_uri u s = Some (r, s') \<Longrightarrow> moved a s \<Longrightarrow> moved a s'"
  by (auto simp: esp_mqtt_client_set_uri_def Let_def elim!: bind_SomeE split: if_split_asm prod.split_asm
      intro: moved_control)

lemma moved_reconnect: "esp_mqtt_client_reconnect s = (r, s') \<Longrightarrow> moved a s \<Longrightarrow> moved a s'"
  by (auto simp: esp_mqtt_client_reconnect_def split: if_split_asm intro: moved_upd)

lemma moved_fragments_of:
  assumes "send_fragments env d qos cur n s = Some y" "moved a s"
  shows "moved a (snd y)"
proof -
  have "env = env \<longrightarrow> moved a s \<longrightarrow> moved a (snd y)"
  proof (rule send_fragments.raw_induct
      [where P = "\<lambda>e d qos cur n s y. e = env \<longrightarrow> moved a s \<longrightarrow> moved a (snd y)", OF _ assms(1)], goal_cases)
    case (1 rest e d qos cur n s y)
    have go: "moved a (snd z)" if "rest env d' q' c' n' s' = Some z" "moved a s'" for d' q' c' n' s' z
      using 1(1) [of env d' q' c' n' s' z] that by simp
    show ?case
    proof (intro impI)
      assume e: "e = env" and s: "moved a s"
      from 1(2) e s show "moved a (snd y)"
        by (auto simp: Let_def elim!: bind_SomeE split: if_split_asm prod.split_asm)
          (erule go moved_first_fragment moved_next_fragment moved_abort moved_write_data | assumption | simp)+
    qed
  qed
  then show ?thesis using assms(2) by simp
qed

lemma moved_fragments: "send_fragments env d qos cur n s = Some (b, s') \<Longrightarrow> moved a s \<Longrightarrow> moved a s'"
  using moved_fragments_of by fastforce

lemma moved_publish: "esp_mqtt_client_publish env t d n qos retain s = Some (r, s') \<Longrightarrow> moved a s \<Longrightarrow> moved a s'"
  by (auto simp: esp_mqtt_client_publish_def Let_def elim!: bind_SomeE split: if_split_asm prod.split_asm
      dest!: publish_block [OF _ same_block_refl])
    (erule moved_fragments moved_publish_pending | rule moved_set_pending moved_connection | assumption | simp)+

end

interpretation steadily: client_changes env quiet for env :: "'x env"
  by unfold_locales

interpretation freely: client_control env keeps_ok for env :: "'x env"
  by unfold_locales (simp_all add: quiet_def keeps_ok_def)

end
