(* ===== verification/Mqtt_Client_Runs.thy ===== *)
theory Mqtt_Client_Runs
  imports Mqtt_Client_Laws Mqtt_Client_Steps
begin

text \<open>
  Runs of the MQTT client: the passes of its task and the calls of the API in any order.  What they keep
  (\<open>client_stays_well_formed\<close>), the state machine of the task, the time it waits before it connects again,
  the keep-alive check, publishing before the first connection, and what a PUBACK completes.
\<close>

section \<open>Every run keeps the client well-formed\<close>

text \<open>
  What can happen to a client between its creation and its destruction: a pass of the task, its start
  and its end, and the calls of the API, in any order.
\<close>

inductive client_step :: "'x env \<Rightarrow> 'x sys \<Rightarrow> 'x sys \<Rightarrow> bool" for env where
  begin_task: "task_start env s = Some (l, s') \<Longrightarrow> client_step env s s'"
| pass: "task_pass env l s = Some (l', s') \<Longrightarrow> client_step env s s'"
| end_task: "transport_close env s = Some (r, s') \<Longrightarrow> client_step env s s'"
| set_config: "esp_mqtt_set_config env uc s = Some (e, s') \<Longrightarrow> client_step env s s'"
| set_uri: "esp_mqtt_client_set_uri u s = Some (e, s') \<Longrightarrow> client_step env s s'"
| start: "esp_mqtt_client_start False s = (r, s') \<Longrightarrow> client_step env s s'"
| reconnect: "esp_mqtt_client_reconnect s = (e, s') \<Longrightarrow> client_step env s s'"
| stop: "esp_mqtt_client_stop env s = Some (e, s') \<Longrightarrow> client_step env s s'"
| subscribe: "esp_mqtt_client_subscribe env topic qos s = Some (r, s') \<Longrightarrow> client_step env s s'"
| unsubscribe: "esp_mqtt_client_unsubscribe env topic s = Some (r, s') \<Longrightarrow> client_step env s s'"
| publish: "esp_mqtt_client_publish env topic d len qos retain s = Some (r, s') \<Longrightarrow> client_step env s s'"

definition good_handlers :: "'x env \<Rightarrow> (mqtt_client \<Rightarrow> mqtt_client \<Rightarrow> bool) \<Rightarrow> bool" where
  "good_handlers env R \<longleftrightarrow> (\<forall>h c w x c' w' x'. handler env h c w x = Some (c', w', x') \<longrightarrow> R c c')"

lemma moves_refl: "moves env keeps_ok c c"
  by (rule moves.own) (simp add: keeps_ok_def)

lemmas step_moves = freely.moved_start freely.moved_pass freely.moved_transport(5)
  freely.moved_set_config freely.moved_set_uri freely.moved_stop freely.moved_reconnect
  freely.moved_subscribe freely.moved_unsubscribe freely.moved_publish

lemma client_step_moves: "client_step env s s' \<Longrightarrow> moves env keeps_ok (client s) (client s')"
  by (cases rule: client_step.cases)
    (auto simp: esp_mqtt_client_start_def split: if_split_asm intro: step_moves [OF _ moves_refl] moves_refl)

lemma client_steps_ok:
  assumes "(client_step env)\<^sup>*\<^sup>* s s'" "good_handlers env keeps_ok" "client_ok (client s)"
  shows "client_ok (client s')"
  using assms(1)
proof induction
  case (step s1 s2)
  have good: "client_ok c \<Longrightarrow> client_ok c'" if "handler env h c w x = Some (c', w', x')" for h c w x c' w' x'
    using assms(2) that unfolding good_handlers_def keeps_ok_def by blast
  show ?case
    by (rule moves_keep [where P = client_ok, OF client_step_moves [OF step.hyps(2)] step.IH])
      (use good in \<open>auto simp: keeps_ok_def\<close>)
qed (rule assms(3))

lemma set_uri_mstate: "esp_mqtt_client_set_uri u s = Some (e, s') \<Longrightarrow> mst s' = mst s"
  by (auto simp: esp_mqtt_client_set_uri_def Let_def elim!: bind_SomeE split: if_split_asm prod.split_asm)

lemma set_config_mstate: "esp_mqtt_set_config env uc s = Some (e, s') \<Longrightarrow> mst s' = mst s"
  by (auto simp: esp_mqtt_set_config_def elim!: bind_SomeE)

lemma tick_same_client: "platform_tick_get_ms env s = (n, s') \<Longrightarrow> client s' = client s"
  by (rule freely.tick_client)

lemma init_client_ok:
  assumes "esp_mqtt_client_init env uc w n x = Some (Inr s)"
  shows "client_ok (client s)"
  using assms
  by (auto simp: esp_mqtt_client_init_def Let_def client_ok_def buffers_ok_def alloc_buffers_def zero_client_def
      zero_mstate_def mqtt_msg_init_def elim!: bind_SomeE split: if_split_asm prod.split_asm option.split_asm
      dest!: set_uri_mstate set_config_mstate tick_same_client)


section \<open>The states of the task\<close>

abbreviation state_of :: "'x sys \<Rightarrow> mqtt_client_state" where
  "state_of s \<equiv> state (client s)"

definition same_state :: "mqtt_client \<Rightarrow> mqtt_client \<Rightarrow> bool" where
  "same_state c c' \<longleftrightarrow> state c' = state c"

lemma quiet_moves_state:
  assumes "good_handlers env same_state" and "moves env quiet c c'"
  shows "state c' = state c"
proof -
  note good = assms(1) [unfolded good_handlers_def same_state_def, rule_format]
  show ?thesis
    by (rule moves_keep [where P = "\<lambda>d. state d = state c", OF assms(2)])
      (auto simp: quiet_def dest: good)
qed

lemma quiet_moves_refl: "moves env quiet c c"
  by (rule moves.own) simp

lemmas quiet_state_rules = quiet_moves_state [OF _ steadily.moved_receive [OF _ quiet_moves_refl]]
  quiet_moves_state [OF _ steadily.moved_dispatch_id [OF _ quiet_moves_refl]]
  quiet_moves_state [OF _ steadily.moved_transport(1) [OF _ quiet_moves_refl]]
  quiet_moves_state [OF _ steadily.moved_transport(4) [OF _ quiet_moves_refl]]
  quiet_moves_state [OF _ steadily.moved_transport(5) [OF _ quiet_moves_refl]]
  quiet_moves_state [OF _ steadily.moved_write_data [OF _ quiet_moves_refl]]
  quiet_moves_state [OF _ steadily.moved_process_receive [OF _ quiet_moves_refl]]
  quiet_moves_state [OF _ steadily.moved_ping [OF _ quiet_moves_refl]]
  quiet_moves_state [OF _ steadily.moved_connect [OF _ quiet_moves_refl]]

lemma abort_state:
  assumes "good_handlers env same_state" and "esp_mqtt_abort_connection env s = Some s'"
  shows "state_of s' = MQTT_STATE_WAIT_TIMEOUT"
  using assms(2)
  by (auto simp: esp_mqtt_abort_connection_def upd_client_def elim!: bind_SomeE split: prod.split_asm
      dest!: quiet_state_rules(2) [OF assms(1)])

lemma upd_state [simp]:
  "state_of (upd_event f s) = state_of s" "state_of (set_pending_of m p s) = state_of s"
  "state_of (set_state st s) = st" "state_of (set_run b s) = state_of s"
  "state_of (point_at_item it s) = state_of s"
  "state_of (task_expire env s) = state_of s"
  by (auto simp: upd_event_def set_pending_of_def set_outbox_def set_state_def set_run_def point_at_item_def
      task_expire_def upd_mstate_def upd_client_def Let_def split: prod.split dest!: tick_same_client)

lemma resend_state:
  assumes "good_handlers env same_state" and "mqtt_resend_queued env it s = Some (e, s')"
  shows "state_of s' = (if e = ESP_OK then state_of s else MQTT_STATE_WAIT_TIMEOUT)"
  using assms(2)
  by (auto simp: mqtt_resend_queued_def set_dup_of_def set_outbox_def upd_client_def Let_def elim!: bind_SomeE
      split: prod.split_asm if_split_asm
      dest!: quiet_state_rules [OF assms(1)] abort_state [OF assms(1)])

lemma task_init_states:
  assumes "good_handlers env same_state" and "task_init_state env s = Some s'"
  shows "state_of s' \<in> {MQTT_STATE_CONNECTED, MQTT_STATE_WAIT_TIMEOUT}"
  using assms(2)
  by (auto simp: task_init_state_def upd_client_def Let_def elim!: bind_SomeE split: prod.split_asm if_split_asm
      dest!: quiet_state_rules [OF assms(1)] abort_state [OF assms(1)] tick_same_client)

lemma task_resend_state:
  assumes "good_handlers env same_state" and "task_resend env l s = Some (l', s')"
  shows "state_of s' \<in> {state_of s, MQTT_STATE_WAIT_TIMEOUT}"
  using assms(2)
  by (auto simp: task_resend_def Let_def elim!: bind_SomeE split: prod.split_asm if_split_asm option.split_asm
      dest!: resend_state [OF assms(1)] tick_same_client)

lemma task_keepalive_state:
  assumes "good_handlers env same_state"
  shows "task_keepalive env s = Some (Inl s') \<Longrightarrow> state_of s' = MQTT_STATE_WAIT_TIMEOUT"
    and "task_keepalive env s = Some (Inr s') \<Longrightarrow> state_of s' = state_of s"
  by (auto simp: task_keepalive_def upd_client_def elim!: bind_SomeE split: prod.split_asm if_split_asm
      dest!: quiet_state_rules [OF assms] abort_state [OF assms] tick_same_client)

lemma task_connected_state_states:
  assumes "good_handlers env same_state" and "task_connected_state env l s = Some (l', s')"
    and "state_of s = MQTT_STATE_CONNECTED"
  shows "state_of s' \<in> {MQTT_STATE_CONNECTED, MQTT_STATE_WAIT_TIMEOUT, MQTT_STATE_INIT}"
proof -
  have refresh: "state_of s2 \<in> {state_of s1, MQTT_STATE_INIT}" if "task_refresh env s1 = Some s2" for s1 s2
    using that by (auto simp: task_refresh_def elim!: bind_SomeE split: prod.split_asm if_split_asm dest!: tick_same_client)
  show ?thesis
    using assms(2,3)
    by (auto simp: task_connected_state_def elim!: bind_SomeE split: prod.split_asm if_split_asm sum.split_asm
        dest!: quiet_state_rules(7) [OF assms(1)] abort_state [OF assms(1)] task_resend_state [OF assms(1)]
          task_keepalive_state [OF assms(1)] refresh)
qed

text \<open>The state machine that the comments of the client describe\<close>

inductive allowed :: "mqtt_client_state \<Rightarrow> mqtt_client_state \<Rightarrow> bool" where
  "allowed MQTT_STATE_INIT MQTT_STATE_CONNECTED"
| "allowed MQTT_STATE_INIT MQTT_STATE_WAIT_TIMEOUT"
| "allowed MQTT_STATE_CONNECTED MQTT_STATE_CONNECTED"
| "allowed MQTT_STATE_CONNECTED MQTT_STATE_WAIT_TIMEOUT"
| "allowed MQTT_STATE_CONNECTED MQTT_STATE_INIT"
| "allowed MQTT_STATE_WAIT_TIMEOUT MQTT_STATE_WAIT_TIMEOUT"
| "allowed MQTT_STATE_WAIT_TIMEOUT MQTT_STATE_INIT"
| "allowed MQTT_STATE_WAIT_TIMEOUT MQTT_STATE_UNKNOWN"
| "allowed MQTT_STATE_UNKNOWN MQTT_STATE_UNKNOWN"
| "allowed MQTT_STATE_ERROR MQTT_STATE_ERROR"

inductive_simps allowed_simps:
  "allowed MQTT_STATE_INIT st" "allowed MQTT_STATE_CONNECTED st" "allowed MQTT_STATE_WAIT_TIMEOUT st"
  "allowed MQTT_STATE_UNKNOWN st" "allowed MQTT_STATE_ERROR st"


section \<open>The clock and the time to wait\<close>

lemma tick_is_millis:
  "platform_tick_get_ms env s =
     (fst (millis env (outside s)), s\<lparr>outside := snd (millis env (outside s))\<rparr>)"
proof -
  obtain ms x where m: "millis env (outside s) = (ms, x)" by fastforce
  have "c_div (sint ms) 1000 * 1000 + c_div (c_mod (sint ms) 1000 * 1000) 1000 = sint ms"
    by (simp add: c_div_def c_mod_def sgn_if algebra_simps)
  from arg_cong [OF this, of "word_of_int :: int \<Rightarrow> u64"] show ?thesis
    by (simp add: platform_tick_get_ms_def esp_gettimeofday_def m Let_def)
qed

text \<open>The outside world after \<open>n\<close> readings of the clock, and the reading that comes then\<close>

fun after_readings :: "'x env \<Rightarrow> nat \<Rightarrow> 'x \<Rightarrow> 'x" where
  "after_readings env 0 x = x"
| "after_readings env (Suc n) x = snd (millis env (after_readings env n x))"

definition reading :: "'x env \<Rightarrow> nat \<Rightarrow> 'x \<Rightarrow> u64" where
  "reading env n x = fst (millis env (after_readings env n x))"

text \<open>\<open>n\<close> passes of the task\<close>

fun passes :: "nat \<Rightarrow> 'x env \<Rightarrow> task_locals \<Rightarrow> 'x sys \<Rightarrow> (task_locals \<times> 'x sys) option" where
  "passes 0 env l s = Some (l, s)"
| "passes (Suc n) env l s = Option.bind (passes n env l s) (\<lambda>(l, s). task_pass env l s)"

definition waited :: "'x env \<Rightarrow> 'x sys \<Rightarrow> nat \<Rightarrow> bool" where
  "waited env s n \<longleftrightarrow> scast (wait_timeout_ms (client s)) < reading env n (outside s) - reconnect_tick (client s)"

lemma waiting_pass:
  assumes "state_of s = MQTT_STATE_WAIT_TIMEOUT" "config (client s) = Some cfg" "cfg_auto_reconnect cfg"
  shows "\<not> waited env s n \<Longrightarrow> task_pass env l (s\<lparr>outside := after_readings env n (outside s)\<rparr>) =
      Some (l, s\<lparr>outside := after_readings env (Suc n) (outside s)\<rparr>)"
    and "waited env s n \<Longrightarrow> \<exists>s'. task_pass env l (s\<lparr>outside := after_readings env n (outside s)\<rparr>) = Some (l, s') \<and>
      state_of s' = MQTT_STATE_INIT \<and> run (client s') = run (client s)"
  using assms
  by (simp_all add: task_pass_def task_wait_state_def tick_is_millis waited_def reading_def upd_client_def)

lemma waiting_passes:
  assumes "state_of s = MQTT_STATE_WAIT_TIMEOUT" "config (client s) = Some cfg" "cfg_auto_reconnect cfg"
    and "\<And>m. m < n \<Longrightarrow> \<not> waited env s m"
  shows "passes n env l s = Some (l, s\<lparr>outside := after_readings env n (outside s)\<rparr>)"
  using assms(4)
proof (induction n)
  case (Suc n)
  then have "passes n env l s = Some (l, s\<lparr>outside := after_readings env n (outside s)\<rparr>)" by simp
  then show ?case using waiting_pass(1) [OF assms(1-3), of env n l] Suc.prems [of n] by simp
qed simp


text \<open>A clock that advances by four seconds at every reading\<close>

definition clock_env :: "u64 env" where
  "clock_env = \<lparr>env_platform = linux_platform, env_others = no_others,
     next_turn = \<lambda>x. (refusing_turn, x), millis = \<lambda>x. (x, x + 4000), rand = \<lambda>x. (0, x),
     sta_mac = replicate 6 0, handler = \<lambda>_ c w x. Some (c, w, x)\<rparr>"

definition waiting_sys :: "u64 sys" where
  "waiting_sys = \<lparr>client = zero_client\<lparr>state := MQTT_STATE_WAIT_TIMEOUT, run := True,
     config := Some (zero_config\<lparr>cfg_auto_reconnect := True\<rparr>),
     wait_timeout_ms := MQTT_RECONNECT_TIMEOUT_MS\<rparr>, tworld = empty_world, tasks = 1, outside = 0\<rparr>"


text \<open>A configuration with a host, and a client made from it\<close>

definition host_config :: esp_mqtt_client_config where
  "host_config = \<lparr>uc_event_handle = Some 0, uc_host = Some (ascii ''10.0.0.1''), uc_uri = None, uc_port = 1883,
     uc_client_id = None, uc_username = None, uc_password = None, uc_lwt_topic = None, uc_lwt_msg = None,
     uc_lwt_qos = 0, uc_lwt_retain = 0, uc_lwt_msg_len = 0, uc_disable_clean_session = 0, uc_keepalive = 0,
     uc_disable_auto_reconnect = False, uc_user_context = None, uc_task_prio = 0, uc_task_stack = 0,
     uc_buffer_size = 64, uc_transport = MQTT_TRANSPORT_OVER_TCP, uc_refresh_connection_after_ms = 0\<rparr>"

lemma host_client:
  "\<exists>s. esp_mqtt_client_init quiet_env host_config empty_world 0 () = Some (Inr s) \<and> state_of s = MQTT_STATE_UNKNOWN"
  by (simp add: esp_mqtt_client_init_def esp_mqtt_set_config_def host_config_def quiet_env_def zero_client_def
      zero_info_def zero_config_def storage_of_def info_of_def will_of_def orptr_def orelse_def Let_def
      platform_create_id_string_def create_string_def mem_bytes_def tick_is_millis
      esp_transport_tcp_init_def esp_transport_init_def empty_world_def esp_transport_set_func_def
      esp_transport_set_context_data_def esp_transport_set_default_port_def esp_transport_list_add_def
      esp_transport_list_init_def set_item_def item_at_def put_item_def upd_client_def)



section \<open>Keep-alive\<close>


definition pinged_sys :: "u64 sys" where
  "pinged_sys = \<lparr>client = zero_client\<lparr>state := MQTT_STATE_CONNECTED, run := True,
     config := Some zero_config, wait_for_ping_resp := True, transport := Some 0,
     connect_info := zero_info\<lparr>mqtt_connect_info.keepalive := 2\<rparr>,
     mstate := zero_mstate\<lparr>in_buffer := [0xD0, 0], in_buffer_length := 2\<rparr>\<rparr>,
     tworld = tcp_world, tasks = 1, outside = 4000\<rparr>"


section \<open>Publishing before the first connection\<close>

text \<open>C9: The header of the client says that it need not be connected to publish, but a publication with a
  quality of service above 0 before the first connection reads through the null pointer of an output
  buffer that is only set up when a connection is made.\<close>

theorem publish_before_connect_faults:
  assumes "esp_mqtt_client_init env uc w n x = Some (Inr s)"
    and "0 < sint qos" and "length topic < 2 ^ 31"
  shows "esp_mqtt_client_publish env (Some topic) payload len qos retain s = None"
proof -
  have c: "connection (mst s) = mqtt_msg_init [] 0"
    using assms(1)
    by (auto simp: esp_mqtt_client_init_def Let_def zero_client_def zero_mstate_def alloc_buffers_def
        elim!: bind_SomeE split: if_split_asm prod.split_asm option.split_asm
        dest!: set_uri_mstate set_config_mstate tick_same_client)
  have "size_add (size_add 5 (size_of_i32 (strlen32 topic))) 2 = 7 + length topic"
    using assms(3) by (simp add: strlen32_def size_of_i32_of_nat size_add_small)
  then have "append_or_fail (init_message (mqtt_msg_init [] 0)) topic (strlen32 topic) =
      Some (Inl (fail_message (init_message (mqtt_msg_init [] 0))))"
    by (simp add: append_or_fail_def append_string_def init_message_def mqtt_msg_init_def
        MQTT_MAX_FIXED_HEADER_SIZE_def)
  then have "mqtt_msg_publish (rand env) (connection (mst s)) (Some topic) payload len' qos retain 0 x' =
      Some (fail_message (init_message (mqtt_msg_init [] 0)), 0, x')" for len' x'
    by (simp add: mqtt_msg_publish_def c Let_def)
  then show ?thesis
    using assms(2)
    by (simp add: esp_mqtt_client_publish_def Let_def publish_pending_def outbound_bytes_def upd_mstate_def
        upd_client_def fail_message_def init_message_def mqtt_msg_init_def mqtt_get_type_def mem_read_def)
qed

theorem publish_before_connect_faults_witness:
  "\<exists>s. esp_mqtt_client_init quiet_env host_config empty_world 0 () = Some (Inr s) \<and>
    esp_mqtt_client_publish quiet_env (Some [0x74]) (Some [0x31]) 1 1 0 s = None"
proof -
  obtain s where s: "esp_mqtt_client_init quiet_env host_config empty_world 0 () = Some (Inr s)"
    using host_client by blast
  show ?thesis using publish_before_connect_faults [OF s, of 1 "[0x74]" "Some [0x31]" 1 0] s by auto
qed

section \<open>An acknowledged publication\<close>

lemma puback_packet: "mqtt_packet MQTT_MSG_TYPE_PUBACK 0 0 0 [hi, lo] = [0x40, 2, hi, lo]"
  by (simp add: mqtt_packet_def header_byte_def remaining_length_small)

lemma puback_readers:
  assumes "take 4 buf = [0x40, 2, hi, lo]" and "4 \<le> unat n"
  shows "mqtt_get_type buf = Some (type_code MQTT_MSG_TYPE_PUBACK)" "\<exists>q. mqtt_get_qos buf = Some q"
    "mqtt_get_id buf n = Some (of_nat (be16 hi lo))"
proof -
  from assms(1) obtain rest where b: "buf = 0x40 # 2 # hi # lo # rest"
    by (metis append_Cons append_Nil append_take_drop_id)
  have ty: "mqtt_get_type buf = Some 4" by (simp add: b mqtt_get_type_def)
  then show "mqtt_get_type buf = Some (type_code MQTT_MSG_TYPE_PUBACK)" by simp
  show "\<exists>q. mqtt_get_qos buf = Some q" by (simp add: b mqtt_get_qos_def)
  show "mqtt_get_id buf n = Some (of_nat (be16 hi lo))"
    using assms(2) unfolding mqtt_get_id_def Let_def ty by (simp add: b)
qed

lemma find_first: "(\<And>y. y \<in> set xs \<Longrightarrow> \<not> P y) \<Longrightarrow> P x \<Longrightarrow> find P (xs @ x # ys) = Some x"
  by (induction xs) auto

lemma confirm_removes:
  assumes items: "items ob = pre @ it # later" and wf: "outbox_wf ob"
    and it: "item_msg_id it = mid" "item_msg_type it = type_code MQTT_MSG_TYPE_PUBLISH"
    and others: "\<And>i. i \<in> set (pre @ later) \<Longrightarrow> item_msg_id i \<noteq> mid"
  shows "\<exists>ob'. outbox_delete ob mid (type_code MQTT_MSG_TYPE_PUBLISH) = (ESP_OK, ob') \<and> items ob' = pre @ later \<and>
    snd (outbox_set_pending ob' mid CONFIRMED) = ob'"
proof -
  let ?P = "\<lambda>i. item_msg_id i = mid \<and> 0xFF AND item_msg_type i = type_code MQTT_MSG_TYPE_PUBLISH"
  have "find ?P (items ob) = Some it"
    unfolding items using it others by (intro find_first) auto
  moreover have rest: "items (stailq_remove (handle it) ob) = pre @ later"
    using stailq_remove_split [OF wf items] .
  moreover have "outbox_get (stailq_remove (handle it) ob) mid = None"
    using others by (auto simp: outbox_get_def rest find_None_iff)
  ultimately show ?thesis by (simp add: outbox_delete_def outbox_set_pending_def)
qed


text \<open>A client waiting for the acknowledgement of publication 258, with it in the socket's buffer\<close>

definition confirming :: "unit sys" where
  "confirming = \<lparr>client = small_client\<lparr>state := MQTT_STATE_CONNECTED,
     config := Some (zero_config\<lparr>cfg_event_handle := Some 0\<rparr>),
     the_outbox := \<lparr>items = [sample_item 258 TRANSMITTED 0, sample_item 259 QUEUED 0], next_handle = 260\<rparr>,
     mstate := (mstate small_client)\<lparr>pending_msg_count := 2\<rparr>\<rparr>,
     tworld = receiving_world [0x40, 2, 1, 2, 0xD0], tasks = 1, outside = ()\<rparr>"


end
