(* ===== verification/Flash.thy ===== *)
theory Flash
  imports C_Text
begin

text \<open>
  The simulated flash: the SystemC module \<open>modules/cchanflash.cpp\<close>, which holds the contents and
  serves requests that arrive as text over a character channel, and the driver
  \<open>esp32sdk/spi_flash/esp_spi_flash.cpp\<close>, which turns the calls of the vendor's interface into these
  requests.

  The module's variables are the record \<open>cchanflash\<close>; the two FIFOs of its channel are in it, so a call of the
  driver puts its bytes into one, lets the module serve a message, and takes the answer from the other.  The
  null pointers \<open>secs\<close> and \<open>pgm\<close> before \<open>rangeinit\<close> are empty lists.  The local variables \<open>addr\<close> and
  \<open>size\<close> of the thread are in the record as well, since a message that does not scan leaves them
  as they were.  \<open>rand\<close> is the sequence \<open>noise\<close> with a position.

  \<open>None\<close> is an access outside an array, a thread that waits for bytes that do not come or never leaves a
  loop, and the end of the simulation: the board sets the action of \<open>SC_ERROR\<close> to \<open>SC_STOP\<close>, so a
  request that is refused with \<open>PRINTF_ERROR\<close> is not answered before the simulation is over.
\<close>

section \<open>Errors\<close>

text \<open>\<open>esp_err_t\<close>, the codes of \<open>esp_err.h\<close> and \<open>nvs.h\<close> that the storage layers return\<close>

datatype esp_err_t =
    ESP_OK
  | ESP_FAIL
  | ESP_ERR_NO_MEM
  | ESP_ERR_INVALID_ARG
  | ESP_ERR_INVALID_STATE
  | ESP_ERR_INVALID_SIZE
  | ESP_ERR_NOT_FOUND
  | ESP_ERR_NOT_SUPPORTED
  | ESP_ERR_NVS_NOT_INITIALIZED
  | ESP_ERR_NVS_NOT_FOUND
  | ESP_ERR_NVS_TYPE_MISMATCH
  | ESP_ERR_NVS_READ_ONLY
  | ESP_ERR_NVS_NOT_ENOUGH_SPACE
  | ESP_ERR_NVS_INVALID_NAME
  | ESP_ERR_NVS_INVALID_HANDLE
  | ESP_ERR_NVS_REMOVE_FAILED
  | ESP_ERR_NVS_KEY_TOO_LONG
  | ESP_ERR_NVS_PAGE_FULL
  | ESP_ERR_NVS_INVALID_STATE
  | ESP_ERR_NVS_INVALID_LENGTH
  | ESP_ERR_NVS_NO_FREE_PAGES
  | ESP_ERR_NVS_VALUE_TOO_LONG
  | ESP_ERR_NVS_PART_NOT_FOUND
  | ESP_ERR_NVS_NEW_VERSION_FOUND
  | ESP_ERR_NVS_CONTENT_DIFFERS
  | ESP_ERR_FLASH_OP_FAIL

section \<open>Words of four bytes\<close>

text \<open>The low byte comes first, on the channel as in the memory of the host.\<close>

definition le32 :: "u8 \<Rightarrow> u8 \<Rightarrow> u8 \<Rightarrow> u8 \<Rightarrow> u32" where
  "le32 a b c d = ucast a OR push_bit 8 (ucast b) OR push_bit 16 (ucast c) OR push_bit 24 (ucast d)"

definition le32_bytes :: "u32 \<Rightarrow> u8 list" where
  "le32_bytes w = [ucast w, ucast (drop_bit 8 w), ucast (drop_bit 16 w), ucast (drop_bit 24 w)]"

text \<open>\<open>n\<close> words read from a run of bytes; \<open>None\<close> when the bytes do not suffice\<close>

fun take_words :: "nat \<Rightarrow> u8 list \<Rightarrow> (u32 list \<times> u8 list) option" where
  "take_words 0 bs = Some ([], bs)"
| "take_words (Suc n) (a # b # c # d # bs) =
     map_option (\<lambda>(ws, rest). (le32 a b c d # ws, rest)) (take_words n bs)"
| "take_words (Suc n) _ = None"

definition word_bytes :: "u32 list \<Rightarrow> u8 list" where
  "word_bytes ws = concat (map le32_bytes ws)"

section \<open>The module\<close>

datatype secstate_t = UNK | ERS | PROG

record cchanflash =
  rangestart :: "u32 list"
  rangeend :: "u32 list"
  secstart :: "u32 list"
  secs :: "secstate_t list"
  pgm :: "u32 list list"
  uflash_from :: "u8 list"
  uflash_to :: "u8 list"
  msg_addr :: u32
  msg_size :: u32
  noise :: "nat \<Rightarrow> u8"
  noise_at :: nat

text \<open>Elements of the arrays\<close>

definition elem :: "'a list \<Rightarrow> nat \<Rightarrow> 'a option" where
  "elem xs i = (if i < length xs then Some (xs ! i) else None)"

definition set_elem :: "'a list \<Rightarrow> nat \<Rightarrow> 'a \<Rightarrow> 'a list option" where
  "set_elem xs i x = (if i < length xs then Some (xs[i := x]) else None)"

text \<open>\<open>v.resize(n, x)\<close>\<close>

definition resize :: "'a list \<Rightarrow> nat \<Rightarrow> 'a \<Rightarrow> 'a list" where
  "resize v n x = take n v @ replicate (n - length v) x"

definition SECADDR :: "cchanflash \<Rightarrow> nat \<Rightarrow> u32 \<Rightarrow> nat" where
  "SECADDR s r addr = unat (secstart s ! r + drop_bit 12 (addr - rangestart s ! r))"

definition PAGEADDRINSEC :: "cchanflash \<Rightarrow> nat \<Rightarrow> u32 \<Rightarrow> nat" where
  "PAGEADDRINSEC s r addr = unat (push_bit 4 (secstart s ! r) + drop_bit 8 addr)"

definition PAGEADDR :: "cchanflash \<Rightarrow> nat \<Rightarrow> u32 \<Rightarrow> nat" where
  "PAGEADDR s r addr = unat (push_bit 4 (secstart s ! r) + drop_bit 8 (addr - rangestart s ! r))"

definition ADDRINPAGE :: "cchanflash \<Rightarrow> nat \<Rightarrow> u32 \<Rightarrow> nat" where
  "ADDRINPAGE s r addr = unat (drop_bit 2 ((addr - rangestart s ! r) AND 0xfc))"

subsection \<open>Ranges\<close>

text \<open>The index of the range that holds an address; \<open>-1\<close> is \<open>None\<close>.\<close>

fun scan_ranges :: "(u32 \<times> u32) list \<Rightarrow> nat \<Rightarrow> u32 \<Rightarrow> nat option" where
  "scan_ranges [] r addr = None"
| "scan_ranges ((a, e) # rs) r addr =
     (if addr < a then None
      else if addr \<le> e then Some r
      else scan_ranges rs (r + 1) addr)"

definition getrange :: "cchanflash \<Rightarrow> u32 \<Rightarrow> nat option" where
  "getrange s addr = scan_ranges (zip (rangestart s) (rangeend s)) 0 addr"

definition checkaddr :: "cchanflash \<Rightarrow> u32 \<Rightarrow> bool" where
  "checkaddr s addr \<longleftrightarrow> getrange s addr \<noteq> None"

definition overlaps :: "u32 \<Rightarrow> u32 \<Rightarrow> u32 \<times> u32 \<Rightarrow> bool" where
  "overlaps a e r \<longleftrightarrow>
     a \<ge> fst r \<and> a \<le> snd r \<or> e \<ge> fst r \<and> e \<le> snd r \<or> a < fst r \<and> e > snd r"

definition insert_pos :: "u32 \<Rightarrow> u32 list \<Rightarrow> nat" where
  "insert_pos a starts = length (takeWhile (\<lambda>b. a > b) starts)"

definition insert_at :: "nat \<Rightarrow> 'a \<Rightarrow> 'a list \<Rightarrow> 'a list" where
  "insert_at r x xs = take r xs @ x # drop r xs"

definition addrange :: "u32 \<Rightarrow> u32 \<Rightarrow> cchanflash \<Rightarrow> cchanflash option" where
  "addrange a e s =
     (if secs s \<noteq> [] then None
      else if e \<le> a then None
      else if list_ex (overlaps a e) (zip (rangestart s) (rangeend s)) then None
      else (let r = insert_pos a (rangestart s)
            in Some (s\<lparr>rangestart := insert_at r a (rangestart s),
                       rangeend := insert_at r e (rangeend s)\<rparr>)))"

text \<open>\<open>thissecsize\<close> for one range, and the first sector of each\<close>

definition range_sectors :: "u32 \<Rightarrow> u32 \<Rightarrow> u32" where
  "range_sectors a e = (e + 1 - a) div 4096"

fun sector_starts :: "(u32 \<times> u32) list \<Rightarrow> u32 \<Rightarrow> u32 list" where
  "sector_starts [] cnt = []"
| "sector_starts ((a, e) # rs) cnt = cnt # sector_starts rs (cnt + range_sectors a e)"

fun sector_count :: "(u32 \<times> u32) list \<Rightarrow> u32 \<Rightarrow> u32" where
  "sector_count [] cnt = cnt"
| "sector_count ((a, e) # rs) cnt = sector_count rs (cnt + range_sectors a e)"

text \<open>\<open>seccnt\<close> is an \<open>int\<close>; a negative number of elements makes \<open>new\<close> throw.\<close>

definition rangeinit :: "cchanflash \<Rightarrow> cchanflash option" where
  "rangeinit s =
     (let ranges = zip (rangestart s) (rangeend s);
          seccnt = sector_count ranges 0
      in if rangestart s = [] \<or> rangeend s = [] then None
         else if length (rangestart s) \<noteq> length (rangeend s) then None
         else if seccnt = 0 \<or> sint seccnt < 0 then None
         else Some (s\<lparr>secstart := sector_starts ranges 0,
                      secs := replicate (unat seccnt) UNK,
                      pgm := replicate (unat (seccnt * 16)) []\<rparr>))"

subsection \<open>Loading before the test\<close>

text \<open>A loop that sets the elements \<open>i\<close> to \<open>j - 1\<close>\<close>

definition set_range :: "'a list \<Rightarrow> nat \<Rightarrow> nat \<Rightarrow> 'a \<Rightarrow> 'a list option" where
  "set_range xs i j x =
     (if i < j then
        if j \<le> length xs then Some (take i xs @ replicate (j - i) x @ drop j xs) else None
      else Some xs)"

definition preerase :: "u32 \<Rightarrow> u32 \<Rightarrow> cchanflash \<Rightarrow> cchanflash option" where
  "preerase addr endaddr s =
     (case getrange s addr of
        None \<Rightarrow> None
      | Some r \<Rightarrow>
          if endaddr > rangeend s ! r then None
          else do {
            secs' \<leftarrow> set_range (secs s) (SECADDR s r addr) (SECADDR s r endaddr) ERS;
            Some (s\<lparr>secs := secs'\<rparr>)
          })"

text \<open>The words of one page, from \<open>byteaddr\<close> on; \<open>data\<close> holds the words not yet copied.\<close>

function preload_words :: "nat \<Rightarrow> nat \<Rightarrow> u32 list \<Rightarrow> u32 list \<Rightarrow> (u32 list \<times> u32 list) option" where
  "preload_words byteaddr last_byte page data =
     (if byteaddr < last_byte then
        (case data of [] \<Rightarrow> None
         | w # data \<Rightarrow> do {
             page \<leftarrow> set_elem page (byteaddr div 4) w;
             preload_words (byteaddr + 4) last_byte page data
           })
      else Some (page, data))"
  by pat_completeness auto
termination by (relation "measure (\<lambda>(b, l, _). l - b)") auto

declare preload_words.simps [simp del]

text \<open>The loop over the pages; \<open>adinsec\<close> and \<open>endaddr\<close> are offsets from the start of the range.\<close>

function preload_pages :: "nat \<Rightarrow> u32 \<Rightarrow> u32 \<Rightarrow> u32 list \<Rightarrow> cchanflash \<Rightarrow> cchanflash option" where
  "preload_pages r adinsec endaddr data s =
     (if adinsec \<le> endaddr then
        (let pageend = adinsec OR 0xff;
             writeend = (if endaddr \<ge> pageend then pageend else endaddr);
             pagesize = unat (writeend mod 256 + 1);
             pg = PAGEADDRINSEC s r adinsec
         in do {
              page \<leftarrow> elem (pgm s) pg;
              (page, data) \<leftarrow> preload_words (unat (adinsec mod 256)) (unat (writeend mod 256))
                                (resize page pagesize 0xffffffff) data;
              if adinsec + 256 \<le> adinsec then None
              else preload_pages r (adinsec + 256) endaddr data (s\<lparr>pgm := (pgm s)[pg := page]\<rparr>)
            })
      else Some s)"
  by pat_completeness auto
termination
proof (relation "measure (\<lambda>(r, a, e, d, s). 2 ^ 32 - unat a)", goal_cases)
  case (2 r a)
  then have "unat a < unat (a + 256)" "unat (a + 256) < 2 ^ 32"
    using unsigned_less [of "a + 256", where ?'a = nat] by (simp_all add: not_le word_less_nat_alt)
  then show ?case by simp
qed simp

declare preload_pages.simps [simp del]

definition preload :: "u32 \<Rightarrow> u32 list \<Rightarrow> u32 \<Rightarrow> cchanflash \<Rightarrow> cchanflash option" where
  "preload addr data len s =
     (case getrange s addr of
        None \<Rightarrow> None
      | Some r \<Rightarrow>
          if len + addr - 1 > rangeend s ! r then None
          else do {
            secs' \<leftarrow> set_range (secs s) (SECADDR s r addr) (SECADDR s r (addr + len - 1) + 1) PROG;
            preload_pages r (addr - rangestart s ! r) (addr - rangestart s ! r + len - 1) data
              (s\<lparr>secs := secs'\<rparr>)
          })"

section \<open>The thread that serves requests\<close>

text \<open>Blocking reads of the FIFO, and writes to the other one\<close>

definition read_line :: "u8 list \<Rightarrow> (u8 list \<times> u8 list) option" where
  "read_line bs =
     (case dropWhile (\<lambda>b. b \<noteq> 0x0A) bs of
        [] \<Rightarrow> None
      | nl # rest \<Rightarrow> Some (takeWhile (\<lambda>b. b \<noteq> 0x0A) bs @ [nl], rest))"

definition get_char :: "cchanflash \<Rightarrow> (u8 \<times> cchanflash) option" where
  "get_char s = (case uflash_from s of [] \<Rightarrow> None | b # bs \<Rightarrow> Some (b, s\<lparr>uflash_from := bs\<rparr>))"

definition put_chars :: "u8 list \<Rightarrow> cchanflash \<Rightarrow> cchanflash" where
  "put_chars bs s = s\<lparr>uflash_to := uflash_to s @ bs\<rparr>"

text \<open>\<open>msg.find(p) == 0\<close>\<close>

definition starts_with :: "u8 list \<Rightarrow> u8 list \<Rightarrow> bool" where
  "starts_with p msg \<longleftrightarrow> take (length p) msg = p"

text \<open>\<open>sscanf(msg, "e:%x", &addr)\<close> and \<open>sscanf(msg, "w:%x %u", &addr, &size)\<close>: what does not scan
  leaves its variable alone.\<close>

definition scan_prefix :: "u8 list \<Rightarrow> u8 list \<Rightarrow> u8 list option" where
  "scan_prefix p msg = (if starts_with p msg then Some (drop (length p) msg) else None)"

definition scan_addr :: "u8 list \<Rightarrow> u8 list \<Rightarrow> cchanflash \<Rightarrow> cchanflash" where
  "scan_addr p msg s =
     (case Option.bind (scan_prefix p msg) scan_hex of
        None \<Rightarrow> s
      | Some (a, _) \<Rightarrow> s\<lparr>msg_addr := word_of_int a\<rparr>)"

definition scan_addr_size :: "u8 list \<Rightarrow> u8 list \<Rightarrow> cchanflash \<Rightarrow> cchanflash" where
  "scan_addr_size p msg s =
     (case Option.bind (scan_prefix p msg) scan_hex of
        None \<Rightarrow> s
      | Some (a, rest) \<Rightarrow>
          (case scan_int rest of
             None \<Rightarrow> s\<lparr>msg_addr := word_of_int a\<rparr>
           | Some (n, _) \<Rightarrow> s\<lparr>msg_addr := word_of_int a, msg_size := word_of_int n\<rparr>))"

definition cmd_e :: "u8 list" where "cmd_e = [0x65, 0x3A]"
definition cmd_w :: "u8 list" where "cmd_w = [0x77, 0x3A]"
definition cmd_d :: "u8 list" where "cmd_d = [0x64, 0x3A]"
definition cmd_r :: "u8 list" where "cmd_r = [0x72, 0x3A]"

subsection \<open>Erase\<close>

definition serve_erase :: "u8 list \<Rightarrow> cchanflash \<Rightarrow> cchanflash option" where
  "serve_erase msg s0 =
     (let s1 = scan_addr cmd_e msg s0;
          addr = msg_addr s1 * 4096;
          s = s1\<lparr>msg_addr := addr\<rparr>
      in case getrange s addr of
           None \<Rightarrow> None
         | Some r \<Rightarrow> do {
             secs' \<leftarrow> set_elem (secs s) (SECADDR s r addr) ERS;
             pgm' \<leftarrow> set_range (pgm s) (PAGEADDR s r addr) (PAGEADDR s r addr + 16) [];
             Some (put_chars [0] (s\<lparr>secs := secs', pgm := pgm'\<rparr>))
           })"

subsection \<open>Program\<close>

definition write_refused :: "cchanflash \<Rightarrow> nat \<Rightarrow> u32 \<Rightarrow> u32 \<Rightarrow> bool option" where
  "write_refused s r addr len = do {
     st \<leftarrow> elem (secs s) (SECADDR s r addr);
     Some (st = UNK \<or> len < 1 \<or> len > 64 \<or>
           ((addr + len * 4 - 1) AND 0xffffff00) \<noteq> (addr AND 0xffffff00))
   }"

text \<open>The words of the data message, then everything up to its end of line\<close>

definition store_words :: "nat \<Rightarrow> u32 list \<Rightarrow> u32 list \<Rightarrow> u32 list" where
  "store_words pos ws page = take pos page @ ws @ drop (pos + length ws) page"

definition serve_data :: "nat \<Rightarrow> u32 \<Rightarrow> u32 \<Rightarrow> cchanflash \<Rightarrow> cchanflash option" where
  "serve_data r addr len s = do {
     secs' \<leftarrow> set_elem (secs s) (SECADDR s r addr) PROG;
     page \<leftarrow> elem (pgm s) (PAGEADDR s r addr);
     (let addrinpage = ADDRINPAGE s r addr;
          page = (if addrinpage + unat len > length page
                  then resize page (addrinpage + unat len) 0 else page)
      in do {
           (ws, rest) \<leftarrow> take_words (unat len) (uflash_from s);
           (_, rest) \<leftarrow> read_line rest;
           Some (put_chars [0]
             (s\<lparr>secs := secs',
                pgm := (pgm s)[PAGEADDR s r addr := store_words addrinpage ws page],
                uflash_from := rest\<rparr>))
         })
   }"

definition serve_write :: "u8 list \<Rightarrow> cchanflash \<Rightarrow> cchanflash option" where
  "serve_write msg s0 =
     (let s = scan_addr_size cmd_w msg s0;
          addr = msg_addr s;
          len = msg_size s
      in case getrange s addr of
           None \<Rightarrow> None
         | Some r \<Rightarrow> do {
             refused \<leftarrow> write_refused s r addr len;
             if refused then None
             else do {
               (c, s) \<leftarrow> get_char s;
               if c \<noteq> 0x64 then None
               else do {
                 (c, s) \<leftarrow> get_char s;
                 if c \<noteq> 0x3A then None else serve_data r addr len s
               }
             }
           })"

subsection \<open>Read\<close>

definition random_bytes :: "nat \<Rightarrow> cchanflash \<Rightarrow> u8 list \<times> cchanflash" where
  "random_bytes n s =
     (map (\<lambda>i. noise s (noise_at s + i)) [0..<n], s\<lparr>noise_at := noise_at s + n\<rparr>)"

text \<open>A word of a page: beyond the stored words everything reads as erased.\<close>

definition page_word :: "u32 list \<Rightarrow> nat \<Rightarrow> u32" where
  "page_word page p = (if p < length page then page ! p else 0xffffffff)"

text \<open>The two loops over a programmed page.  Their bound is unsigned, so when nothing is asked for at the
  start of a page it is the greatest number and the second loop does not end.\<close>

definition page_answer :: "u32 list \<Rightarrow> u32 \<Rightarrow> u32 \<Rightarrow> u32 list option" where
  "page_answer page addr len =
     (let pos = drop_bit 2 addr AND 0x3f;
          endpos = len + pos - 1
      in if endpos = - 1 then None
         else Some (map (page_word page) [unat pos..<Suc (unat endpos)]))"

definition serve_read :: "u8 list \<Rightarrow> cchanflash \<Rightarrow> cchanflash option" where
  "serve_read msg s0 =
     (let s = scan_addr_size cmd_r msg s0;
          addr = msg_addr s;
          len = msg_size s
      in case getrange s addr of
           None \<Rightarrow> None
         | Some r \<Rightarrow> do {
             st \<leftarrow> elem (secs s) (SECADDR s r addr);
             if st = UNK then
               (let (bs, s) = random_bytes (4 * unat len) s in Some (put_chars (bs @ [0]) s))
             else do {
               page \<leftarrow> elem (pgm s) (PAGEADDR s r addr);
               if st = ERS \<or> page = [] then
                 Some (put_chars (replicate (4 * unat len) 0xff @ [0]) s)
               else do {
                 ws \<leftarrow> page_answer page addr len;
                 Some (put_chars (word_bytes ws @ [0]) s)
               }
             }
           })"

text \<open>One round of the loop of \<open>flash\<close>: a message is read and served.\<close>

definition serve :: "cchanflash \<Rightarrow> cchanflash option" where
  "serve s0 =
     (if secs s0 = [] then None
      else do {
        (msg, rest) \<leftarrow> read_line (uflash_from s0);
        (let s = s0\<lparr>uflash_from := rest\<rparr>
         in if starts_with cmd_e msg then serve_erase msg s
            else if starts_with cmd_w msg then serve_write msg s
            else serve_read msg s)
      })"

end
