(* ===== verification/Spi_Flash.thy ===== *)
theory Spi_Flash
  imports Flash
begin

text \<open>
  The driver of the flash, \<open>esp32sdk/spi_flash/esp_spi_flash.cpp\<close>: each call writes a request to
  \<open>Flashport\<close>, waits for the module's answer and turns it into an error code; long reads are cut
  into pieces.  \<open>flashmutex\<close> keeps requests apart, so a call sees the module between two rounds.

  Memory of the caller is a list of bytes: the source of a write, and the destination of a read with the
  offset of the pointer in it.  \<open>size_t\<close> arguments that \<open>%x\<close> prints lose their upper half.
\<close>

definition retflerr :: "u8 \<Rightarrow> esp_err_t" where
  "retflerr code = (if code = 0 then ESP_OK else ESP_FAIL)"

definition spi_flash_get_chip_size :: nat where
  "spi_flash_get_chip_size = 1024 * 1024 * 4"

text \<open>What the driver writes to the port, and the bytes it waits for\<close>

definition send :: "u8 list \<Rightarrow> cchanflash \<Rightarrow> cchanflash" where
  "send bs s = s\<lparr>uflash_from := uflash_from s @ bs\<rparr>"

definition receive_byte :: "cchanflash \<Rightarrow> (u8 \<times> cchanflash) option" where
  "receive_byte s = (case uflash_to s of [] \<Rightarrow> None | b # bs \<Rightarrow> Some (b, s\<lparr>uflash_to := bs\<rparr>))"

definition receive_words :: "nat \<Rightarrow> cchanflash \<Rightarrow> (u32 list \<times> cchanflash) option" where
  "receive_words n s =
     map_option (\<lambda>(ws, rest). (ws, s\<lparr>uflash_to := rest\<rparr>)) (take_words n (uflash_to s))"

text \<open>\<open>%0x\<close> and \<open>%u\<close> of a \<open>size_t\<close>, and the end of a line\<close>

definition hex_text :: "nat \<Rightarrow> u8 list" where
  "hex_text n = hex_nat (n mod 2 ^ 32)"

definition dec_text :: "nat \<Rightarrow> u8 list" where
  "dec_text n = dec_nat (n mod 2 ^ 32)"

definition eol :: "u8 list" where
  "eol = [0x0D, 0x0A]"

section \<open>Erasing\<close>

definition spi_flash_erase_sector :: "nat \<Rightarrow> cchanflash \<Rightarrow> (esp_err_t \<times> cchanflash) option" where
  "spi_flash_erase_sector sec s = do {
     s \<leftarrow> serve (send (cmd_e @ hex_text sec @ eol) s);
     (b, s) \<leftarrow> receive_byte s;
     Some (retflerr b, s)
   }"

fun erase_sectors :: "nat \<Rightarrow> nat \<Rightarrow> esp_err_t \<Rightarrow> cchanflash \<Rightarrow> (esp_err_t \<times> cchanflash) option" where
  "erase_sectors sec 0 accumerr s = Some (accumerr, s)"
| "erase_sectors sec (Suc n) accumerr s = do {
     (resp, s) \<leftarrow> spi_flash_erase_sector sec s;
     erase_sectors (size_add sec 1) n (if accumerr = ESP_OK then resp else accumerr) s
   }"

definition spi_flash_erase_range :: "nat \<Rightarrow> nat \<Rightarrow> cchanflash \<Rightarrow> (esp_err_t \<times> cchanflash) option" where
  "spi_flash_erase_range start_address len s =
     (if start_address mod 4096 > 0 then None
      else if len mod 4096 > 0 then None
      else erase_sectors (start_address div 4096) (len div 4096) ESP_OK s)"

section \<open>Writing\<close>

text \<open>\<open>ceil(size/4)\<close> divides the integers first, so what does not fill a word is not written.\<close>

definition spi_flash_write :: "nat \<Rightarrow> u8 list \<Rightarrow> nat \<Rightarrow> cchanflash \<Rightarrow> (esp_err_t \<times> cchanflash) option" where
  "spi_flash_write des_addr src len s =
     (let sizew = len div 4
      in if len > 256 then None
         else do {
           (ws, _) \<leftarrow> take_words sizew src;
           s \<leftarrow> serve (send (cmd_w @ hex_text des_addr @ [0x20] @ dec_text sizew @ eol @
                             cmd_d @ word_bytes ws @ eol) s);
           (b, s) \<leftarrow> receive_byte s;
           Some (retflerr b, s)
         })"

definition spi_flash_write_encrypted :: "esp_err_t" where
  "spi_flash_write_encrypted = ESP_ERR_INVALID_STATE"

section \<open>Reading\<close>

text \<open>A request of at most 256 bytes\<close>

definition read_block ::
  "nat \<Rightarrow> u8 list \<Rightarrow> nat \<Rightarrow> nat \<Rightarrow> cchanflash \<Rightarrow> (esp_err_t \<times> u8 list \<times> cchanflash) option" where
  "read_block src_addr dest off len s =
     (let sizew = len div 4
      in do {
           s \<leftarrow> serve (send (cmd_r @ hex_text src_addr @ [0x20] @ dec_text sizew @ eol) s);
           (ws, s) \<leftarrow> receive_words sizew s;
           dest \<leftarrow> mem_write dest off (word_bytes ws);
           (b, s) \<leftarrow> receive_byte s;
           Some (retflerr b, dest, s)
         })"

fun spi_flash_read ::
  "nat \<Rightarrow> u8 list \<Rightarrow> nat \<Rightarrow> nat \<Rightarrow> cchanflash \<Rightarrow> (esp_err_t \<times> u8 list \<times> cchanflash) option" where
  "spi_flash_read src_addr dest off len s =
     (if len > 256 then do {
        (resp, dest, s) \<leftarrow> read_block src_addr dest off 256 s;
        if resp \<noteq> ESP_OK then Some (resp, dest, s)
        else spi_flash_read (size_add src_addr 256) dest (off + 256) (len - 256) s
      }
      else if len = 0 then Some (ESP_OK, dest, s)
      else read_block src_addr dest off len s)"

declare spi_flash_read.simps [simp del]

definition spi_flash_read_encrypted ::
  "nat \<Rightarrow> u8 list \<Rightarrow> nat \<Rightarrow> nat \<Rightarrow> cchanflash \<Rightarrow> (esp_err_t \<times> u8 list \<times> cchanflash) option" where
  "spi_flash_read_encrypted = spi_flash_read"

end
