(* ===== verification/Nvs_Types.thy ===== *)
theory Nvs_Types
  imports Spi_Flash
begin

text \<open>
  The building blocks of the key-value store: items of 32 bytes (\<open>nvs_types.hpp\<close>, \<open>nvs_types.cpp\<close>), the table of
  entry states with two bits each (\<open>compressed_enum_table.hpp\<close>), and the list that finds an item by a hash of its
  name (\<open>nvs_item_hash_list.cpp\<close>).

  An item is a union over its raw bytes, so it is a list of 32 bytes here, and the members are read from and
  written to their offsets.  \<open>crc32_le\<close> is only declared under \<open>src/\<close>; it is the parameter \<open>crc\<close>.
\<close>

section \<open>Items\<close>

type_synonym crc32_le = "u32 \<Rightarrow> u8 list \<Rightarrow> u32"

type_synonym ItemType = u8

definition TYPE_U8 :: u8 where "TYPE_U8 = 0x01"
definition TYPE_I8 :: u8 where "TYPE_I8 = 0x11"
definition TYPE_U16 :: u8 where "TYPE_U16 = 0x02"
definition TYPE_I16 :: u8 where "TYPE_I16 = 0x12"
definition TYPE_U32 :: u8 where "TYPE_U32 = 0x04"
definition TYPE_I32 :: u8 where "TYPE_I32 = 0x14"
definition TYPE_U64 :: u8 where "TYPE_U64 = 0x08"
definition TYPE_I64 :: u8 where "TYPE_I64 = 0x18"
definition TYPE_SZ :: u8 where "TYPE_SZ = 0x21"
definition TYPE_BLOB :: u8 where "TYPE_BLOB = 0x41"
definition TYPE_BLOB_DATA :: u8 where "TYPE_BLOB_DATA = 0x42"
definition TYPE_BLOB_IDX :: u8 where "TYPE_BLOB_IDX = 0x48"
definition TYPE_ANY :: u8 where "TYPE_ANY = 0xff"

definition VER_0_OFFSET :: u8 where "VER_0_OFFSET = 0x00"
definition VER_1_OFFSET :: u8 where "VER_1_OFFSET = 0x80"
definition VER_ANY :: u8 where "VER_ANY = 0xff"

definition CHUNK_ANY :: u8 where "CHUNK_ANY = 0xff"
definition MAX_KEY_LENGTH :: nat where "MAX_KEY_LENGTH = 15"

definition isVariableLengthType :: "u8 \<Rightarrow> bool" where
  "isVariableLengthType ty \<longleftrightarrow> ty = TYPE_BLOB \<or> ty = TYPE_SZ \<or> ty = TYPE_BLOB_DATA"

type_synonym Item = "u8 list"

text \<open>Members by their offsets\<close>

definition le16 :: "u8 \<Rightarrow> u8 \<Rightarrow> u16" where
  "le16 a b = ucast a OR push_bit 8 (ucast b)"

definition le16_bytes :: "u16 \<Rightarrow> u8 list" where
  "le16_bytes w = [ucast w, ucast (drop_bit 8 w)]"

definition field :: "nat \<Rightarrow> nat \<Rightarrow> Item \<Rightarrow> u8 list" where
  "field off n it = take n (drop off it)"

definition set_field :: "nat \<Rightarrow> u8 list \<Rightarrow> Item \<Rightarrow> Item" where
  "set_field off bs it = take off it @ bs @ drop (off + length bs) it"

definition word_field :: "nat \<Rightarrow> Item \<Rightarrow> u32" where
  "word_field off it = le32 (it ! off) (it ! (off + 1)) (it ! (off + 2)) (it ! (off + 3))"

definition nsIndex :: "Item \<Rightarrow> u8" where "nsIndex it = it ! 0"
definition datatype_of :: "Item \<Rightarrow> u8" where "datatype_of it = it ! 1"
definition span_of :: "Item \<Rightarrow> u8" where "span_of it = it ! 2"
definition chunkIndex :: "Item \<Rightarrow> u8" where "chunkIndex it = it ! 3"
definition crc32 :: "Item \<Rightarrow> u32" where "crc32 it = word_field 4 it"
definition key_of :: "Item \<Rightarrow> u8 list" where "key_of it = field 8 16 it"
definition data_of :: "Item \<Rightarrow> u8 list" where "data_of it = field 24 8 it"
definition var_dataSize :: "Item \<Rightarrow> u16" where "var_dataSize it = le16 (it ! 24) (it ! 25)"
definition var_dataCrc32 :: "Item \<Rightarrow> u32" where "var_dataCrc32 it = word_field 28 it"
definition blob_dataSize :: "Item \<Rightarrow> u32" where "blob_dataSize it = word_field 24 it"
definition blob_chunkCount :: "Item \<Rightarrow> u8" where "blob_chunkCount it = it ! 28"
definition blob_chunkStart :: "Item \<Rightarrow> u8" where "blob_chunkStart it = it ! 29"

text \<open>The member \<open>key\<close> after \<open>strncpy(key, key_, 15); key[15] = 0\<close>\<close>

definition key_field :: "u8 list \<Rightarrow> u8 list" where
  "key_field key = take 15 key @ replicate (16 - length (take 15 key)) 0"

text \<open>The constructor; it leaves \<open>crc32\<close> as it is, which is read only after it has been set.\<close>

definition make_item :: "u8 \<Rightarrow> u8 \<Rightarrow> u8 \<Rightarrow> u8 list option \<Rightarrow> u8 \<Rightarrow> Item" where
  "make_item ns ty span key chunkIdx =
     [ns, ty, span, chunkIdx] @ [0, 0, 0, 0] @
     (case key of Some k \<Rightarrow> key_field k | None \<Rightarrow> 0 # replicate 15 0xff) @ replicate 8 0xff"

definition calculateCrc32 :: "crc32_le \<Rightarrow> Item \<Rightarrow> u32" where
  "calculateCrc32 crc it = crc (crc (crc 0xffffffff (field 0 4 it)) (field 8 16 it)) (field 24 8 it)"

definition calculateCrc32WithoutValue :: "crc32_le \<Rightarrow> Item \<Rightarrow> u32" where
  "calculateCrc32WithoutValue crc it = crc (crc (crc 0xffffffff (field 0 1 it)) (field 8 16 it)) (field 3 1 it)"

definition data_crc32 :: "crc32_le \<Rightarrow> u8 list \<Rightarrow> u32" where
  "data_crc32 crc data = crc 0xffffffff data"

definition seal :: "crc32_le \<Rightarrow> Item \<Rightarrow> Item" where
  "seal crc it = set_field 4 (le32_bytes (calculateCrc32 crc it)) it"

section \<open>The table of entry states\<close>

definition ENTRY_COUNT :: nat where "ENTRY_COUNT = 126"
definition ITEMS_PER_WORD :: nat where "ITEMS_PER_WORD = 16"

definition getWordIndex :: "nat \<Rightarrow> nat" where
  "getWordIndex index = index div ITEMS_PER_WORD"

definition entry_get :: "u32 list \<Rightarrow> nat \<Rightarrow> u32 option" where
  "entry_get table index =
     (if index < ENTRY_COUNT then
        (let offset = (index mod ITEMS_PER_WORD) * 2
         in map_option (\<lambda>w. drop_bit offset w AND 3) (elem table (getWordIndex index)))
      else None)"

definition entry_set :: "u32 list \<Rightarrow> nat \<Rightarrow> u32 \<Rightarrow> u32 list option" where
  "entry_set table index val =
     (if index < ENTRY_COUNT then
        (let offset = (index mod ITEMS_PER_WORD) * 2
         in do {
              w \<leftarrow> elem table (getWordIndex index);
              set_elem table (getWordIndex index) ((w AND NOT (push_bit offset 3)) OR push_bit offset val)
            })
      else None)"

section \<open>The hash list\<close>

text \<open>A node is an index of 8 bits, \<open>0xff\<close> when it has been erased, and a hash of 24; a block holds at most 26.\<close>

type_synonym hash_list = "(u8 \<times> u32) list list"

definition BLOCK_ENTRY_COUNT :: nat where
  "BLOCK_ENTRY_COUNT = (128 - 16 - 8) div 4"

definition hash_24 :: "crc32_le \<Rightarrow> Item \<Rightarrow> u32" where
  "hash_24 crc it = calculateCrc32WithoutValue crc it AND 0xffffff"

definition hash_insert :: "crc32_le \<Rightarrow> Item \<Rightarrow> nat \<Rightarrow> hash_list \<Rightarrow> hash_list" where
  "hash_insert crc it index bl =
     (let node = (of_nat index, hash_24 crc it)
      in if bl \<noteq> [] \<and> length (last bl) < BLOCK_ENTRY_COUNT
         then butlast bl @ [last bl @ [node]]
         else bl @ [[node]])"

text \<open>The loop over the nodes of one block; what it returns is the block, whether the index was found, whether
  entries are left, and whether the function returned from inside.\<close>

fun erase_nodes :: "nat \<Rightarrow> (u8 \<times> u32) list \<Rightarrow> bool \<Rightarrow> bool \<Rightarrow> (u8 \<times> u32) list \<times> bool \<times> bool \<times> bool" where
  "erase_nodes index [] haveEntries foundIndex = ([], haveEntries, foundIndex, False)"
| "erase_nodes index ((i, h) # ns) haveEntries foundIndex =
     (let hit = (unat i = index);
          i = (if hit then 0xff else i);
          foundIndex = (foundIndex \<or> hit);
          haveEntries = (haveEntries \<or> i \<noteq> 0xff)
      in if haveEntries \<and> foundIndex then ((i, h) # ns, haveEntries, foundIndex, True)
         else (let (ns', r) = erase_nodes index ns haveEntries foundIndex in ((i, h) # ns', r)))"

fun hash_erase :: "nat \<Rightarrow> bool \<Rightarrow> hash_list \<Rightarrow> hash_list option" where
  "hash_erase index itemShouldExist [] = (if itemShouldExist then None else Some [])"
| "hash_erase index itemShouldExist (b # bl) =
     (let (b', haveEntries, foundIndex, returned) = erase_nodes index b False False
      in if returned then Some (b' # bl)
         else (let keep = (\<lambda>rest. if haveEntries then b' # rest else rest)
               in if foundIndex then Some (keep bl)
                  else map_option keep (hash_erase index itemShouldExist bl)))"

definition SIZE_MAX :: nat where "SIZE_MAX = 2 ^ 64 - 1"

fun find_node :: "nat \<Rightarrow> u32 \<Rightarrow> (u8 \<times> u32) list \<Rightarrow> nat option" where
  "find_node start h [] = None"
| "find_node start h ((i, h') # ns) =
     (if start \<le> unat i \<and> h' = h \<and> i \<noteq> 0xff then Some (unat i) else find_node start h ns)"

definition hash_find :: "crc32_le \<Rightarrow> nat \<Rightarrow> Item \<Rightarrow> hash_list \<Rightarrow> nat" where
  "hash_find crc start it bl =
     (case find_node start (hash_24 crc it) (concat bl) of None \<Rightarrow> SIZE_MAX | Some i \<Rightarrow> i)"

end
