(* ===== verification/Nvs_Page.thy ===== *)
theory Nvs_Page
  imports Nvs_Types
begin

text \<open>
  A page of the key-value store, \<open>nvs_page.cpp\<close>: one sector of the flash with a header, a table of two bits for each
  of 126 entries, and the entries of 32 bytes.

  The object's members are the record \<open>page\<close>; an operation takes the page and the flash under it and returns the
  error code with both.  The entry table is not initialised by the constructor; it is whatever the record holds until
  the page is loaded or initialised.  The class \<open>Header\<close> and an \<open>Item\<close> are the bytes that are read and
  written.  A failed assertion is \<open>None\<close>, like the end of the simulation in the flash.
\<close>

definition PSB_INIT :: u32 where "PSB_INIT = 0x1"
definition PSB_FULL :: u32 where "PSB_FULL = 0x2"
definition PSB_FREEING :: u32 where "PSB_FREEING = 0x4"
definition PSB_CORRUPT :: u32 where "PSB_CORRUPT = 0x8"

definition ESB_WRITTEN :: u32 where "ESB_WRITTEN = 0x1"
definition ESB_ERASED :: u32 where "ESB_ERASED = 0x2"

definition SEC_SIZE :: u32 where "SEC_SIZE = 4096"
definition ENTRY_SIZE :: nat where "ENTRY_SIZE = 32"
definition INVALID_ENTRY :: nat where "INVALID_ENTRY = 0xffffffff"
definition CHUNK_MAX_SIZE :: nat where "CHUNK_MAX_SIZE = ENTRY_SIZE * (ENTRY_COUNT - 1)"
definition NS_INDEX :: u8 where "NS_INDEX = 0"
definition NS_ANY :: u8 where "NS_ANY = 255"
definition NVS_VERSION :: u8 where "NVS_VERSION = 0xfe"

definition HEADER_OFFSET :: u32 where "HEADER_OFFSET = 0"
definition ENTRY_TABLE_OFFSET :: u32 where "ENTRY_TABLE_OFFSET = HEADER_OFFSET + 32"
definition ENTRY_DATA_OFFSET :: u32 where "ENTRY_DATA_OFFSET = ENTRY_TABLE_OFFSET + 32"

type_synonym PageState = u32

definition UNINITIALIZED :: u32 where "UNINITIALIZED = 0xffffffff"
definition ACTIVE :: u32 where "ACTIVE = UNINITIALIZED AND NOT PSB_INIT"
definition FULL :: u32 where "FULL = ACTIVE AND NOT PSB_FULL"
definition FREEING :: u32 where "FREEING = FULL AND NOT PSB_FREEING"
definition CORRUPT :: u32 where "CORRUPT = FREEING AND NOT PSB_CORRUPT"
definition INVALID :: u32 where "INVALID = 0"

definition EMPTY :: u32 where "EMPTY = 0x3"
definition WRITTEN :: u32 where "WRITTEN = EMPTY AND NOT ESB_WRITTEN"
definition ERASED :: u32 where "ERASED = WRITTEN AND NOT ESB_ERASED"

record page =
  mBaseAddress :: u32
  mState :: u32
  mSeqNumber :: u32
  mVersion :: u8
  mEntryTable :: "u32 list"
  mNextFreeEntry :: nat
  mFirstUsedEntry :: nat
  mUsedEntryCount :: u16
  mErasedEntryCount :: u16
  mHashList :: hash_list

definition new_page :: "u32 list \<Rightarrow> page" where
  "new_page table = \<lparr>mBaseAddress = 0, mState = INVALID, mSeqNumber = 0xffffffff, mVersion = NVS_VERSION,
     mEntryTable = table, mNextFreeEntry = INVALID_ENTRY, mFirstUsedEntry = INVALID_ENTRY,
     mUsedEntryCount = 0, mErasedEntryCount = 0, mHashList = []\<rparr>"

type_synonym result = "(esp_err_t \<times> page \<times> cchanflash) option"

text \<open>Reading into a local buffer whose size is a number of words, and writing from one\<close>

definition flash_read :: "u32 \<Rightarrow> nat \<Rightarrow> cchanflash \<Rightarrow> (esp_err_t \<times> u8 list \<times> cchanflash) option" where
  "flash_read addr n fl = spi_flash_read (unat addr) (replicate n 0) 0 n fl"

definition flash_write :: "u32 \<Rightarrow> u8 list \<Rightarrow> cchanflash \<Rightarrow> (esp_err_t \<times> cchanflash) option" where
  "flash_write addr bs fl = spi_flash_write (unat addr) bs (length bs) fl"

section \<open>The header\<close>

definition header_bytes :: "u32 \<Rightarrow> u32 \<Rightarrow> u8 \<Rightarrow> u8 list" where
  "header_bytes st seqno version = le32_bytes st @ le32_bytes seqno @ [version] @ replicate 19 0xff"

definition header_crc32 :: "crc32_le \<Rightarrow> u8 list \<Rightarrow> u32" where
  "header_crc32 crc h = crc 0xffffffff (field 4 24 h)"

section \<open>Entries\<close>

definition getEntryAddress :: "page \<Rightarrow> nat \<Rightarrow> u32 option" where
  "getEntryAddress p entry =
     (if entry < ENTRY_COUNT
      then Some (mBaseAddress p + ENTRY_DATA_OFFSET + of_nat entry * of_nat ENTRY_SIZE) else None)"

definition readEntry :: "nat \<Rightarrow> page \<Rightarrow> cchanflash \<Rightarrow> (esp_err_t \<times> Item \<times> cchanflash) option" where
  "readEntry index p fl = do {
     a \<leftarrow> getEntryAddress p index;
     flash_read a 32 fl
   }"

definition table_word_address :: "page \<Rightarrow> nat \<Rightarrow> u32" where
  "table_word_address p w = mBaseAddress p + ENTRY_TABLE_OFFSET + of_nat w * 4"

definition alterEntryState :: "nat \<Rightarrow> u32 \<Rightarrow> page \<Rightarrow> cchanflash \<Rightarrow> result" where
  "alterEntryState index st p fl = do {
     table \<leftarrow> entry_set (mEntryTable p) index st;
     (let p = p\<lparr>mEntryTable := table\<rparr>;
          wordToWrite = getWordIndex index
      in do {
           (rc, fl) \<leftarrow> flash_write (table_word_address p wordToWrite) (le32_bytes (table ! wordToWrite)) fl;
           if rc \<noteq> ESP_OK then Some (rc, p\<lparr>mState := INVALID\<rparr>, fl) else Some (ESP_OK, p, fl)
         })
   }"

text \<open>The loop of \<open>alterEntryRangeState\<close> from the last entry down to \<open>begin\<close>: a word of the table is written when the
  next entry is in another one, or at the end.\<close>

fun alter_range :: "nat \<Rightarrow> nat \<Rightarrow> u32 \<Rightarrow> page \<Rightarrow> cchanflash \<Rightarrow> result" where
  "alter_range first 0 st p fl = Some (ESP_OK, p, fl)"
| "alter_range first (Suc n) st p fl = do {
     table \<leftarrow> entry_set (mEntryTable p) (first + n) st;
     (let p = p\<lparr>mEntryTable := table\<rparr>;
          wordIndex = getWordIndex (first + n)
      in if n = 0 \<or> getWordIndex (first + n - 1) \<noteq> wordIndex then do {
           (rc, fl) \<leftarrow> flash_write (table_word_address p wordIndex) (le32_bytes (table ! wordIndex)) fl;
           if rc \<noteq> ESP_OK then Some (rc, p, fl) else alter_range first n st p fl
         }
         else alter_range first n st p fl)
   }"

definition alterEntryRangeState :: "nat \<Rightarrow> nat \<Rightarrow> u32 \<Rightarrow> page \<Rightarrow> cchanflash \<Rightarrow> result" where
  "alterEntryRangeState first end' st p fl =
     (if end' \<le> ENTRY_COUNT \<and> end' > first then alter_range first (end' - first) st p fl else None)"

definition alterPageState :: "u32 \<Rightarrow> page \<Rightarrow> cchanflash \<Rightarrow> result" where
  "alterPageState st p fl = do {
     (rc, fl) \<leftarrow> flash_write (mBaseAddress p) (le32_bytes st) fl;
     if rc \<noteq> ESP_OK then Some (rc, p\<lparr>mState := INVALID\<rparr>, fl) else Some (ESP_OK, p\<lparr>mState := st\<rparr>, fl)
   }"

definition initialize :: "crc32_le \<Rightarrow> page \<Rightarrow> cchanflash \<Rightarrow> result" where
  "initialize crc p fl =
     (if mState p \<noteq> UNINITIALIZED then None
      else
        let p = p\<lparr>mState := ACTIVE\<rparr>;
            h = header_bytes (mState p) (mSeqNumber p) (mVersion p)
        in do {
             (rc, fl) \<leftarrow> flash_write (mBaseAddress p) (h @ le32_bytes (header_crc32 crc h)) fl;
             if rc \<noteq> ESP_OK then Some (rc, p\<lparr>mState := INVALID\<rparr>, fl)
             else Some (ESP_OK, p\<lparr>mNextFreeEntry := 0, mEntryTable := replicate 8 0xffffffff\<rparr>, fl)
           })"

section \<open>Writing\<close>

definition writeEntry :: "Item \<Rightarrow> page \<Rightarrow> cchanflash \<Rightarrow> result" where
  "writeEntry it p fl = do {
     a \<leftarrow> getEntryAddress p (mNextFreeEntry p);
     (err, fl) \<leftarrow> flash_write a it fl;
     if err \<noteq> ESP_OK then Some (err, p\<lparr>mState := INVALID\<rparr>, fl)
     else do {
       (err, p, fl) \<leftarrow> alterEntryState (mNextFreeEntry p) WRITTEN p fl;
       if err \<noteq> ESP_OK then Some (err, p, fl)
       else
         let p = (if mFirstUsedEntry p = INVALID_ENTRY then p\<lparr>mFirstUsedEntry := mNextFreeEntry p\<rparr> else p)
         in Some (ESP_OK, p\<lparr>mUsedEntryCount := mUsedEntryCount p + 1,
                           mNextFreeEntry := size_add (mNextFreeEntry p) 1\<rparr>, fl)
     }
   }"

definition writeEntryData :: "u8 list \<Rightarrow> nat \<Rightarrow> page \<Rightarrow> cchanflash \<Rightarrow> result" where
  "writeEntryData data len p fl =
     (if len mod ENTRY_SIZE \<noteq> 0 \<or> mNextFreeEntry p = INVALID_ENTRY \<or> mFirstUsedEntry p = INVALID_ENTRY then None
      else do {
        a \<leftarrow> getEntryAddress p (mNextFreeEntry p);
        (rc, fl) \<leftarrow> spi_flash_write (unat a) data len fl;
        if rc \<noteq> ESP_OK then Some (rc, p\<lparr>mState := INVALID\<rparr>, fl)
        else
          let count = (len div ENTRY_SIZE) mod 2 ^ 16
          in do {
               (err, p, fl) \<leftarrow> alterEntryRangeState (mNextFreeEntry p) (mNextFreeEntry p + count) WRITTEN p fl;
               if err \<noteq> ESP_OK then Some (err, p, fl)
               else Some (ESP_OK, p\<lparr>mUsedEntryCount := mUsedEntryCount p + of_nat count,
                                   mNextFreeEntry := size_add (mNextFreeEntry p) count\<rparr>, fl)
             }
      })"

text \<open>The two ways to write the value, after the first item has been prepared\<close>

definition write_primitive :: "crc32_le \<Rightarrow> Item \<Rightarrow> u8 list \<Rightarrow> nat \<Rightarrow> page \<Rightarrow> cchanflash \<Rightarrow> result" where
  "write_primitive crc it data dataSize p fl = do {
     bs \<leftarrow> mem_bytes data dataSize;
     d \<leftarrow> mem_write (data_of it) 0 bs;
     writeEntry (seal crc (set_field 24 d it)) p fl
   }"

definition var_item :: "crc32_le \<Rightarrow> Item \<Rightarrow> u8 list \<Rightarrow> Item" where
  "var_item crc it value = seal crc
     (set_field 26 (le16_bytes 0xffff)
       (set_field 24 (le16_bytes (of_nat (length value)))
         (set_field 28 (le32_bytes (data_crc32 crc value)) it)))"

definition write_tail :: "u8 list \<Rightarrow> page \<Rightarrow> cchanflash \<Rightarrow> result" where
  "write_tail tail p fl =
     (if tail \<noteq> [] then writeEntry (tail @ replicate (32 - length tail) 0xff) p fl else Some (ESP_OK, p, fl))"

definition write_variable :: "crc32_le \<Rightarrow> Item \<Rightarrow> u8 list \<Rightarrow> nat \<Rightarrow> page \<Rightarrow> cchanflash \<Rightarrow> result" where
  "write_variable crc it data dataSize p fl = do {
     value \<leftarrow> mem_bytes data dataSize;
     (err, p, fl) \<leftarrow> writeEntry (var_item crc it value) p fl;
     if err \<noteq> ESP_OK then Some (err, p, fl)
     else
       let left = dataSize div ENTRY_SIZE * ENTRY_SIZE
       in do {
            (err, p, fl) \<leftarrow> (if left > 0 then writeEntryData value left p fl else Some (ESP_OK, p, fl));
            if err \<noteq> ESP_OK then Some (err, p, fl) else write_tail (drop left value) p fl
          }
   }"

text \<open>\<open>strlen(key)\<close> is the length of \<open>key\<close>.\<close>

definition writeItem ::
  "crc32_le \<Rightarrow> u8 \<Rightarrow> u8 \<Rightarrow> u8 list \<Rightarrow> u8 list \<Rightarrow> nat \<Rightarrow> u8 \<Rightarrow> page \<Rightarrow> cchanflash \<Rightarrow> result" where
  "writeItem crc ns ty key data dataSize chunkIdx p fl =
     (if mState p = INVALID then Some (ESP_ERR_NVS_INVALID_STATE, p, fl)
      else do {
        (err, p, fl) \<leftarrow> (if mState p = UNINITIALIZED then initialize crc p fl else Some (ESP_OK, p, fl));
        if err \<noteq> ESP_OK then Some (err, p, fl)
        else if mState p = FULL then Some (ESP_ERR_NVS_PAGE_FULL, p, fl)
        else if length key > MAX_KEY_LENGTH then Some (ESP_ERR_NVS_KEY_TOO_LONG, p, fl)
        else if dataSize > CHUNK_MAX_SIZE then Some (ESP_ERR_NVS_VALUE_TOO_LONG, p, fl)
        else
          let roundedSize = (dataSize + ENTRY_SIZE - 1) div ENTRY_SIZE * ENTRY_SIZE;
              totalSize = (if isVariableLengthType ty then ENTRY_SIZE + roundedSize else ENTRY_SIZE);
              entriesCount = (if isVariableLengthType ty then 1 + roundedSize div ENTRY_SIZE else 1)
          in if mNextFreeEntry p = INVALID_ENTRY \<or> mNextFreeEntry p + entriesCount > ENTRY_COUNT
             then Some (ESP_ERR_NVS_PAGE_FULL, p, fl)
             else
               let span = (totalSize + ENTRY_SIZE - 1) div ENTRY_SIZE;
                   it = make_item ns ty (of_nat span) (Some key) chunkIdx;
                   p = p\<lparr>mHashList := hash_insert crc it (mNextFreeEntry p) (mHashList p)\<rparr>
               in if isVariableLengthType ty then write_variable crc it data dataSize p fl
                  else write_primitive crc it data dataSize p fl
      })"

section \<open>Erasing an entry\<close>

text \<open>The loop that adjusts the counters, from the last entry of the span down to the first\<close>

fun count_erased :: "nat \<Rightarrow> nat \<Rightarrow> page \<Rightarrow> page option" where
  "count_erased index 0 p = Some p"
| "count_erased index (Suc n) p = do {
     st \<leftarrow> entry_get (mEntryTable p) (index + n);
     (let p = (if st = WRITTEN then p\<lparr>mUsedEntryCount := mUsedEntryCount p - 1\<rparr> else p)
      in count_erased index n (p\<lparr>mErasedEntryCount := mErasedEntryCount p + 1\<rparr>))
   }"

fun first_written :: "u32 list \<Rightarrow> nat list \<Rightarrow> nat option option" where
  "first_written table [] = Some None"
| "first_written table (i # is) = do {
     st \<leftarrow> entry_get table i;
     if st = WRITTEN then Some (Some i) else first_written table is
   }"

definition updateFirstUsedEntry :: "nat \<Rightarrow> nat \<Rightarrow> page \<Rightarrow> page option" where
  "updateFirstUsedEntry index span p =
     (if index \<noteq> mFirstUsedEntry p then None
      else
        let end' = min (mNextFreeEntry p) ENTRY_COUNT
        in do {
             found \<leftarrow> first_written (mEntryTable p) [index + span..<end'];
             Some (p\<lparr>mFirstUsedEntry := (case found of None \<Rightarrow> INVALID_ENTRY | Some i \<Rightarrow> i)\<rparr>)
           })"

definition after_erase :: "nat \<Rightarrow> nat \<Rightarrow> page \<Rightarrow> cchanflash \<Rightarrow> result" where
  "after_erase index span p fl = do {
     p \<leftarrow> (if index = mFirstUsedEntry p then updateFirstUsedEntry index span p else Some p);
     Some (ESP_OK, (if index + span > mNextFreeEntry p then p\<lparr>mNextFreeEntry := index + span\<rparr> else p), fl)
   }"

definition erase_damaged :: "nat \<Rightarrow> page \<Rightarrow> cchanflash \<Rightarrow> result" where
  "erase_damaged index p fl = do {
     hl \<leftarrow> hash_erase index False (mHashList p);
     (rc, p, fl) \<leftarrow> alterEntryState index ERASED (p\<lparr>mHashList := hl\<rparr>) fl;
     (let p = p\<lparr>mUsedEntryCount := mUsedEntryCount p - 1, mErasedEntryCount := mErasedEntryCount p + 1\<rparr>
      in if rc \<noteq> ESP_OK then Some (rc, p, fl) else after_erase index 1 p fl)
   }"

definition erase_item_at :: "nat \<Rightarrow> nat \<Rightarrow> page \<Rightarrow> cchanflash \<Rightarrow> result" where
  "erase_item_at index span p fl = do {
     hl \<leftarrow> hash_erase index True (mHashList p);
     p \<leftarrow> count_erased index span (p\<lparr>mHashList := hl\<rparr>);
     (rc, p, fl) \<leftarrow> (if span = 1 then alterEntryState index ERASED p fl
                    else alterEntryRangeState index (index + span) ERASED p fl);
     if rc \<noteq> ESP_OK then Some (rc, p, fl) else after_erase index span p fl
   }"

definition eraseEntryAndSpan :: "crc32_le \<Rightarrow> nat \<Rightarrow> page \<Rightarrow> cchanflash \<Rightarrow> result" where
  "eraseEntryAndSpan crc index p fl = do {
     st \<leftarrow> entry_get (mEntryTable p) index;
     if st = WRITTEN then do {
       (rc, it, fl) \<leftarrow> readEntry index p fl;
       if rc \<noteq> ESP_OK then Some (rc, p, fl)
       else if calculateCrc32 crc it \<noteq> crc32 it then erase_damaged index p fl
       else erase_item_at index (unat (span_of it)) p fl
     }
     else if st = EMPTY then do {
       (rc, p, fl) \<leftarrow> alterEntryState index ERASED p fl;
       if rc \<noteq> ESP_OK then Some (rc, p, fl) else after_erase index 1 p fl
     }
     else None
   }"

section \<open>Finding\<close>

text \<open>\<open>strncmp(a, b, n) == 0\<close> for strings that end at the first zero or at the end of the list\<close>

definition strncmp_eq :: "nat \<Rightarrow> u8 list \<Rightarrow> u8 list \<Rightarrow> bool" where
  "strncmp_eq n a b \<longleftrightarrow> takeWhile (\<lambda>c. c \<noteq> 0) (take n a) = takeWhile (\<lambda>c. c \<noteq> 0) (take n b)"

definition passed_over :: "u8 \<Rightarrow> u8 \<Rightarrow> cstr \<Rightarrow> u8 \<Rightarrow> u8 \<Rightarrow> Item \<Rightarrow> bool" where
  "passed_over ns ty key chunkIdx chunkStart it \<longleftrightarrow>
     ns \<noteq> NS_ANY \<and> nsIndex it \<noteq> ns \<or>
     (case key of None \<Rightarrow> False | Some k \<Rightarrow> \<not> strncmp_eq MAX_KEY_LENGTH k (key_of it)) \<or>
     chunkIdx \<noteq> CHUNK_ANY \<and> ty = TYPE_BLOB_DATA \<and> chunkIndex it \<noteq> chunkIdx \<or>
     ty = TYPE_BLOB_IDX \<and> chunkIndex it \<noteq> CHUNK_ANY \<or>
     ty = TYPE_BLOB_IDX \<and> chunkStart \<noteq> VER_ANY \<and> blob_chunkStart it \<noteq> chunkStart"

text \<open>A type other than the one asked for goes on only in a search by brute force for blob indices.\<close>

definition wrong_type :: "u8 \<Rightarrow> Item \<Rightarrow> bool" where
  "wrong_type ty it \<longleftrightarrow> ty \<noteq> TYPE_ANY \<and> datatype_of it \<noteq> ty"

definition brute_force :: "u8 \<Rightarrow> cstr \<Rightarrow> u8 \<Rightarrow> bool" where
  "brute_force ns key chunkIdx \<longleftrightarrow> key = None \<and> ns = NS_ANY \<and> chunkIdx = CHUNK_ANY"

type_synonym found = "(esp_err_t \<times> nat \<times> Item \<times> page \<times> cchanflash) option"

text \<open>
  The loop of \<open>findItem\<close>.  An item of variable length with span zero that is passed over is read for ever, which is
  \<open>None\<close>.  \<open>idx\<close> and \<open>it\<close> are the reference arguments.
\<close>

function find_loop ::
  "crc32_le \<Rightarrow> u8 \<Rightarrow> u8 \<Rightarrow> cstr \<Rightarrow> u8 \<Rightarrow> u8 \<Rightarrow> nat \<Rightarrow> nat \<Rightarrow> nat \<Rightarrow> Item \<Rightarrow> page \<Rightarrow> cchanflash \<Rightarrow> found" where
  "find_loop crc ns ty key chunkIdx chunkStart i end' idx it p fl =
     (if i < end' then do {
        st \<leftarrow> entry_get (mEntryTable p) i;
        if st \<noteq> WRITTEN then find_loop crc ns ty key chunkIdx chunkStart (i + 1) end' idx it p fl
        else do {
          (rc, it, fl) \<leftarrow> readEntry i p fl;
          if rc \<noteq> ESP_OK then Some (rc, idx, it, p\<lparr>mState := INVALID\<rparr>, fl)
          else if crc32 it \<noteq> calculateCrc32 crc it then do {
            (rc, p, fl) \<leftarrow> eraseEntryAndSpan crc i p fl;
            if rc \<noteq> ESP_OK then Some (rc, idx, it, p\<lparr>mState := INVALID\<rparr>, fl)
            else find_loop crc ns ty key chunkIdx chunkStart (i + 1) end' idx it p fl
          }
          else
            let next = (if isVariableLengthType (datatype_of it) then i + unat (span_of it) else i + 1)
            in if passed_over ns ty key chunkIdx chunkStart it \<or> wrong_type ty it \<and> brute_force ns key chunkIdx then
                 if next = i then None else find_loop crc ns ty key chunkIdx chunkStart next end' idx it p fl
               else if wrong_type ty it then Some (ESP_ERR_NVS_TYPE_MISMATCH, idx, it, p, fl)
               else Some (ESP_OK, i, it, p, fl)
        }
      }
      else Some (ESP_ERR_NVS_NOT_FOUND, idx, it, p, fl))"
  by pat_completeness auto
termination
  by (relation "measure (\<lambda>(crc, ns, ty, key, c, v, i, e, idx, it, p, fl). e - i)") (auto split: if_splits)

declare find_loop.simps [simp del]

definition findItem ::
  "crc32_le \<Rightarrow> u8 \<Rightarrow> u8 \<Rightarrow> cstr \<Rightarrow> nat \<Rightarrow> Item \<Rightarrow> u8 \<Rightarrow> u8 \<Rightarrow> page \<Rightarrow> cchanflash \<Rightarrow> found" where
  "findItem crc ns ty key itemIndex it chunkIdx chunkStart p fl =
     (if mState p = CORRUPT \<or> mState p = INVALID \<or> mState p = UNINITIALIZED
      then Some (ESP_ERR_NVS_NOT_FOUND, itemIndex, it, p, fl)
      else if itemIndex \<ge> ENTRY_COUNT then Some (ESP_ERR_NVS_NOT_FOUND, itemIndex, it, p, fl)
      else
        let start = (if itemIndex > mFirstUsedEntry p then itemIndex else mFirstUsedEntry p);
            end' = min (mNextFreeEntry p) ENTRY_COUNT
        in case key of
             Some k \<Rightarrow>
               if ns \<noteq> NS_ANY \<and> ty \<noteq> TYPE_ANY then
                 (let cachedIndex = hash_find crc start (make_item ns ty 0 (Some k) chunkIdx) (mHashList p)
                  in if cachedIndex < ENTRY_COUNT
                     then find_loop crc ns ty key chunkIdx chunkStart cachedIndex end' itemIndex it p fl
                     else Some (ESP_ERR_NVS_NOT_FOUND, itemIndex, it, p, fl))
               else find_loop crc ns ty key chunkIdx chunkStart start end' itemIndex it p fl
           | None \<Rightarrow> find_loop crc ns ty key chunkIdx chunkStart start end' itemIndex it p fl)"

text \<open>A local \<open>Item\<close> that has not been read yet\<close>

definition no_item :: Item where
  "no_item = replicate 32 0"

definition eraseItem :: "crc32_le \<Rightarrow> u8 \<Rightarrow> u8 \<Rightarrow> cstr \<Rightarrow> u8 \<Rightarrow> u8 \<Rightarrow> page \<Rightarrow> cchanflash \<Rightarrow> result" where
  "eraseItem crc ns ty key chunkIdx chunkStart p fl = do {
     (rc, index, _, p, fl) \<leftarrow> findItem crc ns ty key 0 no_item chunkIdx chunkStart p fl;
     if rc \<noteq> ESP_OK then Some (rc, p, fl) else eraseEntryAndSpan crc index p fl
   }"

section \<open>Reading and comparing\<close>

definition getAlignmentForType :: "u8 \<Rightarrow> nat" where
  "getAlignmentForType ty = unat (ty AND 0x0f)"

text \<open>The loop over the data entries; \<open>dst\<close> is the buffer, \<open>off\<close> the position in it.\<close>

fun read_data :: "nat list \<Rightarrow> u8 list \<Rightarrow> nat \<Rightarrow> nat \<Rightarrow> page \<Rightarrow> cchanflash \<Rightarrow> (esp_err_t \<times> u8 list \<times> cchanflash) option" where
  "read_data [] dst off left p fl = Some (ESP_OK, dst, fl)"
| "read_data (i # is) dst off left p fl = do {
     (rc, ditem, fl) \<leftarrow> readEntry i p fl;
     if rc \<noteq> ESP_OK then Some (rc, dst, fl)
     else
       let willCopy = min left ENTRY_SIZE
       in do {
            dst \<leftarrow> mem_write dst off (take willCopy ditem);
            read_data is dst (off + willCopy) (left - willCopy) p fl
          }
   }"

definition readItem ::
  "crc32_le \<Rightarrow> u8 \<Rightarrow> u8 \<Rightarrow> cstr \<Rightarrow> u8 list \<Rightarrow> nat \<Rightarrow> u8 \<Rightarrow> u8 \<Rightarrow> page \<Rightarrow> cchanflash \<Rightarrow>
     (esp_err_t \<times> u8 list \<times> page \<times> cchanflash) option" where
  "readItem crc ns ty key data dataSize chunkIdx chunkStart p fl =
     (if mState p = INVALID then Some (ESP_ERR_NVS_INVALID_STATE, data, p, fl)
      else do {
        (rc, index, it, p, fl) \<leftarrow> findItem crc ns ty key 0 no_item chunkIdx chunkStart p fl;
        if rc \<noteq> ESP_OK then Some (rc, data, p, fl)
        else if \<not> isVariableLengthType ty then
          if dataSize \<noteq> getAlignmentForType ty then Some (ESP_ERR_NVS_TYPE_MISMATCH, data, p, fl)
          else do {
            bs \<leftarrow> mem_bytes (data_of it) dataSize;
            data \<leftarrow> mem_write data 0 bs;
            Some (ESP_OK, data, p, fl)
          }
        else
          let size = unat (var_dataSize it)
          in if dataSize < size then Some (ESP_ERR_NVS_INVALID_LENGTH, data, p, fl)
             else do {
               (rc, data, fl) \<leftarrow> read_data [index + 1..<index + unat (span_of it)] data 0 size p fl;
               if rc \<noteq> ESP_OK then Some (rc, data, p, fl)
               else do {
                 bs \<leftarrow> mem_bytes data size;
                 if data_crc32 crc bs \<noteq> var_dataCrc32 it then do {
                   (rc, p, fl) \<leftarrow> eraseEntryAndSpan crc index p fl;
                   Some (if rc \<noteq> ESP_OK then rc else ESP_ERR_NVS_NOT_FOUND, data, p, fl)
                 }
                 else Some (ESP_OK, data, p, fl)
               }
             }
      })"

fun cmp_data :: "nat list \<Rightarrow> u8 list \<Rightarrow> nat \<Rightarrow> nat \<Rightarrow> page \<Rightarrow> cchanflash \<Rightarrow> (esp_err_t \<times> cchanflash) option" where
  "cmp_data [] data off left p fl = Some (ESP_OK, fl)"
| "cmp_data (i # is) data off left p fl = do {
     (rc, ditem, fl) \<leftarrow> readEntry i p fl;
     if rc \<noteq> ESP_OK then Some (rc, fl)
     else
       let willCopy = min left ENTRY_SIZE
       in do {
            bs \<leftarrow> mem_bytes (drop off data) willCopy;
            if bs \<noteq> take willCopy ditem then Some (ESP_ERR_NVS_CONTENT_DIFFERS, fl)
            else cmp_data is data (off + willCopy) (left - willCopy) p fl
          }
   }"

definition cmpItem ::
  "crc32_le \<Rightarrow> u8 \<Rightarrow> u8 \<Rightarrow> cstr \<Rightarrow> u8 list \<Rightarrow> nat \<Rightarrow> u8 \<Rightarrow> u8 \<Rightarrow> page \<Rightarrow> cchanflash \<Rightarrow> result" where
  "cmpItem crc ns ty key data dataSize chunkIdx chunkStart p fl =
     (if mState p = INVALID then Some (ESP_ERR_NVS_INVALID_STATE, p, fl)
      else do {
        (rc, index, it, p, fl) \<leftarrow> findItem crc ns ty key 0 no_item chunkIdx chunkStart p fl;
        if rc \<noteq> ESP_OK then Some (rc, p, fl)
        else if \<not> isVariableLengthType ty then
          if dataSize \<noteq> getAlignmentForType ty then Some (ESP_ERR_NVS_TYPE_MISMATCH, p, fl)
          else do {
            a \<leftarrow> mem_bytes data dataSize;
            b \<leftarrow> mem_bytes (data_of it) dataSize;
            Some (if a \<noteq> b then ESP_ERR_NVS_CONTENT_DIFFERS else ESP_OK, p, fl)
          }
        else
          let size = unat (var_dataSize it)
          in if dataSize < size then Some (ESP_ERR_NVS_INVALID_LENGTH, p, fl)
             else do {
               (rc, fl) \<leftarrow> cmp_data [index + 1..<index + unat (span_of it)] data 0 size p fl;
               if rc \<noteq> ESP_OK then Some (rc, p, fl)
               else do {
                 bs \<leftarrow> mem_bytes data size;
                 Some (if data_crc32 crc bs \<noteq> var_dataCrc32 it then ESP_ERR_NVS_NOT_FOUND else ESP_OK, p, fl)
               }
             }
      })"

section \<open>Moving the items to another page\<close>

text \<open>The entries after the first of an item; the result of reading them is not looked at.\<close>

fun copy_span :: "nat list \<Rightarrow> page \<Rightarrow> page \<Rightarrow> cchanflash \<Rightarrow> result" where
  "copy_span [] p other fl = Some (ESP_OK, other, fl)"
| "copy_span (i # is) p other fl = do {
     (_, entry, fl) \<leftarrow> readEntry i p fl;
     (err, other, fl) \<leftarrow> writeEntry entry other fl;
     if err \<noteq> ESP_OK then Some (err, other, fl) else copy_span is p other fl
   }"

text \<open>With a span of zero the loop writes the same entry until an assertion of \<open>other\<close> fails.\<close>

function copy_loop :: "crc32_le \<Rightarrow> nat \<Rightarrow> page \<Rightarrow> page \<Rightarrow> cchanflash \<Rightarrow> result" where
  "copy_loop crc i p other fl =
     (if i < ENTRY_COUNT then do {
        st \<leftarrow> entry_get (mEntryTable p) i;
        if st \<noteq> WRITTEN then
          if i = mFirstUsedEntry p then None else copy_loop crc (i + 1) p other fl
        else do {
          (err, entry, fl) \<leftarrow> readEntry i p fl;
          if err \<noteq> ESP_OK then Some (err, other, fl)
          else do {
            (err, other, fl) \<leftarrow> writeEntry entry
              (other\<lparr>mHashList := hash_insert crc entry (mNextFreeEntry other) (mHashList other)\<rparr>) fl;
            if err \<noteq> ESP_OK then Some (err, other, fl)
            else
              let end' = i + unat (span_of entry)
              in if end' > ENTRY_COUNT \<or> end' = i then None
                 else do {
                   (err, other, fl) \<leftarrow> copy_span [i + 1..<end'] p other fl;
                   if err \<noteq> ESP_OK then Some (err, other, fl) else copy_loop crc end' p other fl
                 }
          }
        }
      }
      else Some (ESP_OK, other, fl))"
  by pat_completeness auto
termination
  by (relation "measure (\<lambda>(crc, i, p, other, fl). ENTRY_COUNT - i)") auto

declare copy_loop.simps [simp del]

definition copyItems :: "crc32_le \<Rightarrow> page \<Rightarrow> page \<Rightarrow> cchanflash \<Rightarrow> result" where
  "copyItems crc p other fl =
     (if mFirstUsedEntry p = INVALID_ENTRY then Some (ESP_ERR_NVS_NOT_FOUND, other, fl)
      else do {
        (err, other, fl) \<leftarrow> (if mState other = UNINITIALIZED then initialize crc other fl
                            else Some (ESP_OK, other, fl));
        if err \<noteq> ESP_OK then Some (err, other, fl) else copy_loop crc (mFirstUsedEntry p) p other fl
      })"

section \<open>Loading\<close>

text \<open>The counters and the first used entry from the table\<close>

fun count_entries :: "nat list \<Rightarrow> page \<Rightarrow> page option" where
  "count_entries [] p = Some p"
| "count_entries (i # is) p = do {
     st \<leftarrow> entry_get (mEntryTable p) i;
     count_entries is
       (if st = WRITTEN then
          p\<lparr>mFirstUsedEntry := (if mFirstUsedEntry p = INVALID_ENTRY then i else mFirstUsedEntry p),
            mUsedEntryCount := mUsedEntryCount p + 1\<rparr>
        else if st = ERASED then p\<lparr>mErasedEntryCount := mErasedEntryCount p + 1\<rparr>
        else p)
   }"

fun first_empty :: "nat list \<Rightarrow> page \<Rightarrow> page option" where
  "first_empty [] p = Some p"
| "first_empty (i # is) p = do {
     st \<leftarrow> entry_get (mEntryTable p) i;
     if st = EMPTY then Some (p\<lparr>mNextFreeEntry := i\<rparr>) else first_empty is p
   }"

text \<open>Entries that were begun and not marked before the power failed\<close>

function erase_begun :: "nat \<Rightarrow> page \<Rightarrow> cchanflash \<Rightarrow> result" where
  "erase_begun i p fl =
     (if i < ENTRY_COUNT then do {
        a \<leftarrow> getEntryAddress p i;
        (rc, header, fl) \<leftarrow> flash_read a 4 fl;
        if rc \<noteq> ESP_OK then Some (rc, p\<lparr>mNextFreeEntry := i, mState := INVALID\<rparr>, fl)
        else if header \<noteq> replicate 4 0xff then do {
          oldState \<leftarrow> entry_get (mEntryTable p) i;
          (err, p, fl) \<leftarrow> alterEntryState i ERASED p fl;
          if err \<noteq> ESP_OK then Some (err, p\<lparr>mNextFreeEntry := i, mState := INVALID\<rparr>, fl)
          else erase_begun (i + 1)
            (p\<lparr>mUsedEntryCount := mUsedEntryCount p - (if oldState = WRITTEN then 1 else 0),
               mErasedEntryCount := mErasedEntryCount p + 1\<rparr>) fl
        }
        else Some (ESP_OK, p\<lparr>mNextFreeEntry := i\<rparr>, fl)
      }
      else Some (ESP_OK, p\<lparr>mNextFreeEntry := i\<rparr>, fl))"
  by pat_completeness auto
termination
  by (relation "measure (\<lambda>(i, p, fl). ENTRY_COUNT - i)") auto

declare erase_begun.simps [simp del]

fun all_written :: "u32 list \<Rightarrow> nat list \<Rightarrow> bool option" where
  "all_written table [] = Some True"
| "all_written table (i # is) = do {
     st \<leftarrow> entry_get table i;
     if st \<noteq> WRITTEN then Some False else all_written table is
   }"

lemma not_all_written_pos:
  assumes "all_written t [i..<i + k] = Some False"
  shows "0 < k"
  using assms by (cases k) auto

text \<open>
  The loop that checks the items of an active page: damaged ones, ones that are not wholly written, and older ones of
  the same name are erased.  It returns the index of the last item that counts with the item read last.  An item of
  variable length with span zero that is complete is read for ever.
\<close>

function check_items ::
  "crc32_le \<Rightarrow> nat \<Rightarrow> nat \<Rightarrow> nat \<Rightarrow> Item \<Rightarrow> page \<Rightarrow> cchanflash \<Rightarrow> (esp_err_t \<times> nat \<times> Item \<times> page \<times> cchanflash) option"
where
  "check_items crc i end' lastItemIndex it p fl =
     (if i < end' then do {
        st \<leftarrow> entry_get (mEntryTable p) i;
        if st = ERASED then check_items crc (i + 1) end' INVALID_ENTRY it p fl
        else do {
          (err, it, fl) \<leftarrow> readEntry i p fl;
          if err \<noteq> ESP_OK then Some (err, i, it, p\<lparr>mState := INVALID\<rparr>, fl)
          else if crc32 it \<noteq> calculateCrc32 crc it then do {
            (err, p, fl) \<leftarrow> eraseEntryAndSpan crc i p fl;
            if err \<noteq> ESP_OK then Some (err, i, it, p\<lparr>mState := INVALID\<rparr>, fl)
            else check_items crc (i + 1) end' i it p fl
          }
          else
            let p = p\<lparr>mHashList := hash_insert crc it i (mHashList p)\<rparr>;
                duplicateIndex = hash_find crc 0 it (mHashList p);
                variable = isVariableLengthType (datatype_of it);
                span = (if variable then unat (span_of it) else 1)
            in do {
                 whole \<leftarrow> (if variable then all_written (mEntryTable p) [i..<i + span] else Some True);
                 if \<not> whole then do {
                   (_, p, fl) \<leftarrow> eraseEntryAndSpan crc i p fl;
                   check_items crc (i + span) end' INVALID_ENTRY it p fl
                 }
                 else do {
                   (_, p, fl) \<leftarrow> (if duplicateIndex < i then eraseEntryAndSpan crc duplicateIndex p fl
                                 else Some (ESP_OK, p, fl));
                   if span = 0 then None else check_items crc (i + span) end' i it p fl
                 }
               }
        }
      }
      else Some (ESP_OK, lastItemIndex, it, p, fl))"
  by pat_completeness auto
termination
  by (relation "measure (\<lambda>(crc, i, e, last, it, p, fl). e - i)")
    (auto split: if_splits dest!: not_all_written_pos)

declare check_items.simps [simp del]

definition key_string :: "Item \<Rightarrow> u8 list" where
  "key_string it = takeWhile (\<lambda>c. c \<noteq> 0) (key_of it)"

definition load_active :: "crc32_le \<Rightarrow> page \<Rightarrow> cchanflash \<Rightarrow> result" where
  "load_active crc p fl = do {
     p \<leftarrow> first_empty [0..<ENTRY_COUNT] p;
     (err, p, fl) \<leftarrow> (if mNextFreeEntry p < ENTRY_COUNT then erase_begun (mNextFreeEntry p) p fl
                     else Some (ESP_OK, p, fl));
     if err \<noteq> ESP_OK then Some (err, p, fl)
     else do {
       (err, lastItemIndex, it, p, fl) \<leftarrow>
         check_items crc 0 (min (mNextFreeEntry p) ENTRY_COUNT) INVALID_ENTRY no_item p fl;
       if err \<noteq> ESP_OK then Some (err, p, fl)
       else if lastItemIndex \<noteq> INVALID_ENTRY then do {
         (err, index, _, p, fl) \<leftarrow>
           findItem crc (nsIndex it) (datatype_of it) (Some (key_string it)) 0 no_item CHUNK_ANY VER_ANY p fl;
         if err = ESP_OK \<and> index < lastItemIndex then do {
           (err, p, fl) \<leftarrow> eraseEntryAndSpan crc index p fl;
           if err \<noteq> ESP_OK then Some (err, p\<lparr>mState := INVALID\<rparr>, fl) else Some (ESP_OK, p, fl)
         }
         else Some (ESP_OK, p, fl)
       }
       else Some (ESP_OK, p, fl)
     }
   }"

lemma later_is_nearer:
  assumes "i < n" "0 < (w :: u8)"
  shows "n - (i + unat w) < n - i"
  using assms unat_gt_0 [of w] by (simp add: word_neq_0_conv diff_less_mono2)

text \<open>A page that is full or being freed: the hash list is filled, damaged and incomplete items are erased.\<close>

function load_full :: "crc32_le \<Rightarrow> nat \<Rightarrow> page \<Rightarrow> cchanflash \<Rightarrow> result" where
  "load_full crc i p fl =
     (if i < ENTRY_COUNT then do {
        st \<leftarrow> entry_get (mEntryTable p) i;
        if st \<noteq> WRITTEN then load_full crc (i + 1) p fl
        else do {
          (err, it, fl) \<leftarrow> readEntry i p fl;
          if err \<noteq> ESP_OK then Some (err, p\<lparr>mState := INVALID\<rparr>, fl)
          else if crc32 it \<noteq> calculateCrc32 crc it then do {
            (err, p, fl) \<leftarrow> eraseEntryAndSpan crc i p fl;
            if err \<noteq> ESP_OK then Some (err, p\<lparr>mState := INVALID\<rparr>, fl) else load_full crc (i + 1) p fl
          }
          else if span_of it = 0 then None
          else
            let p = p\<lparr>mHashList := hash_insert crc it i (mHashList p)\<rparr>;
                span = unat (span_of it)
            in do {
                 whole \<leftarrow> (if isVariableLengthType (datatype_of it) then all_written (mEntryTable p) [i + 1..<i + span]
                           else Some True);
                 (_, p, fl) \<leftarrow> (if \<not> whole then eraseEntryAndSpan crc i p fl else Some (ESP_OK, p, fl));
                 load_full crc (i + span) p fl
               }
        }
      }
      else Some (ESP_OK, p, fl))"
  by pat_completeness auto
termination
  by (relation "measure (\<lambda>(crc, i, p, fl). ENTRY_COUNT - i)") (auto simp: word_neq_0_conv later_is_nearer)

declare load_full.simps [simp del]

definition mLoadEntryTable :: "crc32_le \<Rightarrow> page \<Rightarrow> cchanflash \<Rightarrow> result" where
  "mLoadEntryTable crc p fl = do {
     (rc, table, fl) \<leftarrow>
       (if mState p = ACTIVE \<or> mState p = FULL \<or> mState p = FREEING then do {
          (rc, bs, fl) \<leftarrow> flash_read (mBaseAddress p + ENTRY_TABLE_OFFSET) 32 fl;
          (ws, _) \<leftarrow> take_words 8 bs;
          Some (rc, ws, fl)
        }
        else Some (ESP_OK, mEntryTable p, fl));
     if rc \<noteq> ESP_OK then Some (rc, p\<lparr>mEntryTable := table, mState := INVALID\<rparr>, fl)
     else do {
       p \<leftarrow> count_entries [0..<ENTRY_COUNT] (p\<lparr>mEntryTable := table, mErasedEntryCount := 0, mUsedEntryCount := 0\<rparr>);
       if mState p = ACTIVE then load_active crc p fl
       else if mState p = FULL \<or> mState p = FREEING then load_full crc (mFirstUsedEntry p) p fl
       else Some (ESP_OK, p, fl)
     }
   }"

text \<open>Whether a page whose header is blank is blank altogether, in eight reads of 512 bytes\<close>

fun check_blank :: "nat \<Rightarrow> u32 \<Rightarrow> page \<Rightarrow> cchanflash \<Rightarrow> (esp_err_t \<times> page \<times> cchanflash) option" where
  "check_blank 0 i p fl = Some (ESP_OK, p, fl)"
| "check_blank (Suc n) i p fl = do {
     (rc, block, fl) \<leftarrow> flash_read (mBaseAddress p + i) 512 fl;
     if rc \<noteq> ESP_OK then Some (rc, p\<lparr>mState := INVALID\<rparr>, fl)
     else if list_ex (\<lambda>b. b \<noteq> 0xff) block then Some (ESP_OK, p\<lparr>mState := CORRUPT\<rparr>, fl)
     else check_blank n (i + 512) p fl
   }"

text \<open>A header whose checksum is wrong changes the state in the local header, not in the page.\<close>

definition load :: "crc32_le \<Rightarrow> u32 \<Rightarrow> page \<Rightarrow> cchanflash \<Rightarrow> result" where
  "load crc sectorNumber p fl =
     (let p = p\<lparr>mBaseAddress := sectorNumber * SEC_SIZE, mUsedEntryCount := 0, mErasedEntryCount := 0\<rparr>
      in do {
           (rc, h, fl) \<leftarrow> flash_read (mBaseAddress p) 32 fl;
           if rc \<noteq> ESP_OK then Some (rc, p\<lparr>mState := INVALID\<rparr>, fl)
           else
             let finish = (\<lambda>p fl.
                   if mState p = UNINITIALIZED then Some (ESP_OK, p, fl)
                   else if mState p = FULL \<or> mState p = ACTIVE \<or> mState p = FREEING then
                     map_option (\<lambda>(_, p, fl). (ESP_OK, p, fl)) (mLoadEntryTable crc p fl)
                   else Some (ESP_OK, p\<lparr>mState := CORRUPT\<rparr>, fl))
             in if word_field 0 h = UNINITIALIZED then do {
                  (rc, p, fl) \<leftarrow> check_blank 8 0 (p\<lparr>mState := UNINITIALIZED\<rparr>) fl;
                  if rc \<noteq> ESP_OK then Some (rc, p, fl) else finish p fl
                }
                else if word_field 28 h \<noteq> header_crc32 crc h then finish p fl
                else
                  let p = p\<lparr>mState := word_field 0 h, mSeqNumber := word_field 4 h\<rparr>
                  in if h ! 8 < NVS_VERSION then Some (ESP_ERR_NVS_NEW_VERSION_FOUND, p, fl)
                     else finish (p\<lparr>mVersion := h ! 8\<rparr>) fl
         })"

section \<open>The page as a whole\<close>

definition getSeqNumber :: "page \<Rightarrow> esp_err_t \<times> u32 option" where
  "getSeqNumber p =
     (if mState p \<noteq> UNINITIALIZED \<and> mState p \<noteq> INVALID \<and> mState p \<noteq> CORRUPT
      then (ESP_OK, Some (mSeqNumber p)) else (ESP_ERR_NVS_NOT_INITIALIZED, None))"

definition setSeqNumber :: "u32 \<Rightarrow> page \<Rightarrow> esp_err_t \<times> page" where
  "setSeqNumber n p =
     (if mState p \<noteq> UNINITIALIZED then (ESP_ERR_NVS_INVALID_STATE, p) else (ESP_OK, p\<lparr>mSeqNumber := n\<rparr>))"

definition setVersion :: "u8 \<Rightarrow> page \<Rightarrow> esp_err_t \<times> page" where
  "setVersion v p =
     (if mState p \<noteq> UNINITIALIZED then (ESP_ERR_NVS_INVALID_STATE, p) else (ESP_OK, p\<lparr>mVersion := v\<rparr>))"

definition erase_page :: "page \<Rightarrow> cchanflash \<Rightarrow> result" where
  "erase_page p fl = do {
     (rc, fl) \<leftarrow> spi_flash_erase_sector (unat (mBaseAddress p div SEC_SIZE)) fl;
     if rc \<noteq> ESP_OK then Some (rc, p\<lparr>mState := INVALID\<rparr>, fl)
     else Some (ESP_OK, p\<lparr>mUsedEntryCount := 0, mErasedEntryCount := 0, mFirstUsedEntry := INVALID_ENTRY,
                        mNextFreeEntry := INVALID_ENTRY, mState := UNINITIALIZED, mHashList := []\<rparr>, fl)
   }"

definition markFreeing :: "page \<Rightarrow> cchanflash \<Rightarrow> result" where
  "markFreeing p fl =
     (if mState p \<noteq> FULL \<and> mState p \<noteq> ACTIVE then Some (ESP_ERR_NVS_INVALID_STATE, p, fl)
      else alterPageState FREEING p fl)"

definition markFull :: "page \<Rightarrow> cchanflash \<Rightarrow> result" where
  "markFull p fl =
     (if mState p \<noteq> ACTIVE then Some (ESP_ERR_NVS_INVALID_STATE, p, fl) else alterPageState FULL p fl)"

definition getVarDataTailroom :: "page \<Rightarrow> nat" where
  "getVarDataTailroom p =
     (if mState p = UNINITIALIZED then CHUNK_MAX_SIZE
      else if mState p = FULL then 0
      else if mNextFreeEntry p < ENTRY_COUNT - 1 then (ENTRY_COUNT - mNextFreeEntry p - 1) * ENTRY_SIZE else 0)"

record nvs_stats_t =
  used_entries :: nat
  free_entries :: nat
  total_entries :: nat
  namespace_count :: nat

text \<open>The difference with the 16-bit counter is an \<open>int\<close> added to a \<open>size_t\<close>.\<close>

definition calcEntries :: "page \<Rightarrow> nvs_stats_t \<Rightarrow> (esp_err_t \<times> nvs_stats_t) option" where
  "calcEntries p st =
     (if mState p = FREEING then None
      else
        let st = st\<lparr>total_entries := size_add (total_entries st) ENTRY_COUNT\<rparr>;
            used = unat (mUsedEntryCount p)
        in if mState p = UNINITIALIZED \<or> mState p = CORRUPT then
             Some (ESP_OK, st\<lparr>free_entries := size_add (free_entries st) ENTRY_COUNT\<rparr>)
           else if mState p = FULL \<or> mState p = ACTIVE then
             Some (ESP_OK, st\<lparr>used_entries := size_add (used_entries st) used,
                            free_entries := size_add (free_entries st) (size_sub ENTRY_COUNT used)\<rparr>)
           else if mState p = INVALID then Some (ESP_ERR_INVALID_STATE, st)
           else None)"

end
