(* ===== verification/Flash_Laws.thy ===== *)
theory Flash_Laws
  imports Spi_Flash
begin

text \<open>
  What the driver of the flash and the module under it guarantee together.  The first part shows where
  an address is kept: ranges made of whole sectors give every sector, page and word a cell of its own.  The
  second follows a request through the text of the channel.  On this rests the abstract view, the word that is
  stored at an address, and what erasing, writing and reading do to it; clients of the
  driver see it as the interface \<open>word_store\<close>.
\<close>

section \<open>Where an address is kept\<close>

abbreviation range_lo :: "cchanflash \<Rightarrow> nat \<Rightarrow> nat" where "range_lo s r \<equiv> unat (rangestart s ! r)"
abbreviation range_hi :: "cchanflash \<Rightarrow> nat \<Rightarrow> nat" where "range_hi s r \<equiv> unat (rangeend s ! r)"
abbreviation range_first :: "cchanflash \<Rightarrow> nat \<Rightarrow> nat" where "range_first s r \<equiv> unat (secstart s ! r)"

text \<open>The ranges are made of whole sectors and in order, and so are the sectors they are kept in.\<close>

definition range_ok :: "cchanflash \<Rightarrow> nat \<Rightarrow> bool" where
  "range_ok s r \<longleftrightarrow> 4096 dvd range_lo s r \<and> 4096 dvd range_hi s r + 1 \<and> range_lo s r < range_hi s r"

definition range_next :: "cchanflash \<Rightarrow> nat \<Rightarrow> nat" where
  "range_next s r = range_first s r + (range_hi s r + 1 - range_lo s r) div 4096"

definition layout_ok :: "cchanflash \<Rightarrow> bool" where
  "layout_ok s \<longleftrightarrow>
     length (rangeend s) = length (rangestart s) \<and> length (secstart s) = length (rangestart s) \<and>
     secs s \<noteq> [] \<and> length (secs s) \<le> 2 ^ 20 \<and> length (pgm s) = 16 * length (secs s) \<and>
     (\<forall>r < length (rangestart s). range_ok s r \<and> range_next s r \<le> length (secs s)) \<and>
     (\<forall>q < length (rangestart s). \<forall>r < q. range_hi s r < range_lo s q \<and> range_next s r \<le> range_first s q)"

definition in_range :: "cchanflash \<Rightarrow> nat \<Rightarrow> u32 \<Rightarrow> bool" where
  "in_range s r a \<longleftrightarrow> r < length (rangestart s) \<and> range_lo s r \<le> unat a \<and> unat a \<le> range_hi s r"

lemma scan_ranges_SomeD:
  "scan_ranges rs k a = Some r \<Longrightarrow>
     k \<le> r \<and> r - k < length rs \<and> fst (rs ! (r - k)) \<le> a \<and> a \<le> snd (rs ! (r - k))"
proof (induction rs k a rule: scan_ranges.induct)
  case (2 x e rs k a)
  show ?case
  proof (cases "a \<le> e")
    case False
    then have "k + 1 \<le> r \<and> r - (k + 1) < length rs \<and> fst (rs ! (r - (k + 1))) \<le> a \<and> a \<le> snd (rs ! (r - (k + 1)))"
      using 2 by (auto split: if_splits)
    moreover from this have "r - k = Suc (r - (k + 1))" by linarith
    ultimately show ?thesis by simp
  qed (use 2 in \<open>auto split: if_splits\<close>)
qed simp

lemma scan_ranges_find:
  "i < length rs \<Longrightarrow> fst (rs ! i) \<le> a \<Longrightarrow> a \<le> snd (rs ! i) \<Longrightarrow>
   (\<And>j. j < i \<Longrightarrow> fst (rs ! j) \<le> a \<and> snd (rs ! j) < a) \<Longrightarrow> scan_ranges rs k a = Some (k + i)"
proof (induction rs arbitrary: i k)
  case (Cons x rs)
  obtain lo hi where x: "x = (lo, hi)" by fastforce
  show ?case
  proof (cases i)
    case 0
    then show ?thesis using Cons.prems x by (simp add: not_less)
  next
    case (Suc j)
    have "lo \<le> a" "hi < a" using Cons.prems(4) [of 0] x Suc by simp_all
    moreover have "scan_ranges rs (k + 1) a = Some (k + 1 + j)"
      using Cons.prems Suc Cons.prems(4) [of "Suc _"] by (intro Cons.IH) auto
    ultimately show ?thesis using x Suc by (simp add: not_less not_le)
  qed
qed simp

lemma layout_lengths:
  "layout_ok s \<Longrightarrow> length (rangeend s) = length (rangestart s) \<and> length (secstart s) = length (rangestart s)
     \<and> length (pgm s) = 16 * length (secs s) \<and> length (secs s) \<le> 2 ^ 20 \<and> secs s \<noteq> []"
  by (simp add: layout_ok_def)

lemma layout_range:
  "layout_ok s \<Longrightarrow> r < length (rangestart s) \<Longrightarrow> range_ok s r \<and> range_next s r \<le> length (secs s)"
  by (simp add: layout_ok_def)

lemma layout_order:
  "layout_ok s \<Longrightarrow> q < length (rangestart s) \<Longrightarrow> r < q \<Longrightarrow>
     range_hi s r < range_lo s q \<and> range_next s r \<le> range_first s q"
  by (simp add: layout_ok_def)

lemma getrange_iff:
  assumes "layout_ok s"
  shows "getrange s a = Some r \<longleftrightarrow> in_range s r a"
proof
  assume "getrange s a = Some r"
  then show "in_range s r a"
    using scan_ranges_SomeD [of "zip (rangestart s) (rangeend s)" 0 a r] assms
    by (auto simp: getrange_def in_range_def word_le_nat_alt layout_ok_def)
next
  assume r: "in_range s r a"
  have "fst (zip (rangestart s) (rangeend s) ! j) \<le> a \<and> snd (zip (rangestart s) (rangeend s) ! j) < a"
    if "j < r" for j
  proof -
    have n: "r < length (rangestart s)" "j < length (rangestart s)" "range_lo s r \<le> unat a"
      using r that by (simp_all add: in_range_def)
    have "range_hi s j < range_lo s r" using layout_order [OF assms n(1) that] by simp
    moreover have "range_lo s j < range_hi s j"
      using layout_range [OF assms n(2)] by (simp add: range_ok_def)
    ultimately have "range_lo s j \<le> unat a" "range_hi s j < unat a" using n(3) by linarith+
    then show ?thesis using n(2) layout_lengths [OF assms]
      by (simp add: word_le_nat_alt word_less_nat_alt)
  qed
  then show "getrange s a = Some r"
    using scan_ranges_find [of r "zip (rangestart s) (rangeend s)" a 0] assms r
    by (auto simp: getrange_def in_range_def word_le_nat_alt layout_ok_def)
qed


subsection \<open>Sectors, pages and words\<close>

lemma unat_drop_bit_div: "unat (drop_bit n (w :: u32)) = unat w div 2 ^ n"
  by (subst unat_drop_bit_eq) (rule drop_bit_eq_div)

lemma range_unique:
  assumes "layout_ok s" "in_range s r a" "in_range s q b" "unat a div 4096 = unat b div 4096"
  shows "r = q"
proof -
  have no: "\<not> r < q" if "in_range s r a" "in_range s q b" "unat a div 4096 = unat b div 4096" for r q a b
  proof
    assume "r < q"
    have hi: "range_hi s r < range_lo s q" "4096 dvd range_lo s q"
      using layout_order [OF assms(1) _ \<open>r < q\<close>] layout_range [OF assms(1), of q] that(2)
      by (simp_all add: in_range_def range_ok_def)
    then obtain m where m: "range_lo s q = 4096 * m" by (elim dvdE)
    have "unat a < 4096 * m" "4096 * m \<le> unat b" using that hi(1) m by (simp_all add: in_range_def)
    then have "unat a div 4096 < m" "m \<le> unat b div 4096"
      by (simp_all add: less_mult_imp_div_less mult.commute less_eq_div_iff_mult_less_eq)
    with that(3) show False by simp
  qed
  show ?thesis using no [OF assms(2,3,4)] no [OF assms(3,2) assms(4) [symmetric]] by linarith
qed

lemma offset_nat: "in_range s r a \<Longrightarrow> unat (a - rangestart s ! r) = unat a - range_lo s r"
  by (simp add: in_range_def unat_sub word_le_nat_alt)

lemma sector_cell:
  assumes "layout_ok s" "in_range s r a"
  shows "SECADDR s r a = range_first s r + (unat a - range_lo s r) div 4096"
    and "SECADDR s r a < range_next s r"
    and "range_next s r \<le> length (secs s)"
proof -
  have r: "r < length (rangestart s)" "range_lo s r \<le> unat a" "unat a \<le> range_hi s r"
    using assms(2) by (simp_all add: in_range_def)
  have ok: "range_ok s r" "range_next s r \<le> length (secs s)" using layout_range [OF assms(1) r(1)] by simp_all
  obtain m k where m: "range_lo s r = 4096 * m" "range_hi s r + 1 = 4096 * k"
    using ok(1) by (auto simp: range_ok_def elim!: dvdE)
  have "(unat a - range_lo s r) div 4096 < (range_hi s r + 1 - range_lo s r) div 4096"
  proof -
    have "unat a - 4096 * m < (k - m) * 4096" using r m by (simp add: diff_mult_distrib)
    then have "(unat a - 4096 * m) div 4096 < k - m" by (rule less_mult_imp_div_less)
    moreover have "(range_hi s r + 1 - range_lo s r) div 4096 = k - m"
      unfolding m by (simp flip: diff_mult_distrib2)
    ultimately show ?thesis by (simp only: m)
  qed
  then have lt: "range_first s r + (unat a - range_lo s r) div 4096 < range_next s r"
    by (simp add: range_next_def)
  then have "range_first s r + (unat a - range_lo s r) div 4096 < 2 ^ 32"
    using ok(2) layout_lengths [OF assms(1)] by simp
  then show "SECADDR s r a = range_first s r + (unat a - range_lo s r) div 4096"
    using offset_nat [OF assms(2)]
    by (simp add: SECADDR_def unat_word_ariths unat_drop_bit_div)
  with lt ok(2) show "SECADDR s r a < range_next s r" "range_next s r \<le> length (secs s)" by simp_all
qed

lemma page_cell:
  assumes "layout_ok s" "in_range s r a"
  shows "PAGEADDR s r a = 16 * SECADDR s r a + unat a div 256 mod 16"
proof -
  have "4096 dvd range_lo s r" "range_lo s r \<le> unat a"
    using assms layout_range [OF assms(1), of r] by (simp_all add: in_range_def range_ok_def)
  then obtain m where m: "range_lo s r = 4096 * m" "4096 * m \<le> unat a" by (auto elim: dvdE)
  define d where "d = unat a - 4096 * m"
  have a: "unat a = 4096 * m + d" using m(2) by (simp add: d_def)
  have sec: "SECADDR s r a = range_first s r + d div 4096" "SECADDR s r a < 2 ^ 20"
    using sector_cell [OF assms] layout_lengths [OF assms(1)] m by (simp_all add: d_def)
  have split: "d div 256 = 16 * (d div 4096) + d div 256 mod 16"
    using mult_div_mod_eq [of 16 "d div 256"] by (simp add: div_mult2_eq [symmetric])
  have "(256 * (16 * m) + d) div 256 = 16 * m + d div 256" by (rule div_mult_self4) simp
  then have "unat a div 256 mod 16 = d div 256 mod 16" by (simp add: a)
  moreover have "unat (push_bit 4 (secstart s ! r)) = 16 * range_first s r"
    using sec by (simp add: push_bit_eq_mult unat_word_ariths)
  moreover have "unat (drop_bit 8 (a - rangestart s ! r)) = d div 256"
    using offset_nat [OF assms(2)] m by (simp add: d_def unat_drop_bit_div)
  moreover have "16 * range_first s r + d div 256 < 2 ^ 32"
  proof -
    have "16 * range_first s r + 16 * (d div 4096) < 16 * 2 ^ 20" using sec by simp
    moreover have "d div 256 mod 16 < 16" by simp
    ultimately show ?thesis using split by simp
  qed
  ultimately have "PAGEADDR s r a = 16 * range_first s r + d div 256"
    by (simp add: PAGEADDR_def unat_word_ariths)
  then show ?thesis using split sec(1) \<open>unat a div 256 mod 16 = d div 256 mod 16\<close> by simp
qed

lemma page_cell_less: "layout_ok s \<Longrightarrow> in_range s r a \<Longrightarrow> PAGEADDR s r a < length (pgm s)"
proof -
  assume a: "layout_ok s" "in_range s r a"
  have "SECADDR s r a < length (secs s)" using sector_cell(2,3) [OF a] by simp
  moreover have "unat a div 256 mod 16 < 16" by simp
  ultimately show ?thesis using page_cell [OF a] layout_lengths [OF a(1)] by linarith
qed


lemma mod_shift:
  fixes m d k n :: nat
  assumes "0 < n"
  shows "(n * k * m + d) div n mod k = d div n mod k"
proof -
  have "(n * (k * m) + d) div n = k * m + d div n" using assms by (intro div_mult_self4) simp
  then have "(n * k * m + d) div n = k * m + d div n" by (simp only: mult.assoc)
  then show ?thesis by simp
qed

lemma word_cell:
  assumes "layout_ok s" "in_range s r a"
  shows "ADDRINPAGE s r a = unat a div 4 mod 64"
proof -
  have "4096 dvd range_lo s r" "range_lo s r \<le> unat a"
    using assms layout_range [OF assms(1), of r] by (simp_all add: in_range_def range_ok_def)
  then obtain m where m: "range_lo s r = 4096 * m" "4096 * m \<le> unat a" by (auto elim: dvdE)
  have "unat a div 4 mod 64 = (unat a - 4096 * m) div 4 mod 64"
    using mod_shift [of 4 64 "16 * m" "unat a - 4096 * m"] m(2) by simp
  moreover have "drop_bit 2 (x AND 0xfc) = take_bit 6 (drop_bit 2 x)" for x :: u32
    by (simp add: drop_bit_and take_bit_eq_mask mask_eq_exp_minus_1)
  then have "ADDRINPAGE s r a = take_bit 6 (unat (drop_bit 2 (a - rangestart s ! r)))"
    by (simp add: ADDRINPAGE_def unsigned_take_bit_eq)
  then have "ADDRINPAGE s r a = (unat a - 4096 * m) div 4 mod 64"
    using offset_nat [OF assms(2)] m by (simp add: unat_drop_bit_div take_bit_eq_mod)
  ultimately show ?thesis by simp
qed

section \<open>A request on the channel\<close>

text \<open>Fields that do not say where things are\<close>

lemma layout_fields [simp]:
  "SECADDR (s\<lparr>msg_addr := a\<rparr>) = SECADDR s" "SECADDR (s\<lparr>msg_size := n\<rparr>) = SECADDR s"
  "SECADDR (s\<lparr>uflash_from := f\<rparr>) = SECADDR s" "SECADDR (s\<lparr>uflash_to := t\<rparr>) = SECADDR s"
  "SECADDR (s\<lparr>secs := x\<rparr>) = SECADDR s" "SECADDR (s\<lparr>pgm := p\<rparr>) = SECADDR s"
  "SECADDR (s\<lparr>noise_at := k\<rparr>) = SECADDR s"
  "PAGEADDR (s\<lparr>msg_addr := a\<rparr>) = PAGEADDR s" "PAGEADDR (s\<lparr>msg_size := n\<rparr>) = PAGEADDR s"
  "PAGEADDR (s\<lparr>uflash_from := f\<rparr>) = PAGEADDR s" "PAGEADDR (s\<lparr>uflash_to := t\<rparr>) = PAGEADDR s"
  "PAGEADDR (s\<lparr>secs := x\<rparr>) = PAGEADDR s" "PAGEADDR (s\<lparr>pgm := p\<rparr>) = PAGEADDR s"
  "PAGEADDR (s\<lparr>noise_at := k\<rparr>) = PAGEADDR s"
  "ADDRINPAGE (s\<lparr>msg_addr := a\<rparr>) = ADDRINPAGE s" "ADDRINPAGE (s\<lparr>msg_size := n\<rparr>) = ADDRINPAGE s"
  "ADDRINPAGE (s\<lparr>uflash_from := f\<rparr>) = ADDRINPAGE s" "ADDRINPAGE (s\<lparr>uflash_to := t\<rparr>) = ADDRINPAGE s"
  "ADDRINPAGE (s\<lparr>secs := x\<rparr>) = ADDRINPAGE s" "ADDRINPAGE (s\<lparr>pgm := p\<rparr>) = ADDRINPAGE s"
  "ADDRINPAGE (s\<lparr>noise_at := k\<rparr>) = ADDRINPAGE s"
  "getrange (s\<lparr>msg_addr := a\<rparr>) = getrange s" "getrange (s\<lparr>msg_size := n\<rparr>) = getrange s"
  "getrange (s\<lparr>uflash_from := f\<rparr>) = getrange s" "getrange (s\<lparr>uflash_to := t\<rparr>) = getrange s"
  "getrange (s\<lparr>secs := x\<rparr>) = getrange s" "getrange (s\<lparr>pgm := p\<rparr>) = getrange s"
  "getrange (s\<lparr>noise_at := k\<rparr>) = getrange s"
  by (simp_all add: fun_eq_iff SECADDR_def PAGEADDR_def ADDRINPAGE_def getrange_def)

lemma in_range_fields [simp]:
  "in_range (s\<lparr>msg_addr := a\<rparr>) = in_range s" "in_range (s\<lparr>msg_size := n\<rparr>) = in_range s"
  "in_range (s\<lparr>uflash_from := f\<rparr>) = in_range s" "in_range (s\<lparr>uflash_to := t\<rparr>) = in_range s"
  "in_range (s\<lparr>secs := x\<rparr>) = in_range s" "in_range (s\<lparr>pgm := p\<rparr>) = in_range s"
  "in_range (s\<lparr>noise_at := k\<rparr>) = in_range s"
  by (simp_all add: fun_eq_iff in_range_def)

lemma xdigit_not_nl: "is_xdigit b \<Longrightarrow> b \<noteq> 0x0A"
  by (auto simp: is_xdigit_def word_le_nat_alt)

lemma digit_not_nl: "is_digit b \<Longrightarrow> b \<noteq> 0x0A"
  by (auto simp: is_digit_def word_le_nat_alt)

lemma no_nl [simp]: "0x0A \<notin> set (hex_text n)" "0x0A \<notin> set (dec_text n)"
  unfolding hex_text_def dec_text_def
  using hex_nat_digits xdigit_not_nl dec_nat_digits digit_not_nl by blast+

lemma read_line_eol:
  "0x0A \<notin> set xs \<Longrightarrow> read_line (xs @ eol @ rest) = Some (xs @ eol, rest)"
proof -
  assume "0x0A \<notin> set xs"
  then have all: "\<forall>b \<in> set (xs @ [0x0D]). b \<noteq> 0x0A" by auto
  have "xs @ eol @ rest = (xs @ [0x0D]) @ 0x0A # rest" by (simp add: eol_def)
  moreover have "dropWhile (\<lambda>b. b \<noteq> 0x0A) ((xs @ [0x0D]) @ 0x0A # rest) = 0x0A # rest"
    using all by (subst dropWhile_append2) auto
  moreover have "takeWhile (\<lambda>b. b \<noteq> 0x0A) ((xs @ [0x0D]) @ 0x0A # rest) = xs @ [0x0D]"
    using all by (subst takeWhile_append2) auto
  ultimately show ?thesis by (simp add: read_line_def eol_def)
qed

lemma word_of_int_mod: "word_of_int (int (n mod 2 ^ 32)) = (of_nat n :: u32)"
  by (simp add: word_unat_eq_iff unat_of_nat del: word_of_nat_eq_iff)

lemma scan_addr_text: "scan_addr p (p @ hex_text a @ eol) s = s\<lparr>msg_addr := of_nat a\<rparr>"
  using scan_hex_hex_nat [of eol "a mod 2 ^ 32"] word_of_int_mod [of a]
  by (simp add: scan_addr_def scan_prefix_def starts_with_def hex_text_def eol_def is_space_def)

lemma scan_addr_size_text:
  "scan_addr_size p (p @ hex_text a @ [0x20] @ dec_text n @ eol) s = s\<lparr>msg_addr := of_nat a, msg_size := of_nat n\<rparr>"
proof -
  have "scan_int (0x20 # dec_text n @ eol) = scan_int (dec_text n @ eol)"
    by (simp add: scan_int_def is_space_def)
  also have "\<dots> = Some (int (n mod 2 ^ 32), eol)"
    using scan_int_dec_nat [of eol "n mod 2 ^ 32"] by (simp add: dec_text_def eol_def is_digit_def)
  finally have "scan_int (0x20 # dec_text n @ eol) = Some (int (n mod 2 ^ 32), eol)" .
  then show ?thesis
    using scan_hex_hex_nat [of "0x20 # dec_text n @ eol" "a mod 2 ^ 32"] word_of_int_mod [of a] word_of_int_mod [of n]
    by (simp add: scan_addr_size_def scan_prefix_def starts_with_def hex_text_def is_space_def)
qed

lemma starts_with_append [simp]: "starts_with p (p @ xs)"
  by (simp add: starts_with_def)

lemma commands_differ [simp]:
  "\<not> starts_with cmd_e (cmd_w @ xs)" "\<not> starts_with cmd_e (cmd_r @ xs)" "\<not> starts_with cmd_w (cmd_r @ xs)"
  by (simp_all add: starts_with_def cmd_e_def cmd_w_def cmd_r_def)

text \<open>What the module makes of the three requests\<close>

lemma idle_same: "uflash_from s = [] \<Longrightarrow> s\<lparr>uflash_from := []\<rparr> = s"
  by (cases s) simp

lemma serve_erase_request:
  assumes "uflash_from s = []" "secs s \<noteq> []"
  shows "serve (send (cmd_e @ hex_text n @ eol) s) =
    serve_erase (cmd_e @ hex_text n @ eol) s"
proof -
  have "0x0A \<notin> set (cmd_e @ hex_text n)" by (simp add: cmd_e_def)
  from read_line_eol [OF this, of "[]"] show ?thesis
    using assms by (simp add: serve_def send_def idle_same)
qed

lemma serve_read_request:
  assumes "uflash_from s = []" "secs s \<noteq> []"
  shows "serve (send (cmd_r @ hex_text a @ [0x20] @ dec_text n @ eol) s) =
    serve_read (cmd_r @ hex_text a @ [0x20] @ dec_text n @ eol) s"
proof -
  have "0x0A \<notin> set (cmd_r @ hex_text a @ [0x20] @ dec_text n)" by (simp add: cmd_r_def)
  from read_line_eol [OF this, of "[]"] show ?thesis
    using assms by (simp add: serve_def send_def idle_same)
qed

lemma serve_write_request:
  assumes "uflash_from s = []" "secs s \<noteq> []"
  shows "serve (send (cmd_w @ hex_text a @ [0x20] @ dec_text n @ eol @ data) s) =
    serve_write (cmd_w @ hex_text a @ [0x20] @ dec_text n @ eol) (s\<lparr>uflash_from := data\<rparr>)"
proof -
  have "0x0A \<notin> set (cmd_w @ hex_text a @ [0x20] @ dec_text n)" by (simp add: cmd_w_def)
  from read_line_eol [OF this, of data] show ?thesis
    using assms by (simp add: serve_def send_def idle_same)
qed

section \<open>The invariant and the words that are stored\<close>

definition blank_ok :: "cchanflash \<Rightarrow> bool" where
  "blank_ok s \<longleftrightarrow> (\<forall>i < length (secs s). secs s ! i = ERS \<longrightarrow> (\<forall>p < 16. pgm s ! (16 * i + p) = []))"

definition flash_ok :: "cchanflash \<Rightarrow> bool" where
  "flash_ok s \<longleftrightarrow> layout_ok s \<and> uflash_from s = [] \<and> uflash_to s = [] \<and> blank_ok s \<and>
     (\<forall>p \<in> set (pgm s). length p \<le> 64)"

text \<open>The word at a byte address, \<open>None\<close> outside the ranges and in sectors never used\<close>

definition flash_word :: "cchanflash \<Rightarrow> nat \<Rightarrow> u32 option" where
  "flash_word s a =
     (case getrange s (of_nat a) of
        None \<Rightarrow> None
      | Some r \<Rightarrow>
          (case secs s ! SECADDR s r (of_nat a) of
             UNK \<Rightarrow> None
           | ERS \<Rightarrow> Some 0xffffffff
           | PROG \<Rightarrow> Some (page_word (pgm s ! PAGEADDR s r (of_nat a)) (ADDRINPAGE s r (of_nat a)))))"

text \<open>Whether the page of an address has been written as far as this word\<close>

definition stored :: "cchanflash \<Rightarrow> nat \<Rightarrow> bool" where
  "stored s a \<longleftrightarrow>
     (case getrange s (of_nat a) of
        None \<Rightarrow> False
      | Some r \<Rightarrow> ADDRINPAGE s r (of_nat a) < length (pgm s ! PAGEADDR s r (of_nat a)))"

definition located :: "cchanflash \<Rightarrow> nat \<Rightarrow> nat \<Rightarrow> bool" where
  "located s r a \<longleftrightarrow> a < 2 ^ 32 \<and> in_range s r (of_nat a)"

lemma located_cells:
  assumes "layout_ok s" "located s r a"
  shows "getrange s (of_nat a) = Some r"
    and "SECADDR s r (of_nat a) < length (secs s)"
    and "PAGEADDR s r (of_nat a) = 16 * SECADDR s r (of_nat a) + a div 256 mod 16"
    and "PAGEADDR s r (of_nat a) < length (pgm s)"
    and "ADDRINPAGE s r (of_nat a) = a div 4 mod 64"
  using assms getrange_iff [OF assms(1)] sector_cell [OF assms(1), of r "of_nat a"]
    page_cell [OF assms(1), of r "of_nat a"] page_cell_less [OF assms(1), of r "of_nat a"]
    word_cell [OF assms(1), of r "of_nat a"]
  by (simp_all add: located_def unat_u32_of_nat)

lemma located_iff: "layout_ok s \<Longrightarrow> a < 2 ^ 32 \<Longrightarrow> located s r a \<longleftrightarrow> getrange s (of_nat a) = Some r"
  by (simp add: located_def getrange_iff)

text \<open>Two addresses share a sector, and a page, exactly when their numbers say so.\<close>

lemma same_sector:
  assumes "layout_ok s" "located s r a" "located s q b"
  shows "SECADDR s r (of_nat a) = SECADDR s q (of_nat b) \<longleftrightarrow> a div 4096 = b div 4096"
proof -
  have in_r: "in_range s r (of_nat a)" "in_range s q (of_nat b)" "unat (of_nat a :: u32) = a" "unat (of_nat b :: u32) = b"
    using assms(2,3) by (simp_all add: located_def unat_u32_of_nat)
  note cell = sector_cell [OF assms(1) in_r(1)] sector_cell [OF assms(1) in_r(2)]
  have low: "range_first s r \<le> SECADDR s r (of_nat a)" "range_first s q \<le> SECADDR s q (of_nat b)" using cell by simp_all
  have order: "range_next s i \<le> range_first s j" if "i < j" "j < length (rangestart s)" for i j
    using layout_order [OF assms(1) that(2,1)] by simp
  have len: "r < length (rangestart s)" "q < length (rangestart s)" using in_r by (simp_all add: in_range_def)
  have shift: "m \<le> x \<Longrightarrow> m \<le> y \<Longrightarrow> 4096 dvd m \<Longrightarrow>
      ((x - m) div 4096 = (y - m) div 4096) = (x div 4096 = y div 4096)" for m x y :: nat
    by (auto elim!: dvdE simp: le_iff_add)
  show ?thesis
  proof
    assume eq: "SECADDR s r (of_nat a) = SECADDR s q (of_nat b)"
    have "r = q"
    proof (rule linorder_cases [of r q])
      assume "r < q"
      then show ?thesis using order [of r q] len eq cell(2) low(2) by simp
    next
      assume "q < r"
      then show ?thesis using order [of q r] len eq cell(5) low(1) by simp
    qed
    moreover have "4096 dvd range_lo s r" using layout_range [OF assms(1) len(1)] by (simp add: range_ok_def)
    ultimately show "a div 4096 = b div 4096"
      using eq cell(1,4) shift [of "range_lo s r" a b] in_r by (simp add: in_range_def)
  next
    assume eq: "a div 4096 = b div 4096"
    then have "r = q" using range_unique [OF assms(1) in_r(1,2)] in_r by simp
    moreover have "4096 dvd range_lo s r" using layout_range [OF assms(1) len(1)] by (simp add: range_ok_def)
    ultimately show "SECADDR s r (of_nat a) = SECADDR s q (of_nat b)"
      using eq cell(1,4) shift [of "range_lo s r" a b] in_r by (simp add: in_range_def)
  qed
qed

lemma same_page:
  assumes "layout_ok s" "located s r a" "located s q b"
  shows "PAGEADDR s r (of_nat a) = PAGEADDR s q (of_nat b) \<longleftrightarrow> a div 256 = b div 256"
proof -
  have quot: "n div 256 = 16 * (n div 4096) + n div 256 mod 16" for n :: nat
  proof -
    have "n div 256 = 16 * (n div 256 div 16) + n div 256 mod 16" by (rule mult_div_mod_eq [symmetric])
    moreover have "n div 256 div 16 = n div 4096" using div_mult2_eq [of n 256 16] by simp
    ultimately show ?thesis by (simp only:)
  qed
  have split: "16 * x + i = 16 * y + j \<longleftrightarrow> x = y \<and> i = j" if "i < 16" "j < 16" for x y i j :: nat
  proof -
    have "(16 * x + i) div 16 = x" "(16 * y + j) div 16 = y" using that by simp_all
    then show ?thesis by (metis add_left_cancel)
  qed
  have "a div 256 = b div 256 \<longleftrightarrow> a div 4096 = b div 4096 \<and> a div 256 mod 16 = b div 256 mod 16"
    by (subst quot [of a], subst quot [of b], rule split) simp_all
  then show ?thesis
    using located_cells(3) [OF assms(1,2)] located_cells(3) [OF assms(1,3)] same_sector [OF assms]
      split [of "a div 256 mod 16" "b div 256 mod 16"] by simp
qed

text \<open>In a state that satisfies the invariant the two cases of a known sector are one.\<close>

lemma flash_word_located:
  assumes "flash_ok s" "located s r a"
  shows "flash_word s a =
    (if secs s ! SECADDR s r (of_nat a) = UNK then None
     else Some (page_word (pgm s ! PAGEADDR s r (of_nat a)) (a div 4 mod 64)))"
proof -
  have lay: "layout_ok s" "blank_ok s" using assms(1) by (simp_all add: flash_ok_def)
  note c = located_cells [OF lay(1) assms(2)]
  show ?thesis
  proof (cases "secs s ! SECADDR s r (of_nat a)")
    case ERS
    then have "pgm s ! PAGEADDR s r (of_nat a) = []"
      using lay(2) c(2) unfolding blank_ok_def c(3) by simp
    then show ?thesis using ERS by (simp add: flash_word_def c page_word_def)
  qed (simp_all add: flash_word_def c)
qed

lemma flash_word_known:
  "layout_ok s \<Longrightarrow> a < 2 ^ 32 \<Longrightarrow> flash_word s a \<noteq> None \<Longrightarrow>
     \<exists>r. located s r a \<and> secs s ! SECADDR s r (of_nat a) \<noteq> UNK"
  by (auto simp: flash_word_def located_iff split: option.splits secstate_t.splits)

section \<open>Words on the channel\<close>

lemma le32_le32_bytes: "le32 (ucast w) (ucast (drop_bit 8 w)) (ucast (drop_bit 16 w)) (ucast (drop_bit 24 w)) = w"
proof (rule bit_word_eqI)
  fix n
  assume "n < LENGTH(32)"
  then consider "n < 8" | "8 \<le> n" "n < 16" | "16 \<le> n" "n < 24" | "24 \<le> n" "n < 32" by fastforce
  then show "bit (le32 (ucast w) (ucast (drop_bit 8 w)) (ucast (drop_bit 16 w)) (ucast (drop_bit 24 w))) n = bit w n"
    by cases (auto simp: le32_def bit_simps)
qed

lemma take_words_append:
  "take_words (length ws) (word_bytes ws @ rest) = Some (ws, rest)"
  by (induction ws) (simp_all add: word_bytes_def le32_bytes_def le32_le32_bytes)

lemma length_word_bytes [simp]: "length (word_bytes ws) = 4 * length ws"
  by (induction ws) (simp_all add: word_bytes_def le32_bytes_def)

lemma take_words_length: "take_words n bs = Some (ws, rest) \<Longrightarrow> length ws = n"
  by (induction n bs arbitrary: ws rest rule: take_words.induct) (auto split: prod.splits)

lemma take_words_enough: "4 * n \<le> length bs \<Longrightarrow> \<exists>ws rest. take_words n bs = Some (ws, rest)"
proof (induction n arbitrary: bs)
  case (Suc n)
  then have "Suc (Suc (Suc (Suc 0))) \<le> length bs" by simp
  then obtain a b c d cs where "bs = a # b # c # d # cs" by (auto simp only: Suc_le_length_iff)
  with Suc show ?case by fastforce
qed simp

lemma le32_bytes_le32: "le32_bytes (le32 a b c d) = [a, b, c, d]"
proof -
  have "ucast (le32 a b c d) = a" "ucast (drop_bit 8 (le32 a b c d)) = b"
    "ucast (drop_bit 16 (le32 a b c d)) = c" "ucast (drop_bit 24 (le32 a b c d)) = d"
    by (rule bit_word_eqI; auto simp: le32_def bit_simps dest: bit_imp_le_length)+
  then show ?thesis by (simp add: le32_bytes_def)
qed

lemma word_bytes_take_words:
  "take_words n bs = Some (ws, rest) \<Longrightarrow> bs = word_bytes ws @ rest"
  by (induction n bs arbitrary: ws rest rule: take_words.induct)
    (auto simp: word_bytes_def le32_bytes_le32 split: prod.splits)

lemma word_bytes_full:
  assumes "take_words n bs = Some (ws, rest)"
  shows "word_bytes ws = take (4 * n) bs"
  using word_bytes_take_words [OF assms] take_words_length [OF assms] by simp

section \<open>What the operations do to the contents\<close>

text \<open>The state after a served request: the cells change, and the variables of the thread\<close>

definition erased :: "nat \<Rightarrow> cchanflash \<Rightarrow> cchanflash" where
  "erased sec s = s\<lparr>secs := (secs s)[sec := ERS],
     pgm := take (16 * sec) (pgm s) @ replicate 16 [] @ drop (16 * sec + 16) (pgm s)\<rparr>"

definition widen :: "nat \<Rightarrow> u32 list \<Rightarrow> u32 list" where
  "widen n page = (if n > length page then resize page n 0 else page)"

definition programmed :: "nat \<Rightarrow> nat \<Rightarrow> nat \<Rightarrow> u32 list \<Rightarrow> cchanflash \<Rightarrow> cchanflash" where
  "programmed sec pg pos ws s = s\<lparr>secs := (secs s)[sec := PROG],
     pgm := (pgm s)[pg := store_words pos ws (widen (pos + length ws) (pgm s ! pg))]\<rparr>"

lemma serve_erase_effect:
  assumes ok: "flash_ok s" and loc: "located s r (n * 4096)"
  shows "serve_erase (cmd_e @ hex_text n @ eol) s =
    Some (put_chars [0] (erased (SECADDR s r (of_nat (n * 4096))) (s\<lparr>msg_addr := of_nat (n * 4096)\<rparr>)))"
proof -
  have lay: "layout_ok s" using ok by (simp add: flash_ok_def)
  have a: "of_nat n * 4096 = (of_nat (n * 4096) :: u32)" by simp
  note c = located_cells [OF lay loc]
  have pg: "PAGEADDR s r (of_nat (n * 4096)) = 16 * SECADDR s r (of_nat (n * 4096))"
    using c(3) by simp
  have "16 * SECADDR s r (of_nat (n * 4096)) + 16 \<le> length (pgm s)"
    using c(2) layout_lengths [OF lay] by simp
  then show ?thesis
    using c(1,2) unfolding serve_erase_def scan_addr_text Let_def
    by (simp add: a pg set_elem_def set_range_def erased_def del: of_nat_mult)
qed


lemma page_mask: "(x :: u32) AND 0xffffff00 = push_bit 8 (drop_bit 8 x)"
proof -
  have "(0xffffff00 :: u32) = NOT (mask 8)" by (simp add: mask_eq_exp_minus_1)
  then have "x AND 0xffffff00 = x AND NOT (mask 8)" by (simp only:)
  moreover have "bit (x AND NOT (mask 8)) n = bit (push_bit 8 (drop_bit 8 x)) n" if "n < 32" for n
    using that by (cases "n < 8") (auto simp: bit_simps not_less)
  ultimately show ?thesis by (auto intro: bit_word_eqI)
qed

lemma same_page_mask:
  "((x :: u32) AND 0xffffff00) = (y AND 0xffffff00) \<longleftrightarrow> unat x div 256 = unat y div 256"
proof
  assume "(x AND 0xffffff00) = (y AND 0xffffff00)"
  then have "drop_bit 8 (push_bit 8 (drop_bit 8 x)) = drop_bit 8 (push_bit 8 (drop_bit 8 y))"
    by (simp only: page_mask)
  moreover have "drop_bit 8 (push_bit 8 (drop_bit 8 z)) = drop_bit 8 z" for z :: u32
  proof (rule bit_word_eqI)
    fix n
    show "bit (drop_bit 8 (push_bit 8 (drop_bit 8 z))) n = bit (drop_bit 8 z) n"
      using bit_imp_le_length [of z "8 + n"] by (auto simp: bit_simps)
  qed
  ultimately have "unat (drop_bit 8 x) = unat (drop_bit 8 y)" by simp
  then show "unat x div 256 = unat y div 256" by (simp only: unat_drop_bit_div) simp
next
  assume "unat x div 256 = unat y div 256"
  then have "unat (drop_bit 8 x) = unat (drop_bit 8 y)" by (simp only: unat_drop_bit_div) simp
  then have "drop_bit 8 x = drop_bit 8 y" by (simp only: word_unat_eq_iff)
  then show "(x AND 0xffffff00) = (y AND 0xffffff00)" by (simp only: page_mask)
qed

text \<open>A write is served when it stays in its page and the sector has been erased before.  The two low bits of
  the address do not count.\<close>

definition fits_page :: "nat \<Rightarrow> nat \<Rightarrow> bool" where
  "fits_page a n \<longleftrightarrow> 0 < n \<and> a mod 256 + 4 * n \<le> 256"

lemma write_refused_iff:
  assumes "layout_ok s" "located s r a" "n \<le> 64"
  shows "write_refused s r (of_nat a) (of_nat n) =
    Some (secs s ! SECADDR s r (of_nat a) = UNK \<or> \<not> fits_page a n)"
proof -
  note c = located_cells [OF assms(1,2)]
  have small: "a < 2 ^ 32" using assms(2) by (simp add: located_def)
  have n: "unat (of_nat n :: u32) = n" using assms(3) by (simp add: unat_u32_of_nat)
  show ?thesis
  proof (cases "n = 0")
    case False
    have page_end: "a div 256 * 256 + 256 \<le> 2 ^ 32" using small by simp
    have wrapped: "unat (of_nat a + of_nat n * 4 - 1 :: u32) = (a + 4 * n - 1) mod 2 ^ 32"
    proof -
      have "(of_nat a + of_nat n * 4 - 1 :: u32) = of_nat (a + 4 * n - 1)"
        using False by (simp add: of_nat_diff)
      then show ?thesis by (simp add: unat_of_nat)
    qed
    have "(a + 4 * n - 1) mod 2 ^ 32 div 256 = a div 256 \<longleftrightarrow> a mod 256 + 4 * n \<le> 256"
    proof
      assume "a mod 256 + 4 * n \<le> 256"
      then have "a + 4 * n - 1 < a div 256 * 256 + 256" "a div 256 * 256 \<le> a + 4 * n - 1"
        using False div_mult_mod_eq [of a 256] by linarith+
      then have "(a + 4 * n - 1) mod 2 ^ 32 = a + 4 * n - 1" "(a + 4 * n - 1) div 256 = a div 256"
        using page_end by (simp_all add: div_nat_eqI)
      then show "(a + 4 * n - 1) mod 2 ^ 32 div 256 = a div 256" by simp
    next
      assume eq: "(a + 4 * n - 1) mod 2 ^ 32 div 256 = a div 256"
      show "a mod 256 + 4 * n \<le> 256"
      proof (cases "a + 4 * n - 1 < 2 ^ 32")
        case True
        then have "(a + 4 * n - 1) div 256 = a div 256" using eq by simp
        then have "a + 4 * n - 1 < a div 256 * 256 + 256"
          using dividend_less_div_times [of 256 "a + 4 * n - 1"] by simp
        then show ?thesis using False div_mult_mod_eq [of a 256] by linarith
      next
        case over: False
        then have "(a + 4 * n - 1) mod 2 ^ 32 = a + 4 * n - 1 - 2 ^ 32"
          using small assms(3) by (simp add: le_mod_geq not_less)
        moreover have "a + 4 * n - 1 - 2 ^ 32 < 256" "2 ^ 32 - 256 \<le> a" using small assms(3) over by simp_all
        ultimately show ?thesis using eq by simp
      qed
    qed
    then show ?thesis
      using c(2) n assms(3) False small wrapped
      by (simp add: write_refused_def elem_def same_page_mask fits_page_def word_less_nat_alt unat_u32_of_nat)
  qed (use c(2) n in \<open>simp add: write_refused_def elem_def fits_page_def\<close>)
qed

lemma serve_data_effect:
  assumes "layout_ok s" "located s r a" "length ws \<le> 64"
  shows "serve_data r (of_nat a) (of_nat (length ws)) (s\<lparr>uflash_from := word_bytes ws @ eol\<rparr>) =
    Some (put_chars [0] (programmed (SECADDR s r (of_nat a)) (PAGEADDR s r (of_nat a)) (a div 4 mod 64) ws
      (s\<lparr>uflash_from := []\<rparr>)))"
proof -
  note c = located_cells [OF assms(1,2)]
  have n: "unat (of_nat (length ws) :: u32) = length ws" using assms(3) by (simp add: unat_u32_of_nat)
  have "read_line eol = Some (eol, [])" using read_line_eol [of "[]" "[]"] by simp
  then show ?thesis
    using c(2,4) by (simp add: serve_data_def set_elem_def elem_def c(5) n take_words_append
        programmed_def widen_def Let_def put_chars_def)
qed

lemma serve_write_effect:
  assumes ok: "flash_ok s" and loc: "located s r a"
    and fit: "fits_page a (length ws)" and used: "secs s ! SECADDR s r (of_nat a) \<noteq> UNK"
  shows "serve_write (cmd_w @ hex_text a @ [0x20] @ dec_text (length ws) @ eol)
      (s\<lparr>uflash_from := cmd_d @ word_bytes ws @ eol\<rparr>) =
    Some (put_chars [0] (programmed (SECADDR s r (of_nat a)) (PAGEADDR s r (of_nat a)) (a div 4 mod 64) ws
      (s\<lparr>msg_addr := of_nat a, msg_size := of_nat (length ws)\<rparr>)))"
proof -
  let ?s = "s\<lparr>msg_addr := of_nat a, msg_size := of_nat (length ws)\<rparr>"
  have lay: "layout_ok s" "uflash_from s = []" using ok by (simp_all add: flash_ok_def)
  have lay': "layout_ok ?s" "located ?s r a"
    using lay loc by (simp_all add: layout_ok_def range_ok_def range_next_def located_def)
  have len: "length ws \<le> 64" using fit by (simp add: fits_page_def)
  note cells = located_cells [OF lay(1) loc]
  have refused: "write_refused (?s\<lparr>uflash_from := x\<rparr>) r (of_nat a) (of_nat (length ws)) = Some False" for x
    using write_refused_iff [OF lay(1) loc len] fit used
    by (simp add: write_refused_def)
  have same: "?s\<lparr>uflash_from := []\<rparr> = ?s" using lay(2) by (cases s) simp
  note data = serve_data_effect [OF lay' len, unfolded same]
  have scanned: "scan_addr_size cmd_w (cmd_w @ hex_text a @ [0x20] @ dec_text (length ws) @ eol)
      (s\<lparr>uflash_from := cmd_d @ word_bytes ws @ eol\<rparr>) = ?s\<lparr>uflash_from := cmd_d @ word_bytes ws @ eol\<rparr>"
    unfolding scan_addr_size_text by simp
  show ?thesis
    unfolding serve_write_def scanned Let_def
    using data cells(1) refused by (simp add: get_char_def cmd_d_def)
qed

lemma spi_flash_erase_effect:
  assumes ok: "flash_ok s" and loc: "located s r (n * 4096)"
  shows "spi_flash_erase_sector n s =
    Some (ESP_OK, erased (SECADDR s r (of_nat (n * 4096))) (s\<lparr>msg_addr := of_nat (n * 4096)\<rparr>))"
proof -
  have idle: "uflash_from s = []" "uflash_to s = []" "secs s \<noteq> []"
    using ok by (simp_all add: flash_ok_def layout_ok_def)
  have same: "erased k (s\<lparr>msg_addr := x\<rparr>)\<lparr>uflash_to := []\<rparr> = erased k (s\<lparr>msg_addr := x\<rparr>)" for k x
    using idle by (cases s) (simp add: erased_def)
  show ?thesis
    unfolding spi_flash_erase_sector_def serve_erase_request [OF idle(1,3)] serve_erase_effect [OF ok loc]
    using idle(2) same by (simp add: put_chars_def receive_byte_def erased_def retflerr_def)
qed

lemma spi_flash_write_effect:
  assumes ok: "flash_ok s" and loc: "located s r a"
    and fit: "fits_page a (length ws)" and used: "secs s ! SECADDR s r (of_nat a) \<noteq> UNK"
    and src: "take_words (len div 4) src = Some (ws, rest)"
  shows "len \<le> 256 \<Longrightarrow> spi_flash_write a src len s =
    Some (ESP_OK, programmed (SECADDR s r (of_nat a)) (PAGEADDR s r (of_nat a)) (a div 4 mod 64) ws
      (s\<lparr>msg_addr := of_nat a, msg_size := of_nat (length ws)\<rparr>))"
proof -
  assume len: "len \<le> 256"
  have idle: "uflash_from s = []" "uflash_to s = []" "secs s \<noteq> []"
    using ok by (simp_all add: flash_ok_def layout_ok_def)
  have same: "programmed k p q ws (s\<lparr>msg_addr := x, msg_size := y\<rparr>)\<lparr>uflash_to := []\<rparr> =
      programmed k p q ws (s\<lparr>msg_addr := x, msg_size := y\<rparr>)" for k p q x y
    using idle by (cases s) (simp add: programmed_def)
  have n: "len div 4 = length ws" using take_words_length [OF src] by simp
  show ?thesis
    unfolding spi_flash_write_def Let_def n
    using len src n serve_write_request [OF idle(1,3)] serve_write_effect [OF ok loc fit used] same idle(2)
    by (simp add: put_chars_def receive_byte_def programmed_def retflerr_def)
qed

subsection \<open>Contents afterwards\<close>

lemma fits_words: "fits_page a n \<Longrightarrow> a div 4 mod 64 + n \<le> 64"
proof -
  assume "fits_page a n"
  then have "a mod 256 + 4 * n \<le> 256" by (simp add: fits_page_def)
  moreover have "a mod 256 = 4 * (a div 4 mod 64) + a mod 4" using mod_mult2_eq [of a 4 64] by simp
  ultimately show ?thesis by linarith
qed

lemma length_widen: "length (widen n page) = max n (length page)"
  by (simp add: widen_def resize_def)

lemma widen_nth:
  "i < max n (length page) \<Longrightarrow> widen n page ! i = (if i < length page then page ! i else 0)"
  by (cases "length page < n") (auto simp: widen_def resize_def nth_append)

lemma store_words_nth:
  assumes "pos + length ws \<le> length page" "i < length page"
  shows "store_words pos ws page ! i = (if pos \<le> i \<and> i < pos + length ws then ws ! (i - pos) else page ! i)"
proof -
  have l: "length (take pos page) = pos" "min (length page) pos = pos" using assms(1) by simp_all
  consider "i < pos" | "pos \<le> i" "i < pos + length ws" | "pos + length ws \<le> i" by linarith
  then show ?thesis
  proof cases
    case 3
    have "store_words pos ws page ! i = drop (pos + length ws) page ! (i - pos - length ws)"
      unfolding store_words_def nth_append l using 3 by (simp add: less_diff_conv2)
    also have "\<dots> = page ! (pos + length ws + (i - pos - length ws))" using assms(1) by (rule nth_drop)
    also have "pos + length ws + (i - pos - length ws) = i" using 3 by linarith
    finally show ?thesis using 3 by (simp add: not_less [symmetric])
  qed (use assms(2) in \<open>simp_all add: store_words_def nth_append l(2) less_diff_conv2\<close>)
qed

lemma page_word_store:
  "page_word (store_words pos ws (widen (pos + length ws) page)) i =
     (if pos \<le> i \<and> i < pos + length ws then ws ! (i - pos)
      else if i < pos \<and> length page \<le> i then 0 else page_word page i)"
proof -
  define n where "n = pos + length ws"
  let ?p = "widen n page"
  have fit: "pos + length ws \<le> length ?p" by (simp add: length_widen n_def)
  have len: "length (store_words pos ws ?p) = max n (length page)"
    using fit by (simp add: store_words_def length_widen)
  show ?thesis
  proof (cases "i < max n (length page)")
    case True
    then have "page_word (store_words pos ws ?p) i =
        (if pos \<le> i \<and> i < n then ws ! (i - pos) else if i < length page then page ! i else 0)"
      using store_words_nth [OF fit, of i] by (simp add: page_word_def len length_widen widen_nth flip: n_def)
    moreover have "i < n \<Longrightarrow> \<not> pos \<le> i \<Longrightarrow> i < pos" by simp
    ultimately show ?thesis using True by (auto simp: page_word_def simp flip: n_def)
  next
    case False
    then have "\<not> i < n" "\<not> i < pos" "\<not> i < length page" by (simp_all add: n_def)
    with False show ?thesis by (simp add: page_word_def len n_def [symmetric])
  qed
qed

lemma length_store:
  "length (store_words pos ws (widen (pos + length ws) page)) = max (pos + length ws) (length page)"
  by (auto simp: store_words_def widen_def resize_def)

lemma flash_ok_msg [simp]:
  "flash_ok (s\<lparr>msg_addr := x\<rparr>) = flash_ok s" "flash_ok (s\<lparr>msg_size := y\<rparr>) = flash_ok s"
  by (simp_all add: flash_ok_def layout_ok_def blank_ok_def range_ok_def range_next_def)

lemma contents_msg [simp]:
  "flash_word (s\<lparr>msg_addr := x\<rparr>) = flash_word s" "flash_word (s\<lparr>msg_size := y\<rparr>) = flash_word s"
  "stored (s\<lparr>msg_addr := x\<rparr>) = stored s" "stored (s\<lparr>msg_size := y\<rparr>) = stored s"
  "located (s\<lparr>msg_addr := x\<rparr>) = located s" "located (s\<lparr>msg_size := y\<rparr>) = located s"
  by (simp_all add: fun_eq_iff flash_word_def stored_def located_def split: option.split secstate_t.split)

lemma cells_of_effects [simp]:
  "SECADDR (erased k s) = SECADDR s" "PAGEADDR (erased k s) = PAGEADDR s"
  "SECADDR (programmed k p i ws s) = SECADDR s" "PAGEADDR (programmed k p i ws s) = PAGEADDR s"
  "located (erased k s) = located s" "located (programmed k p i ws s) = located s"
  by (simp_all add: fun_eq_iff erased_def programmed_def located_def)

lemma erased_pages:
  assumes "16 * k + 16 \<le> length (pgm s)" "p < length (pgm s)"
  shows "pgm (erased k s) ! p = (if p div 16 = k then [] else pgm s ! p)"
proof -
  have "p div 16 = k \<longleftrightarrow> 16 * k \<le> p \<and> p < 16 * k + 16"
    by (auto simp: div_nat_eqI mult.commute intro: dividend_less_div_times)
  with assms show ?thesis by (auto simp: erased_def nth_append min_def)
qed

lemma erased_layout: "layout_ok s \<Longrightarrow> 16 * k + 16 \<le> length (pgm s) \<Longrightarrow> layout_ok (erased k s)"
  by (simp add: layout_ok_def erased_def range_ok_def range_next_def)

lemma erased_ok:
  assumes ok: "flash_ok s" and k: "k < length (secs s)"
  shows "flash_ok (erased k s)"
proof -
  have lay: "layout_ok s" using ok by (simp add: flash_ok_def)
  have room: "16 * k + 16 \<le> length (pgm s)" using layout_lengths [OF lay] k by simp
  have "blank_ok (erased k s)"
    unfolding blank_ok_def
  proof (intro allI impI)
    fix i p
    assume i: "i < length (secs (erased k s))" "secs (erased k s) ! i = ERS" and p: "p < (16 :: nat)"
    have "16 * i + p < length (pgm s)" using i(1) p layout_lengths [OF lay] by (simp add: erased_def)
    moreover have "secs s ! i = ERS" if "i \<noteq> k" using that i by (simp add: erased_def)
    ultimately show "pgm (erased k s) ! (16 * i + p) = []"
      using erased_pages [OF room] p i(1) ok by (auto simp: flash_ok_def blank_ok_def erased_def)
  qed
  moreover have "length p \<le> 64" if "p \<in> set (pgm (erased k s))" for p
    using that ok by (auto simp: erased_def flash_ok_def dest: in_set_takeD in_set_dropD)
  ultimately show ?thesis
    using ok erased_layout [OF lay room] by (simp add: flash_ok_def erased_def)
qed

lemma programmed_ok:
  assumes ok: "flash_ok s" and loc: "located s r a" and fit: "fits_page a (length ws)"
  shows "flash_ok (programmed (SECADDR s r (of_nat a)) (PAGEADDR s r (of_nat a)) (a div 4 mod 64) ws s)"
    (is "flash_ok ?t")
proof -
  have lay: "layout_ok s" using ok by (simp add: flash_ok_def)
  note c = located_cells [OF lay loc]
  have "layout_ok ?t"
    using lay by (simp add: layout_ok_def programmed_def range_ok_def range_next_def)
  moreover have "blank_ok ?t"
    unfolding blank_ok_def
  proof (intro allI impI)
    fix i p
    assume i: "i < length (secs ?t)" "secs ?t ! i = ERS" and p: "p < (16 :: nat)"
    have ne: "i \<noteq> SECADDR s r (of_nat a)" "secs s ! i = ERS"
      using i by (cases "i = SECADDR s r (of_nat a)"; simp add: programmed_def)+
    have "16 * i + p \<noteq> PAGEADDR s r (of_nat a)"
    proof
      assume "16 * i + p = PAGEADDR s r (of_nat a)"
      then have "(16 * i + p) div 16 = (16 * SECADDR s r (of_nat a) + a div 256 mod 16) div 16" by (simp only: c(3))
      with p ne(1) show False by simp
    qed
    then show "pgm ?t ! (16 * i + p) = []"
      using ok i(1) ne(2) p by (simp add: programmed_def flash_ok_def blank_ok_def)
  qed
  moreover have "length p \<le> 64" if "p \<in> set (pgm ?t)" for p
  proof -
    have "a div 4 mod 64 + length ws \<le> 64" by (rule fits_words [OF fit])
    moreover have "p \<in> set (pgm s) \<or> p = store_words (a div 4 mod 64) ws
        (widen (a div 4 mod 64 + length ws) (pgm s ! PAGEADDR s r (of_nat a)))"
      using that set_update_subset_insert [of "pgm s"] by (auto simp: programmed_def)
    moreover have "length (pgm s ! PAGEADDR s r (of_nat a)) \<le> 64" using ok c(4) by (simp add: flash_ok_def)
    ultimately show ?thesis using ok by (auto simp: length_store flash_ok_def)
  qed
  ultimately show ?thesis using ok by (simp add: flash_ok_def programmed_def)
qed

text \<open>The contents that are read after an erasure and after a write\<close>

lemma erased_word:
  assumes ok: "flash_ok s" and loc: "located s r a" "located s q b"
  shows "flash_word (erased (SECADDR s r (of_nat a)) s) b =
    (if b div 4096 = a div 4096 then Some 0xffffffff else flash_word s b)"
proof -
  have lay: "layout_ok s" using ok by (simp add: flash_ok_def)
  note ca = located_cells [OF lay loc(1)] and cb = located_cells [OF lay loc(2)]
  have room: "16 * SECADDR s r (of_nat a) + 16 \<le> length (pgm s)" using ca(2) layout_lengths [OF lay] by simp
  have sec: "SECADDR s q (of_nat b) = SECADDR s r (of_nat a) \<longleftrightarrow> b div 4096 = a div 4096"
    using same_sector [OF lay loc(2,1)] .
  have page: "PAGEADDR s q (of_nat b) div 16 = SECADDR s q (of_nat b)" using cb(3) by simp
  have "located (erased (SECADDR s r (of_nat a)) s) q b" using loc(2) by simp
  note word = flash_word_located [OF erased_ok [OF ok ca(2)] this] flash_word_located [OF ok loc(2)]
  have secs: "secs (erased k s) = (secs s)[k := ERS]" for k by (simp add: erased_def)
  show ?thesis
  proof (cases "b div 4096 = a div 4096")
    case True
    then show ?thesis
      using word(1) erased_pages [OF room cb(4)] page sec ca(2) by (simp add: secs page_word_def)
  next
    case False
    then show ?thesis
      using word erased_pages [OF room cb(4)] page sec by (simp add: secs)
  qed
qed

lemma erased_stored:
  assumes ok: "flash_ok s" and loc: "located s r a" "located s q b"
  shows "stored (erased (SECADDR s r (of_nat a)) s) b \<longleftrightarrow> b div 4096 \<noteq> a div 4096 \<and> stored s b"
proof -
  have lay: "layout_ok s" using ok by (simp add: flash_ok_def)
  note ca = located_cells [OF lay loc(1)] and cb = located_cells [OF lay loc(2)]
  have room: "16 * SECADDR s r (of_nat a) + 16 \<le> length (pgm s)" using ca(2) layout_lengths [OF lay] by simp
  have page: "PAGEADDR s q (of_nat b) div 16 = SECADDR s q (of_nat b)" using cb(3) by simp
  have same: "getrange (erased k s) = getrange s" "ADDRINPAGE (erased k s) = ADDRINPAGE s" for k
    by (simp_all add: fun_eq_iff erased_def getrange_def ADDRINPAGE_def)
  show ?thesis
    using erased_pages [OF room cb(4)] page same_sector [OF lay loc(2,1)]
    by (simp add: stored_def same cb(1))
qed

lemma word_pages:
  fixes a b n :: nat
  assumes "a div 4 mod 64 + n \<le> 64"
  shows "b div 256 = a div 256 \<and> a div 4 mod 64 \<le> b div 4 mod 64 \<and> b div 4 mod 64 < a div 4 mod 64 + n \<longleftrightarrow>
      a div 4 \<le> b div 4 \<and> b div 4 < a div 4 + n"
    and "b div 256 = a div 256 \<Longrightarrow> b div 4 mod 64 < a div 4 mod 64 + k \<longleftrightarrow> b div 4 < a div 4 + k"
    and "b div 256 = a div 256 \<Longrightarrow> b div 4 mod 64 - a div 4 mod 64 = b div 4 - a div 4"
proof -
  have q: "x div 256 = x div 4 div 64" for x :: nat using div_mult2_eq [of x 4 64] by simp
  define i j where "i = a div 4" and "j = b div 4"
  have split: "i = 64 * (i div 64) + i mod 64" "j = 64 * (j div 64) + j mod 64" "i mod 64 < 64" "j mod 64 < 64"
    by (simp_all add: mult_div_mod_eq)
  have range: "i mod 64 + n \<le> 64" using assms by (simp add: i_def)
  have same: "j mod 64 < i mod 64 + k \<longleftrightarrow> j < i + k" "j mod 64 - i mod 64 = j - i" if "j div 64 = i div 64" for k
    using split(1) split(2) [unfolded that] by linarith+
  then show "b div 256 = a div 256 \<Longrightarrow> b div 4 mod 64 < a div 4 mod 64 + k \<longleftrightarrow> b div 4 < a div 4 + k"
    and "b div 256 = a div 256 \<Longrightarrow> b div 4 mod 64 - a div 4 mod 64 = b div 4 - a div 4"
    by (simp_all add: q flip: i_def j_def)
  have inside: "j div 64 = i div 64" if "i \<le> j \<and> j < i + n"
  proof -
    have "64 * (i div 64) \<le> j" "j < 64 * (i div 64) + 64" using split(1,3) range that by linarith+
    then show ?thesis by (intro div_nat_eqI) simp_all
  qed
  have low: "i mod 64 \<le> j mod 64 \<longleftrightarrow> i \<le> j" if "j div 64 = i div 64"
    using split(1) split(2) [unfolded that] by linarith
  have "j div 64 = i div 64 \<and> i mod 64 \<le> j mod 64 \<and> j mod 64 < i mod 64 + n \<longleftrightarrow> i \<le> j \<and> j < i + n"
    using inside same(1) low by metis
  then show "b div 256 = a div 256 \<and> a div 4 mod 64 \<le> b div 4 mod 64 \<and> b div 4 mod 64 < a div 4 mod 64 + n \<longleftrightarrow>
      a div 4 \<le> b div 4 \<and> b div 4 < a div 4 + n"
    by (simp add: q flip: i_def j_def)
qed


lemma programmed_word:
  assumes ok: "flash_ok s" and loc: "located s r a" "located s q b"
    and fit: "fits_page a (length ws)" and used: "secs s ! SECADDR s r (of_nat a) \<noteq> UNK"
  shows "flash_word (programmed (SECADDR s r (of_nat a)) (PAGEADDR s r (of_nat a)) (a div 4 mod 64) ws s) b =
    (if a div 4 \<le> b div 4 \<and> b div 4 < a div 4 + length ws then Some (ws ! (b div 4 - a div 4))
     else if b div 256 = a div 256 \<and> b div 4 < a div 4 \<and> \<not> stored s b then Some 0
     else flash_word s b)" (is "flash_word ?t b = _")
proof -
  have lay: "layout_ok s" using ok by (simp add: flash_ok_def)
  note ca = located_cells [OF lay loc(1)] and cb = located_cells [OF lay loc(2)]
  have "located ?t q b" using loc(2) by simp
  note word = flash_word_located [OF programmed_ok [OF ok loc(1) fit] this] flash_word_located [OF ok loc(2)]
  note idx = word_pages [OF fits_words [OF fit], of b]
  have secs: "secs ?t ! SECADDR s q (of_nat b) \<noteq> UNK \<longleftrightarrow> secs s ! SECADDR s q (of_nat b) \<noteq> UNK"
    using used ca(2) by (auto simp: programmed_def nth_list_update)
  show ?thesis
  proof (cases "b div 256 = a div 256")
    case True
    then have page: "PAGEADDR s q (of_nat b) = PAGEADDR s r (of_nat a)"
      using same_page [OF lay loc(2,1)] by simp
    have "b div 4096 = a div 4096" using True div_mult2_eq [of b 256 16] div_mult2_eq [of a 256 16] by simp
    then have "SECADDR s q (of_nat b) = SECADDR s r (of_nat a)" using same_sector [OF lay loc(2,1)] by simp
    then have known: "secs s ! SECADDR s q (of_nat b) \<noteq> UNK" using used by simp
    let ?page = "pgm s ! PAGEADDR s q (of_nat b)" and ?i = "a div 4 mod 64" and ?j = "b div 4 mod 64"
    have cell: "pgm ?t ! PAGEADDR s q (of_nat b) = store_words ?i ws (widen (?i + length ws) ?page)"
      using page ca(4) by (simp add: programmed_def)
    have inside: "?i \<le> ?j \<and> ?j < ?i + length ws \<longleftrightarrow> a div 4 \<le> b div 4 \<and> b div 4 < a div 4 + length ws"
      using idx(1) True by blast
    have below: "?j < ?i \<longleftrightarrow> b div 4 < a div 4" using idx(2) [OF True, of 0] by simp
    have blank: "stored s b \<longleftrightarrow> \<not> length ?page \<le> ?j" using cb by (simp add: stored_def not_le)
    have before: "flash_word s b = Some (page_word ?page ?j)" using word(2) known by simp
    have "flash_word ?t b = Some (page_word (store_words ?i ws (widen (?i + length ws) ?page)) ?j)"
      using word(1) known secs by (simp add: cell)
    also note page_word_store
    finally show ?thesis unfolding inside below idx(3) [OF True] before blank using True
      by (simp only: if_distrib [of Some] simp_thms)
  next
    case False
    then have "PAGEADDR s q (of_nat b) \<noteq> PAGEADDR s r (of_nat a)"
      using same_page [OF lay loc(2,1)] by simp
    then have "pgm ?t ! PAGEADDR s q (of_nat b) = pgm s ! PAGEADDR s q (of_nat b)" by (simp add: programmed_def)
    then show ?thesis using word secs False idx(1) by auto
  qed
qed

lemma programmed_stored:
  assumes ok: "flash_ok s" and loc: "located s r a" "located s q b" and fit: "fits_page a (length ws)"
  shows "stored (programmed (SECADDR s r (of_nat a)) (PAGEADDR s r (of_nat a)) (a div 4 mod 64) ws s) b \<longleftrightarrow>
    stored s b \<or> b div 256 = a div 256 \<and> b div 4 < a div 4 + length ws" (is "stored ?t b \<longleftrightarrow> _")
proof -
  have lay: "layout_ok s" using ok by (simp add: flash_ok_def)
  note ca = located_cells [OF lay loc(1)] and cb = located_cells [OF lay loc(2)]
  have same: "getrange ?t = getrange s" "ADDRINPAGE ?t = ADDRINPAGE s"
    by (simp_all add: fun_eq_iff programmed_def getrange_def ADDRINPAGE_def)
  show ?thesis
  proof (cases "b div 256 = a div 256")
    case True
    then have "pgm ?t ! PAGEADDR s q (of_nat b) = store_words (a div 4 mod 64) ws
        (widen (a div 4 mod 64 + length ws) (pgm s ! PAGEADDR s q (of_nat b)))"
      using same_page [OF lay loc(2,1)] ca(4) by (simp add: programmed_def)
    moreover have "b div 4 mod 64 < a div 4 mod 64 + length ws \<longleftrightarrow> b div 4 < a div 4 + length ws"
      by (rule word_pages(2) [OF fits_words [OF fit] True])
    ultimately show ?thesis using True by (simp add: stored_def same cb(1,5) length_store less_max_iff_disj disj_commute)
  next
    case False
    then have "pgm ?t ! PAGEADDR s q (of_nat b) = pgm s ! PAGEADDR s q (of_nat b)"
      using same_page [OF lay loc(2,1)] by (simp add: programmed_def)
    then show ?thesis using False by (simp add: stored_def same cb(1))
  qed
qed

subsection \<open>Reading\<close>

definition page_run :: "cchanflash \<Rightarrow> nat \<Rightarrow> nat \<Rightarrow> nat \<Rightarrow> u32 list" where
  "page_run s r a n =
     map (page_word (pgm s ! PAGEADDR s r (of_nat a))) [a div 4 mod 64..<a div 4 mod 64 + n]"

lemma page_answer_run:
  assumes "a < 2 ^ 32" "n \<le> 64" "0 < n \<or> 0 < a div 4 mod 64"
  shows "page_answer page (of_nat a) (of_nat n) =
    Some (map (page_word page) [a div 4 mod 64..<a div 4 mod 64 + n])"
proof -
  have mask: "x AND 0x3f = take_bit 6 x" for x :: u32
    by (simp add: take_bit_eq_mask mask_eq_exp_minus_1)
  have "unat (drop_bit 2 (of_nat a) AND 0x3f :: u32) = take_bit 6 (unat (drop_bit 2 (of_nat a :: u32)))"
    unfolding mask by (rule unsigned_take_bit_eq)
  then have pos: "unat (drop_bit 2 (of_nat a) AND 0x3f :: u32) = a div 4 mod 64"
    unfolding unat_drop_bit_div using assms(1) by (simp add: unat_u32_of_nat take_bit_eq_mod)
  define p where "p = a div 4 mod 64"
  have p: "drop_bit 2 (of_nat a) AND 0x3f = (of_nat p :: u32)" "p < 64"
    using pos by (simp_all add: p_def word_unat_eq_iff unat_u32_of_nat)
  have "of_nat n + of_nat p - 1 = (of_nat (n + p - 1) :: u32)"
  proof -
    have "1 \<le> n + p" using assms(3) by (auto simp: p_def)
    from of_nat_diff [OF this, where ?'a = u32] show ?thesis by simp
  qed
  moreover have e: "unat (of_nat (n + p - 1) :: u32) = n + p - 1"
    using assms(2) p(2) by (intro unat_u32_of_nat) simp
  moreover have "(of_nat (n + p - 1) :: u32) \<noteq> - 1"
  proof
    assume "(of_nat (n + p - 1) :: u32) = - 1"
    moreover have "(- 1 :: u32) = 0xffffffff" by simp
    ultimately have "n + p - 1 = unat (0xffffffff :: u32)" using e by (simp only:)
    then show False using assms(2) p(2) by simp
  qed
  moreover have "Suc (n + p - 1) = p + n" using assms(3) by (auto simp: p_def)
  ultimately show ?thesis
    using p(2) by (simp add: page_answer_def p(1) Let_def unat_u32_of_nat flip: p_def)
qed

lemma le32_bytes_blank: "le32_bytes 0xffffffff = [0xff, 0xff, 0xff, 0xff]"
  by (simp add: le32_bytes_def)

lemma blank_words: "word_bytes (map (page_word []) xs) = replicate (4 * length xs) 0xff"
  by (induction xs) (simp_all add: word_bytes_def page_word_def le32_bytes_blank eval_nat_numeral)


lemma serve_read_known:
  assumes ok: "flash_ok s" and loc: "located s r a" and used: "secs s ! SECADDR s r (of_nat a) \<noteq> UNK"
    and n: "n \<le> 64" "0 < n \<or> 0 < a div 4 mod 64"
  shows "serve_read (cmd_r @ hex_text a @ [0x20] @ dec_text n @ eol) s =
    Some (put_chars (word_bytes (page_run s r a n) @ [0]) (s\<lparr>msg_addr := of_nat a, msg_size := of_nat n\<rparr>))"
proof -
  have lay: "layout_ok s" "blank_ok s" "a < 2 ^ 32" using ok loc by (simp_all add: flash_ok_def located_def)
  note c = located_cells [OF lay(1) loc]
  have blank: "pgm s ! PAGEADDR s r (of_nat a) = []" if "secs s ! SECADDR s r (of_nat a) = ERS"
    using that lay(2) c(2) unfolding blank_ok_def c(3) by simp
  have "unat (of_nat n :: u32) = n" using n(1) by (simp add: unat_u32_of_nat)
  moreover have "word_bytes (page_run s r a n) = replicate (4 * n) 0xff" if "pgm s ! PAGEADDR s r (of_nat a) = []"
    using that by (simp add: page_run_def blank_words)
  ultimately show ?thesis
    unfolding serve_read_def scan_addr_size_text Let_def
    using c(1,2,4) used blank page_answer_run [OF lay(3) n]
    by (cases "secs s ! SECADDR s r (of_nat a)") (auto simp: elem_def page_run_def)
qed

lemma read_block_known:
  assumes ok: "flash_ok s" and loc: "located s r a" and used: "secs s ! SECADDR s r (of_nat a) \<noteq> UNK"
    and n: "len \<le> 256" "0 < len div 4 \<or> 0 < a div 4 mod 64"
    and dest: "off + 4 * (len div 4) \<le> length dest"
  shows "read_block a dest off len s =
    Some (ESP_OK, take off dest @ word_bytes (page_run s r a (len div 4)) @ drop (off + 4 * (len div 4)) dest,
      s\<lparr>msg_addr := of_nat a, msg_size := of_nat (len div 4)\<rparr>)"
proof -
  have idle: "uflash_from s = []" "uflash_to s = []" "secs s \<noteq> []"
    using ok by (simp_all add: flash_ok_def layout_ok_def)
  have n64: "len div 4 \<le> 64" using n(1) by simp
  have run: "length (page_run s r a k) = k" for k by (simp add: page_run_def)
  have words: "take_words (len div 4) (word_bytes (page_run s r a (len div 4)) @ [0]) =
      Some (page_run s r a (len div 4), [0])"
    using take_words_append [of "page_run s r a (len div 4)"] run by simp
  have same: "s\<lparr>msg_addr := x, msg_size := y, uflash_to := []\<rparr> = s\<lparr>msg_addr := x, msg_size := y\<rparr>" for x y
    using idle(2) by (cases s) simp
  show ?thesis
    unfolding read_block_def Let_def serve_read_request [OF idle(1,3)]
      serve_read_known [OF ok loc used n64 n(2)]
    using dest idle(2) run same
    by (simp add: put_chars_def receive_words_def words receive_byte_def retflerr_def)
qed

section \<open>The interface a client sees\<close>

definition valid_address :: "cchanflash \<Rightarrow> nat \<Rightarrow> bool" where
  "valid_address s a \<longleftrightarrow> a < 2 ^ 32 \<and> checkaddr s (of_nat a)"

lemma valid_located: "layout_ok s \<Longrightarrow> valid_address s a \<longleftrightarrow> (\<exists>r. located s r a)"
  by (auto simp: valid_address_def checkaddr_def located_def getrange_iff)

lemma flash_word_valid: "a < 2 ^ 32 \<Longrightarrow> flash_word s a \<noteq> None \<Longrightarrow> valid_address s a"
  by (auto simp: flash_word_def valid_address_def checkaddr_def split: option.splits)

text \<open>
  A store of words in pages of 64 and sectors of 16 pages.  \<open>word_at\<close> is what reading returns; \<open>filled\<close>
  says how far a page has been written, which matters because a write beyond that point fills the gap with zeros.
\<close>

locale word_store =
  fixes ok :: "'s \<Rightarrow> bool"
    and valid :: "'s \<Rightarrow> nat \<Rightarrow> bool"
    and word_at :: "'s \<Rightarrow> nat \<Rightarrow> u32 option"
    and filled :: "'s \<Rightarrow> nat \<Rightarrow> bool"
    and rd :: "nat \<Rightarrow> u8 list \<Rightarrow> nat \<Rightarrow> nat \<Rightarrow> 's \<Rightarrow> (esp_err_t \<times> u8 list \<times> 's) option"
    and wr :: "nat \<Rightarrow> u8 list \<Rightarrow> nat \<Rightarrow> 's \<Rightarrow> (esp_err_t \<times> 's) option"
    and er :: "nat \<Rightarrow> 's \<Rightarrow> (esp_err_t \<times> 's) option"
  assumes read_law: "ok s \<Longrightarrow> fits_page a n \<Longrightarrow> a < 2 ^ 32 \<Longrightarrow>
      length ws = n \<Longrightarrow> (\<And>i. i < n \<Longrightarrow> word_at s (a + 4 * i) = Some (ws ! i)) \<Longrightarrow>
      off + 4 * n \<le> length dest \<Longrightarrow>
      \<exists>s'. rd a dest off (4 * n) s =
          Some (ESP_OK, take off dest @ word_bytes ws @ drop (off + 4 * n) dest, s') \<and>
        ok s' \<and> valid s' = valid s \<and> word_at s' = word_at s \<and> filled s' = filled s"
    and write_law: "ok s \<Longrightarrow> fits_page a (length ws) \<Longrightarrow> a < 2 ^ 32 \<Longrightarrow> word_at s a \<noteq> None \<Longrightarrow>
      \<exists>s'. wr a (word_bytes ws @ rest) (4 * length ws) s = Some (ESP_OK, s') \<and> ok s' \<and> valid s' = valid s \<and>
        (\<forall>b. valid s b \<longrightarrow> word_at s' b =
           (if a div 4 \<le> b div 4 \<and> b div 4 < a div 4 + length ws then Some (ws ! (b div 4 - a div 4))
            else if b div 256 = a div 256 \<and> b div 4 < a div 4 \<and> \<not> filled s b then Some 0
            else word_at s b)) \<and>
        (\<forall>b. valid s b \<longrightarrow> filled s' b = (filled s b \<or> b div 256 = a div 256 \<and> b div 4 < a div 4 + length ws))"
    and erase_law: "ok s \<Longrightarrow> valid s (n * 4096) \<Longrightarrow>
      \<exists>s'. er n s = Some (ESP_OK, s') \<and> ok s' \<and> valid s' = valid s \<and>
        (\<forall>b. valid s b \<longrightarrow> word_at s' b = (if b div 4096 = n then Some 0xffffffff else word_at s b)) \<and>
        (\<forall>b. valid s b \<longrightarrow> filled s' b = (b div 4096 \<noteq> n \<and> filled s b))"
begin

text \<open>What is written is read back.\<close>

lemma write_then_read:
  assumes "ok s" "fits_page a (length ws)" "a < 2 ^ 32" "word_at s a \<noteq> None" "length dest = 4 * length ws"
    and "\<And>i. i < length ws \<Longrightarrow> valid s (a + 4 * i)"
  shows "\<exists>s' s''. wr a (word_bytes ws) (4 * length ws) s = Some (ESP_OK, s') \<and>
    rd a dest 0 (4 * length ws) s' = Some (ESP_OK, word_bytes ws, s'') \<and> ok s'' \<and> word_at s'' = word_at s'"
proof -
  obtain s' where w: "wr a (word_bytes ws @ []) (4 * length ws) s = Some (ESP_OK, s')" "ok s'"
    and at: "\<And>b. valid s b \<Longrightarrow> a div 4 \<le> b div 4 \<Longrightarrow> b div 4 < a div 4 + length ws \<Longrightarrow>
      word_at s' b = Some (ws ! (b div 4 - a div 4))"
    using write_law [OF assms(1-4), of "[]"] by auto
  have "word_at s' (a + 4 * i) = Some (ws ! i)" if "i < length ws" for i
  proof -
    have "(a + 4 * i) div 4 = a div 4 + i" by simp
    then show ?thesis using at [OF assms(6) [OF that]] that by simp
  qed
  from read_law [OF w(2) assms(2,3) refl this, of 0 dest] w assms(5) show ?thesis by auto
qed

text \<open>A write that starts where the page ends so far changes nothing else.\<close>

lemma write_in_order:
  assumes "ok s" "fits_page a (length ws)" "a < 2 ^ 32" "word_at s a \<noteq> None"
    and filled: "\<And>b. valid s b \<Longrightarrow> b div 256 = a div 256 \<Longrightarrow> b div 4 < a div 4 \<Longrightarrow> filled s b"
  shows "\<exists>s'. wr a (word_bytes ws @ rest) (4 * length ws) s = Some (ESP_OK, s') \<and> ok s' \<and> valid s' = valid s \<and>
    (\<forall>b. valid s b \<longrightarrow> word_at s' b =
       (if a div 4 \<le> b div 4 \<and> b div 4 < a div 4 + length ws then Some (ws ! (b div 4 - a div 4))
        else word_at s b))"
  using write_law [OF assms(1-4), of rest] filled by fastforce

text \<open>A sector that has been erased reads as ones.\<close>

lemma erase_then_read:
  assumes "ok s" "valid s (n * 4096)" "fits_page a k" "a < 2 ^ 32" "length dest = 4 * k"
    and "\<And>i. i < k \<Longrightarrow> valid s (a + 4 * i) \<and> (a + 4 * i) div 4096 = n"
  shows "\<exists>s' s''. er n s = Some (ESP_OK, s') \<and>
    rd a dest 0 (4 * k) s' = Some (ESP_OK, word_bytes (replicate k 0xffffffff), s'')"
proof -
  obtain s' where e: "er n s = Some (ESP_OK, s')" "ok s'"
    and at: "\<And>b. valid s b \<Longrightarrow> b div 4096 = n \<Longrightarrow> word_at s' b = Some 0xffffffff"
    using erase_law [OF assms(1,2)] by auto
  have "word_at s' (a + 4 * i) = Some (replicate k 0xffffffff ! i)" if "i < k" for i
    using at assms(6) [OF that] that by simp
  from read_law [OF e(2) assms(3,4) _ this, of 0 dest] e assms(5) show ?thesis by auto
qed

end

text \<open>The driver over the module provides it.\<close>

lemma fits_same_page:
  assumes "fits_page a n" "i < n"
  shows "(a + 4 * i) div 256 = a div 256" and "(a + 4 * i) div 4 = a div 4 + i"
    and "(a + 4 * i) div 4 mod 64 = a div 4 mod 64 + i"
proof -
  show eq: "(a + 4 * i) div 4 = a div 4 + i" by simp
  have "a div 4 mod 64 + n \<le> 64" by (rule fits_words [OF assms(1)])
  from word_pages(1) [OF this, of "a + 4 * i"] show pg: "(a + 4 * i) div 256 = a div 256"
    using assms(2) by (simp add: eq)
  have "a div 4 mod 64 + i < 64" using fits_words [OF assms(1)] assms(2) by simp
  then show "(a + 4 * i) div 4 mod 64 = a div 4 mod 64 + i" unfolding eq by (metis mod_add_left_eq mod_less)
qed

lemma page_run_words:
  assumes ok: "flash_ok s" and fit: "fits_page a n" and a: "a < 2 ^ 32" and len: "length ws = n"
    and known: "\<And>i. i < n \<Longrightarrow> flash_word s (a + 4 * i) = Some (ws ! i)"
  shows "\<exists>r. located s r a \<and> secs s ! SECADDR s r (of_nat a) \<noteq> UNK \<and> page_run s r a n = ws"
proof -
  have lay: "layout_ok s" using ok by (simp add: flash_ok_def)
  have n: "0 < n" using fit by (simp add: fits_page_def)
  obtain r where r: "located s r a" "secs s ! SECADDR s r (of_nat a) \<noteq> UNK"
    using flash_word_known [OF lay a] known [OF n] by auto
  have "page_run s r a n ! i = ws ! i" if i: "i < n" for i
  proof -
    have "(a + 4 * i) div 256 < 2 ^ 24" using fits_same_page(1) [OF fit i] a by simp
    then have "a + 4 * i < 2 ^ 32" by simp
    moreover have w: "flash_word s (a + 4 * i) = Some (ws ! i)" by (rule known [OF i])
    ultimately obtain q where q: "located s q (a + 4 * i)" using flash_word_known [OF lay] by blast
    have "PAGEADDR s q (of_nat (a + 4 * i)) = PAGEADDR s r (of_nat a)"
      using same_page [OF lay q r(1)] fits_same_page(1) [OF fit i] by simp
    then show ?thesis
      using flash_word_located [OF ok q] w fits_same_page(3) [OF fit i] i
      by (simp add: page_run_def split: if_splits)
  qed
  then have "page_run s r a n = ws" by (intro nth_equalityI) (simp_all add: page_run_def len)
  with r show ?thesis by blast
qed

lemma valid_effects [simp]:
  "valid_address (erased k s) = valid_address s" "valid_address (programmed k p i ws s) = valid_address s"
  "valid_address (s\<lparr>msg_addr := x\<rparr>) = valid_address s" "valid_address (s\<lparr>msg_size := y\<rparr>) = valid_address s"
  by (simp_all add: fun_eq_iff valid_address_def checkaddr_def erased_def programmed_def)

interpretation flash: word_store flash_ok valid_address flash_word stored
  spi_flash_read spi_flash_write spi_flash_erase_sector
proof (unfold_locales, goal_cases)
  case (1 s a n ws off dest)
  obtain r where r: "located s r a" "secs s ! SECADDR s r (of_nat a) \<noteq> UNK" "page_run s r a n = ws"
    using page_run_words [OF 1(1-5)] by blast
  have n: "4 * n \<le> 256" "0 < n" using 1(2) by (simp_all add: fits_page_def)
  have "read_block a dest off (4 * n) s = Some (ESP_OK,
      take off dest @ word_bytes ws @ drop (off + 4 * n) dest, s\<lparr>msg_addr := of_nat a, msg_size := of_nat n\<rparr>)"
    using read_block_known [OF 1(1) r(1,2) n(1), of off dest] n(2) 1(6) r(3) by simp
  then show ?case using n 1(1) by (simp add: spi_flash_read.simps)
next
  case (2 s a ws rest)
  have lay: "layout_ok s" using 2(1) by (simp add: flash_ok_def)
  obtain r where r: "located s r a" "secs s ! SECADDR s r (of_nat a) \<noteq> UNK"
    using flash_word_known [OF lay 2(3,4)] by blast
  let ?u = "s\<lparr>msg_addr := of_nat a, msg_size := of_nat (length ws)\<rparr>"
  let ?t = "programmed (SECADDR s r (of_nat a)) (PAGEADDR s r (of_nat a)) (a div 4 mod 64) ws ?u"
  have u: "flash_ok ?u" "located ?u r a" "secs ?u ! SECADDR ?u r (of_nat a) \<noteq> UNK" using 2(1) r by simp_all
  have len: "4 * length ws \<le> 256" using 2(2) by (simp add: fits_page_def)
  have src: "take_words (4 * length ws div 4) (word_bytes ws @ rest) = Some (ws, rest)"
    by (simp add: take_words_append)
  have "spi_flash_write a (word_bytes ws @ rest) (4 * length ws) s = Some (ESP_OK, ?t)"
    by (rule spi_flash_write_effect [OF 2(1) r(1) 2(2) r(2) src len])
  moreover have "flash_ok ?t" using programmed_ok [OF u(1,2) 2(2)] by simp
  moreover have "flash_word ?t b =
      (if a div 4 \<le> b div 4 \<and> b div 4 < a div 4 + length ws then Some (ws ! (b div 4 - a div 4))
       else if b div 256 = a div 256 \<and> b div 4 < a div 4 \<and> \<not> stored s b then Some 0 else flash_word s b)"
    and "stored ?t b \<longleftrightarrow> stored s b \<or> b div 256 = a div 256 \<and> b div 4 < a div 4 + length ws"
    if b: "valid_address s b" for b
  proof -
    obtain q where "located ?u q b" using b by (auto simp: valid_located [OF lay])
    from programmed_word [OF u(1,2) this 2(2) u(3)] programmed_stored [OF u(1,2) this 2(2)]
    show "flash_word ?t b =
      (if a div 4 \<le> b div 4 \<and> b div 4 < a div 4 + length ws then Some (ws ! (b div 4 - a div 4))
       else if b div 256 = a div 256 \<and> b div 4 < a div 4 \<and> \<not> stored s b then Some 0 else flash_word s b)"
      and "stored ?t b \<longleftrightarrow> stored s b \<or> b div 256 = a div 256 \<and> b div 4 < a div 4 + length ws"
      by simp_all
  qed
  ultimately show ?case by (intro exI [of _ ?t]) simp
next
  case (3 s n)
  have lay: "layout_ok s" using 3(1) by (simp add: flash_ok_def)
  obtain r where r: "located s r (n * 4096)" using 3(2) by (auto simp: valid_located [OF lay])
  let ?u = "s\<lparr>msg_addr := of_nat (n * 4096)\<rparr>"
  let ?t = "erased (SECADDR s r (of_nat (n * 4096))) ?u"
  have u: "flash_ok ?u" "located ?u r (n * 4096)" using 3(1) r by simp_all
  have "spi_flash_erase_sector n s = Some (ESP_OK, ?t)" by (rule spi_flash_erase_effect [OF 3(1) r])
  moreover have "flash_ok ?t" using erased_ok [OF u(1)] located_cells(2) [OF lay r] by simp
  moreover have "flash_word ?t b = (if b div 4096 = n then Some 0xffffffff else flash_word s b)"
    and "stored ?t b \<longleftrightarrow> b div 4096 \<noteq> n \<and> stored s b" if b: "valid_address s b" for b
  proof -
    obtain q where "located ?u q b" using b by (auto simp: valid_located [OF lay])
    from erased_word [OF u this] erased_stored [OF u this]
    show "flash_word ?t b = (if b div 4096 = n then Some 0xffffffff else flash_word s b)"
      and "stored ?t b \<longleftrightarrow> b div 4096 \<noteq> n \<and> stored s b" by (simp_all del: of_nat_mult)
  qed
  ultimately show ?case by (intro exI [of _ ?t]) simp
qed

section \<open>Setting the module up\<close>

fun ranges_sorted :: "nat \<Rightarrow> (u32 \<times> u32) list \<Rightarrow> bool" where
  "ranges_sorted lo [] \<longleftrightarrow> True"
| "ranges_sorted lo ((a, e) # rs) \<longleftrightarrow>
     lo \<le> unat a \<and> a < e \<and> 4096 dvd unat a \<and> 4096 dvd unat e + 1 \<and> ranges_sorted (unat e + 1) rs"

definition ranges_ok :: "cchanflash \<Rightarrow> bool" where
  "ranges_ok s \<longleftrightarrow> length (rangeend s) = length (rangestart s) \<and> secs s = [] \<and>
     uflash_from s = [] \<and> uflash_to s = [] \<and> ranges_sorted 0 (zip (rangestart s) (rangeend s))"

definition sectors :: "u32 \<times> u32 \<Rightarrow> nat" where
  "sectors r = (unat (snd r) + 1 - unat (fst r)) div 4096"

lemma ranges_sorted_mono: "ranges_sorted lo rs \<Longrightarrow> lo' \<le> lo \<Longrightarrow> ranges_sorted lo' rs"
  by (cases rs) auto

lemma ranges_sorted_insert:
  assumes "ranges_sorted lo rs" "lo \<le> unat a" "a < e" "4096 dvd unat a" "4096 dvd unat e + 1"
    and "\<not> list_ex (overlaps a e) rs"
  shows "ranges_sorted lo (insert_at (length (takeWhile (\<lambda>b. a > b) (map fst rs))) (a, e) rs)"
  using assms
proof (induction rs arbitrary: lo)
  case (Cons r rs)
  obtain x y where r: "r = (x, y)" by fastforce
  show ?case
  proof (cases "x < a")
    case True
    then have "y < a" using Cons.prems(6) r by (auto simp: overlaps_def not_less not_le)
    then have "unat y + 1 \<le> unat a" by (simp add: word_less_nat_alt)
    then have "ranges_sorted (unat y + 1) (insert_at (length (takeWhile (\<lambda>b. a > b) (map fst rs))) (a, e) rs)"
      using Cons r by auto
    then show ?thesis using True Cons.prems(1) r by (simp add: insert_at_def)
  next
    case False
    moreover have "x < y" using Cons.prems(1) r by simp
    moreover have "\<not> overlaps a e (x, y)" using Cons.prems(6) r by simp
    ultimately have "e < x" using Cons.prems(3) by (simp add: overlaps_def) (meson leI le_less_trans less_imp_le order_le_imp_less_or_eq order.trans)
    then have "unat e + 1 \<le> unat x" by (simp add: word_less_nat_alt)
    then show ?thesis using False Cons.prems r by (simp add: insert_at_def)
  qed
qed (simp add: insert_at_def)

lemma zip_insert_at:
  "length xs = length ys \<Longrightarrow> zip (insert_at k x xs) (insert_at k y ys) = insert_at k (x, y) (zip xs ys)"
  by (simp add: insert_at_def zip_append take_zip drop_zip)

lemma addrange_ranges_ok:
  assumes "ranges_ok s" "4096 dvd unat a" "4096 dvd unat e + 1" "addrange a e s = Some s'"
  shows "ranges_ok s'"
proof -
  have len: "length (rangestart s) = length (rangeend s)" using assms(1) by (simp add: ranges_ok_def)
  have fst_zip: "map fst (zip (rangestart s) (rangeend s)) = rangestart s" using len by simp
  have new: "a < e" "\<not> list_ex (overlaps a e) (zip (rangestart s) (rangeend s))"
    and s': "s' = s\<lparr>rangestart := insert_at (insert_pos a (rangestart s)) a (rangestart s),
       rangeend := insert_at (insert_pos a (rangestart s)) e (rangeend s)\<rparr>"
    using assms(4) by (simp_all add: addrange_def Let_def not_le split: if_splits)
  have "ranges_sorted 0 (insert_at (insert_pos a (rangestart s)) (a, e) (zip (rangestart s) (rangeend s)))"
    using ranges_sorted_insert [of 0 "zip (rangestart s) (rangeend s)" a e] assms(1-3) new
    by (simp add: ranges_ok_def insert_pos_def fst_zip)
  then show ?thesis
    using assms(1) len by (simp add: ranges_ok_def s' zip_insert_at) (simp add: insert_at_def)
qed

text \<open>Sectors are handed out one range after the other.\<close>

lemma ranges_sorted_total:
  "ranges_sorted lo rs \<Longrightarrow> lo \<le> 2 ^ 32 \<Longrightarrow> lo + 4096 * sum_list (map sectors rs) \<le> 2 ^ 32"
proof (induction rs arbitrary: lo)
  case (Cons r rs)
  obtain a e where r: "r = (a, e)" by fastforce
  have e: "unat e + 1 \<le> 2 ^ 32" using unsigned_less [of e, where ?'a = nat] by simp
  have "4096 * sectors r \<le> unat e + 1 - unat a" by (simp add: sectors_def r)
  moreover have "unat a \<le> unat e" using Cons.prems(1) r by (simp add: word_less_nat_alt)
  ultimately have "unat a + 4096 * sectors r \<le> unat e + 1" by linarith
  moreover have "unat e + 1 + 4096 * sum_list (map sectors rs) \<le> 2 ^ 32" "lo \<le> unat a"
    using Cons.IH [of "unat e + 1"] Cons.prems(1) r e by simp_all
  ultimately show ?case by simp
qed simp

lemma range_sectors_nat:
  assumes "a < e" "\<not> (a = 0 \<and> e = - 1)"
  shows "unat (range_sectors a e) = sectors (a, e)"
proof -
  have lt: "unat a < unat e" "unat e < 2 ^ 32"
    using assms(1) unsigned_less [of e, where ?'a = nat] by (simp_all add: word_less_nat_alt)
  have "unat (e + 1 - a) = unat e + 1 - unat a"
  proof -
    have "e + 1 - a = of_nat (unat e + 1 - unat a)" using lt(1) by (simp add: of_nat_diff)
    moreover have "unat e + 1 - unat a < 2 ^ 32"
    proof (cases "unat a = 0")
      case True
      then have "e \<noteq> - 1" using assms(2) by (simp add: unat_eq_0)
      moreover have "unat e \<noteq> 2 ^ 32 - 1"
      proof
        assume "unat e = 2 ^ 32 - 1"
        then have "e = 0xffffffff" by (simp add: word_unat_eq_iff)
        then have "e = - 1" by simp
        with \<open>e \<noteq> - 1\<close> show False ..
      qed
      ultimately show ?thesis using lt(2) by simp
    qed (use lt in simp)
    ultimately show ?thesis by (simp only: unat_u32_of_nat)
  qed
  then show ?thesis by (simp add: range_sectors_def sectors_def unat_div)
qed

lemma length_sector_starts [simp]: "length (sector_starts rs cnt) = length rs"
  by (induction rs cnt rule: sector_starts.induct) simp_all

definition proper :: "u32 \<times> u32 \<Rightarrow> bool" where
  "proper r \<longleftrightarrow> fst r < snd r \<and> \<not> (fst r = 0 \<and> snd r = - 1)"

lemma sector_numbers:
  assumes "\<forall>r \<in> set rs. proper r" "unat cnt + sum_list (map sectors rs) < 2 ^ 32"
  shows "unat (sector_count rs cnt) = unat cnt + sum_list (map sectors rs)"
    and "i < length rs \<Longrightarrow> unat (sector_starts rs cnt ! i) = unat cnt + sum_list (map sectors (take i rs))"
proof -
  have "unat (sector_count rs cnt) = unat cnt + sum_list (map sectors rs) \<and>
    (\<forall>i < length rs. unat (sector_starts rs cnt ! i) = unat cnt + sum_list (map sectors (take i rs)))"
    using assms
  proof (induction rs cnt rule: sector_count.induct)
    case (2 a e rs cnt)
    have "unat (range_sectors a e) = sectors (a, e)"
      using 2(2) by (intro range_sectors_nat) (simp_all add: proper_def)
    then have "unat (cnt + range_sectors a e) = unat cnt + sectors (a, e)"
      using 2(3) by (simp add: unat_word_ariths)
    then show ?case
      using 2 by (auto simp: less_Suc_eq_0_disj add.assoc)
  qed simp
  then show "unat (sector_count rs cnt) = unat cnt + sum_list (map sectors rs)"
    and "i < length rs \<Longrightarrow> unat (sector_starts rs cnt ! i) = unat cnt + sum_list (map sectors (take i rs))"
    by simp_all
qed

lemma ranges_sorted_nth:
  assumes "ranges_sorted lo rs" "q < length rs"
  shows "fst (rs ! q) < snd (rs ! q)" and "4096 dvd unat (fst (rs ! q))" and "4096 dvd unat (snd (rs ! q)) + 1"
    and "lo \<le> unat (fst (rs ! q))" and "r < q \<Longrightarrow> unat (snd (rs ! r)) < unat (fst (rs ! q))"
proof -
  have "lo \<le> unat (fst (rs ! q)) \<and> fst (rs ! q) < snd (rs ! q) \<and> 4096 dvd unat (fst (rs ! q)) \<and>
    4096 dvd unat (snd (rs ! q)) + 1 \<and> (\<forall>r < q. unat (snd (rs ! r)) < unat (fst (rs ! q)))"
    using assms
  proof (induction lo rs arbitrary: q rule: ranges_sorted.induct)
    case (2 lo a e rs)
    show ?case
    proof (cases q)
      case 0
      then show ?thesis using 2(2) by simp
    next
      case (Suc p)
      have ih: "unat e + 1 \<le> unat (fst (rs ! p))" "fst (rs ! p) < snd (rs ! p)" "4096 dvd unat (fst (rs ! p))"
        "4096 dvd unat (snd (rs ! p)) + 1" "\<forall>r < p. unat (snd (rs ! r)) < unat (fst (rs ! p))"
        using 2(1) [of p] 2(2,3) Suc by simp_all
      moreover have "lo \<le> unat e + 1" using 2(2) by (simp add: word_less_nat_alt)
      moreover have "unat (snd (((a, e) # rs) ! r)) < unat (fst (rs ! p))" if "r < q" for r
        using that ih(1,5) Suc by (cases r) simp_all
      ultimately show ?thesis using Suc by simp
    qed
  qed simp
  then show "fst (rs ! q) < snd (rs ! q)" "4096 dvd unat (fst (rs ! q))" "4096 dvd unat (snd (rs ! q)) + 1"
    "lo \<le> unat (fst (rs ! q))" "r < q \<Longrightarrow> unat (snd (rs ! r)) < unat (fst (rs ! q))" by simp_all
qed

lemma sum_take_le:
  fixes f :: "'a \<Rightarrow> nat"
  shows "sum_list (map f (take i xs)) \<le> sum_list (map f xs)"
  by (metis append_take_drop_id le_add1 map_append sum_list_append)

lemma sum_take_Suc:
  fixes f :: "'a \<Rightarrow> nat"
  shows "i < length xs \<Longrightarrow> sum_list (map f (take (Suc i) xs)) = sum_list (map f (take i xs)) + f (xs ! i)"
  by (simp add: take_Suc_conv_app_nth)

lemma sum_take_mono:
  fixes f :: "'a \<Rightarrow> nat"
  shows "i \<le> j \<Longrightarrow> sum_list (map f (take i xs)) \<le> sum_list (map f (take j xs))"
  using sum_take_le [of f i "take j xs"] by (simp add: min_def)

lemma rangeinit_flash_ok:
  assumes ranges: "ranges_ok s" and init: "rangeinit s = Some s'"
  shows "flash_ok s'" and "valid_address s' = valid_address s" and "flash_word s' a = None"
proof -
  let ?rs = "zip (rangestart s) (rangeend s)"
  have len: "length (rangestart s) = length (rangeend s)" and srt: "ranges_sorted 0 ?rs"
    using ranges by (simp_all add: ranges_ok_def)
  have cnt: "sector_count ?rs 0 \<noteq> 0" "rangestart s \<noteq> []"
    and s': "s' = s\<lparr>secstart := sector_starts ?rs 0, secs := replicate (unat (sector_count ?rs 0)) UNK,
                     pgm := replicate (unat (sector_count ?rs 0 * 16)) []\<rparr>"
    using init by (simp_all add: rangeinit_def Let_def split: if_splits)
  have proper: "proper r" if mem: "r \<in> set ?rs" for r
  proof -
    obtain q where q: "q < length ?rs" "?rs ! q = r" using mem unfolding in_set_conv_nth by blast
    have "r \<noteq> (0, - 1)"
    proof
      assume whole: "r = (0, - 1)"
      have "q = 0"
      proof (rule ccontr)
        assume "q \<noteq> 0"
        then show False using ranges_sorted_nth(5) [OF srt q(1), of 0] q(2) whole by simp
      qed
      moreover have "length ?rs = 1"
      proof (rule ccontr)
        assume "length ?rs \<noteq> 1"
        then have one: "1 < length ?rs" using q(1) by linarith
        have "unat (- 1 :: u32) < unat (fst (?rs ! 1))"
          using ranges_sorted_nth(5) [OF srt one, of 0] q(2) whole \<open>q = 0\<close> by simp
        then show False by (simp only: word_less_nat_alt [symmetric] word_order.extremum_strict)
      qed
      ultimately have "?rs = [(0, - 1)]" using q(2) whole by (cases ?rs) simp_all
      then show False using cnt(1) by (simp add: range_sectors_def)
    qed
    then show ?thesis
      using ranges_sorted_nth(1) [OF srt q(1)] q(2) by (cases r) (auto simp: proper_def)
  qed
  have total: "sum_list (map sectors ?rs) \<le> 2 ^ 20" using ranges_sorted_total [OF srt] by simp
  have sum: "unat (0 :: u32) + sum_list (map sectors ?rs) < 2 ^ 32" using total by simp
  note numbers = sector_numbers [of ?rs 0, OF _ sum]
  have count: "unat (sector_count ?rs 0) = sum_list (map sectors ?rs)" using numbers(1) proper by simp
  have pages: "unat (sector_count ?rs 0 * 16) = 16 * sum_list (map sectors ?rs)"
    using count total by (simp add: unat_word_ariths)
  have first: "range_first s' i = sum_list (map sectors (take i ?rs))"
    and nxt: "range_next s' i = sum_list (map sectors (take (Suc i) ?rs))" if "i < length (rangestart s)" for i
    using numbers(2) [of i] proper that len
    by (simp_all add: s' range_next_def sum_take_Suc) (simp add: sectors_def)
  have nonempty: "unat (sector_count ?rs 0) \<noteq> 0" using cnt(1) by (simp add: unat_eq_0)
  have "layout_ok s'"
    unfolding layout_ok_def
  proof (intro conjI allI impI)
    fix q
    assume q: "q < length (rangestart s')"
    then have q': "q < length ?rs" "q < length (rangestart s)" using len by (simp_all add: s')
    then show "range_ok s' q" using ranges_sorted_nth(1-3) [OF srt q'(1)] len
      by (simp add: range_ok_def s' word_less_nat_alt)
    show "range_next s' q \<le> length (secs s')"
      using nxt [OF q'(2)] sum_take_le [of sectors "Suc q" ?rs] count by (simp add: s')
    fix r
    assume r: "r < q"
    show "range_hi s' r < range_lo s' q" using ranges_sorted_nth(5) [OF srt q'(1) r] q' r len by (simp add: s')
    show "range_next s' r \<le> range_first s' q"
      using nxt [of r] first [OF q'(2)] sum_take_mono [of "Suc r" q sectors ?rs] r q' by simp
  qed (use len count pages nonempty total in \<open>simp_all add: s'\<close>)
  moreover have "uflash_from s' = []" "uflash_to s' = []" "blank_ok s'" "\<forall>p \<in> set (pgm s'). length p \<le> 64"
    using ranges by (simp_all add: s' ranges_ok_def blank_ok_def)
  ultimately show ok: "flash_ok s'" by (simp add: flash_ok_def)
  show "valid_address s' = valid_address s"
    by (simp add: fun_eq_iff valid_address_def checkaddr_def getrange_def s')
  have "layout_ok s'" using ok by (simp add: flash_ok_def)
  show "flash_word s' a = None"
  proof (rule ccontr)
    assume known: "flash_word s' a \<noteq> None"
    then obtain r where r: "getrange s' (of_nat a) = Some r" by (auto simp: flash_word_def split: option.splits)
    then have "in_range s' r (of_nat a)" using getrange_iff [OF \<open>layout_ok s'\<close>] by simp
    from sector_cell(2,3) [OF \<open>layout_ok s'\<close> this] have "secs s' ! SECADDR s' r (of_nat a) = UNK"
      by (simp add: s')
    with known r show False by (simp add: flash_word_def)
  qed
qed

end
