(* ===== verification/Nvs_Type_Laws.thy ===== *)
theory Nvs_Type_Laws
  imports Nvs_Page Flash_Laws
begin

text \<open>
  Laws of the building blocks of a page.  The table of two-bit states behaves as an array of 126 cells (the locale
  \<open>state_table\<close>, interpreted on \<open>compressed_enum_table.hpp\<close>); the hash list, a list of blocks in which erased
  nodes stay until the whole block is dead, behaves as one list of the nodes that are alive (the locale \<open>item_index\<close>,
  interpreted on \<open>nvs_item_hash_list.cpp\<close>).
\<close>

section \<open>The table of entry states\<close>

lemma three_mask: "(3 :: u32) = mask 2"
  by (simp add: mask_eq_decr_exp)

lemma cell_set:
  assumes "k < 16" "m < 16" "(v :: u32) AND 3 = v"
  shows "drop_bit (k * 2) ((w AND NOT (push_bit (m * 2) 3)) OR push_bit (m * 2) v) AND 3 =
    (if k = m then v else drop_bit (k * 2) w AND 3)"
  unfolding three_mask
proof (rule bit_word_eqI)
  fix n :: nat
  assume "n < LENGTH(32)"
  have v: "bit v i \<Longrightarrow> i < 2" for i
    using assms(3) unfolding three_mask by (metis bit_and_iff bit_mask_iff)
  show "bit (drop_bit (k * 2) ((w AND NOT (push_bit (m * 2) (mask 2))) OR push_bit (m * 2) v) AND mask 2) n =
    bit (if k = m then v else drop_bit (k * 2) w AND mask 2) n"
  proof (cases "n < 2")
    case True
    have small: "k * 2 + n < 32" using True assms by simp
    have cell: "m * 2 \<le> k * 2 + n \<and> k * 2 + n - m * 2 < 2 \<longleftrightarrow> k = m" using True by linarith
    show ?thesis
    proof (cases "k = m")
      case True
      then show ?thesis using small \<open>n < 2\<close> by (simp add: bit_simps)
    next
      case False
      then have "\<not> bit v (k * 2 + n - m * 2) \<or> \<not> m * 2 \<le> k * 2 + n" using cell v by blast
      then show ?thesis using small \<open>n < 2\<close> False cell by (auto simp: bit_simps)
    qed
  next
    case False
    then show ?thesis using v [of n] by (auto simp: bit_simps)
  qed
qed

locale state_table =
  fixes wf :: "'t \<Rightarrow> bool"
    and get :: "'t \<Rightarrow> nat \<Rightarrow> u32 option"
    and put :: "'t \<Rightarrow> nat \<Rightarrow> u32 \<Rightarrow> 't option"
    and n :: nat
  assumes outside: "n \<le> i \<Longrightarrow> get t i = None \<and> put t i v = None"
    and get_some: "wf t \<Longrightarrow> i < n \<Longrightarrow> get t i \<noteq> None"
    and put_law: "wf t \<Longrightarrow> i < n \<Longrightarrow> v AND 3 = v \<Longrightarrow>
      \<exists>t'. put t i v = Some t' \<and> wf t' \<and> (\<forall>j < n. get t' j = (if j = i then Some v else get t j))"
begin

lemma put_put:
  assumes "wf t" "i < n" "j < n" "v AND 3 = v" "w AND 3 = w"
  shows "\<exists>t' t''. put t i v = Some t' \<and> put t' j w = Some t'' \<and> wf t'' \<and>
    (\<forall>k < n. get t'' k = (if k = j then Some w else if k = i then Some v else get t k))"
proof -
  obtain t' where t': "put t i v = Some t'" "wf t'" "\<forall>k < n. get t' k = (if k = i then Some v else get t k)"
    using put_law [OF assms(1,2,4)] by blast
  obtain t'' where "put t' j w = Some t''" "wf t''" "\<forall>k < n. get t'' k = (if k = j then Some w else get t' k)"
    using put_law [OF t'(2) assms(3,5)] by blast
  with t' show ?thesis by auto
qed

end

interpretation entries: state_table "\<lambda>t. length t = 8" entry_get entry_set ENTRY_COUNT
proof (unfold_locales, goal_cases)
  case (2 t i)
  then show ?case by (simp add: entry_get_def elem_def getWordIndex_def ITEMS_PER_WORD_def ENTRY_COUNT_def)
next
  case (3 t i v)
  have div: "j div 16 < 8" if "j < ENTRY_COUNT" for j using that by (simp add: ENTRY_COUNT_def)
  let ?t = "t[i div 16 := (t ! (i div 16) AND NOT (push_bit (i mod 16 * 2) 3)) OR push_bit (i mod 16 * 2) v]"
  have "entry_set t i v = Some ?t"
    using 3 div by (simp add: entry_set_def elem_def set_elem_def getWordIndex_def ITEMS_PER_WORD_def Let_def)
  moreover have "entry_get ?t j = (if j = i then Some v else entry_get t j)" if j: "j < ENTRY_COUNT" for j
  proof (cases "j div 16 = i div 16")
    case True
    then have "j mod 16 = i mod 16 \<longleftrightarrow> j = i" by (metis div_mult_mod_eq)
    then show ?thesis
      using True 3 j div [OF j] cell_set [of "j mod 16" "i mod 16" v "t ! (i div 16)"]
      by (simp add: entry_get_def elem_def getWordIndex_def ITEMS_PER_WORD_def)
  next
    case False
    then show ?thesis using j 3 div [OF j]
      by (auto simp add: entry_get_def elem_def getWordIndex_def ITEMS_PER_WORD_def)
  qed
  ultimately show ?case using 3(1) by (intro exI [of _ ?t]) simp
qed (simp_all add: entry_get_def entry_set_def)

section \<open>The hash list\<close>

definition live :: "(u8 \<times> u32) list \<Rightarrow> (u8 \<times> u32) list" where
  "live ns = filter (\<lambda>(i, h). i \<noteq> 0xff) ns"

definition live_nodes :: "hash_list \<Rightarrow> (u8 \<times> u32) list" where
  "live_nodes bl = live (concat bl)"

definition blocks_ok :: "hash_list \<Rightarrow> bool" where
  "blocks_ok bl \<longleftrightarrow> (\<forall>b \<in> set bl. b \<noteq> [] \<and> length b \<le> BLOCK_ENTRY_COUNT) \<and> distinct (map fst (live_nodes bl))"

lemma live_simps [simp]:
  "live [] = []" "live (ns @ ms) = live ns @ live ms"
  "live ((i, h) # ns) = (if i = 0xff then live ns else (i, h) # live ns)"
  by (simp_all add: live_def)

lemma find_node_live:
  "find_node start h ns = map_option (\<lambda>(i, _). unat i) (find (\<lambda>(i, h'). start \<le> unat i \<and> h' = h) (live ns))"
  by (induction ns) (auto split: if_splits)

lemma concat_hash_insert: "concat (hash_insert crc it index bl) = concat bl @ [(of_nat index, hash_24 crc it)]"
proof (cases "bl = []")
  case False
  have "concat bl = concat (butlast bl) @ last bl" using append_butlast_last_id [OF False] by (metis concat_append concat.simps append_Nil2)
  then show ?thesis by (simp add: hash_insert_def Let_def)
qed (simp add: hash_insert_def)

lemma hash_insert_blocks:
  assumes "\<forall>b \<in> set bl. b \<noteq> [] \<and> length b \<le> BLOCK_ENTRY_COUNT"
  shows "\<forall>b \<in> set (hash_insert crc it index bl). b \<noteq> [] \<and> length b \<le> BLOCK_ENTRY_COUNT"
  using assms by (auto simp: hash_insert_def Let_def BLOCK_ENTRY_COUNT_def dest: in_set_butlastD)

lemma erase_nodes_live:
  assumes "erase_nodes index ns have found = (ns', have', found', returned)"
    and "index < 255" "distinct (map fst (live ns))" "found \<longrightarrow> of_nat index \<notin> fst ` set (live ns)"
  shows "live ns' = filter (\<lambda>(i, _). i \<noteq> of_nat index) (live ns)"
    and "found' \<longleftrightarrow> found \<or> of_nat index \<in> fst ` set (live ns)"
    and "returned \<Longrightarrow> have' \<and> found'"
    and "\<not> returned \<Longrightarrow> have' \<longleftrightarrow> have \<or> live ns' \<noteq> []"
    and "length ns' = length ns"
proof -
  have I: "(of_nat index :: u8) \<noteq> 0xff" and u: "unat (of_nat index :: u8) = index"
    using assms(2) by (auto simp: unat_of_nat dest: arg_cong [where f = unat])
  have iff: "unat i = index \<longleftrightarrow> i = of_nat index" for i :: u8 using u by auto
  have absent: "filter (\<lambda>(i, _). i \<noteq> x) ms = ms" if "x \<notin> fst ` set ms" for x :: u8 and ms :: "(u8 \<times> u32) list"
    using that by (induction ms) auto
  have "live ns' = filter (\<lambda>(i, _). i \<noteq> of_nat index) (live ns) \<and>
    (found' \<longleftrightarrow> found \<or> of_nat index \<in> fst ` set (live ns)) \<and> (returned \<longrightarrow> have' \<and> found') \<and>
    (\<not> returned \<longrightarrow> (have' \<longleftrightarrow> have \<or> live ns' \<noteq> [])) \<and> length ns' = length ns"
    using assms(1,3,4)
  proof (induction ns arbitrary: "have" found ns' have' found' returned)
    case (Cons n ns)
    obtain i h where n: "n = (i, h)" by force
    show ?case
    proof (cases "i = of_nat index")
      case True
      then have no: "of_nat index \<notin> fst ` set (live ns)" using Cons.prems(2) I by (simp add: n)
      show ?thesis
      proof (cases "have")
        case True
        then show ?thesis using Cons.prems \<open>i = _\<close> no I u absent [OF no] by (auto simp: n Let_def)
      next
        case False
        obtain r where r: "erase_nodes index ns False True = r" "(ns', have', found', returned) = (((0xff :: u8), h) # fst r, snd r)"
          using Cons.prems(1) False \<open>i = _\<close> u by (auto simp: n Let_def split: prod.splits)
        then show ?thesis
          using Cons.IH [of False True "fst r" "fst (snd r)" "fst (snd (snd r))" "snd (snd (snd r))"]
            Cons.prems(2) no I False \<open>i = _\<close> by (cases r) (auto simp: n)
      qed
    next
      case False
      show ?thesis
      proof (cases "(have \<or> i \<noteq> 0xff) \<and> found")
        case True
        then have "of_nat index \<notin> fst ` set (live ns)" using Cons.prems(3) by (auto simp: n split: if_splits)
        then show ?thesis using Cons.prems True False absent by (auto simp: n Let_def iff)
      next
        case go: False
        obtain r where r: "erase_nodes index ns (have \<or> i \<noteq> 0xff) found = r" "(ns', have', found', returned) = ((i, h) # fst r, snd r)"
          using Cons.prems(1) False go by (auto simp: n Let_def iff split: prod.splits)
        then show ?thesis
          using Cons.IH [of "have \<or> i \<noteq> 0xff" found "fst r" "fst (snd r)" "fst (snd (snd r))" "snd (snd (snd r))"]
            Cons.prems(2,3) False by (cases r) (auto simp: n split: if_splits)
      qed
    qed
  qed auto
  then show "live ns' = filter (\<lambda>(i, _). i \<noteq> of_nat index) (live ns)"
    and "found' \<longleftrightarrow> found \<or> of_nat index \<in> fst ` set (live ns)"
    and "returned \<Longrightarrow> have' \<and> found'"
    and "\<not> returned \<Longrightarrow> have' \<longleftrightarrow> have \<or> live ns' \<noteq> []"
    and "length ns' = length ns" by blast+
qed

lemma hash_erase_live:
  assumes "index < 255" "distinct (map fst (live_nodes bl))"
    and "\<forall>b \<in> set bl. b \<noteq> [] \<and> length b \<le> BLOCK_ENTRY_COUNT"
  shows "hash_erase index must bl = None \<longleftrightarrow> must \<and> of_nat index \<notin> fst ` set (live_nodes bl)"
    and "hash_erase index must bl = Some bl' \<Longrightarrow>
      live_nodes bl' = filter (\<lambda>(i, _). i \<noteq> of_nat index) (live_nodes bl) \<and>
      (\<forall>b \<in> set bl'. b \<noteq> [] \<and> length b \<le> BLOCK_ENTRY_COUNT)"
proof -
  have "(hash_erase index must bl = None \<longleftrightarrow> must \<and> of_nat index \<notin> fst ` set (live_nodes bl)) \<and>
    (\<forall>bl'. hash_erase index must bl = Some bl' \<longrightarrow>
      live_nodes bl' = filter (\<lambda>(i, _). i \<noteq> of_nat index) (live_nodes bl) \<and>
      (\<forall>b \<in> set bl'. b \<noteq> [] \<and> length b \<le> BLOCK_ENTRY_COUNT))"
    using assms(2,3)
  proof (induction bl)
    case (Cons b bl)
    obtain b' hv fd ret where e: "erase_nodes index b False False = (b', hv, fd, ret)" by (metis prod_cases4)
    have d: "distinct (map fst (live b))" "distinct (map fst (live_nodes bl))"
      "fst ` set (live b) \<inter> fst ` set (live_nodes bl) = {}"
      using Cons.prems(1) by (auto simp: live_nodes_def)
    note law = erase_nodes_live [OF e assms(1) d(1)]
    have absent: "filter (\<lambda>(i, _). i \<noteq> x) ms = ms" if "x \<notin> fst ` set ms" for x :: u8 and ms :: "(u8 \<times> u32) list"
      using that by (induction ms) auto
    have nodes: "live_nodes (c # cs) = live c @ live_nodes cs" for c cs by (simp add: live_nodes_def)
    have b': "b' \<noteq> []" "length b' \<le> BLOCK_ENTRY_COUNT" using law(5) Cons.prems(2) by auto
    show ?case
    proof (cases fd)
      case True
      then have "of_nat index \<in> fst ` set (live b)" using law(2) by simp
      then have "of_nat index \<notin> fst ` set (live_nodes bl)" using d(3) by auto
      then show ?thesis
        using e law True b' Cons.prems(2) \<open>of_nat index \<in> fst ` set (live b)\<close> absent by (cases ret) (auto simp: nodes)
    next
      case False
      then have no: "\<not> ret" "of_nat index \<notin> fst ` set (live b)" using law(2,3) by auto
      then have same: "live b' = live b" "hv \<longleftrightarrow> live b' \<noteq> []" using law(1,4) absent by auto
      let ?keep = "\<lambda>rest. if hv then b' # rest else rest"
      have step: "hash_erase index must (b # bl) = map_option ?keep (hash_erase index must bl)"
        using e no False by simp
      have kept: "live_nodes (?keep cs) = live b @ live_nodes cs" for cs using same by (simp add: nodes)
      have IH: "hash_erase index must bl = None \<longleftrightarrow> must \<and> of_nat index \<notin> fst ` set (live_nodes bl)"
        "\<And>cs. hash_erase index must bl = Some cs \<Longrightarrow>
          live_nodes cs = filter (\<lambda>(i, _). i \<noteq> of_nat index) (live_nodes bl) \<and>
          (\<forall>b \<in> set cs. b \<noteq> [] \<and> length b \<le> BLOCK_ENTRY_COUNT)"
        using Cons.IH [OF d(2)] Cons.prems(2) by simp_all
      have "hash_erase index must (b # bl) = None \<longleftrightarrow> must \<and> of_nat index \<notin> fst ` set (live_nodes (b # bl))"
        unfolding step nodes using IH(1) no(2) by (simp add: image_Un)
      moreover have "live_nodes bl' = filter (\<lambda>(i, _). i \<noteq> of_nat index) (live_nodes (b # bl)) \<and>
          (\<forall>b \<in> set bl'. b \<noteq> [] \<and> length b \<le> BLOCK_ENTRY_COUNT)"
        if gone: "hash_erase index must (b # bl) = Some bl'" for bl'
      proof -
        obtain cs where cs: "hash_erase index must bl = Some cs" "bl' = ?keep cs" using gone unfolding step by (auto simp: map_option_case split: option.splits)
        show ?thesis unfolding cs(2) kept nodes using IH(2) [OF cs(1)] absent [OF no(2)] b' by simp
      qed
      ultimately show ?thesis by blast
    qed
  qed (simp add: live_nodes_def)
  then show "hash_erase index must bl = None \<longleftrightarrow> must \<and> of_nat index \<notin> fst ` set (live_nodes bl)"
    and "hash_erase index must bl = Some bl' \<Longrightarrow>
      live_nodes bl' = filter (\<lambda>(i, _). i \<noteq> of_nat index) (live_nodes bl) \<and>
      (\<forall>b \<in> set bl'. b \<noteq> [] \<and> length b \<le> BLOCK_ENTRY_COUNT)" by blast+
qed

text \<open>What the page asks of the list\<close>

locale item_index =
  fixes wf :: "'t \<Rightarrow> bool"
    and nodes :: "'t \<Rightarrow> (u8 \<times> u32) list"
    and hash :: "Item \<Rightarrow> u32"
    and ins :: "Item \<Rightarrow> nat \<Rightarrow> 't \<Rightarrow> 't"
    and del :: "nat \<Rightarrow> bool \<Rightarrow> 't \<Rightarrow> 't option"
    and look :: "nat \<Rightarrow> Item \<Rightarrow> 't \<Rightarrow> nat"
  assumes ins_law: "wf t \<Longrightarrow> i < 255 \<Longrightarrow> of_nat i \<notin> fst ` set (nodes t) \<Longrightarrow>
      wf (ins it i t) \<and> nodes (ins it i t) = nodes t @ [(of_nat i, hash it)]"
    and del_law: "wf t \<Longrightarrow> i < 255 \<Longrightarrow>
      (del i must t = None \<longleftrightarrow> must \<and> of_nat i \<notin> fst ` set (nodes t)) \<and>
      (\<forall>t'. del i must t = Some t' \<longrightarrow> wf t' \<and> nodes t' = filter (\<lambda>(j, _). j \<noteq> of_nat i) (nodes t))"
    and look_law: "look start it t =
      (case find (\<lambda>(j, h). start \<le> unat j \<and> h = hash it) (nodes t) of None \<Rightarrow> SIZE_MAX | Some (j, _) \<Rightarrow> unat j)"
begin

lemma look_found:
  assumes "look start it t = i" "i < 255"
  shows "(of_nat i, hash it) \<in> set (nodes t)" and "start \<le> i"
  using assms by (auto simp: look_law SIZE_MAX_def find_Some_iff in_set_conv_nth split: option.splits)

lemma look_after_ins:
  assumes "wf t" "i < 255" "of_nat i \<notin> fst ` set (nodes t)" "start \<le> i"
  shows "look start it (ins it' i t) =
    (if look start it t \<noteq> SIZE_MAX then look start it t else if hash it' = hash it then i else SIZE_MAX)"
proof -
  have app: "find P (xs @ [x]) = (case find P xs of None \<Rightarrow> if P x then Some x else None | Some y \<Rightarrow> Some y)"
    for P :: "u8 \<times> u32 \<Rightarrow> bool" and xs x by (induction xs) auto
  have u: "unat (of_nat i :: u8) = i" using assms(2) by (simp add: unat_of_nat)
  have small: "unat (j :: u8) \<noteq> SIZE_MAX" for j
  proof -
    have "unat j < 2 ^ LENGTH(8)" by (rule unsigned_less)
    then show ?thesis by (simp add: SIZE_MAX_def)
  qed
  show ?thesis
    using ins_law [OF assms(1-3), of it'] u assms(4) small
    by (auto simp: look_law app split: option.splits)
qed

lemma look_after_del:
  assumes "wf t" "i < 255" "del i must t = Some t'"
  shows "look start it t' \<noteq> i"
proof
  assume "look start it t' = i"
  from look_found(1) [OF this assms(2)] del_law [OF assms(1,2)] assms(3) show False by fastforce
qed

end

interpretation hashes: item_index blocks_ok live_nodes "hash_24 crc" "hash_insert crc" hash_erase "hash_find crc" for crc
proof (unfold_locales, goal_cases)
  case (1 t i it)
  have "(of_nat i :: u8) \<noteq> 0xff" using 1(2) by (auto simp: unat_of_nat dest: arg_cong [where f = unat])
  then have "live_nodes (hash_insert crc it i t) = live_nodes t @ [(of_nat i, hash_24 crc it)]"
    by (simp add: live_nodes_def concat_hash_insert)
  then show ?case using 1 hash_insert_blocks [of t crc it i] by (auto simp: blocks_ok_def)
next
  case (2 t i must)
  have "distinct (map fst (live_nodes t))" "\<forall>b \<in> set t. b \<noteq> [] \<and> length b \<le> BLOCK_ENTRY_COUNT"
    using 2(1) by (simp_all add: blocks_ok_def)
  note law = hash_erase_live [OF 2(2) this]
  have "distinct (map fst (filter P xs))" if "distinct (map fst xs)" for P and xs :: "(u8 \<times> u32) list"
    using that by (rule distinct_map_filter)
  then show ?case using law \<open>distinct _\<close> by (auto simp: blocks_ok_def)
next
  case (3 start it t)
  have "hash_find crc start it t = (case find_node start (hash_24 crc it) (concat t) of None \<Rightarrow> SIZE_MAX | Some i \<Rightarrow> i)"
    by (simp add: hash_find_def)
  then show ?case by (simp add: find_node_live live_nodes_def split: option.splits)
qed

section \<open>Items\<close>

lemma set_field_nth:
  "off + length bs \<le> length it \<Longrightarrow> i < length it \<Longrightarrow>
    set_field off bs it ! i = (if off \<le> i \<and> i < off + length bs then bs ! (i - off) else it ! i)"
  by (auto simp: set_field_def nth_append min_def)

lemma length_set_field [simp]: "off + length bs \<le> length it \<Longrightarrow> length (set_field off bs it) = length it"
  by (simp add: set_field_def)

lemma field_nth: "off + n \<le> length it \<Longrightarrow> field off n it = map (\<lambda>i. it ! (off + i)) [0..<n]"
  by (auto simp: field_def intro!: nth_equalityI)

lemma field_set_other:
  "off + length bs \<le> length it \<Longrightarrow> a + n \<le> length it \<Longrightarrow> a + n \<le> off \<or> off + length bs \<le> a \<Longrightarrow>
    field a n (set_field off bs it) = field a n it"
  by (auto simp: field_nth set_field_nth)

lemma field_set_same: "off + length bs \<le> length it \<Longrightarrow> field off (length bs) (set_field off bs it) = bs"
  by (auto simp: field_nth set_field_nth intro!: nth_equalityI)

lemma word_field_set_other:
  "off + length bs \<le> length it \<Longrightarrow> a + 4 \<le> length it \<Longrightarrow> a + 4 \<le> off \<or> off + length bs \<le> a \<Longrightarrow>
    word_field a (set_field off bs it) = word_field a it"
  by (auto simp: word_field_def set_field_nth)

lemma word_field_set_same: "off + 4 \<le> length it \<Longrightarrow> word_field off (set_field off (le32_bytes w) it) = w"
  by (simp add: word_field_def set_field_nth le32_bytes_def le32_le32_bytes)

lemma length_le32_bytes [simp]: "length (le32_bytes w) = 4"
  by (simp add: le32_bytes_def)

lemma length_seal [simp]: "length it = 32 \<Longrightarrow> length (seal crc it) = 32"
  by (simp add: seal_def)

lemma sealed: "length it = 32 \<Longrightarrow> crc32 (seal crc it) = calculateCrc32 crc (seal crc it)"
  by (simp add: seal_def crc32_def calculateCrc32_def word_field_set_same field_set_other)

lemma seal_fields [simp]:
  assumes "length it = 32"
  shows "nsIndex (seal crc it) = nsIndex it" "datatype_of (seal crc it) = datatype_of it"
    "span_of (seal crc it) = span_of it" "chunkIndex (seal crc it) = chunkIndex it"
    "key_of (seal crc it) = key_of it" "data_of (seal crc it) = data_of it"
    "var_dataSize (seal crc it) = var_dataSize it" "var_dataCrc32 (seal crc it) = var_dataCrc32 it"
  using assms
  by (simp_all add: seal_def nsIndex_def datatype_of_def span_of_def chunkIndex_def key_of_def data_of_def
      var_dataSize_def var_dataCrc32_def set_field_nth field_set_other word_field_set_other)

lemma length_key_field [simp]: "length (key_field key) = 16"
  by (simp add: key_field_def)

lemma make_item_fields [simp]:
  "length (make_item ns ty sp (Some key) c) = 32" "nsIndex (make_item ns ty sp k c) = ns"
  "datatype_of (make_item ns ty sp k c) = ty" "span_of (make_item ns ty sp k c) = sp"
  "chunkIndex (make_item ns ty sp k c) = c" "key_of (make_item ns ty sp (Some key) c) = key_field key"
  by (simp_all add: make_item_def nsIndex_def datatype_of_def span_of_def chunkIndex_def key_of_def field_def)

text \<open>The hash is of the name: the namespace, the key and the chunk.\<close>

lemma hash_of_name:
  assumes "length a = 32" "length b = 32" "nsIndex a = nsIndex b" "key_of a = key_of b" "chunkIndex a = chunkIndex b"
  shows "hash_24 crc a = hash_24 crc b"
proof -
  have "field 0 1 x = [nsIndex x]" "field 3 1 x = [chunkIndex x]" if "length x = 32" for x
    using that by (simp_all add: field_nth nsIndex_def chunkIndex_def)
  with assms show ?thesis by (simp add: hash_24_def calculateCrc32WithoutValue_def key_of_def)
qed

lemma hash_make_item: "hash_24 crc (make_item ns ty sp (Some key) c) = hash_24 crc (make_item ns ty' sp' (Some key) c)"
  by (rule hash_of_name) simp_all

text \<open>Keys of at most 15 characters are compared as the fields they fill.\<close>

lemma takeWhile_key: "takeWhile (\<lambda>c. c \<noteq> 0) (take 15 (key_field key)) = takeWhile (\<lambda>c. c \<noteq> 0) (take 15 key)"
proof -
  have zeros: "takeWhile (\<lambda>c. c \<noteq> 0) (xs @ replicate n 0) = takeWhile (\<lambda>c. c \<noteq> (0 :: u8)) xs" for xs n
  proof (induction xs)
    case Nil
    show ?case by (cases n) simp_all
  qed simp
  have "take 15 (key_field key) = take 15 key @ replicate (15 - length (take 15 key)) 0"
    by (simp add: key_field_def min_def)
  then show ?thesis by (simp only: zeros)
qed

lemma key_matches: "strncmp_eq MAX_KEY_LENGTH key (key_field key)"
  by (simp add: strncmp_eq_def MAX_KEY_LENGTH_def takeWhile_key)

lemma key_field_inj:
  assumes "length a \<le> 15" "length b \<le> 15" "0 \<notin> set a" "0 \<notin> set b"
  shows "strncmp_eq MAX_KEY_LENGTH a (key_field b) \<longleftrightarrow> a = b"
proof -
  have "takeWhile (\<lambda>c. c \<noteq> 0) x = x" if "(0 :: u8) \<notin> set x" for x
    using that by (induction x) auto
  from this [OF assms(3)] this [OF assms(4)] show ?thesis
    using assms(1,2) by (simp add: strncmp_eq_def MAX_KEY_LENGTH_def takeWhile_key del: takeWhile_eq_all_conv)
qed

subsection \<open>The item of a value of variable length\<close>

lemma length_le16_bytes [simp]: "length (le16_bytes w) = 2"
  by (simp add: le16_bytes_def)

lemma le16_le16_bytes: "le16 (ucast w) (ucast (drop_bit 8 w)) = (w :: u16)"
  by (rule bit_word_eqI) (auto simp: le16_def bit_simps)

lemma var_item_fields [simp]:
  assumes "length it = 32"
  shows "length (var_item crc it v) = 32" "nsIndex (var_item crc it v) = nsIndex it"
    "datatype_of (var_item crc it v) = datatype_of it" "span_of (var_item crc it v) = span_of it"
    "chunkIndex (var_item crc it v) = chunkIndex it" "key_of (var_item crc it v) = key_of it"
    "var_dataSize (var_item crc it v) = of_nat (length v)" "var_dataCrc32 (var_item crc it v) = data_crc32 crc v"
    "crc32 (var_item crc it v) = calculateCrc32 crc (var_item crc it v)"
  using assms
  by (simp_all add: var_item_def sealed)
    (simp_all add: nsIndex_def datatype_of_def span_of_def chunkIndex_def key_of_def
      var_dataSize_def var_dataCrc32_def set_field_nth field_set_other word_field_set_other word_field_set_same
      le16_bytes_def le16_le16_bytes)

end
