(* ===== verification/Partition.thy ===== *)
theory Partition
  imports Spi_Flash
begin

text \<open>
  The partition interface, \<open>esp32sdk/spi_flash/esp_partition.cpp\<close>: a fixed table of partitions,
  loaded into a linked list at the first search, iterators over it, and reading, writing and erasing
  relative to a partition with its limits checked.

  The list is the linked list \<open>s_partition_list\<close>, empty until it has been loaded; an iterator's
  \<open>next_item\<close> is what remains of the list from that item on.  A null iterator or partition is \<open>None\<close>; an
  assertion that fails makes the result \<open>None\<close>.
\<close>

datatype esp_partition_type_t = ESP_PARTITION_TYPE_APP | ESP_PARTITION_TYPE_DATA

type_synonym esp_partition_subtype_t = u8

definition ESP_PARTITION_SUBTYPE_APP_OTA_0 :: u8 where "ESP_PARTITION_SUBTYPE_APP_OTA_0 = 0x10"
definition ESP_PARTITION_SUBTYPE_APP_OTA_1 :: u8 where "ESP_PARTITION_SUBTYPE_APP_OTA_1 = 0x11"
definition ESP_PARTITION_SUBTYPE_DATA_OTA :: u8 where "ESP_PARTITION_SUBTYPE_DATA_OTA = 0x00"
definition ESP_PARTITION_SUBTYPE_DATA_NVS :: u8 where "ESP_PARTITION_SUBTYPE_DATA_NVS = 0x02"
definition ESP_PARTITION_SUBTYPE_DATA_SPIFFS :: u8 where "ESP_PARTITION_SUBTYPE_DATA_SPIFFS = 0x82"
definition ESP_PARTITION_SUBTYPE_ANY :: u8 where "ESP_PARTITION_SUBTYPE_ANY = 0xff"

record esp_partition_t =
  ptype :: esp_partition_type_t
  psubtype :: esp_partition_subtype_t
  paddress :: u32
  psize :: u32
  plabel :: "u8 list"
  pencrypted :: bool

record partition_iterator =
  it_type :: esp_partition_type_t
  it_subtype :: esp_partition_subtype_t
  it_label :: cstr
  it_next_item :: "esp_partition_t list"
  it_info :: "esp_partition_t option"

definition load_partitions :: "esp_partition_t list" where
  "load_partitions =
    [\<lparr>ptype = ESP_PARTITION_TYPE_DATA, psubtype = ESP_PARTITION_SUBTYPE_DATA_NVS,
      paddress = 0x9000, psize = 0x5000, plabel = ascii ''nvs'', pencrypted = False\<rparr>,
     \<lparr>ptype = ESP_PARTITION_TYPE_DATA, psubtype = ESP_PARTITION_SUBTYPE_DATA_OTA,
      paddress = 0xe000, psize = 0x2000, plabel = ascii ''otadata'', pencrypted = False\<rparr>,
     \<lparr>ptype = ESP_PARTITION_TYPE_APP, psubtype = ESP_PARTITION_SUBTYPE_APP_OTA_0,
      paddress = 0x10000, psize = 0x140000, plabel = ascii ''ota_0'', pencrypted = False\<rparr>,
     \<lparr>ptype = ESP_PARTITION_TYPE_APP, psubtype = ESP_PARTITION_SUBTYPE_APP_OTA_1,
      paddress = 0x150000, psize = 0x140000, plabel = ascii ''ota_1'', pencrypted = False\<rparr>,
     \<lparr>ptype = ESP_PARTITION_TYPE_DATA, psubtype = ESP_PARTITION_SUBTYPE_DATA_NVS,
      paddress = 0x290000, psize = 0x1000, plabel = ascii ''eeprom'', pencrypted = False\<rparr>,
     \<lparr>ptype = ESP_PARTITION_TYPE_DATA, psubtype = ESP_PARTITION_SUBTYPE_DATA_SPIFFS,
      paddress = 0x291000, psize = 0x16F000, plabel = ascii ''spiffs'', pencrypted = False\<rparr>]"

section \<open>Iterators\<close>

definition iterator_create ::
  "esp_partition_t list \<Rightarrow> esp_partition_type_t \<Rightarrow> u8 \<Rightarrow> cstr \<Rightarrow> partition_iterator" where
  "iterator_create ps ty st label =
     \<lparr>it_type = ty, it_subtype = st, it_label = label, it_next_item = ps, it_info = None\<rparr>"

definition matches :: "partition_iterator \<Rightarrow> esp_partition_t \<Rightarrow> bool" where
  "matches it p \<longleftrightarrow>
     it_type it = ptype p \<and>
     (it_subtype it = 0xff \<or> it_subtype it = psubtype p) \<and>
     (case it_label it of None \<Rightarrow> True | Some l \<Rightarrow> l = plabel p)"

text \<open>The iterator at the next match, or \<open>None\<close> for the null pointer that is returned after it is released.\<close>

definition esp_partition_next :: "partition_iterator \<Rightarrow> partition_iterator option" where
  "esp_partition_next it =
     (case dropWhile (\<lambda>p. \<not> matches it p) (it_next_item it) of
        [] \<Rightarrow> None
      | p # ps \<Rightarrow> Some (it\<lparr>it_info := Some p, it_next_item := ps\<rparr>))"

definition esp_partition_find ::
  "esp_partition_type_t \<Rightarrow> u8 \<Rightarrow> cstr \<Rightarrow> esp_partition_t list \<Rightarrow> partition_iterator option \<times> esp_partition_t list" where
  "esp_partition_find ty st label ps =
     (let ps = (if ps = [] then load_partitions else ps)
      in (esp_partition_next (iterator_create ps ty st label), ps))"

text \<open>\<open>assert(iterator != NULL)\<close>\<close>

definition esp_partition_get :: "partition_iterator option \<Rightarrow> esp_partition_t option option" where
  "esp_partition_get it = map_option it_info it"

definition esp_partition_find_first ::
  "esp_partition_type_t \<Rightarrow> u8 \<Rightarrow> cstr \<Rightarrow> esp_partition_t list \<Rightarrow> esp_partition_t option \<times> esp_partition_t list" where
  "esp_partition_find_first ty st label ps =
     (let (it, ps) = esp_partition_find ty st label ps
      in (Option.bind it it_info, ps))"

section \<open>Verifying a partition\<close>

text \<open>The loop over the matches; the iterator's list gets shorter.\<close>

lemma next_item_shorter:
  "esp_partition_next it = Some it' \<Longrightarrow> length (it_next_item it') < length (it_next_item it)"
proof -
  assume "esp_partition_next it = Some it'"
  then obtain p ps where "dropWhile (\<lambda>p. \<not> matches it p) (it_next_item it) = p # ps" "it_next_item it' = ps"
    by (auto simp: esp_partition_next_def split: list.splits)
  then show ?thesis
    using length_dropWhile_le [of "\<lambda>p. \<not> matches it p" "it_next_item it"] by simp
qed

definition same_partition :: "esp_partition_t \<Rightarrow> esp_partition_t \<Rightarrow> bool" where
  "same_partition p q \<longleftrightarrow> paddress p = paddress q \<and> psize p = psize q \<and> pencrypted p = pencrypted q"

function verify_loop :: "esp_partition_t \<Rightarrow> partition_iterator option \<Rightarrow> esp_partition_t option option" where
  "verify_loop q None = Some None"
| "verify_loop q (Some it) =
     (case it_info it of
        None \<Rightarrow> None
      | Some p \<Rightarrow> if same_partition p q then Some (Some p) else verify_loop q (esp_partition_next it))"
  by pat_completeness auto
termination
proof (relation "measure (\<lambda>(q, it). case it of None \<Rightarrow> 0 | Some it \<Rightarrow> Suc (length (it_next_item it)))", goal_cases)
  case (2 q it p)
  then show ?case
    by (cases "esp_partition_next it") (auto dest: next_item_shorter)
qed simp

definition esp_partition_verify ::
  "esp_partition_t option \<Rightarrow> esp_partition_t list \<Rightarrow> (esp_partition_t option \<times> esp_partition_t list) option" where
  "esp_partition_verify part ps =
     (case part of
        None \<Rightarrow> None
      | Some q \<Rightarrow>
          (let label = (if plabel q \<noteq> [] then Some (plabel q) else None);
               (it, ps) = esp_partition_find (ptype q) (psubtype q) label ps
           in map_option (\<lambda>r. (r, ps)) (verify_loop q it)))"

section \<open>Access relative to a partition\<close>

text \<open>The sum of an offset and a size is a \<open>size_t\<close>, so it wraps at 64 bits.\<close>

definition esp_partition_read ::
  "esp_partition_t option \<Rightarrow> nat \<Rightarrow> u8 list \<Rightarrow> nat \<Rightarrow> nat \<Rightarrow> cchanflash \<Rightarrow>
     (esp_err_t \<times> u8 list \<times> cchanflash) option" where
  "esp_partition_read part src_offset dst off len s =
     (case part of
        None \<Rightarrow> None
      | Some p \<Rightarrow>
          if src_offset > unat (psize p) then Some (ESP_ERR_INVALID_ARG, dst, s)
          else if size_add src_offset len > unat (psize p) then Some (ESP_ERR_INVALID_SIZE, dst, s)
          else if \<not> pencrypted p then spi_flash_read (size_add (unat (paddress p)) src_offset) dst off len s
          else Some (ESP_ERR_NOT_SUPPORTED, dst, s))"

definition esp_partition_write ::
  "esp_partition_t option \<Rightarrow> nat \<Rightarrow> u8 list \<Rightarrow> nat \<Rightarrow> cchanflash \<Rightarrow> (esp_err_t \<times> cchanflash) option" where
  "esp_partition_write part dst_offset src len s =
     (case part of
        None \<Rightarrow> None
      | Some p \<Rightarrow>
          if dst_offset > unat (psize p) then Some (ESP_ERR_INVALID_ARG, s)
          else if size_add dst_offset len > unat (psize p) then Some (ESP_ERR_INVALID_SIZE, s)
          else if \<not> pencrypted p then spi_flash_write (size_add (unat (paddress p)) dst_offset) src len s
          else Some (ESP_ERR_NOT_SUPPORTED, s))"

definition SPI_FLASH_SEC_SIZE :: nat where "SPI_FLASH_SEC_SIZE = 4096"

definition esp_partition_erase_range ::
  "esp_partition_t option \<Rightarrow> nat \<Rightarrow> nat \<Rightarrow> cchanflash \<Rightarrow> (esp_err_t \<times> cchanflash) option" where
  "esp_partition_erase_range part start_addr len s =
     (case part of
        None \<Rightarrow> None
      | Some p \<Rightarrow>
          if start_addr > unat (psize p) then Some (ESP_ERR_INVALID_ARG, s)
          else if size_add start_addr len > unat (psize p) then Some (ESP_ERR_INVALID_SIZE, s)
          else if len mod SPI_FLASH_SEC_SIZE \<noteq> 0 then Some (ESP_ERR_INVALID_SIZE, s)
          else if start_addr mod SPI_FLASH_SEC_SIZE \<noteq> 0 then Some (ESP_ERR_INVALID_ARG, s)
          else spi_flash_erase_range (size_add (unat (paddress p)) start_addr) len s)"

definition esp_partition_get_sha256 :: esp_err_t where
  "esp_partition_get_sha256 = ESP_ERR_NOT_SUPPORTED"

definition esp_partition_check_identity :: bool where
  "esp_partition_check_identity = False"

end
