(* ===== verification/Flash_Runs.thy ===== *)
theory Flash_Runs
  imports Flash_Laws Partition
begin

text \<open>
  Properties of the flash as firmware uses it: long reads, writes that are refused, the limits of partitions, and the
  requests on which the simulation does something else than a flash would.
\<close>

section \<open>Long reads\<close>

lemma read_pages:
  "flash_ok s \<Longrightarrow> 256 dvd a \<Longrightarrow> a + 4 * length ws \<le> 2 ^ 32 \<Longrightarrow>
   (\<forall>i < length ws. flash_word s (a + 4 * i) = Some (ws ! i)) \<Longrightarrow> off + 4 * length ws \<le> length dest \<Longrightarrow>
   \<exists>s'. spi_flash_read a dest off (4 * length ws) s =
       Some (ESP_OK, take off dest @ word_bytes ws @ drop (off + 4 * length ws) dest, s') \<and>
     flash_ok s' \<and> valid_address s' = valid_address s \<and> flash_word s' = flash_word s \<and> stored s' = stored s"
proof (induction "length ws" arbitrary: s a ws off dest rule: less_induct)
  case less
  have aligned: "a mod 256 = 0" using less.prems(2) by (simp add: mod_eq_0_iff_dvd)
  consider "ws = []" | "ws \<noteq> []" "length ws \<le> 64" | "64 < length ws" by linarith
  then show ?case
  proof cases
    case 1
    then show ?thesis using less.prems(1) by (simp add: spi_flash_read.simps word_bytes_def)
  next
    case 2
    then have fit: "fits_page a (length ws)" "a < 2 ^ 32"
      using aligned less.prems(3) by (auto simp: fits_page_def neq_Nil_conv)
    show ?thesis
      using flash.read_law [OF less.prems(1) fit refl _ less.prems(5)] less.prems(4) by blast
  next
    case 3
    have split: "word_bytes ws = word_bytes (take 64 ws) @ word_bytes (drop 64 ws)" "length (take 64 ws) = 64"
      using 3 by (simp_all add: word_bytes_def flip: concat_append map_append)
    have fit: "fits_page a (length (take 64 ws))" "a < 2 ^ 32"
      using aligned less.prems(3) 3 by (simp_all add: fits_page_def)
    have first: "flash_word s (a + 4 * i) = Some (take 64 ws ! i)" if "i < length (take 64 ws)" for i
      using less.prems(4) that by simp
    have room: "off + 4 * length (take 64 ws) \<le> length dest" using less.prems(5) 3 by simp
    let ?d = "take off dest @ word_bytes (take 64 ws) @ drop (off + 256) dest"
    obtain s1 where s1: "spi_flash_read a dest off 256 s = Some (ESP_OK, ?d, s1)" "flash_ok s1"
      "valid_address s1 = valid_address s" "flash_word s1 = flash_word s" "stored s1 = stored s"
      using flash.read_law [OF less.prems(1) fit refl first room] split(2) by auto
    have next_ok: "256 dvd a + 256" "a + 256 + 4 * length (drop 64 ws) \<le> 2 ^ 32"
      "off + 256 + 4 * length (drop 64 ws) \<le> length ?d" "length (drop 64 ws) < length ws"
      using less.prems(2,3,5) 3 by simp_all
    have later: "\<forall>i < length (drop 64 ws). flash_word s1 (a + 256 + 4 * i) = Some (drop 64 ws ! i)"
    proof (intro allI impI)
      fix i
      assume "i < length (drop 64 ws)"
      then have "64 + i < length ws" by simp
      from less.prems(4) [rule_format, OF this] show "flash_word s1 (a + 256 + 4 * i) = Some (drop 64 ws ! i)" using 3 s1(4) by (simp add: add.assoc)
    qed
    from less.hyps [OF next_ok(4) s1(2) next_ok(1,2) later next_ok(3)]
    obtain s2 where s2: "spi_flash_read (a + 256) ?d (off + 256) (4 * length (drop 64 ws)) s1 =
        Some (ESP_OK, take (off + 256) ?d @ word_bytes (drop 64 ws) @ drop (off + 256 + 4 * length (drop 64 ws)) ?d, s2)"
      "flash_ok s2" "valid_address s2 = valid_address s" "flash_word s2 = flash_word s" "stored s2 = stored s"
      using s1 by auto
    have rest: "4 * length ws - 256 = 4 * length (drop 64 ws)" by simp
    have "size_add a 256 = a + 256" using less.prems(3) by simp
    moreover have "read_block a dest off 256 s = Some (ESP_OK, ?d, s1)"
      using s1(1) by (simp add: spi_flash_read.simps)
    ultimately have "spi_flash_read a dest off (4 * length ws) s =
        spi_flash_read (a + 256) ?d (off + 256) (4 * length (drop 64 ws)) s1"
      using 3 rest by (simp add: spi_flash_read.simps [of a])
    moreover have "take (off + 256) ?d @ word_bytes (drop 64 ws) @ drop (off + 256 + 4 * length (drop 64 ws)) ?d =
        take off dest @ word_bytes ws @ drop (off + 4 * length ws) dest"
    proof -
      have "drop (4 * (length ws - 64) + (off + 256)) dest = drop (off + 4 * length ws) dest"
        by (rule arg_cong [where f = "\<lambda>k. drop k dest"]) (use 3 in linarith)
      then show ?thesis using 3 less.prems(5) by (simp add: split(1) min_def)
    qed
    ultimately show ?thesis using s2 by auto
  qed
qed


section \<open>Which writes are served\<close>

lemma write_unknown:
  assumes "flash_ok s" "a < 2 ^ 32" "length ws \<le> 64" "flash_word s a = None \<or> \<not> fits_page a (length ws)"
  shows "serve_write (cmd_w @ hex_text a @ [0x20] @ dec_text (length ws) @ eol) (s\<lparr>uflash_from := f\<rparr>) = None"
proof (cases "getrange s (of_nat a)")
  case None
  then show ?thesis unfolding serve_write_def scan_addr_size_text Let_def by simp
next
  case (Some r)
  have lay: "layout_ok s" using assms(1) by (simp add: flash_ok_def)
  have loc: "located s r a" using Some assms(2) located_iff [OF lay] by simp
  have "secs s ! SECADDR s r (of_nat a) = UNK \<or> \<not> fits_page a (length ws)"
    using assms(4) flash_word_located [OF assms(1) loc] by auto
  then have "write_refused (s\<lparr>uflash_from := f, msg_addr := of_nat a, msg_size := of_nat (length ws)\<rparr>) r
      (of_nat a) (of_nat (length ws)) = Some True"
    using write_refused_iff [OF lay loc assms(3)] by (simp add: write_refused_def)
  then show ?thesis unfolding serve_write_def scan_addr_size_text Let_def using Some by simp
qed

text \<open>What a call of the driver returns, in all cases.\<close>

lemma spi_flash_write_cases:
  assumes ok: "flash_ok s" and a: "a < 2 ^ 32" and src: "4 * (len div 4) \<le> length src"
  shows "(\<exists>s'. spi_flash_write a src len s = Some (ESP_OK, s')) \<longleftrightarrow>
      len \<le> 256 \<and> flash_word s a \<noteq> None \<and> fits_page a (len div 4)"
    and "\<not> (\<exists>s'. spi_flash_write a src len s = Some (ESP_OK, s')) \<Longrightarrow> spi_flash_write a src len s = None"
proof -
  have lay: "layout_ok s" and idle: "uflash_from s = []" "secs s \<noteq> []"
    using ok by (simp_all add: flash_ok_def layout_ok_def)
  obtain ws rest where ws: "take_words (len div 4) src = Some (ws, rest)" using take_words_enough [OF src] by blast
  have n: "len div 4 = length ws" using take_words_length [OF ws] by simp
  have no: "spi_flash_write a src len s = None"
    if bad: "\<not> (len \<le> 256 \<and> flash_word s a \<noteq> None \<and> fits_page a (length ws))"
  proof (cases "len \<le> 256")
    case True
    have "length ws \<le> 64" using True n by simp
    then show ?thesis
      using write_unknown [OF ok a, of ws] serve_write_request [OF idle] bad True ws n
      by (simp add: spi_flash_write_def Let_def)
  qed (simp add: spi_flash_write_def)
  have yes: "\<exists>s'. spi_flash_write a src len s = Some (ESP_OK, s')"
    if good: "len \<le> 256" "flash_word s a \<noteq> None" "fits_page a (length ws)"
  proof -
    obtain r where "located s r a" "secs s ! SECADDR s r (of_nat a) \<noteq> UNK"
      using flash_word_known [OF lay a good(2)] by blast
    from spi_flash_write_effect [OF ok this(1) good(3) this(2) ws good(1)] show ?thesis by blast
  qed
  show "(\<exists>s'. spi_flash_write a src len s = Some (ESP_OK, s')) \<longleftrightarrow>
      len \<le> 256 \<and> flash_word s a \<noteq> None \<and> fits_page a (len div 4)"
    unfolding n using yes no by (metis option.distinct(1))
  show "\<not> (\<exists>s'. spi_flash_write a src len s = Some (ESP_OK, s')) \<Longrightarrow> spi_flash_write a src len s = None"
    using yes no by blast
qed

section \<open>Erasing several sectors\<close>

lemma erase_sectors_law:
  "flash_ok s \<Longrightarrow> sec + n < 2 ^ 64 \<Longrightarrow> (\<forall>k < n. valid_address s ((sec + k) * 4096)) \<Longrightarrow>
   \<exists>s'. erase_sectors sec n ESP_OK s = Some (ESP_OK, s') \<and> flash_ok s' \<and> valid_address s' = valid_address s \<and>
     (\<forall>b. valid_address s b \<longrightarrow> flash_word s' b =
        (if sec \<le> b div 4096 \<and> b div 4096 < sec + n then Some 0xffffffff else flash_word s b)) \<and>
     (\<forall>b. valid_address s b \<longrightarrow> stored s' b = (\<not> (sec \<le> b div 4096 \<and> b div 4096 < sec + n) \<and> stored s b))"
proof (induction n arbitrary: sec s)
  case (Suc n)
  have "valid_address s (sec * 4096)" using Suc.prems(3) [rule_format, of 0] by simp
  from flash.erase_law [OF Suc.prems(1) this] obtain s1 where s1:
    "spi_flash_erase_sector sec s = Some (ESP_OK, s1)" "flash_ok s1" "valid_address s1 = valid_address s"
    "\<And>b. valid_address s b \<Longrightarrow> flash_word s1 b = (if b div 4096 = sec then Some 0xffffffff else flash_word s b)"
    "\<And>b. valid_address s b \<Longrightarrow> stored s1 b = (b div 4096 \<noteq> sec \<and> stored s b)"
    by blast
  have "\<forall>k < n. valid_address s1 ((sec + 1 + k) * 4096)"
    using Suc.prems(3) [rule_format, of "Suc _"] s1(3) by (simp add: add.assoc)
  from Suc.IH [OF s1(2) _ this] Suc.prems(2) obtain s2 where s2:
    "erase_sectors (sec + 1) n ESP_OK s1 = Some (ESP_OK, s2)" "flash_ok s2" "valid_address s2 = valid_address s"
    "\<And>b. valid_address s b \<Longrightarrow> flash_word s2 b =
      (if sec + 1 \<le> b div 4096 \<and> b div 4096 < sec + 1 + n then Some 0xffffffff else flash_word s1 b)"
    "\<And>b. valid_address s b \<Longrightarrow> stored s2 b = (\<not> (sec + 1 \<le> b div 4096 \<and> b div 4096 < sec + 1 + n) \<and> stored s1 b)"
    using s1(3) by auto
  have "erase_sectors sec (Suc n) ESP_OK s = Some (ESP_OK, s2)"
    using s1(1) s2(1) Suc.prems(2) by simp
  then show ?case using s1 s2 by (intro exI [of _ s2]) auto
qed auto

section \<open>Partitions\<close>

text \<open>The table: whole sectors, in order, without overlap, inside the chip\<close>

definition partition_end :: "esp_partition_t \<Rightarrow> nat" where
  "partition_end p = unat (paddress p) + unat (psize p)"

definition whole_sectors :: "esp_partition_t \<Rightarrow> bool" where
  "whole_sectors p \<longleftrightarrow> 4096 dvd unat (paddress p) \<and> 4096 dvd unat (psize p) \<and>
     partition_end p \<le> spi_flash_get_chip_size"

lemma table_sound:
  "list_all (\<lambda>p. whole_sectors p \<and> \<not> pencrypted p) load_partitions"
  "sorted_wrt (\<lambda>p q. partition_end p \<le> unat (paddress q)) load_partitions"
  by (simp_all add: load_partitions_def whole_sectors_def partition_end_def spi_flash_get_chip_size_def)

text \<open>All that an iterator will deliver, and what it should\<close>

function delivered :: "partition_iterator option \<Rightarrow> esp_partition_t option list" where
  "delivered None = []"
| "delivered (Some it) = it_info it # delivered (esp_partition_next it)"
  by pat_completeness auto
termination
proof (relation "measure (\<lambda>it. case it of None \<Rightarrow> 0 | Some it \<Rightarrow> Suc (length (it_next_item it)))", goal_cases)
  case (2 it)
  then show ?case by (cases "esp_partition_next it") (auto dest: next_item_shorter)
qed simp

lemma dropWhile_filter: "filter P xs = (case dropWhile (\<lambda>x. \<not> P x) xs of [] \<Rightarrow> [] | y # ys \<Rightarrow> y # filter P ys)"
  by (induction xs) auto

lemma delivered_next:
  "delivered (esp_partition_next it) = map Some (filter (matches it) (it_next_item it))"
proof (induction "length (it_next_item it)" arbitrary: it rule: less_induct)
  case less
  show ?case
  proof (cases "dropWhile (\<lambda>p. \<not> matches it p) (it_next_item it)")
    case Nil
    then have "esp_partition_next it = None" by (simp only: esp_partition_next_def list.case)
    moreover have "filter (matches it) (it_next_item it) = []"
      by (subst dropWhile_filter) (simp only: Nil list.case)
    ultimately show ?thesis by (simp only: delivered.simps list.map)
  next
    case (Cons p ps)
    let ?it = "it\<lparr>it_info := Some p, it_next_item := ps\<rparr>"
    have nxt: "esp_partition_next it = Some ?it" using Cons by (simp add: esp_partition_next_def)
    have "matches ?it = matches it" by (simp add: fun_eq_iff matches_def)
    moreover have "length (it_next_item ?it) < length (it_next_item it)" by (rule next_item_shorter [OF nxt])
    ultimately have "delivered (esp_partition_next ?it) = map Some (filter (matches it) ps)"
      using less [of ?it] by simp
    then show ?thesis using Cons dropWhile_filter [of "matches it" "it_next_item it"] by (simp add: nxt)
  qed
qed

definition loaded :: "esp_partition_t list \<Rightarrow> esp_partition_t list" where
  "loaded ps = (if ps = [] then load_partitions else ps)"

definition wanted :: "esp_partition_type_t \<Rightarrow> u8 \<Rightarrow> cstr \<Rightarrow> esp_partition_t \<Rightarrow> bool" where
  "wanted ty st label p \<longleftrightarrow> ptype p = ty \<and> (st = ESP_PARTITION_SUBTYPE_ANY \<or> psubtype p = st) \<and>
     (\<forall>l. label = Some l \<longrightarrow> plabel p = l)"

lemma matches_create: "matches (iterator_create ps ty st label) = wanted ty st label"
  by (auto simp: fun_eq_iff matches_def iterator_create_def wanted_def ESP_PARTITION_SUBTYPE_ANY_def
      split: option.splits)

text \<open>Iterating from \<open>esp_partition_find\<close> with \<open>esp_partition_next\<close> delivers exactly the partitions of the table that
  have the requested type, subtype and label, in the order of the table.\<close>

theorem partition_iteration:
  "delivered (fst (esp_partition_find ty st label ps)) = map Some (filter (wanted ty st label) (loaded ps))"
  using delivered_next [of "iterator_create (loaded ps) ty st label"]
  by (simp add: esp_partition_find_def loaded_def matches_create Let_def) (simp add: iterator_create_def)

lemma find_first_wanted:
  "fst (esp_partition_find_first ty st label ps) = find (wanted ty st label) (loaded ps)"
proof -
  let ?it = "iterator_create (loaded ps) ty st label"
  have "Option.bind (esp_partition_next ?it) it_info = find (matches ?it) (it_next_item ?it)"
    by (cases "dropWhile (\<lambda>p. \<not> matches ?it p) (it_next_item ?it)")
      (simp_all only: esp_partition_next_def find_dropWhile comp_def list.case bind.simps, simp_all)
  then show ?thesis
    by (simp add: esp_partition_find_first_def esp_partition_find_def loaded_def Let_def matches_create)
      (simp add: iterator_create_def)
qed

lemma verify_loop_find:
  "verify_loop q (esp_partition_next it) = Some (find (\<lambda>p. matches it p \<and> same_partition p q) (it_next_item it))"
proof (induction "length (it_next_item it)" arbitrary: it rule: less_induct)
  case less
  have skip: "find (\<lambda>p. matches it p \<and> same_partition p q) xs =
      find (\<lambda>p. matches it p \<and> same_partition p q) (dropWhile (\<lambda>p. \<not> matches it p) xs)" for xs
    by (induction xs) auto
  show ?case
  proof (cases "dropWhile (\<lambda>p. \<not> matches it p) (it_next_item it)")
    case Nil
    then have "esp_partition_next it = None" by (simp only: esp_partition_next_def list.case)
    then show ?thesis by (subst skip) (simp only: Nil verify_loop.simps find.simps)
  next
    case (Cons p ps)
    let ?it = "it\<lparr>it_info := Some p, it_next_item := ps\<rparr>"
    have nxt: "esp_partition_next it = Some ?it" using Cons by (simp add: esp_partition_next_def)
    have "matches ?it = matches it" by (simp add: fun_eq_iff matches_def)
    moreover have "length (it_next_item ?it) < length (it_next_item it)" by (rule next_item_shorter [OF nxt])
    ultimately have "verify_loop q (esp_partition_next ?it) = Some (find (\<lambda>p. matches it p \<and> same_partition p q) ps)"
      using less [of ?it] by simp
    moreover have "matches it p" using Cons by (metis hd_dropWhile list.discI list.sel(1))
    ultimately show ?thesis using skip [of "it_next_item it"] Cons by (simp add: nxt)
  qed
qed



subsection \<open>Access stays inside\<close>

definition chip_ok :: "cchanflash \<Rightarrow> bool" where
  "chip_ok s \<longleftrightarrow> flash_ok s \<and> (\<forall>a < spi_flash_get_chip_size. valid_address s a)"

lemma partition_address:
  "p \<in> set load_partitions \<Longrightarrow> whole_sectors p \<and> \<not> pencrypted p"
  using table_sound(1) by (simp add: list_all_iff)

text \<open>C20: A write through a partition of the table changes no word outside the partition, whatever offset and size it is
  called with, and the flash stays well-formed.\<close>

theorem partition_write_confined:
  assumes "flash_ok s" "p \<in> set load_partitions" "len \<le> length src"
    and "esp_partition_write (Some p) off src len s = Some (e, s')"
  shows "flash_ok s' \<and>
    (\<forall>b. valid_address s b \<longrightarrow> \<not> (unat (paddress p) \<le> b \<and> b < partition_end p) \<longrightarrow> flash_word s' b = flash_word s b)"
proof -
  have p: "4096 dvd unat (paddress p)" "partition_end p \<le> 2 ^ 22" "\<not> pencrypted p"
    using partition_address [OF assms(2)] by (simp_all add: whole_sectors_def spi_flash_get_chip_size_def)
  show ?thesis
  proof (cases "s' = s")
    case True
    then show ?thesis using assms(1) by simp
  next
    case False
    let ?a = "unat (paddress p) + off"
    have off: "off \<le> unat (psize p)" "size_add off len \<le> unat (psize p)"
      and wr: "spi_flash_write (size_add (unat (paddress p)) off) src len s = Some (e, s')"
      using assms(4) False p(3) by (simp_all add: esp_partition_write_def split: if_splits)
    have a: "size_add (unat (paddress p)) off = ?a" "?a < 2 ^ 32"
      using off(1) p(2) by (simp_all add: partition_end_def)
    have src: "4 * (len div 4) \<le> length src" using assms(3) by linarith
    have good: "len \<le> 256" "flash_word s ?a \<noteq> None" "fits_page ?a (len div 4)"
      using spi_flash_write_cases [OF assms(1) a(2) src] wr a(1) by auto
    have size: "off + len \<le> unat (psize p)" using off good(1) p(2) by (simp add: partition_end_def)
    obtain ws rest where ws: "take_words (len div 4) src = Some (ws, rest)" using take_words_enough [OF src] by blast
    have n: "len div 4 = length ws" using take_words_length [OF ws] by simp
    have "length ws \<le> 64" using n good(1) by simp
    then have "spi_flash_write ?a src len s = spi_flash_write ?a (word_bytes ws @ rest) (4 * length ws) s"
      using ws n good(1) word_bytes_take_words [OF ws] by (simp add: spi_flash_write_def Let_def take_words_append)
    then obtain law: "flash_ok s'" "\<And>b. valid_address s b \<Longrightarrow> flash_word s' b =
           (if ?a div 4 \<le> b div 4 \<and> b div 4 < ?a div 4 + length ws then Some (ws ! (b div 4 - ?a div 4))
            else if b div 256 = ?a div 256 \<and> b div 4 < ?a div 4 \<and> \<not> stored s b then Some 0
            else flash_word s b)"
      using flash.write_law [OF assms(1) good(3) [unfolded n] a(2) good(2), of rest] wr a(1) by auto
    have "flash_word s' b = flash_word s b"
      if b: "valid_address s b" "\<not> (unat (paddress p) \<le> b \<and> b < partition_end p)" for b
    proof -
      obtain k where k: "unat (paddress p) = 4096 * k" using p(1) by (elim dvdE)
      have "unat (paddress p) \<le> b" if "?a div 4 \<le> b div 4 \<or> b div 256 = ?a div 256"
      proof -
        have "1024 * k \<le> ?a div 4" "16 * k \<le> ?a div 256" unfolding k by simp_all
        moreover have "4 * (b div 4) \<le> b" "256 * (b div 256) \<le> b" by simp_all
        ultimately show ?thesis using that unfolding k by (elim disjE) linarith+
      qed
      moreover have "b < partition_end p" if "b div 4 < ?a div 4 + length ws"
        using that size n unfolding partition_end_def k by linarith
      moreover have "b < partition_end p" if "b div 4 < ?a div 4"
        using that size unfolding partition_end_def by linarith
      ultimately show ?thesis using law(2) [OF b(1)] b(2) by auto
    qed
    then show ?thesis using law(1) by blast
  qed
qed

subsection \<open>A chip for examples: two erased sectors, the end of the partition \<open>nvs\<close> and the start of \<open>otadata\<close>\<close>

definition blank_chip :: cchanflash where
  "blank_chip = \<lparr>rangestart = [0xd000], rangeend = [0xefff], secstart = [0], secs = [ERS, ERS],
     pgm = replicate 32 [], uflash_from = [], uflash_to = [], msg_addr = 0, msg_size = 0,
     noise = (\<lambda>_. 0), noise_at = 0\<rparr>"

lemma blank_chip_layout: "layout_ok blank_chip"
  by (simp add: layout_ok_def range_ok_def range_next_def blank_chip_def)

lemma blank_chip_ok: "flash_ok blank_chip"
  using blank_chip_layout by (auto simp: flash_ok_def blank_ok_def blank_chip_def)

lemma blank_chip_located: "0xd000 \<le> a \<Longrightarrow> a < 0xf000 \<Longrightarrow> located blank_chip 0 a"
  by (simp add: located_def in_range_def blank_chip_def unat_u32_of_nat)

lemma blank_chip_valid: "0xd000 \<le> a \<Longrightarrow> a < 0xf000 \<Longrightarrow> valid_address blank_chip a"
  using blank_chip_located valid_located [OF blank_chip_layout] by blast

lemma blank_chip_word:
  assumes "0xd000 \<le> a" "a < 0xf000"
  shows "flash_word blank_chip a = Some 0xffffffff" and "\<not> stored blank_chip a"
proof -
  note cells = located_cells [OF blank_chip_layout blank_chip_located [OF assms]]
  have page: "pgm blank_chip ! PAGEADDR blank_chip 0 (of_nat a) = []"
    using cells(4) by (simp add: blank_chip_def)
  have "SECADDR blank_chip 0 (of_nat a) < 2" using cells(2) by (simp add: blank_chip_def)
  then have "secs blank_chip ! SECADDR blank_chip 0 (of_nat a) = ERS"
    by (auto simp: blank_chip_def less_2_cases_iff)
  then show "flash_word blank_chip a = Some 0xffffffff"
    using flash_word_located [OF blank_chip_ok blank_chip_located [OF assms]] page by (simp add: page_word_def)
  show "\<not> stored blank_chip a" using page cells(1) by (simp add: stored_def)
qed

theorem partition_write_confined_witness:
  "\<exists>s'. esp_partition_write (Some (load_partitions ! 1)) 0x20 [1, 2, 3, 4] 4 blank_chip = Some (ESP_OK, s') \<and>
     flash_ok s' \<and> flash_word s' 0xdffc = Some 0xffffffff"
proof -
  have "\<exists>s'. spi_flash_write 0xe020 [1, 2, 3, 4] 4 blank_chip = Some (ESP_OK, s')"
    using spi_flash_write_cases(1) [OF blank_chip_ok, of "0xe020" 4 "[1, 2, 3, 4]"] blank_chip_word(1) [of "0xe020"]
    by (simp add: fits_page_def)
  then obtain s' where w: "esp_partition_write (Some (load_partitions ! 1)) 0x20 [1, 2, 3, 4] 4 blank_chip =
      Some (ESP_OK, s')"
    by (auto simp: esp_partition_write_def load_partitions_def)
  have "load_partitions ! 1 \<in> set load_partitions" by (simp add: load_partitions_def)
  note confined = partition_write_confined [OF blank_chip_ok this _ w]
  have "partition_end (load_partitions ! 1) = 0x10000" "unat (paddress (load_partitions ! 1)) = 0xe000"
    by (simp_all add: load_partitions_def partition_end_def)
  then have "flash_word s' 0xdffc = flash_word blank_chip 0xdffc"
    using confined blank_chip_valid [of "0xdffc"] by simp
  then show ?thesis using w confined blank_chip_word(1) [of "0xdffc"] by simp
qed

section \<open>Laws of the driver\<close>

text \<open>C16: What \<open>spi_flash_write\<close> puts into one page of an erased or written sector, \<open>spi_flash_read\<close> returns.\<close>

theorem flash_write_read:
  assumes "flash_ok s" "fits_page a (length ws)" "a < 2 ^ 32" "flash_word s a \<noteq> None"
    and "length dest = 4 * length ws" "\<forall>i < length ws. valid_address s (a + 4 * i)"
  shows "\<exists>s' s''. spi_flash_write a (word_bytes ws) (4 * length ws) s = Some (ESP_OK, s') \<and>
    spi_flash_read a dest 0 (4 * length ws) s' = Some (ESP_OK, word_bytes ws, s'') \<and>
    flash_ok s'' \<and> flash_word s'' = flash_word s'"
  using flash.write_then_read [OF assms(1-5)] assms(6) by blast

theorem flash_write_read_witness:
  "\<exists>s' s''. spi_flash_write 0xd010 (word_bytes [0x12345678, 7]) 8 blank_chip = Some (ESP_OK, s') \<and>
    spi_flash_read 0xd010 (replicate 8 0) 0 8 s' = Some (ESP_OK, word_bytes [0x12345678, 7], s'') \<and>
    flash_ok s'' \<and> flash_word s'' = flash_word s'"
  using flash_write_read [OF blank_chip_ok, where a = "0xd010" and ws = "[0x12345678, 7]" and dest = "replicate 8 0"] blank_chip_word
    blank_chip_valid
  by (simp add: fits_page_def)

text \<open>C17: Reading any number of words from the start of a page, across pages and sectors and however the driver cuts
  the request, returns the words that are stored there.\<close>

theorem flash_read_contents:
  assumes "flash_ok s" "256 dvd a" "a + 4 * length ws \<le> 2 ^ 32"
    and "\<forall>i < length ws. flash_word s (a + 4 * i) = Some (ws ! i)"
    and "length dest = 4 * length ws"
  shows "\<exists>s'. spi_flash_read a dest 0 (4 * length ws) s = Some (ESP_OK, word_bytes ws, s') \<and>
    flash_ok s' \<and> flash_word s' = flash_word s"
  using read_pages [OF assms(1-4), of 0 dest] assms(5) by auto

theorem flash_read_contents_witness:
  "\<exists>s'. spi_flash_read 0xd000 (replicate 1200 0) 0 1200 blank_chip =
      Some (ESP_OK, word_bytes (replicate 300 0xffffffff), s') \<and> flash_ok s' \<and> flash_word s' = flash_word blank_chip"
  using flash_read_contents [OF blank_chip_ok, where a = "0xd000" and ws = "replicate 300 0xffffffff" and dest = "replicate 1200 0"]
    blank_chip_word(1)
  by (simp add: dvd_def)

text \<open>C18: A call of \<open>spi_flash_write\<close> succeeds exactly when it asks for at most 256 bytes and at least a word that stay in a
  page of a sector that has been erased; in every other case the simulation stops and the call does not return.\<close>

theorem flash_write_decides:
  assumes "flash_ok s" "a < 2 ^ 32" "4 * (len div 4) \<le> length src"
  shows "((\<exists>s'. spi_flash_write a src len s = Some (ESP_OK, s')) \<longleftrightarrow>
      len \<le> 256 \<and> 4 \<le> len \<and> flash_word s a \<noteq> None \<and> a mod 256 + 4 * (len div 4) \<le> 256) \<and>
    (spi_flash_write a src len s = None \<or> (\<exists>s'. spi_flash_write a src len s = Some (ESP_OK, s')))"
  using spi_flash_write_cases [OF assms] by (auto simp: fits_page_def)

theorem flash_write_decides_witness:
  "\<not> (\<exists>s'. spi_flash_write 0xd0f0 (replicate 32 0) 32 blank_chip = Some (ESP_OK, s')) \<and>
   (\<exists>s'. spi_flash_write 0xd0f0 (replicate 16 0) 16 blank_chip = Some (ESP_OK, s'))"
  using flash_write_decides [OF blank_chip_ok, of "0xd0f0" 32 "replicate 32 0"]
    flash_write_decides [OF blank_chip_ok, of "0xd0f0" 16 "replicate 16 0"] blank_chip_word(1) [of "0xd0f0"]
  by simp

section \<open>Where the simulation is not a flash\<close>

lemma located_same_page:
  assumes lay: "layout_ok s" and loc: "located s r a" and page: "b div 256 = a div 256"
  shows "located s r b"
proof -
  have r: "r < length (rangestart s)" "range_lo s r \<le> a" "a \<le> range_hi s r" "a < 2 ^ 32"
    using loc by (auto simp: located_def in_range_def unat_u32_of_nat)
  have ok: "range_ok s r" using layout_range [OF lay r(1)] by simp
  obtain m k where m: "range_lo s r = 4096 * m" "range_hi s r + 1 = 4096 * k"
    using ok by (auto simp: range_ok_def elim!: dvdE)
  have "a < 256 * (16 * k)" "256 * (16 * m) \<le> a" using r m by simp_all
  then have "a div 256 < 16 * k" "16 * m \<le> a div 256"
    by (simp_all add: less_mult_imp_div_less mult.commute less_eq_div_iff_mult_less_eq)
  then have "b div 256 < 16 * k" "16 * m \<le> b div 256" using page by simp_all
  then have "b < 4096 * k" "4096 * m \<le> b"
    using mult_div_mod_eq [of 256 b] mod_less_divisor [of 256 b] by linarith+
  moreover have "b < 2 ^ 32"
  proof -
    have "a div 256 < 2 ^ 24" using r(4) by simp
    then show ?thesis using page by simp
  qed
  ultimately show ?thesis using r m by (simp add: located_def in_range_def unat_u32_of_nat)
qed

lemma page_run_contents:
  assumes ok: "flash_ok s" and loc: "located s r a" and used: "secs s ! SECADDR s r (of_nat a) \<noteq> UNK" and i: "i < n"
    and aligned: "a mod 4 = 0"
  shows "a div 4 mod 64 + i < 64 \<Longrightarrow> flash_word s (a + 4 * i) = Some (page_run s r a n ! i)"
    and "64 \<le> a div 4 mod 64 + i \<Longrightarrow> page_run s r a n ! i = 0xffffffff"
proof -
  have lay: "layout_ok s" using ok by (simp add: flash_ok_def)
  note c = located_cells [OF lay loc]
  {
    assume "a div 4 mod 64 + i < 64"
    moreover have "a mod 256 = 4 * (a div 4 mod 64) + a mod 4" using mod_mult2_eq [of a 4 64] by simp
    ultimately have fit: "fits_page a (Suc i)" using aligned by (simp add: fits_page_def)
    have page: "(a + 4 * i) div 256 = a div 256" by (rule fits_same_page(1) [OF fit]) simp
    then have at: "located s r (a + 4 * i)" by (rule located_same_page [OF lay loc])
    have "(a + 4 * i) div 4096 = a div 4096"
      using page div_mult2_eq [of "a + 4 * i" 256 16] div_mult2_eq [of a 256 16] by simp
    then have "SECADDR s r (of_nat (a + 4 * i)) = SECADDR s r (of_nat a)"
      using same_sector [OF lay at loc] by simp
    moreover have "PAGEADDR s r (of_nat (a + 4 * i)) = PAGEADDR s r (of_nat a)"
      using same_page [OF lay at loc] page by simp
    moreover have "(a + 4 * i) div 4 mod 64 = a div 4 mod 64 + i" by (rule fits_same_page(3) [OF fit]) simp
    ultimately show "flash_word s (a + 4 * i) = Some (page_run s r a n ! i)"
      using flash_word_located [OF ok at] used i by (simp add: page_run_def)
  }
  assume "64 \<le> a div 4 mod 64 + i"
  moreover have "length (pgm s ! PAGEADDR s r (of_nat a)) \<le> 64" using ok c(4) by (simp add: flash_ok_def)
  ultimately show "page_run s r a n ! i = 0xffffffff" using i by (simp add: page_run_def page_word_def)
qed


text \<open>C22: A request that starts in one page and runs past its end (at most 256 bytes, at an address and with a size in whole
  words) reads ones for everything beyond the page, whatever is stored there.\<close>

theorem read_past_page_blank:
  assumes ok: "flash_ok s" and a: "a < 2 ^ 32" "a mod 4 = 0" and known: "flash_word s a \<noteq> None"
    and n: "0 < n" "n \<le> 64" and past: "64 - a div 4 mod 64 \<le> n" and dest: "length dest = 4 * n"
  shows "\<exists>ws s'. length ws = 64 - a div 4 mod 64 \<and> (\<forall>i < length ws. flash_word s (a + 4 * i) = Some (ws ! i)) \<and>
    spi_flash_read a dest 0 (4 * n) s =
      Some (ESP_OK, word_bytes (ws @ replicate (n - length ws) 0xffffffff), s')"
proof -
  have lay: "layout_ok s" using ok by (simp add: flash_ok_def)
  obtain r where r: "located s r a" "secs s ! SECADDR s r (of_nat a) \<noteq> UNK"
    using flash_word_known [OF lay a(1) known] by blast
  note run = page_run_contents [OF ok r _ a(2), of _ n]
  define ws where "ws = take (64 - a div 4 mod 64) (page_run s r a n)"
  have len: "length ws = 64 - a div 4 mod 64" using past by (simp add: ws_def page_run_def)
  have first: "flash_word s (a + 4 * i) = Some (ws ! i)" if "i < length ws" for i
  proof -
    have "i < n" "a div 4 mod 64 + i < 64" using that past unfolding len by linarith+
    then show ?thesis using run(1) [of i] by (simp add: ws_def)
  qed
  have all: "page_run s r a n = ws @ replicate (n - length ws) 0xffffffff"
  proof (rule nth_equalityI)
    show "length (page_run s r a n) = length (ws @ replicate (n - length ws) 0xffffffff)"
      using len past by (simp add: page_run_def)
    fix i
    assume "i < length (page_run s r a n)"
    then have "i < n" by (simp add: page_run_def)
    show "page_run s r a n ! i = (ws @ replicate (n - length ws) 0xffffffff) ! i"
    proof (cases "i < length ws")
      case True
      then show ?thesis by (simp add: nth_append ws_def)
    next
      case False
      then have "64 \<le> a div 4 mod 64 + i" "i - length ws < n - length ws" using len \<open>i < n\<close> by linarith+
      then show ?thesis using run(2) [OF \<open>i < n\<close>] False by (simp add: nth_append)
    qed
  qed
  have "read_block a dest 0 (4 * n) s = Some (ESP_OK, word_bytes (page_run s r a n),
      s\<lparr>msg_addr := of_nat a, msg_size := of_nat n\<rparr>)"
    using read_block_known [OF ok r, of "4 * n" 0 dest] n dest by simp
  then show ?thesis using n len first all by (auto simp: spi_flash_read.simps)
qed

theorem read_past_page_blank_witness:
  "\<exists>s1 ws s'. spi_flash_write 0xd100 (word_bytes [42]) 4 blank_chip = Some (ESP_OK, s1) \<and>
    flash_word s1 0xd100 = Some 42 \<and> length ws = 1 \<and>
    spi_flash_read 0xd0fc (replicate 8 0) 0 8 s1 = Some (ESP_OK, word_bytes (ws @ [0xffffffff]), s')"
proof -
  have "fits_page 0xd100 1" by (simp add: fits_page_def)
  then obtain s1 where s1: "spi_flash_write 0xd100 (word_bytes [42]) 4 blank_chip = Some (ESP_OK, s1)" "flash_ok s1"
    and at: "\<And>b. valid_address blank_chip b \<Longrightarrow> flash_word s1 b =
      (if 0xd100 div 4 \<le> b div 4 \<and> b div 4 < 0xd100 div 4 + 1 then Some ([42] ! (b div 4 - 0xd100 div 4))
       else if b div 256 = 0xd100 div 256 \<and> b div 4 < 0xd100 div 4 \<and> \<not> stored blank_chip b then Some 0
       else flash_word blank_chip b)"
    using flash.write_law [OF blank_chip_ok, of "0xd100" "[42]" "[]"] blank_chip_word(1) [of "0xd100"] by auto
  have "flash_word s1 0xd100 = Some 42" using at [OF blank_chip_valid, of "0xd100"] by simp
  moreover have "flash_word s1 0xd0fc \<noteq> None"
    using at [OF blank_chip_valid, of "0xd0fc"] blank_chip_word(1) [of "0xd0fc"] by simp
  then have "\<exists>ws s'. length ws = 1 \<and>
      spi_flash_read 0xd0fc (replicate 8 0) 0 8 s1 = Some (ESP_OK, word_bytes (ws @ [0xffffffff]), s')"
    using read_past_page_blank [OF s1(2), of "0xd0fc" 2 "replicate 8 0"] by fastforce
  ultimately show ?thesis using s1(1) by blast
qed

text \<open>A write into the middle of a page that has not been written as far turns the words before it, which read as
  ones, into zeros; on a flash they would stay erased.\<close>

theorem write_fills_gap:
  assumes "flash_ok s" "fits_page a (length ws)" "a < 2 ^ 32" "flash_word s a \<noteq> None"
    and "valid_address s b" "b div 256 = a div 256" "b div 4 < a div 4" "\<not> stored s b"
  shows "flash_word s b = Some 0xffffffff \<and>
    (\<exists>s'. spi_flash_write a (word_bytes ws) (4 * length ws) s = Some (ESP_OK, s') \<and> flash_word s' b = Some 0)"
proof
  have lay: "layout_ok s" using assms(1) by (simp add: flash_ok_def)
  obtain r where r: "located s r a" "secs s ! SECADDR s r (of_nat a) \<noteq> UNK"
    using flash_word_known [OF lay assms(3,4)] by blast
  have b: "located s r b" by (rule located_same_page [OF lay r(1) assms(6)])
  have "b div 4096 = a div 4096" using assms(6) div_mult2_eq [of b 256 16] div_mult2_eq [of a 256 16] by simp
  then have "secs s ! SECADDR s r (of_nat b) \<noteq> UNK" using same_sector [OF lay b r(1)] r(2) by simp
  moreover have "length (pgm s ! PAGEADDR s r (of_nat b)) \<le> b div 4 mod 64"
    using assms(8) located_cells(1,5) [OF lay b] by (simp add: stored_def)
  ultimately show "flash_word s b = Some 0xffffffff"
    using flash_word_located [OF assms(1) b] by (simp add: page_word_def)
  show "\<exists>s'. spi_flash_write a (word_bytes ws) (4 * length ws) s = Some (ESP_OK, s') \<and> flash_word s' b = Some 0"
    using flash.write_law [OF assms(1-4), of "[]"] assms(5-8) by auto
qed

theorem write_fills_gap_witness:
  "flash_word blank_chip 0xd020 = Some 0xffffffff \<and>
   (\<exists>s'. spi_flash_write 0xd040 (word_bytes [1]) 4 blank_chip = Some (ESP_OK, s') \<and> flash_word s' 0xd020 = Some 0)"
  using write_fills_gap [OF blank_chip_ok, of "0xd040" "[1]" "0xd020"] blank_chip_word [of "0xd020"]
    blank_chip_word(1) [of "0xd040"] blank_chip_valid [of "0xd020"]
  by (simp add: fits_page_def)

text \<open>A read of fewer than four bytes at the start of a page that has been written never returns: the module is asked
  for no words, and the unsigned bound of its loop wraps around.  At any other place it returns at once with nothing
  read.\<close>

theorem short_read_at_page_start:
  assumes ok: "flash_ok s" and a: "a < 2 ^ 32" and known: "flash_word s a \<noteq> None" and len: "0 < len" "len < 4"
    and dest: "off \<le> length dest"
  shows "stored s a \<and> a div 4 mod 64 = 0 \<Longrightarrow> spi_flash_read a dest off len s = None"
    and "a div 4 mod 64 \<noteq> 0 \<Longrightarrow> \<exists>s'. spi_flash_read a dest off len s = Some (ESP_OK, dest, s')"
proof -
  have lay: "layout_ok s" "blank_ok s" and idle: "uflash_from s = []" "secs s \<noteq> []"
    using ok by (simp_all add: flash_ok_def layout_ok_def)
  obtain r where r: "located s r a" "secs s ! SECADDR s r (of_nat a) \<noteq> UNK"
    using flash_word_known [OF lay(1) a known] by blast
  have n: "len div 4 = 0" "len \<le> 256" "len \<noteq> 0" using len by simp_all
  note c = located_cells [OF lay(1) r(1)]
  {
    assume start: "stored s a \<and> a div 4 mod 64 = 0"
    then have page: "pgm s ! PAGEADDR s r (of_nat a) \<noteq> []" using c(1) by (auto simp: stored_def)
    have "secs s ! SECADDR s r (of_nat a) \<noteq> ERS" using page lay(2) c(2) unfolding blank_ok_def c(3) by auto
    with r(2) have prog: "secs s ! SECADDR s r (of_nat a) = PROG"
      by (cases "secs s ! SECADDR s r (of_nat a)") simp_all
    have "unat (drop_bit 2 (of_nat a :: u32) AND 0x3f) = 0"
    proof -
      have "drop_bit 2 (of_nat a :: u32) AND 0x3f = take_bit 6 (drop_bit 2 (of_nat a))"
        by (simp add: take_bit_eq_mask mask_eq_exp_minus_1)
      then have "unat (drop_bit 2 (of_nat a :: u32) AND 0x3f) = take_bit 6 (unat (drop_bit 2 (of_nat a :: u32)))"
        by (simp only: unsigned_take_bit_eq)
      then show ?thesis using start a unfolding unat_drop_bit_div by (simp add: unat_u32_of_nat take_bit_eq_mod)
    qed
    then have zero: "drop_bit 2 (of_nat a :: u32) AND 0x3f = 0" by (simp only: unat_eq_0)
    have "page_answer p (of_nat a) 0 = None" for p by (simp add: page_answer_def Let_def zero)
    then have "serve_read (cmd_r @ hex_text a @ [0x20] @ dec_text 0 @ eol) s = None"
      unfolding serve_read_def scan_addr_size_text Let_def using c(1,2,4) page prog by (simp add: elem_def)
    then show "spi_flash_read a dest off len s = None"
      using n serve_read_request [OF idle] by (simp add: spi_flash_read.simps read_block_def Let_def)
  }
  assume "a div 4 mod 64 \<noteq> 0"
  then show "\<exists>s'. spi_flash_read a dest off len s = Some (ESP_OK, dest, s')"
    using read_block_known [OF ok r n(2)] n dest
    by (simp add: spi_flash_read.simps page_run_def word_bytes_def)
qed

theorem short_read_at_page_start_witness:
  "\<exists>s1. spi_flash_write 0xd000 (word_bytes [42]) 4 blank_chip = Some (ESP_OK, s1) \<and>
     spi_flash_read 0xd000 [0, 0] 0 2 s1 = None"
proof -
  have fit: "fits_page 0xd000 (length [42 :: u32])" by (simp add: fits_page_def)
  obtain s1 where s1: "spi_flash_write 0xd000 (word_bytes [42]) 4 blank_chip = Some (ESP_OK, s1)" "flash_ok s1"
    "flash_word s1 0xd000 \<noteq> None" "stored s1 0xd000"
    using flash.write_law [OF blank_chip_ok fit, of "[]"] blank_chip_word(1) [of "0xd000"]
      blank_chip_valid [of "0xd000"] by auto
  then show ?thesis using short_read_at_page_start(1) [OF s1(2) _ s1(3), of 2 0 "[0, 0]"] by auto
qed

section \<open>Setting up\<close>

definition add_ranges :: "(u32 \<times> u32) list \<Rightarrow> cchanflash \<Rightarrow> cchanflash option" where
  "add_ranges rs s = fold (\<lambda>(a, e) s. Option.bind s (addrange a e)) rs (Some s)"

lemma fold_bind_None: "fold (\<lambda>(a, e) s. Option.bind s (addrange a e)) rs None = None"
  by (induction rs) auto

lemma add_ranges_ok:
  "ranges_ok s \<Longrightarrow> \<forall>(a, e) \<in> set rs. 4096 dvd unat a \<and> 4096 dvd unat e + 1 \<Longrightarrow> add_ranges rs s = Some s' \<Longrightarrow>
     ranges_ok s'"
proof (induction rs arbitrary: s)
  case (Cons r rs)
  obtain a e where r: "r = (a, e)" by fastforce
  obtain s1 where s1: "addrange a e s = Some s1"
    using Cons.prems(3) fold_bind_None [of rs] r by (cases "addrange a e s") (simp_all add: add_ranges_def)
  have "ranges_ok s1" using addrange_ranges_ok [OF Cons.prems(1) _ _ s1] Cons.prems(2) r by simp
  then show ?case using Cons s1 r by (simp add: add_ranges_def)
qed (simp add: add_ranges_def)


definition blank_device :: "cchanflash \<Rightarrow> bool" where
  "blank_device s \<longleftrightarrow> rangestart s = [] \<and> rangeend s = [] \<and> secs s = [] \<and> uflash_from s = [] \<and> uflash_to s = []"

lemma addrange_pairs:
  assumes "length (rangeend s) = length (rangestart s)" "addrange a e s = Some s'"
  shows "set (zip (rangestart s') (rangeend s')) = insert (a, e) (set (zip (rangestart s) (rangeend s)))"
    and "length (rangeend s') = length (rangestart s')"
proof -
  have s': "s' = s\<lparr>rangestart := insert_at (insert_pos a (rangestart s)) a (rangestart s),
       rangeend := insert_at (insert_pos a (rangestart s)) e (rangeend s)\<rparr>"
    using assms(2) by (simp add: addrange_def Let_def split: if_splits)
  have "set (insert_at k x xs) = insert x (set xs)" for k and x :: "u32 \<times> u32" and xs
    unfolding insert_at_def set_append list.set
    by (metis Un_insert_right append_take_drop_id set_append)
  then show "set (zip (rangestart s') (rangeend s')) = insert (a, e) (set (zip (rangestart s) (rangeend s)))"
    by (simp add: s' zip_insert_at assms(1))
  show "length (rangeend s') = length (rangestart s')" by (simp add: s' insert_at_def assms(1))
qed

lemma add_ranges_pairs:
  "length (rangeend s) = length (rangestart s) \<Longrightarrow> add_ranges rs s = Some s' \<Longrightarrow>
     set (zip (rangestart s') (rangeend s')) = set rs \<union> set (zip (rangestart s) (rangeend s))"
proof (induction rs arbitrary: s)
  case (Cons r rs)
  obtain a e where r: "r = (a, e)" by fastforce
  obtain s1 where s1: "addrange a e s = Some s1"
    using Cons.prems(2) fold_bind_None [of rs] r by (cases "addrange a e s") (simp_all add: add_ranges_def)
  show ?case
    using Cons.IH [of s1] Cons.prems(2) addrange_pairs [OF Cons.prems(1) s1] s1 r by (simp add: add_ranges_def)
qed (simp add: add_ranges_def)

text \<open>C19: Ranges of whole sectors, declared in any order with \<open>addrange\<close> and then set up with \<open>rangeinit\<close>, give a module
  that satisfies the invariant, accepts exactly the addresses of the ranges, and has no sector in use.\<close>

theorem module_set_up:
  assumes "blank_device s" "\<forall>(a, e) \<in> set rs. 4096 dvd unat a \<and> 4096 dvd unat e + 1"
    and "add_ranges rs s = Some s1" "rangeinit s1 = Some s'"
  shows "flash_ok s' \<and> flash_word s' n = None \<and>
    (valid_address s' n \<longleftrightarrow> (\<exists>(a, e) \<in> set rs. unat a \<le> n \<and> n \<le> unat e))"
proof (intro conjI)
  have "ranges_ok s" using assms(1) by (simp add: blank_device_def ranges_ok_def)
  then have ok1: "ranges_ok s1" by (rule add_ranges_ok [OF _ assms(2,3)])
  note init = rangeinit_flash_ok [OF ok1 assms(4)]
  show "flash_ok s'" "flash_word s' n = None" by (rule init)+
  have lay: "layout_ok s'" using init(1) by (simp add: flash_ok_def)
  have same: "rangestart s' = rangestart s1" "rangeend s' = rangeend s1"
    using assms(4) by (auto simp: rangeinit_def Let_def split: if_splits)
  have len: "length (rangeend s1) = length (rangestart s1)" using ok1 by (simp add: ranges_ok_def)
  have pairs: "set rs = set (zip (rangestart s1) (rangeend s1))"
    using add_ranges_pairs [of s rs s1] assms(1,3) by (simp add: blank_device_def)
  have small: "n < 2 ^ 32" if "n \<le> unat e" for e :: u32
    using that unsigned_less [of e, where ?'a = nat] by simp
  have "valid_address s' n \<longleftrightarrow> (\<exists>r. located s' r n)" by (rule valid_located [OF lay])
  also have "\<dots> \<longleftrightarrow> (\<exists>r < length (rangestart s1). unat (rangestart s1 ! r) \<le> n \<and> n \<le> unat (rangeend s1 ! r))"
    using small by (auto simp: located_def in_range_def same unat_u32_of_nat)
  also have "\<dots> \<longleftrightarrow> (\<exists>(a, e) \<in> set rs. unat a \<le> n \<and> n \<le> unat e)"
    unfolding pairs by (auto simp: set_zip len)
  finally show "valid_address s' n \<longleftrightarrow> (\<exists>(a, e) \<in> set rs. unat a \<le> n \<and> n \<le> unat e)" .
qed

definition new_device :: cchanflash where
  "new_device = \<lparr>rangestart = [], rangeend = [], secstart = [], secs = [], pgm = [], uflash_from = [], uflash_to = [],
     msg_addr = 0, msg_size = 0, noise = (\<lambda>_. 0), noise_at = 0\<rparr>"

theorem module_set_up_witness:
  "\<exists>s1 s'. add_ranges [(0x290000, 0x290fff), (0x9000, 0xdfff)] new_device = Some s1 \<and> rangeinit s1 = Some s' \<and>
     flash_ok s' \<and> valid_address s' 0xd000 \<and> \<not> valid_address s' 0xe000"
proof -
  let ?s1 = "new_device\<lparr>rangestart := [0x9000, 0x290000], rangeend := [0xdfff, 0x290fff]\<rparr>"
  have s1: "add_ranges [(0x290000, 0x290fff), (0x9000, 0xdfff)] new_device = Some ?s1"
    by (simp add: add_ranges_def addrange_def new_device_def overlaps_def insert_pos_def insert_at_def)
  obtain s' where s': "rangeinit ?s1 = Some s'"
    by (simp add: rangeinit_def new_device_def range_sectors_def)
  have blank: "blank_device new_device" by (simp add: blank_device_def new_device_def)
  have whole: "\<forall>(a, e) \<in> set [(0x290000, 0x290fff), (0x9000, 0xdfff)]. 4096 dvd unat (a :: u32) \<and> 4096 dvd unat (e :: u32) + 1"
    by simp
  note m = module_set_up [OF blank whole s1 s']
  show ?thesis using s1 s' m [of "0xd000"] m [of "0xe000"] by auto
qed

text \<open>Erasing whole sectors of a partition through \<open>esp_partition_erase_range\<close> leaves ones in exactly these
  sectors.\<close>

theorem partition_erase_exact:
  assumes "flash_ok s" "p \<in> set load_partitions"
    and "\<forall>a. unat (paddress p) \<le> a \<and> a < partition_end p \<longrightarrow> valid_address s a"
    and "4096 dvd start" "4096 dvd len" "start + len \<le> unat (psize p)"
  shows "\<exists>s'. esp_partition_erase_range (Some p) start len s = Some (ESP_OK, s') \<and> flash_ok s' \<and>
    (\<forall>b. valid_address s b \<longrightarrow> flash_word s' b =
      (if unat (paddress p) + start \<le> b \<and> b < unat (paddress p) + start + len then Some 0xffffffff else flash_word s b))"
proof -
  have p: "4096 dvd unat (paddress p)" "partition_end p \<le> 2 ^ 22" "\<not> pencrypted p"
    using partition_address [OF assms(2)] by (simp_all add: whole_sectors_def spi_flash_get_chip_size_def)
  obtain i j n where k: "unat (paddress p) = 4096 * i" "start = 4096 * j" "len = 4096 * n"
    using p(1) assms(4,5) by (auto elim!: dvdE)
  have size: "4096 * (i + j + n) \<le> partition_end p"
    using assms(6) by (simp add: partition_end_def k algebra_simps)
  have small: "i + j + n \<le> 2 ^ 10" using size p(2) by simp
  have "valid_address s ((i + j + m) * 4096)" if "m < n" for m
    using assms(3) [rule_format, of "(i + j + m) * 4096"] that size by (simp add: k(1) algebra_simps)
  then obtain s' where s': "erase_sectors (i + j) n ESP_OK s = Some (ESP_OK, s')" "flash_ok s'"
    and words: "\<And>b. valid_address s b \<Longrightarrow> flash_word s' b =
        (if i + j \<le> b div 4096 \<and> b div 4096 < i + j + n then Some 0xffffffff else flash_word s b)"
    using erase_sectors_law [OF assms(1), of "i + j" n] small by auto
  have sum: "4096 * i + 4096 * j = 4096 * (i + j)" by simp
  have range: "size_add start len = start + len" "size_add (unat (paddress p)) start = 4096 * (i + j)"
    using small by (simp_all add: k)
  have run: "spi_flash_erase_range (4096 * (i + j)) len s = Some (ESP_OK, s')"
    using s'(1) by (simp add: spi_flash_erase_range_def k(3))
  have "esp_partition_erase_range (Some p) start len s = Some (ESP_OK, s')"
    unfolding esp_partition_erase_range_def SPI_FLASH_SEC_SIZE_def option.case range run
    using assms(6) by (simp add: k)
  moreover have "(i + j \<le> b div 4096 \<and> b div 4096 < i + j + n) \<longleftrightarrow>
      (unat (paddress p) + start \<le> b \<and> b < unat (paddress p) + start + len)" for b
  proof -
    have "i + j \<le> b div 4096 \<longleftrightarrow> 4096 * (i + j) \<le> b" by (simp add: less_eq_div_iff_mult_less_eq mult.commute)
    moreover have "b div 4096 < i + j + n \<longleftrightarrow> b < 4096 * (i + j + n)"
      by (simp add: div_less_iff_less_mult mult.commute)
    ultimately show ?thesis unfolding k by (simp add: algebra_simps)
  qed
  ultimately show ?thesis using s'(2) words by auto
qed

text \<open>The chip with the whole partition \<open>otadata\<close>, in use or not\<close>

definition ota_chip :: cchanflash where
  "ota_chip = new_device\<lparr>rangestart := [0xe000], rangeend := [0xffff], secstart := [0], secs := [UNK, UNK],
     pgm := replicate 32 []\<rparr>"

lemma ota_chip_ok: "flash_ok ota_chip"
proof -
  have "layout_ok ota_chip"
    by (simp add: layout_ok_def range_ok_def range_next_def ota_chip_def new_device_def)
  then show ?thesis by (auto simp: flash_ok_def blank_ok_def ota_chip_def new_device_def less_2_cases_iff)
qed

lemma ota_chip_valid: "0xe000 \<le> a \<Longrightarrow> a < 0x10000 \<Longrightarrow> valid_address ota_chip a"
proof -
  assume "0xe000 \<le> a" "a < 0x10000"
  then have "located ota_chip 0 a"
    by (simp add: located_def in_range_def ota_chip_def new_device_def unat_u32_of_nat)
  then show ?thesis using valid_located ota_chip_ok by (auto simp: flash_ok_def)
qed

theorem partition_erase_exact_witness:
  "\<exists>s'. esp_partition_erase_range (Some (load_partitions ! 1)) 0x1000 0x1000 ota_chip = Some (ESP_OK, s') \<and>
     flash_word s' 0xf010 = Some 0xffffffff"
proof -
  have p: "load_partitions ! 1 \<in> set load_partitions" "unat (paddress (load_partitions ! 1)) = 0xe000"
    "partition_end (load_partitions ! 1) = 0x10000" "unat (psize (load_partitions ! 1)) = 0x2000"
    by (simp_all add: load_partitions_def partition_end_def)
  have valid: "\<forall>a. unat (paddress (load_partitions ! 1)) \<le> a \<and> a < partition_end (load_partitions ! 1) \<longrightarrow>
      valid_address ota_chip a"
    unfolding p using ota_chip_valid by simp
  obtain s' where "esp_partition_erase_range (Some (load_partitions ! 1)) 0x1000 0x1000 ota_chip = Some (ESP_OK, s')"
    and words: "\<forall>b. valid_address ota_chip b \<longrightarrow> flash_word s' b =
      (if unat (paddress (load_partitions ! 1)) + 0x1000 \<le> b \<and>
          b < unat (paddress (load_partitions ! 1)) + 0x1000 + 0x1000 then Some 0xffffffff else flash_word ota_chip b)"
    using partition_erase_exact [OF ota_chip_ok p(1) valid, of "0x1000" "0x1000"] unfolding p(4) by (auto simp: dvd_def)
  moreover have "flash_word s' 0xf010 = Some 0xffffffff"
    using words [rule_format, OF ota_chip_valid, of "0xf010"] unfolding p(2) by simp
  ultimately show ?thesis by blast
qed

end
