(* ===== verification/Nvs_Page_Laws.thy ===== *)
theory Nvs_Page_Laws
  imports Nvs_Type_Laws Flash_Runs
begin

text \<open>
  Laws of \<open>nvs_page.cpp\<close> over the simulated flash.  A page lives in one sector, whose 1024 words are seen through
  \<open>sector_word\<close>: eight of header, eight of entry table, and 126 entries of eight.  Reading and writing a sector are
  derived from the laws of the locale \<open>word_store\<close>; on them stand the laws of the operations on entries.
\<close>

section \<open>A sector\<close>

lemma quotient_eqI: "n * q \<le> m \<Longrightarrow> m < n * q + n \<Longrightarrow> m div n = q" for n q m :: nat
  by (rule div_nat_eqI) simp_all

definition sector_ok :: "nat \<Rightarrow> cchanflash \<Rightarrow> bool" where
  "sector_ok k fl \<longleftrightarrow> flash_ok fl \<and> 4096 * k + 4096 \<le> 2 ^ 32 \<and>
     (\<forall>a. a div 4096 = k \<longrightarrow> valid_address fl a \<and> flash_word fl a \<noteq> None)"

definition sector_word :: "nat \<Rightarrow> cchanflash \<Rightarrow> nat \<Rightarrow> u32" where
  "sector_word k fl j = the (flash_word fl (4096 * k + 4 * j))"

definition filled :: "nat \<Rightarrow> cchanflash \<Rightarrow> nat \<Rightarrow> bool" where
  "filled k fl j = stored fl (4096 * k + 4 * j)"

definition sector_bytes :: "nat \<Rightarrow> cchanflash \<Rightarrow> nat \<Rightarrow> nat \<Rightarrow> u8 list" where
  "sector_bytes k fl j n = word_bytes (map (sector_word k fl) [j..<j + n])"

text \<open>Another state of the flash with the same contents\<close>

definition same_contents :: "cchanflash \<Rightarrow> cchanflash \<Rightarrow> bool" where
  "same_contents fl fl' \<longleftrightarrow> flash_ok fl' \<and> valid_address fl' = valid_address fl \<and>
     flash_word fl' = flash_word fl \<and> stored fl' = stored fl"

lemma same_contents_refl: "flash_ok fl \<Longrightarrow> same_contents fl fl"
  by (simp add: same_contents_def)

lemma same_contents_trans: "same_contents a b \<Longrightarrow> same_contents b c \<Longrightarrow> same_contents a c"
  by (simp add: same_contents_def)

lemma same_contents_sector:
  assumes "same_contents fl fl'"
  shows "sector_ok k fl \<Longrightarrow> sector_ok k fl'" "sector_word k fl' = sector_word k fl" "filled k fl' = filled k fl"
    "sector_bytes k fl' = sector_bytes k fl"
  using assms
  by (simp_all add: same_contents_def sector_ok_def sector_word_def [abs_def] filled_def [abs_def] sector_bytes_def [abs_def])

lemma sector_address:
  assumes "4096 * k + 4096 \<le> 2 ^ 32" "j + n \<le> 1024" "j mod 64 + n \<le> 64" "0 < n"
  shows "fits_page (4096 * k + 4 * j) n" and "4096 * k + 4 * j < 2 ^ 32"
    and "i < n \<Longrightarrow> (4096 * k + 4 * j + 4 * i) div 4096 = k"
proof -
  have "(4096 * k + 4 * j) mod 256 = 4 * (j mod 64)"
  proof -
    have "4096 * k + 4 * j = 4 * (1024 * k + j)" by simp
    also have "\<dots> mod 256 = 4 * ((1024 * k + j) mod 64)" using mult_mod_right [of 4 "1024 * k + j" 64] by simp
    also have "(1024 * k + j) mod 64 = j mod 64" using mod_mult_self4 [of 64 "16 * k" j] by simp
    finally show ?thesis .
  qed
  then show "fits_page (4096 * k + 4 * j) n" using assms(3,4) by (simp add: fits_page_def)
  show less: "4096 * k + 4 * j < 2 ^ 32" using assms by linarith
  show "(4096 * k + 4 * j + 4 * i) div 4096 = k" if "i < n"
    by (rule quotient_eqI) (use that assms in linarith)+
qed

lemma sector_word_at:
  assumes "sector_ok k fl" "j < 1024"
  shows "flash_word fl (4096 * k + 4 * j) = Some (sector_word k fl j)" "valid_address fl (4096 * k + 4 * j)"
proof -
  have "(4096 * k + 4 * j) div 4096 = k" by (rule quotient_eqI) (use assms(2) in linarith)+
  then show "flash_word fl (4096 * k + 4 * j) = Some (sector_word k fl j)" "valid_address fl (4096 * k + 4 * j)"
    using assms(1) unfolding sector_ok_def sector_word_def by auto
qed

lemma flash_read_law:
  assumes "sector_ok k fl" "j + n \<le> 1024" "j mod 64 + n \<le> 64" "0 < n" "unat x = 4096 * k + 4 * j"
  shows "\<exists>fl'. flash_read x (4 * n) fl =
    Some (ESP_OK, sector_bytes k fl j n, fl') \<and> same_contents fl fl'"
proof -
  have ok: "flash_ok fl" and k: "4096 * k + 4096 \<le> 2 ^ 32" using assms(1) by (simp_all add: sector_ok_def)
  note a = sector_address [OF k assms(2-4)]
  have "flash_word fl (4096 * k + 4 * j + 4 * i) = Some (map (sector_word k fl) [j..<j + n] ! i)" if "i < n" for i
    using sector_word_at(1) [OF assms(1), of "j + i"] that assms(2) by (simp add: algebra_simps)
  from flash.read_law [OF ok a(1,2) _ this, of 0 "replicate (4 * n) 0"]
  show ?thesis by (simp add: flash_read_def assms(5) sector_bytes_def same_contents_def)
qed

text \<open>What a write to a sector does to its words and to everything else\<close>

definition sector_written :: "nat \<Rightarrow> nat \<Rightarrow> u32 list \<Rightarrow> cchanflash \<Rightarrow> cchanflash \<Rightarrow> bool" where
  "sector_written k j ws fl fl' \<longleftrightarrow> sector_ok k fl' \<and> valid_address fl' = valid_address fl \<and>
     (\<forall>m < 1024. sector_word k fl' m =
        (if j \<le> m \<and> m < j + length ws then ws ! (m - j)
         else if m div 64 = j div 64 \<and> m < j \<and> \<not> filled k fl m then 0 else sector_word k fl m)) \<and>
     (\<forall>m < 1024. filled k fl' m \<longleftrightarrow> filled k fl m \<or> m div 64 = j div 64 \<and> m < j + length ws) \<and>
     (\<forall>b. valid_address fl b \<and> b div 4096 \<noteq> k \<longrightarrow> flash_word fl' b = flash_word fl b \<and> stored fl' b = stored fl b)"

lemma flash_write_law:
  assumes "sector_ok k fl" "j + length ws \<le> 1024" "j mod 64 + length ws \<le> 64" "ws \<noteq> []"
    and "unat x = 4096 * k + 4 * j"
  shows "\<exists>fl'. flash_write x (word_bytes ws) fl = Some (ESP_OK, fl') \<and>
    sector_written k j ws fl fl'"
proof -
  let ?a = "4096 * k + 4 * j"
  have ok: "flash_ok fl" and k: "4096 * k + 4096 \<le> 2 ^ 32" using assms(1) by (simp_all add: sector_ok_def)
  have n: "0 < length ws" using assms(4) by simp
  note a = sector_address [OF k assms(2,3) n]
  have j: "j < 1024" using assms(2) n by linarith
  have "flash_word fl ?a \<noteq> None" using sector_word_at(1) [OF assms(1) j] by simp
  from flash.write_law [OF ok a(1,2) this, of "[]"]
  obtain fl' where w: "spi_flash_write ?a (word_bytes ws) (4 * length ws) fl = Some (ESP_OK, fl')" "flash_ok fl'"
    "valid_address fl' = valid_address fl"
    and at: "\<And>b. valid_address fl b \<Longrightarrow> flash_word fl' b =
         (if ?a div 4 \<le> b div 4 \<and> b div 4 < ?a div 4 + length ws then Some (ws ! (b div 4 - ?a div 4))
          else if b div 256 = ?a div 256 \<and> b div 4 < ?a div 4 \<and> \<not> stored fl b then Some 0 else flash_word fl b)"
    and st: "\<And>b. valid_address fl b \<Longrightarrow>
         stored fl' b = (stored fl b \<or> b div 256 = ?a div 256 \<and> b div 4 < ?a div 4 + length ws)"
    by auto
  have q: "(4096 * k + 4 * m) div 4 = 1024 * k + m" "(4096 * k + 4 * m) div 256 = 16 * k + m div 64" for m
  proof -
    show d: "(4096 * k + 4 * m) div 4 = 1024 * k + m" by simp
    have "(4096 * k + 4 * m) div 256 = (1024 * k + m) div 64" using div_mult2_eq [of "4096 * k + 4 * m" 4 64] d by simp
    also have "\<dots> = 16 * k + m div 64" using div_mult_self4 [of 64 "16 * k" m] by simp
    finally show "(4096 * k + 4 * m) div 256 = 16 * k + m div 64" .
  qed
  have words: "flash_word fl' (4096 * k + 4 * m) =
      Some (if j \<le> m \<and> m < j + length ws then ws ! (m - j)
         else if m div 64 = j div 64 \<and> m < j \<and> \<not> filled k fl m then 0 else sector_word k fl m)"
    and fills: "filled k fl' m \<longleftrightarrow> filled k fl m \<or> m div 64 = j div 64 \<and> m < j + length ws"
    if "m < 1024" for m
    using sector_word_at [OF assms(1) that] at [of "4096 * k + 4 * m"] st [of "4096 * k + 4 * m"]
    by (auto simp: q filled_def)
  have "sector_ok k fl'"
    using at assms(1) w(2,3) unfolding sector_ok_def by (auto split: if_splits)
  moreover have "flash_word fl' b = flash_word fl b \<and> stored fl' b = stored fl b"
    if "valid_address fl b" "b div 4096 \<noteq> k" for b
  proof -
    have pg: "b div 256 \<noteq> ?a div 256"
    proof
      assume "b div 256 = ?a div 256"
      then have "b div 256 div 16 = (16 * k + j div 64) div 16" by (simp only: q)
      also have "\<dots> = k" by (rule quotient_eqI) (use j in linarith)+
      finally show False using that(2) by (simp add: div_mult2_eq [symmetric])
    qed
    have "\<not> (?a div 4 \<le> b div 4 \<and> b div 4 < ?a div 4 + length ws)"
    proof
      assume in_run: "?a div 4 \<le> b div 4 \<and> b div 4 < ?a div 4 + length ws"
      have "b div 4 div 64 = ?a div 256"
        by (rule quotient_eqI) (use in_run assms(3) q [of j] mult_div_mod_eq [of 64 j] in linarith)+
      with pg show False by (simp add: div_mult2_eq [symmetric])
    qed
    with at [OF that(1)] st [OF that(1)] pg show ?thesis by auto
  qed
  ultimately have "sector_written k j ws fl fl'"
    using words fills w(3) unfolding sector_written_def by (simp add: sector_word_def)
  moreover have "length (word_bytes ws) = 4 * length ws" by simp
  ultimately show ?thesis using w(1) unfolding flash_write_def assms(5) by auto
qed

section \<open>Entries\<close>

definition page_in :: "nat \<Rightarrow> page \<Rightarrow> bool" where
  "page_in k p \<longleftrightarrow> mBaseAddress p = of_nat (4096 * k) \<and> length (mEntryTable p) = 8"

definition entry_item :: "nat \<Rightarrow> cchanflash \<Rightarrow> nat \<Rightarrow> Item" where
  "entry_item k fl i = sector_bytes k fl (16 + 8 * i) 8"

lemma length_sector_bytes [simp]: "length (sector_bytes k fl j n) = 4 * n"
  by (simp add: sector_bytes_def)

lemma length_entry_item [simp]: "length (entry_item k fl i) = 32"
  by (simp add: entry_item_def)

lemma base_plus:
  assumes "4096 * k + 4096 \<le> 2 ^ 32" "n < 4096" "x = of_nat (4096 * k) + of_nat n"
  shows "unat (x :: u32) = 4096 * k + n"
proof -
  have "x = of_nat (4096 * k + n)" using assms(3) by simp
  then show ?thesis using assms(1,2) by (simp only: unat_of_nat) simp
qed

lemma entry_address:
  assumes "sector_ok k fl" "page_in k p" "i < ENTRY_COUNT"
  shows "\<exists>x. getEntryAddress p i = Some x \<and> unat x = 4096 * k + 4 * (16 + 8 * i)"
proof -
  have k: "4096 * k + 4096 \<le> 2 ^ 32" using assms(1) by (simp add: sector_ok_def)
  have "unat (mBaseAddress p + ENTRY_DATA_OFFSET + of_nat i * of_nat ENTRY_SIZE) = 4096 * k + (64 + 32 * i)"
    by (rule base_plus [OF k])
      (use assms(2,3) in \<open>simp_all add: page_in_def ENTRY_COUNT_def ENTRY_DATA_OFFSET_def ENTRY_TABLE_OFFSET_def
        HEADER_OFFSET_def ENTRY_SIZE_def\<close>)
  then show ?thesis using assms(3) by (simp add: getEntryAddress_def)
qed

lemma entry_words:
  assumes "i < ENTRY_COUNT"
  shows "16 + 8 * i + 8 \<le> 1024" and "(16 + 8 * i) mod 64 + 8 \<le> 64"
proof -
  show "16 + 8 * i + 8 \<le> 1024" using assms by (simp add: ENTRY_COUNT_def)
  have "(16 + 8 * i) mod 64 = 8 * ((2 + i) mod 8)" using mult_mod_right [of 8 "2 + i" 8] by simp
  moreover have "(2 + i) mod 8 \<le> 7" by simp
  ultimately show "(16 + 8 * i) mod 64 + 8 \<le> 64" by linarith
qed

lemma readEntry_law:
  assumes "sector_ok k fl" "page_in k p" "i < ENTRY_COUNT"
  shows "\<exists>fl'. readEntry i p fl = Some (ESP_OK, entry_item k fl i, fl') \<and> same_contents fl fl'"
proof -
  obtain x where x: "getEntryAddress p i = Some x" "unat x = 4096 * k + 4 * (16 + 8 * i)"
    using entry_address [OF assms] by blast
  from flash_read_law [OF assms(1) entry_words [OF assms(3)] _ x(2)]
  show ?thesis using x(1) by (simp add: readEntry_def entry_item_def)
qed

text \<open>How far the page has been written: the header, and the entries below \<open>n\<close>\<close>

definition packed :: "nat \<Rightarrow> cchanflash \<Rightarrow> nat \<Rightarrow> bool" where
  "packed k fl n \<longleftrightarrow> (\<forall>m < 16 + 8 * n. m < 8 \<or> 16 \<le> m \<longrightarrow> filled k fl m)"

lemma same_contents_entries:
  assumes "same_contents fl fl'"
  shows "entry_item k fl' = entry_item k fl" "packed k fl' = packed k fl"
  using same_contents_sector [OF assms] by (simp_all add: entry_item_def [abs_def] packed_def [abs_def])

lemma sector_bytes_cong: "(\<And>m. j \<le> m \<Longrightarrow> m < j + n \<Longrightarrow> sector_word k fl' m = sector_word k fl m) \<Longrightarrow>
    sector_bytes k fl' j n = sector_bytes k fl j n"
  by (auto simp: sector_bytes_def intro: arg_cong [where f = word_bytes])

text \<open>Writing below the entries leaves them alone.\<close>

lemma written_table:
  assumes "sector_written k j ws fl fl'" "8 \<le> j" "j + length ws \<le> 16" "\<And>m. m < 8 \<Longrightarrow> filled k fl m"
  shows "i < ENTRY_COUNT \<Longrightarrow> entry_item k fl' i = entry_item k fl i"
    and "packed k fl n \<Longrightarrow> n \<le> ENTRY_COUNT \<Longrightarrow> packed k fl' n"
    and "m < 8 \<Longrightarrow> sector_word k fl' m = sector_word k fl m"
proof -
  show "entry_item k fl' i = entry_item k fl i" if "i < ENTRY_COUNT"
    unfolding entry_item_def
    by (rule sector_bytes_cong) (use assms(1,3) that entry_words(1) [OF that] in \<open>auto simp: sector_written_def\<close>)
  show "packed k fl' n" if "packed k fl n" "n \<le> ENTRY_COUNT"
    using assms(1) that by (auto simp: packed_def sector_written_def ENTRY_COUNT_def)
  show "sector_word k fl' m = sector_word k fl m" if "m < 8"
    using assms(1,2,4) that by (auto simp: sector_written_def)
qed

lemma word_bytes_drop: "drop (4 * n) (word_bytes ws) = word_bytes (drop n ws)"
proof (induction n arbitrary: ws)
  case (Suc n)
  then show ?case by (cases ws) (simp_all add: word_bytes_def)
qed simp

lemma word_bytes_take: "take (4 * n) (word_bytes ws) = word_bytes (take n ws)"
proof (induction n arbitrary: ws)
  case (Suc n)
  then show ?case by (cases ws) (simp_all add: word_bytes_def)
qed (simp add: word_bytes_def)

text \<open>The entries from \<open>i\<close> on have been written with the bytes \<open>bs\<close>, a multiple of 32 of them; nothing else has
  changed but words of the table.\<close>

definition elsewhere :: "nat \<Rightarrow> cchanflash \<Rightarrow> cchanflash \<Rightarrow> bool" where
  "elsewhere k fl fl' \<longleftrightarrow> valid_address fl' = valid_address fl \<and>
     (\<forall>b. valid_address fl b \<and> b div 4096 \<noteq> k \<longrightarrow> flash_word fl' b = flash_word fl b \<and> stored fl' b = stored fl b)"

definition entries_put :: "nat \<Rightarrow> nat \<Rightarrow> u8 list \<Rightarrow> cchanflash \<Rightarrow> cchanflash \<Rightarrow> bool" where
  "entries_put k i bs fl fl' \<longleftrightarrow> sector_ok k fl' \<and> elsewhere k fl fl' \<and>
     (\<forall>j < ENTRY_COUNT. entry_item k fl' j =
        (if i \<le> j \<and> 32 * j < 32 * i + length bs then take 32 (drop (32 * (j - i)) bs) else entry_item k fl j)) \<and>
     (\<forall>n. 32 * n = 32 * i + length bs \<longrightarrow> packed k fl' n) \<and>
     (\<forall>m < 8. sector_word k fl' m = sector_word k fl m)"

lemma sector_written_elsewhere: "sector_written k j ws fl fl' \<Longrightarrow> elsewhere k fl fl'"
  by (simp add: sector_written_def elsewhere_def)

lemma written_entries:
  assumes w: "sector_written k (16 + 8 * i) ws fl fl'" and len: "length ws = 8 * n"
    and inside: "(16 + 8 * i) mod 64 + 8 * n \<le> 64" "i + n \<le> ENTRY_COUNT" and packed: "packed k fl i"
  shows "entries_put k i (word_bytes ws) fl fl'"
proof -
  have at: "sector_word k fl' m = (if 16 + 8 * i \<le> m \<and> m < 16 + 8 * i + 8 * n then ws ! (m - (16 + 8 * i))
         else if m div 64 = (16 + 8 * i) div 64 \<and> m < 16 + 8 * i \<and> \<not> filled k fl m then 0 else sector_word k fl m)"
    and f: "filled k fl' m \<longleftrightarrow> filled k fl m \<or> m div 64 = (16 + 8 * i) div 64 \<and> m < 16 + 8 * i + 8 * n" if "m < 1024" for m
    using w len that by (simp_all add: sector_written_def)
  have top: "16 + 8 * i + 8 * n \<le> 1024" using inside(2) by (simp add: ENTRY_COUNT_def)
  have "entry_item k fl' j = take 32 (drop (32 * (j - i)) (word_bytes ws))" if j: "i \<le> j" "j < i + n" for j
  proof -
    have "map (sector_word k fl') [16 + 8 * j..<16 + 8 * j + 8] = take 8 (drop (8 * (j - i)) ws)"
    proof (rule nth_equalityI)
      show "length (map (sector_word k fl') [16 + 8 * j..<16 + 8 * j + 8]) = length (take 8 (drop (8 * (j - i)) ws))"
        using j len by simp
      fix x
      assume "x < length (map (sector_word k fl') [16 + 8 * j..<16 + 8 * j + 8])"
      then have x: "x < 8" by simp
      have "16 + 8 * j + x < 16 + 8 * i + 8 * n" "16 + 8 * i \<le> 16 + 8 * j + x" "16 + 8 * j + x - (16 + 8 * i) = 8 * (j - i) + x"
        using j x by simp_all
      then show "map (sector_word k fl') [16 + 8 * j..<16 + 8 * j + 8] ! x = take 8 (drop (8 * (j - i)) ws) ! x"
        using at [of "16 + 8 * j + x"] top x len by simp
    qed
    moreover have "drop (32 * (j - i)) (word_bytes ws) = word_bytes (drop (8 * (j - i)) ws)"
      using word_bytes_drop [of "8 * (j - i)" ws] by simp
    moreover have "take 32 (word_bytes (drop (8 * (j - i)) ws)) = word_bytes (take 8 (drop (8 * (j - i)) ws))"
      using word_bytes_take [of 8 "drop (8 * (j - i)) ws"] by simp
    ultimately show ?thesis by (simp add: entry_item_def sector_bytes_def)
  qed
  moreover have "entry_item k fl' j = entry_item k fl j" if j: "j < ENTRY_COUNT" "j < i \<or> i + n \<le> j" for j
    unfolding entry_item_def
  proof (rule sector_bytes_cong)
    fix m
    assume m: "16 + 8 * j \<le> m" "m < 16 + 8 * j + 8"
    have "m < 1024" using m entry_words(1) [OF j(1)] by simp
    moreover have "\<not> (16 + 8 * i \<le> m \<and> m < 16 + 8 * i + 8 * n)" using m j(2) by linarith
    moreover have "filled k fl m" if "m < 16 + 8 * i" using packed m that by (simp add: packed_def)
    ultimately show "sector_word k fl' m = sector_word k fl m" using at by auto
  qed
  moreover have "packed k fl' (i + n)"
    unfolding packed_def
  proof (intro allI impI)
    fix m
    assume m: "m < 16 + 8 * (i + n)" "m < 8 \<or> 16 \<le> m"
    have "m < 1024" "m < 16 + 8 * i + 8 * n" using m top by simp_all
    moreover have "m div 64 = (16 + 8 * i) div 64" if "16 + 8 * i \<le> m"
      by (rule quotient_eqI)
        (use that \<open>m < 16 + 8 * i + 8 * n\<close> inside(1) mult_div_mod_eq [of 64 "16 + 8 * i"] in linarith)+
    moreover have "filled k fl m" if "m < 16 + 8 * i" using packed m(2) that unfolding packed_def by blast
    ultimately show "filled k fl' m" using f [of m] by (cases "m < 16 + 8 * i") auto
  qed
  moreover have "sector_word k fl' m = sector_word k fl m" if "m < 8" for m
    using at [of m] packed that by (simp add: packed_def)
  moreover have "32 * j < 32 * i + length (word_bytes ws) \<longleftrightarrow> j < i + n" "32 * j = 32 * i + length (word_bytes ws) \<longleftrightarrow> j = i + n" for j
    using len by auto
  moreover have "sector_ok k fl'" using w by (simp add: sector_written_def)
  ultimately show ?thesis
    using sector_written_elsewhere [OF w] unfolding entries_put_def by auto
qed

section \<open>Changing the entry table\<close>

definition only_table :: "nat \<Rightarrow> cchanflash \<Rightarrow> cchanflash \<Rightarrow> bool" where
  "only_table k fl fl' \<longleftrightarrow> sector_ok k fl' \<and> elsewhere k fl fl' \<and>
     (\<forall>i < ENTRY_COUNT. entry_item k fl' i = entry_item k fl i) \<and>
     (\<forall>n \<le> ENTRY_COUNT. packed k fl n \<longrightarrow> packed k fl' n) \<and>
     (\<forall>m < 8. sector_word k fl' m = sector_word k fl m)"

lemma elsewhere_refl [simp]: "elsewhere k fl fl"
  by (simp add: elsewhere_def)

lemma elsewhere_trans: "elsewhere k a b \<Longrightarrow> elsewhere k b c \<Longrightarrow> elsewhere k a c"
  by (auto simp: elsewhere_def)

lemma only_table_trans: "only_table k a b \<Longrightarrow> only_table k b c \<Longrightarrow> only_table k a c"
  by (auto simp: only_table_def intro: elsewhere_trans)

lemma only_table_refl: "sector_ok k fl \<Longrightarrow> only_table k fl fl"
  by (simp add: only_table_def)

lemma same_contents_elsewhere: "same_contents a b \<Longrightarrow> elsewhere k a b"
  by (simp add: same_contents_def elsewhere_def)

lemma packed_mono: "packed k fl n \<Longrightarrow> m \<le> n \<Longrightarrow> packed k fl m"
  by (simp add: packed_def)

lemma packed_header: "packed k fl n \<Longrightarrow> m < 8 \<Longrightarrow> filled k fl m"
  by (simp add: packed_def)

lemma table_word_written:
  assumes ok: "sector_ok k fl" "page_in k p" and packed: "packed k fl 0" and w: "w < 8"
  shows "\<exists>fl'. flash_write (table_word_address p w) (le32_bytes x) fl = Some (ESP_OK, fl') \<and>
    sector_written k (8 + w) [x] fl fl' \<and> only_table k fl fl'"
proof -
  have "4096 * k + 4096 \<le> 2 ^ 32" using ok by (simp add: sector_ok_def)
  then have "unat (table_word_address p w) = 4096 * k + 4 * (8 + w)"
    using w ok(2) base_plus [of k "32 + 4 * w" "table_word_address p w"]
    by (simp add: table_word_address_def page_in_def ENTRY_TABLE_OFFSET_def HEADER_OFFSET_def)
  from flash_write_law [OF ok(1) _ _ _ this, of "[x]"] w obtain fl'
    where fl': "flash_write (table_word_address p w) (le32_bytes x) fl = Some (ESP_OK, fl')"
      "sector_written k (8 + w) [x] fl fl'"
    by (auto simp: word_bytes_def)
  have "only_table k fl fl'"
    using fl'(2) written_table [OF fl'(2)] w packed_header [OF packed] sector_written_elsewhere [OF fl'(2)]
    by (auto simp: only_table_def sector_written_def)
  with fl' show ?thesis by blast
qed

lemma entry_set_word:
  "entry_set t i v = Some t' \<Longrightarrow> t' = t[i div 16 := t' ! (i div 16)]"
  by (auto simp: entry_set_def elem_def set_elem_def getWordIndex_def ITEMS_PER_WORD_def Let_def split: if_splits)

definition entry_state :: "u32 \<Rightarrow> bool" where
  "entry_state v \<longleftrightarrow> v AND 3 = v"

lemma entry_states [simp]: "entry_state WRITTEN" "entry_state ERASED" "entry_state EMPTY"
  by (simp_all add: entry_state_def WRITTEN_def ERASED_def EMPTY_def ESB_WRITTEN_def ESB_ERASED_def)

lemma states_differ [simp]: "WRITTEN \<noteq> EMPTY" "ERASED \<noteq> WRITTEN" "ERASED \<noteq> EMPTY" "EMPTY \<noteq> WRITTEN" "WRITTEN \<noteq> ERASED"
  "EMPTY \<noteq> ERASED"
  by (simp_all add: WRITTEN_def ERASED_def EMPTY_def ESB_WRITTEN_def ESB_ERASED_def)

lemma alterEntryState_law:
  assumes ok: "sector_ok k fl" "page_in k p" "packed k fl 0" and i: "i < ENTRY_COUNT" and v: "entry_state v"
  shows "\<exists>t fl'. alterEntryState i v p fl = Some (ESP_OK, p\<lparr>mEntryTable := t\<rparr>, fl') \<and> length t = 8 \<and>
    (\<forall>j < ENTRY_COUNT. entry_get t j = (if j = i then Some v else entry_get (mEntryTable p) j)) \<and>
    only_table k fl fl' \<and> sector_written k (8 + i div 16) [t ! (i div 16)] fl fl'"
proof -
  have len: "length (mEntryTable p) = 8" using ok(2) by (simp add: page_in_def)
  obtain t where t: "entry_set (mEntryTable p) i v = Some t" "length t = 8"
    "\<forall>j < ENTRY_COUNT. entry_get t j = (if j = i then Some v else entry_get (mEntryTable p) j)"
    using entries.put_law [OF len i v [unfolded entry_state_def]] by blast
  have "page_in k (p\<lparr>mEntryTable := t\<rparr>)" using ok(2) t(2) by (simp add: page_in_def)
  moreover have "i div 16 < 8" using i by (simp add: ENTRY_COUNT_def)
  ultimately obtain fl' where "flash_write (table_word_address (p\<lparr>mEntryTable := t\<rparr>) (i div 16)) (le32_bytes (t ! (i div 16))) fl
      = Some (ESP_OK, fl')" "sector_written k (8 + i div 16) [t ! (i div 16)] fl fl'" "only_table k fl fl'"
    using table_word_written [OF ok(1) _ ok(3)] by blast
  with t show ?thesis
    by (intro exI [of _ t] exI [of _ fl']) (simp add: alterEntryState_def getWordIndex_def ITEMS_PER_WORD_def)
qed

lemma alter_range_law:
  assumes "sector_ok k fl" "page_in k p" "packed k fl 0" "first + n \<le> ENTRY_COUNT" "entry_state v"
  shows "\<exists>t fl'. alter_range first n v p fl = Some (ESP_OK, p\<lparr>mEntryTable := t\<rparr>, fl') \<and> length t = 8 \<and>
    (\<forall>j < ENTRY_COUNT. entry_get t j = (if first \<le> j \<and> j < first + n then Some v else entry_get (mEntryTable p) j)) \<and>
    only_table k fl fl'"
  using assms(1-4)
proof (induction n arbitrary: p fl)
  case 0
  then show ?case
    by (intro exI [of _ "mEntryTable p"] exI [of _ fl]) (auto simp: only_table_refl page_in_def)
next
  case (Suc n)
  have len: "length (mEntryTable p) = 8" and i: "first + n < ENTRY_COUNT" using Suc.prems by (auto simp: page_in_def)
  obtain t where t: "entry_set (mEntryTable p) (first + n) v = Some t" "length t = 8"
    "\<forall>j < ENTRY_COUNT. entry_get t j = (if j = first + n then Some v else entry_get (mEntryTable p) j)"
    using entries.put_law [OF len i assms(5) [unfolded entry_state_def]] by blast
  let ?p = "p\<lparr>mEntryTable := t\<rparr>" and ?w = "getWordIndex (first + n)"
  have p: "page_in k ?p" using Suc.prems(2) t(2) by (simp add: page_in_def)
  have "?w < 8" using i by (simp add: getWordIndex_def ITEMS_PER_WORD_def ENTRY_COUNT_def)
  from table_word_written [OF Suc.prems(1) p Suc.prems(3) this] obtain fl1
    where fl1: "flash_write (table_word_address ?p ?w) (le32_bytes (t ! ?w)) fl = Some (ESP_OK, fl1)" "only_table k fl fl1"
    by blast
  have go: "\<exists>t' fl'. alter_range first n v ?p fl2 = Some (ESP_OK, p\<lparr>mEntryTable := t'\<rparr>, fl') \<and> length t' = 8 \<and>
      (\<forall>j < ENTRY_COUNT. entry_get t' j = (if first \<le> j \<and> j < first + Suc n then Some v else entry_get (mEntryTable p) j)) \<and>
      only_table k fl fl'"
    if fl2: "only_table k fl fl2" for fl2
  proof -
    have "sector_ok k fl2" "packed k fl2 0" using fl2 Suc.prems(3) by (simp_all add: only_table_def)
    from Suc.IH [OF this(1) p this(2)] Suc.prems(4) obtain t' fl'
      where "alter_range first n v ?p fl2 = Some (ESP_OK, p\<lparr>mEntryTable := t'\<rparr>, fl')" "length t' = 8"
        "\<forall>j < ENTRY_COUNT. entry_get t' j = (if first \<le> j \<and> j < first + n then Some v else entry_get t j)"
        "only_table k fl2 fl'"
      by auto
    with t(3) only_table_trans [OF fl2] show ?thesis by (intro exI [of _ t'] exI [of _ fl']) auto
  qed
  show ?case
    using go [OF fl1(2)] go [OF only_table_refl [OF Suc.prems(1)]] t(1) fl1(1) by (auto simp: Let_def)
qed

lemma alterEntryRangeState_law:
  assumes "sector_ok k fl" "page_in k p" "packed k fl 0" "first < end'" "end' \<le> ENTRY_COUNT" "entry_state v"
  shows "\<exists>t fl'. alterEntryRangeState first end' v p fl = Some (ESP_OK, p\<lparr>mEntryTable := t\<rparr>, fl') \<and> length t = 8 \<and>
    (\<forall>j < ENTRY_COUNT. entry_get t j = (if first \<le> j \<and> j < end' then Some v else entry_get (mEntryTable p) j)) \<and>
    only_table k fl fl'"
  using alter_range_law [OF assms(1-3) _ assms(6), of first "end' - first"] assms(4,5)
  by (simp add: alterEntryRangeState_def)

section \<open>Writing entries\<close>

lemma bytes_are_words: "length bs = 4 * n \<Longrightarrow> \<exists>ws. bs = word_bytes ws \<and> length ws = n"
proof (induction n arbitrary: bs)
  case (Suc n)
  obtain a b c d cs where bs: "bs = a # b # c # d # cs" "length cs = 4 * n"
    using Suc.prems by (auto simp: length_Suc_conv numeral_eq_Suc)
  obtain ws where ws: "cs = word_bytes ws" "length ws = n" using Suc.IH [OF bs(2)] by blast
  then show ?case
    by (intro exI [of _ "le32 a b c d # ws"]) (simp add: bs(1) word_bytes_def le32_bytes_le32)
qed (simp add: word_bytes_def)

lemma entries_put_table:
  assumes "entries_put k i bs fl fl1" "only_table k fl1 fl2" "32 * n = 32 * i + length bs" "n \<le> ENTRY_COUNT"
  shows "entries_put k i bs fl fl2"
  using assms elsewhere_trans [of k fl fl1 fl2] unfolding entries_put_def only_table_def by auto

lemma same_contents_only_table:
  assumes "same_contents fl fl'" "sector_ok k fl"
  shows "only_table k fl fl'"
  using same_contents_sector(1) [OF assms] same_contents_sector(2) [OF assms(1), of k]
    same_contents_entries [OF assms(1), of k] same_contents_elsewhere [OF assms(1), of k]
  by (simp add: only_table_def)

text \<open>The page after entries have been written at its next free one\<close>

definition advanced :: "u32 list \<Rightarrow> nat \<Rightarrow> page \<Rightarrow> page" where
  "advanced t n p = p\<lparr>mEntryTable := t,
     mFirstUsedEntry := (if mFirstUsedEntry p = INVALID_ENTRY then mNextFreeEntry p else mFirstUsedEntry p),
     mUsedEntryCount := mUsedEntryCount p + of_nat n, mNextFreeEntry := mNextFreeEntry p + n\<rparr>"

definition marked :: "page \<Rightarrow> nat \<Rightarrow> nat \<Rightarrow> u32 \<Rightarrow> u32 list \<Rightarrow> bool" where
  "marked p i n v t \<longleftrightarrow> length t = 8 \<and>
     (\<forall>j < ENTRY_COUNT. entry_get t j = (if i \<le> j \<and> j < i + n then Some v else entry_get (mEntryTable p) j))"

lemma entries_write:
  assumes ok: "sector_ok k fl" "page_in k p" and i: "i + n \<le> ENTRY_COUNT" "0 < n"
    and packed: "packed k fl i" and inside: "(16 + 8 * i) mod 64 + 8 * n \<le> 64" and bs: "length bs = 32 * n"
  shows "\<exists>x fl'. getEntryAddress p i = Some x \<and> flash_write x bs fl = Some (ESP_OK, fl') \<and> entries_put k i bs fl fl'"
proof -
  obtain ws where ws: "bs = word_bytes ws" "length ws = 8 * n" using bytes_are_words [of bs "8 * n"] bs by auto
  obtain x where x: "getEntryAddress p i = Some x" "unat x = 4096 * k + 4 * (16 + 8 * i)"
    using entry_address [OF ok, of i] i by auto
  have "16 + 8 * i + length ws \<le> 1024" using i(1) ws(2) by (simp add: ENTRY_COUNT_def)
  moreover have "(16 + 8 * i) mod 64 + length ws \<le> 64" "ws \<noteq> []" using inside i(2) ws(2) by auto
  ultimately obtain fl' where "flash_write x bs fl = Some (ESP_OK, fl')" "sector_written k (16 + 8 * i) ws fl fl'"
    using flash_write_law [OF ok(1) _ _ _ x(2)] ws(1) by blast
  with written_entries [OF this(2) ws(2) inside i(1) packed] x(1) ws(1) show ?thesis by blast
qed

lemma writeEntry_law:
  assumes ok: "sector_ok k fl" "page_in k p" and i: "mNextFreeEntry p < ENTRY_COUNT"
    and packed: "packed k fl (mNextFreeEntry p)" and it: "length it = 32"
  shows "\<exists>t fl'. writeEntry it p fl = Some (ESP_OK, advanced t 1 p, fl') \<and> marked p (mNextFreeEntry p) 1 WRITTEN t \<and>
    entries_put k (mNextFreeEntry p) it fl fl'"
proof -
  let ?i = "mNextFreeEntry p"
  obtain x fl1 where w: "getEntryAddress p ?i = Some x" "flash_write x it fl = Some (ESP_OK, fl1)"
    "entries_put k ?i it fl fl1"
    using entries_write [OF ok, of ?i 1 it] i packed entry_words(2) [OF i] it by auto
  have fl1: "sector_ok k fl1" "packed k fl1 0"
    using w(3) it packed_mono [of k fl1 "Suc ?i" 0] by (auto simp: entries_put_def)
  obtain t fl2 where t: "alterEntryState ?i WRITTEN p fl1 = Some (ESP_OK, p\<lparr>mEntryTable := t\<rparr>, fl2)" "length t = 8"
    "\<forall>j < ENTRY_COUNT. entry_get t j = (if j = ?i then Some WRITTEN else entry_get (mEntryTable p) j)" "only_table k fl1 fl2"
    using alterEntryState_law [OF fl1(1) ok(2) fl1(2) i, of WRITTEN] by auto
  have "entries_put k ?i it fl fl2" by (rule entries_put_table [OF w(3) t(4), of "Suc ?i"]) (use it i in auto)
  moreover have "marked p ?i 1 WRITTEN t" using t(2,3) by (auto simp: marked_def)
  ultimately show ?thesis
    using w(1,2) t(1) i
    by (intro exI [of _ t] exI [of _ fl2]) (simp add: writeEntry_def advanced_def ENTRY_COUNT_def)
qed

text \<open>Data of several entries is one write; it is refused, and the simulation stops, when it is longer than 256 bytes or
  crosses the end of a page of the flash.\<close>

lemma writeEntryData_law:
  assumes ok: "sector_ok k fl" "page_in k p" and n: "0 < n" "mNextFreeEntry p + n \<le> ENTRY_COUNT"
    and packed: "packed k fl (mNextFreeEntry p)" and first: "mFirstUsedEntry p \<noteq> INVALID_ENTRY"
    and bs: "length bs = 32 * n"
    and inside: "(16 + 8 * mNextFreeEntry p) mod 64 + 8 * n \<le> 64"
  shows "\<exists>t fl'. writeEntryData (bs @ rest) (32 * n) p fl = Some (ESP_OK, advanced t n p, fl') \<and>
    marked p (mNextFreeEntry p) n WRITTEN t \<and> entries_put k (mNextFreeEntry p) bs fl fl'"
proof -
  let ?i = "mNextFreeEntry p"
  obtain x fl1 where w: "getEntryAddress p ?i = Some x" "flash_write x bs fl = Some (ESP_OK, fl1)"
    "entries_put k ?i bs fl fl1"
    using entries_write [OF ok n(2,1) packed inside bs] by blast
  have src: "spi_flash_write (unat x) (bs @ rest) (32 * n) fl = spi_flash_write (unat x) bs (32 * n) fl"
  proof -
    obtain ws where ws: "bs = word_bytes ws" "length ws = 8 * n" using bytes_are_words [of bs "8 * n"] bs by auto
    have "32 * n div 4 = length ws" using ws(2) by simp
    then show ?thesis
      using take_words_append [of ws rest] take_words_append [of ws "[]"] ws(1) by (simp add: spi_flash_write_def Let_def)
  qed
  have fl1: "sector_ok k fl1" "packed k fl1 0"
    using w(3) bs packed_mono [of k fl1 "?i + n" 0] by (auto simp: entries_put_def)
  have small: "n < 2 ^ 16" "?i + n < 2 ^ 64" "?i \<noteq> INVALID_ENTRY" using n by (auto simp: ENTRY_COUNT_def INVALID_ENTRY_def)
  obtain t fl2 where t: "alterEntryRangeState ?i (?i + n) WRITTEN p fl1 = Some (ESP_OK, p\<lparr>mEntryTable := t\<rparr>, fl2)"
    "length t = 8"
    "\<forall>j < ENTRY_COUNT. entry_get t j = (if ?i \<le> j \<and> j < ?i + n then Some WRITTEN else entry_get (mEntryTable p) j)"
    "only_table k fl1 fl2"
    using alterEntryRangeState_law [OF fl1(1) ok(2) fl1(2), of ?i "?i + n" WRITTEN] n by auto
  have "entries_put k ?i bs fl fl2" by (rule entries_put_table [OF w(3) t(4), of "?i + n"]) (use bs n in auto)
  moreover have "marked p ?i n WRITTEN t" using t(2,3) by (simp add: marked_def)
  moreover have "spi_flash_write (unat x) (bs @ rest) (32 * n) fl = Some (ESP_OK, fl1)"
    using w(2) src bs by (simp add: flash_write_def)
  ultimately show ?thesis
    using w(1) t(1) small first
    by (intro exI [of _ t] exI [of _ fl2]) (simp add: writeEntryData_def advanced_def ENTRY_SIZE_def)
qed

lemma writeEntryData_crossing:
  assumes ok: "sector_ok k fl" "page_in k p" and n: "0 < n" "mNextFreeEntry p + n \<le> ENTRY_COUNT"
    and bs: "32 * n \<le> length bs"
    and outside: "64 < (16 + 8 * mNextFreeEntry p) mod 64 + 8 * n"
  shows "writeEntryData bs (32 * n) p fl = None"
proof -
  let ?i = "mNextFreeEntry p"
  obtain x where x: "getEntryAddress p ?i = Some x" "unat x = 4096 * k + 4 * (16 + 8 * ?i)"
    using entry_address [OF ok, of ?i] n by auto
  have "unat x mod 256 = 4 * ((16 + 8 * ?i) mod 64)"
  proof -
    have "unat x = 4 * (1024 * k + (16 + 8 * ?i))" using x(2) by simp
    then have "unat x mod 256 = 4 * ((1024 * k + (16 + 8 * ?i)) mod 64)"
      using mult_mod_right [of 4 "1024 * k + (16 + 8 * ?i)" 64] by simp
    also have "(1024 * k + (16 + 8 * ?i)) mod 64 = (16 + 8 * ?i) mod 64"
      using mod_mult_self4 [of 64 "16 * k" "16 + 8 * ?i"] by simp
    finally show ?thesis .
  qed
  moreover have "unat x < 2 ^ 32" using unsigned_less [of x] by simp
  moreover have "flash_ok fl" using ok(1) by (simp add: sector_ok_def)
  ultimately have "spi_flash_write (unat x) bs (32 * n) fl = None"
    using spi_flash_write_cases [of fl "unat x" "32 * n" bs] bs outside by (auto simp: fits_page_def)
  with x(1) show ?thesis by (simp add: writeEntryData_def)
qed

end
