(* ===== verification/Nvs_Page_Items.thy ===== *)
theory Nvs_Page_Items
  imports Nvs_Page_Laws
begin

text \<open>
  A page as the list of the items it holds.  \<open>page_ok\<close> is the invariant that ties the hash list, the entry table, the
  counters and the bytes in the flash together; under it \<open>findItem\<close> is a search in that list, \<open>writeItem\<close> appends to
  it, and \<open>eraseEntryAndSpan\<close> takes an element out.
\<close>

section \<open>The items of a page\<close>

definition items :: "nat \<Rightarrow> page \<Rightarrow> cchanflash \<Rightarrow> (nat \<times> Item) list" where
  "items k p fl = map (\<lambda>(x, _). (unat x, entry_item k fl (unat x))) (live_nodes (mHashList p))"

definition item_ok :: "crc32_le \<Rightarrow> Item \<Rightarrow> bool" where
  "item_ok crc it \<longleftrightarrow> crc32 it = calculateCrc32 crc it \<and> 0 < span_of it \<and>
     (\<not> isVariableLengthType (datatype_of it) \<longrightarrow> span_of it = 1)"

abbreviation span_nat :: "Item \<Rightarrow> nat" where
  "span_nat it \<equiv> unat (span_of it)"

text \<open>The value that an item of variable length points to, and the items with their values\<close>

definition item_value :: "nat \<Rightarrow> cchanflash \<Rightarrow> nat \<Rightarrow> Item \<Rightarrow> u8 list" where
  "item_value k fl i it = take (unat (var_dataSize it)) (concat (map (entry_item k fl) [i + 1..<i + span_nat it]))"

definition contents :: "nat \<Rightarrow> page \<Rightarrow> cchanflash \<Rightarrow> (Item \<times> u8 list) list" where
  "contents k p fl = map (\<lambda>(i, it). (it, item_value k fl i it)) (items k p fl)"

fun spaced :: "nat \<Rightarrow> (nat \<times> Item) list \<Rightarrow> nat \<Rightarrow> bool" where
  "spaced lo [] hi = (lo \<le> hi)"
| "spaced lo ((i, it) # xs) hi = (lo \<le> i \<and> 0 < span_nat it \<and> spaced (i + span_nat it) xs hi)"

definition covered :: "(nat \<times> Item) list \<Rightarrow> nat \<Rightarrow> bool" where
  "covered xs j \<longleftrightarrow> (\<exists>(i, it) \<in> set xs. i \<le> j \<and> j < i + span_nat it)"

lemma spaced_le: "spaced lo xs hi \<Longrightarrow> lo \<le> hi"
  by (induction xs arbitrary: lo) fastforce+

lemma spaced_bounds: "spaced lo xs hi \<Longrightarrow> (i, it) \<in> set xs \<Longrightarrow> lo \<le> i \<and> 0 < span_nat it \<and> i + span_nat it \<le> hi"
proof (induction xs arbitrary: lo)
  case (Cons x xs)
  obtain j jt where x: "x = (j, jt)" by force
  show ?case
  proof (cases "(i, it) = x")
    case True
    then show ?thesis using Cons.prems(1) spaced_le [of "i + span_nat it" xs hi] by (auto simp: x)
  next
    case False
    then show ?thesis using Cons.prems Cons.IH [of "j + span_nat jt"] by (auto simp: x)
  qed
qed simp

lemma spaced_mono: "spaced lo xs hi \<Longrightarrow> lo' \<le> lo \<Longrightarrow> hi \<le> hi' \<Longrightarrow> spaced lo' xs hi'"
  by (induction xs arbitrary: lo lo') force+

lemma spaced_append: "spaced lo (xs @ [(i, it)]) hi \<longleftrightarrow> spaced lo xs i \<and> 0 < span_nat it \<and> i + span_nat it \<le> hi"
  by (induction xs arbitrary: lo) auto

lemma spaced_filter: "spaced lo xs hi \<Longrightarrow> spaced lo (filter P xs) hi"
proof (induction xs arbitrary: lo)
  case (Cons x xs)
  obtain j jt where x: "x = (j, jt)" by force
  show ?case
    using Cons.prems Cons.IH [of "j + span_nat jt"] spaced_mono [of "j + span_nat jt" "filter P xs" hi lo hi]
    by (auto simp: x)
qed simp

lemma spaced_from:
  assumes "spaced lo xs hi" "(j, it) \<in> set xs"
  shows "filter (\<lambda>(i, _). j \<le> i) xs = (j, it) # filter (\<lambda>(i, _). j + span_nat it \<le> i) xs"
  using assms
proof (induction xs arbitrary: lo)
  case (Cons x xs)
  obtain i a where x: "x = (i, a)" by force
  have sp: "spaced (i + span_nat a) xs hi" and pos: "0 < span_nat a" using Cons.prems(1) by (simp_all add: x)
  show ?case
  proof (cases "(j, it) = x")
    case True
    have "i + span_nat a \<le> n" if "(n, b) \<in> set xs" for n b using spaced_bounds [OF sp that] by simp
    then have "filter (\<lambda>(n, _). i + span_nat a \<le> n) xs = xs" "filter (\<lambda>(n, _). i \<le> n) xs = xs"
      by (fastforce simp: filter_id_conv)+
    then show ?thesis using True pos by (simp add: x)
  next
    case False
    then have in_xs: "(j, it) \<in> set xs" using Cons.prems(2) by simp
    have "i + span_nat a \<le> j" using spaced_bounds [OF sp in_xs] by simp
    then show ?thesis using Cons.IH [OF sp in_xs] pos by (simp add: x)
  qed
qed simp

lemma spaced_order:
  assumes "spaced lo xs hi" "(i, a) \<in> set xs" "(j, b) \<in> set xs"
  shows "i < j \<Longrightarrow> i + span_nat a \<le> j" and "i = j \<Longrightarrow> a = b"
proof -
  have s: "filter (\<lambda>(n, _). i \<le> n) xs = (i, a) # filter (\<lambda>(n, _). i + span_nat a \<le> n) xs"
    by (rule spaced_from [OF assms(1,2)])
  have pos: "0 < span_nat a" using spaced_bounds [OF assms(1,2)] by simp
  have "(j, b) \<in> set ((i, a) # filter (\<lambda>(n, _). i + span_nat a \<le> n) xs)" if "i \<le> j"
    unfolding s [symmetric] using assms(3) that by simp
  then show "i < j \<Longrightarrow> i + span_nat a \<le> j" and "i = j \<Longrightarrow> a = b" using pos by auto
qed

definition page_ok :: "crc32_le \<Rightarrow> nat \<Rightarrow> page \<Rightarrow> cchanflash \<Rightarrow> bool" where
  "page_ok crc k p fl \<longleftrightarrow> sector_ok k fl \<and> page_in k p \<and> mNextFreeEntry p \<le> ENTRY_COUNT \<and>
     packed k fl (mNextFreeEntry p) \<and> blocks_ok (mHashList p) \<and>
     (\<forall>(x, h) \<in> set (live_nodes (mHashList p)). h = hash_24 crc (entry_item k fl (unat x))) \<and>
     (\<forall>(i, it) \<in> set (items k p fl). item_ok crc it) \<and>
     spaced 0 (items k p fl) (mNextFreeEntry p) \<and>
     (\<forall>j < ENTRY_COUNT. entry_get (mEntryTable p) j = Some WRITTEN \<longleftrightarrow> covered (items k p fl) j) \<and>
     mFirstUsedEntry p = (case items k p fl of [] \<Rightarrow> INVALID_ENTRY | (i, _) # _ \<Rightarrow> i) \<and>
     mUsedEntryCount p = of_nat (sum_list (map (\<lambda>(_, it). span_nat it) (items k p fl)))"

lemma items_same: "same_contents fl fl' \<Longrightarrow> items k p fl' = items k p fl"
  by (simp add: items_def same_contents_entries)

lemma page_ok_same:
  assumes "same_contents fl fl'" "page_ok crc k p fl"
  shows "page_ok crc k p fl'"
  using assms(2) same_contents_sector(1) [OF assms(1)] same_contents_entries [OF assms(1)] items_same [OF assms(1)]
  by (simp add: page_ok_def)

lemma item_entry: "(i, it) \<in> set (items k p fl) \<Longrightarrow> it = entry_item k fl i"
  by (auto simp: items_def)

definition stops :: "u8 \<Rightarrow> u8 \<Rightarrow> cstr \<Rightarrow> u8 \<Rightarrow> u8 \<Rightarrow> Item \<Rightarrow> bool" where
  "stops ns ty key c v it \<longleftrightarrow> \<not> (passed_over ns ty key c v it \<or> wrong_type ty it \<and> brute_force ns key c)"

definition verdict ::
  "u8 \<Rightarrow> nat \<Rightarrow> Item \<Rightarrow> page \<Rightarrow> cchanflash \<Rightarrow> (nat \<times> Item) option \<Rightarrow> esp_err_t \<times> nat \<times> Item \<times> page \<times> cchanflash" where
  "verdict ty idx none p fl r = (case r of
     None \<Rightarrow> (ESP_ERR_NVS_NOT_FOUND, idx, none, p, fl)
   | Some (i, it) \<Rightarrow> if wrong_type ty it then (ESP_ERR_NVS_TYPE_MISMATCH, idx, it, p, fl) else (ESP_OK, i, it, p, fl))"

text \<open>The search loop, started between two items, finds the first item from there on that is not passed over.\<close>

lemma find_loop_items:
  assumes ok: "page_ok crc k p fl"
    and between: "\<forall>(i, it) \<in> set (items k p fl). i < j \<longrightarrow> i + span_nat it \<le> j"
  shows "\<exists>none fl'. same_contents fl fl' \<and>
    find_loop crc ns ty key c v j (mNextFreeEntry p) idx it0 p fl =
      Some (verdict ty idx none p fl' (find (\<lambda>(i, it). stops ns ty key c v it) (filter (\<lambda>(i, _). j \<le> i) (items k p fl))))"
  using assms
proof (induction "mNextFreeEntry p - j" arbitrary: j it0 fl rule: less_induct)
  case less
  let ?xs = "items k p fl" and ?n = "mNextFreeEntry p"
  have sp: "spaced 0 ?xs ?n" and fok: "flash_ok fl" and sec: "sector_ok k fl" "page_in k p" and n: "?n \<le> ENTRY_COUNT"
    using less.prems(1) by (simp_all add: page_ok_def sector_ok_def)
  show ?case
  proof (cases "j < ?n")
    case False
    have "filter (\<lambda>(i, _). j \<le> i) ?xs = []"
      using spaced_bounds [OF sp] False by (fastforce simp: filter_empty_conv)
    then show ?thesis
      using False same_contents_refl [OF fok]
      by (intro exI [of _ it0] exI [of _ fl]) (simp add: find_loop.simps verdict_def)
  next
    case True
    then have j: "j < ENTRY_COUNT" using n by simp
    have "length (mEntryTable p) = 8" using sec(2) by (simp add: page_in_def)
    then obtain st where st: "entry_get (mEntryTable p) j = Some st"
      using entries.get_some [of "mEntryTable p" j] j by blast
    have "entry_get (mEntryTable p) j = Some WRITTEN \<longleftrightarrow> covered ?xs j"
      using less.prems(1) j unfolding page_ok_def by blast
    then have cov: "st = WRITTEN \<longleftrightarrow> covered ?xs j" using st by simp
    show ?thesis
    proof (cases "st = WRITTEN")
      case False
      then have "\<not> covered ?xs j" using cov by simp
      then have no: "i \<noteq> j" "i < Suc j \<Longrightarrow> i + span_nat it \<le> Suc j" if "(i, it) \<in> set ?xs" for i it
        using that less.prems(2) spaced_bounds [OF sp that] by (force simp: covered_def)+
      have later: "filter (\<lambda>(i, _). j \<le> i) ?xs = filter (\<lambda>(i, _). j + 1 \<le> i) ?xs"
        using no(1) by (intro filter_cong) (auto simp: Suc_le_eq le_less)
      show ?thesis
        using less.hyps [of "j + 1" fl it0] less.prems(1) True no(2) st False
        unfolding later by (subst find_loop.simps) fastforce
    next
      case written: True
      then obtain it where it: "(j, it) \<in> set ?xs"
        using cov less.prems(2) by (fastforce simp: covered_def)
      have iok: "item_ok crc it" using less.prems(1) it by (auto simp: page_ok_def)
      obtain fl1 where rd: "readEntry j p fl = Some (ESP_OK, it, fl1)" "same_contents fl fl1"
        using readEntry_law [OF sec j] item_entry [OF it] by auto
      let ?next = "j + span_nat it"
      have nx: "(if isVariableLengthType (datatype_of it) then j + span_nat it else j + 1) = ?next" "?next \<noteq> j"
        using iok by (auto simp: item_ok_def unat_gt_0)
      have from_j: "filter (\<lambda>(i, _). j \<le> i) ?xs = (j, it) # filter (\<lambda>(i, _). ?next \<le> i) ?xs"
        by (rule spaced_from [OF sp it])
      show ?thesis
      proof (cases "stops ns ty key c v it")
        case True
        then show ?thesis
          using \<open>j < ?n\<close> st written rd iok nx unfolding from_j
          by (intro exI [of _ it] exI [of _ fl1])
            (auto simp: find_loop.simps [of _ _ _ _ _ _ j] item_ok_def stops_def verdict_def Let_def)
      next
        case False
        have "i < ?next \<Longrightarrow> i + span_nat a \<le> ?next" if "(i, a) \<in> set ?xs" for i a
          using that less.prems(2) spaced_order [OF sp that it] spaced_order [OF sp it that] by fastforce
        then have "\<forall>(i, a) \<in> set (items k p fl1). i < ?next \<longrightarrow> i + span_nat a \<le> ?next"
          unfolding items_same [OF rd(2)] by blast
        moreover have "?n - ?next < ?n - j" using \<open>j < ?n\<close> nx(2) by linarith
        ultimately obtain none fl2
          where go: "same_contents fl1 fl2" "find_loop crc ns ty key c v ?next ?n idx it p fl1 =
              Some (verdict ty idx none p fl2 (find (\<lambda>(i, it). stops ns ty key c v it) (filter (\<lambda>(i, _). ?next \<le> i) ?xs)))"
          using less.hyps [of ?next fl1 it] page_ok_same [OF rd(2) less.prems(1)] unfolding items_same [OF rd(2)] by blast
        have "find_loop crc ns ty key c v j ?n idx it0 p fl = find_loop crc ns ty key c v ?next ?n idx it p fl1"
          using \<open>j < ?n\<close> st written rd(1) iok nx False
          by (subst find_loop.simps) (auto simp: item_ok_def stops_def Let_def)
        then show ?thesis
          using go False same_contents_trans [OF rd(2)] unfolding from_j by auto
      qed
    qed
  qed
qed

section \<open>Finding\<close>

definition usable :: "page \<Rightarrow> bool" where
  "usable p \<longleftrightarrow> mState p \<noteq> CORRUPT \<and> mState p \<noteq> INVALID \<and> mState p \<noteq> UNINITIALIZED"

lemma head_between:
  assumes "page_ok crc k p fl" "(j, it) \<in> set (items k p fl)"
  shows "\<forall>(i, a) \<in> set (items k p fl). i < j \<longrightarrow> i + span_nat a \<le> j"
  using assms spaced_order(1) [OF _ _ assms(2)] unfolding page_ok_def by fastforce

text \<open>The node that the hash list returns is that of the first item of the name.\<close>

lemma hash_find_items:
  assumes ok: "page_ok crc k p fl"
  shows "hash_find crc (mFirstUsedEntry p) it (mHashList p) =
    (case find (\<lambda>(i, a). hash_24 crc a = hash_24 crc it) (items k p fl) of None \<Rightarrow> SIZE_MAX | Some (i, _) \<Rightarrow> i)"
proof -
  have hashes: "h = hash_24 crc (entry_item k fl (unat x))" if "(x, h) \<in> set (live_nodes (mHashList p))" for x h
    using ok that by (auto simp: page_ok_def)
  have first: "mFirstUsedEntry p \<le> unat x" if "(x, h) \<in> set (live_nodes (mHashList p))" for x h
  proof -
    have x: "(unat x, entry_item k fl (unat x)) \<in> set (items k p fl)" using that by (force simp: items_def)
    then obtain i a rest where xs: "items k p fl = (i, a) # rest" by (cases "items k p fl") auto
    have sp: "spaced 0 ((i, a) # rest) (mNextFreeEntry p)" and "mFirstUsedEntry p = i"
      using ok xs by (auto simp: page_ok_def)
    then show ?thesis using x spaced_bounds [of "i + span_nat a" rest "mNextFreeEntry p"] unfolding xs by fastforce
  qed
  have "find (\<lambda>(j, h). mFirstUsedEntry p \<le> unat j \<and> h = hash_24 crc it) ns =
      map_option (\<lambda>(x, _). (x, hash_24 crc it)) (find (\<lambda>(x, _). hash_24 crc (entry_item k fl (unat x)) = hash_24 crc it) ns)"
    if "set ns \<subseteq> set (live_nodes (mHashList p))" for ns
    using that hashes first by (induction ns) (auto split: if_splits)
  moreover have "find (\<lambda>(i, a). hash_24 crc a = hash_24 crc it) (map (\<lambda>(x, _). (unat x, entry_item k fl (unat x))) ns) =
      map_option (\<lambda>(x, _). (unat x, entry_item k fl (unat x)))
        (find (\<lambda>(x, _). hash_24 crc (entry_item k fl (unat x)) = hash_24 crc it) ns)" for ns :: "(u8 \<times> u32) list"
    by (induction ns) auto
  ultimately show ?thesis
    unfolding hashes.look_law items_def by (auto split: option.splits)
qed

lemma find_from_hash:
  assumes "spaced lo xs hi" "find (\<lambda>(i, a). Q a) xs = Some (j, b)" "\<And>i a. (i, a) \<in> set xs \<Longrightarrow> P a \<Longrightarrow> Q a"
  shows "find (\<lambda>(i, a). P a) (filter (\<lambda>(i, _). j \<le> i) xs) = find (\<lambda>(i, a). P a) xs"
  using assms
proof (induction xs arbitrary: lo)
  case (Cons x xs)
  obtain i a where x: "x = (i, a)" by force
  have sp: "spaced (i + span_nat a) xs hi" using Cons.prems(1) by (simp add: x)
  show ?case
  proof (cases "Q a")
    case True
    then have "j = i" using Cons.prems(2) by (simp add: x)
    moreover have "filter (\<lambda>(n, _). i \<le> n) xs = xs"
      using spaced_bounds [OF sp] by (fastforce simp: filter_id_conv)
    ultimately show ?thesis by (simp add: x)
  next
    case False
    then have f: "find (\<lambda>(i, a). Q a) xs = Some (j, b)" "\<not> P a" using Cons.prems(2,3) by (auto simp: x)
    then have "(j, b) \<in> set xs" by (metis (no_types, lifting) find_Some_iff nth_mem)
    then have "i < j" using spaced_bounds [OF sp] Cons.prems(1) by (fastforce simp: x)
    moreover have "find (\<lambda>(i, a). P a) (filter (\<lambda>(i, _). j \<le> i) xs) = find (\<lambda>(i, a). P a) xs"
      by (rule Cons.IH [OF sp f(1)]) (use Cons.prems(3) in auto)
    ultimately show ?thesis using f(2) by (simp add: x)
  qed
qed simp

lemma find_none:
  assumes "find (\<lambda>(i, a). Q a) xs = None" "\<And>i a. (i, a) \<in> set xs \<Longrightarrow> P a \<Longrightarrow> Q a"
  shows "find (\<lambda>(i, a). P a) xs = None"
  using assms by (fastforce simp: find_None_iff)

text \<open>Names are looked up exactly where the items of the name that would stop a search by reading carry the searched chunk index.\<close>

definition named :: "u8 \<Rightarrow> u8 \<Rightarrow> cstr \<Rightarrow> u8 \<Rightarrow> u8 \<Rightarrow> (nat \<times> Item) list \<Rightarrow> bool" where
  "named ns ty key c v xs \<longleftrightarrow> (case key of None \<Rightarrow> True | Some k \<Rightarrow>
     ns \<noteq> NS_ANY \<and> ty \<noteq> TYPE_ANY \<longrightarrow>
     (\<forall>(i, it) \<in> set xs. stops ns ty key c v it \<longrightarrow> key_of it = key_field k \<and> chunkIndex it = c))"

lemma findItem_items:
  assumes ok: "page_ok crc k p fl" and use: "usable p" and names: "named ns ty key c v (items k p fl)"
  shows "\<exists>none fl'. same_contents fl fl' \<and>
    findItem crc ns ty key 0 it0 c v p fl =
      Some (verdict ty 0 none p fl' (find (\<lambda>(i, it). stops ns ty key c v it) (items k p fl)))"
proof -
  let ?xs = "items k p fl"
  have sp: "spaced 0 ?xs (mNextFreeEntry p)" and fok: "flash_ok fl" and n: "mNextFreeEntry p \<le> ENTRY_COUNT"
    and first: "mFirstUsedEntry p = (case ?xs of [] \<Rightarrow> INVALID_ENTRY | (i, _) # _ \<Rightarrow> i)"
    using ok by (simp_all add: page_ok_def sector_ok_def)
  have brute: "\<exists>none fl'. same_contents fl fl' \<and>
    find_loop crc ns ty key c v (mFirstUsedEntry p) (mNextFreeEntry p) 0 it0 p fl =
      Some (verdict ty 0 none p fl' (find (\<lambda>(i, it). stops ns ty key c v it) ?xs))"
  proof -
    have "filter (\<lambda>(i, _). mFirstUsedEntry p \<le> i) ?xs = ?xs"
      using first spaced_bounds [OF sp] spaced_order(1) [OF sp] sp
    proof (cases ?xs)
      case (Cons x rest)
      obtain i a where x: "x = (i, a)" by force
      have "spaced (i + span_nat a) rest (mNextFreeEntry p)" using sp Cons by (simp add: x)
      from spaced_bounds [OF this] show ?thesis using first Cons by (fastforce simp: x filter_id_conv)
    qed simp
    moreover have "\<forall>(i, it) \<in> set ?xs. i < mFirstUsedEntry p \<longrightarrow> i + span_nat it \<le> mFirstUsedEntry p"
    proof (cases ?xs)
      case (Cons x rest)
      obtain i a where x: "x = (i, a)" by force
      have "(i, a) \<in> set ?xs" using Cons x by simp
      from head_between [OF ok this] show ?thesis using first Cons x by simp
    qed simp
    ultimately show ?thesis using find_loop_items [OF ok, of "mFirstUsedEntry p" ns ty key c v 0 it0] by simp
  qed
  have simple: "findItem crc ns ty key 0 it0 c v p fl =
      (case key of
         Some kk \<Rightarrow> if ns \<noteq> NS_ANY \<and> ty \<noteq> TYPE_ANY then
             (let i = hash_find crc (mFirstUsedEntry p) (make_item ns ty 0 (Some kk) c) (mHashList p) in
              if i < ENTRY_COUNT then find_loop crc ns ty key c v i (mNextFreeEntry p) 0 it0 p fl
              else Some (ESP_ERR_NVS_NOT_FOUND, 0, it0, p, fl))
           else find_loop crc ns ty key c v (mFirstUsedEntry p) (mNextFreeEntry p) 0 it0 p fl
       | None \<Rightarrow> find_loop crc ns ty key c v (mFirstUsedEntry p) (mNextFreeEntry p) 0 it0 p fl)"
    using use n by (auto simp: findItem_def usable_def ENTRY_COUNT_def Let_def min_def split: option.splits)
  show ?thesis
  proof (cases "key \<noteq> None \<and> ns \<noteq> NS_ANY \<and> ty \<noteq> TYPE_ANY")
    case False
    then show ?thesis unfolding simple using brute by (cases key) auto
  next
    case True
    then obtain kk where key: "key = Some kk" "ns \<noteq> NS_ANY" "ty \<noteq> TYPE_ANY" by auto
    let ?it = "make_item ns ty 0 (Some kk) c"
    have imp: "hash_24 crc a = hash_24 crc ?it" if "(i, a) \<in> set ?xs" "stops ns ty key c v a" for i a
    proof (rule hash_of_name)
      show "length a = 32" using item_entry [OF that(1)] by simp
      have "key_of a = key_field kk" "chunkIndex a = c" using names that key by (auto simp: named_def)
      then show "key_of a = key_of ?it" "chunkIndex a = chunkIndex ?it" by simp_all
      show "nsIndex a = nsIndex ?it" using that(2) key(2) by (auto simp: stops_def passed_over_def)
    qed simp
    show ?thesis
    proof (cases "find (\<lambda>(i, a). hash_24 crc a = hash_24 crc ?it) ?xs")
      case None
      then have "hash_find crc (mFirstUsedEntry p) ?it (mHashList p) = SIZE_MAX" by (simp add: hash_find_items [OF ok])
      then show ?thesis
        unfolding simple using find_none [OF None imp] key same_contents_refl [OF fok]
        by (intro exI [of _ it0] exI [of _ fl]) (simp add: verdict_def SIZE_MAX_def ENTRY_COUNT_def)
    next
      case (Some r)
      obtain j b where r: "r = (j, b)" by force
      then have jb: "(j, b) \<in> set ?xs" using Some by (auto simp: find_Some_iff in_set_conv_nth)
      have "j < ENTRY_COUNT" using spaced_bounds [OF sp jb] n by simp
      moreover have "hash_find crc (mFirstUsedEntry p) ?it (mHashList p) = j"
        using Some r by (simp add: hash_find_items [OF ok])
      moreover have "find (\<lambda>(i, it). stops ns ty key c v it) (filter (\<lambda>(i, _). j \<le> i) ?xs) =
          find (\<lambda>(i, it). stops ns ty key c v it) ?xs"
        by (rule find_from_hash [OF sp, where Q = "\<lambda>a. hash_24 crc a = hash_24 crc ?it" and b = b]) (use Some r imp in auto)
      ultimately show ?thesis
        unfolding simple using find_loop_items [OF ok head_between [OF ok jb], of ns ty key c v 0 it0] key by simp
    qed
  qed
qed

section \<open>Erasing\<close>

lemma count_erased_written:
  assumes "\<And>j. index \<le> j \<Longrightarrow> j < index + n \<Longrightarrow> entry_get (mEntryTable p) j = Some WRITTEN"
  shows "count_erased index n p = Some (p\<lparr>mUsedEntryCount := mUsedEntryCount p - of_nat n,
    mErasedEntryCount := mErasedEntryCount p + of_nat n\<rparr>)"
  using assms
proof (induction n arbitrary: p)
  case (Suc n)
  have "entry_get (mEntryTable p) (index + n) = Some WRITTEN" using Suc.prems by simp
  then show ?case using Suc.IH [of "p\<lparr>mUsedEntryCount := mUsedEntryCount p - 1, mErasedEntryCount := mErasedEntryCount p + 1\<rparr>"] Suc.prems
    by (simp add: algebra_simps)
qed simp

lemma first_written_find:
  assumes "\<And>i. i \<in> set xs \<Longrightarrow> entry_get t i \<noteq> None"
  shows "first_written t xs = Some (find (\<lambda>i. entry_get t i = Some WRITTEN) xs)"
  using assms
proof (induction xs)
  case (Cons a xs)
  obtain st where "entry_get t a = Some st" using Cons.prems [of a] by auto
  then show ?case using Cons by simp
qed simp

lemma find_upt_covered:
  assumes "spaced lo xs hi"
  shows "find (covered xs) [lo..<hi] = (case xs of [] \<Rightarrow> None | (i, _) # _ \<Rightarrow> Some i)"
proof (cases xs)
  case Nil
  then show ?thesis by (simp add: covered_def find_None_iff)
next
  case (Cons x rest)
  obtain i it where x: "x = (i, it)" by force
  have sp: "lo \<le> i" "0 < span_nat it" "spaced (i + span_nat it) rest hi" using assms Cons x by simp_all
  have hi: "i < hi" using sp(2) spaced_le [OF sp(3)] by simp
  have "\<not> covered xs j" if "j < i" for j
    using that spaced_bounds [OF sp(3)] unfolding covered_def Cons x by fastforce
  moreover have "covered xs i" using sp(2) by (auto simp: covered_def Cons x)
  moreover have "[lo..<hi] = [lo..<i] @ i # [Suc i..<hi]" 
    using sp(1) hi upt_add_eq_append [of lo i "hi - i"] by (simp add: upt_conv_Cons)
  moreover have "find P (ys @ zs) = (case find P ys of None \<Rightarrow> find P zs | Some y \<Rightarrow> Some y)" for P :: "nat \<Rightarrow> bool" and ys zs
    by (induction ys) auto
  moreover have "find (covered xs) [lo..<i] = None" using calculation(1) by (simp add: find_None_iff)
  ultimately show ?thesis by (simp add: Cons x)
qed

text \<open>Taking an item out of the list\<close>

lemma remove_item:
  assumes "spaced lo xs hi" "(i, it) \<in> set xs"
  obtains ys zs where "xs = ys @ (i, it) # zs" "filter (\<lambda>(j, _). j \<noteq> i) xs = ys @ zs"
    "\<And>j a. (j, a) \<in> set ys \<Longrightarrow> j < i" "spaced (i + span_nat it) zs hi"
proof -
  obtain ys zs where xs: "xs = ys @ (i, it) # zs" using assms(2) by (auto simp: in_set_conv_decomp)
  have split: "spaced lo (us @ (i, it) # vs) hi \<Longrightarrow> spaced (i + span_nat it) vs hi" for us vs
    by (induction us arbitrary: lo) auto
  have order: "spaced lo (us @ (i, it) # vs) hi \<Longrightarrow> (j, a) \<in> set us \<Longrightarrow> j < i" for us vs j a
  proof (induction us arbitrary: lo)
    case (Cons u us)
    obtain m b where u: "u = (m, b)" by force
    have sp: "spaced (m + span_nat b) (us @ (i, it) # vs) hi" "0 < span_nat b" using Cons.prems(1) by (simp_all add: u)
    show ?case
      using Cons.IH [OF sp(1)] Cons.prems(2) spaced_bounds [OF sp(1), of i it] sp(2) by (auto simp: u)
  qed simp
  have sp: "spaced (i + span_nat it) zs hi" and pos: "0 < span_nat it"
    using split assms spaced_bounds [OF assms] by (simp_all add: xs)
  have "filter (\<lambda>(j, _). j \<noteq> i) ys = ys" using order [of ys zs] assms(1) by (fastforce simp: xs filter_id_conv)
  moreover have "filter (\<lambda>(j, _). j \<noteq> i) zs = zs" using spaced_bounds [OF sp] pos by (fastforce simp: filter_id_conv)
  ultimately have "filter (\<lambda>(j, _). j \<noteq> i) xs = ys @ zs" by (simp add: xs)
  with that xs order [of ys zs] assms(1) sp show thesis by blast
qed

lemma covered_remove:
  assumes "spaced lo xs hi" "(i, it) \<in> set xs"
  shows "covered (filter (\<lambda>(j, _). j \<noteq> i) xs) n \<longleftrightarrow> covered xs n \<and> \<not> (i \<le> n \<and> n < i + span_nat it)"
proof
  assume "covered (filter (\<lambda>(j, _). j \<noteq> i) xs) n"
  then obtain j a where j: "(j, a) \<in> set xs" "j \<noteq> i" "j \<le> n" "n < j + span_nat a" by (auto simp: covered_def)
  then show "covered xs n \<and> \<not> (i \<le> n \<and> n < i + span_nat it)"
    using spaced_order(1) [OF assms(1) j(1) assms(2)] spaced_order(1) [OF assms j(1)] by (fastforce simp: covered_def)
next
  assume r: "covered xs n \<and> \<not> (i \<le> n \<and> n < i + span_nat it)"
  then obtain j a where j: "(j, a) \<in> set xs" "j \<le> n" "n < j + span_nat a" by (auto simp: covered_def)
  then have "j \<noteq> i" using r spaced_order(2) [OF assms j(1)] by auto
  then show "covered (filter (\<lambda>(j, _). j \<noteq> i) xs) n" using j by (auto simp: covered_def)
qed

lemma of_nat_eq_index: "unat (x :: u8) = i \<longleftrightarrow> x = of_nat i \<and> i < 256"
  using unsigned_less [of x] by (auto simp: unat_of_nat)

lemma eraseEntryAndSpan_items:
  assumes ok: "page_ok crc k p fl" and it: "(i, it) \<in> set (items k p fl)"
  shows "\<exists>p' fl'. eraseEntryAndSpan crc i p fl = Some (ESP_OK, p', fl') \<and> page_ok crc k p' fl' \<and>
    items k p' fl' = filter (\<lambda>(j, _). j \<noteq> i) (items k p fl) \<and> elsewhere k fl fl' \<and>
    mState p' = mState p \<and> mSeqNumber p' = mSeqNumber p \<and> mNextFreeEntry p' = mNextFreeEntry p \<and>
    mErasedEntryCount p' = mErasedEntryCount p + of_nat (span_nat it) \<and>
    (\<forall>n < ENTRY_COUNT. entry_item k fl' n = entry_item k fl n)"
proof -
  let ?xs = "items k p fl" and ?n = "mNextFreeEntry p" and ?s = "span_nat it"
  have sp: "spaced 0 ?xs ?n" and sec: "sector_ok k fl" "page_in k p" and n: "?n \<le> ENTRY_COUNT"
    and blocks: "blocks_ok (mHashList p)" and packed: "packed k fl ?n"
    and written: "\<And>j. j < ENTRY_COUNT \<Longrightarrow> entry_get (mEntryTable p) j = Some WRITTEN \<longleftrightarrow> covered ?xs j"
    and first: "mFirstUsedEntry p = (case ?xs of [] \<Rightarrow> INVALID_ENTRY | (i, _) # _ \<Rightarrow> i)"
    and used: "mUsedEntryCount p = of_nat (sum_list (map (\<lambda>(_, it). span_nat it) ?xs))"
    using ok by (simp_all add: page_ok_def)
  have iok: "item_ok crc it" using ok it by (auto simp: page_ok_def)
  have b: "0 < ?s" "i + ?s \<le> ?n" using spaced_bounds [OF sp it] by simp_all
  have i: "i < ENTRY_COUNT" "i < 255" using b n by (simp_all add: ENTRY_COUNT_def)
  have run: "entry_get (mEntryTable p) j = Some WRITTEN" if "i \<le> j" "j < i + ?s" for j
    using written [of j] it that b n by (force simp: covered_def)
  obtain fl1 where rd: "readEntry i p fl = Some (ESP_OK, it, fl1)" "same_contents fl fl1"
    using readEntry_law [OF sec i(1)] item_entry [OF it] by auto
  have sec1: "sector_ok k fl1" "packed k fl1 0"
    using same_contents_sector(1) [OF rd(2) sec(1)] same_contents_entries(2) [OF rd(2), of k] packed_mono [OF packed, of 0] by simp_all
  obtain x where x: "x \<in> set (live_nodes (mHashList p))" "unat (fst x) = i" using it by (auto simp: items_def)
  then have "fst x = of_nat i" by (simp add: of_nat_eq_index)
  then have "of_nat i \<in> fst ` set (live_nodes (mHashList p))" using x(1) by (metis image_eqI)
  then obtain hl where hl: "hash_erase i True (mHashList p) = Some hl" "blocks_ok hl"
    "live_nodes hl = filter (\<lambda>(j, _). j \<noteq> of_nat i) (live_nodes (mHashList p))"
    using hashes.del_law [OF blocks i(2), of True] by (metis option.exhaust)
  let ?p1 = "p\<lparr>mHashList := hl, mUsedEntryCount := mUsedEntryCount p - of_nat ?s,
    mErasedEntryCount := mErasedEntryCount p + of_nat ?s\<rparr>"
  have count: "count_erased i ?s (p\<lparr>mHashList := hl\<rparr>) = Some ?p1"
    using count_erased_written [of i ?s "p\<lparr>mHashList := hl\<rparr>"] run by simp
  have in1: "page_in k ?p1" using sec(2) by (simp add: page_in_def)
  have "\<exists>t fl2. (if ?s = 1 then alterEntryState i ERASED ?p1 fl1 else alterEntryRangeState i (i + ?s) ERASED ?p1 fl1) =
      Some (ESP_OK, ?p1\<lparr>mEntryTable := t\<rparr>, fl2) \<and> marked p i ?s ERASED t \<and> only_table k fl1 fl2"
  proof (cases "?s = 1")
    case True
    from alterEntryState_law [OF sec1(1) in1 sec1(2) i(1), of ERASED] obtain t fl2
      where "alterEntryState i ERASED ?p1 fl1 = Some (ESP_OK, ?p1\<lparr>mEntryTable := t\<rparr>, fl2)" "length t = 8"
        "\<forall>j < ENTRY_COUNT. entry_get t j = (if j = i then Some ERASED else entry_get (mEntryTable ?p1) j)"
        "only_table k fl1 fl2" by auto
    with True show ?thesis by (intro exI [of _ t] exI [of _ fl2]) (auto simp: marked_def)
  next
    case False
    from alterEntryRangeState_law [OF sec1(1) in1 sec1(2), of i "i + ?s" ERASED] b n obtain t fl2
      where "alterEntryRangeState i (i + ?s) ERASED ?p1 fl1 = Some (ESP_OK, ?p1\<lparr>mEntryTable := t\<rparr>, fl2)" "length t = 8"
        "\<forall>j < ENTRY_COUNT. entry_get t j = (if i \<le> j \<and> j < i + ?s then Some ERASED else entry_get (mEntryTable ?p1) j)"
        "only_table k fl1 fl2" by auto
    with False show ?thesis by (intro exI [of _ t] exI [of _ fl2]) (auto simp: marked_def)
  qed
  then obtain t fl2 where alter: "(if ?s = 1 then alterEntryState i ERASED ?p1 fl1
      else alterEntryRangeState i (i + ?s) ERASED ?p1 fl1) = Some (ESP_OK, ?p1\<lparr>mEntryTable := t\<rparr>, fl2)"
    and t: "marked p i ?s ERASED t" and fl2: "only_table k fl1 fl2" by blast
  let ?p2 = "?p1\<lparr>mEntryTable := t\<rparr>"
  obtain ys zs where split: "?xs = ys @ (i, it) # zs" "filter (\<lambda>(j, _). j \<noteq> i) ?xs = ys @ zs"
    "\<And>j a. (j, a) \<in> set ys \<Longrightarrow> j < i" "spaced (i + ?s) zs ?n"
    by (rule remove_item [OF sp it]) blast
  have table: "entry_get t j = Some WRITTEN \<longleftrightarrow> covered (ys @ zs) j" if "j < ENTRY_COUNT" for j
    using t written [OF that] covered_remove [OF sp it, of j] that n unfolding split(2) marked_def by auto
  have entries_same: "entry_item k fl2 j = entry_item k fl j" if "j < ENTRY_COUNT" for j
    using fl2 that same_contents_entries(1) [OF rd(2), of k] by (simp add: only_table_def)
  have nodes: "map (\<lambda>(x, _). (unat x, entry_item k fl2 (unat x))) (live_nodes hl) = ys @ zs"
  proof -
    have "map (\<lambda>(x, _). (unat x, entry_item k fl2 (unat x))) (filter (\<lambda>(j, _). j \<noteq> of_nat i) ns) =
        filter (\<lambda>(j, _). j \<noteq> i) (map (\<lambda>(x, _). (unat x, entry_item k fl (unat x))) ns)"
      if "\<And>x h. (x, h) \<in> set ns \<Longrightarrow> unat x < ENTRY_COUNT" for ns :: "(u8 \<times> u32) list"
      using that entries_same i(2) by (induction ns) (auto simp: of_nat_eq_index)
    moreover have "unat x < ENTRY_COUNT" if "(x, h) \<in> set (live_nodes (mHashList p))" for x h
      using that spaced_bounds [OF sp, of "unat x" "entry_item k fl (unat x)"] n by (force simp: items_def)
    ultimately show ?thesis unfolding hl(3) split(2) [symmetric] items_def by blast
  qed
  define f where "f = (if i = mFirstUsedEntry p then (case zs of [] \<Rightarrow> INVALID_ENTRY | (i, _) # _ \<Rightarrow> i) else mFirstUsedEntry p)"
  let ?p3 = "?p2\<lparr>mFirstUsedEntry := f\<rparr>"
  have len: "length t = 8" using t by (simp add: marked_def)
  have after: "after_erase i ?s ?p2 fl2 = Some (ESP_OK, ?p3, fl2)"
  proof (cases "i = mFirstUsedEntry p")
    case True
    have "ys = []"
      using True first split(3) by (cases ys) (auto simp: split(1))
    then have cov: "covered zs j \<longleftrightarrow> entry_get t j = Some WRITTEN" if "j < ?n" for j using table [of j] that n by simp
    have "find (\<lambda>j. entry_get t j = Some WRITTEN) [i + ?s..<?n] = find (covered zs) [i + ?s..<?n]"
      using cov by (intro find_cong) auto
    moreover have "first_written t [i + ?s..<?n] = Some (find (\<lambda>j. entry_get t j = Some WRITTEN) [i + ?s..<?n])"
      by (rule first_written_find) (use entries.get_some [OF len] n in auto)
    moreover have "min ?n ENTRY_COUNT = ?n" using n by simp
    ultimately have "updateFirstUsedEntry i ?s ?p2 = Some ?p3"
      using True find_upt_covered [OF split(4)]
      by (simp add: updateFirstUsedEntry_def f_def split: list.splits prod.splits)
    then show ?thesis using True b by (simp add: after_erase_def)
  next
    case False
    then show ?thesis using b by (simp add: after_erase_def f_def)
  qed
  have "erase_item_at i ?s p fl1 = after_erase i ?s ?p2 fl2"
    by (simp only: erase_item_at_def hl(1) bind.bind_lunit count alter prod.case) simp
  then have "eraseEntryAndSpan crc i p fl = Some (ESP_OK, ?p3, fl2)"
    using run [of i] b(1) rd(1) iok after by (simp add: eraseEntryAndSpan_def item_ok_def)
  moreover have xs': "items k ?p3 fl2 = ys @ zs" using nodes by (simp add: items_def)
  moreover have "page_ok crc k ?p3 fl2"
    unfolding page_ok_def xs'
  proof (intro conjI)
    show "sector_ok k fl2" using fl2 by (simp add: only_table_def)
    show "page_in k ?p3" using sec(2) len by (simp add: page_in_def)
    show "mNextFreeEntry ?p3 \<le> ENTRY_COUNT" using n by simp
    show "packed k fl2 (mNextFreeEntry ?p3)"
      using fl2 n packed same_contents_entries(2) [OF rd(2), of k] by (simp add: only_table_def)
    show "blocks_ok (mHashList ?p3)" using hl(2) by simp
    show "\<forall>(x, h) \<in> set (live_nodes (mHashList ?p3)). h = hash_24 crc (entry_item k fl2 (unat x))"
    proof clarify
      fix x h
      assume "(x, h) \<in> set (live_nodes (mHashList ?p3))"
      then have "(x, h) \<in> set (live_nodes (mHashList p))" using hl(3) by simp
      moreover from this have "unat x < ENTRY_COUNT"
        using spaced_bounds [OF sp, of "unat x" "entry_item k fl (unat x)"] n by (force simp: items_def)
      ultimately show "h = hash_24 crc (entry_item k fl2 (unat x))"
        using ok entries_same by (auto simp: page_ok_def)
    qed
    show "\<forall>(i, it) \<in> set (ys @ zs). item_ok crc it" using ok split(1) by (auto simp: page_ok_def)
    show "spaced 0 (ys @ zs) (mNextFreeEntry ?p3)"
      using spaced_filter [OF sp, of "\<lambda>(j, _). j \<noteq> i"] unfolding split(2) by simp
    show "\<forall>j < ENTRY_COUNT. (entry_get (mEntryTable ?p3) j = Some WRITTEN) = covered (ys @ zs) j"
      using table by simp
    show "mFirstUsedEntry ?p3 = (case ys @ zs of [] \<Rightarrow> INVALID_ENTRY | (i, _) # _ \<Rightarrow> i)"
    proof (cases ys)
      case Nil
      then show ?thesis using first split(1) by (simp add: f_def)
    next
      case (Cons y ys')
      then have "mFirstUsedEntry p = fst y" "fst y < i"
        using first split(1) split(3) [of "fst y" "snd y"] by (auto split: prod.splits)
      then show ?thesis using Cons by (auto simp: f_def split: prod.splits)
    qed
    show "mUsedEntryCount ?p3 = of_nat (sum_list (map (\<lambda>(_, it). span_nat it) (ys @ zs)))"
      using used split(1) by simp
  qed
  moreover have "elsewhere k fl fl2"
    using fl2 elsewhere_trans [OF same_contents_elsewhere [OF rd(2)]] by (simp add: only_table_def)
  moreover have "\<forall>n < ENTRY_COUNT. entry_item k fl2 n = entry_item k fl n" using entries_same by simp
  ultimately show ?thesis using split(2) by (intro exI [of _ ?p3] exI [of _ fl2]) simp
qed

section \<open>Writing\<close>

text \<open>Entries with the bytes \<open>bs\<close> have been written at the end of the page.\<close>

definition wrote :: "nat \<Rightarrow> u8 list \<Rightarrow> page \<Rightarrow> cchanflash \<Rightarrow> page \<Rightarrow> cchanflash \<Rightarrow> bool" where
  "wrote k bs p fl p' fl' \<longleftrightarrow> (\<exists>n t. length bs = 32 * n \<and> p' = advanced t n p \<and>
     marked p (mNextFreeEntry p) n WRITTEN t \<and> entries_put k (mNextFreeEntry p) bs fl fl')"

lemma advanced_fields [simp]:
  "mBaseAddress (advanced t n p) = mBaseAddress p" "mState (advanced t n p) = mState p"
  "mSeqNumber (advanced t n p) = mSeqNumber p" "mVersion (advanced t n p) = mVersion p"
  "mEntryTable (advanced t n p) = t" "mNextFreeEntry (advanced t n p) = mNextFreeEntry p + n"
  "mUsedEntryCount (advanced t n p) = mUsedEntryCount p + of_nat n"
  "mErasedEntryCount (advanced t n p) = mErasedEntryCount p" "mHashList (advanced t n p) = mHashList p"
  by (simp_all add: advanced_def)

lemma wrote_packed:
  assumes "wrote k bs p fl p' fl'" "page_in k p"
  shows "sector_ok k fl'" "page_in k p'" "packed k fl' (mNextFreeEntry p')" "elsewhere k fl fl'"
    "mNextFreeEntry p' = mNextFreeEntry p + length bs div 32" "mFirstUsedEntry p' \<noteq> INVALID_ENTRY \<or> mNextFreeEntry p = INVALID_ENTRY"
    "mState p' = mState p"
  using assms by (auto simp: wrote_def entries_put_def page_in_def marked_def advanced_def split: if_splits)

lemma wrote_trans:
  assumes "wrote k bs p fl p1 fl1" "wrote k cs p1 fl1 p2 fl2" "mNextFreeEntry p \<noteq> INVALID_ENTRY"
    and top: "32 * mNextFreeEntry p + length bs + length cs \<le> 32 * ENTRY_COUNT"
  shows "wrote k (bs @ cs) p fl p2 fl2"
proof -
  let ?i = "mNextFreeEntry p"
  obtain n t where b: "length bs = 32 * n" "p1 = advanced t n p" "marked p ?i n WRITTEN t" "entries_put k ?i bs fl fl1"
    using assms(1) by (auto simp: wrote_def)
  obtain m u where c: "length cs = 32 * m" "p2 = advanced u m p1" "marked p1 (?i + n) m WRITTEN u"
    "entries_put k (?i + n) cs fl1 fl2"
    using assms(2) b(2) by (auto simp: wrote_def)
  have "p2 = advanced u (n + m) p" using b(2) c(2) assms(3) by (simp add: advanced_def)
  moreover have "marked p ?i (n + m) WRITTEN u" using b(2,3) c(3) by (auto simp: marked_def)
  moreover have "entries_put k ?i (bs @ cs) fl fl2"
    unfolding entries_put_def
  proof (intro conjI allI impI)
    show "sector_ok k fl2" "elsewhere k fl fl2" using b(4) c(4) by (auto simp: entries_put_def intro: elsewhere_trans)
    show "packed k fl2 q" if "32 * q = 32 * ?i + length (bs @ cs)" for q
      using c(4) b(1) that by (simp add: entries_put_def)
    show "sector_word k fl2 q = sector_word k fl q" if "q < 8" for q
      using b(4) c(4) that by (simp add: entries_put_def)
    show "entry_item k fl2 j = (if ?i \<le> j \<and> 32 * j < 32 * ?i + length (bs @ cs)
        then take 32 (drop (32 * (j - ?i)) (bs @ cs)) else entry_item k fl j)" if j: "j < ENTRY_COUNT" for j
    proof -
      have eb: "entry_item k fl1 j = (if ?i \<le> j \<and> j < ?i + n then take 32 (drop (32 * (j - ?i)) bs) else entry_item k fl j)"
        using b(1,4) j by (simp add: entries_put_def)
      have ec: "entry_item k fl2 j = (if ?i + n \<le> j \<and> j < ?i + n + m then take 32 (drop (32 * (j - (?i + n))) cs) else entry_item k fl1 j)"
        using c(1,4) j by (simp add: entries_put_def)
      consider "j < ?i" | "?i \<le> j" "j < ?i + n" | "?i + n \<le> j" "j < ?i + n + m" | "?i + n + m \<le> j" by linarith
      then show ?thesis
      proof cases
        case 2
        then have "32 * (j - ?i) + 32 \<le> length bs" using b(1) by simp
        then show ?thesis using 2 eb ec b(1) c(1) by simp
      next
        case 3
        then have "32 * (j - ?i) = length bs + 32 * (j - (?i + n))" using b(1) by simp
        then show ?thesis using 3 eb ec b(1) c(1) by simp
      qed (use eb ec b(1) c(1) in simp_all)
    qed
  qed
  ultimately show ?thesis using b(1) c(1) unfolding wrote_def by (intro exI [of _ "n + m"] exI [of _ u]) simp
qed

lemma writeEntry_wrote:
  assumes "sector_ok k fl" "page_in k p" "mNextFreeEntry p < ENTRY_COUNT" "packed k fl (mNextFreeEntry p)" "length it = 32"
  shows "\<exists>p' fl'. writeEntry it p fl = Some (ESP_OK, p', fl') \<and> wrote k it p fl p' fl'"
proof -
  obtain t fl' where "writeEntry it p fl = Some (ESP_OK, advanced t 1 p, fl')" "marked p (mNextFreeEntry p) 1 WRITTEN t"
    "entries_put k (mNextFreeEntry p) it fl fl'"
    using writeEntry_law [OF assms] by blast
  moreover from this have "wrote k it p fl (advanced t 1 p) fl'"
    unfolding wrote_def using assms(5) by (intro exI [of _ "1 :: nat"] exI [of _ t]) simp
  ultimately show ?thesis by blast
qed

lemma entries_after:
  assumes "entries_put k i (head @ bs) fl fl'" "length head = 32" "length bs = 32 * m" "i + 1 + m \<le> ENTRY_COUNT"
  shows "concat (map (entry_item k fl') [i + 1..<i + 1 + m]) = bs"
proof -
  have "concat (map (\<lambda>j. take 32 (drop (32 * j) bs)) [a..<a + n]) = take (32 * n) (drop (32 * a) bs)"
    if "32 * (a + n) \<le> length bs" for a n
    using that
  proof (induction n)
    case (Suc n)
    have "take (32 * Suc n) (drop (32 * a) bs) = take (32 * n + 32) (drop (32 * a) bs)" by (simp add: algebra_simps)
    also have "\<dots> = take (32 * n) (drop (32 * a) bs) @ take 32 (drop (32 * (a + n)) bs)"
      by (simp only: take_add drop_drop) (simp add: algebra_simps)
    finally show ?case using Suc by simp
  qed simp
  from this [of 0 m] have slices: "concat (map (\<lambda>j. take 32 (drop (32 * j) bs)) [0..<m]) = bs" using assms(3) by simp
  have "entry_item k fl' (i + 1 + j) = take 32 (drop (32 * j) bs)" if "j < m" for j
    using assms that by (simp add: entries_put_def)
  then have "map (\<lambda>j. entry_item k fl' (i + 1 + j)) [0..<m] = map (\<lambda>j. take 32 (drop (32 * j) bs)) [0..<m]" by simp
  moreover have "map (entry_item k fl') [i + 1..<i + 1 + m] = map (\<lambda>j. entry_item k fl' (i + 1 + j)) [0..<m]"
  proof -
    have "[i + 1..<i + 1 + m] = map (\<lambda>j. j + (i + 1)) [0..<m]"
      using map_add_upt [of "i + 1" m] by (simp only: add.commute)
    then show ?thesis by (simp add: o_def algebra_simps del: upt_Suc)
  qed
  ultimately show ?thesis using slices by (simp only:)
qed

text \<open>A new item, written with its hash in the list, is the last one of the page.\<close>

lemma append_item:
  assumes ok: "page_ok crc k p fl" and room: "mNextFreeEntry p + n \<le> ENTRY_COUNT" "length bs = 32 * n"
    and w: "wrote k bs (p\<lparr>mHashList := hash_insert crc it0 (mNextFreeEntry p) (mHashList p)\<rparr>) fl p' fl'"
    and it: "it = take 32 bs" "item_ok crc it" "span_nat it = n" "hash_24 crc it = hash_24 crc it0"
  shows "page_ok crc k p' fl'" and "items k p' fl' = items k p fl @ [(mNextFreeEntry p, it)]"
    and "elsewhere k fl fl'" and "mState p' = mState p" and "mNextFreeEntry p' = mNextFreeEntry p + n"
    and "mSeqNumber p' = mSeqNumber p"
    and "contents k p' fl' = contents k p fl @ [(it, take (unat (var_dataSize it)) (drop 32 bs))]"
proof -
  let ?i = "mNextFreeEntry p" and ?xs = "items k p fl"
  have n: "0 < n" using it(2,3) unat_gt_0 [of "span_of it"] by (auto simp: item_ok_def word_neq_0_conv)
  have i: "?i < ENTRY_COUNT" "?i < 255" using room n by (simp_all add: ENTRY_COUNT_def)
  have sp: "spaced 0 ?xs ?i" and blocks: "blocks_ok (mHashList p)" and "page_in k p"
    and first: "mFirstUsedEntry p = (case ?xs of [] \<Rightarrow> INVALID_ENTRY | (i, _) # _ \<Rightarrow> i)"
    and used: "mUsedEntryCount p = of_nat (sum_list (map (\<lambda>(_, it). span_nat it) ?xs))"
    using ok by (simp_all add: page_ok_def)
  obtain t where t: "p' = advanced t n (p\<lparr>mHashList := hash_insert crc it0 ?i (mHashList p)\<rparr>)"
    "marked p ?i n WRITTEN t" "entries_put k ?i bs fl fl'"
    using w room(2) by (auto simp: wrote_def marked_def)
  have below: "unat x < ?i" if "(x, h) \<in> set (live_nodes (mHashList p))" for x h
    using that spaced_bounds [OF sp, of "unat x" "entry_item k fl (unat x)"] by (force simp: items_def)
  have u: "unat (of_nat ?i :: u8) = ?i" using i(2) by (simp add: unat_of_nat)
  have "of_nat ?i \<notin> fst ` set (live_nodes (mHashList p))" using below u by fastforce
  from hashes.ins_law [OF blocks i(2) this, of crc it0]
  have hl: "blocks_ok (hash_insert crc it0 ?i (mHashList p))"
    "live_nodes (hash_insert crc it0 ?i (mHashList p)) = live_nodes (mHashList p) @ [(of_nat ?i, hash_24 crc it0)]"
    by simp_all
  have entries: "entry_item k fl' j = (if ?i \<le> j \<and> j < ?i + n then take 32 (drop (32 * (j - ?i)) bs) else entry_item k fl j)"
    if "j < ENTRY_COUNT" for j
    using t(3) that room(2) by (simp add: entries_put_def)
  have old: "entry_item k fl' (unat x) = entry_item k fl (unat x)" if "(x, h) \<in> set (live_nodes (mHashList p))" for x h
    using entries [of "unat x"] below [OF that] i(1) by simp
  have new: "entry_item k fl' ?i = it" using entries [OF i(1)] n it(1) by simp
  show xs: "items k p' fl' = ?xs @ [(?i, it)]"
    using old new u by (auto simp: items_def t(1) hl(2))
  show "mState p' = mState p" "mNextFreeEntry p' = ?i + n" "mSeqNumber p' = mSeqNumber p" by (simp_all add: t(1))
  show else_where: "elsewhere k fl fl'" using t(3) by (simp add: entries_put_def)
  obtain m where m: "n = 1 + m" using n by (metis Suc_eq_plus1_left gr0_implies_Suc)
  have "concat (map (entry_item k fl') [?i + 1..<?i + 1 + m]) = drop 32 bs"
    by (rule entries_after [where head = "take 32 bs" and fl = fl]) (use t(3) room m in auto)
  then have "item_value k fl' ?i it = take (unat (var_dataSize it)) (drop 32 bs)"
    using it(3) m by (simp add: item_value_def add.assoc)
  moreover have "item_value k fl' j a = item_value k fl j a" if "(j, a) \<in> set ?xs" for j a
  proof -
    have "entry_item k fl' x = entry_item k fl x" if "x < ?i" for x using entries [of x] that i(1) by simp
    then show ?thesis
      using spaced_bounds [OF sp that] unfolding item_value_def
      by (intro arg_cong [where f = "take _"] arg_cong [where f = concat] map_cong) auto
  qed
  ultimately show "contents k p' fl' = contents k p fl @ [(it, take (unat (var_dataSize it)) (drop 32 bs))]"
    unfolding contents_def xs by auto
  show "page_ok crc k p' fl'"
    unfolding page_ok_def xs
  proof (intro conjI)
    show "sector_ok k fl'" using t(3) by (simp add: entries_put_def)
    show "page_in k p'" using \<open>page_in k p\<close> t(1,2) by (simp add: page_in_def marked_def)
    show "mNextFreeEntry p' \<le> ENTRY_COUNT" using room(1) by (simp add: t(1))
    show "packed k fl' (mNextFreeEntry p')" using t(3) room(2) by (simp add: entries_put_def t(1))
    show "blocks_ok (mHashList p')" using hl(1) by (simp add: t(1))
    show "\<forall>(x, h) \<in> set (live_nodes (mHashList p')). h = hash_24 crc (entry_item k fl' (unat x))"
      using ok old new u it(4) by (auto simp: page_ok_def t(1) hl(2))
    show "\<forall>(i, it) \<in> set (?xs @ [(?i, it)]). item_ok crc it" using ok it(2) by (auto simp: page_ok_def)
    show "spaced 0 (?xs @ [(?i, it)]) (mNextFreeEntry p')" using sp n it(3) by (simp add: spaced_append t(1))
    show "\<forall>j < ENTRY_COUNT. (entry_get (mEntryTable p') j = Some WRITTEN) = covered (?xs @ [(?i, it)]) j"
    proof (intro allI impI)
      fix j
      assume j: "j < ENTRY_COUNT"
      then have "entry_get t j = (if ?i \<le> j \<and> j < ?i + n then Some WRITTEN else entry_get (mEntryTable p) j)"
        using t(2) by (simp add: marked_def)
      moreover have "entry_get (mEntryTable p) j = Some WRITTEN \<longleftrightarrow> covered ?xs j"
        using ok j unfolding page_ok_def by blast
      moreover have "covered (?xs @ [(?i, it)]) j \<longleftrightarrow> covered ?xs j \<or> ?i \<le> j \<and> j < ?i + n"
        using it(3) by (auto simp: covered_def)
      moreover have "\<not> covered ?xs j" if "?i \<le> j" using that spaced_bounds [OF sp] by (fastforce simp: covered_def)
      ultimately show "(entry_get (mEntryTable p') j = Some WRITTEN) = covered (?xs @ [(?i, it)]) j"
        using j by (auto simp: t(1))
    qed
    show "mFirstUsedEntry p' = (case ?xs @ [(?i, it)] of [] \<Rightarrow> INVALID_ENTRY | (i, _) # _ \<Rightarrow> i)"
    proof (cases ?xs)
      case (Cons x rest)
      have "fst x < ?i" using spaced_bounds [OF sp, of "fst x" "snd x"] Cons by auto
      then show ?thesis using first Cons i(1) by (auto simp: t(1) advanced_def INVALID_ENTRY_def ENTRY_COUNT_def split: prod.splits)
    qed (use first in \<open>simp add: t(1) advanced_def\<close>)
    show "mUsedEntryCount p' = of_nat (sum_list (map (\<lambda>(_, it). span_nat it) (?xs @ [(?i, it)])))"
      using used it(3) by (simp add: t(1))
  qed
qed

subsection \<open>Values of fixed size\<close>

definition fixed_item :: "crc32_le \<Rightarrow> u8 \<Rightarrow> u8 \<Rightarrow> u8 list \<Rightarrow> u8 \<Rightarrow> u8 list \<Rightarrow> Item" where
  "fixed_item crc ns ty key c value =
     seal crc (set_field 24 (value @ replicate (8 - length value) 0xff) (make_item ns ty 1 (Some key) c))"

lemma make_item_data: "data_of (make_item ns ty sp (Some key) c) = replicate 8 0xff"
  by (simp add: make_item_def data_of_def field_def)

lemma fixed_item_fields [simp]:
  assumes "length value \<le> 8"
  shows "length (fixed_item crc ns ty key c value) = 32" "nsIndex (fixed_item crc ns ty key c value) = ns"
    "datatype_of (fixed_item crc ns ty key c value) = ty" "span_of (fixed_item crc ns ty key c value) = 1"
    "chunkIndex (fixed_item crc ns ty key c value) = c" "key_of (fixed_item crc ns ty key c value) = key_field key"
    "crc32 (fixed_item crc ns ty key c value) = calculateCrc32 crc (fixed_item crc ns ty key c value)"
    "take (length value) (data_of (fixed_item crc ns ty key c value)) = value"
proof -
  let ?v = "value @ replicate (8 - length value) 0xff"
  have len: "length ?v = 8" "24 + length ?v \<le> length (make_item ns ty 1 (Some key) c)" using assms by simp_all
  note set = set_field_nth [OF len(2)] length_set_field [OF len(2)]
  show "length (fixed_item crc ns ty key c value) = 32" by (simp add: fixed_item_def set)
  show "crc32 (fixed_item crc ns ty key c value) = calculateCrc32 crc (fixed_item crc ns ty key c value)"
    unfolding fixed_item_def by (rule sealed) (simp add: set)
  have "data_of (set_field 24 ?v (make_item ns ty 1 (Some key) c)) = ?v"
    using field_set_same [OF len(2)] len(1) by (simp only: data_of_def)
  then show "take (length value) (data_of (fixed_item crc ns ty key c value)) = value"
    by (simp add: fixed_item_def set)
  have "key_of (set_field 24 ?v (make_item ns ty 1 (Some key) c)) = key_of (make_item ns ty 1 (Some key) c)"
    unfolding key_of_def by (rule field_set_other [OF len(2)]) simp_all
  then show "key_of (fixed_item crc ns ty key c value) = key_field key" by (simp add: fixed_item_def set)
  have nth: "set_field 24 ?v (make_item ns ty 1 (Some key) c) ! j = make_item ns ty 1 (Some key) c ! j" if "j < 24" for j
    using set(1) [of j] that by simp
  have head: "seal crc (set_field 24 ?v (make_item ns ty 1 (Some key) c)) ! j = set_field 24 ?v (make_item ns ty 1 (Some key) c) ! j"
    if "j < 4" for j
    unfolding seal_def by (subst set_field_nth) (use that in \<open>simp_all add: set\<close>)
  show "nsIndex (fixed_item crc ns ty key c value) = ns" "datatype_of (fixed_item crc ns ty key c value) = ty"
    "span_of (fixed_item crc ns ty key c value) = 1" "chunkIndex (fixed_item crc ns ty key c value) = c"
    using nth [of 0] nth [of 1] nth [of 2] nth [of 3] make_item_fields(2-5) [of ns ty 1 "Some key" c] head
    unfolding fixed_item_def nsIndex_def datatype_of_def span_of_def chunkIndex_def by simp_all
qed

lemma writeItem_fixed:
  assumes ok: "page_ok crc k p fl" and active: "mState p = ACTIVE" and room: "mNextFreeEntry p < ENTRY_COUNT"
    and ty: "\<not> isVariableLengthType ty" and key: "length key \<le> MAX_KEY_LENGTH"
    and size: "dataSize \<le> 8" "dataSize \<le> length data"
  shows "\<exists>p' fl'. writeItem crc ns ty key data dataSize c p fl = Some (ESP_OK, p', fl') \<and> page_ok crc k p' fl' \<and>
    items k p' fl' = items k p fl @ [(mNextFreeEntry p, fixed_item crc ns ty key c (take dataSize data))] \<and>
    elsewhere k fl fl' \<and> mState p' = ACTIVE \<and> mNextFreeEntry p' = mNextFreeEntry p + 1 \<and> mSeqNumber p' = mSeqNumber p \<and>
    contents k p' fl' = contents k p fl @ [(fixed_item crc ns ty key c (take dataSize data), [])]"
proof -
  let ?blank = "make_item ns ty 1 (Some key) c" and ?it = "fixed_item crc ns ty key c (take dataSize data)"
  let ?p = "p\<lparr>mHashList := hash_insert crc ?blank (mNextFreeEntry p) (mHashList p)\<rparr>"
  have v: "length (take dataSize data) \<le> 8" "length (take dataSize data) = dataSize" using size by simp_all
  note it = fixed_item_fields [OF v(1), of crc ns ty key c]
  have sec: "sector_ok k fl" "page_in k ?p" "packed k fl (mNextFreeEntry ?p)" using ok by (simp_all add: page_ok_def page_in_def)
  obtain p' fl' where w: "writeEntry ?it ?p fl = Some (ESP_OK, p', fl')" "wrote k ?it ?p fl p' fl'"
    using writeEntry_wrote [OF sec(1,2) _ sec(3) it(1)] room by auto
  have "item_ok crc ?it" using it ty by (simp add: item_ok_def)
  moreover have "hash_24 crc ?it = hash_24 crc ?blank" by (rule hash_of_name) (simp_all add: it)
  ultimately have new: "page_ok crc k p' fl'" "items k p' fl' = items k p fl @ [(mNextFreeEntry p, ?it)]"
    "elsewhere k fl fl'" "mState p' = mState p" "mNextFreeEntry p' = mNextFreeEntry p + 1" "mSeqNumber p' = mSeqNumber p"
    "contents k p' fl' = contents k p fl @ [(?it, [])]"
    using append_item [OF ok _ _ w(2), of 1] it(1,4) room by auto
  have prim: "write_primitive crc ?blank data dataSize ?p fl = writeEntry ?it ?p fl"
  proof -
    have "mem_write (replicate 8 0xff) 0 (take dataSize data) = Some (take dataSize data @ replicate (8 - dataSize) 0xff)"
      using v by simp
    then show ?thesis
      using size(2) v(2) by (simp add: write_primitive_def mem_bytes_def make_item_data fixed_item_def)
  qed
  have states: "ACTIVE \<noteq> INVALID" "ACTIVE \<noteq> UNINITIALIZED" "ACTIVE \<noteq> FULL"
    by (simp_all add: ACTIVE_def INVALID_def UNINITIALIZED_def FULL_def PSB_INIT_def PSB_FULL_def)
  have fits: "mNextFreeEntry p \<noteq> INVALID_ENTRY" "\<not> ENTRY_COUNT < mNextFreeEntry p + 1" "\<not> CHUNK_MAX_SIZE < dataSize"
    using room size by (simp_all add: INVALID_ENTRY_def ENTRY_COUNT_def CHUNK_MAX_SIZE_def ENTRY_SIZE_def)
  have "writeItem crc ns ty key data dataSize c p fl = write_primitive crc ?blank data dataSize ?p fl"
    using active states ty key fits by (simp add: writeItem_def ENTRY_SIZE_def not_less Let_def)
  then show ?thesis using prim w(1) new active by (intro exI [of _ p'] exI [of _ fl']) simp
qed

subsection \<open>Values of variable length\<close>

definition padded :: "u8 list \<Rightarrow> u8 list" where
  "padded value = value @ replicate ((32 - length value mod 32) mod 32) 0xff"

definition data_entries :: "nat \<Rightarrow> nat" where
  "data_entries n = (n + 31) div 32"

lemma data_entries_split: "data_entries n = n div 32 + (if n mod 32 = 0 then 0 else 1)"
proof -
  define q r where "q = n div 32" and "r = n mod 32"
  have n: "n = 32 * q + r" "r < 32" by (simp_all add: q_def r_def)
  have "(n + 31) div 32 = q + (if r = 0 then 0 else 1)"
    by (rule quotient_eqI) (use n in auto)
  then show ?thesis by (simp add: data_entries_def q_def r_def)
qed

lemma length_padded: "length (padded value) = 32 * data_entries (length value)"
proof -
  define q r where "q = length value div 32" and "r = length value mod 32"
  have n: "length value = 32 * q + r" "r < 32" by (simp_all add: q_def r_def)
  have "length (padded value) = length value + (32 - r) mod 32" by (simp add: padded_def r_def)
  also have "\<dots> = 32 * (q + (if r = 0 then 0 else 1))" using n by auto
  finally show ?thesis by (simp add: data_entries_split q_def r_def)
qed

lemma padded_split: "32 * q \<le> length v \<Longrightarrow> take (32 * q) v @ padded (drop (32 * q) v) = padded v"
proof -
  assume "32 * q \<le> length v"
  then obtain r where r: "length v = 32 * q + r" using le_Suc_ex by blast
  then have "(length v - 32 * q) mod 32 = length v mod 32" by simp
  then show ?thesis unfolding padded_def length_drop by (metis append.assoc append_take_drop_id)
qed

lemma wrote_nothing:
  assumes "sector_ok k fl" "page_in k p" "packed k fl (mNextFreeEntry p)" "mFirstUsedEntry p \<noteq> INVALID_ENTRY"
  shows "wrote k [] p fl p fl"
  unfolding wrote_def
  by (intro exI [of _ "0 :: nat"] exI [of _ "mEntryTable p"])
    (use assms in \<open>auto simp: advanced_def marked_def page_in_def entries_put_def\<close>)

lemma write_tail_law:
  assumes "sector_ok k fl" "page_in k p" "packed k fl (mNextFreeEntry p)" "mFirstUsedEntry p \<noteq> INVALID_ENTRY"
    and "length tail < 32" "tail \<noteq> [] \<Longrightarrow> mNextFreeEntry p < ENTRY_COUNT"
  shows "\<exists>p' fl'. write_tail tail p fl = Some (ESP_OK, p', fl') \<and> wrote k (padded tail) p fl p' fl'"
proof (cases "tail = []")
  case True
  then show ?thesis using wrote_nothing [OF assms(1-4)] by (simp add: write_tail_def padded_def)
next
  case False
  then have "padded tail = tail @ replicate (32 - length tail) 0xff" using assms(5) by (simp add: padded_def)
  then show ?thesis
    using False writeEntry_wrote [OF assms(1,2) assms(6) assms(3), of "padded tail"] assms(5)
    by (simp add: write_tail_def)
qed

lemma write_body_law:
  assumes sec: "sector_ok k fl" "page_in k p" "packed k fl (mNextFreeEntry p)" "mFirstUsedEntry p \<noteq> INVALID_ENTRY"
    and q: "mNextFreeEntry p + q \<le> ENTRY_COUNT" "32 * q \<le> length value"
    and inside: "q = 0 \<or> (16 + 8 * mNextFreeEntry p) mod 64 + 8 * q \<le> 64"
  shows "\<exists>p' fl'. (if 0 < 32 * q then writeEntryData value (32 * q) p fl else Some (ESP_OK, p, fl)) = Some (ESP_OK, p', fl') \<and>
    wrote k (take (32 * q) value) p fl p' fl'"
proof (cases "q = 0")
  case True
  then show ?thesis using wrote_nothing [OF sec] by simp
next
  case False
  have len: "length (take (32 * q) value) = 32 * q" using q(2) by simp
  obtain t fl' where t: "writeEntryData (take (32 * q) value @ drop (32 * q) value) (32 * q) p fl = Some (ESP_OK, advanced t q p, fl')"
    "marked p (mNextFreeEntry p) q WRITTEN t" "entries_put k (mNextFreeEntry p) (take (32 * q) value) fl fl'"
    using writeEntryData_law [OF sec(1,2) _ q(1) sec(3,4) len, of "drop (32 * q) value"] inside False by auto
  then have "wrote k (take (32 * q) value) p fl (advanced t q p) fl'"
    unfolding wrote_def using len by blast
  then show ?thesis using t(1) False by auto
qed

lemma write_variable_law:
  assumes sec: "sector_ok k fl" "page_in k p" "packed k fl (mNextFreeEntry p)"
    and room: "mNextFreeEntry p + (1 + data_entries n) \<le> ENTRY_COUNT" and n: "n \<le> length data" and it: "length it = 32"
    and inside: "n < 32 \<or> (16 + 8 * (mNextFreeEntry p + 1)) mod 64 + 8 * (n div 32) \<le> 64"
  shows "\<exists>p' fl'. write_variable crc it data n p fl = Some (ESP_OK, p', fl') \<and>
    wrote k (var_item crc it (take n data) @ padded (take n data)) p fl p' fl'"
proof -
  let ?i = "mNextFreeEntry p" and ?v = "take n data" and ?q = "n div 32"
  have v: "length ?v = n" using n by simp
  note q = data_entries_split [of n]
  have i: "?i < ENTRY_COUNT" "?i \<noteq> INVALID_ENTRY" using room by (auto simp: INVALID_ENTRY_def ENTRY_COUNT_def)
  obtain p1 fl1 where w1: "writeEntry (var_item crc it ?v) p fl = Some (ESP_OK, p1, fl1)" "wrote k (var_item crc it ?v) p fl p1 fl1"
    using writeEntry_wrote [OF sec(1,2) i(1) sec(3), of "var_item crc it ?v"] it by auto
  note p1 = wrote_packed [OF w1(2) sec(2)]
  have i1: "mNextFreeEntry p1 = ?i + 1" "mFirstUsedEntry p1 \<noteq> INVALID_ENTRY" using p1(5,6) it i(2) by auto
  have body: "mNextFreeEntry p1 + ?q \<le> ENTRY_COUNT" "32 * ?q \<le> length ?v"
      "?q = 0 \<or> (16 + 8 * mNextFreeEntry p1) mod 64 + 8 * ?q \<le> 64"
    using room i1(1) q v inside by (auto split: if_splits)
  obtain p2 fl2 where w2: "(if 0 < 32 * ?q then writeEntryData ?v (32 * ?q) p1 fl1 else Some (ESP_OK, p1, fl1)) = Some (ESP_OK, p2, fl2)"
    "wrote k (take (32 * ?q) ?v) p1 fl1 p2 fl2"
    using write_body_law [OF p1(1,2,3) i1(2) body] by blast
  note p2 = wrote_packed [OF w2(2) p1(2)]
  have i2: "mNextFreeEntry p2 = ?i + 1 + ?q" using p2(5) i1(1) v body(2) by simp
  have f2: "mFirstUsedEntry p2 \<noteq> INVALID_ENTRY" using p2(6) i1(1) i(1) by (auto simp: INVALID_ENTRY_def ENTRY_COUNT_def)
  have tail: "length (drop (32 * ?q) ?v) = n mod 32" using v by (simp add: minus_mult_div_eq_mod)
  have r: "drop (32 * ?q) ?v \<noteq> [] \<Longrightarrow> mNextFreeEntry p2 < ENTRY_COUNT"
  proof -
    assume "drop (32 * ?q) ?v \<noteq> []"
    then have "n mod 32 \<noteq> 0" using tail by (metis length_0_conv)
    then show "mNextFreeEntry p2 < ENTRY_COUNT" using room q i2 by simp
  qed
  have "length (drop (32 * ?q) ?v) < 32" unfolding tail by simp
  from write_tail_law [OF p2(1,2,3) f2 this r] obtain p3 fl3
    where w3: "write_tail (drop (32 * ?q) ?v) p2 fl2 = Some (ESP_OK, p3, fl3)" "wrote k (padded (drop (32 * ?q) ?v)) p2 fl2 p3 fl3"
    by blast
  have parts: "take (32 * ?q) ?v @ padded (drop (32 * ?q) ?v) = padded ?v"
    by (rule padded_split [OF body(2)])
  have lens: "length (take (32 * ?q) ?v) + length (padded (drop (32 * ?q) ?v)) = 32 * data_entries n"
    using arg_cong [OF parts, of length] length_padded [of ?v] v by simp
  have "wrote k (take (32 * ?q) ?v @ padded (drop (32 * ?q) ?v)) p1 fl1 p3 fl3"
    by (rule wrote_trans [OF w2(2) w3(2)]) (use i1(1) i(1) lens room in \<open>auto simp: INVALID_ENTRY_def ENTRY_COUNT_def\<close>)
  then have "wrote k (var_item crc it ?v @ padded ?v) p fl p3 fl3"
    unfolding parts
    by (intro wrote_trans [OF w1(2)]) (use i(2) length_padded [of ?v] v room it in auto)
  moreover have "write_variable crc it data n p fl = Some (ESP_OK, p3, fl3)"
    using n w1(1) w2(1) w3(1) v by (simp add: write_variable_def mem_bytes_def ENTRY_SIZE_def mult.commute [of _ 32])
  ultimately show ?thesis by blast
qed

definition variable_item :: "crc32_le \<Rightarrow> u8 \<Rightarrow> u8 \<Rightarrow> u8 list \<Rightarrow> u8 \<Rightarrow> u8 list \<Rightarrow> Item" where
  "variable_item crc ns ty key c value =
     var_item crc (make_item ns ty (of_nat (1 + data_entries (length value))) (Some key) c) value"

lemma page_states [simp]:
  "ACTIVE \<noteq> INVALID" "ACTIVE \<noteq> UNINITIALIZED" "ACTIVE \<noteq> FULL" "ACTIVE \<noteq> CORRUPT" "ACTIVE \<noteq> FREEING"
  "FULL \<noteq> INVALID" "FULL \<noteq> UNINITIALIZED" "FULL \<noteq> CORRUPT" "UNINITIALIZED \<noteq> INVALID" "UNINITIALIZED \<noteq> FULL"
  "UNINITIALIZED \<noteq> ACTIVE" "FULL \<noteq> ACTIVE"
  by (simp_all add: ACTIVE_def INVALID_def UNINITIALIZED_def FULL_def CORRUPT_def FREEING_def PSB_INIT_def PSB_FULL_def
      PSB_FREEING_def PSB_CORRUPT_def)

text \<open>What \<open>writeItem\<close> does to an active page, up to the two ways of writing\<close>

definition writable :: "u8 \<Rightarrow> u8 list \<Rightarrow> nat \<Rightarrow> page \<Rightarrow> bool" where
  "writable ty key n p \<longleftrightarrow> length key \<le> MAX_KEY_LENGTH \<and> n \<le> CHUNK_MAX_SIZE \<and>
     mNextFreeEntry p + (if isVariableLengthType ty then 1 + data_entries n else 1) \<le> ENTRY_COUNT"

lemma writeItem_variable_step:
  assumes "mState p = ACTIVE" "isVariableLengthType ty" "writable ty key n p"
  shows "writeItem crc ns ty key data n c p fl =
    (let it = make_item ns ty (of_nat (1 + data_entries n)) (Some key) c
     in write_variable crc it data n (p\<lparr>mHashList := hash_insert crc it (mNextFreeEntry p) (mHashList p)\<rparr>) fl)"
proof -
  have "(n + ENTRY_SIZE - 1) div ENTRY_SIZE = data_entries n" by (simp add: ENTRY_SIZE_def data_entries_def)
  moreover have "(ENTRY_SIZE + data_entries n * ENTRY_SIZE + ENTRY_SIZE - 1) div ENTRY_SIZE = 1 + data_entries n"
    by (rule quotient_eqI) (simp_all add: ENTRY_SIZE_def)
  moreover have "data_entries n * ENTRY_SIZE div ENTRY_SIZE = data_entries n" by (simp add: ENTRY_SIZE_def)
  moreover have "mNextFreeEntry p \<noteq> INVALID_ENTRY" using assms(3) by (auto simp: writable_def INVALID_ENTRY_def ENTRY_COUNT_def)
  ultimately show ?thesis
    using assms by (simp add: writeItem_def writable_def Let_def not_less)
qed

lemma data_entries_bound: "1 + data_entries n \<le> ENTRY_COUNT \<Longrightarrow> unat (of_nat (1 + data_entries n) :: u8) = 1 + data_entries n"
  by (simp only: unat_of_nat) (simp add: ENTRY_COUNT_def)

lemma data_entries_size: "n \<le> 32 * data_entries n"
  using mult_div_mod_eq [of 32 n] mod_less_divisor [of 32 n] by (auto simp: data_entries_split)

definition in_flash_page :: "nat \<Rightarrow> nat \<Rightarrow> bool" where
  "in_flash_page i n \<longleftrightarrow> n < 32 \<or> (16 + 8 * (i + 1)) mod 64 + 8 * (n div 32) \<le> 64"

lemma writeItem_variable:
  assumes ok: "page_ok crc k p fl" and active: "mState p = ACTIVE" and ty: "isVariableLengthType ty"
    and fits: "writable ty key n p" "in_flash_page (mNextFreeEntry p) n" and n: "n \<le> length data"
  shows "\<exists>p' fl'. writeItem crc ns ty key data n c p fl = Some (ESP_OK, p', fl') \<and> page_ok crc k p' fl' \<and>
    items k p' fl' = items k p fl @ [(mNextFreeEntry p, variable_item crc ns ty key c (take n data))] \<and>
    concat (map (entry_item k fl') [mNextFreeEntry p + 1..<mNextFreeEntry p'])  = padded (take n data) \<and>
    elsewhere k fl fl' \<and> mState p' = ACTIVE \<and> mNextFreeEntry p' = mNextFreeEntry p + (1 + data_entries n) \<and>
    mSeqNumber p' = mSeqNumber p \<and>
    contents k p' fl' = contents k p fl @ [(variable_item crc ns ty key c (take n data), take n data)]"
proof -
  let ?v = "take n data" and ?i = "mNextFreeEntry p"
  let ?blank = "make_item ns ty (of_nat (1 + data_entries n)) (Some key) c"
  let ?it = "var_item crc ?blank ?v"
  let ?p = "p\<lparr>mHashList := hash_insert crc ?blank ?i (mHashList p)\<rparr>"
  have v: "length ?v = n" using n by simp
  have room: "?i + (1 + data_entries n) \<le> ENTRY_COUNT" using fits(1) ty by (simp add: writable_def)
  have sec: "sector_ok k fl" "page_in k ?p" "packed k fl (mNextFreeEntry ?p)" using ok by (simp_all add: page_ok_def page_in_def)
  obtain p' fl' where w: "write_variable crc ?blank data n ?p fl = Some (ESP_OK, p', fl')"
    "wrote k (?it @ padded ?v) ?p fl p' fl'"
    using write_variable_law [OF sec _ n, of ?blank crc] room fits(2) by (auto simp: in_flash_page_def)
  have len: "length (?it @ padded ?v) = 32 * (1 + data_entries n)" using length_padded [of ?v] v by simp
  have span: "span_nat ?it = 1 + data_entries n" using data_entries_bound [of n] room by simp
  have iok: "item_ok crc ?it"
    using span ty var_item_fields(9) [of ?blank crc ?v] unat_gt_0 [of "span_of ?it"]
    by (simp add: item_ok_def word_neq_0_conv)
  have "hash_24 crc ?it = hash_24 crc ?blank" by (rule hash_of_name) simp_all
  note new = append_item [OF ok room len w(2) _ iok span this]
  have "concat (map (entry_item k fl') [?i + 1..<?i + 1 + data_entries n]) = padded ?v"
    by (rule entries_after [where head = ?it and fl = fl])
      (use w(2) length_padded [of ?v] v room in \<open>auto simp: wrote_def\<close>)
  moreover have "writeItem crc ns ty key data n c p fl = Some (ESP_OK, p', fl')"
    using writeItem_variable_step [OF active ty fits(1)] w(1) by (simp add: Let_def)
  moreover have "take (unat (var_dataSize ?it)) (drop 32 (?it @ padded ?v)) = ?v"
    using v fits(1) by (simp add: padded_def writable_def CHUNK_MAX_SIZE_def ENTRY_SIZE_def ENTRY_COUNT_def unat_of_nat)
  ultimately show ?thesis
    using new active v by (intro exI [of _ p'] exI [of _ fl']) (simp add: variable_item_def add.assoc)
qed

text \<open>A value whose whole entries cross the end of a page of the flash stops the simulation.\<close>

lemma writeItem_stops:
  assumes ok: "page_ok crc k p fl" and active: "mState p = ACTIVE" and ty: "isVariableLengthType ty"
    and fits: "writable ty key n p" "\<not> in_flash_page (mNextFreeEntry p) n" and n: "n \<le> length data"
  shows "writeItem crc ns ty key data n c p fl = None"
proof -
  let ?v = "take n data" and ?i = "mNextFreeEntry p"
  let ?blank = "make_item ns ty (of_nat (1 + data_entries n)) (Some key) c"
  let ?p = "p\<lparr>mHashList := hash_insert crc ?blank ?i (mHashList p)\<rparr>"
  have v: "length ?v = n" using n by simp
  have room: "?i + (1 + data_entries n) \<le> ENTRY_COUNT" using fits(1) ty by (simp add: writable_def)
  have sec: "sector_ok k fl" "page_in k ?p" "packed k fl (mNextFreeEntry ?p)" using ok by (simp_all add: page_ok_def page_in_def)
  obtain p1 fl1 where w1: "writeEntry (var_item crc ?blank ?v) ?p fl = Some (ESP_OK, p1, fl1)" "wrote k (var_item crc ?blank ?v) ?p fl p1 fl1"
    using writeEntry_wrote [OF sec(1,2) _ sec(3), of "var_item crc ?blank ?v"] room by auto
  note p1 = wrote_packed [OF w1(2) sec(2)]
  have i1: "mNextFreeEntry p1 = ?i + 1" using p1(5) by simp
  have q: "0 < n div 32" "mNextFreeEntry p1 + n div 32 \<le> ENTRY_COUNT" "32 * (n div 32) \<le> length ?v"
    "64 < (16 + 8 * mNextFreeEntry p1) mod 64 + 8 * (n div 32)"
    using fits(2) room i1 v data_entries_split [of n] by (auto simp: in_flash_page_def div_greater_zero_iff split: if_splits)
  from writeEntryData_crossing [OF p1(1,2) q] have "writeEntryData ?v (32 * (n div 32)) p1 fl1 = None" .
  then have "write_variable crc ?blank data n ?p fl = None"
    using w1(1) n q(1) by (simp add: write_variable_def mem_bytes_def ENTRY_SIZE_def mult.commute [of _ 32])
  then show ?thesis using writeItem_variable_step [OF active ty fits(1)] by (simp add: Let_def)
qed

text \<open>What does not fit is refused, with nothing changed.\<close>

lemma writeItem_refused:
  assumes "mState p = ACTIVE" "mNextFreeEntry p \<le> ENTRY_COUNT" "\<not> writable ty key n p"
  shows "writeItem crc ns ty key data n c p fl =
    Some (if length key > MAX_KEY_LENGTH then ESP_ERR_NVS_KEY_TOO_LONG
          else if n > CHUNK_MAX_SIZE then ESP_ERR_NVS_VALUE_TOO_LONG else ESP_ERR_NVS_PAGE_FULL, p, fl)"
proof -
  have "(n + ENTRY_SIZE - 1) div ENTRY_SIZE = data_entries n" by (simp add: ENTRY_SIZE_def data_entries_def)
  moreover have "data_entries n * ENTRY_SIZE div ENTRY_SIZE = data_entries n" by (simp add: ENTRY_SIZE_def)
  ultimately show ?thesis using assms by (auto simp: writeItem_def writable_def Let_def)
qed

text \<open>The tailroom that a page reports is the largest value that fits.\<close>

lemma tailroom_fits:
  assumes "mState p = ACTIVE" "mNextFreeEntry p < ENTRY_COUNT"
  shows "n \<le> getVarDataTailroom p \<longleftrightarrow> mNextFreeEntry p + (1 + data_entries n) \<le> ENTRY_COUNT"
    and "getVarDataTailroom p \<le> CHUNK_MAX_SIZE"
proof -
  let ?d = "ENTRY_COUNT - mNextFreeEntry p - 1"
  have "getVarDataTailroom p = 32 * ?d" using assms by (auto simp: getVarDataTailroom_def ENTRY_SIZE_def)
  moreover have "n \<le> 32 * ?d \<longleftrightarrow> data_entries n \<le> ?d"
  proof
    assume "n \<le> 32 * ?d"
    then have "(n + 31) div 32 \<le> (32 * ?d + 31) div 32" by (intro div_le_mono) simp
    also have "(32 * ?d + 31) div 32 = ?d" by (rule quotient_eqI) simp_all
    finally show "data_entries n \<le> ?d" by (simp add: data_entries_def)
  next
    assume "data_entries n \<le> ?d"
    then show "n \<le> 32 * ?d" using data_entries_size [of n] by linarith
  qed
  ultimately show "n \<le> getVarDataTailroom p \<longleftrightarrow> mNextFreeEntry p + (1 + data_entries n) \<le> ENTRY_COUNT"
    and "getVarDataTailroom p \<le> CHUNK_MAX_SIZE"
    using assms(2) by (auto simp: CHUNK_MAX_SIZE_def ENTRY_SIZE_def)
qed

section \<open>Reading\<close>

lemma read_data_law:
  assumes "sector_ok k fl" "page_in k p" "a + m \<le> ENTRY_COUNT" "off + left \<le> length dst" "left \<le> 32 * m"
  shows "\<exists>fl'. read_data [a..<a + m] dst off left p fl =
      Some (ESP_OK, take off dst @ take left (concat (map (entry_item k fl) [a..<a + m])) @ drop (off + left) dst, fl') \<and>
    same_contents fl fl'"
  using assms
proof (induction m arbitrary: a dst off left fl)
  case 0
  then show ?case by (auto simp: sector_ok_def same_contents_refl)
next
  case (Suc m)
  let ?w = "min left 32" and ?d = "entry_item k fl a"
  have upt: "[a..<a + Suc m] = a # [Suc a..<Suc a + m]" by (simp add: upt_conv_Cons del: upt_Suc)
  obtain fl1 where rd: "readEntry a p fl = Some (ESP_OK, ?d, fl1)" "same_contents fl fl1"
    using readEntry_law [OF Suc.prems(1,2), of a] Suc.prems(3) by auto
  let ?dst = "take off dst @ take ?w ?d @ drop (off + ?w) dst"
  have wr: "mem_write dst off (take ?w ?d) = Some ?dst" using Suc.prems(4) by (simp add: min_def)
  have len: "length ?dst = length dst" using Suc.prems(4) by (auto simp: min_def)
  have "off + ?w + (left - ?w) \<le> length ?dst" "left - ?w \<le> 32 * m"
    unfolding len using Suc.prems(4,5) by (auto simp: min_def)
  from Suc.IH [OF same_contents_sector(1) [OF rd(2) Suc.prems(1)] Suc.prems(2) _ this, of "Suc a"] Suc.prems(3) obtain fl2
    where go: "read_data [Suc a..<Suc a + m] ?dst (off + ?w) (left - ?w) p fl1 =
        Some (ESP_OK, take (off + ?w) ?dst @ take (left - ?w) (concat (map (entry_item k fl1) [Suc a..<Suc a + m])) @
          drop (off + ?w + (left - ?w)) ?dst, fl2)" "same_contents fl1 fl2"
    by auto
  have "take (off + ?w) ?dst = take off dst @ take ?w ?d" "drop (off + ?w + (left - ?w)) ?dst = drop (off + left) dst"
    using Suc.prems(4) by (auto simp: min_def add.commute)
  moreover have "take left (?d @ rest) = take ?w ?d @ take (left - ?w) rest" for rest by (simp add: min_def)
  ultimately show ?case
    using rd wr go same_contents_trans [OF rd(2) go(2)] same_contents_entries(1) [OF rd(2), of k]
    unfolding upt by (simp add: ENTRY_SIZE_def Let_def del: upt_Suc)
qed

lemma readItem_fixed:
  assumes ok: "page_ok crc k p fl" and use: "usable p" and names: "named ns ty key c v (items k p fl)"
    and hit: "find (\<lambda>(i, it). stops ns ty key c v it) (items k p fl) = Some (i, it)" "\<not> wrong_type ty it"
    and ty: "\<not> isVariableLengthType ty" and n: "n = getAlignmentForType ty" "n \<le> 8" "n \<le> length buf"
  shows "\<exists>fl'. readItem crc ns ty key buf n c v p fl = Some (ESP_OK, take n (data_of it) @ drop n buf, p, fl') \<and>
    same_contents fl fl'"
proof -
  obtain fl' where f: "findItem crc ns ty key 0 no_item c v p fl = Some (ESP_OK, i, it, p, fl')" "same_contents fl fl'"
    using findItem_items [OF ok use names, of no_item] hit by (auto simp: verdict_def)
  have "(i, it) \<in> set (items k p fl)" using hit(1) by (metis (no_types, lifting) find_Some_iff nth_mem)
  then have "length (data_of it) = 8" using item_entry [of i it k p fl] by (simp add: data_of_def field_def)
  then show ?thesis using f n ty use by (simp add: readItem_def usable_def mem_bytes_def)
qed

lemma readItem_variable:
  assumes ok: "page_ok crc k p fl" and use: "usable p" and names: "named ns ty key c v (items k p fl)"
    and hit: "find (\<lambda>(i, it). stops ns ty key c v it) (items k p fl) = Some (i, it)" "\<not> wrong_type ty it"
    and ty: "isVariableLengthType ty"
    and size: "unat (var_dataSize it) \<le> 32 * (span_nat it - 1)" "unat (var_dataSize it) \<le> n" "n \<le> length buf"
    and sum: "data_crc32 crc (item_value k fl i it) = var_dataCrc32 it"
  shows "\<exists>fl'. readItem crc ns ty key buf n c v p fl =
      Some (ESP_OK, item_value k fl i it @ drop (unat (var_dataSize it)) buf, p, fl') \<and> same_contents fl fl'"
proof -
  let ?s = "unat (var_dataSize it)"
  obtain fl1 where f: "findItem crc ns ty key 0 no_item c v p fl = Some (ESP_OK, i, it, p, fl1)" "same_contents fl fl1"
    using findItem_items [OF ok use names, of no_item] hit by (auto simp: verdict_def)
  have it: "(i, it) \<in> set (items k p fl)" using hit(1) by (metis (no_types, lifting) find_Some_iff nth_mem)
  have b: "0 < span_nat it" "i + span_nat it \<le> mNextFreeEntry p" "mNextFreeEntry p \<le> ENTRY_COUNT"
    using ok spaced_bounds [of 0 "items k p fl" "mNextFreeEntry p" i it] it by (simp_all add: page_ok_def)
  have sec: "sector_ok k fl1" "page_in k p" using ok same_contents_sector(1) [OF f(2)] by (simp_all add: page_ok_def)
  have upt: "[i + 1..<i + span_nat it] = [i + 1..<(i + 1) + (span_nat it - 1)]" using b(1) by simp
  have "i + 1 + (span_nat it - 1) \<le> ENTRY_COUNT" "0 + ?s \<le> length buf" using b size(2,3) by simp_all
  from read_data_law [OF sec this size(1)] obtain fl2
    where rd: "read_data [i + 1..<i + span_nat it] buf 0 ?s p fl1 =
        Some (ESP_OK, take ?s (concat (map (entry_item k fl1) [i + 1..<i + span_nat it])) @ drop ?s buf, fl2)"
      "same_contents fl1 fl2"
    unfolding upt [symmetric] by auto
  have val: "take ?s (concat (map (entry_item k fl1) [i + 1..<i + span_nat it])) = item_value k fl i it"
    using same_contents_entries(1) [OF f(2), of k] by (simp add: item_value_def)
  have "length (concat (map (entry_item k fl) [i + 1..<i + span_nat it])) = 32 * (span_nat it - 1)"
    by (simp add: length_concat o_def sum_list_triv)
  then have "length (item_value k fl i it) = ?s" using size(1) by (simp add: item_value_def)
  then show ?thesis
    using f(1) rd(1) [unfolded val] ty use size(2) sum same_contents_trans [OF f(2) rd(2)]
    by (simp add: readItem_def usable_def mem_bytes_def Let_def)
qed

section \<open>Erasing an item by its name\<close>

lemma eraseItem_items:
  assumes ok: "page_ok crc k p fl" and use: "usable p" and names: "named ns ty key c v (items k p fl)"
    and hit: "find (\<lambda>(i, it). stops ns ty key c v it) (items k p fl) = Some (i, it)" "\<not> wrong_type ty it"
  shows "\<exists>p' fl'. eraseItem crc ns ty key c v p fl = Some (ESP_OK, p', fl') \<and> page_ok crc k p' fl' \<and>
    items k p' fl' = filter (\<lambda>(j, _). j \<noteq> i) (items k p fl) \<and> elsewhere k fl fl' \<and>
    mState p' = mState p \<and> mSeqNumber p' = mSeqNumber p \<and> mNextFreeEntry p' = mNextFreeEntry p \<and>
    (\<forall>n < ENTRY_COUNT. entry_item k fl' n = entry_item k fl n)"
proof -
  obtain fl1 where f: "findItem crc ns ty key 0 no_item c v p fl = Some (ESP_OK, i, it, p, fl1)" "same_contents fl fl1"
    using findItem_items [OF ok use names, of no_item] hit by (auto simp: verdict_def)
  have "(i, it) \<in> set (items k p fl1)"
    unfolding items_same [OF f(2)] using hit(1) by (metis (no_types, lifting) find_Some_iff nth_mem)
  from eraseEntryAndSpan_items [OF page_ok_same [OF f(2) ok] this] show ?thesis
    using f(1) elsewhere_trans [OF same_contents_elsewhere [OF f(2)]] same_contents_entries(1) [OF f(2), of k]
    unfolding eraseItem_def items_same [OF f(2)] by auto
qed

section \<open>A new page\<close>

definition new_in :: "nat \<Rightarrow> page \<Rightarrow> cchanflash \<Rightarrow> bool" where
  "new_in k p fl \<longleftrightarrow> sector_ok k fl \<and> mBaseAddress p = of_nat (4096 * k) \<and> mState p = UNINITIALIZED \<and>
     mHashList p = [] \<and> mUsedEntryCount p = 0 \<and> mFirstUsedEntry p = INVALID_ENTRY"

lemma top_bits: "\<forall>m \<in> set [0..<16]. drop_bit (m * 2) 0xffffffff AND 3 = (3 :: u32)"
  by (simp add: upt_conv_Cons)

lemma blank_table: "j < ENTRY_COUNT \<Longrightarrow> entry_get (replicate 8 0xffffffff) j = Some EMPTY"
proof -
  assume j: "j < ENTRY_COUNT"
  then have "j div 16 < 8" by (simp add: ENTRY_COUNT_def)
  moreover have "drop_bit (j mod 16 * 2) 0xffffffff AND 3 = (3 :: u32)" using top_bits by simp
  ultimately show ?thesis
    using j by (simp only: entry_get_def getWordIndex_def ITEMS_PER_WORD_def elem_def EMPTY_def Let_def
        length_replicate nth_replicate if_True option.map simp_thms)
qed

lemma initialize_law:
  assumes new: "new_in k p fl"
  shows "\<exists>fl'. initialize crc p fl = Some (ESP_OK,
      p\<lparr>mState := ACTIVE, mNextFreeEntry := 0, mEntryTable := replicate 8 0xffffffff\<rparr>, fl') \<and>
    page_ok crc k (p\<lparr>mState := ACTIVE, mNextFreeEntry := 0, mEntryTable := replicate 8 0xffffffff\<rparr>) fl' \<and>
    items k (p\<lparr>mState := ACTIVE, mNextFreeEntry := 0, mEntryTable := replicate 8 0xffffffff\<rparr>) fl' = [] \<and>
    elsewhere k fl fl' \<and>
    (\<exists>ws. length ws = 8 \<and> word_bytes ws = (let h = header_bytes ACTIVE (mSeqNumber p) (mVersion p)
                                        in h @ le32_bytes (header_crc32 crc h)) \<and> sector_written k 0 ws fl fl')"
proof -
  let ?h = "header_bytes ACTIVE (mSeqNumber p) (mVersion p)"
  let ?bs = "?h @ le32_bytes (header_crc32 crc ?h)"
  let ?p = "p\<lparr>mState := ACTIVE, mNextFreeEntry := 0, mEntryTable := replicate 8 0xffffffff\<rparr>"
  have sec: "sector_ok k fl" "4096 * k + 4096 \<le> 2 ^ 32" using new by (simp_all add: new_in_def sector_ok_def)
  have "length ?bs = 4 * 8" by (simp add: header_bytes_def)
  from bytes_are_words [OF this] obtain ws where ws: "?bs = word_bytes ws" "length ws = 8" by blast
  have a: "unat (mBaseAddress p) = 4096 * k + 4 * 0"
    using base_plus [OF sec(2), of 0 "mBaseAddress p"] new by (simp add: new_in_def)
  obtain fl' where w: "flash_write (mBaseAddress p) ?bs fl = Some (ESP_OK, fl')" "sector_written k 0 ws fl fl'"
    using flash_write_law [OF sec(1) _ _ _ a, of ws] ws by (cases "ws = []") auto
  have "packed k fl' 0" using w(2) ws(2) by (auto simp: packed_def sector_written_def)
  moreover have "sector_ok k fl'" using w(2) by (simp add: sector_written_def)
  ultimately have "page_ok crc k ?p fl'"
    using new by (simp add: page_ok_def new_in_def page_in_def items_def live_nodes_def blocks_ok_def covered_def blank_table)
  moreover have "initialize crc p fl = Some (ESP_OK, ?p, fl')"
    using w(1) new by (simp add: initialize_def new_in_def Let_def)
  moreover have "items k ?p fl' = []" using new by (simp add: items_def live_nodes_def new_in_def)
  ultimately show ?thesis using sector_written_elsewhere [OF w(2)] w(2) ws by (auto simp: Let_def)
qed

lemma writeItem_new:
  assumes "mState p = UNINITIALIZED" "initialize crc p fl = Some (ESP_OK, p1, fl1)" "mState p1 = ACTIVE"
  shows "writeItem crc ns ty key data n c p fl = writeItem crc ns ty key data n c p1 fl1"
  using assms by (simp add: writeItem_def)

lemma erase_page_law:
  assumes "sector_ok k fl" "mBaseAddress p = of_nat (4096 * k)"
  shows "\<exists>p' fl'. erase_page p fl = Some (ESP_OK, p', fl') \<and> new_in k p' fl' \<and>
    (\<forall>j < 1024. sector_word k fl' j = 0xffffffff \<and> \<not> filled k fl' j) \<and> elsewhere k fl fl' \<and>
    mVersion p' = mVersion p"
proof -
  have k: "4096 * k + 4096 \<le> 2 ^ 32" and ok: "flash_ok fl" using assms(1) by (simp_all add: sector_ok_def)
  have "unat (mBaseAddress p div SEC_SIZE) = k"
  proof -
    have "unat (mBaseAddress p) = 4096 * k" using base_plus [OF k, of 0 "mBaseAddress p"] assms(2) by simp
    then show ?thesis by (simp add: unat_div SEC_SIZE_def)
  qed
  moreover have "valid_address fl (k * 4096)" using assms(1) by (simp add: sector_ok_def)
  ultimately obtain fl' where e: "spi_flash_erase_sector (unat (mBaseAddress p div SEC_SIZE)) fl = Some (ESP_OK, fl')"
    "flash_ok fl'" "valid_address fl' = valid_address fl"
    and at: "\<And>b. valid_address fl b \<Longrightarrow> flash_word fl' b = (if b div 4096 = k then Some 0xffffffff else flash_word fl b)"
    "\<And>b. valid_address fl b \<Longrightarrow> stored fl' b \<longleftrightarrow> b div 4096 \<noteq> k \<and> stored fl b"
    using flash.erase_law [OF ok, of k] by auto
  have in_k: "(4096 * k + 4 * j) div 4096 = k" if "j < 1024" for j by (rule quotient_eqI) (use that in linarith)+
  have sec: "sector_ok k fl'" using assms(1) e(2,3) at(1) by (auto simp: sector_ok_def)
  moreover have "sector_word k fl' j = 0xffffffff \<and> \<not> filled k fl' j" if "j < 1024" for j
    using at sector_word_at(2) [OF assms(1) that] in_k [OF that] by (simp add: sector_word_def filled_def)
  ultimately show ?thesis
    using e at assms(2) by (simp add: erase_page_def new_in_def elsewhere_def)
qed

section \<open>The state of a page\<close>

lemma item_value_cong:
  assumes "\<And>n. n < ENTRY_COUNT \<Longrightarrow> entry_item k fl' n = entry_item k fl n" "i + span_nat it \<le> ENTRY_COUNT"
  shows "item_value k fl' i it = item_value k fl i it"
proof -
  have "map (entry_item k fl') [i + 1..<i + span_nat it] = map (entry_item k fl) [i + 1..<i + span_nat it]"
    using assms by (intro map_cong) auto
  then show ?thesis by (simp only: item_value_def)
qed

lemma alterPageState_law:
  assumes "page_ok crc k p fl"
  shows "\<exists>fl'. alterPageState st p fl = Some (ESP_OK, p\<lparr>mState := st\<rparr>, fl') \<and> page_ok crc k (p\<lparr>mState := st\<rparr>) fl' \<and>
    items k (p\<lparr>mState := st\<rparr>) fl' = items k p fl \<and> sector_written k 0 [st] fl fl' \<and>
    contents k (p\<lparr>mState := st\<rparr>) fl' = contents k p fl"
proof -
  have sec: "sector_ok k fl" "page_in k p" and n: "mNextFreeEntry p \<le> ENTRY_COUNT" using assms by (simp_all add: page_ok_def)
  have "unat (mBaseAddress p) = 4096 * k + 4 * 0"
    using base_plus [of k 0 "mBaseAddress p"] sec by (simp add: sector_ok_def page_in_def)
  from flash_write_law [OF sec(1) _ _ _ this, of "[st]"] obtain fl'
    where w: "flash_write (mBaseAddress p) (le32_bytes st) fl = Some (ESP_OK, fl')" "sector_written k 0 [st] fl fl'"
    by (auto simp: word_bytes_def)
  have words: "sector_word k fl' m = sector_word k fl m" if "0 < m" "m < 1024" for m
    using w(2) that by (auto simp: sector_written_def)
  have same: "entry_item k fl' i = entry_item k fl i" if "i < ENTRY_COUNT" for i
    unfolding entry_item_def by (rule sector_bytes_cong) (use words that in \<open>auto simp: ENTRY_COUNT_def\<close>)
  have small: "unat x < ENTRY_COUNT" if "(x, h) \<in> set (live_nodes (mHashList p))" for x h
  proof -
    have "(unat x, entry_item k fl (unat x)) \<in> set (items k p fl)" using that by (force simp: items_def)
    moreover have "spaced 0 (items k p fl) (mNextFreeEntry p)" using assms by (simp add: page_ok_def)
    ultimately show ?thesis using spaced_bounds n by fastforce
  qed
  have its: "items k (p\<lparr>mState := st\<rparr>) fl' = items k p fl" using same small by (auto simp: items_def)
  have "\<forall>(x, h) \<in> set (live_nodes (mHashList p)). h = hash_24 crc (entry_item k fl (unat x))"
    using assms by (simp add: page_ok_def)
  then have "\<forall>(x, h) \<in> set (live_nodes (mHashList p)). h = hash_24 crc (entry_item k fl' (unat x))"
    using same small by fastforce
  moreover have "packed k fl' (mNextFreeEntry p)" "sector_ok k fl'"
    using assms w(2) n by (auto simp: page_ok_def packed_def sector_written_def ENTRY_COUNT_def)
  ultimately have "page_ok crc k (p\<lparr>mState := st\<rparr>) fl'"
    using assms unfolding page_ok_def its by (simp add: page_in_def)
  moreover have "item_value k fl' i it = item_value k fl i it" if "(i, it) \<in> set (items k p fl)" for i it
  proof -
    have "spaced 0 (items k p fl) (mNextFreeEntry p)" using assms by (simp add: page_ok_def)
    then have "i + span_nat it \<le> ENTRY_COUNT" using spaced_bounds that n by fastforce
    with same show ?thesis by (rule item_value_cong)
  qed
  then have "contents k (p\<lparr>mState := st\<rparr>) fl' = contents k p fl" unfolding contents_def its by auto
  ultimately show ?thesis using w its by (simp add: alterPageState_def)
qed

end
