(* ===== verification/Nvs_Runs.thy ===== *)
theory Nvs_Runs
  imports Nvs_Page_Items
begin

text \<open>
  Properties of the page of the key-value store, each with a page and a flash that meet its hypotheses.
\<close>

section \<open>Writing and reading back\<close>

lemma find_append: "find P (xs @ ys) = (case find P xs of None \<Rightarrow> find P ys | Some x \<Rightarrow> Some x)"
  by (induction xs) auto

definition fresh_name :: "u8 \<Rightarrow> u8 \<Rightarrow> u8 list \<Rightarrow> u8 \<Rightarrow> (nat \<times> Item) list \<Rightarrow> bool" where
  "fresh_name ns ty key c xs \<longleftrightarrow> (\<forall>(i, it) \<in> set xs. \<not> stops ns ty (Some key) c VER_ANY it)"

text \<open>The arguments with which the storage layer addresses one item\<close>

definition one_item :: "u8 \<Rightarrow> u8 \<Rightarrow> u8 list \<Rightarrow> u8 \<Rightarrow> bool" where
  "one_item ns ty key c \<longleftrightarrow> ns \<noteq> NS_ANY \<and> ty \<noteq> TYPE_ANY \<and> length key \<le> MAX_KEY_LENGTH \<and>
     (ty = TYPE_BLOB_IDX \<longrightarrow> c = CHUNK_ANY)"

lemma appended_found:
  assumes "one_item ns ty key c" "fresh_name ns ty key c xs"
    and "nsIndex it = ns" "datatype_of it = ty" "key_of it = key_field key" "chunkIndex it = c"
  shows "find (\<lambda>(i, it). stops ns ty (Some key) c VER_ANY it) (xs @ [(i, it)]) = Some (i, it)"
    and "\<not> wrong_type ty it" and "named ns ty (Some key) c VER_ANY (xs @ [(i, it)])"
proof -
  have "find (\<lambda>(i, it). stops ns ty (Some key) c VER_ANY it) xs = None"
    using assms(2) by (auto simp: fresh_name_def find_None_iff)
  moreover have "stops ns ty (Some key) c VER_ANY it"
    using assms by (auto simp: stops_def passed_over_def wrong_type_def one_item_def key_matches)
  ultimately show "find (\<lambda>(i, it). stops ns ty (Some key) c VER_ANY it) (xs @ [(i, it)]) = Some (i, it)"
    by (simp add: find_append)
  show "\<not> wrong_type ty it" using assms(4) by (simp add: wrong_type_def)
  show "named ns ty (Some key) c VER_ANY (xs @ [(i, it)])"
    using assms(2,5,6) by (auto simp: named_def fresh_name_def)
qed

text \<open>C23: A value of fixed size that is written to an active page with a free entry, under a name no item of the page
  answers to, is read back by that name, and no other sector of the flash changes.\<close>

theorem nvs_write_read_fixed:
  assumes ok: "page_ok crc k p fl" "mState p = ACTIVE" and room: "mNextFreeEntry p < ENTRY_COUNT"
    and ty: "\<not> isVariableLengthType ty" and n: "length val = getAlignmentForType ty" "length val \<le> 8"
    and one: "one_item ns ty key c" and fresh: "fresh_name ns ty key c (items k p fl)"
    and buf: "length buf = length val"
  shows "\<exists>p' fl' fl''. writeItem crc ns ty key val (length val) c p fl = Some (ESP_OK, p', fl') \<and>
    readItem crc ns ty (Some key) buf (length val) c VER_ANY p' fl' = Some (ESP_OK, val, p', fl'') \<and>
    page_ok crc k p' fl'' \<and> elsewhere k fl fl''"
proof -
  have key: "length key \<le> MAX_KEY_LENGTH" using one by (simp add: one_item_def)
  let ?it = "fixed_item crc ns ty key c val"
  obtain p' fl' where w: "writeItem crc ns ty key val (length val) c p fl = Some (ESP_OK, p', fl')" "page_ok crc k p' fl'"
    "items k p' fl' = items k p fl @ [(mNextFreeEntry p, ?it)]" "elsewhere k fl fl'" "mState p' = ACTIVE"
    using writeItem_fixed [OF ok room ty key n(2), where data = val and ns = ns and c = c] by auto
  note it = fixed_item_fields [OF n(2), of crc ns ty key c]
  note found = appended_found [OF one fresh it(2,3,6,5)]
  have "usable p'" using w(5) by (simp add: usable_def)
  from readItem_fixed [OF w(2) this _ _ found(2) ty n(1,2), where ns = ns and key = "Some key" and c = c and v = VER_ANY and i = "mNextFreeEntry p" and buf = buf] found(1,3) buf obtain fl''
    where r: "readItem crc ns ty (Some key) buf (length val) c VER_ANY p' fl' =
        Some (ESP_OK, take (length val) (data_of ?it) @ drop (length val) buf, p', fl'')" "same_contents fl' fl''"
    unfolding w(3) by auto
  have "take (length val) (data_of ?it) @ drop (length val) buf = val" using it(8) buf by simp
  then show ?thesis
    using w r page_ok_same [OF r(2) w(2)] elsewhere_trans [OF w(4) same_contents_elsewhere [OF r(2)]] by auto
qed

text \<open>C24: The same holds for a string or a blob, of any length that fits the page, when its whole entries do not cross the
  end of a page of the flash.\<close>

theorem nvs_write_read_variable:
  assumes ok: "page_ok crc k p fl" "mState p = ACTIVE" and ty: "isVariableLengthType ty"
    and fits: "writable ty key (length val) p" "in_flash_page (mNextFreeEntry p) (length val)"
    and one: "one_item ns ty key c" and fresh: "fresh_name ns ty key c (items k p fl)"
    and buf: "length buf = length val"
  shows "\<exists>p' fl' fl''. writeItem crc ns ty key val (length val) c p fl = Some (ESP_OK, p', fl') \<and>
    readItem crc ns ty (Some key) buf (length val) c VER_ANY p' fl' = Some (ESP_OK, val, p', fl'') \<and>
    page_ok crc k p' fl'' \<and> elsewhere k fl fl''"
proof -
  let ?it = "variable_item crc ns ty key c val" and ?i = "mNextFreeEntry p" and ?n = "length val"
  obtain p' fl' where w: "writeItem crc ns ty key val ?n c p fl = Some (ESP_OK, p', fl')" "page_ok crc k p' fl'"
    "items k p' fl' = items k p fl @ [(?i, ?it)]" "concat (map (entry_item k fl') [?i + 1..<mNextFreeEntry p']) = padded val"
    "elsewhere k fl fl'" "mState p' = ACTIVE" "mNextFreeEntry p' = ?i + (1 + data_entries ?n)"
    using writeItem_variable [OF ok ty fits, where data = val and ns = ns and c = c] by auto
  have room: "?i + (1 + data_entries ?n) \<le> ENTRY_COUNT" "?n \<le> CHUNK_MAX_SIZE" using fits(1) ty by (simp_all add: writable_def)
  have it: "nsIndex ?it = ns" "datatype_of ?it = ty" "key_of ?it = key_field key" "chunkIndex ?it = c"
    "unat (var_dataSize ?it) = ?n" "var_dataCrc32 ?it = data_crc32 crc val" "span_nat ?it = 1 + data_entries ?n"
    using room data_entries_bound [of ?n]
    by (simp_all add: variable_item_def unat_of_nat CHUNK_MAX_SIZE_def ENTRY_SIZE_def ENTRY_COUNT_def)
  note found = appended_found [OF one fresh it(1-4)]
  have val: "item_value k fl' ?i ?it = val"
    using w(4) unfolding w(7) item_value_def it(5,7) by (simp add: padded_def)
  have "usable p'" using w(6) by (simp add: usable_def)
  from readItem_variable [OF w(2) this _ _ found(2) ty, where ns = ns and key = "Some key" and c = c and v = VER_ANY and i = ?i and n = ?n and buf = buf] found(1,3) buf it(5-7) val data_entries_size [of ?n]
  obtain fl'' where r: "readItem crc ns ty (Some key) buf ?n c VER_ANY p' fl' =
        Some (ESP_OK, val @ drop ?n buf, p', fl'')" "same_contents fl' fl''"
    unfolding w(3) by auto
  then show ?thesis
    using w(1) buf page_ok_same [OF r(2) w(2)] elsewhere_trans [OF w(5) same_contents_elsewhere [OF r(2)]] by auto
qed

subsection \<open>What \<open>writeItem\<close> decides\<close>

text \<open>C25: Writing a string or blob to an active page has exactly three outcomes: what does not fit is refused by its code
  with page and flash unchanged; a value whose whole entries would cross the end of a page of the flash stops the
  simulation; any other is appended to the items of the page, everything else untouched.\<close>

theorem nvs_write_decides:
  assumes ok: "page_ok crc k p fl" "mState p = ACTIVE" and ty: "isVariableLengthType ty" and n: "n \<le> length data"
  shows "if \<not> writable ty key n p then writeItem crc ns ty key data n c p fl =
      Some (if length key > MAX_KEY_LENGTH then ESP_ERR_NVS_KEY_TOO_LONG
            else if n > CHUNK_MAX_SIZE then ESP_ERR_NVS_VALUE_TOO_LONG else ESP_ERR_NVS_PAGE_FULL, p, fl)
    else if \<not> in_flash_page (mNextFreeEntry p) n then writeItem crc ns ty key data n c p fl = None
    else \<exists>p' fl'. writeItem crc ns ty key data n c p fl = Some (ESP_OK, p', fl') \<and> page_ok crc k p' fl' \<and>
        items k p' fl' = items k p fl @ [(mNextFreeEntry p, variable_item crc ns ty key c (take n data))] \<and>
        elsewhere k fl fl'"
proof -
  have le: "mNextFreeEntry p \<le> ENTRY_COUNT" using ok(1) by (simp add: page_ok_def)
  have "\<exists>p' fl'. writeItem crc ns ty key data n c p fl = Some (ESP_OK, p', fl') \<and> page_ok crc k p' fl' \<and>
        items k p' fl' = items k p fl @ [(mNextFreeEntry p, variable_item crc ns ty key c (take n data))] \<and>
        elsewhere k fl fl'" if "writable ty key n p" "in_flash_page (mNextFreeEntry p) n"
    using writeItem_variable [OF ok ty that n] by blast
  then show ?thesis using writeItem_refused [OF ok(2) le] writeItem_stops [OF ok ty _ _ n] by simp
qed


section \<open>Searching and erasing\<close>



subsection \<open>Any search returns, at an item or without one\<close>

lemma findItem_any:
  assumes ok: "page_ok crc k p fl" and use: "usable p"
  shows "\<exists>r i it fl'. findItem crc ns ty key 0 it0 c v p fl = Some (r, i, it, p, fl') \<and> same_contents fl fl' \<and>
    (r = ESP_OK \<longrightarrow> (i, it) \<in> set (items k p fl))"
proof -
  let ?xs = "items k p fl"
  have fok: "flash_ok fl" using ok by (simp add: page_ok_def sector_ok_def)
  have hit: "(i, it) \<in> set ?xs" if "find P (filter Q ?xs) = Some (i, it)" for P Q i it
    using that by (metis (no_types, lifting) find_Some_iff nth_mem filter_is_subset subsetD)
  have loop: "\<exists>r i it fl'. find_loop crc ns ty key c v j (mNextFreeEntry p) 0 it0 p fl = Some (r, i, it, p, fl') \<and>
      same_contents fl fl' \<and> (r = ESP_OK \<longrightarrow> (i, it) \<in> set ?xs)"
    if between: "\<forall>(i, it) \<in> set ?xs. i < j \<longrightarrow> i + span_nat it \<le> j" for j
  proof -
    obtain none fl' where "same_contents fl fl'" "find_loop crc ns ty key c v j (mNextFreeEntry p) 0 it0 p fl =
      Some (verdict ty 0 none p fl' (find (\<lambda>(i, it). stops ns ty key c v it) (filter (\<lambda>(i, _). j \<le> i) ?xs)))"
      using find_loop_items [OF ok between] by blast
    then show ?thesis
      using hit by (auto simp: verdict_def split: option.splits if_splits)
  qed
  show ?thesis
  proof (cases "key \<noteq> None \<and> ns \<noteq> NS_ANY \<and> ty \<noteq> TYPE_ANY")
    case False
    then have "named ns ty key c v ?xs" by (auto simp: named_def split: option.splits)
    from findItem_items [OF ok use this, of it0] obtain none fl' where f: "same_contents fl fl'"
      "findItem crc ns ty key 0 it0 c v p fl =
        Some (verdict ty 0 none p fl' (find (\<lambda>(i, it). stops ns ty key c v it) ?xs))" by blast
    show ?thesis
    proof (cases "find (\<lambda>(i, it). stops ns ty key c v it) ?xs")
      case None
      then show ?thesis using f by (simp add: verdict_def)
    next
      case (Some r)
      obtain i it where r: "r = (i, it)" by force
      have "(i, it) \<in> set ?xs" using hit [of _ "\<lambda>_. True"] Some r by simp
      then show ?thesis using f Some r by (cases "wrong_type ty it") (simp_all add: verdict_def)
    qed
  next
    case True
    then obtain kk where key: "key = Some kk" "ns \<noteq> NS_ANY" "ty \<noteq> TYPE_ANY" by auto
    let ?i = "hash_find crc (mFirstUsedEntry p) (make_item ns ty 0 (Some kk) c) (mHashList p)"
    have n: "mNextFreeEntry p \<le> ENTRY_COUNT" using ok by (simp add: page_ok_def)
    have step: "findItem crc ns ty key 0 it0 c v p fl =
        (if ?i < ENTRY_COUNT then find_loop crc ns ty key c v ?i (mNextFreeEntry p) 0 it0 p fl
         else Some (ESP_ERR_NVS_NOT_FOUND, 0, it0, p, fl))"
      using use n key by (simp add: findItem_def usable_def ENTRY_COUNT_def Let_def min_def)
    show ?thesis
    proof (cases "?i < ENTRY_COUNT")
      case True
      then obtain b where "(?i, b) \<in> set ?xs"
        unfolding hash_find_items [OF ok]
        by (auto simp: SIZE_MAX_def ENTRY_COUNT_def split: option.splits dest!: hit [where Q = "\<lambda>_. True", simplified])
      from loop [OF head_between [OF ok this]] show ?thesis unfolding step using True by simp
    next
      case False
      then show ?thesis unfolding step using same_contents_refl [OF fok] by simp
    qed
  qed
qed

section \<open>The life of a page\<close>

text \<open>What may happen to a page between its first use and its erasure\<close>

inductive page_step :: "crc32_le \<Rightarrow> page \<times> cchanflash \<Rightarrow> page \<times> cchanflash \<Rightarrow> bool" for crc where
  do_write: "mState p \<noteq> FREEING \<Longrightarrow> n \<le> length data \<Longrightarrow> isVariableLengthType ty \<or> n \<le> 8 \<Longrightarrow>
    writeItem crc ns ty key data n c p fl = Some (r, p', fl') \<Longrightarrow> page_step crc (p, fl) (p', fl')"
| do_find: "findItem crc ns ty key 0 it0 c v p fl = Some (r, i, it, p', fl') \<Longrightarrow> page_step crc (p, fl) (p', fl')"
| do_erase: "eraseItem crc ns ty key c v p fl = Some (r, p', fl') \<Longrightarrow> page_step crc (p, fl) (p', fl')"
| do_full: "markFull p fl = Some (r, p', fl') \<Longrightarrow> page_step crc (p, fl) (p', fl')"
| do_freeing: "markFreeing p fl = Some (r, p', fl') \<Longrightarrow> page_step crc (p, fl) (p', fl')"

definition in_use :: "page \<Rightarrow> bool" where
  "in_use p \<longleftrightarrow> mState p = ACTIVE \<or> mState p = FULL \<or> mState p = FREEING"

definition page_inv :: "crc32_le \<Rightarrow> nat \<Rightarrow> page \<times> cchanflash \<Rightarrow> bool" where
  "page_inv crc k = (\<lambda>(p, fl). page_ok crc k p fl \<and> in_use p)"

lemma in_use_usable: "in_use p \<Longrightarrow> usable p"
  by (auto simp: in_use_def usable_def FREEING_def FULL_def ACTIVE_def UNINITIALIZED_def INVALID_def CORRUPT_def
      PSB_INIT_def PSB_FULL_def PSB_FREEING_def PSB_CORRUPT_def)

lemma write_step:
  assumes ok: "page_ok crc k p fl" "in_use p" and st: "mState p \<noteq> FREEING"
    and n: "n \<le> length data" "isVariableLengthType ty \<or> n \<le> 8"
    and w: "writeItem crc ns ty key data n c p fl = Some (r, p', fl')"
  shows "page_ok crc k p' fl' \<and> mState p' = mState p"
proof (cases "mState p = ACTIVE")
  case False
  then have "mState p = FULL" using ok(2) st by (simp add: in_use_def)
  then show ?thesis using w ok(1) by (simp add: writeItem_def)
next
  case active: True
  have le: "mNextFreeEntry p \<le> ENTRY_COUNT" using ok(1) by (simp add: page_ok_def)
  show ?thesis
  proof (cases "writable ty key n p")
    case False
    then show ?thesis using writeItem_refused [OF active le False] w ok(1) by simp
  next
    case True
    show ?thesis
    proof (cases "isVariableLengthType ty")
      case var: True
      have "in_flash_page (mNextFreeEntry p) n"
        using writeItem_stops [OF ok(1) active var True _ n(1), where ns = ns and c = c] w by fastforce
      from writeItem_variable [OF ok(1) active var True this n(1), where ns = ns and c = c] w active show ?thesis by auto
    next
      case fixed: False
      then have "mNextFreeEntry p < ENTRY_COUNT" "length key \<le> MAX_KEY_LENGTH" "n \<le> 8"
        using True n(2) by (simp_all add: writable_def)
      from writeItem_fixed [OF ok(1) active this(1) fixed this(2,3) n(1), where ns = ns and c = c] w active
      show ?thesis by auto
    qed
  qed
qed

lemma state_bits: "FULL AND ACTIVE = FULL" "FREEING AND FULL = FREEING" "FREEING AND ACTIVE = FREEING"
  by (simp_all add: FREEING_def FULL_def ACTIVE_def UNINITIALIZED_def PSB_INIT_def PSB_FULL_def PSB_FREEING_def)

lemma page_step_inv:
  assumes "page_step crc s s'" "page_inv crc k s"
  shows "page_inv crc k s' \<and> mState (fst s') AND mState (fst s) = mState (fst s')"
  using assms
proof (induction rule: page_step.induct)
  case (do_write p n data ty ns key c fl r p' fl')
  then show ?case using write_step [of crc k p fl n data ty ns key c r p' fl'] by (auto simp: page_inv_def in_use_def)
next
  case (do_find ns ty key it0 c v p fl r i it p' fl')
  then have "page_ok crc k p fl" "usable p" by (simp_all add: page_inv_def in_use_usable)
  from findItem_any [OF this, of ns ty key it0 c v] do_find page_ok_same show ?case by (fastforce simp: page_inv_def)
next
  case (do_erase ns ty key c v p fl r p' fl')
  then have ok: "page_ok crc k p fl" "usable p" "in_use p" by (simp_all add: page_inv_def in_use_usable)
  obtain q i it fl1 where f: "findItem crc ns ty key 0 no_item c v p fl = Some (q, i, it, p, fl1)" "same_contents fl fl1"
    "q = ESP_OK \<longrightarrow> (i, it) \<in> set (items k p fl)"
    using findItem_any [OF ok(1,2)] by blast
  show ?case
  proof (cases "q = ESP_OK")
    case True
    then have "(i, it) \<in> set (items k p fl1)" using f(3) by (simp add: items_same [OF f(2)])
    from eraseEntryAndSpan_items [OF page_ok_same [OF f(2) ok(1)] this] show ?thesis
      using do_erase True f(1) ok(3) by (auto simp: eraseItem_def page_inv_def in_use_def)
  next
    case False
    then show ?thesis using do_erase f page_ok_same [OF f(2) ok(1)] ok(3) by (auto simp: eraseItem_def page_inv_def)
  qed
next
  case (do_full p fl r p' fl')
  then show ?case
    using alterPageState_law [of crc k p fl FULL]
    by (auto simp: markFull_def page_inv_def in_use_def state_bits split: if_splits)
next
  case (do_freeing p fl r p' fl')
  then show ?case
    using alterPageState_law [of crc k p fl FREEING]
    by (auto simp: markFreeing_def page_inv_def in_use_def state_bits split: if_splits)
qed


section \<open>The hash list and the entry table\<close>

text \<open>C30: Whatever blocks it is cut into, the hash list behaves as one list of the entries that are alive: inserting appends,
  erasing takes out exactly the entry with that index (and fails only when it must be there and is not), and a search
  returns the first entry from an index on that has the hash.\<close>

theorem nvs_hash_list_exact:
  assumes "blocks_ok t" "i < 255"
  shows "(of_nat i \<notin> fst ` set (live_nodes t) \<longrightarrow> blocks_ok (hash_insert crc it i t) \<and>
      live_nodes (hash_insert crc it i t) = live_nodes t @ [(of_nat i, hash_24 crc it)]) \<and>
    (case hash_erase i must t of
       None \<Rightarrow> must \<and> of_nat i \<notin> fst ` set (live_nodes t)
     | Some t' \<Rightarrow> \<not> (must \<and> of_nat i \<notin> fst ` set (live_nodes t)) \<and> blocks_ok t' \<and>
         live_nodes t' = filter (\<lambda>(j, _). j \<noteq> of_nat i) (live_nodes t)) \<and>
    hash_find crc start it t =
      (case find (\<lambda>(j, h). start \<le> unat j \<and> h = hash_24 crc it) (live_nodes t) of None \<Rightarrow> SIZE_MAX | Some (j, _) \<Rightarrow> unat j)"
proof (intro conjI)
  show "case hash_erase i must t of
       None \<Rightarrow> must \<and> of_nat i \<notin> fst ` set (live_nodes t)
     | Some t' \<Rightarrow> \<not> (must \<and> of_nat i \<notin> fst ` set (live_nodes t)) \<and> blocks_ok t' \<and>
         live_nodes t' = filter (\<lambda>(j, _). j \<noteq> of_nat i) (live_nodes t)"
  proof (cases "hash_erase i must t")
    case None
    with hashes.del_law [OF assms, of must] show ?thesis by simp
  next
    case (Some t')
    then have "\<not> (must \<and> of_nat i \<notin> fst ` set (live_nodes t))" using hashes.del_law [OF assms, of must] by simp
    with Some hashes.del_law [OF assms, of must] show ?thesis by (simp only: option.case) blast
  qed
qed (use hashes.ins_law [OF assms] in blast, rule hashes.look_law)


theorem nvs_hash_list_exact_witness:
  "hash_erase 3 True [[(3, 5), (4, 6)]] = Some [[(0xff, 5), (4, 6)]] \<and>
   live_nodes [[(0xff, 5), (4, 6)]] = filter (\<lambda>(j, _). j \<noteq> of_nat 3) (live_nodes [[(3, 5), (4, 6)]])"
proof -
  have ok: "blocks_ok [[(3, 5), (4, 6)]]" by (simp add: blocks_ok_def live_nodes_def BLOCK_ENTRY_COUNT_def)
  have e: "hash_erase 3 True [[(3, 5), (4, 6)]] = Some [[(0xff, 5), (4, 6)]]" by simp
  with nvs_hash_list_exact [OF ok, of 3 _ _ True] show ?thesis by simp
qed

text \<open>The packed table is an array of 126 states: setting one entry changes that entry and no other, and an index outside
  the table is caught.\<close>

theorem nvs_entry_table_exact:
  shows "length t = 8 \<Longrightarrow> i < 126 \<Longrightarrow> entry_state v \<Longrightarrow>
      \<exists>t'. entry_set t i v = Some t' \<and> length t' = 8 \<and>
        (\<forall>j < 126. entry_get t' j = (if j = i then Some v else entry_get t j))"
    and "126 \<le> i \<Longrightarrow> entry_get t i = None \<and> entry_set t i v = None"
  using entries.put_law [of t i v] entries.outside [of i t v] by (simp_all add: ENTRY_COUNT_def entry_state_def)

theorem nvs_entry_table_exact_witness:
  "\<exists>t'. entry_set (replicate 8 0xffffffff) 17 ERASED = Some t' \<and> length t' = 8 \<and>
    (\<forall>j < 126. entry_get t' j = (if j = 17 then Some ERASED else entry_get (replicate 8 0xffffffff) j))"
  using nvs_entry_table_exact(1) [of "replicate 8 0xffffffff" 17 ERASED] by simp

section \<open>A page for examples\<close>

definition example_crc :: crc32_le where
  "example_crc c bs = foldl (\<lambda>a b. a * 33 + ucast b) c bs"

definition example_page :: page where
  "example_page = (new_page (replicate 8 0))\<lparr>mBaseAddress := 0xd000, mState := UNINITIALIZED\<rparr>"

definition active_page :: page where
  "active_page = example_page\<lparr>mState := ACTIVE, mNextFreeEntry := 0, mEntryTable := replicate 8 0xffffffff\<rparr>"

lemma blank_sector: "sector_ok 13 blank_chip"
proof -
  have "valid_address blank_chip a \<and> flash_word blank_chip a \<noteq> None" if "a div 4096 = 13" for a
  proof -
    have "0xd000 \<le> a" "a < 0xf000" using that mult_div_mod_eq [of 4096 a] mod_less_divisor [of 4096 a] by simp_all
    then show ?thesis using blank_chip_valid blank_chip_word by simp
  qed
  then show ?thesis using blank_chip_ok by (simp add: sector_ok_def)
qed

lemma example_new: "new_in 13 example_page blank_chip"
  using blank_sector by (simp add: new_in_def example_page_def new_page_def INVALID_ENTRY_def)

lemma example_active:
  obtains fl where "initialize example_crc example_page blank_chip = Some (ESP_OK, active_page, fl)"
    "page_ok example_crc 13 active_page fl" "items 13 active_page fl = []"
  using initialize_law [OF example_new, of example_crc] unfolding active_page_def [symmetric] by blast

lemma active_page_fields [simp]:
  "mState active_page = ACTIVE" "mNextFreeEntry active_page = 0" "usable active_page" "in_use active_page"
  by (simp_all add: active_page_def usable_def in_use_def)

definition example_item :: Item where
  "example_item = fixed_item example_crc 1 TYPE_U16 [0x6b] CHUNK_ANY [7, 8]"

lemma types_known [simp]:
  "\<not> isVariableLengthType TYPE_U16" "getAlignmentForType TYPE_U16 = 2" "TYPE_U16 \<noteq> TYPE_ANY" "TYPE_U16 \<noteq> TYPE_BLOB_IDX"
  "TYPE_U16 \<noteq> TYPE_BLOB_DATA" "isVariableLengthType TYPE_SZ" "TYPE_SZ \<noteq> TYPE_ANY" "TYPE_SZ \<noteq> TYPE_BLOB_IDX"
  "(1 :: u8) \<noteq> NS_ANY"
  by (simp_all add: isVariableLengthType_def getAlignmentForType_def TYPE_U16_def TYPE_ANY_def TYPE_BLOB_IDX_def
      TYPE_BLOB_DATA_def TYPE_BLOB_def TYPE_SZ_def NS_ANY_def)

lemma example_one_item:
  obtains p fl where "page_ok example_crc 13 p fl" "mState p = ACTIVE" "items 13 p fl = [(0, example_item)]"
    "mNextFreeEntry p = 1"
proof -
  obtain fl where fl: "page_ok example_crc 13 active_page fl" "items 13 active_page fl = []" using example_active by blast
  from writeItem_fixed [OF fl(1), where ty = TYPE_U16 and key = "[0x6b]" and dataSize = 2 and data = "[7, 8]" and ns = 1
      and c = CHUNK_ANY] that show thesis
    using fl(2) by (auto simp: ENTRY_COUNT_def MAX_KEY_LENGTH_def example_item_def)
qed

theorem nvs_write_read_fixed_witness:
  "\<exists>fl p' fl' fl''. initialize example_crc example_page blank_chip = Some (ESP_OK, active_page, fl) \<and>
    writeItem example_crc 1 TYPE_U16 [0x6b] [7, 8] 2 CHUNK_ANY active_page fl = Some (ESP_OK, p', fl') \<and>
    readItem example_crc 1 TYPE_U16 (Some [0x6b]) [0, 0] 2 CHUNK_ANY VER_ANY p' fl' = Some (ESP_OK, [7, 8], p', fl'')"
proof -
  obtain fl where fl: "initialize example_crc example_page blank_chip = Some (ESP_OK, active_page, fl)"
    "page_ok example_crc 13 active_page fl" "items 13 active_page fl = []" using example_active by blast
  from nvs_write_read_fixed [OF fl(2), where ty = TYPE_U16 and key = "[0x6b]" and val = "[7, 8]" and buf = "[0, 0]" and ns = 1
      and c = CHUNK_ANY] fl show ?thesis
    by (auto simp: ENTRY_COUNT_def one_item_def MAX_KEY_LENGTH_def fresh_name_def numeral_2_eq_2)
qed

theorem nvs_write_read_variable_witness:
  "\<exists>fl p' fl' fl''. initialize example_crc example_page blank_chip = Some (ESP_OK, active_page, fl) \<and>
    writeItem example_crc 1 TYPE_SZ [0x6b] (replicate 40 0x55) 40 CHUNK_ANY active_page fl = Some (ESP_OK, p', fl') \<and>
    readItem example_crc 1 TYPE_SZ (Some [0x6b]) (replicate 40 0) 40 CHUNK_ANY VER_ANY p' fl' =
      Some (ESP_OK, replicate 40 0x55, p', fl'')"
proof -
  obtain fl where fl: "initialize example_crc example_page blank_chip = Some (ESP_OK, active_page, fl)"
    "page_ok example_crc 13 active_page fl" "items 13 active_page fl = []" using example_active by blast
  have "writable TYPE_SZ [0x6b] 40 active_page" "in_flash_page 0 40"
    by (simp_all add: writable_def in_flash_page_def MAX_KEY_LENGTH_def CHUNK_MAX_SIZE_def ENTRY_SIZE_def ENTRY_COUNT_def
        data_entries_def)
  then have "\<exists>p' fl' fl''. writeItem example_crc 1 TYPE_SZ [0x6b] (replicate 40 0x55) 40 CHUNK_ANY active_page fl =
        Some (ESP_OK, p', fl') \<and>
      readItem example_crc 1 TYPE_SZ (Some [0x6b]) (replicate 40 0) 40 CHUNK_ANY VER_ANY p' fl' =
        Some (ESP_OK, replicate 40 0x55, p', fl'') \<and> page_ok example_crc 13 p' fl'' \<and> elsewhere 13 fl fl''"
    using nvs_write_read_variable [OF fl(2), where ty = TYPE_SZ and key = "[0x6b]" and val = "replicate 40 0x55"
        and buf = "replicate 40 0" and ns = 1 and c = CHUNK_ANY] fl(3)
    by (simp add: one_item_def MAX_KEY_LENGTH_def fresh_name_def)
  with fl(1) show ?thesis by blast
qed

theorem nvs_write_decides_witness:
  "\<exists>fl. initialize example_crc example_page blank_chip = Some (ESP_OK, active_page, fl) \<and>
    writeItem example_crc 1 TYPE_SZ (replicate 16 0x6b) [] 0 CHUNK_ANY active_page fl = Some (ESP_ERR_NVS_KEY_TOO_LONG, active_page, fl) \<and>
    writeItem example_crc 1 TYPE_SZ [0x6b] (replicate 200 0x55) 200 CHUNK_ANY active_page fl = None \<and>
    (\<exists>p' fl'. writeItem example_crc 1 TYPE_SZ [0x6b] (replicate 100 0x55) 100 CHUNK_ANY active_page fl = Some (ESP_OK, p', fl'))"
proof -
  obtain fl where fl: "initialize example_crc example_page blank_chip = Some (ESP_OK, active_page, fl)"
    "page_ok example_crc 13 active_page fl" using example_active by blast
  note d = nvs_write_decides [OF fl(2) active_page_fields(1), where ty = TYPE_SZ and c = CHUNK_ANY and ns = 1]
  have w: "\<not> writable TYPE_SZ (replicate 16 0x6b) 0 active_page" "writable TYPE_SZ [0x6b] 200 active_page"
    "writable TYPE_SZ [0x6b] 100 active_page" "\<not> in_flash_page 0 200" "in_flash_page 0 100"
    by (simp_all add: writable_def in_flash_page_def MAX_KEY_LENGTH_def CHUNK_MAX_SIZE_def ENTRY_SIZE_def ENTRY_COUNT_def
        data_entries_def)
  have "writeItem example_crc 1 TYPE_SZ (replicate 16 0x6b) [] 0 CHUNK_ANY active_page fl = Some (ESP_ERR_NVS_KEY_TOO_LONG, active_page, fl)"
    using d [of 0 "[]" "replicate 16 0x6b"] w(1) by (simp add: MAX_KEY_LENGTH_def)
  moreover have "writeItem example_crc 1 TYPE_SZ [0x6b] (replicate 200 0x55) 200 CHUNK_ANY active_page fl = None"
    using d [of 200 "replicate 200 0x55" "[0x6b]"] w by simp
  moreover have "\<exists>p' fl'. writeItem example_crc 1 TYPE_SZ [0x6b] (replicate 100 0x55) 100 CHUNK_ANY active_page fl = Some (ESP_OK, p', fl')"
    using d [of 100 "replicate 100 0x55" "[0x6b]"] w by auto
  ultimately show ?thesis using fl(1) by blast
qed


lemma example_found:
  "stops 1 TYPE_U16 (Some [0x6b]) CHUNK_ANY VER_ANY example_item" "\<not> wrong_type TYPE_U16 example_item"
  "named 1 TYPE_U16 (Some [0x6b]) CHUNK_ANY VER_ANY [(0, example_item)]"
  by (simp_all add: stops_def passed_over_def wrong_type_def named_def example_item_def key_matches)




end
