(* ===== verification/Nvs_Manager.thy ===== *)
theory Nvs_Manager
  imports Nvs_Page
begin

text \<open>
  The pages of a partition, \<open>nvs_pagemanager.cpp\<close>: which are in use, in the order of their sequence numbers, and
  which are free; taking the next free page into use; and making room, when only one free page is left, by moving the
  items of the page with the fewest used entries to it.

  The array \<open>mPages\<close> is the list of the page objects and a pointer to a page its index.  An \<open>intrusive_list\<close>
  (\<open>intrusive_list.h\<close>) is the list of the indices of its nodes in order, since every node is a page of the array and
  on at most one of the two lists.  The member \<open>mSeqNumber\<close> of the manager is \<open>mNextSeqNumber\<close> here, for the page has
  one of that name.
\<close>

record page_manager =
  mPageList :: "nat list"
  mFreePageList :: "nat list"
  mPages :: "page list"
  mBaseSector :: u32
  mPageCount :: u32
  mNextSeqNumber :: u32

type_synonym manager_result = "(esp_err_t \<times> page_manager \<times> cchanflash) option"

text \<open>A call of a method of a page of the array\<close>

definition on_page :: "nat \<Rightarrow> (page \<Rightarrow> cchanflash \<Rightarrow> result) \<Rightarrow> page_manager \<Rightarrow> cchanflash \<Rightarrow> manager_result" where
  "on_page i f m fl = do {
     p \<leftarrow> elem (mPages m) i;
     (err, p, fl) \<leftarrow> f p fl;
     Some (err, m\<lparr>mPages := (mPages m)[i := p]\<rparr>, fl)
   }"

definition page_state :: "nat \<Rightarrow> page_manager \<Rightarrow> u32 option" where
  "page_state i m = map_option mState (elem (mPages m) i)"

text \<open>The lists: \<open>back()\<close>, and \<open>erase\<close> of a node\<close>

definition back_page :: "page_manager \<Rightarrow> nat option" where
  "back_page m = (if mPageList m = [] then None else Some (last (mPageList m)))"

definition unlink :: "nat \<Rightarrow> nat list \<Rightarrow> nat list" where
  "unlink i l = remove1 i l"

text \<open>A page that has been used up goes from the list of pages to the end of the list of free ones.\<close>

definition set_free :: "nat \<Rightarrow> page_manager \<Rightarrow> page_manager" where
  "set_free i m = m\<lparr>mPageList := unlink i (mPageList m), mFreePageList := mFreePageList m @ [i]\<rparr>"

definition activatePage :: "page_manager \<Rightarrow> cchanflash \<Rightarrow> manager_result" where
  "activatePage m fl =
     (case mFreePageList m of
        [] \<Rightarrow> Some (ESP_ERR_NVS_NOT_ENOUGH_SPACE, m, fl)
      | i # rest \<Rightarrow> do {
          st \<leftarrow> page_state i m;
          (err, m, fl) \<leftarrow> (if st = CORRUPT then on_page i erase_page m fl else Some (ESP_OK, m, fl));
          if err \<noteq> ESP_OK then Some (err, m, fl)
          else do {
            p \<leftarrow> elem (mPages m) i;
            Some (ESP_OK, m\<lparr>mFreePageList := rest, mPageList := mPageList m @ [i],
                            mPages := (mPages m)[i := snd (setSeqNumber (mNextSeqNumber m) p)],
                            mNextSeqNumber := mNextSeqNumber m + 1\<rparr>, fl)
          }
        })"

text \<open>\<open>copyItems\<close> of page \<open>i\<close> into page \<open>j\<close>; they are two objects wherever it is called, as \<open>j\<close> has just been
  taken from the list of free pages.\<close>

definition copy_page :: "crc32_le \<Rightarrow> nat \<Rightarrow> nat \<Rightarrow> page_manager \<Rightarrow> cchanflash \<Rightarrow> manager_result" where
  "copy_page crc i j m fl = do {
     p \<leftarrow> elem (mPages m) i;
     on_page j (copyItems crc p) m fl
   }"

section \<open>Making room\<close>

text \<open>The loop that looks for the page with the most unused entries, the first of them when there are several\<close>

fun most_unused :: "page list \<Rightarrow> nat list \<Rightarrow> nat \<Rightarrow> nat option \<Rightarrow> (nat \<times> nat option) option" where
  "most_unused pages [] maxUnusedItems it = Some (maxUnusedItems, it)"
| "most_unused pages (i # is) maxUnusedItems it = do {
     p \<leftarrow> elem pages i;
     (let unused = size_sub ENTRY_COUNT (unat (mUsedEntryCount p))
      in if unused > maxUnusedItems then most_unused pages is unused (Some i)
         else most_unused pages is maxUnusedItems it)
   }"

definition requestNewPage :: "crc32_le \<Rightarrow> page_manager \<Rightarrow> cchanflash \<Rightarrow> manager_result" where
  "requestNewPage crc m fl =
     (if mFreePageList m = [] then Some (ESP_ERR_NVS_INVALID_STATE, m, fl)
      else if length (mFreePageList m) \<ge> 2 then activatePage m fl
      else do {
        (maxUnusedItems, it) \<leftarrow> most_unused (mPages m) (mPageList m) 0 None;
        if maxUnusedItems = 0 then Some (ESP_ERR_NVS_NOT_ENOUGH_SPACE, m, fl)
        else do {
          (err, m, fl) \<leftarrow> activatePage m fl;
          if err \<noteq> ESP_OK then Some (err, m, fl)
          else do {
            newPage \<leftarrow> back_page m;
            erasedPage \<leftarrow> it;
            usedEntries \<leftarrow> map_option mUsedEntryCount (elem (mPages m) erasedPage);
            (err, m, fl) \<leftarrow> on_page erasedPage markFreeing m fl;
            if err \<noteq> ESP_OK then Some (err, m, fl)
            else do {
              (err, m, fl) \<leftarrow> copy_page crc erasedPage newPage m fl;
              if err \<noteq> ESP_OK \<and> err \<noteq> ESP_ERR_NVS_NOT_FOUND then Some (err, m, fl)
              else do {
                (err, m, fl) \<leftarrow> on_page erasedPage erase_page m fl;
                if err \<noteq> ESP_OK then Some (err, m, fl)
                else do {
                  copied \<leftarrow> map_option mUsedEntryCount (elem (mPages m) newPage);
                  if usedEntries \<noteq> copied then None else Some (ESP_OK, set_free erasedPage m, fl)
                }
              }
            }
          }
        }
      })"

section \<open>Loading\<close>

text \<open>A loaded page is put before the first page with a higher number.\<close>

definition later_page :: "page list \<Rightarrow> u32 \<Rightarrow> nat \<Rightarrow> bool" where
  "later_page pages n j = (case getSeqNumber (pages ! j) of
     (err, Some other) \<Rightarrow> err = ESP_OK \<and> other > n | (err, None) \<Rightarrow> False)"

definition put_in_order :: "page list \<Rightarrow> u32 \<Rightarrow> nat \<Rightarrow> nat list \<Rightarrow> nat list" where
  "put_in_order pages n i l =
     takeWhile (\<lambda>j. \<not> later_page pages n j) l @ i # dropWhile (\<lambda>j. \<not> later_page pages n j) l"

fun load_pages :: "crc32_le \<Rightarrow> nat list \<Rightarrow> page_manager \<Rightarrow> cchanflash \<Rightarrow> manager_result" where
  "load_pages crc [] m fl = Some (ESP_OK, m, fl)"
| "load_pages crc (i # is) m fl = do {
     (err, m, fl) \<leftarrow> on_page i (load crc (mBaseSector m + of_nat i)) m fl;
     if err \<noteq> ESP_OK then Some (err, m, fl)
     else do {
       p \<leftarrow> elem (mPages m) i;
       load_pages crc is
         (case getSeqNumber p of
            (_, None) \<Rightarrow> m\<lparr>mFreePageList := mFreePageList m @ [i]\<rparr>
          | (_, Some n) \<Rightarrow> m\<lparr>mPageList := put_in_order (mPages m) n i (mPageList m)\<rparr>) fl
     }
   }"

text \<open>The loop over all items of the last page.  It leaves the index after the last item (\<open>SIZE_MAX\<close> when there is
  none) and the item.\<close>

partial_function (option) last_item ::
  "crc32_le \<Rightarrow> nat \<Rightarrow> nat \<Rightarrow> Item \<Rightarrow> page \<Rightarrow> cchanflash \<Rightarrow> (nat \<times> Item \<times> page \<times> cchanflash) option"
where
  "last_item crc itemIndex lastItemIndex it p fl = do {
     (err, itemIndex, it, p, fl) \<leftarrow> findItem crc NS_ANY TYPE_ANY None itemIndex it CHUNK_ANY VER_ANY p fl;
     if err = ESP_OK then
       (let itemIndex = size_add itemIndex (unat (span_of it)) in last_item crc itemIndex itemIndex it p fl)
     else Some (lastItemIndex, it, p, fl)
   }"

text \<open>The first of the pages that is not being freed and has an item of the name loses it.  The result tells whether
  the loop was left by \<open>break\<close>.\<close>

fun erase_older :: "crc32_le \<Rightarrow> Item \<Rightarrow> u8 \<Rightarrow> nat list \<Rightarrow> page_manager \<Rightarrow> cchanflash \<Rightarrow>
    (bool \<times> page_manager \<times> cchanflash) option" where
  "erase_older crc it ty [] m fl = Some (False, m, fl)"
| "erase_older crc it ty (i # is) m fl = do {
     st \<leftarrow> page_state i m;
     if st \<noteq> FREEING then do {
       (err, m, fl) \<leftarrow>
         on_page i (eraseItem crc (nsIndex it) ty (Some (key_string it)) (chunkIndex it) VER_ANY) m fl;
       if err = ESP_OK then Some (True, m, fl) else erase_older crc it ty is m fl
     }
     else erase_older crc it ty is m fl
   }"

text \<open>If power went out after an item was written and before the older one was erased\<close>

definition erase_duplicate :: "crc32_le \<Rightarrow> page_manager \<Rightarrow> cchanflash \<Rightarrow> (page_manager \<times> cchanflash) option" where
  "erase_duplicate crc m fl = do {
     i \<leftarrow> back_page m;
     p \<leftarrow> elem (mPages m) i;
     (lastItemIndex, it, p, fl) \<leftarrow> last_item crc 0 SIZE_MAX no_item p fl;
     (let m = m\<lparr>mPages := (mPages m)[i := p]\<rparr>; before = takeWhile (\<lambda>j. j \<noteq> i) (mPageList m)
      in if lastItemIndex \<noteq> SIZE_MAX then do {
           (found, m, fl) \<leftarrow> erase_older crc it (datatype_of it) before m fl;
           if \<not> found \<and> datatype_of it = TYPE_BLOB_IDX then do {
             (_, m, fl) \<leftarrow> erase_older crc it TYPE_BLOB before m fl;
             Some (m, fl)
           }
           else Some (m, fl)
         }
         else Some (m, fl))
   }"

text \<open>If power went out while a page was being freed: the items are copied again, to a fresh page.\<close>

definition find_freeing :: "page_manager \<Rightarrow> nat option" where
  "find_freeing m = find (\<lambda>i. page_state i m = Some FREEING) (mPageList m)"

definition finish_freeing :: "crc32_le \<Rightarrow> page_manager \<Rightarrow> cchanflash \<Rightarrow> manager_result" where
  "finish_freeing crc m fl =
     (case find_freeing m of
        None \<Rightarrow> Some (ESP_OK, m, fl)
      | Some i \<Rightarrow> do {
          newPage \<leftarrow> back_page m;
          st \<leftarrow> page_state newPage m;
          (err, m, fl) \<leftarrow>
            (if st = ACTIVE then do {
               (err, m, fl) \<leftarrow> on_page newPage erase_page m fl;
               Some (err, if err \<noteq> ESP_OK then m else set_free newPage m, fl)
             }
             else Some (ESP_OK, m, fl));
          if err \<noteq> ESP_OK then Some (err, m, fl)
          else do {
            (err, m, fl) \<leftarrow> activatePage m fl;
            if err \<noteq> ESP_OK then Some (err, m, fl)
            else do {
              newPage \<leftarrow> back_page m;
              (err, m, fl) \<leftarrow> copy_page crc i newPage m fl;
              if err \<noteq> ESP_OK \<and> err \<noteq> ESP_ERR_NVS_NOT_FOUND then Some (err, m, fl)
              else do {
                (err, m, fl) \<leftarrow> on_page i erase_page m fl;
                if err \<noteq> ESP_OK then Some (err, m, fl) else Some (ESP_OK, set_free i m, fl)
              }
            }
          }
        })"

text \<open>\<open>tables\<close> is what the memory of the new page objects holds in the entry tables, which no constructor sets.\<close>

definition manager_load ::
  "crc32_le \<Rightarrow> (nat \<Rightarrow> u32 list) \<Rightarrow> u32 \<Rightarrow> u32 \<Rightarrow> page_manager \<Rightarrow> cchanflash \<Rightarrow> manager_result" where
  "manager_load crc tables baseSector sectorCount m fl = do {
     (err, m, fl) \<leftarrow> load_pages crc [0..<unat sectorCount]
       (m\<lparr>mBaseSector := baseSector, mPageCount := sectorCount, mPageList := [], mFreePageList := [],
          mPages := map (\<lambda>i. new_page (tables i)) [0..<unat sectorCount]\<rparr>) fl;
     if err \<noteq> ESP_OK then Some (err, m, fl)
     else case back_page m of
       None \<Rightarrow> activatePage (m\<lparr>mNextSeqNumber := 0\<rparr>) fl
     | Some i \<Rightarrow> do {
         p \<leftarrow> elem (mPages m) i;
         lastSeqNo \<leftarrow> snd (getSeqNumber p);
         (m, fl) \<leftarrow> erase_duplicate crc (m\<lparr>mNextSeqNumber := lastSeqNo + 1\<rparr>) fl;
         (err, m, fl) \<leftarrow> finish_freeing crc m fl;
         if err \<noteq> ESP_OK then Some (err, m, fl)
         else if mFreePageList m = [] then Some (ESP_ERR_NVS_NO_FREE_PAGES, m, fl)
         else Some (ESP_OK, m, fl)
       }
   }"

section \<open>Statistics\<close>

fun add_pages :: "page list \<Rightarrow> nat list \<Rightarrow> nvs_stats_t \<Rightarrow> (esp_err_t \<times> nvs_stats_t) option" where
  "add_pages pages [] st = Some (ESP_OK, st)"
| "add_pages pages (i # is) st = do {
     p \<leftarrow> elem pages i;
     (err, st) \<leftarrow> calcEntries p st;
     if err \<noteq> ESP_OK then Some (err, st) else add_pages pages is st
   }"

definition manager_fillStats :: "page_manager \<Rightarrow> nvs_stats_t \<Rightarrow> (esp_err_t \<times> nvs_stats_t) option" where
  "manager_fillStats m st = do {
     (err, st) \<leftarrow> add_pages (mPages m) (mPageList m) (st\<lparr>used_entries := 0, free_entries := 0, total_entries := 0\<rparr>);
     if err \<noteq> ESP_OK then Some (err, st)
     else
       let free = length (mFreePageList m) * ENTRY_COUNT
       in Some (ESP_OK, st\<lparr>total_entries := size_add (total_entries st) free,
                           free_entries := size_add (free_entries st) free\<rparr>)
   }"

end
