(* ===== verification/Nvs_Storage.thy ===== *)
theory Nvs_Storage
  imports Nvs_Manager
begin

text \<open>
  The store of one partition, \<open>nvs_storage.cpp\<close>: items are looked for in all pages, written to the last one, and the
  older item of the name is erased afterwards; blobs are cut into chunks with an index; namespaces are items of
  namespace 0 whose names are kept in a list and whose numbers are marked in a table.

  The object is the record \<open>storage\<close>.  A \<open>Page*\<close> is the index of the page, \<open>None\<close> for the null pointer.  A list of
  nodes that a function fills and frees again is a list.  \<open>ESP_PLATFORM\<close> is defined in this build, so \<open>debugCheck\<close> is
  not part of it.
\<close>

datatype StorageState = STORAGE_INVALID | STORAGE_ACTIVE

record storage =
  mPartitionName :: "u8 list"
  mPageManager :: page_manager
  mNamespaces :: "(u8 list \<times> u8) list"
  mNamespaceUsage :: "u32 list"
  mStorageState :: StorageState

type_synonym storage_result = "(esp_err_t \<times> storage \<times> cchanflash) option"

definition in_manager ::
  "(page_manager \<Rightarrow> cchanflash \<Rightarrow> manager_result) \<Rightarrow> storage \<Rightarrow> cchanflash \<Rightarrow> storage_result" where
  "in_manager f s fl = do {
     (err, m, fl) \<leftarrow> f (mPageManager s) fl;
     Some (err, s\<lparr>mPageManager := m\<rparr>, fl)
   }"

section \<open>The table of used namespaces, one bit for each of 256\<close>

definition usage_get :: "u32 list \<Rightarrow> u8 \<Rightarrow> bool option" where
  "usage_get t ns = map_option (\<lambda>w. drop_bit (unat ns mod 32) w AND 1 \<noteq> 0) (elem t (unat ns div 32))"

definition usage_set :: "u32 list \<Rightarrow> u8 \<Rightarrow> u32 list option" where
  "usage_set t ns = do {
     w \<leftarrow> elem t (unat ns div 32);
     set_elem t (unat ns div 32) ((w AND NOT (push_bit (unat ns mod 32) 1)) OR push_bit (unat ns mod 32) 1)
   }"

section \<open>Finding an item in all pages\<close>

fun find_in_pages ::
  "crc32_le \<Rightarrow> u8 \<Rightarrow> u8 \<Rightarrow> cstr \<Rightarrow> u8 \<Rightarrow> u8 \<Rightarrow> nat list \<Rightarrow> nat option \<Rightarrow> Item \<Rightarrow> page_manager \<Rightarrow> cchanflash \<Rightarrow>
     (esp_err_t \<times> nat option \<times> Item \<times> page_manager \<times> cchanflash) option"
where
  "find_in_pages crc ns ty key c v [] page it m fl = Some (ESP_ERR_NVS_NOT_FOUND, page, it, m, fl)"
| "find_in_pages crc ns ty key c v (i # is) page it m fl = do {
     p \<leftarrow> elem (mPages m) i;
     (err, _, it, p, fl) \<leftarrow> findItem crc ns ty key 0 it c v p fl;
     (let m = m\<lparr>mPages := (mPages m)[i := p]\<rparr>
      in if err = ESP_OK then Some (ESP_OK, Some i, it, m, fl)
         else find_in_pages crc ns ty key c v is page it m fl)
   }"

definition storage_findItem ::
  "crc32_le \<Rightarrow> u8 \<Rightarrow> u8 \<Rightarrow> cstr \<Rightarrow> nat option \<Rightarrow> Item \<Rightarrow> u8 \<Rightarrow> u8 \<Rightarrow> page_manager \<Rightarrow> cchanflash \<Rightarrow>
     (esp_err_t \<times> nat option \<times> Item \<times> page_manager \<times> cchanflash) option"
where
  "storage_findItem crc ns ty key page it c v m fl = find_in_pages crc ns ty key c v (mPageList m) page it m fl"

section \<open>Blobs of several chunks\<close>

text \<open>The chunk numbers are sums of the offset of the version and a count, converted to \<open>uint8_t\<close>; an assertion
  compares the sum before the conversion.\<close>

definition chunk_index :: "u8 \<Rightarrow> nat \<Rightarrow> u8" where
  "chunk_index start n = start + of_nat n"

text \<open>The loop that erases the chunks of a blob; errors other than a missing chunk end it.\<close>

fun erase_chunks ::
  "crc32_le \<Rightarrow> u8 \<Rightarrow> u8 list \<Rightarrow> u8 \<Rightarrow> nat list \<Rightarrow> nat option \<Rightarrow> Item \<Rightarrow> page_manager \<Rightarrow> cchanflash \<Rightarrow> manager_result"
where
  "erase_chunks crc ns key start [] page it m fl = Some (ESP_OK, m, fl)"
| "erase_chunks crc ns key start (n # nums) page it m fl = do {
     (err, page, it, m, fl) \<leftarrow> storage_findItem crc ns TYPE_BLOB_DATA (Some key) page it (chunk_index start n) VER_ANY m fl;
     if err \<noteq> ESP_OK \<and> err \<noteq> ESP_ERR_NVS_NOT_FOUND then Some (err, m, fl)
     else if err = ESP_ERR_NVS_NOT_FOUND then erase_chunks crc ns key start nums page it m fl
     else do {
       i \<leftarrow> page;
       (err, m, fl) \<leftarrow> on_page i (eraseItem crc ns TYPE_BLOB_DATA (Some key) (chunk_index start n) VER_ANY) m fl;
       if err \<noteq> ESP_OK then Some (err, m, fl) else erase_chunks crc ns key start nums page it m fl
     }
   }"

definition eraseMultiPageBlob ::
  "crc32_le \<Rightarrow> u8 \<Rightarrow> u8 list \<Rightarrow> u8 \<Rightarrow> storage \<Rightarrow> cchanflash \<Rightarrow> storage_result" where
  "eraseMultiPageBlob crc ns key chunkStart s fl =
     (if mStorageState s \<noteq> STORAGE_ACTIVE then Some (ESP_ERR_NVS_NOT_INITIALIZED, s, fl)
      else in_manager (\<lambda>m fl. do {
        (err, page, it, m, fl) \<leftarrow> storage_findItem crc ns TYPE_BLOB_IDX (Some key) None no_item CHUNK_ANY chunkStart m fl;
        if err \<noteq> ESP_OK then Some (err, m, fl)
        else do {
          i \<leftarrow> page;
          (err, m, fl) \<leftarrow> on_page i (eraseItem crc ns TYPE_BLOB_IDX (Some key) CHUNK_ANY chunkStart) m fl;
          if err \<noteq> ESP_OK then Some (err, m, fl)
          else if chunkStart \<noteq> VER_ANY \<and> chunkStart \<noteq> blob_chunkStart it then None
          else erase_chunks crc ns key (blob_chunkStart it) [0..<unat (blob_chunkCount it)] page it m fl
        }
      }) s fl)"

text \<open>The loop that reads the chunks.  What it returns begins with whether the function returned from inside; a chunk
  that is missing only ends the loop.\<close>

fun read_chunks ::
  "crc32_le \<Rightarrow> u8 \<Rightarrow> u8 list \<Rightarrow> u8 \<Rightarrow> nat list \<Rightarrow> nat option \<Rightarrow> Item \<Rightarrow> u8 list \<Rightarrow> nat \<Rightarrow> page_manager \<Rightarrow> cchanflash \<Rightarrow>
     (bool \<times> esp_err_t \<times> u8 list \<times> nat \<times> page_manager \<times> cchanflash) option"
where
  "read_chunks crc ns key start [] page it data offset m fl = Some (False, ESP_OK, data, offset, m, fl)"
| "read_chunks crc ns key start (n # nums) page it data offset m fl = do {
     (err, page, it, m, fl) \<leftarrow> storage_findItem crc ns TYPE_BLOB_DATA (Some key) page it (chunk_index start n) VER_ANY m fl;
     if err \<noteq> ESP_OK then Some (err \<noteq> ESP_ERR_NVS_NOT_FOUND, err, data, offset, m, fl)
     else do {
       i \<leftarrow> page;
       p \<leftarrow> elem (mPages m) i;
       (err, rest, p, fl) \<leftarrow> readItem crc ns TYPE_BLOB_DATA (Some key) (drop offset data) (unat (var_dataSize it))
          (chunk_index start n) VER_ANY p fl;
       (let m = m\<lparr>mPages := (mPages m)[i := p]\<rparr>; data = take offset data @ rest
        in if err \<noteq> ESP_OK then Some (True, err, data, offset, m, fl)
           else if unat start + n \<noteq> unat (chunkIndex it) then None
           else read_chunks crc ns key start nums page it data (offset + unat (var_dataSize it)) m fl)
     }
   }"

definition readMultiPageBlob ::
  "crc32_le \<Rightarrow> u8 \<Rightarrow> u8 list \<Rightarrow> u8 list \<Rightarrow> nat \<Rightarrow> storage \<Rightarrow> cchanflash \<Rightarrow>
     (esp_err_t \<times> u8 list \<times> storage \<times> cchanflash) option" where
  "readMultiPageBlob crc ns key data dataSize s fl = do {
     (err, page, it, m, fl) \<leftarrow> storage_findItem crc ns TYPE_BLOB_IDX (Some key) None no_item CHUNK_ANY VER_ANY (mPageManager s) fl;
     if err \<noteq> ESP_OK then Some (err, data, s\<lparr>mPageManager := m\<rparr>, fl)
     else if dataSize \<noteq> unat (blob_dataSize it) then None
     else do {
       (returned, err, data, offset, m, fl) \<leftarrow>
         read_chunks crc ns key (blob_chunkStart it) [0..<unat (blob_chunkCount it)] page it data 0 m fl;
       if err = ESP_OK \<and> offset \<noteq> dataSize then None
       else if \<not> returned \<and> err = ESP_ERR_NVS_NOT_FOUND then do {
         (_, s, fl) \<leftarrow> eraseMultiPageBlob crc ns key VER_ANY (s\<lparr>mPageManager := m\<rparr>) fl;
         Some (err, data, s, fl)
       }
       else Some (err, data, s\<lparr>mPageManager := m\<rparr>, fl)
     }
   }"

text \<open>The loop that compares the chunks\<close>

fun cmp_chunks ::
  "crc32_le \<Rightarrow> u8 \<Rightarrow> u8 list \<Rightarrow> u8 \<Rightarrow> nat list \<Rightarrow> nat option \<Rightarrow> Item \<Rightarrow> u8 list \<Rightarrow> nat \<Rightarrow> page_manager \<Rightarrow> cchanflash \<Rightarrow>
     (esp_err_t \<times> nat \<times> page_manager \<times> cchanflash) option"
where
  "cmp_chunks crc ns key start [] page it data offset m fl = Some (ESP_OK, offset, m, fl)"
| "cmp_chunks crc ns key start (n # nums) page it data offset m fl = do {
     (err, page, it, m, fl) \<leftarrow> storage_findItem crc ns TYPE_BLOB_DATA (Some key) page it (chunk_index start n) VER_ANY m fl;
     if err \<noteq> ESP_OK then Some (err, offset, m, fl)
     else do {
       i \<leftarrow> page;
       (err, m, fl) \<leftarrow> on_page i (cmpItem crc ns TYPE_BLOB_DATA (Some key) (drop offset data) (unat (var_dataSize it))
          (chunk_index start n) VER_ANY) m fl;
       if err \<noteq> ESP_OK then Some (err, offset, m, fl)
       else if unat start + n \<noteq> unat (chunkIndex it) then None
       else cmp_chunks crc ns key start nums page it data (offset + unat (var_dataSize it)) m fl
     }
   }"

definition cmpMultiPageBlob ::
  "crc32_le \<Rightarrow> u8 \<Rightarrow> u8 list \<Rightarrow> u8 list \<Rightarrow> nat \<Rightarrow> page_manager \<Rightarrow> cchanflash \<Rightarrow> manager_result" where
  "cmpMultiPageBlob crc ns key data dataSize m fl = do {
     (err, page, it, m, fl) \<leftarrow> storage_findItem crc ns TYPE_BLOB_IDX (Some key) None no_item CHUNK_ANY VER_ANY m fl;
     if err \<noteq> ESP_OK then Some (err, m, fl)
     else if dataSize \<noteq> unat (blob_dataSize it) then Some (ESP_ERR_NVS_CONTENT_DIFFERS, m, fl)
     else do {
       (err, offset, m, fl) \<leftarrow>
         cmp_chunks crc ns key (blob_chunkStart it) [0..<unat (blob_chunkCount it)] page it data 0 m fl;
       if err = ESP_OK \<and> offset \<noteq> dataSize then None else Some (err, m, fl)
     }
   }"

text \<open>
  The loop that writes the chunks and then the index.  What it returns begins with whether the function returned from
  inside, without the cleaning up after the loop; then the error, the pages used and the state.
\<close>

type_synonym blob_result = "(bool \<times> esp_err_t \<times> nat list \<times> page_manager \<times> cchanflash) option"

definition mark_full_and_go_on :: "crc32_le \<Rightarrow> nat \<Rightarrow> page_manager \<Rightarrow> cchanflash \<Rightarrow> manager_result" where
  "mark_full_and_go_on crc i m fl = do {
     st \<leftarrow> page_state i m;
     (err, m, fl) \<leftarrow> (if st \<noteq> FULL then on_page i markFull m fl else Some (ESP_OK, m, fl));
     if err \<noteq> ESP_OK then Some (err, m, fl) else requestNewPage crc m fl
   }"

definition blob_index_data :: "nat \<Rightarrow> u8 \<Rightarrow> u8 \<Rightarrow> u8 list" where
  "blob_index_data dataSize chunkCount chunkStart =
     le32_bytes (of_nat dataSize) @ [chunkCount, chunkStart, 0xff, 0xff]"

definition current_tailroom :: "page_manager \<Rightarrow> nat option" where
  "current_tailroom m = do { i \<leftarrow> back_page m; p \<leftarrow> elem (mPages m) i; Some (getVarDataTailroom p) }"

partial_function (option) write_chunks ::
  "crc32_le \<Rightarrow> u8 \<Rightarrow> u8 list \<Rightarrow> u8 list \<Rightarrow> nat \<Rightarrow> u8 \<Rightarrow> u8 \<Rightarrow> nat list \<Rightarrow> nat \<Rightarrow> nat \<Rightarrow> page_manager \<Rightarrow> cchanflash \<Rightarrow> blob_result"
where
  "write_chunks crc ns key data dataSize chunkStart chunkCount usedPages remainingSize offset m fl = do {
     page \<leftarrow> back_page m;
     tailroom \<leftarrow> current_tailroom m;
     (if chunkCount = 0 \<and> tailroom < dataSize \<and> tailroom < CHUNK_MAX_SIZE div 10 then do {
        (err, m, fl) \<leftarrow> mark_full_and_go_on crc page m fl;
        if err \<noteq> ESP_OK then Some (True, err, usedPages, m, fl)
        else do {
          tailroom' \<leftarrow> current_tailroom m;
          if tailroom' = tailroom then Some (True, ESP_ERR_NVS_NOT_ENOUGH_SPACE, usedPages, m, fl)
          else write_chunks crc ns key data dataSize chunkStart chunkCount usedPages remainingSize offset m fl
        }
      }
      else if tailroom = 0 then Some (False, ESP_ERR_NVS_NOT_ENOUGH_SPACE, usedPages, m, fl)
      else
        let chunkSize = (if remainingSize > tailroom then tailroom else remainingSize);
            remainingSize = remainingSize - chunkSize
        in do {
             (err, m, fl) \<leftarrow> on_page page
               (writeItem crc ns TYPE_BLOB_DATA key (drop offset data) chunkSize (chunkStart + chunkCount)) m fl;
             (let chunkCount = chunkCount + 1
              in if err = ESP_ERR_NVS_PAGE_FULL then None
                 else if err \<noteq> ESP_OK then Some (False, err, usedPages, m, fl)
                 else do {
                   (let usedPages = usedPages @ [page]
                    in do {
                      (err, m, fl) \<leftarrow>
                        (if remainingSize \<noteq> 0 \<or> tailroom - chunkSize < ENTRY_SIZE then mark_full_and_go_on crc page m fl
                         else Some (ESP_OK, m, fl));
                      if err \<noteq> ESP_OK then Some (False, err, usedPages, m, fl)
                      else if remainingSize = 0 then do {
                        i \<leftarrow> back_page m;
                        (err, m, fl) \<leftarrow> on_page i
                          (writeItem crc ns TYPE_BLOB_IDX key (blob_index_data dataSize chunkCount chunkStart) 8 CHUNK_ANY) m fl;
                        if err = ESP_ERR_NVS_PAGE_FULL then None else Some (False, err, usedPages, m, fl)
                      }
                      else write_chunks crc ns key data dataSize chunkStart chunkCount usedPages remainingSize
                             (offset + chunkSize) m fl
                    })
                 })
           })
   }"

text \<open>The cleaning up: the chunk numbers count from zero, whatever version the blob was written as.\<close>

fun erase_written :: "crc32_le \<Rightarrow> u8 \<Rightarrow> u8 list \<Rightarrow> nat \<Rightarrow> nat list \<Rightarrow> page_manager \<Rightarrow> cchanflash \<Rightarrow>
    (page_manager \<times> cchanflash) option" where
  "erase_written crc ns key ii [] m fl = Some (m, fl)"
| "erase_written crc ns key ii (i # is) m fl = do {
     (_, m, fl) \<leftarrow> on_page i (eraseItem crc ns TYPE_BLOB_DATA (Some key) (of_nat ii) VER_ANY) m fl;
     erase_written crc ns key (ii + 1) is m fl
   }"

definition writeMultiPageBlob ::
  "crc32_le \<Rightarrow> u8 \<Rightarrow> u8 list \<Rightarrow> u8 list \<Rightarrow> nat \<Rightarrow> u8 \<Rightarrow> page_manager \<Rightarrow> cchanflash \<Rightarrow> manager_result" where
  "writeMultiPageBlob crc ns key data dataSize chunkStart m fl =
     (let max_pages = min (unat (mPageCount m - 1)) (unat ((CHUNK_ANY - 1) div 2))
      in if dataSize > max_pages * CHUNK_MAX_SIZE then Some (ESP_ERR_NVS_VALUE_TOO_LONG, m, fl)
         else do {
           (returned, err, usedPages, m, fl) \<leftarrow>
             write_chunks crc ns key data dataSize chunkStart 0 [] dataSize 0 m fl;
           if \<not> returned \<and> err \<noteq> ESP_OK then do {
             (m, fl) \<leftarrow> erase_written crc ns key 0 usedPages m fl;
             Some (err, m, fl)
           }
           else Some (err, m, fl)
         })"

section \<open>Writing\<close>

text \<open>The pointer \<open>findPage\<close> to a page that has been erased meanwhile is looked up again; \<open>ESP_ERROR_CHECK\<close> stops the
  program when that fails.\<close>

definition find_again ::
  "crc32_le \<Rightarrow> u8 \<Rightarrow> u8 \<Rightarrow> u8 list \<Rightarrow> nat \<Rightarrow> Item \<Rightarrow> page_manager \<Rightarrow> cchanflash \<Rightarrow>
     (nat \<times> Item \<times> page_manager \<times> cchanflash) option" where
  "find_again crc ns ty key i it m fl = do {
     st \<leftarrow> page_state i m;
     if st = UNINITIALIZED \<or> st = INVALID then do {
       (err, page, it, m, fl) \<leftarrow> storage_findItem crc ns ty (Some key) (Some i) it CHUNK_ANY VER_ANY m fl;
       if err \<noteq> ESP_OK then None else map_option (\<lambda>i. (i, it, m, fl)) page
     }
     else Some (i, it, m, fl)
   }"

text \<open>The end of \<open>writeItem\<close>: the older item is erased.\<close>

definition erase_old ::
  "crc32_le \<Rightarrow> u8 \<Rightarrow> u8 \<Rightarrow> u8 list \<Rightarrow> nat option \<Rightarrow> Item \<Rightarrow> page_manager \<Rightarrow> cchanflash \<Rightarrow> manager_result" where
  "erase_old crc ns ty key findPage it m fl =
     (case findPage of
        None \<Rightarrow> Some (ESP_OK, m, fl)
      | Some i \<Rightarrow> do {
          (i, it, m, fl) \<leftarrow> find_again crc ns ty key i it m fl;
          (err, m, fl) \<leftarrow> on_page i (eraseItem crc ns ty (Some key) CHUNK_ANY VER_ANY) m fl;
          Some (if err = ESP_ERR_FLASH_OP_FAIL then ESP_ERR_NVS_REMOVE_FAILED else err, m, fl)
        })"

text \<open>The branch of values in one item\<close>

definition write_single ::
  "crc32_le \<Rightarrow> u8 \<Rightarrow> u8 \<Rightarrow> u8 list \<Rightarrow> u8 list \<Rightarrow> nat \<Rightarrow> page_manager \<Rightarrow> cchanflash \<Rightarrow> manager_result" where
  "write_single crc ns ty key data dataSize m fl = do {
     page \<leftarrow> back_page m;
     (err, m, fl) \<leftarrow> on_page page (writeItem crc ns ty key data dataSize CHUNK_ANY) m fl;
     if err = ESP_ERR_NVS_PAGE_FULL then do {
       (err, m, fl) \<leftarrow> mark_full_and_go_on crc page m fl;
       if err \<noteq> ESP_OK then Some (err, m, fl)
       else do {
         page \<leftarrow> back_page m;
         (err, m, fl) \<leftarrow> on_page page (writeItem crc ns ty key data dataSize CHUNK_ANY) m fl;
         Some (if err = ESP_ERR_NVS_PAGE_FULL then ESP_ERR_NVS_NOT_ENOUGH_SPACE else err, m, fl)
       }
     }
     else Some (err, m, fl)
   }"

text \<open>The branch of blobs, with the erasure of the previous version, or, when there is none, the search for a blob
  that was stored without an index.\<close>

definition write_blob ::
  "crc32_le \<Rightarrow> u8 \<Rightarrow> u8 list \<Rightarrow> u8 list \<Rightarrow> nat \<Rightarrow> nat option \<Rightarrow> Item \<Rightarrow> storage \<Rightarrow> cchanflash \<Rightarrow> storage_result" where
  "write_blob crc ns key data dataSize findPage it s fl =
     (case findPage of
        None \<Rightarrow> in_manager (\<lambda>m fl. do {
          (err, m, fl) \<leftarrow> writeMultiPageBlob crc ns key data dataSize VER_0_OFFSET m fl;
          if err = ESP_ERR_NVS_PAGE_FULL then Some (ESP_ERR_NVS_NOT_ENOUGH_SPACE, m, fl)
          else if err \<noteq> ESP_OK then Some (err, m, fl)
          else do {
            (err, page, it, m, fl) \<leftarrow> storage_findItem crc ns TYPE_BLOB (Some key) None it CHUNK_ANY VER_ANY m fl;
            if err \<noteq> ESP_OK \<and> err \<noteq> ESP_ERR_NVS_NOT_FOUND then Some (err, m, fl)
            else erase_old crc ns TYPE_BLOB key page it m fl
          }
        }) s fl
      | Some i \<Rightarrow> do {
          (err, m, fl) \<leftarrow> cmpMultiPageBlob crc ns key data dataSize (mPageManager s) fl;
          if err = ESP_OK then Some (ESP_OK, s\<lparr>mPageManager := m\<rparr>, fl)
          else do {
            (_, it, m, fl) \<leftarrow> find_again crc ns TYPE_BLOB key i it m fl;
            (let prevStart = blob_chunkStart it
             in if prevStart \<noteq> VER_0_OFFSET \<and> prevStart \<noteq> VER_1_OFFSET then None
                else do {
                  (err, m, fl) \<leftarrow> writeMultiPageBlob crc ns key data dataSize
                     (if prevStart = VER_1_OFFSET then VER_0_OFFSET else VER_1_OFFSET) m fl;
                  if err = ESP_ERR_NVS_PAGE_FULL then Some (ESP_ERR_NVS_NOT_ENOUGH_SPACE, s\<lparr>mPageManager := m\<rparr>, fl)
                  else if err \<noteq> ESP_OK then Some (err, s\<lparr>mPageManager := m\<rparr>, fl)
                  else do {
                    (err, s, fl) \<leftarrow> eraseMultiPageBlob crc ns key prevStart (s\<lparr>mPageManager := m\<rparr>) fl;
                    Some (if err = ESP_ERR_FLASH_OP_FAIL then ESP_ERR_NVS_REMOVE_FAILED else err, s, fl)
                  }
                })
          }
        })"

definition storage_writeItem ::
  "crc32_le \<Rightarrow> u8 \<Rightarrow> u8 \<Rightarrow> u8 list \<Rightarrow> u8 list \<Rightarrow> nat \<Rightarrow> storage \<Rightarrow> cchanflash \<Rightarrow> storage_result" where
  "storage_writeItem crc ns ty key data dataSize s fl =
     (if mStorageState s \<noteq> STORAGE_ACTIVE then Some (ESP_ERR_NVS_NOT_INITIALIZED, s, fl)
      else do {
        (err, findPage, it, m, fl) \<leftarrow>
          storage_findItem crc ns (if ty = TYPE_BLOB then TYPE_BLOB_IDX else ty) (Some key) None no_item
            CHUNK_ANY VER_ANY (mPageManager s) fl;
        if err \<noteq> ESP_OK \<and> err \<noteq> ESP_ERR_NVS_NOT_FOUND then Some (err, s\<lparr>mPageManager := m\<rparr>, fl)
        else if ty = TYPE_BLOB then write_blob crc ns key data dataSize findPage it (s\<lparr>mPageManager := m\<rparr>) fl
        else in_manager (\<lambda>m fl. do {
          (same, m, fl) \<leftarrow>
            (case findPage of
               None \<Rightarrow> Some (False, m, fl)
             | Some i \<Rightarrow> map_option (\<lambda>(err, m, fl). (err = ESP_OK, m, fl))
                 (on_page i (cmpItem crc ns ty (Some key) data dataSize CHUNK_ANY VER_ANY) m fl));
          if same then Some (ESP_OK, m, fl)
          else do {
            (err, m, fl) \<leftarrow> write_single crc ns ty key data dataSize m fl;
            if err \<noteq> ESP_OK then Some (err, m, fl) else erase_old crc ns ty key findPage it m fl
          }
        }) (s\<lparr>mPageManager := m\<rparr>) fl
      })"

section \<open>Reading and erasing\<close>

definition read_single ::
  "crc32_le \<Rightarrow> u8 \<Rightarrow> u8 \<Rightarrow> u8 list \<Rightarrow> u8 list \<Rightarrow> nat \<Rightarrow> storage \<Rightarrow> cchanflash \<Rightarrow>
     (esp_err_t \<times> u8 list \<times> storage \<times> cchanflash) option" where
  "read_single crc ns ty key data dataSize s fl = do {
     (err, page, _, m, fl) \<leftarrow> storage_findItem crc ns ty (Some key) None no_item CHUNK_ANY VER_ANY (mPageManager s) fl;
     if err \<noteq> ESP_OK then Some (err, data, s\<lparr>mPageManager := m\<rparr>, fl)
     else do {
       i \<leftarrow> page;
       p \<leftarrow> elem (mPages m) i;
       (err, data, p, fl) \<leftarrow> readItem crc ns ty (Some key) data dataSize CHUNK_ANY VER_ANY p fl;
       Some (err, data, s\<lparr>mPageManager := m\<lparr>mPages := (mPages m)[i := p]\<rparr>\<rparr>, fl)
     }
   }"

definition storage_readItem ::
  "crc32_le \<Rightarrow> u8 \<Rightarrow> u8 \<Rightarrow> u8 list \<Rightarrow> u8 list \<Rightarrow> nat \<Rightarrow> storage \<Rightarrow> cchanflash \<Rightarrow>
     (esp_err_t \<times> u8 list \<times> storage \<times> cchanflash) option" where
  "storage_readItem crc ns ty key data dataSize s fl =
     (if mStorageState s \<noteq> STORAGE_ACTIVE then Some (ESP_ERR_NVS_NOT_INITIALIZED, data, s, fl)
      else if ty = TYPE_BLOB then do {
        (err, data, s, fl) \<leftarrow> readMultiPageBlob crc ns key data dataSize s fl;
        if err \<noteq> ESP_ERR_NVS_NOT_FOUND then Some (err, data, s, fl)
        else read_single crc ns ty key data dataSize s fl
      }
      else read_single crc ns ty key data dataSize s fl)"

definition storage_eraseItem ::
  "crc32_le \<Rightarrow> u8 \<Rightarrow> u8 \<Rightarrow> u8 list \<Rightarrow> storage \<Rightarrow> cchanflash \<Rightarrow> storage_result" where
  "storage_eraseItem crc ns ty key s fl =
     (if mStorageState s \<noteq> STORAGE_ACTIVE then Some (ESP_ERR_NVS_NOT_INITIALIZED, s, fl)
      else if ty = TYPE_BLOB then eraseMultiPageBlob crc ns key VER_ANY s fl
      else do {
        (err, page, it, m, fl) \<leftarrow> storage_findItem crc ns ty (Some key) None no_item CHUNK_ANY VER_ANY (mPageManager s) fl;
        (let s = s\<lparr>mPageManager := m\<rparr>
         in if err \<noteq> ESP_OK then Some (err, s, fl)
            else if datatype_of it = TYPE_BLOB_DATA \<or> datatype_of it = TYPE_BLOB_IDX
            then eraseMultiPageBlob crc ns key VER_ANY s fl
            else do {
              i \<leftarrow> page;
              in_manager (on_page i (eraseItem crc ns ty (Some key) CHUNK_ANY VER_ANY)) s fl
            })
      })"

text \<open>The items of a namespace, erased one by one from each page\<close>

partial_function (option) erase_all_in_page ::
  "crc32_le \<Rightarrow> u8 \<Rightarrow> nat \<Rightarrow> page_manager \<Rightarrow> cchanflash \<Rightarrow> manager_result" where
  "erase_all_in_page crc ns i m fl = do {
     (err, m, fl) \<leftarrow> on_page i (eraseItem crc ns TYPE_ANY None CHUNK_ANY VER_ANY) m fl;
     if err = ESP_ERR_NVS_NOT_FOUND then Some (ESP_OK, m, fl)
     else if err \<noteq> ESP_OK then Some (err, m, fl)
     else erase_all_in_page crc ns i m fl
   }"

fun erase_all_in_pages ::
  "crc32_le \<Rightarrow> u8 \<Rightarrow> nat list \<Rightarrow> page_manager \<Rightarrow> cchanflash \<Rightarrow> manager_result" where
  "erase_all_in_pages crc ns [] m fl = Some (ESP_OK, m, fl)"
| "erase_all_in_pages crc ns (i # is) m fl = do {
     (err, m, fl) \<leftarrow> erase_all_in_page crc ns i m fl;
     if err \<noteq> ESP_OK then Some (err, m, fl) else erase_all_in_pages crc ns is m fl
   }"

definition eraseNamespace :: "crc32_le \<Rightarrow> u8 \<Rightarrow> storage \<Rightarrow> cchanflash \<Rightarrow> storage_result" where
  "eraseNamespace crc ns s fl =
     (if mStorageState s \<noteq> STORAGE_ACTIVE then Some (ESP_ERR_NVS_NOT_INITIALIZED, s, fl)
      else in_manager (\<lambda>m. erase_all_in_pages crc ns (mPageList m) m) s fl)"

text \<open>The size is an output; it is \<open>None\<close> where it is not set.\<close>

definition getItemDataSize ::
  "crc32_le \<Rightarrow> u8 \<Rightarrow> u8 \<Rightarrow> u8 list \<Rightarrow> storage \<Rightarrow> cchanflash \<Rightarrow> (esp_err_t \<times> nat option \<times> storage \<times> cchanflash) option"
where
  "getItemDataSize crc ns ty key s fl =
     (if mStorageState s \<noteq> STORAGE_ACTIVE then Some (ESP_ERR_NVS_NOT_INITIALIZED, None, s, fl)
      else do {
        (err, page, it, m, fl) \<leftarrow> storage_findItem crc ns ty (Some key) None no_item CHUNK_ANY VER_ANY (mPageManager s) fl;
        if err = ESP_OK then Some (ESP_OK, Some (unat (var_dataSize it)), s\<lparr>mPageManager := m\<rparr>, fl)
        else if ty \<noteq> TYPE_BLOB then Some (err, None, s\<lparr>mPageManager := m\<rparr>, fl)
        else do {
          (err, page, it, m, fl) \<leftarrow> storage_findItem crc ns TYPE_BLOB_IDX (Some key) page it CHUNK_ANY VER_ANY m fl;
          Some (err, if err = ESP_OK then Some (unat (blob_dataSize it)) else None, s\<lparr>mPageManager := m\<rparr>, fl)
        }
      })"

section \<open>Namespaces\<close>

fun first_unused :: "u32 list \<Rightarrow> u8 list \<Rightarrow> u8 option option" where
  "first_unused t [] = Some None"
| "first_unused t (ns # nss) = do {
     used \<leftarrow> usage_get t ns;
     if \<not> used then Some (Some ns) else first_unused t nss
   }"

text \<open>The number is an output.  The name of a new entry is a copy of 15 bytes with a zero.\<close>

definition createOrOpenNamespace ::
  "crc32_le \<Rightarrow> u8 list \<Rightarrow> bool \<Rightarrow> storage \<Rightarrow> cchanflash \<Rightarrow> (esp_err_t \<times> u8 option \<times> storage \<times> cchanflash) option"
where
  "createOrOpenNamespace crc nsName canCreate s fl =
     (if mStorageState s \<noteq> STORAGE_ACTIVE then Some (ESP_ERR_NVS_NOT_INITIALIZED, None, s, fl)
      else case find (\<lambda>(name, _). strncmp_eq 15 nsName name) (mNamespaces s) of
        Some (_, ns) \<Rightarrow> Some (ESP_OK, Some ns, s, fl)
      | None \<Rightarrow>
          if \<not> canCreate then Some (ESP_ERR_NVS_NOT_FOUND, None, s, fl)
          else do {
            free \<leftarrow> first_unused (mNamespaceUsage s) (map of_nat [1..<255]);
            (case free of
               None \<Rightarrow> Some (ESP_ERR_NVS_NOT_ENOUGH_SPACE, None, s, fl)
             | Some ns \<Rightarrow> do {
                 (err, s, fl) \<leftarrow> storage_writeItem crc NS_INDEX TYPE_U8 nsName [ns] 1 s fl;
                 if err \<noteq> ESP_OK then Some (err, None, s, fl)
                 else do {
                   t \<leftarrow> usage_set (mNamespaceUsage s) ns;
                   Some (ESP_OK, Some ns, s\<lparr>mNamespaceUsage := t, mNamespaces := mNamespaces s @ [(key_field nsName, ns)]\<rparr>, fl)
                 }
               })
          })"

section \<open>Loading\<close>

text \<open>
  The loops over the items of the pages.  The name of an entry is a copy of 15 bytes; the last byte of the array is not
  set, \<open>junk\<close> is what it holds.  An item with span zero is read for ever.
\<close>

partial_function (option) load_namespaces_of ::
  "crc32_le \<Rightarrow> u8 \<Rightarrow> nat \<Rightarrow> nat \<Rightarrow> Item \<Rightarrow> storage \<Rightarrow> cchanflash \<Rightarrow> (storage \<times> cchanflash) option" where
  "load_namespaces_of crc junk i itemIndex it s fl = do {
     p \<leftarrow> elem (mPages (mPageManager s)) i;
     (err, itemIndex, it, p, fl) \<leftarrow> findItem crc NS_INDEX TYPE_U8 None itemIndex it CHUNK_ANY VER_ANY p fl;
     (let s = s\<lparr>mPageManager := (mPageManager s)\<lparr>mPages := (mPages (mPageManager s))[i := p]\<rparr>\<rparr>
      in if err = ESP_OK then do {
           t \<leftarrow> usage_set (mNamespaceUsage s) (data_of it ! 0);
           load_namespaces_of crc junk i (size_add itemIndex (unat (span_of it))) it
             (s\<lparr>mNamespaceUsage := t,
                mNamespaces := mNamespaces s @ [(take 15 (key_field (key_string it)) @ [junk], data_of it ! 0)]\<rparr>) fl
         }
         else Some (s, fl))
   }"

fun load_namespaces :: "crc32_le \<Rightarrow> u8 \<Rightarrow> nat list \<Rightarrow> storage \<Rightarrow> cchanflash \<Rightarrow> (storage \<times> cchanflash) option" where
  "load_namespaces crc junk [] s fl = Some (s, fl)"
| "load_namespaces crc junk (i # is) s fl = do {
     (s, fl) \<leftarrow> load_namespaces_of crc junk i 0 no_item s fl;
     load_namespaces crc junk is s fl
   }"

record blob_index_node =
  blob_key :: "u8 list"
  blob_ns :: u8
  blob_count :: u8
  blob_start :: u8

partial_function (option) blob_indices_of ::
  "crc32_le \<Rightarrow> nat \<Rightarrow> nat \<Rightarrow> Item \<Rightarrow> blob_index_node list \<Rightarrow> page_manager \<Rightarrow> cchanflash \<Rightarrow>
     (blob_index_node list \<times> page_manager \<times> cchanflash) option" where
  "blob_indices_of crc i itemIndex it l m fl = do {
     p \<leftarrow> elem (mPages m) i;
     (err, itemIndex, it, p, fl) \<leftarrow> findItem crc NS_ANY TYPE_BLOB_IDX None itemIndex it CHUNK_ANY VER_ANY p fl;
     (let m = m\<lparr>mPages := (mPages m)[i := p]\<rparr>
      in if err = ESP_OK then
           blob_indices_of crc i (size_add itemIndex (unat (span_of it))) it
             (l @ [\<lparr>blob_key = key_string it, blob_ns = nsIndex it, blob_count = blob_chunkCount it,
                    blob_start = blob_chunkStart it\<rparr>]) m fl
         else Some (l, m, fl))
   }"

fun populateBlobIndices ::
  "crc32_le \<Rightarrow> nat list \<Rightarrow> blob_index_node list \<Rightarrow> page_manager \<Rightarrow> cchanflash \<Rightarrow>
     (blob_index_node list \<times> page_manager \<times> cchanflash) option" where
  "populateBlobIndices crc [] l m fl = Some (l, m, fl)"
| "populateBlobIndices crc (i # is) l m fl = do {
     (l, m, fl) \<leftarrow> blob_indices_of crc i 0 no_item l m fl;
     populateBlobIndices crc is l m fl
   }"

text \<open>A chunk belongs to an index of its name whose numbers cover the chunk's; the bound is an \<open>int\<close>.\<close>

definition chunk_belongs :: "Item \<Rightarrow> blob_index_node \<Rightarrow> bool" where
  "chunk_belongs it e \<longleftrightarrow> strncmp_eq 15 (key_of it) (blob_key e) \<and> nsIndex it = blob_ns e \<and>
     chunkIndex it \<ge> blob_start e \<and> unat (chunkIndex it) < unat (blob_start e) + unat (blob_count e)"

partial_function (option) erase_orphans_of ::
  "crc32_le \<Rightarrow> blob_index_node list \<Rightarrow> nat \<Rightarrow> nat \<Rightarrow> Item \<Rightarrow> page_manager \<Rightarrow> cchanflash \<Rightarrow>
     (page_manager \<times> cchanflash) option" where
  "erase_orphans_of crc l i itemIndex it m fl = do {
     p \<leftarrow> elem (mPages m) i;
     (err, itemIndex, it, p, fl) \<leftarrow> findItem crc NS_ANY TYPE_BLOB_DATA None itemIndex it CHUNK_ANY VER_ANY p fl;
     (let m = m\<lparr>mPages := (mPages m)[i := p]\<rparr>
      in if err = ESP_OK then do {
           (m, fl) \<leftarrow>
             (if list_ex (chunk_belongs it) l then Some (m, fl)
              else map_option snd (on_page i (eraseItem crc (nsIndex it) (datatype_of it) (Some (key_string it))
                     (chunkIndex it) VER_ANY) m fl));
           erase_orphans_of crc l i (size_add itemIndex (unat (span_of it))) it m fl
         }
         else Some (m, fl))
   }"

fun eraseOrphanDataBlobs ::
  "crc32_le \<Rightarrow> blob_index_node list \<Rightarrow> nat list \<Rightarrow> page_manager \<Rightarrow> cchanflash \<Rightarrow> (page_manager \<times> cchanflash) option"
where
  "eraseOrphanDataBlobs crc l [] m fl = Some (m, fl)"
| "eraseOrphanDataBlobs crc l (i # is) m fl = do {
     (m, fl) \<leftarrow> erase_orphans_of crc l i 0 no_item m fl;
     eraseOrphanDataBlobs crc l is m fl
   }"

definition storage_init ::
  "crc32_le \<Rightarrow> (nat \<Rightarrow> u32 list) \<Rightarrow> u8 \<Rightarrow> u32 \<Rightarrow> u32 \<Rightarrow> storage \<Rightarrow> cchanflash \<Rightarrow> storage_result" where
  "storage_init crc tables junk baseSector sectorCount s fl = do {
     (err, m, fl) \<leftarrow> manager_load crc tables baseSector sectorCount (mPageManager s) fl;
     (let s = s\<lparr>mPageManager := m\<rparr>
      in if err \<noteq> ESP_OK then Some (err, s\<lparr>mStorageState := STORAGE_INVALID\<rparr>, fl)
         else do {
           (s, fl) \<leftarrow> load_namespaces crc junk (mPageList m)
             (s\<lparr>mNamespaces := [], mNamespaceUsage := replicate 8 0\<rparr>) fl;
           t \<leftarrow> usage_set (mNamespaceUsage s) 0;
           t \<leftarrow> usage_set t 255;
           (l, m, fl) \<leftarrow> populateBlobIndices crc (mPageList m) [] (mPageManager s) fl;
           (m, fl) \<leftarrow> eraseOrphanDataBlobs crc l (mPageList m) m fl;
           Some (ESP_OK, s\<lparr>mPageManager := m, mNamespaceUsage := t, mStorageState := STORAGE_ACTIVE\<rparr>, fl)
         })
   }"

section \<open>Statistics and iteration\<close>

definition storage_fillStats :: "storage \<Rightarrow> nvs_stats_t \<Rightarrow> (esp_err_t \<times> nvs_stats_t) option" where
  "storage_fillStats s st = manager_fillStats (mPageManager s) (st\<lparr>namespace_count := length (mNamespaces s)\<rparr>)"

partial_function (option) calc_entries_of ::
  "crc32_le \<Rightarrow> u8 \<Rightarrow> nat \<Rightarrow> nat \<Rightarrow> Item \<Rightarrow> nat \<Rightarrow> page_manager \<Rightarrow> cchanflash \<Rightarrow>
     (esp_err_t \<times> nat \<times> page_manager \<times> cchanflash) option" where
  "calc_entries_of crc ns i itemIndex it used m fl = do {
     p \<leftarrow> elem (mPages m) i;
     (err, itemIndex, it, p, fl) \<leftarrow> findItem crc ns TYPE_ANY None itemIndex it CHUNK_ANY VER_ANY p fl;
     (let m = m\<lparr>mPages := (mPages m)[i := p]\<rparr>
      in if err = ESP_ERR_NVS_NOT_FOUND then Some (ESP_OK, used, m, fl)
         else if err \<noteq> ESP_OK then Some (err, used, m, fl)
         else
           let used = size_add used (unat (span_of it)); itemIndex = size_add itemIndex (unat (span_of it))
           in if itemIndex \<ge> ENTRY_COUNT then Some (ESP_OK, used, m, fl)
              else calc_entries_of crc ns i itemIndex it used m fl)
   }"

fun calc_entries ::
  "crc32_le \<Rightarrow> u8 \<Rightarrow> nat list \<Rightarrow> nat \<Rightarrow> page_manager \<Rightarrow> cchanflash \<Rightarrow> (esp_err_t \<times> nat \<times> page_manager \<times> cchanflash) option"
where
  "calc_entries crc ns [] used m fl = Some (ESP_OK, used, m, fl)"
| "calc_entries crc ns (i # is) used m fl = do {
     (err, used, m, fl) \<leftarrow> calc_entries_of crc ns i 0 no_item used m fl;
     if err \<noteq> ESP_OK then Some (err, used, m, fl) else calc_entries crc ns is used m fl
   }"

definition calcEntriesInNamespace ::
  "crc32_le \<Rightarrow> u8 \<Rightarrow> storage \<Rightarrow> cchanflash \<Rightarrow> (esp_err_t \<times> nat \<times> storage \<times> cchanflash) option" where
  "calcEntriesInNamespace crc ns s fl =
     (if mStorageState s \<noteq> STORAGE_ACTIVE then Some (ESP_ERR_NVS_NOT_INITIALIZED, 0, s, fl)
      else do {
        (err, used, m, fl) \<leftarrow> calc_entries crc ns (mPageList (mPageManager s)) 0 (mPageManager s) fl;
        Some (err, used, s\<lparr>mPageManager := m\<rparr>, fl)
      })"

text \<open>What an iterator tells of an entry: type, key and the name of the namespace\<close>

record nvs_entry_info_t =
  info_namespace :: "u8 list"
  info_key :: "u8 list"
  info_type :: u8

record nvs_opaque_iterator_t =
  iter_type :: u8
  iter_ns :: u8
  iter_index :: nat
  iter_storage :: nat
  iter_page :: "nat option"
  iter_info :: nvs_entry_info_t

text \<open>\<open>strncpy\<close> of 16 bytes from an array of 16: what follows the first zero is zero.\<close>

definition strncpy16 :: "u8 list \<Rightarrow> u8 list" where
  "strncpy16 src = (let t = takeWhile (\<lambda>c. c \<noteq> 0) (take 16 src) in t @ replicate (16 - length t) 0)"

definition fillEntryInfo :: "Item \<Rightarrow> storage \<Rightarrow> nvs_entry_info_t \<Rightarrow> nvs_entry_info_t" where
  "fillEntryInfo it s info =
     (let info = info\<lparr>info_type := datatype_of it, info_key := strncpy16 (key_of it)\<rparr>
      in case find (\<lambda>(_, ns). nsIndex it = ns) (mNamespaces s) of
           None \<Rightarrow> info
         | Some (name, _) \<Rightarrow> info\<lparr>info_namespace := strncpy16 name\<rparr>)"

definition isIterableItem :: "Item \<Rightarrow> bool" where
  "isIterableItem it \<longleftrightarrow> nsIndex it \<noteq> 0 \<and> datatype_of it \<noteq> TYPE_BLOB \<and> datatype_of it \<noteq> TYPE_BLOB_IDX"

definition isMultipageBlob :: "Item \<Rightarrow> bool" where
  "isMultipageBlob it \<longleftrightarrow> datatype_of it = TYPE_BLOB_DATA \<and> chunkIndex it \<noteq> 0"

text \<open>The inner loop of \<open>nextEntry\<close>; it goes on after every result but \<open>ESP_ERR_NVS_NOT_FOUND\<close>.\<close>

partial_function (option) next_in_page ::
  "crc32_le \<Rightarrow> nat \<Rightarrow> Item \<Rightarrow> nvs_opaque_iterator_t \<Rightarrow> storage \<Rightarrow> cchanflash \<Rightarrow>
     (bool \<times> Item \<times> nvs_opaque_iterator_t \<times> storage \<times> cchanflash) option" where
  "next_in_page crc i it iter s fl = do {
     p \<leftarrow> elem (mPages (mPageManager s)) i;
     (err, itemIndex, it, p, fl) \<leftarrow> findItem crc (iter_ns iter) (iter_type iter) None (iter_index iter) it CHUNK_ANY VER_ANY p fl;
     (let s = s\<lparr>mPageManager := (mPageManager s)\<lparr>mPages := (mPages (mPageManager s))[i := p]\<rparr>\<rparr>;
          iter = iter\<lparr>iter_index := size_add itemIndex (unat (span_of it))\<rparr>
      in if err = ESP_OK \<and> isIterableItem it \<and> \<not> isMultipageBlob it
         then Some (True, it, iter\<lparr>iter_info := fillEntryInfo it s (iter_info iter), iter_page := Some i\<rparr>, s, fl)
         else if err \<noteq> ESP_ERR_NVS_NOT_FOUND then next_in_page crc i it iter s fl
         else Some (False, it, iter, s, fl))
   }"

fun next_in_pages ::
  "crc32_le \<Rightarrow> nat list \<Rightarrow> Item \<Rightarrow> nvs_opaque_iterator_t \<Rightarrow> storage \<Rightarrow> cchanflash \<Rightarrow>
     (bool \<times> nvs_opaque_iterator_t \<times> storage \<times> cchanflash) option" where
  "next_in_pages crc [] it iter s fl = Some (False, iter, s, fl)"
| "next_in_pages crc (i # is) it iter s fl = do {
     (found, it, iter, s, fl) \<leftarrow> next_in_page crc i it iter s fl;
     if found then Some (True, iter, s, fl) else next_in_pages crc is it (iter\<lparr>iter_index := 0\<rparr>) s fl
   }"

text \<open>The pages from the iterator's on\<close>

definition nextEntry ::
  "crc32_le \<Rightarrow> nvs_opaque_iterator_t \<Rightarrow> storage \<Rightarrow> cchanflash \<Rightarrow>
     (bool \<times> nvs_opaque_iterator_t \<times> storage \<times> cchanflash) option" where
  "nextEntry crc iter s fl =
     next_in_pages crc
       (case iter_page iter of None \<Rightarrow> [] | Some i \<Rightarrow> dropWhile (\<lambda>j. j \<noteq> i) (mPageList (mPageManager s))) no_item iter s fl"

definition findEntry ::
  "crc32_le \<Rightarrow> nvs_opaque_iterator_t \<Rightarrow> cstr \<Rightarrow> storage \<Rightarrow> cchanflash \<Rightarrow>
     (bool \<times> nvs_opaque_iterator_t \<times> storage \<times> cchanflash) option" where
  "findEntry crc iter namespace_name s fl =
     (let l = mPageList (mPageManager s);
          iter = iter\<lparr>iter_index := 0, iter_ns := NS_ANY, iter_page := (if l = [] then None else Some (hd l))\<rparr>
      in case namespace_name of
           None \<Rightarrow> nextEntry crc iter s fl
         | Some name \<Rightarrow> do {
             (err, ns, s, fl) \<leftarrow> createOrOpenNamespace crc name False s fl;
             (case ns of
                Some n \<Rightarrow> if err \<noteq> ESP_OK then Some (False, iter, s, fl) else nextEntry crc (iter\<lparr>iter_ns := n\<rparr>) s fl
              | None \<Rightarrow> Some (False, iter, s, fl))
           })"

end
