(* ===== verification/Nvs_Api.thy ===== *)
theory Nvs_Api
  imports Nvs_Storage Partition
begin

text \<open>
  The functions that firmware calls, \<open>nvs_api.cpp\<close>: a list of the stores that have been initialised, one for each
  partition, and a list of open handles, each a namespace of a store.

  The globals are the record \<open>nvs\<close>.  An object that \<open>new\<close> returns is known by a number that is used once; a pointer
  to a store is its number.  The name of a store is the text that the caller's pointer points to.  \<open>Lock\<close> does nothing in
  this build, and the encryption is compiled out.
\<close>

record handle_entry =
  mHandle :: u32
  mReadOnly :: bool
  mNsIndex :: u8
  mStoragePtr :: nat

record nvs =
  s_nvs_handles :: "handle_entry list"
  s_nvs_next_handle :: u32
  s_nvs_storage_list :: "(nat \<times> storage) list"
  next_storage :: nat
  partition_list :: "esp_partition_t list"

datatype nvs_open_mode_t = NVS_READONLY | NVS_READWRITE

definition NVS_DEFAULT_PART_NAME :: "u8 list" where
  "NVS_DEFAULT_PART_NAME = ascii ''nvs''"

definition lookup_storage_from_name :: "u8 list \<Rightarrow> nvs \<Rightarrow> (nat \<times> storage) option" where
  "lookup_storage_from_name name g = find (\<lambda>(_, s). mPartitionName s = name) (s_nvs_storage_list g)"

text \<open>A call of a method of a store, and one that has an output besides the error code\<close>

definition put_storage :: "nat \<Rightarrow> storage \<Rightarrow> nvs \<Rightarrow> nvs" where
  "put_storage k s g = g\<lparr>s_nvs_storage_list := map (\<lambda>(j, t). if j = k then (j, s) else (j, t)) (s_nvs_storage_list g)\<rparr>"

definition on_storage ::
  "nat \<Rightarrow> (storage \<Rightarrow> cchanflash \<Rightarrow> storage_result) \<Rightarrow> nvs \<Rightarrow> cchanflash \<Rightarrow> (esp_err_t \<times> nvs \<times> cchanflash) option"
where
  "on_storage k f g fl = do {
     s \<leftarrow> map_of (s_nvs_storage_list g) k;
     (err, s, fl) \<leftarrow> f s fl;
     Some (err, put_storage k s g, fl)
   }"

definition from_storage ::
  "nat \<Rightarrow> (storage \<Rightarrow> cchanflash \<Rightarrow> (esp_err_t \<times> 'a \<times> storage \<times> cchanflash) option) \<Rightarrow> nvs \<Rightarrow> cchanflash \<Rightarrow>
     (esp_err_t \<times> 'a \<times> nvs \<times> cchanflash) option"
where
  "from_storage k f g fl = do {
     s \<leftarrow> map_of (s_nvs_storage_list g) k;
     (err, x, s, fl) \<leftarrow> f s fl;
     Some (err, x, put_storage k s g, fl)
   }"

section \<open>Initialisation\<close>

definition new_storage :: "u8 list \<Rightarrow> u32 list \<Rightarrow> storage" where
  "new_storage name usage = \<lparr>mPartitionName = name,
     mPageManager = \<lparr>mPageList = [], mFreePageList = [], mPages = [], mBaseSector = 0, mPageCount = 0, mNextSeqNumber = 0\<rparr>,
     mNamespaces = [], mNamespaceUsage = usage, mStorageState = STORAGE_INVALID\<rparr>"

definition nvs_flash_init_custom ::
  "crc32_le \<Rightarrow> (nat \<Rightarrow> u32 list) \<Rightarrow> u8 \<Rightarrow> u8 list \<Rightarrow> u32 \<Rightarrow> u32 \<Rightarrow> nvs \<Rightarrow> cchanflash \<Rightarrow>
     (esp_err_t \<times> nvs \<times> cchanflash) option"
where
  "nvs_flash_init_custom crc tables junk partName baseSector sectorCount g fl =
     (case lookup_storage_from_name partName g of
        Some (k, _) \<Rightarrow> on_storage k (storage_init crc tables junk baseSector sectorCount) g fl
      | None \<Rightarrow> do {
          (err, s, fl) \<leftarrow> storage_init crc tables junk baseSector sectorCount (new_storage partName (replicate 8 0)) fl;
          Some (err,
            if err = ESP_OK
            then g\<lparr>s_nvs_storage_list := s_nvs_storage_list g @ [(next_storage g, s)], next_storage := next_storage g + 1\<rparr>
            else g, fl)
        })"

definition find_nvs_partition :: "u8 list \<Rightarrow> nvs \<Rightarrow> esp_partition_t option \<times> nvs" where
  "find_nvs_partition name g =
     (let (p, ps) = esp_partition_find_first ESP_PARTITION_TYPE_DATA ESP_PARTITION_SUBTYPE_DATA_NVS (Some name) (partition_list g)
      in (p, g\<lparr>partition_list := ps\<rparr>))"

definition nvs_flash_init_partition ::
  "crc32_le \<Rightarrow> (nat \<Rightarrow> u32 list) \<Rightarrow> u8 \<Rightarrow> u8 list \<Rightarrow> nvs \<Rightarrow> cchanflash \<Rightarrow> (esp_err_t \<times> nvs \<times> cchanflash) option"
where
  "nvs_flash_init_partition crc tables junk part_name g fl =
     (if lookup_storage_from_name part_name g \<noteq> None then Some (ESP_OK, g, fl)
      else case find_nvs_partition part_name g of
        (None, g) \<Rightarrow> Some (ESP_ERR_NOT_FOUND, g, fl)
      | (Some p, g) \<Rightarrow>
          nvs_flash_init_custom crc tables junk part_name (paddress p div of_nat SPI_FLASH_SEC_SIZE)
            (psize p div of_nat SPI_FLASH_SEC_SIZE) g fl)"

definition nvs_flash_init ::
  "crc32_le \<Rightarrow> (nat \<Rightarrow> u32 list) \<Rightarrow> u8 \<Rightarrow> nvs \<Rightarrow> cchanflash \<Rightarrow> (esp_err_t \<times> nvs \<times> cchanflash) option" where
  "nvs_flash_init crc tables junk = nvs_flash_init_partition crc tables junk NVS_DEFAULT_PART_NAME"

definition nvs_flash_erase_partition :: "u8 list \<Rightarrow> nvs \<Rightarrow> cchanflash \<Rightarrow> (esp_err_t \<times> nvs \<times> cchanflash) option" where
  "nvs_flash_erase_partition part_name g fl =
     (case find_nvs_partition part_name g of
        (None, g) \<Rightarrow> Some (ESP_ERR_NOT_FOUND, g, fl)
      | (Some p, g) \<Rightarrow> do {
          (err, fl) \<leftarrow> esp_partition_erase_range (Some p) 0 (unat (psize p)) fl;
          Some (err, g, fl)
        })"

definition nvs_flash_erase :: "nvs \<Rightarrow> cchanflash \<Rightarrow> (esp_err_t \<times> nvs \<times> cchanflash) option" where
  "nvs_flash_erase = nvs_flash_erase_partition NVS_DEFAULT_PART_NAME"

text \<open>The handles of the store go with it.\<close>

definition nvs_flash_deinit_partition :: "u8 list \<Rightarrow> nvs \<Rightarrow> esp_err_t \<times> nvs" where
  "nvs_flash_deinit_partition partition_name g =
     (case lookup_storage_from_name partition_name g of
        None \<Rightarrow> (ESP_ERR_NVS_NOT_INITIALIZED, g)
      | Some (k, _) \<Rightarrow>
          (ESP_OK, g\<lparr>s_nvs_handles := filter (\<lambda>e. mStoragePtr e \<noteq> k) (s_nvs_handles g),
                     s_nvs_storage_list := filter (\<lambda>(j, _). j \<noteq> k) (s_nvs_storage_list g)\<rparr>))"

definition nvs_flash_deinit :: "nvs \<Rightarrow> esp_err_t \<times> nvs" where
  "nvs_flash_deinit = nvs_flash_deinit_partition NVS_DEFAULT_PART_NAME"

section \<open>Handles\<close>

definition nvs_find_ns_handle :: "u32 \<Rightarrow> nvs \<Rightarrow> handle_entry option" where
  "nvs_find_ns_handle h g = find (\<lambda>e. mHandle e = h) (s_nvs_handles g)"

definition nvs_open_from_partition ::
  "crc32_le \<Rightarrow> u8 list \<Rightarrow> u8 list \<Rightarrow> nvs_open_mode_t \<Rightarrow> nvs \<Rightarrow> cchanflash \<Rightarrow>
     (esp_err_t \<times> u32 option \<times> nvs \<times> cchanflash) option" where
  "nvs_open_from_partition crc part_name name open_mode g fl =
     (case lookup_storage_from_name part_name g of
        None \<Rightarrow> Some (ESP_ERR_NVS_PART_NOT_FOUND, None, g, fl)
      | Some (k, _) \<Rightarrow> do {
          (err, ns, g, fl) \<leftarrow> from_storage k (createOrOpenNamespace crc name (open_mode = NVS_READWRITE)) g fl;
          if err \<noteq> ESP_OK then Some (err, None, g, fl)
          else do {
            n \<leftarrow> ns;
            (let h = s_nvs_next_handle g + 1
             in Some (ESP_OK, Some h,
                  g\<lparr>s_nvs_next_handle := h,
                    s_nvs_handles := s_nvs_handles g @
                      [\<lparr>mHandle = h, mReadOnly = (open_mode = NVS_READONLY), mNsIndex = n, mStoragePtr = k\<rparr>]\<rparr>, fl))
          }
        })"

definition nvs_open ::
  "crc32_le \<Rightarrow> u8 list \<Rightarrow> nvs_open_mode_t \<Rightarrow> nvs \<Rightarrow> cchanflash \<Rightarrow> (esp_err_t \<times> u32 option \<times> nvs \<times> cchanflash) option"
where
  "nvs_open crc name open_mode g fl =
     (if s_nvs_storage_list g = [] then Some (ESP_ERR_NVS_NOT_INITIALIZED, None, g, fl)
      else nvs_open_from_partition crc NVS_DEFAULT_PART_NAME name open_mode g fl)"

text \<open>The first entry with the handle is removed.\<close>

definition nvs_close :: "u32 \<Rightarrow> nvs \<Rightarrow> nvs" where
  "nvs_close h g =
     (let before = takeWhile (\<lambda>e. mHandle e \<noteq> h) (s_nvs_handles g)
      in g\<lparr>s_nvs_handles := before @ drop (length before + 1) (s_nvs_handles g)\<rparr>)"

section \<open>Setting\<close>

definition nvs_erase_key :: "crc32_le \<Rightarrow> u32 \<Rightarrow> u8 list \<Rightarrow> nvs \<Rightarrow> cchanflash \<Rightarrow> (esp_err_t \<times> nvs \<times> cchanflash) option" where
  "nvs_erase_key crc h key g fl =
     (case nvs_find_ns_handle h g of
        None \<Rightarrow> Some (ESP_ERR_NVS_INVALID_HANDLE, g, fl)
      | Some e \<Rightarrow>
          if mReadOnly e then Some (ESP_ERR_NVS_READ_ONLY, g, fl)
          else on_storage (mStoragePtr e) (storage_eraseItem crc (mNsIndex e) TYPE_ANY key) g fl)"

definition nvs_erase_all :: "crc32_le \<Rightarrow> u32 \<Rightarrow> nvs \<Rightarrow> cchanflash \<Rightarrow> (esp_err_t \<times> nvs \<times> cchanflash) option" where
  "nvs_erase_all crc h g fl =
     (case nvs_find_ns_handle h g of
        None \<Rightarrow> Some (ESP_ERR_NVS_INVALID_HANDLE, g, fl)
      | Some e \<Rightarrow>
          if mReadOnly e then Some (ESP_ERR_NVS_READ_ONLY, g, fl)
          else on_storage (mStoragePtr e) (eraseNamespace crc (mNsIndex e)) g fl)"

text \<open>The template \<open>nvs_set\<close>: the type is that of the argument, the value its bytes in memory.\<close>

definition nvs_set ::
  "crc32_le \<Rightarrow> u8 \<Rightarrow> u32 \<Rightarrow> u8 list \<Rightarrow> u8 list \<Rightarrow> nvs \<Rightarrow> cchanflash \<Rightarrow> (esp_err_t \<times> nvs \<times> cchanflash) option" where
  "nvs_set crc ty h key val g fl =
     (case nvs_find_ns_handle h g of
        None \<Rightarrow> Some (ESP_ERR_NVS_INVALID_HANDLE, g, fl)
      | Some e \<Rightarrow>
          if mReadOnly e then Some (ESP_ERR_NVS_READ_ONLY, g, fl)
          else on_storage (mStoragePtr e) (storage_writeItem crc (mNsIndex e) ty key val (length val)) g fl)"

definition le64_bytes :: "u64 \<Rightarrow> u8 list" where
  "le64_bytes w = le32_bytes (ucast w) @ le32_bytes (ucast (drop_bit 32 w))"

definition nvs_set_i8 where "nvs_set_i8 crc h key (val :: u8) = nvs_set crc TYPE_I8 h key [val]"
definition nvs_set_u8 where "nvs_set_u8 crc h key (val :: u8) = nvs_set crc TYPE_U8 h key [val]"
definition nvs_set_i16 where "nvs_set_i16 crc h key (val :: u16) = nvs_set crc TYPE_I16 h key (le16_bytes val)"
definition nvs_set_u16 where "nvs_set_u16 crc h key (val :: u16) = nvs_set crc TYPE_U16 h key (le16_bytes val)"
definition nvs_set_i32 where "nvs_set_i32 crc h key (val :: u32) = nvs_set crc TYPE_I32 h key (le32_bytes val)"
definition nvs_set_u32 where "nvs_set_u32 crc h key (val :: u32) = nvs_set crc TYPE_U32 h key (le32_bytes val)"
definition nvs_set_i64 where "nvs_set_i64 crc h key (val :: u64) = nvs_set crc TYPE_I64 h key (le64_bytes val)"
definition nvs_set_u64 where "nvs_set_u64 crc h key (val :: u64) = nvs_set crc TYPE_U64 h key (le64_bytes val)"

definition nvs_commit :: "u32 \<Rightarrow> nvs \<Rightarrow> esp_err_t" where
  "nvs_commit h g = (if nvs_find_ns_handle h g = None then ESP_ERR_NVS_INVALID_HANDLE else ESP_OK)"

text \<open>These two do not look at \<open>mReadOnly\<close>.\<close>

definition nvs_set_str ::
  "crc32_le \<Rightarrow> u32 \<Rightarrow> u8 list \<Rightarrow> u8 list \<Rightarrow> nvs \<Rightarrow> cchanflash \<Rightarrow> (esp_err_t \<times> nvs \<times> cchanflash) option" where
  "nvs_set_str crc h key val g fl =
     (case nvs_find_ns_handle h g of
        None \<Rightarrow> Some (ESP_ERR_NVS_INVALID_HANDLE, g, fl)
      | Some e \<Rightarrow>
          on_storage (mStoragePtr e) (storage_writeItem crc (mNsIndex e) TYPE_SZ key (val @ [0]) (length val + 1)) g fl)"

definition nvs_set_blob ::
  "crc32_le \<Rightarrow> u32 \<Rightarrow> u8 list \<Rightarrow> u8 list \<Rightarrow> nat \<Rightarrow> nvs \<Rightarrow> cchanflash \<Rightarrow> (esp_err_t \<times> nvs \<times> cchanflash) option" where
  "nvs_set_blob crc h key val len g fl =
     (case nvs_find_ns_handle h g of
        None \<Rightarrow> Some (ESP_ERR_NVS_INVALID_HANDLE, g, fl)
      | Some e \<Rightarrow> on_storage (mStoragePtr e) (storage_writeItem crc (mNsIndex e) TYPE_BLOB key val len) g fl)"

section \<open>Getting\<close>

text \<open>The template \<open>nvs_get\<close>: \<open>out\<close> is the memory of the variable.\<close>

definition nvs_get ::
  "crc32_le \<Rightarrow> u8 \<Rightarrow> u32 \<Rightarrow> u8 list \<Rightarrow> u8 list \<Rightarrow> nvs \<Rightarrow> cchanflash \<Rightarrow>
     (esp_err_t \<times> u8 list \<times> nvs \<times> cchanflash) option" where
  "nvs_get crc ty h key out g fl =
     (case nvs_find_ns_handle h g of
        None \<Rightarrow> Some (ESP_ERR_NVS_INVALID_HANDLE, out, g, fl)
      | Some e \<Rightarrow> from_storage (mStoragePtr e) (storage_readItem crc (mNsIndex e) ty key out (length out)) g fl)"

definition nvs_get_i8 where "nvs_get_i8 crc h key (out :: u8) = nvs_get crc TYPE_I8 h key [out]"
definition nvs_get_u8 where "nvs_get_u8 crc h key (out :: u8) = nvs_get crc TYPE_U8 h key [out]"
definition nvs_get_i16 where "nvs_get_i16 crc h key (out :: u16) = nvs_get crc TYPE_I16 h key (le16_bytes out)"
definition nvs_get_u16 where "nvs_get_u16 crc h key (out :: u16) = nvs_get crc TYPE_U16 h key (le16_bytes out)"
definition nvs_get_i32 where "nvs_get_i32 crc h key (out :: u32) = nvs_get crc TYPE_I32 h key (le32_bytes out)"
definition nvs_get_u32 where "nvs_get_u32 crc h key (out :: u32) = nvs_get crc TYPE_U32 h key (le32_bytes out)"
definition nvs_get_i64 where "nvs_get_i64 crc h key (out :: u64) = nvs_get crc TYPE_I64 h key (le64_bytes out)"
definition nvs_get_u64 where "nvs_get_u64 crc h key (out :: u64) = nvs_get crc TYPE_U64 h key (le64_bytes out)"

text \<open>The pointers \<open>out_value\<close> and \<open>length\<close> may be null; what they point to is returned with the error.\<close>

definition nvs_get_str_or_blob ::
  "crc32_le \<Rightarrow> u32 \<Rightarrow> u8 \<Rightarrow> u8 list \<Rightarrow> u8 list option \<Rightarrow> nat option \<Rightarrow> nvs \<Rightarrow> cchanflash \<Rightarrow>
     (esp_err_t \<times> (u8 list option \<times> nat option) \<times> nvs \<times> cchanflash) option" where
  "nvs_get_str_or_blob crc h ty key out_value len g fl =
     (case nvs_find_ns_handle h g of
        None \<Rightarrow> Some (ESP_ERR_NVS_INVALID_HANDLE, (out_value, len), g, fl)
      | Some e \<Rightarrow> do {
          (err, size, g, fl) \<leftarrow> from_storage (mStoragePtr e) (getItemDataSize crc (mNsIndex e) ty key) g fl;
          if err \<noteq> ESP_OK then Some (err, (out_value, len), g, fl)
          else do {
            dataSize \<leftarrow> size;
            (case (len, out_value) of
               (None, _) \<Rightarrow> Some (ESP_ERR_NVS_INVALID_LENGTH, (out_value, len), g, fl)
             | (Some _, None) \<Rightarrow> Some (ESP_OK, (None, Some dataSize), g, fl)
             | (Some l, Some out) \<Rightarrow>
                 if l < dataSize then Some (ESP_ERR_NVS_INVALID_LENGTH, (Some out, Some dataSize), g, fl)
                 else do {
                   (err, out, g, fl) \<leftarrow> from_storage (mStoragePtr e) (storage_readItem crc (mNsIndex e) ty key out dataSize) g fl;
                   Some (err, (Some out, Some dataSize), g, fl)
                 })
          }
        })"

definition nvs_get_str where "nvs_get_str crc h key = nvs_get_str_or_blob crc h TYPE_SZ key"
definition nvs_get_blob where "nvs_get_blob crc h key = nvs_get_str_or_blob crc h TYPE_BLOB key"

section \<open>Statistics\<close>

text \<open>The memory of the statistics is an output, \<open>None\<close> for a null pointer.\<close>

definition nvs_get_stats ::
  "cstr \<Rightarrow> nvs_stats_t option \<Rightarrow> nvs \<Rightarrow> (esp_err_t \<times> nvs_stats_t option) option" where
  "nvs_get_stats part_name st g =
     (case st of
        None \<Rightarrow> Some (ESP_ERR_INVALID_ARG, None)
      | Some _ \<Rightarrow>
          let zero = \<lparr>used_entries = 0, free_entries = 0, total_entries = 0, namespace_count = 0\<rparr>
          in case lookup_storage_from_name (case part_name of None \<Rightarrow> NVS_DEFAULT_PART_NAME | Some n \<Rightarrow> n) g of
               None \<Rightarrow> Some (ESP_ERR_NVS_NOT_INITIALIZED, Some zero)
             | Some (_, s) \<Rightarrow>
                 if mStorageState s \<noteq> STORAGE_ACTIVE then Some (ESP_ERR_NVS_INVALID_STATE, Some zero)
                 else map_option (\<lambda>(err, st). (err, Some st)) (storage_fillStats s zero))"

definition nvs_get_used_entry_count ::
  "crc32_le \<Rightarrow> u32 \<Rightarrow> nvs \<Rightarrow> cchanflash \<Rightarrow> (esp_err_t \<times> nat \<times> nvs \<times> cchanflash) option" where
  "nvs_get_used_entry_count crc h g fl =
     (case nvs_find_ns_handle h g of
        None \<Rightarrow> Some (ESP_ERR_NVS_INVALID_HANDLE, 0, g, fl)
      | Some e \<Rightarrow> do {
          (err, n, g, fl) \<leftarrow> from_storage (mStoragePtr e) (calcEntriesInNamespace crc (mNsIndex e)) g fl;
          Some (err, if err = ESP_OK then n else 0, g, fl)
        })"

section \<open>Iterators\<close>

text \<open>An iterator that finds nothing more is released, and the null pointer \<open>None\<close> is returned.\<close>

definition from_iterator ::
  "nat \<Rightarrow> (storage \<Rightarrow> cchanflash \<Rightarrow> (bool \<times> nvs_opaque_iterator_t \<times> storage \<times> cchanflash) option) \<Rightarrow> nvs \<Rightarrow> cchanflash \<Rightarrow>
     (nvs_opaque_iterator_t option \<times> nvs \<times> cchanflash) option" where
  "from_iterator k f g fl = do {
     s \<leftarrow> map_of (s_nvs_storage_list g) k;
     (found, it, s, fl) \<leftarrow> f s fl;
     Some (if found then Some it else None, put_storage k s g, fl)
   }"

text \<open>\<open>calloc\<close> makes every member zero.\<close>

definition create_iterator :: "nat \<Rightarrow> u8 \<Rightarrow> nvs_opaque_iterator_t" where
  "create_iterator k ty = \<lparr>iter_type = ty, iter_ns = 0, iter_index = 0, iter_storage = k, iter_page = None,
     iter_info = \<lparr>info_namespace = replicate 16 0, info_key = replicate 16 0, info_type = 0\<rparr>\<rparr>"

definition nvs_entry_find ::
  "crc32_le \<Rightarrow> u8 list \<Rightarrow> cstr \<Rightarrow> u8 \<Rightarrow> nvs \<Rightarrow> cchanflash \<Rightarrow> (nvs_opaque_iterator_t option \<times> nvs \<times> cchanflash) option"
where
  "nvs_entry_find crc part_name namespace_name ty g fl =
     (case lookup_storage_from_name part_name g of
        None \<Rightarrow> Some (None, g, fl)
      | Some (k, _) \<Rightarrow> from_iterator k (findEntry crc (create_iterator k ty) namespace_name) g fl)"

definition nvs_entry_next ::
  "crc32_le \<Rightarrow> nvs_opaque_iterator_t option \<Rightarrow> nvs \<Rightarrow> cchanflash \<Rightarrow> (nvs_opaque_iterator_t option \<times> nvs \<times> cchanflash) option"
where
  "nvs_entry_next crc it g fl =
     (case it of None \<Rightarrow> None | Some it \<Rightarrow> from_iterator (iter_storage it) (nextEntry crc it) g fl)"

definition nvs_entry_info :: "nvs_opaque_iterator_t \<Rightarrow> nvs_entry_info_t" where
  "nvs_entry_info it = iter_info it"

end
