(* ===== verification/Nvs_Manager_Laws.thy ===== *)
theory Nvs_Manager_Laws
  imports "HOL-Library.Multiset" Nvs_Page_Items Nvs_Manager
begin

text \<open>
  The page manager: pages do not disturb each other, copying a page keeps its items with their values, and the
  manager's lists, pages and flash stay consistent.
\<close>

section \<open>Pages do not disturb each other\<close>

lemma elsewhere_sector:
  assumes "elsewhere j fl fl'" "j \<noteq> k" "sector_ok k fl" "flash_ok fl'"
  shows "sector_ok k fl'" "m < 1024 \<Longrightarrow> sector_word k fl' m = sector_word k fl m"
    "m < 1024 \<Longrightarrow> filled k fl' m = filled k fl m"
proof -
  have at: "flash_word fl' a = flash_word fl a" "stored fl' a = stored fl a" if "a div 4096 = k" for a
    using assms(1-3) that by (auto simp: elsewhere_def sector_ok_def)
  show "sector_ok k fl'" using assms(1,3,4) at(1) by (auto simp: sector_ok_def elsewhere_def)
  have d: "(4096 * k + 4 * m) div 4096 = k" if "m < 1024" for m by (rule quotient_eqI) (use that in linarith)+
  show "m < 1024 \<Longrightarrow> sector_word k fl' m = sector_word k fl m" by (simp add: sector_word_def at(1) d)
  show "m < 1024 \<Longrightarrow> filled k fl' m = filled k fl m" by (simp add: filled_def at(2) d)
qed

lemma elsewhere_entries:
  assumes "elsewhere j fl fl'" "j \<noteq> k" "sector_ok k fl" "flash_ok fl'"
  shows "i < ENTRY_COUNT \<Longrightarrow> entry_item k fl' i = entry_item k fl i"
    and "n \<le> ENTRY_COUNT \<Longrightarrow> packed k fl' n = packed k fl n"
proof -
  show "i < ENTRY_COUNT \<Longrightarrow> entry_item k fl' i = entry_item k fl i"
    unfolding entry_item_def
    by (rule sector_bytes_cong) (auto simp: ENTRY_COUNT_def intro!: elsewhere_sector(2) [OF assms])
  show "n \<le> ENTRY_COUNT \<Longrightarrow> packed k fl' n = packed k fl n"
    unfolding packed_def using elsewhere_sector(3) [OF assms] by (simp add: ENTRY_COUNT_def)
qed

lemma items_in_page:
  assumes "page_ok crc k p fl"
  shows "(i, it) \<in> set (items k p fl) \<Longrightarrow> 0 < span_nat it \<and> i + span_nat it \<le> mNextFreeEntry p \<and> mNextFreeEntry p \<le> ENTRY_COUNT"
    and "(x, h) \<in> set (live_nodes (mHashList p)) \<Longrightarrow> unat x < ENTRY_COUNT"
proof -
  have sp: "spaced 0 (items k p fl) (mNextFreeEntry p)" "mNextFreeEntry p \<le> ENTRY_COUNT" using assms by (simp_all add: page_ok_def)
  show *: "(i, it) \<in> set (items k p fl) \<Longrightarrow> 0 < span_nat it \<and> i + span_nat it \<le> mNextFreeEntry p \<and> mNextFreeEntry p \<le> ENTRY_COUNT" for i it
    using spaced_bounds [OF sp(1)] sp(2) by blast
  show "(x, h) \<in> set (live_nodes (mHashList p)) \<Longrightarrow> unat x < ENTRY_COUNT"
    using * [of "unat x" "entry_item k fl (unat x)"] by (force simp: items_def)
qed

lemma contents_same: "same_contents fl fl' \<Longrightarrow> contents k p fl' = contents k p fl"
  using items_same [of fl fl' k p] same_contents_entries(1) [of fl fl' k] by (simp add: contents_def item_value_def)

lemma page_elsewhere:
  assumes ok: "page_ok crc k p fl" and out: "elsewhere j fl fl'" "j \<noteq> k" "flash_ok fl'"
  shows "page_ok crc k p fl'" "items k p fl' = items k p fl" "contents k p fl' = contents k p fl"
proof -
  have sec: "sector_ok k fl" using ok by (simp add: page_ok_def)
  note e = elsewhere_entries [OF out(1,2) sec out(3)]
  note b = items_in_page [OF ok]
  have same: "entry_item k fl' (unat x) = entry_item k fl (unat x)" if "(x, h) \<in> set (live_nodes (mHashList p))" for x h
    using e(1) b(2) [OF that] by simp
  show its: "items k p fl' = items k p fl" using same by (auto simp: items_def)
  have "item_value k fl' i it = item_value k fl i it" if "(i, it) \<in> set (items k p fl)" for i it
    by (rule item_value_cong [OF e(1)]) (use b(1) [OF that] in auto)
  then show "contents k p fl' = contents k p fl" unfolding contents_def its by auto
  show "page_ok crc k p fl'"
    using ok elsewhere_sector(1) [OF out(1,2) sec out(3)] e(2) same unfolding page_ok_def its by fastforce
qed

lemma new_elsewhere:
  "new_in k p fl \<Longrightarrow> elsewhere j fl fl' \<Longrightarrow> j \<noteq> k \<Longrightarrow> flash_ok fl' \<Longrightarrow> new_in k p fl'"
  using elsewhere_sector(1) by (auto simp: new_in_def)

section \<open>Copying the items of a page to another\<close>

lemma wrote_same:
  assumes "same_contents fl fl1" "wrote k bs p fl1 p' fl'"
  shows "wrote k bs p fl p' fl'"
proof -
  have "sector_word k fl1 = sector_word k fl"
    using assms(1) by (simp add: same_contents_def sector_word_def [abs_def])
  then have "entries_put k i bs fl fl'" if "entries_put k i bs fl1 fl'" for i
    using that same_contents_entries(1) [OF assms(1), of k] elsewhere_trans [OF same_contents_elsewhere [OF assms(1)]]
    by (auto simp: entries_put_def)
  then show ?thesis using assms(2) by (auto simp: wrote_def)
qed

lemma wrote_flash_ok: "wrote k bs p fl p' fl' \<Longrightarrow> flash_ok fl'"
  by (auto simp: wrote_def entries_put_def sector_ok_def)

lemma copy_span_law:
  assumes "j \<noteq> k" "sector_ok k fl" "page_in k p" "a + m \<le> ENTRY_COUNT"
    and "sector_ok j fl" "page_in j q" "packed j fl (mNextFreeEntry q)" "mFirstUsedEntry q \<noteq> INVALID_ENTRY"
    and "mNextFreeEntry q + m \<le> ENTRY_COUNT"
  shows "\<exists>q' fl'. copy_span [a..<a + m] p q fl = Some (ESP_OK, q', fl') \<and>
    wrote j (concat (map (entry_item k fl) [a..<a + m])) q fl q' fl'"
  using assms
proof (induction m arbitrary: a q fl)
  case 0
  then show ?case using wrote_nothing [of j fl q] by auto
next
  case (Suc m)
  let ?e = "entry_item k fl a"
  have upt: "[a..<a + Suc m] = a # [Suc a..<Suc a + m]" by (simp add: upt_conv_Cons del: upt_Suc)
  obtain fl1 where rd: "readEntry a p fl = Some (ESP_OK, ?e, fl1)" "same_contents fl fl1"
    using readEntry_law [OF Suc.prems(2,3), of a] Suc.prems(4) by auto
  note same = same_contents_sector(1) [OF rd(2)] same_contents_entries [OF rd(2)]
  obtain q1 fl2 where wr: "writeEntry ?e q fl1 = Some (ESP_OK, q1, fl2)" "wrote j ?e q fl1 q1 fl2"
    using writeEntry_wrote [OF same(1) [OF Suc.prems(5)] Suc.prems(6), of ?e] Suc.prems(7,9) same(3) by auto
  note w = wrote_same [OF rd(2) wr(2)]
  note q1 = wrote_packed [OF w Suc.prems(6)]
  have next1: "mNextFreeEntry q1 = mNextFreeEntry q + 1" using q1(5) by simp
  have valid: "mNextFreeEntry q \<noteq> INVALID_ENTRY" using Suc.prems(9) by (auto simp: INVALID_ENTRY_def ENTRY_COUNT_def)
  note out = q1(4) Suc.prems(1,2) wrote_flash_ok [OF w]
  have entries: "map (entry_item k fl2) [Suc a..<Suc a + m] = map (entry_item k fl) [Suc a..<Suc a + m]"
    using Suc.prems(4) by (intro map_cong) (auto intro!: elsewhere_entries(1) [OF out])
  have "mFirstUsedEntry q1 \<noteq> INVALID_ENTRY" using q1(6) valid by blast
  from Suc.IH [OF Suc.prems(1) elsewhere_sector(1) [OF out] Suc.prems(3) _ q1(1,2,3) this, of "Suc a"] Suc.prems(4,9) next1
  obtain q2 fl3 where go: "copy_span [Suc a..<Suc a + m] p q1 fl2 = Some (ESP_OK, q2, fl3)"
    "wrote j (concat (map (entry_item k fl) [Suc a..<Suc a + m])) q1 fl2 q2 fl3"
    unfolding entries by auto
  have "length (concat (map (entry_item k fl) [Suc a..<Suc a + m])) = 32 * m"
    by (simp add: length_concat o_def sum_list_triv del: upt_Suc)
  then have "wrote j (?e @ concat (map (entry_item k fl) [Suc a..<Suc a + m])) q fl q2 fl3"
    by (intro wrote_trans [OF w go(2) valid]) (use Suc.prems(9) in simp)
  then show ?case using rd(1) wr(1) go(1) unfolding upt by simp
qed

text \<open>One item\<close>

lemma copy_item_law:
  assumes "j \<noteq> k" and ok: "page_ok crc k p fl" and it: "(i, it) \<in> set (items k p fl)"
    and okq: "page_ok crc j q fl" and room: "mNextFreeEntry q + span_nat it \<le> ENTRY_COUNT"
  shows "\<exists>q1 fl1 q' fl'. writeEntry it (q\<lparr>mHashList := hash_insert crc it (mNextFreeEntry q) (mHashList q)\<rparr>) fl = Some (ESP_OK, q1, fl1) \<and>
    copy_span [i + 1..<i + span_nat it] p q1 fl1 = Some (ESP_OK, q', fl') \<and> page_ok crc j q' fl' \<and>
    contents j q' fl' = contents j q fl @ [(it, item_value k fl i it)] \<and> elsewhere j fl fl' \<and>
    mState q' = mState q \<and> mSeqNumber q' = mSeqNumber q \<and> mNextFreeEntry q' = mNextFreeEntry q + span_nat it"
proof -
  let ?q = "q\<lparr>mHashList := hash_insert crc it (mNextFreeEntry q) (mHashList q)\<rparr>" and ?n = "mNextFreeEntry q"
  have b: "0 < span_nat it" "i + span_nat it \<le> ENTRY_COUNT" using items_in_page(1) [OF ok it] by auto
  then obtain m where m: "span_nat it = 1 + m" by (metis Suc_eq_plus1_left gr0_implies_Suc)
  have len: "length it = 32" "item_ok crc it" using item_entry [OF it] ok it by (auto simp: page_ok_def)
  have sec: "sector_ok j fl" "page_in j ?q" "packed j fl (mNextFreeEntry ?q)" using okq by (simp_all add: page_ok_def page_in_def)
  have seck: "sector_ok k fl" "page_in k p" using ok by (simp_all add: page_ok_def)
  have n: "?n < ENTRY_COUNT" "?n \<noteq> INVALID_ENTRY" using room b(1) by (auto simp: INVALID_ENTRY_def ENTRY_COUNT_def)
  obtain q1 fl1 where w1: "writeEntry it ?q fl = Some (ESP_OK, q1, fl1)" "wrote j it ?q fl q1 fl1"
    using writeEntry_wrote [OF sec(1,2) _ sec(3) len(1)] n(1) by auto
  note p1 = wrote_packed [OF w1(2) sec(2)]
  note out = p1(4) assms(1) seck(1) wrote_flash_ok [OF w1(2)]
  have "mFirstUsedEntry q1 \<noteq> INVALID_ENTRY" using p1(6) n(2) by simp
  moreover have "mNextFreeEntry q1 + m \<le> ENTRY_COUNT" "i + 1 + m \<le> ENTRY_COUNT" using p1(5) len(1) room b(2) m by simp_all
  ultimately obtain q' fl' where go: "copy_span [i + 1..<i + 1 + m] p q1 fl1 = Some (ESP_OK, q', fl')"
    "wrote j (concat (map (entry_item k fl1) [i + 1..<i + 1 + m])) q1 fl1 q' fl'"
    using copy_span_law [OF assms(1) elsewhere_sector(1) [OF out] seck(2) _ p1(1,2,3)] by blast
  let ?bs = "it @ concat (map (entry_item k fl) [i + 1..<i + 1 + m])"
  have same: "map (entry_item k fl1) [i + 1..<i + 1 + m] = map (entry_item k fl) [i + 1..<i + 1 + m]"
    using b(2) m by (intro map_cong) (auto intro!: elsewhere_entries(1) [OF out])
  have lens: "length (concat (map (entry_item k fl) [i + 1..<i + 1 + m])) = 32 * m"
    by (simp add: length_concat o_def sum_list_triv del: upt_Suc)
  have w: "wrote j ?bs ?q fl q' fl'"
    by (rule wrote_trans [OF w1(2) go(2) [unfolded same]]) (use n(2) room m len(1) lens in simp_all)
  have bs: "length ?bs = 32 * span_nat it" "it = take 32 ?bs" using lens len(1) m by simp_all
  note new = append_item [OF okq room bs(1) w bs(2) len(2) refl refl]
  have "take (unat (var_dataSize it)) (drop 32 ?bs) = item_value k fl i it"
    using len(1) m by (simp add: item_value_def del: upt_Suc)
  then show ?thesis using w1(1) go(1) new m by (intro exI [of _ q1] exI [of _ fl1] exI [of _ q'] exI [of _ fl']) simp
qed

text \<open>All items from an entry on\<close>

lemma item_value_elsewhere:
  assumes "page_ok crc k p fl" "elsewhere j fl fl'" "j \<noteq> k" "flash_ok fl'" "(i, it) \<in> set (items k p fl)"
  shows "item_value k fl' i it = item_value k fl i it"
proof (rule item_value_cong)
  have "sector_ok k fl" using assms(1) by (simp add: page_ok_def)
  then show "n < ENTRY_COUNT \<Longrightarrow> entry_item k fl' n = entry_item k fl n" for n
    using elsewhere_entries(1) [OF assms(2,3) _ assms(4)] by blast
  show "i + span_nat it \<le> ENTRY_COUNT" using items_in_page(1) [OF assms(1,5)] by auto
qed

definition span_sum :: "(nat \<times> Item) list \<Rightarrow> nat" where
  "span_sum xs = sum_list (map (\<lambda>(_, it). span_nat it) xs)"

lemma span_sum_simps [simp]: "span_sum [] = 0" "span_sum ((i, it) # xs) = span_nat it + span_sum xs"
  by (simp_all add: span_sum_def)

lemma spaced_sum: "spaced lo xs hi \<Longrightarrow> lo + span_sum xs \<le> hi"
proof (induction xs arbitrary: lo)
  case (Cons x xs)
  then show ?case by (cases x) fastforce
qed simp

lemma entry_known:
  assumes "page_ok crc k p fl" "i < ENTRY_COUNT"
  obtains st where "entry_get (mEntryTable p) i = Some st" "st = WRITTEN \<longleftrightarrow> covered (items k p fl) i"
proof -
  have "length (mEntryTable p) = 8" using assms(1) by (simp add: page_ok_def page_in_def)
  then obtain st where st: "entry_get (mEntryTable p) i = Some st" using entries.get_some assms(2) by blast
  moreover have "entry_get (mEntryTable p) i = Some WRITTEN \<longleftrightarrow> covered (items k p fl) i"
    using assms unfolding page_ok_def by blast
  ultimately show thesis using that by simp
qed

lemma first_is_covered:
  assumes "page_ok crc k p fl" "i = mFirstUsedEntry p" "i < ENTRY_COUNT"
  shows "covered (items k p fl) i"
proof (cases "items k p fl")
  case Nil
  then show ?thesis using assms by (simp add: page_ok_def INVALID_ENTRY_def ENTRY_COUNT_def)
next
  case (Cons x xs)
  obtain j it where x: "x = (j, it)" by force
  have "j = i" using assms(1,2) Cons x by (simp add: page_ok_def)
  moreover have "0 < span_nat it" using items_in_page(1) [OF assms(1), of j it] Cons x by simp
  ultimately show ?thesis by (auto simp: covered_def Cons x)
qed

definition copied_values :: "nat \<Rightarrow> cchanflash \<Rightarrow> (nat \<times> Item) list \<Rightarrow> (Item \<times> u8 list) list" where
  "copied_values k fl xs = map (\<lambda>(i, it). (it, item_value k fl i it)) xs"

lemma copy_loop_law:
  assumes "j \<noteq> k" "page_ok crc k p fl" "page_ok crc j q fl"
    and "\<forall>(n, it) \<in> set (items k p fl). n < i \<longrightarrow> n + span_nat it \<le> i"
    and "mNextFreeEntry q + span_sum (filter (\<lambda>(n, _). i \<le> n) (items k p fl)) \<le> ENTRY_COUNT"
  shows "\<exists>q' fl'. copy_loop crc i p q fl = Some (ESP_OK, q', fl') \<and> page_ok crc j q' fl' \<and> elsewhere j fl fl' \<and>
    contents j q' fl' = contents j q fl @ copied_values k fl (filter (\<lambda>(n, _). i \<le> n) (items k p fl)) \<and>
    mState q' = mState q \<and> mSeqNumber q' = mSeqNumber q \<and>
    mNextFreeEntry q' = mNextFreeEntry q + span_sum (filter (\<lambda>(n, _). i \<le> n) (items k p fl))"
  using assms
proof (induction "ENTRY_COUNT - i" arbitrary: i q fl rule: less_induct)
  case less
  let ?xs = "items k p fl"
  have sp: "spaced 0 ?xs (mNextFreeEntry p)" and sec: "sector_ok k fl" "page_in k p"
    using less.prems(2) by (simp_all add: page_ok_def)
  show ?case
  proof (cases "i < ENTRY_COUNT")
    case False
    have "filter (\<lambda>(n, _). i \<le> n) ?xs = []"
      using items_in_page(1) [OF less.prems(2)] False by (fastforce simp: filter_empty_conv)
    then show ?thesis using False less.prems(3) by (simp add: copy_loop.simps copied_values_def)
  next
    case i: True
    obtain st where st: "entry_get (mEntryTable p) i = Some st" "st = WRITTEN \<longleftrightarrow> covered ?xs i"
      by (rule entry_known [OF less.prems(2) i])
    show ?thesis
    proof (cases "st = WRITTEN")
      case False
      then have nc: "\<not> covered ?xs i" using st(2) by simp
      then have no: "n \<noteq> i" "n < Suc i \<Longrightarrow> n + span_nat it \<le> Suc i" if "(n, it) \<in> set ?xs" for n it
        using that less.prems(4) spaced_bounds [OF sp that] by (force simp: covered_def)+
      have later: "filter (\<lambda>(n, _). i \<le> n) ?xs = filter (\<lambda>(n, _). i + 1 \<le> n) ?xs"
        using no(1) by (intro filter_cong) (auto simp: Suc_le_eq le_less)
      have "i \<noteq> mFirstUsedEntry p" using first_is_covered [OF less.prems(2) _ i] nc by blast
      then have "copy_loop crc i p q fl = copy_loop crc (i + 1) p q fl"
        using i st(1) False by (subst copy_loop.simps) simp
      then show ?thesis
        using less.hyps [of "i + 1" fl q] less.prems i no(2) unfolding later by fastforce
    next
      case written: True
      then obtain it where it: "(i, it) \<in> set ?xs" using st(2) less.prems(4) by (fastforce simp: covered_def)
      let ?next = "i + span_nat it"
      have from_i: "filter (\<lambda>(n, _). i \<le> n) ?xs = (i, it) # filter (\<lambda>(n, _). ?next \<le> n) ?xs" by (rule spaced_from [OF sp it])
      have b: "0 < span_nat it" "?next \<le> ENTRY_COUNT" using items_in_page(1) [OF less.prems(2) it] by auto
      obtain fl1 where rd: "readEntry i p fl = Some (ESP_OK, it, fl1)" "same_contents fl fl1"
        using readEntry_law [OF sec i] item_entry [OF it] by auto
      have it1: "(i, it) \<in> set (items k p fl1)" using it items_same [OF rd(2)] by simp
      note ok1 = page_ok_same [OF rd(2) less.prems(2)] page_ok_same [OF rd(2) less.prems(3)]
      have "mNextFreeEntry q + span_nat it \<le> ENTRY_COUNT" using less.prems(5) unfolding from_i by simp
      from copy_item_law [OF less.prems(1) ok1(1) it1 ok1(2) this] obtain q1 fl2 q2 fl3
        where w: "writeEntry it (q\<lparr>mHashList := hash_insert crc it (mNextFreeEntry q) (mHashList q)\<rparr>) fl1 = Some (ESP_OK, q1, fl2)"
          "copy_span [i + 1..<?next] p q1 fl2 = Some (ESP_OK, q2, fl3)" "page_ok crc j q2 fl3"
          "contents j q2 fl3 = contents j q fl1 @ [(it, item_value k fl1 i it)]" "elsewhere j fl1 fl3"
          "mState q2 = mState q" "mSeqNumber q2 = mSeqNumber q" "mNextFreeEntry q2 = mNextFreeEntry q + span_nat it" by blast
      have out: "elsewhere j fl fl3" by (rule elsewhere_trans [OF same_contents_elsewhere [OF rd(2)] w(5)])
      have fok: "flash_ok fl3" using w(3) by (simp add: page_ok_def sector_ok_def)
      note here = page_elsewhere [OF less.prems(2) out less.prems(1) fok]
      have vals: "copied_values k fl3 (filter P ?xs) = copied_values k fl (filter P ?xs)" for P
        using item_value_elsewhere [OF less.prems(2) out less.prems(1) fok] by (auto simp: copied_values_def)
      have "\<forall>(n, a) \<in> set ?xs. n < ?next \<longrightarrow> n + span_nat a \<le> ?next"
        using less.prems(4) spaced_order [OF sp _ it] spaced_order [OF sp it] by (fastforce simp: not_less)
      moreover have "ENTRY_COUNT - ?next < ENTRY_COUNT - i" using i b by simp
      moreover have "mNextFreeEntry q2 + span_sum (filter (\<lambda>(n, _). ?next \<le> n) ?xs) \<le> ENTRY_COUNT"
        using less.prems(5) w(8) unfolding from_i by simp
      ultimately obtain q3 fl4 where go: "copy_loop crc ?next p q2 fl3 = Some (ESP_OK, q3, fl4)" "page_ok crc j q3 fl4"
        "elsewhere j fl3 fl4" "contents j q3 fl4 = contents j q2 fl3 @ copied_values k fl (filter (\<lambda>(n, _). ?next \<le> n) ?xs)"
        "mState q3 = mState q2" "mSeqNumber q3 = mSeqNumber q2"
        "mNextFreeEntry q3 = mNextFreeEntry q2 + span_sum (filter (\<lambda>(n, _). ?next \<le> n) ?xs)"
        using less.hyps [of ?next fl3 q2] less.prems(1) here(1) w(3) unfolding here(2) vals by blast
      have "copy_loop crc i p q fl = copy_loop crc ?next p q2 fl3"
        using i st(1) written rd(1) w(1,2) b by (subst copy_loop.simps) (simp del: upt_Suc)
      moreover have "item_value k fl1 i it = item_value k fl i it"
        using same_contents_entries(1) [OF rd(2), of k] by (simp add: item_value_def)
      ultimately show ?thesis
        using go w(4,6-8) elsewhere_trans [OF out go(3)] contents_same [OF rd(2), of j q]
        unfolding from_i by (simp add: copied_values_def)
    qed
  qed
qed

lemma contents_items: "contents k p fl = copied_values k fl (items k p fl)"
  by (simp add: contents_def copied_values_def)

lemma map_fst_contents: "map fst (contents k p fl) = map snd (items k p fl)"
  by (auto simp: contents_def)

lemma used_of_contents:
  assumes "page_ok crc k p fl"
  shows "mUsedEntryCount p = of_nat (sum_list (map (\<lambda>it. span_nat it) (map fst (contents k p fl))))"
proof -
  have "map (\<lambda>(_, it). span_nat it) (items k p fl) = map (\<lambda>it. span_nat it) (map snd (items k p fl))" by auto
  then show ?thesis using assms unfolding map_fst_contents page_ok_def by presburger
qed

lemma used_count:
  assumes "page_ok crc k p fl"
  shows "unat (mUsedEntryCount p) = span_sum (items k p fl)" and "span_sum (items k p fl) \<le> mNextFreeEntry p"
    and "mNextFreeEntry p \<le> ENTRY_COUNT"
proof -
  have "spaced 0 (items k p fl) (mNextFreeEntry p)" "mNextFreeEntry p \<le> ENTRY_COUNT" using assms by (simp_all add: page_ok_def)
  then show le: "span_sum (items k p fl) \<le> mNextFreeEntry p" "mNextFreeEntry p \<le> ENTRY_COUNT" using spaced_sum by fastforce+
  have "mUsedEntryCount p = of_nat (span_sum (items k p fl))" using assms by (simp add: page_ok_def span_sum_def)
  moreover have "span_sum (items k p fl) < 2 ^ 16" using le by (simp add: ENTRY_COUNT_def)
  ultimately show "unat (mUsedEntryCount p) = span_sum (items k p fl)" by (simp add: unat_of_nat)
qed

text \<open>A page with items, copied to a new one\<close>

lemma new_in_use: "new_in k p fl \<Longrightarrow> contents k p fl = [] \<and> items k p fl = []"
  by (simp add: contents_def items_def live_nodes_def new_in_def)

lemma copyItems_law:
  assumes "j \<noteq> k" and ok: "page_ok crc k p fl" and new: "new_in j q fl"
  shows "if items k p fl = [] then copyItems crc p q fl = Some (ESP_ERR_NVS_NOT_FOUND, q, fl)
    else \<exists>q' fl'. copyItems crc p q fl = Some (ESP_OK, q', fl') \<and> page_ok crc j q' fl' \<and> elsewhere j fl fl' \<and>
      contents j q' fl' = contents k p fl \<and> mState q' = ACTIVE \<and> mUsedEntryCount q' = mUsedEntryCount p \<and>
      mNextFreeEntry q' = span_sum (items k p fl)"
proof (cases "items k p fl")
  case Nil
  then show ?thesis using ok by (simp add: copyItems_def page_ok_def)
next
  case (Cons x xs)
  obtain i it where x: "x = (i, it)" by force
  have sp: "spaced 0 (items k p fl) (mNextFreeEntry p)" using ok by (simp add: page_ok_def)
  have first: "mFirstUsedEntry p = i" "i \<noteq> INVALID_ENTRY"
    using ok items_in_page(1) [OF ok, of i it] Cons x by (auto simp: page_ok_def INVALID_ENTRY_def ENTRY_COUNT_def)
  obtain fl1 where init: "initialize crc q fl = Some (ESP_OK,
      q\<lparr>mState := ACTIVE, mNextFreeEntry := 0, mEntryTable := replicate 8 0xffffffff\<rparr>, fl1)"
    "page_ok crc j (q\<lparr>mState := ACTIVE, mNextFreeEntry := 0, mEntryTable := replicate 8 0xffffffff\<rparr>) fl1"
    "items j (q\<lparr>mState := ACTIVE, mNextFreeEntry := 0, mEntryTable := replicate 8 0xffffffff\<rparr>) fl1 = []"
    "elsewhere j fl fl1"
    using initialize_law [OF new, of crc] by blast
  let ?q = "q\<lparr>mState := ACTIVE, mNextFreeEntry := 0, mEntryTable := replicate 8 0xffffffff\<rparr>"
  have fok: "flash_ok fl1" using init(2) by (simp add: page_ok_def sector_ok_def)
  note here = page_elsewhere [OF ok init(4) assms(1) fok]
  have "spaced (i + span_nat it) xs (mNextFreeEntry p)" using sp Cons by (simp add: x)
  then have all: "filter (\<lambda>(n, _). i \<le> n) (items k p fl) = items k p fl"
    using spaced_bounds by (fastforce simp: Cons x filter_id_conv)
  have "\<forall>(n, a) \<in> set (items k p fl1). n < i \<longrightarrow> n + span_nat a \<le> i"
    using head_between [OF ok, of i it] Cons x unfolding here(2) by simp
  moreover have "mNextFreeEntry ?q + span_sum (filter (\<lambda>(n, _). i \<le> n) (items k p fl1)) \<le> ENTRY_COUNT"
    using used_count(2,3) [OF ok] unfolding here(2) all by simp
  ultimately obtain q' fl' where go: "copy_loop crc i p ?q fl1 = Some (ESP_OK, q', fl')" "page_ok crc j q' fl'"
    "elsewhere j fl1 fl'" "contents j q' fl' = contents j ?q fl1 @ copied_values k fl1 (items k p fl)"
    "mState q' = mState ?q" "mNextFreeEntry q' = mNextFreeEntry ?q + span_sum (items k p fl)"
    using copy_loop_law [OF assms(1) here(1) init(2), of i] unfolding here(2) all by blast
  have "contents j ?q fl1 = []" using init(3) by (simp add: contents_def)
  then have c: "contents j q' fl' = contents k p fl" using go(4) here(3) unfolding contents_items here(2) by simp
  have "mUsedEntryCount q' = mUsedEntryCount p" using used_of_contents [OF go(2)] used_of_contents [OF ok] unfolding c by simp
  moreover have "copyItems crc p q fl = Some (ESP_OK, q', fl')"
    using first go(1) init(1) new by (simp add: copyItems_def new_in_def)
  ultimately show ?thesis using Cons go(2,5,6) c elsewhere_trans [OF init(4) go(3)] by simp
qed

section \<open>The invariant of the manager\<close>

text \<open>A page in use is a well-formed page that is active or full, or a new one.\<close>

definition held :: "crc32_le \<Rightarrow> nat \<Rightarrow> page \<Rightarrow> cchanflash \<Rightarrow> bool" where
  "held crc k p fl \<longleftrightarrow> page_ok crc k p fl \<and> (mState p = ACTIVE \<or> mState p = FULL) \<or> new_in k p fl"

definition manager_ok :: "crc32_le \<Rightarrow> nat \<Rightarrow> page_manager \<Rightarrow> cchanflash \<Rightarrow> bool" where
  "manager_ok crc b m fl \<longleftrightarrow> flash_ok fl \<and> distinct (mPageList m @ mFreePageList m) \<and>
     set (mPageList m @ mFreePageList m) = {..<length (mPages m)} \<and>
     mPageList m \<noteq> [] \<and> mFreePageList m \<noteq> [] \<and>
     (\<forall>i \<in> set (mPageList m). held crc (b + i) (mPages m ! i) fl) \<and>
     (\<forall>i \<in> set (mFreePageList m). new_in (b + i) (mPages m ! i) fl) \<and>
     (\<forall>i \<in> set (butlast (mPageList m)). mState (mPages m ! i) \<noteq> UNINITIALIZED)"

text \<open>The items of the store with their values, in the order in which they are searched\<close>

definition stored_in :: "nat \<Rightarrow> page_manager \<Rightarrow> cchanflash \<Rightarrow> nat list \<Rightarrow> (Item \<times> u8 list) list" where
  "stored_in b m fl is = concat (map (\<lambda>i. contents (b + i) (mPages m ! i) fl) is)"

definition in_store :: "nat \<Rightarrow> page_manager \<Rightarrow> cchanflash \<Rightarrow> (Item \<times> u8 list) list" where
  "in_store b m fl = stored_in b m fl (mPageList m)"

text \<open>Only the sectors of the partition have changed.\<close>

definition within :: "nat \<Rightarrow> nat \<Rightarrow> cchanflash \<Rightarrow> cchanflash \<Rightarrow> bool" where
  "within b n fl fl' \<longleftrightarrow> valid_address fl' = valid_address fl \<and>
     (\<forall>a. valid_address fl a \<and> \<not> (b \<le> a div 4096 \<and> a div 4096 < b + n) \<longrightarrow> flash_word fl' a = flash_word fl a)"

lemma within_refl [simp]: "within b n fl fl"
  by (simp add: within_def)

lemma within_trans: "within b n x y \<Longrightarrow> within b n y z \<Longrightarrow> within b n x z"
  by (simp add: within_def)

lemma elsewhere_within: "elsewhere (b + i) fl fl' \<Longrightarrow> i < n \<Longrightarrow> within b n fl fl'"
  by (auto simp: elsewhere_def within_def)

lemma held_elsewhere:
  assumes "held crc k p fl" "elsewhere j fl fl'" "j \<noteq> k" "flash_ok fl'"
  shows "held crc k p fl'" "contents k p fl' = contents k p fl"
proof -
  show "held crc k p fl'"
    using assms(1) page_elsewhere(1) [OF _ assms(2-4)] new_elsewhere [OF _ assms(2-4)] unfolding held_def by blast
  show "contents k p fl' = contents k p fl"
    using assms(1) page_elsewhere(3) [OF _ assms(2-4)] new_in_use new_elsewhere [OF _ assms(2-4)]
    unfolding held_def by metis
qed

section \<open>Making room\<close>

lemma on_page_some:
  "i < length (mPages m) \<Longrightarrow> f (mPages m ! i) fl = Some (err, p, fl') \<Longrightarrow>
   on_page i f m fl = Some (err, m\<lparr>mPages := (mPages m)[i := p]\<rparr>, fl')"
  by (simp add: on_page_def elem_def)

text \<open>\<open>roomiest pages is n it\<close>: what the loop over the pages looks for\<close>

definition roomiest :: "page list \<Rightarrow> nat list \<Rightarrow> nat \<Rightarrow> nat option \<Rightarrow> bool" where
  "roomiest pages is n it \<longleftrightarrow> (\<forall>i \<in> set is. ENTRY_COUNT - unat (mUsedEntryCount (pages ! i)) \<le> n) \<and>
     (case it of None \<Rightarrow> n = 0
      | Some e \<Rightarrow> e \<in> set is \<and> 0 < n \<and> n = ENTRY_COUNT - unat (mUsedEntryCount (pages ! e)))"

lemma most_unused_step:
  assumes "\<forall>i \<in> set is. i < length pages \<and> unat (mUsedEntryCount (pages ! i)) \<le> ENTRY_COUNT" "roomiest pages before n it"
  shows "\<exists>n' it'. most_unused pages is n it = Some (n', it') \<and> roomiest pages (before @ is) n' it'"
  using assms
proof (induction "is" arbitrary: before n it)
  case Nil
  then show ?case by simp
next
  case (Cons i "is")
  let ?u = "ENTRY_COUNT - unat (mUsedEntryCount (pages ! i))"
  have u: "size_sub ENTRY_COUNT (unat (mUsedEntryCount (pages ! i))) = ?u" "elem pages i = Some (pages ! i)"
    using Cons.prems(1) by (simp_all add: elem_def ENTRY_COUNT_def)
  have "roomiest pages (before @ [i]) (if n < ?u then ?u else n) (if n < ?u then Some i else it)"
    using Cons.prems(2) by (auto simp: roomiest_def split: option.splits)
  from Cons.IH [OF _ this] Cons.prems(1) show ?case by (auto simp: u Let_def split: if_splits)
qed

lemma most_unused_law:
  assumes "\<forall>i \<in> set is. i < length pages \<and> unat (mUsedEntryCount (pages ! i)) \<le> ENTRY_COUNT"
  shows "\<exists>n it. most_unused pages is 0 None = Some (n, it) \<and> roomiest pages is n it"
  using most_unused_step [OF assms, of "[]"] by (simp add: roomiest_def)

lemma held_page: "held crc k p fl \<Longrightarrow> mState p \<noteq> UNINITIALIZED \<Longrightarrow> page_ok crc k p fl \<and> (mState p = ACTIVE \<or> mState p = FULL)"
  by (auto simp: held_def new_in_def)

lemma held_used: "held crc k p fl \<Longrightarrow> unat (mUsedEntryCount p) \<le> ENTRY_COUNT"
  using used_count [of crc k p fl] by (fastforce simp: held_def new_in_def)

lemma new_not_corrupt: "new_in k p fl \<Longrightarrow> mState p \<noteq> CORRUPT"
  by (simp add: new_in_def UNINITIALIZED_def CORRUPT_def FREEING_def FULL_def ACTIVE_def PSB_INIT_def PSB_FULL_def PSB_FREEING_def PSB_CORRUPT_def)

text \<open>Taking the first free page into use\<close>

definition activated :: "nat \<Rightarrow> nat list \<Rightarrow> page_manager \<Rightarrow> page_manager" where
  "activated i rest m = m\<lparr>mFreePageList := rest, mPageList := mPageList m @ [i],
     mPages := (mPages m)[i := (mPages m ! i)\<lparr>mSeqNumber := mNextSeqNumber m\<rparr>], mNextSeqNumber := mNextSeqNumber m + 1\<rparr>"

lemma activatePage_new:
  assumes "mFreePageList m = i # rest" "i < length (mPages m)" "new_in k (mPages m ! i) fl"
  shows "activatePage m fl = Some (ESP_OK, activated i rest m, fl)"
    and "new_in k ((mPages m ! i)\<lparr>mSeqNumber := n\<rparr>) fl"
  using assms new_not_corrupt [OF assms(3)]
  by (simp_all add: activatePage_def page_state_def elem_def activated_def setSeqNumber_def new_in_def)

text \<open>Moving the items of page \<open>p\<close> to the new page \<open>q\<close> and erasing \<open>p\<close>\<close>

lemma moved_page:
  assumes "j \<noteq> k" and ok: "page_ok crc k p fl" "mState p = ACTIVE \<or> mState p = FULL" and new: "new_in j q fl"
  shows "\<exists>p1 fl1 err q' fl2 p' fl3. markFreeing p fl = Some (ESP_OK, p1, fl1) \<and>
    copyItems crc p1 q fl1 = Some (err, q', fl2) \<and> (err = ESP_OK \<or> err = ESP_ERR_NVS_NOT_FOUND) \<and>
    erase_page p1 fl2 = Some (ESP_OK, p', fl3) \<and> new_in k p' fl3 \<and> mUsedEntryCount q' = mUsedEntryCount p \<and>
    held crc j q' fl3 \<and> contents j q' fl3 = contents k p fl \<and>
    (mState q' = UNINITIALIZED \<or> mState q' = ACTIVE \<and> mNextFreeEntry q' = unat (mUsedEntryCount p)) \<and>
    flash_ok fl3 \<and> (\<exists>fl2. elsewhere k fl fl1 \<and> elsewhere j fl1 fl2 \<and> elsewhere k fl2 fl3 \<and> flash_ok fl1 \<and> flash_ok fl2)"
proof -
  let ?p = "p\<lparr>mState := FREEING\<rparr>"
  obtain fl1 where a: "alterPageState FREEING p fl = Some (ESP_OK, ?p, fl1)" "page_ok crc k ?p fl1"
    "items k ?p fl1 = items k p fl" "contents k ?p fl1 = contents k p fl" and "elsewhere k fl fl1"
    using alterPageState_law [OF ok(1), of FREEING] sector_written_elsewhere by blast
  have f1: "flash_ok fl1" using a(2) by (simp add: page_ok_def sector_ok_def)
  have q: "new_in j q fl1" by (rule new_elsewhere [OF new \<open>elsewhere k fl fl1\<close> _ f1]) (use assms(1) in simp)
  have "\<exists>err q' fl2. copyItems crc ?p q fl1 = Some (err, q', fl2) \<and> (err = ESP_OK \<or> err = ESP_ERR_NVS_NOT_FOUND) \<and>
    elsewhere j fl1 fl2 \<and> flash_ok fl2 \<and> held crc j q' fl2 \<and> contents j q' fl2 = contents k p fl \<and>
    mUsedEntryCount q' = mUsedEntryCount p \<and>
    (mState q' = UNINITIALIZED \<or> mState q' = ACTIVE \<and> mNextFreeEntry q' = unat (mUsedEntryCount p))"
  proof (cases "items k p fl = []")
    case True
    then have "mUsedEntryCount p = 0" "contents k p fl = []" using ok(1) by (simp_all add: page_ok_def contents_def)
    then show ?thesis using copyItems_law [OF assms(1) a(2) q] True q f1 new_in_use [OF q]
      by (auto simp: a(3) held_def new_in_def)
  next
    case False
    have "unat (mUsedEntryCount p) = span_sum (items k p fl)" by (rule used_count(1) [OF ok(1)])
    then show ?thesis using copyItems_law [OF assms(1) a(2) q] False
      by (auto simp: a(3,4) held_def page_ok_def sector_ok_def)
  qed
  then obtain err q' fl2 where c: "copyItems crc ?p q fl1 = Some (err, q', fl2)" "err = ESP_OK \<or> err = ESP_ERR_NVS_NOT_FOUND"
    "elsewhere j fl1 fl2" "flash_ok fl2" "held crc j q' fl2" "contents j q' fl2 = contents k p fl"
    "mUsedEntryCount q' = mUsedEntryCount p"
    "mState q' = UNINITIALIZED \<or> mState q' = ACTIVE \<and> mNextFreeEntry q' = unat (mUsedEntryCount p)" by blast
  have p2: "page_ok crc k ?p fl2" by (rule page_elsewhere(1) [OF a(2) c(3) assms(1) c(4)])
  then have "sector_ok k fl2" "mBaseAddress ?p = of_nat (4096 * k)" by (simp_all add: page_ok_def page_in_def)
  from erase_page_law [OF this] obtain p' fl3 where e: "erase_page ?p fl2 = Some (ESP_OK, p', fl3)" "new_in k p' fl3"
    "elsewhere k fl2 fl3" by blast
  have f3: "flash_ok fl3" using e(2) by (simp add: new_in_def sector_ok_def)
  note held_elsewhere [OF c(5) e(3) _ f3]
  then show ?thesis
    using a(1) c e ok(2) f1 f3 assms(1) \<open>elsewhere k fl fl1\<close> unfolding markFreeing_def by fastforce
qed

text \<open>A page that takes what comes next: a new one, or an active one with a free entry\<close>

definition takes_more :: "page \<Rightarrow> bool" where
  "takes_more p \<longleftrightarrow> mState p = UNINITIALIZED \<or> mState p = ACTIVE \<and> mNextFreeEntry p < ENTRY_COUNT"

lemma held_flash_ok: "held crc k p fl \<Longrightarrow> flash_ok fl"
  by (auto simp: held_def page_ok_def new_in_def sector_ok_def)

lemma manager_page:
  assumes "manager_ok crc b m fl"
  shows "i \<in> set (mPageList m) \<Longrightarrow> i < length (mPages m) \<and> held crc (b + i) (mPages m ! i) fl"
    and "i \<in> set (mFreePageList m) \<Longrightarrow> i < length (mPages m) \<and> new_in (b + i) (mPages m ! i) fl"
  using assms by (auto simp: manager_ok_def)

text \<open>Each page is still there with its items, or has become free.\<close>

definition pages_kept :: "nat \<Rightarrow> page_manager \<Rightarrow> cchanflash \<Rightarrow> page_manager \<Rightarrow> cchanflash \<Rightarrow> bool" where
  "pages_kept b m fl m' fl' \<longleftrightarrow> (\<forall>i \<in> set (mPageList m). i \<in> set (mFreePageList m') \<or>
     i \<in> set (mPageList m') \<and> contents (b + i) (mPages m' ! i) fl' = contents (b + i) (mPages m ! i) fl)"

lemma activate_ok:
  assumes ok: "manager_ok crc b m fl" and free: "mFreePageList m = n # rest" "rest \<noteq> []"
    and used: "\<forall>i \<in> set (mPageList m). mState (mPages m ! i) \<noteq> UNINITIALIZED"
  shows "manager_ok crc b (activated n rest m) fl" and "in_store b (activated n rest m) fl = in_store b m fl"
    and "pages_kept b m fl (activated n rest m) fl"
proof -
  let ?q = "(mPages m ! n)\<lparr>mSeqNumber := mNextSeqNumber m\<rparr>"
  have dist: "distinct (mPageList m @ mFreePageList m)" and all: "set (mPageList m @ mFreePageList m) = {..<length (mPages m)}"
    using ok by (simp_all add: manager_ok_def)
  have n: "n < length (mPages m)" "new_in (b + n) (mPages m ! n) fl" using manager_page(2) [OF ok, of n] free by simp_all
  have q: "new_in (b + n) ?q fl" using n(2) by (simp add: new_in_def)
  have other: "i \<noteq> n" if "i \<in> set (mPageList m) \<or> i \<in> set rest" for i using that dist free by auto
  then have same: "(mPages m)[n := ?q] ! i = mPages m ! i" if "i \<in> set (mPageList m) \<or> i \<in> set rest" for i
    using that by (metis nth_list_update_neq)
  show "manager_ok crc b (activated n rest m) fl"
    using ok all dist n(1) q free same used
    by (auto simp: manager_ok_def activated_def held_def)
  show "in_store b (activated n rest m) fl = in_store b m fl"
    using same new_in_use [OF q] n(1) by (simp add: in_store_def stored_in_def activated_def cong: map_cong)
  show "pages_kept b m fl (activated n rest m) fl" using same by (simp add: pages_kept_def activated_def)
qed

lemma three_steps:
  assumes "elsewhere k fl fl1" "elsewhere j fl1 fl2" "elsewhere k fl2 fl3" "flash_ok fl1" "flash_ok fl2" "flash_ok fl3"
    "i \<noteq> k" "i \<noteq> j"
  shows "held crc i p fl \<Longrightarrow> held crc i p fl3 \<and> contents i p fl3 = contents i p fl"
  using held_elsewhere [OF _ assms(1) _ assms(4)] held_elsewhere [OF _ assms(2) _ assms(5)]
    held_elsewhere [OF _ assms(3) _ assms(6)] assms(7,8) by metis

definition collected :: "nat \<Rightarrow> nat \<Rightarrow> page \<Rightarrow> page \<Rightarrow> page_manager \<Rightarrow> page_manager" where
  "collected e n p q m = m\<lparr>mPageList := remove1 e (mPageList m) @ [n], mFreePageList := [e],
     mPages := (mPages m)[n := q, e := p], mNextSeqNumber := mNextSeqNumber m + 1\<rparr>"

lemma collected_ok:
  assumes ok: "manager_ok crc b m fl" and free: "mFreePageList m = [n]" and e: "e \<in> set (mPageList m)"
    and used: "\<forall>i \<in> set (mPageList m). mState (mPages m ! i) \<noteq> UNINITIALIZED"
    and p: "new_in (b + e) p fl'" and q: "held crc (b + n) q fl'" "contents (b + n) q fl' = contents (b + e) (mPages m ! e) fl"
    and steps: "elsewhere (b + e) fl fl1" "elsewhere (b + n) fl1 fl2" "elsewhere (b + e) fl2 fl'" "flash_ok fl1" "flash_ok fl2" "flash_ok fl'"
  shows "manager_ok crc b (collected e n p q m) fl'"
    and "mset (in_store b (collected e n p q m) fl') = mset (in_store b m fl)"
    and "within b (length (mPages m)) fl fl'" and "pages_kept b m fl (collected e n p q m) fl'"
proof -
  let ?P = "mPages m" let ?l = "mPageList m"
  let ?P' = "?P[n := q, e := p]"
  have dist: "distinct ?l" "n \<notin> set ?l" and all: "insert n (set ?l) = {..<length ?P}"
    using ok free by (auto simp: manager_ok_def)
  have n: "n < length ?P" "e < length ?P" "n \<noteq> e" using all e dist(2) by auto
  have rest: "held crc (b + i) (?P ! i) fl' \<and> contents (b + i) (?P ! i) fl' = contents (b + i) (?P ! i) fl \<and> ?P' ! i = ?P ! i"
    if "i \<in> set (remove1 e ?l)" for i
  proof -
    have i: "i \<in> set ?l" "i \<noteq> e" "i \<noteq> n" using that dist by auto
    then have "b + i \<noteq> b + e" "b + i \<noteq> b + n" by simp_all
    from three_steps [OF steps this] manager_page(1) [OF ok i(1)] i(2,3) show ?thesis by auto
  qed
  have at: "?P' ! n = q" "?P' ! e = p" using n by simp_all
  show "manager_ok crc b (collected e n p q m) fl'"
    unfolding manager_ok_def
  proof (intro conjI)
    show "set (mPageList (collected e n p q m) @ mFreePageList (collected e n p q m)) = {..<length (mPages (collected e n p q m))}"
      using all e dist(1) by (auto simp: collected_def)
    show "\<forall>i \<in> set (mPageList (collected e n p q m)). held crc (b + i) (mPages (collected e n p q m) ! i) fl'"
      using rest q(1) at by (auto simp: collected_def)
    show "\<forall>i \<in> set (butlast (mPageList (collected e n p q m))). mState (mPages (collected e n p q m) ! i) \<noteq> UNINITIALIZED"
      using rest used by (auto simp: collected_def dest: notin_set_remove1)
  qed (use dist n steps(6) p at in \<open>auto simp: collected_def dest: notin_set_remove1\<close>)
  have "mset (stored_in b (collected e n p q m) fl' (remove1 e ?l)) = mset (stored_in b m fl (remove1 e ?l))"
    using rest by (simp add: stored_in_def collected_def cong: map_cong)
  moreover have "mset (stored_in b m fl ?l) = mset (contents (b + e) (?P ! e) fl) + mset (stored_in b m fl (remove1 e ?l))"
    using e by (auto simp: stored_in_def remove1_append dest!: split_list_first)
  ultimately show "mset (in_store b (collected e n p q m) fl') = mset (in_store b m fl)"
    using at q(2) by (simp add: in_store_def stored_in_def collected_def)
  show "within b (length ?P) fl fl'"
    using elsewhere_within [OF steps(1) n(2)] elsewhere_within [OF steps(2) n(1)] elsewhere_within [OF steps(3) n(2)]
    by (blast intro: within_trans)
  show "pages_kept b m fl (collected e n p q m) fl'"
    unfolding pages_kept_def
  proof
    fix i
    assume "i \<in> set ?l"
    then show "i \<in> set (mFreePageList (collected e n p q m)) \<or> i \<in> set (mPageList (collected e n p q m)) \<and>
        contents (b + i) (mPages (collected e n p q m) ! i) fl' = contents (b + i) (?P ! i) fl"
      using rest [of i] by (cases "i = e") (simp_all add: collected_def)
  qed
qed

text \<open>Nothing can be moved: one free page, and no entry of the other pages is unused.\<close>

definition exhausted :: "page_manager \<Rightarrow> bool" where
  "exhausted m \<longleftrightarrow> length (mFreePageList m) = 1 \<and>
     (\<forall>i \<in> set (mPageList m). unat (mUsedEntryCount (mPages m ! i)) = ENTRY_COUNT)"

lemma requestNewPage_law:
  assumes ok: "manager_ok crc b m fl" and used: "\<forall>i \<in> set (mPageList m). mState (mPages m ! i) \<noteq> UNINITIALIZED"
  shows "\<exists>err m' fl'. requestNewPage crc m fl = Some (err, m', fl') \<and> manager_ok crc b m' fl' \<and>
    mset (in_store b m' fl') = mset (in_store b m fl) \<and> within b (length (mPages m)) fl fl' \<and>
    length (mPages m') = length (mPages m) \<and> pages_kept b m fl m' fl' \<and>
    (if exhausted m
     then err = ESP_ERR_NVS_NOT_ENOUGH_SPACE \<and> m' = m \<and> fl' = fl
     else err = ESP_OK \<and> takes_more (mPages m' ! last (mPageList m')))"
proof (cases "2 \<le> length (mFreePageList m)")
  case True
  then obtain n rest where free: "mFreePageList m = n # rest" "rest \<noteq> []" by (cases "mFreePageList m") fastforce+
  have n: "n < length (mPages m)" "new_in (b + n) (mPages m ! n) fl" using manager_page(2) [OF ok, of n] free by simp_all
  have "takes_more (mPages (activated n rest m) ! last (mPageList (activated n rest m)))"
    using n by (simp add: takes_more_def activated_def new_in_def)
  moreover have "requestNewPage crc m fl = Some (ESP_OK, activated n rest m, fl)"
    using True activatePage_new(1) [OF free(1) n] free by (simp add: requestNewPage_def)
  ultimately show ?thesis using activate_ok [OF ok free used] True by (simp add: activated_def exhausted_def)
next
  case False
  moreover have "mFreePageList m \<noteq> []" using ok by (simp add: manager_ok_def)
  ultimately have "length (mFreePageList m) = 1" by (cases "mFreePageList m") (auto simp: not_le)
  then obtain n where free: "mFreePageList m = [n]" by (auto simp: length_Suc_conv)
  have n: "n < length (mPages m)" "new_in (b + n) (mPages m ! n) fl" "n \<notin> set (mPageList m)"
    using manager_page(2) [OF ok, of n] free ok by (auto simp: manager_ok_def)
  have "\<forall>i \<in> set (mPageList m). i < length (mPages m) \<and> unat (mUsedEntryCount (mPages m ! i)) \<le> ENTRY_COUNT"
    using manager_page(1) [OF ok] held_used by blast
  note bound = this
  obtain u it where mu: "most_unused (mPages m) (mPageList m) 0 None = Some (u, it)" "roomiest (mPages m) (mPageList m) u it"
    using most_unused_law [OF bound] by blast
  show ?thesis
  proof (cases it)
    case None
    then have "u = 0" "\<forall>i \<in> set (mPageList m). unat (mUsedEntryCount (mPages m ! i)) = ENTRY_COUNT"
      using mu(2) bound by (auto simp: roomiest_def intro: le_antisym)
    then show ?thesis using mu(1) free ok by (simp add: requestNewPage_def pages_kept_def exhausted_def)
  next
    case (Some e)
    let ?p = "mPages m ! e" and ?q = "(mPages m ! n)\<lparr>mSeqNumber := mNextSeqNumber m\<rparr>"
    have e: "e \<in> set (mPageList m)" "u \<noteq> 0" "unat (mUsedEntryCount ?p) < ENTRY_COUNT" using mu(2) Some by (auto simp: roomiest_def)
    then have en: "e < length (mPages m)" "n \<noteq> e" "b + n \<noteq> b + e" using bound n(3) by auto
    have p: "page_ok crc (b + e) ?p fl" "mState ?p = ACTIVE \<or> mState ?p = FULL"
      using held_page manager_page(1) [OF ok e(1)] used e(1) by blast+
    note act = activatePage_new [OF free n(1,2)]
    obtain p1 fl1 err q' fl2 p' fl3 f where mv: "markFreeing ?p fl = Some (ESP_OK, p1, fl1)"
      "copyItems crc p1 ?q fl1 = Some (err, q', fl2)" "err = ESP_OK \<or> err = ESP_ERR_NVS_NOT_FOUND"
      "erase_page p1 fl2 = Some (ESP_OK, p', fl3)" "new_in (b + e) p' fl3" "mUsedEntryCount q' = mUsedEntryCount ?p"
      "held crc (b + n) q' fl3" "contents (b + n) q' fl3 = contents (b + e) ?p fl"
      "mState q' = UNINITIALIZED \<or> mState q' = ACTIVE \<and> mNextFreeEntry q' = unat (mUsedEntryCount ?p)" "flash_ok fl3"
      "elsewhere (b + e) fl fl1" "elsewhere (b + n) fl1 f" "elsewhere (b + e) f fl3" "flash_ok fl1" "flash_ok f"
      using moved_page [OF en(3) p act(2)] by blast
    have "requestNewPage crc m fl = Some (ESP_OK, collected e n p' q' m, fl3)"
      using mu(1) free e(1,2) en n(1,3) mv(1-4,6) act(1) Some
      by (simp add: requestNewPage_def back_page_def copy_page_def on_page_def elem_def activated_def set_free_def unlink_def
          collected_def remove1_append list_update_swap [of e n])
    moreover note collected_ok [OF ok free e(1) used mv(5,7,8,11-15,10)]
    moreover have "takes_more (mPages (collected e n p' q' m) ! last (mPageList (collected e n p' q' m)))"
      using mv(9) n(1) en e(3) by (auto simp: takes_more_def collected_def)
    moreover have "\<not> exhausted m" unfolding exhausted_def using e(1) less_imp_neq [OF e(3)] by blast
    ultimately show ?thesis by (simp add: collected_def)
  qed
qed

end
