(* ===== verification/Spec2Isabelle.thy ===== *)
theory Spec2Isabelle
  imports Mqtt_Packet_Laws Mqtt_Outbox Base64 Sha1 Transport_Laws Http_Url_Laws Mqtt_Client_Runs Nvs_Runs Nvs_Api Nvs_Manager_Laws
begin

text \<open>
  ESPMOD is a library with which firmware written for the ESP32 runs as a process on a Linux machine
  inside a SystemC simulation.  Part of it is the firmware's own code, taken over from the vendor's
  development kit and compiled for the host, part of it replaces what the chip did.  The development
  models the first part where it carries its own logic, and the parts of the second that it stands on.

  \<^bold>\<open>The parts and how they interact.\<close>  Firmware calls the MQTT client (\<open>esp-mqtt/mqtt_client.c\<close>).  The client
  parses the broker's address (\<open>http_parser.cpp\<close>), builds and reads packets (\<open>esp-mqtt/lib/mqtt_msg.c\<close>),
  keeps what must be sent again in an outbox (\<open>esp-mqtt/lib/mqtt_outbox.c\<close>), and talks to the broker
  through a transport (\<open>tcp_transport/\<close>), which is a table of functions.  The TCP transport calls the socket layer
  (\<open>lwip/sockets.cpp\<close>), which simulates sockets over one serial line: a byte stream with escapes that names
  the port the bytes belong to.  Firmware that keeps settings calls the key-value store (\<open>nvs_flash/\<close>): handles of
  namespaces (\<open>nvs_api.cpp\<close>) over a store for each partition (\<open>nvs_storage.cpp\<close>), which writes items to pages
  (\<open>nvs_pagemanager.cpp\<close>, \<open>nvs_page.cpp\<close>).  A page is a sector of the flash, reached through the driver
  (\<open>spi_flash/esp_spi_flash.cpp\<close>), which asks the simulated flash (\<open>modules/cchanflash.cpp\<close>) in a text protocol over a
  channel; the partitions (\<open>spi_flash/esp_partition.cpp\<close>) are a fixed table over the same driver.  Apart from these
  stand the library routines for base64 and SHA-1 (\<open>mbedtls/library\<close>), which the WebSocket transport and firmware use.

  \<^bold>\<open>The theories\<close>, each with its state and operations under the names of the source.

  \<^item> \<open>Esp_Prelude\<close>: machine integers as the compiler of the host has them (\<open>int\<close> is \<open>i32\<close>, \<open>size_t\<close> a
    number with its wrap-around written out), memory as lists with accesses that fail outside them, C
    strings, and the interfaces shared by several components: \<open>codec\<close> (what decoding promises about
    encoding), \<open>invariant_machine\<close> and \<open>fifo\<close>.
  \<^item> \<open>Mqtt_Msg\<close>: \<open>mqtt_msg.c\<close> and \<open>mqtt_msg.h\<close>, every builder and reader over the record \<open>mqtt_connection\<close>.
    \<open>Mqtt_Wire\<close> has the packet format of MQTT 3.1.1 as a specification, \<open>Mqtt_Packets\<close> shows what the builders
    write, \<open>Mqtt_Readers\<close> what the readers return, \<open>Mqtt_Packet_Laws\<close> the properties of the two together.
  \<^item> \<open>Mqtt_Outbox\<close>: \<open>mqtt_outbox.c\<close>; the linked list is a list of records with the address of each item, so
    that removal by address is what the macro does.  Order of service, expiry, cleaning up, leaks.
  \<^item> \<open>Base64\<close>, \<open>Sha1\<close>: \<open>mbedbase64.c\<close> and \<open>sha1.c\<close>, each with the reference it is shown equal to (RFC 4648,
    FIPS 180-4).
  \<^item> \<open>Sockets\<close>: \<open>sockets.cpp\<close>.  The globals are the record \<open>net\<close> (the table of descriptors, the serial line as
    the bytes written and the room left), the receiving thread's variables the record \<open>fill\<close>; a call that
    waits is given the list of what other threads do while it sleeps.  \<open>Socket_Laws\<close>: framing of the
    serial line, the table of descriptors under every sequence of calls and bytes, reading, \<open>select\<close>.
  \<^item> \<open>Transport\<close>: \<open>esp_transport.c\<close>, \<open>esp_transport_tcp.c\<close>, \<open>esp_transport_utils.c\<close> over a world of allocated
    records; functions that firmware installs are the parameter \<open>others\<close>.  \<open>Transport_Laws\<close>: delivery through
    the layers, and the interface \<open>byte_stream\<close> that a client of a transport relies on, interpreted on the TCP
    transport.
  \<^item> \<open>Http_Url\<close>: the part of \<open>http_parser.cpp\<close> that parses addresses.  \<open>Http_Url_Laws\<close>: it is safe on every input
    and recovers every well-formed broker address.
  \<^item> \<open>Mqtt_Client\<close>: \<open>mqtt_client.c\<close> over all of these; the record \<open>sys\<close> is the client, the world of transports and
    the outside, the parameter \<open>env\<close> the clock, the random source, the other threads and the firmware's event
    handlers.  \<open>Mqtt_Client_Laws\<close> follows the reception of a message byte by byte; \<open>Mqtt_Client_Steps\<close> shows once
    for every operation what it may change; \<open>Mqtt_Client_Runs\<close> has the properties of runs: the
    interleavings of task and API keep the client well-formed, the state machine, reconnection, keep-alive,
    and what an acknowledgement completes.
  \<^item> \<open>C_Text\<close>: the conversions of \<open>printf\<close> and \<open>sscanf\<close> that the flash protocol uses, with their round trips.
  \<^item> \<open>Flash\<close>: \<open>cchanflash.cpp\<close>; the record \<open>cchanflash\<close> is the module with the two queues of the channel, \<open>serve\<close>
    one turn of its thread.  \<open>Spi_Flash\<close>: \<open>esp_spi_flash.cpp\<close>, each call one request and one turn.  \<open>Partition\<close>:
    \<open>esp_partition.cpp\<close>.  \<open>Flash_Laws\<close>: the flash as a memory of words (\<open>flash_word\<close>), the interface \<open>word_store\<close>
    that a client of the driver relies on, interpreted on the driver; \<open>Flash_Runs\<close>: the properties of driver,
    module and partitions.
  \<^item> \<open>Nvs_Types\<close>: items, the table of entry states and the hash list (\<open>nvs_types\<close>, \<open>compressed_enum_table.hpp\<close>,
    \<open>nvs_item_hash_list.cpp\<close>).  \<open>Nvs_Page\<close>: \<open>nvs_page.cpp\<close> over the record \<open>page\<close> and the flash.  \<open>Nvs_Manager\<close>:
    \<open>nvs_pagemanager.cpp\<close>, pages by their index.  \<open>Nvs_Storage\<close>: \<open>nvs_storage.cpp\<close>.  \<open>Nvs_Api\<close>: \<open>nvs_api.cpp\<close> over
    the record \<open>nvs\<close> of its globals.
  \<^item> \<open>Nvs_Type_Laws\<close>: the interfaces \<open>state_table\<close> and \<open>item_index\<close> of the entry table and the hash list, interpreted
    on the two.  \<open>Nvs_Page_Laws\<close>: what each write of a page does to the words of its sector.  \<open>Nvs_Page_Items\<close>: the
    invariant of a page and the page as a list of items, which writing appends to and erasing filters.
    \<open>Nvs_Runs\<close>: the properties of a page.

  \<^bold>\<open>Results.\<close>  \<open>None\<close> is undefined behaviour in the sense of the C standard, a failed assertion, or a
  thread that stays blocked; a theorem that a function returns says so with \<open>Some\<close>.  Error codes are values.

  \<^bold>\<open>Bounds and fuel.\<close>  \<open>receive_length\<close> counts at most six passes, since the loop of the source stops at
  \<open>in_buffer_read_len = 6\<close>; \<open>__espm_readline\<close> gets one more than the bytes that are or will be buffered, and each pass takes one; closing a listener closes what
  it accepted to a depth bounded by the number of descriptors.  Loops that may not end (\<open>task_loop\<close>,
  \<open>send_fragments\<close>, \<open>choose_message_id\<close>, and in the store the loops that go from item to item and \<open>write_chunks\<close>) are
  partial functions whose value is then \<open>None\<close>.  The other loops are recursive functions with a termination proof.  In
  the flash \<open>None\<close> is also the end of the simulation, since a refused request stops it.

  \<^bold>\<open>Parameters.\<close>  The C library's \<open>rand\<close>, the simulated clock, the text of addresses, the turns other
  threads take, and callbacks of firmware are arguments of the definitions that use them.  Allocation is taken to
  succeed, as the source does not check it in this build (\<open>ESP_MEM_CHECK\<close> is empty).  The API locks of the
  client are compiled out.  The checksum \<open>crc32_le\<close>, which is only declared, is the parameter \<open>crc\<close> of the
  key-value store; no property assumes anything of it.  The encryption of the store is off in this build.

  \<^bold>\<open>Not modelled.\<close>  The SystemC models of the peripherals (\<open>modules/\<close>), the test bench (\<open>tbintf/\<close>, \<open>intf/\<close>) and
  what only moves values between firmware and their registers (\<open>driver/\<close>, \<open>cores/\<close>): concurrent processes
  whose meaning is that of the SystemC kernel, which is not part of the repository.  The register
  headers (\<open>soc/\<close>) and the headers of FreeRTOS, lwIP and mbedtls are constants and declarations.  The WiFi,
  Bluetooth and web server libraries are wrappers in the style of Arduino over the sockets.  The
  message part of \<open>http_parser.cpp\<close> is not reached from the client.  Of the key-value store the encryption, which
  calls a library that is not part of the repository, and the host tests are left out.
\<close>

end
